(* ===== verification/Prelude.thy ===== *)
theory Prelude
  imports Main "HOL-Library.Word" "HOL-Library.Char_ord"
begin

text \<open>
  Shared vocabulary of the development: the integer types of the C sources, the outcome
  type of operations that may hit a \<open>BUG_ON\<close> or undefined behaviour, the error codes
  the kernel modules return, and the small part of the C string library the sources use
  (\<open>strncmp\<close> against a literal, \<open>strstr\<close>, the kernel's \<open>sscanf\<close> with the directives
  \<open>%u\<close> and \<open>%s\<close>, decimal printing), with the lemmas every component proof rests on.
\<close>

unbundle bit_operations_syntax

section \<open>Types\<close>

type_synonym u8 = "8 word"
type_synonym u16 = "16 word"
type_synonym u32 = "32 word"
type_synonym u64 = "64 word"

text \<open>
  \<open>BugOn\<close> is a failed \<open>BUG_ON\<close> or \<open>assert\<close> (the process or the kernel stops);
  \<open>Undefined\<close> is an access outside an object or a signed overflow; \<open>NoFuel\<close> marks a loop
  cut off by its step bound (a loop with this outcome for every bound does not end).
\<close>

datatype fault = BugOn | Undefined | NoFuel

datatype 'a run = Ret 'a | Fault fault

fun run_bind :: "'a run \<Rightarrow> ('a \<Rightarrow> 'b run) \<Rightarrow> 'b run" where
  "run_bind (Ret x) f = f x"
| "run_bind (Fault e) f = Fault e"

datatype errno = EINVAL | EEXIST | ENOSPC | ENOENT | EACCES | ENOMEM | EFAULT | ENOPROTOOPT
  | ECANCELED | ETIMEDOUT | ERESTARTSYS | EPERM | EIO

named_theorems run_simps \<open>evaluation of the outcome type\<close>

lemma run_bind_eq_Ret [run_simps]:
  "run_bind m f = Ret y \<longleftrightarrow> (\<exists>x. m = Ret x \<and> f x = Ret y)"
  by (cases m) auto

lemma run_bind_cong [fundef_cong]:
  "m = m' \<Longrightarrow> (\<And>x. m' = Ret x \<Longrightarrow> f x = g x) \<Longrightarrow> run_bind m f = run_bind m' g"
  by (cases m') auto

lemma run_bind_assoc: "run_bind (run_bind m f) g = run_bind m (\<lambda>x. run_bind (f x) g)"
  by (cases m) auto

lemma run_bind_Ret_right [simp]: "run_bind m Ret = m"
  by (cases m) auto

text \<open>\<open>BUG_ON\<close> and \<open>assert\<close>.\<close>

definition assertion :: "bool \<Rightarrow> unit run" where
  "assertion b = (if b then Ret () else Fault BugOn)"

lemma assertion_Ret [simp]: "assertion b = Ret u \<longleftrightarrow> b"
  by (simp add: assertion_def)

lemma assertion_True [simp]: "assertion True = Ret ()"
  by (simp add: assertion_def)

lemma run_bind_assertion: "run_bind (assertion b) f = (if b then f () else Fault BugOn)"
  by (simp add: assertion_def)

section \<open>Characters and C strings\<close>

definition cv :: "char \<Rightarrow> nat" where
  "cv c = of_char c"

definition is_digit :: "char \<Rightarrow> bool" where
  "is_digit c \<longleftrightarrow> 48 \<le> cv c \<and> cv c \<le> 57"

text \<open>The kernel's \<open>isspace\<close>: tab, newline, vertical tab, form feed, return, space, and 0xa0.\<close>

definition is_space :: "char \<Rightarrow> bool" where
  "is_space c \<longleftrightarrow> (9 \<le> cv c \<and> cv c \<le> 13) \<or> cv c = 32 \<or> cv c = 160"

definition newline :: char where
  "newline = CHR 0x0A"

definition to_lower :: "char \<Rightarrow> char" where
  "to_lower c = (if 65 \<le> cv c \<and> cv c \<le> 90 then char_of (cv c + 32) else c)"

text \<open>\<open>strcasecmp (a, b) == 0\<close>.\<close>

definition strcase_eq :: "string \<Rightarrow> string \<Rightarrow> bool" where
  "strcase_eq a b \<longleftrightarrow> map to_lower a = map to_lower b"

text \<open>The C string that starts at a buffer: everything before the first NUL.\<close>

definition cstr :: "string \<Rightarrow> string" where
  "cstr s = takeWhile (\<lambda>c. c \<noteq> CHR 0x00) s"

lemma cstr_id [simp]: "CHR 0x00 \<notin> set s \<Longrightarrow> cstr s = s"
  by (auto simp: cstr_def takeWhile_eq_all_conv)

text \<open>\<open>strncmp (s, lit, strlen (lit)) == 0\<close> for a literal without NUL.\<close>

fun starts_with :: "string \<Rightarrow> string \<Rightarrow> bool" where
  "starts_with s [] = True"
| "starts_with [] (p # ps) = False"
| "starts_with (c # s) (p # ps) = (c = p \<and> starts_with s ps)"

lemma starts_with_iff: "starts_with s p \<longleftrightarrow> take (length p) s = p"
  by (induction s p rule: starts_with.induct) auto

lemma starts_with_append [simp]: "starts_with (p @ s) p"
  by (simp add: starts_with_iff)

text \<open>\<open>strstr\<close>: the suffix at the first occurrence.\<close>

fun strstr :: "string \<Rightarrow> string \<Rightarrow> string option" where
  "strstr [] p = (if p = [] then Some [] else None)"
| "strstr (c # s) p = (if starts_with (c # s) p then Some (c # s) else strstr s p)"

lemma strstr_Some_starts: "strstr s p = Some t \<Longrightarrow> starts_with t p"
  by (induction s) (auto split: if_splits)

section \<open>Decimal numbers\<close>

definition digit_char :: "nat \<Rightarrow> char" where
  "digit_char d = char_of (48 + d)"

text \<open>\<open>%u\<close> and \<open>%d\<close> of a non-negative value.\<close>

fun dec :: "nat \<Rightarrow> string" where
  "dec n = (if n < 10 then [digit_char n] else dec (n div 10) @ [digit_char (n mod 10)])"

declare dec.simps [simp del]

text \<open>The loop of \<open>simple_strtoul\<close> in base 10: the value and the rest of the input.\<close>

fun scan_digits :: "nat \<Rightarrow> string \<Rightarrow> nat \<times> string" where
  "scan_digits acc [] = (acc, [])"
| "scan_digits acc (c # s) =
     (if is_digit c then scan_digits (10 * acc + (cv c - 48)) s else (acc, c # s))"

lemma cv_char_of [simp]: "n < 256 \<Longrightarrow> cv (char_of n) = n"
  by (simp add: cv_def)

lemma cv_inject [simp]: "cv c = cv d \<longleftrightarrow> c = d"
  by (simp add: cv_def)

lemma cv_digit_char [simp]: "d < 10 \<Longrightarrow> cv (digit_char d) = 48 + d"
  by (simp add: digit_char_def)

lemma is_digit_digit_char [simp]: "d < 10 \<Longrightarrow> is_digit (digit_char d)"
  by (simp add: is_digit_def)

lemma digit_not_space [simp]: "is_digit c \<Longrightarrow> \<not> is_space c"
  by (auto simp: is_digit_def is_space_def)

lemma dec_nonempty [simp]: "dec n \<noteq> []"
  by (subst dec.simps) simp

lemma length_dec_pos [simp]: "0 < length (dec n)"
  by simp

lemma dec_digits: "c \<in> set (dec n) \<Longrightarrow> is_digit c"
proof (induction n rule: dec.induct)
  case (1 n)
  then show ?case by (cases "n < 10") (auto simp: dec.simps [of n])
qed

lemma list_all_dec [simp]: "list_all is_digit (dec n)"
  by (auto simp: list_all_iff dest: dec_digits)

lemma scan_digits_append:
  "list_all is_digit ds \<Longrightarrow> scan_digits acc (ds @ r) = scan_digits (fst (scan_digits acc ds)) r"
  by (induction ds arbitrary: acc) auto

lemma scan_digits_all_digits: "list_all is_digit ds \<Longrightarrow> snd (scan_digits acc ds) = []"
  by (induction ds arbitrary: acc) auto

lemma scan_digits_dec_value: "fst (scan_digits 0 (dec n)) = n"
proof (induction n rule: dec.induct)
  case (1 n)
  show ?case
  proof (cases "n < 10")
    case True
    then show ?thesis by (simp add: dec.simps [of n])
  next
    case False
    with 1 have "fst (scan_digits 0 (dec (n div 10))) = n div 10" by simp
    with False show ?thesis
      by (simp add: dec.simps [of n] scan_digits_append)
  qed
qed

lemma scan_digits_stop: "(\<forall>c cs. r = c # cs \<longrightarrow> \<not> is_digit c) \<Longrightarrow> scan_digits acc r = (acc, r)"
  by (cases r) auto

text \<open>Reading back a printed number, up to a character that is not a digit.\<close>

lemma scan_digits_dec [simp]:
  assumes "\<forall>c cs. r = c # cs \<longrightarrow> \<not> is_digit c"
  shows "scan_digits 0 (dec n @ r) = (n, r)"
  using assms by (simp add: scan_digits_append scan_digits_dec_value scan_digits_stop)

lemma dec_Cons_digit: "\<exists>c cs. dec n = c # cs \<and> is_digit c"
  by (metis dec_digits dec_nonempty list.set_intros(1) neq_Nil_conv)

lemma length_dec_le: "n < 10 ^ k \<Longrightarrow> 0 < k \<Longrightarrow> length (dec n) \<le> k"
proof (induction k arbitrary: n)
  case 0
  then show ?case by simp
next
  case (Suc k)
  show ?case
  proof (cases "n < 10")
    case True
    then show ?thesis by (simp add: dec.simps [of n])
  next
    case False
    with Suc.prems have "0 < k" by (cases k) auto
    moreover from Suc.prems have "n div 10 < 10 ^ k" by (simp add: less_mult_imp_div_less mult.commute)
    ultimately have "length (dec (n div 10)) \<le> k" by (rule Suc.IH [rotated])
    with False show ?thesis by (simp add: dec.simps [of n])
  qed
qed

lemma length_dec_u16: "length (dec (unat (w :: u16))) \<le> 5"
proof (rule length_dec_le)
  have "unat w < 2 ^ LENGTH(16)" by (rule unsigned_less)
  then show "unat w < 10 ^ 5" by simp
qed simp

lemma length_dec_u32: "length (dec (unat (w :: u32))) \<le> 10"
proof (rule length_dec_le)
  have "unat w < 2 ^ LENGTH(32)" by (rule unsigned_less)
  then show "unat w < 10 ^ 10" by simp
qed simp

lemma length_dec_u64: "length (dec (unat (w :: u64))) \<le> 20"
proof (rule length_dec_le)
  have "unat w < 2 ^ LENGTH(64)" by (rule unsigned_less)
  then show "unat w < 10 ^ 20" by simp
qed simp

lemma dec_no_ctl [simp]:
  "newline \<notin> set (dec k)" "CHR 0x00 \<notin> set (dec k)" "CHR '' '' \<notin> set (dec k)"
  "CHR 0x0D \<notin> set (dec k)" "CHR '','' \<notin> set (dec k)" "CHR ''.'' \<notin> set (dec k)"
  by (auto dest!: dec_digits simp: is_digit_def cv_def newline_def)

text \<open>Text without a newline or a NUL, as the pieces of printed lines are.\<close>

definition plain :: "string \<Rightarrow> bool" where
  "plain s \<longleftrightarrow> list_all (\<lambda>c. c \<noteq> CHR 0x0A \<and> c \<noteq> CHR 0x00) s"

lemma plain_simps [simp]:
  "plain []" "plain (c # s) \<longleftrightarrow> c \<noteq> CHR 0x0A \<and> c \<noteq> CHR 0x00 \<and> plain s"
  "plain (s @ t) \<longleftrightarrow> plain s \<and> plain t"
  by (auto simp: plain_def)

lemma plain_dec [simp]: "plain (dec k)"
  using list_all_dec [of k] unfolding plain_def by (rule list.pred_mono_strong) (auto simp: is_digit_def cv_def)

lemma plain_word: "(\<forall>c \<in> set n. \<not> is_space c \<and> c \<noteq> CHR 0x00) \<Longrightarrow> plain n"
proof -
  have "is_space (CHR 0x0A)" by (simp add: is_space_def cv_def)
  then show "(\<forall>c \<in> set n. \<not> is_space c \<and> c \<noteq> CHR 0x00) \<Longrightarrow> plain n"
    unfolding plain_def list_all_iff by blast
qed

section \<open>The kernel's sscanf\<close>

text \<open>
  A format is a list of directives: a white-space character skips any white space, an
  ordinary character must match exactly, \<open>%u\<close> and \<open>%s\<close> fail at the end of the input
  and skip leading white space. \<open>%u\<close> needs a digit and stores the value modulo 2^32.
  The result lists the conversions made, so its length is the value \<open>sscanf\<close> returns.
\<close>

datatype directive = Lit char | Spc | PctU | PctS

datatype scanned = ScanU u32 | ScanS string

fun fmt :: "string \<Rightarrow> directive list" where
  "fmt [] = []"
| "fmt [c] = [if is_space c then Spc else Lit c]"
| "fmt (c # d # s) =
     (if c = CHR ''%'' \<and> d = CHR ''u'' then PctU # fmt s
      else if c = CHR ''%'' \<and> d = CHR ''s'' then PctS # fmt s
      else (if is_space c then Spc else Lit c) # fmt (d # s))"

fun sscanf :: "directive list \<Rightarrow> string \<Rightarrow> scanned list" where
  "sscanf [] s = []"
| "sscanf (Spc # ds) s = sscanf ds (dropWhile is_space s)"
| "sscanf (Lit c # ds) s =
     (case s of [] \<Rightarrow> [] | x # t \<Rightarrow> if x = c then sscanf ds t else [])"
| "sscanf (PctU # ds) s =
     (case dropWhile is_space s of
        [] \<Rightarrow> []
      | x # t \<Rightarrow>
          (if is_digit x
           then (let (n, r) = scan_digits 0 (x # t) in ScanU (word_of_nat n) # sscanf ds r)
           else []))"
| "sscanf (PctS # ds) s =
     (if s = [] then []
      else (let t = dropWhile is_space s
            in ScanS (takeWhile (\<lambda>c. \<not> is_space c) t) #
               sscanf ds (dropWhile (\<lambda>c. \<not> is_space c) t)))"

text \<open>One directive at a time, on input that has the expected shape.\<close>

lemma sscanf_Lit_Cons [simp]: "sscanf (Lit c # ds) (c # t) = sscanf ds t"
  by simp

lemma sscanf_PctU_dec [simp]:
  assumes "\<forall>c cs. r = c # cs \<longrightarrow> \<not> is_digit c"
  shows "sscanf (PctU # ds) (dec n @ r) = ScanU (word_of_nat n) # sscanf ds r"
proof -
  obtain c cs where c: "dec n = c # cs" "is_digit c" using dec_Cons_digit by blast
  have "scan_digits 0 (c # cs @ r) = (n, r)"
    using scan_digits_dec [OF assms, of n] c by simp
  with c show ?thesis by (simp del: scan_digits.simps)
qed

lemma sscanf_PctS_word:
  assumes "w \<noteq> []" and "\<forall>c \<in> set w. \<not> is_space c"
    and "\<forall>c cs. r = c # cs \<longrightarrow> is_space c"
  shows "sscanf (PctS # ds) (w @ r) = ScanS w # sscanf ds r"
proof -
  from assms(1,2) have skip: "dropWhile is_space (w @ r) = w @ r"
    by (cases w) auto
  from assms(3) have "takeWhile (\<lambda>c. \<not> is_space c) r = []" "dropWhile (\<lambda>c. \<not> is_space c) r = r"
    by (cases r; auto)+
  with assms(1,2) skip show ?thesis by (simp add: Let_def)
qed

lemma is_space_chars [simp]: "is_space (CHR '' '')" "is_space newline" "\<not> is_space (CHR ''='')"
  by (simp_all add: is_space_def cv_def newline_def)

lemma is_digit_chars [simp]: "\<not> is_digit (CHR ''='')" "\<not> is_digit (CHR '','')" "\<not> is_digit (CHR ''.'')"
  by (simp_all add: is_digit_def cv_def)

lemma dropWhile_space_dec [simp]:
  "dropWhile is_space (dec k @ r) = dec k @ r"
  "dropWhile is_space (CHR '' '' # dec k @ r) = dec k @ r"
proof -
  obtain c cs where "dec k = c # cs" "is_digit c" using dec_Cons_digit by blast
  then show "dropWhile is_space (dec k @ r) = dec k @ r"
    "dropWhile is_space (CHR '' '' # dec k @ r) = dec k @ r"
    by simp_all
qed

text \<open>The positions of a sequence file with \<open>n\<close> entries: the heading, the entries, the end.\<close>

lemma upt_seq_positions: "[0..<n + 2] = 0 # map Suc [0..<n] @ [Suc n]"
proof -
  have "[0..<Suc (Suc n)] = 0 # [Suc 0..<Suc (Suc n)]" by (rule upt_conv_Cons) simp
  also have "[Suc 0..<Suc (Suc n)] = map Suc [0..<n] @ [Suc n]"
    by (simp only: map_Suc_upt) (rule upt_Suc_append, simp)
  finally show ?thesis by simp
qed

lemma map_filter_append [simp]:
  "List.map_filter f (xs @ ys) = List.map_filter f xs @ List.map_filter f ys"
  by (induction xs) (simp_all add: List.map_filter_simps split: option.splits)

text \<open>
  Formats and prefixes are evaluated on demand only (\<open>scan_simps\<close>): component proofs treat
  the result of a scan as opaque.
\<close>

named_theorems scan_simps \<open>evaluation of formats, prefixes and scans\<close>

lemmas [scan_simps] = fmt.simps sscanf.simps starts_with.simps strstr.simps

declare fmt.simps [simp del] sscanf.simps [simp del] starts_with.simps [simp del] strstr.simps [simp del]

end
