(* ===== verification/Nacs_Layout.thy ===== *)
theory Nacs_Layout
  imports Prelude
begin

text \<open>
  The binary rule table that the tool \<open>ruletable\<close> builds and the kernel module \<open>nacs\<close>
  evaluates: the structures of \<open>include/src/rule_table.h\<close> as bytes, and their construction
  in \<open>ruletable/src/match_target.c\<close> and \<open>rule_entry.c\<close>. Both sides run on the same machine
  (little endian, structures aligned to 8 bytes). Memory is a list of bytes; an access
  outside it is \<open>Undefined\<close>.
\<close>

section \<open>Bytes\<close>

definition le16 :: "u16 \<Rightarrow> u8 list" where
  "le16 w = [ucast w, ucast (drop_bit 8 w)]"

definition le32 :: "u32 \<Rightarrow> u8 list" where
  "le32 w = [ucast w, ucast (drop_bit 8 w), ucast (drop_bit 16 w), ucast (drop_bit 24 w)]"

definition rd8 :: "u8 list \<Rightarrow> nat \<Rightarrow> u8 run" where
  "rd8 buf off = (if off < length buf then Ret (buf ! off) else Fault Undefined)"

definition rd16 :: "u8 list \<Rightarrow> nat \<Rightarrow> u16 run" where
  "rd16 buf off =
     (if off + 2 \<le> length buf
      then Ret (ucast (buf ! off) OR push_bit 8 (ucast (buf ! (off + 1)))) else Fault Undefined)"

definition rd32 :: "u8 list \<Rightarrow> nat \<Rightarrow> u32 run" where
  "rd32 buf off =
     (if off + 4 \<le> length buf
      then Ret (ucast (buf ! off) OR push_bit 8 (ucast (buf ! (off + 1)))
             OR push_bit 16 (ucast (buf ! (off + 2))) OR push_bit 24 (ucast (buf ! (off + 3))))
      else Fault Undefined)"

definition mem_write :: "u8 list \<Rightarrow> nat \<Rightarrow> u8 list \<Rightarrow> u8 list run" where
  "mem_write buf off bs =
     (if off + length bs \<le> length buf then Ret (take off buf @ bs @ drop (off + length bs) buf)
      else Fault Undefined)"

text \<open>\<open>bs\<close> is what the memory holds from \<open>off\<close> on.\<close>

definition located :: "u8 list \<Rightarrow> nat \<Rightarrow> u8 list \<Rightarrow> bool" where
  "located buf off bs \<longleftrightarrow> off + length bs \<le> length buf \<and> take (length bs) (drop off buf) = bs"

lemma located_append [simp]:
  "located buf off (xs @ ys) \<longleftrightarrow> located buf off xs \<and> located buf (off + length xs) ys"
  by (auto simp: located_def take_add add.commute add.left_commute)

lemma located_nth: "located buf off bs \<Longrightarrow> i < length bs \<Longrightarrow> off + i < length buf \<and> buf ! (off + i) = bs ! i"
proof -
  assume l: "located buf off bs" "i < length bs"
  then have len: "off + length bs \<le> length buf" and eq: "take (length bs) (drop off buf) = bs"
    by (simp_all add: located_def)
  have "take (length bs) (drop off buf) ! i = buf ! (off + i)" using len l(2) by simp
  with eq len l(2) show ?thesis by simp
qed

lemma located_length: "located buf off bs \<Longrightarrow> off + length bs \<le> length buf"
  by (simp add: located_def)

lemma located_refl: "located (pre @ bs @ post) (length pre) bs"
  by (simp add: located_def)

lemma length_le16 [simp]: "length (le16 w) = 2"
  by (simp add: le16_def)

lemma length_le32 [simp]: "length (le32 w) = 4"
  by (simp add: le32_def)

lemma rd8_located: "located buf off bs \<Longrightarrow> i < length bs \<Longrightarrow> rd8 buf (off + i) = Ret (bs ! i)"
  using located_nth by (simp add: rd8_def)

lemma rd16_located: "located buf off (le16 w) \<Longrightarrow> rd16 buf off = Ret w"
proof -
  assume l: "located buf off (le16 w)"
  have "buf ! off = ucast w" "buf ! (off + 1) = ucast (drop_bit 8 w)" "off + 2 \<le> length buf"
    using located_nth [OF l, of 0] located_nth [OF l, of 1] located_length [OF l] by (simp_all add: le16_def)
  moreover have "ucast (ucast w :: u8) OR push_bit 8 (ucast (ucast (drop_bit 8 w) :: u8)) = w"
    by (rule bit_word_eqI) (auto simp: bit_or_iff bit_push_bit_iff bit_ucast_iff bit_drop_bit_eq)
  ultimately show ?thesis by (simp add: rd16_def)
qed

lemma le32_join:
  fixes w :: u32
  shows "(ucast (ucast w :: u8) :: u32) OR push_bit 8 (ucast (ucast (drop_bit 8 w) :: u8))
    OR push_bit 16 (ucast (ucast (drop_bit 16 w) :: u8)) OR push_bit 24 (ucast (ucast (drop_bit 24 w) :: u8)) = w"
    (is "?l = w")
proof (rule bit_word_eqI)
  fix n assume "n < LENGTH(32)"
  then show "bit ?l n = bit w n"
    by (cases "n < 16"; cases "n < 24") (auto simp: bit_or_iff bit_push_bit_iff bit_ucast_iff bit_drop_bit_eq)
qed

lemma rd32_located: "located buf off (le32 w) \<Longrightarrow> rd32 buf off = Ret w"
proof -
  assume l: "located buf off (le32 w)"
  have "buf ! off = ucast w" "buf ! (off + 1) = ucast (drop_bit 8 w)" "buf ! (off + 2) = ucast (drop_bit 16 w)"
    "buf ! (off + 3) = ucast (drop_bit 24 w)" "off + 4 \<le> length buf"
    using located_nth [OF l, of 0] located_nth [OF l, of 1] located_nth [OF l, of 2] located_nth [OF l, of 3]
      located_length [OF l] by (simp_all add: le32_def)
  then show ?thesis using le32_join [of w] by (simp add: rd32_def)
qed

lemma mem_write_at:
  "length bs = length old \<Longrightarrow> length pre = off \<Longrightarrow> mem_write (pre @ old @ post) off bs = Ret (pre @ bs @ post)"
  by (auto simp: mem_write_def)

section \<open>Rules and their parts\<close>

definition AC_ALIGN :: "nat \<Rightarrow> nat" where
  "AC_ALIGN n = (n + 7) div 8 * 8"

record ac_rule_item =
  item_id :: u32
  src_zone_ids :: "u32 list"
  src_ipgrp_ids :: "u32 list"
  dst_zone_ids :: "u32 list"
  dst_ipgrp_ids :: "u32 list"
  proto_ids :: "u32 list"
  action :: "string list"

text \<open>A count stored in 16 bits.\<close>

definition num16 :: "'a list \<Rightarrow> u16" where
  "num16 xs = word_of_nat (length xs)"

text \<open>\<open>malloc_ok\<close> tells whether an allocation of the given size succeeds.\<close>

definition generate_flow_match ::
  "(nat \<Rightarrow> bool) \<Rightarrow> u32 list \<Rightarrow> u32 list \<Rightarrow> u32 list \<Rightarrow> u32 list \<Rightarrow> u8 list option" where
  "generate_flow_match malloc_ok src_zone src_ipgrp dst_zone dst_ipgrp =
     (if src_zone = [] \<or> src_ipgrp = [] \<or> dst_zone = [] \<or> dst_ipgrp = [] then None
      else
       (let elems_num = length src_zone + length src_ipgrp + length dst_zone + length dst_ipgrp;
            match_size = AC_ALIGN (elems_num * 1 + AC_ALIGN 16)
        in if \<not> malloc_ok match_size then None
           else
            (let elems = concat (map (\<lambda>ids. map ucast (take (unat (num16 ids)) ids))
                   [src_zone, src_ipgrp, dst_zone, dst_ipgrp])
             in Some (le16 (num16 src_zone) @ le16 (num16 src_ipgrp) @ le16 (num16 dst_zone) @
                      le16 (num16 dst_ipgrp) @ le16 (word_of_nat match_size) @ replicate 6 0 @
                      elems @ replicate (match_size - 16 - length elems) 0))))"

definition AC_PROTOID_SORT_ASC :: u16 where
  "AC_PROTOID_SORT_ASC = 1"

definition generate_proto_match :: "(nat \<Rightarrow> bool) \<Rightarrow> u32 list \<Rightarrow> u8 list option" where
  "generate_proto_match malloc_ok ids =
     (if ids = [] then None
      else
       (let match_size = AC_ALIGN (length ids * 4 + AC_ALIGN 8)
        in if \<not> malloc_ok match_size then None
           else
            (let elems = concat (map le32 (take (unat (num16 ids)) ids))
             in Some (le16 (num16 ids) @ le16 (word_of_nat match_size) @ le16 AC_PROTOID_SORT_ASC @
                      replicate 2 0 @ elems @ replicate (match_size - 8 - length elems) 0))))"

definition AC_ACCEPT :: u32 where "AC_ACCEPT = push_bit 0 1"

definition AC_AUDIT :: u32 where "AC_AUDIT = push_bit 1 1"

definition AC_REJECT :: u32 where "AC_REJECT = push_bit 2 1"

definition target_map :: "(string \<times> u32) list" where
  "target_map = [(''ACCEPT'', AC_ACCEPT), (''AUDIT'', AC_AUDIT), (''REJECT'', AC_REJECT)]"

definition target_flags :: "string list \<Rightarrow> u32" where
  "target_flags acts =
     fold (\<lambda>a f. fold (\<lambda>(name, v) f. if strcase_eq a name then f OR v else f) target_map f) acts 0"

definition generate_target :: "(nat \<Rightarrow> bool) \<Rightarrow> string list \<Rightarrow> u8 list option" where
  "generate_target malloc_ok acts =
     (if acts = [] \<or> \<not> malloc_ok (AC_ALIGN 8) then None
      else Some (le32 (word_of_nat (AC_ALIGN 8)) @ le32 (target_flags acts)))"

section \<open>Entries and tables\<close>

definition generate_ac_entry :: "(nat \<Rightarrow> bool) \<Rightarrow> ac_rule_item \<Rightarrow> u8 list option run" where
  "generate_ac_entry malloc_ok it =
     (case generate_flow_match malloc_ok (src_zone_ids it) (src_ipgrp_ids it) (dst_zone_ids it) (dst_ipgrp_ids it) of
        None \<Rightarrow> Ret None
      | Some fm \<Rightarrow>
     (case generate_proto_match malloc_ok (proto_ids it) of
        None \<Rightarrow> Ret None
      | Some pm \<Rightarrow>
     (case generate_target malloc_ok (action it) of
        None \<Rightarrow> Ret None
      | Some tg \<Rightarrow>
       (let fsz = num16 fm; psz = num16 pm;
            entry_size = AC_ALIGN 8 + unat fsz + unat psz + AC_ALIGN 8
        in if \<not> malloc_ok entry_size then Ret None
           else
            (let pmo = word_of_nat (AC_ALIGN 8) + fsz;
                 tgo = pmo + psz;
                 nxt = tgo + word_of_nat (AC_ALIGN 8)
             in run_bind (mem_write (replicate entry_size 0) 0
                    (le16 (ucast (item_id it)) @ le16 pmo @ le16 tgo @ le16 nxt)) (\<lambda>e.
                run_bind (mem_write e (AC_ALIGN 8) (take (unat fsz) fm)) (\<lambda>e.
                run_bind (mem_write e (unat pmo) (take (unat psz) pm)) (\<lambda>e.
                run_bind (mem_write e (unat tgo) tg) (\<lambda>e. Ret (Some e))))))))))"

record ac_repl_table_info =
  category :: u32
  tsize :: u32
  number :: u32
  entries :: "u8 list"

text \<open>The bytes of one entry that go into the table: \<open>next_offset\<close> many.\<close>

definition entry_part :: "u8 list \<Rightarrow> u8 list run" where
  "entry_part e = run_bind (rd16 e 6) (\<lambda>n. if unat n \<le> length e then Ret (take (unat n) e) else Fault Undefined)"

fun glue_parts :: "u8 list list \<Rightarrow> u8 list run" where
  "glue_parts [] = Ret []"
| "glue_parts (e # es) = run_bind (entry_part e) (\<lambda>p. run_bind (glue_parts es) (\<lambda>ps. Ret (p @ ps)))"

definition glue_entries_to_table :: "(nat \<Rightarrow> bool) \<Rightarrow> u8 list list \<Rightarrow> ac_repl_table_info option run" where
  "glue_entries_to_table malloc_ok es =
     (if es = [] then Ret None
      else run_bind (glue_parts es) (\<lambda>bs.
        if \<not> malloc_ok (12 + length bs) then Ret None
        else Ret (Some \<lparr>category = 0, tsize = word_of_nat (length bs), number = word_of_nat (length es), entries = bs\<rparr>)))"

fun generate_entries :: "(nat \<Rightarrow> bool) \<Rightarrow> ac_rule_item list \<Rightarrow> u8 list list option run" where
  "generate_entries malloc_ok [] = Ret (Some [])"
| "generate_entries malloc_ok (it # its) =
     run_bind (generate_ac_entry malloc_ok it) (\<lambda>e.
       case e of
         None \<Rightarrow> Ret None
       | Some e \<Rightarrow> run_bind (generate_entries malloc_ok its) (\<lambda>es. Ret (map_option ((#) e) es)))"

definition generate_ac_table ::
  "(nat \<Rightarrow> bool) \<Rightarrow> bool \<Rightarrow> ac_rule_item list \<Rightarrow> u32 \<Rightarrow> ac_repl_table_info option run" where
  "generate_ac_table malloc_ok updated items cate =
     (if \<not> updated then Ret None
      else if items = [] then
        Ret (if malloc_ok 12 then Some \<lparr>category = cate, tsize = 0, number = 0, entries = []\<rparr> else None)
      else if \<not> malloc_ok (4 * length items) then Ret None
      else run_bind (generate_entries malloc_ok items) (\<lambda>es.
        case es of
          None \<Rightarrow> Ret None
        | Some es \<Rightarrow> run_bind (glue_entries_to_table malloc_ok es) (\<lambda>t.
            Ret (map_option (\<lambda>t. t\<lparr>category := cate\<rparr>) t))))"

text \<open>The message handed to the kernel.\<close>

definition table_bytes :: "ac_repl_table_info \<Rightarrow> u8 list" where
  "table_bytes t = le32 (category t) @ le32 (tsize t) @ le32 (number t) @ entries t"

section \<open>The layout\<close>

text \<open>
  The limits the parser of the configuration enforces: non-empty lists of at most 4096 ids
  and at least one action. They keep every 16-bit offset from wrapping.
\<close>

definition AC_ID_MAXNUM_PERMATCH :: nat where
  "AC_ID_MAXNUM_PERMATCH = 4096"

definition ids_ok :: "'a list \<Rightarrow> bool" where
  "ids_ok xs \<longleftrightarrow> xs \<noteq> [] \<and> length xs \<le> AC_ID_MAXNUM_PERMATCH"

definition item_ok :: "ac_rule_item \<Rightarrow> bool" where
  "item_ok it \<longleftrightarrow> ids_ok (src_zone_ids it) \<and> ids_ok (src_ipgrp_ids it) \<and> ids_ok (dst_zone_ids it)
     \<and> ids_ok (dst_ipgrp_ids it) \<and> ids_ok (proto_ids it) \<and> action it \<noteq> []"

definition flow_elems :: "ac_rule_item \<Rightarrow> u8 list" where
  "flow_elems it = map ucast (src_zone_ids it @ src_ipgrp_ids it @ dst_zone_ids it @ dst_ipgrp_ids it)"

definition flow_size :: "ac_rule_item \<Rightarrow> nat" where
  "flow_size it = AC_ALIGN (16 + length (flow_elems it))"

definition proto_size :: "ac_rule_item \<Rightarrow> nat" where
  "proto_size it = AC_ALIGN (8 + 4 * length (proto_ids it))"

definition flow_bytes :: "ac_rule_item \<Rightarrow> u8 list" where
  "flow_bytes it =
     le16 (num16 (src_zone_ids it)) @ le16 (num16 (src_ipgrp_ids it)) @ le16 (num16 (dst_zone_ids it)) @
     le16 (num16 (dst_ipgrp_ids it)) @ le16 (word_of_nat (flow_size it)) @ replicate 6 0 @
     flow_elems it @ replicate (flow_size it - 16 - length (flow_elems it)) 0"

definition proto_bytes :: "ac_rule_item \<Rightarrow> u8 list" where
  "proto_bytes it =
     le16 (num16 (proto_ids it)) @ le16 (word_of_nat (proto_size it)) @ le16 AC_PROTOID_SORT_ASC @
     replicate 2 0 @ concat (map le32 (proto_ids it)) @ replicate (proto_size it - 8 - 4 * length (proto_ids it)) 0"

definition target_bytes :: "ac_rule_item \<Rightarrow> u8 list" where
  "target_bytes it = le32 8 @ le32 (target_flags (action it))"

definition entry_size :: "ac_rule_item \<Rightarrow> nat" where
  "entry_size it = 8 + flow_size it + proto_size it + 8"

definition entry_bytes :: "ac_rule_item \<Rightarrow> u8 list" where
  "entry_bytes it =
     le16 (ucast (item_id it)) @ le16 (word_of_nat (8 + flow_size it)) @
     le16 (word_of_nat (8 + flow_size it + proto_size it)) @ le16 (word_of_nat (entry_size it)) @
     flow_bytes it @ proto_bytes it @ target_bytes it"

lemma AC_ALIGN_bounds: "n \<le> AC_ALIGN n" "AC_ALIGN n \<le> n + 7"
  unfolding AC_ALIGN_def by presburger+

lemma AC_ALIGN_simps [simp]: "AC_ALIGN 8 = 8" "AC_ALIGN 16 = 16" "AC_ALIGN n mod 8 = 0"
  by (simp_all add: AC_ALIGN_def)

lemma length_concat_le32 [simp]: "length (concat (map le32 ids)) = 4 * length ids"
  by (induction ids) simp_all

lemma length_flow_bytes [simp]: "length (flow_bytes it) = flow_size it"
  using AC_ALIGN_bounds(1) [of "16 + length (flow_elems it)"]
  by (simp add: flow_bytes_def flow_size_def)

lemma length_proto_bytes [simp]: "length (proto_bytes it) = proto_size it"
  using AC_ALIGN_bounds(1) [of "8 + 4 * length (proto_ids it)"]
  by (simp add: proto_bytes_def proto_size_def)

lemma length_target_bytes [simp]: "length (target_bytes it) = 8"
  by (simp add: target_bytes_def)

lemma length_entry_bytes [simp]: "length (entry_bytes it) = entry_size it"
  by (simp add: entry_bytes_def entry_size_def)

text \<open>No 16-bit field of an entry wraps.\<close>

lemma entry_bounds:
  assumes "item_ok it"
  shows "flow_size it \<le> 16407" "proto_size it \<le> 16399" "entry_size it < 65536"
proof -
  have "length (flow_elems it) \<le> 4 * 4096" "length (proto_ids it) \<le> 4096"
    using assms by (auto simp: item_ok_def ids_ok_def flow_elems_def AC_ID_MAXNUM_PERMATCH_def)
  then show "flow_size it \<le> 16407" "proto_size it \<le> 16399"
    using AC_ALIGN_bounds(2) [of "16 + length (flow_elems it)"] AC_ALIGN_bounds(2) [of "8 + 4 * length (proto_ids it)"]
    by (simp_all add: flow_size_def proto_size_def)
  then show "entry_size it < 65536" by (simp add: entry_size_def)
qed

lemma unat_u16: "n < 65536 \<Longrightarrow> unat (word_of_nat n :: u16) = n"
  by (simp add: unat_of_nat take_bit_nat_eq_self)

lemma num16_ok: "length xs < 65536 \<Longrightarrow> unat (num16 xs) = length xs"
  by (simp add: num16_def unat_u16)

lemma ids_ok_num16: "ids_ok xs \<Longrightarrow> unat (num16 xs) = length xs"
  by (rule num16_ok) (simp add: ids_ok_def AC_ID_MAXNUM_PERMATCH_def)

lemma generate_flow_match_ok:
  assumes "item_ok it" and "\<forall>n. malloc_ok n"
  shows "generate_flow_match malloc_ok (src_zone_ids it) (src_ipgrp_ids it) (dst_zone_ids it) (dst_ipgrp_ids it)
    = Some (flow_bytes it)"
proof -
  have ids: "ids_ok (src_zone_ids it)" "ids_ok (src_ipgrp_ids it)" "ids_ok (dst_zone_ids it)" "ids_ok (dst_ipgrp_ids it)"
    using assms(1) by (simp_all add: item_ok_def)
  then have "src_zone_ids it \<noteq> []" "src_ipgrp_ids it \<noteq> []" "dst_zone_ids it \<noteq> []" "dst_ipgrp_ids it \<noteq> []"
    by (simp_all add: ids_ok_def)
  then show ?thesis
    using assms(2) ids [THEN ids_ok_num16]
    by (simp add: generate_flow_match_def Let_def flow_bytes_def flow_size_def flow_elems_def add.commute add.left_commute)
qed

lemma generate_proto_match_ok:
  assumes "item_ok it" and "\<forall>n. malloc_ok n"
  shows "generate_proto_match malloc_ok (proto_ids it) = Some (proto_bytes it)"
proof -
  have ids: "ids_ok (proto_ids it)" "proto_ids it \<noteq> []"
    using assms(1) by (simp_all add: item_ok_def ids_ok_def)
  then show ?thesis
    using assms(2) ids_ok_num16 [OF ids(1)]
    by (simp add: generate_proto_match_def Let_def proto_bytes_def proto_size_def add.commute mult.commute)
qed

lemma word_nat_add16: "(word_of_nat a :: u16) + word_of_nat b = word_of_nat (a + b)"
  by simp

lemma generate_ac_entry_ok:
  assumes "item_ok it" and "\<forall>n. malloc_ok n"
  shows "generate_ac_entry malloc_ok it = Ret (Some (entry_bytes it))"
proof -
  define fs ps where "fs = flow_size it" and "ps = proto_size it"
  have b: "fs \<le> 16407" "ps \<le> 16399" using entry_bounds [OF assms(1)] by (simp_all add: fs_def ps_def)
  have lens: "length (flow_bytes it) = fs" "length (proto_bytes it) = ps" by (simp_all add: fs_def ps_def)
  have sz: "num16 (flow_bytes it) = word_of_nat fs" "num16 (proto_bytes it) = word_of_nat ps"
    by (simp_all add: num16_def fs_def ps_def)
  have tg: "generate_target malloc_ok (action it) = Some (target_bytes it)"
    using assms by (simp add: generate_target_def item_ok_def target_bytes_def)
  have u: "unat (word_of_nat fs :: u16) = fs" "unat (word_of_nat ps :: u16) = ps"
    "unat (word_of_nat (8 + fs) :: u16) = 8 + fs" "unat (word_of_nat (8 + fs + ps) :: u16) = 8 + fs + ps"
    using b by (simp_all only: unat_u16)
  let ?h = "le16 (ucast (item_id it)) @ le16 (word_of_nat (8 + fs)) @ le16 (word_of_nat (8 + fs + ps)) @
     le16 (word_of_nat (8 + fs + ps + 8))"
  let ?z = "\<lambda>n. replicate n (0 :: u8)"
  have "replicate (8 + fs + ps + 8) (0 :: u8) = [] @ ?z 8 @ (?z fs @ ?z ps @ ?z 8)"
    by (simp add: replicate_add [symmetric])
  then have w1: "mem_write (?z (8 + fs + ps + 8)) 0 ?h = Ret ([] @ ?h @ (?z fs @ ?z ps @ ?z 8))"
    by (simp only:) (rule mem_write_at, simp_all)
  have w2: "mem_write (?h @ ?z fs @ (?z ps @ ?z 8)) 8 (flow_bytes it) = Ret (?h @ flow_bytes it @ (?z ps @ ?z 8))"
    by (rule mem_write_at) (simp_all add: fs_def ps_def)
  have w3: "mem_write ((?h @ flow_bytes it) @ ?z ps @ ?z 8) (8 + fs) (proto_bytes it)
      = Ret ((?h @ flow_bytes it) @ proto_bytes it @ ?z 8)"
    by (rule mem_write_at) (simp_all add: fs_def ps_def)
  have w4: "mem_write ((?h @ flow_bytes it @ proto_bytes it) @ ?z 8 @ []) (8 + fs + ps) (target_bytes it)
      = Ret ((?h @ flow_bytes it @ proto_bytes it) @ target_bytes it @ [])"
    by (rule mem_write_at) (simp_all add: fs_def ps_def)
  have off: "word_of_nat 8 + word_of_nat fs = (word_of_nat (8 + fs) :: u16)"
    "(word_of_nat (8 + fs) :: u16) + word_of_nat ps = word_of_nat (8 + fs + ps)"
    "(word_of_nat (8 + fs + ps) :: u16) + word_of_nat 8 = word_of_nat (8 + fs + ps + 8)"
    by (simp_all only: AC_ALIGN_simps word_nat_add16)
  show ?thesis
    unfolding generate_ac_entry_def generate_flow_match_ok [OF assms] generate_proto_match_ok [OF assms] tg
      option.case Let_def sz AC_ALIGN_simps off
    using assms(2) w1 w2 w3 w4
    by (simp only: u take_all lens le_refl if_False not_True_eq_False simp_thms append_assoc append_Nil
        run_bind.simps entry_bytes_def entry_size_def append_Nil2 flip: fs_def ps_def)
qed

lemma located_entry:
  assumes "located buf off (entry_bytes it)"
  shows "located buf off (le16 (ucast (item_id it)))"
    and "located buf (off + 2) (le16 (word_of_nat (8 + flow_size it)))"
    and "located buf (off + 4) (le16 (word_of_nat (8 + flow_size it + proto_size it)))"
    and "located buf (off + 6) (le16 (word_of_nat (entry_size it)))"
    and "located buf (off + 8) (flow_bytes it)"
    and "located buf (off + (8 + flow_size it)) (proto_bytes it)"
    and "located buf (off + (8 + flow_size it + proto_size it)) (target_bytes it)"
  using assms unfolding entry_bytes_def located_append
  by (simp_all add: add.assoc del: add_2_eq_Suc add_2_eq_Suc' of_nat_add)

lemma entry_part_ok: "item_ok it \<Longrightarrow> entry_part (entry_bytes it) = Ret (entry_bytes it)"
proof -
  assume ok: "item_ok it"
  have "located (entry_bytes it) 0 (entry_bytes it)" by (simp add: located_def)
  then have "located (entry_bytes it) (0 + 6) (le16 (word_of_nat (entry_size it)))"
    by (rule located_entry)
  then have "rd16 (entry_bytes it) 6 = Ret (word_of_nat (entry_size it))" using rd16_located by simp
  moreover have "unat (word_of_nat (entry_size it) :: u16) = entry_size it"
    by (rule unat_u16) (rule entry_bounds(3) [OF ok])
  ultimately show ?thesis by (simp add: entry_part_def)
qed

definition items_bytes :: "ac_rule_item list \<Rightarrow> u8 list" where
  "items_bytes its = concat (map entry_bytes its)"

lemma items_bytes_simps [simp]:
  "items_bytes [] = []" "items_bytes (it # its) = entry_bytes it @ items_bytes its"
  by (simp_all add: items_bytes_def)

lemma items_bytes_bound: "\<forall>it \<in> set its. item_ok it \<Longrightarrow> length (items_bytes its) \<le> 65535 * length its"
proof (induction its)
  case Nil
  then show ?case by simp
next
  case (Cons it its)
  then have "entry_size it \<le> 65535" using entry_bounds(3) [of it] by simp
  with Cons show ?case by simp
qed

lemma glue_parts_ok: "\<forall>it \<in> set its. item_ok it \<Longrightarrow> glue_parts (map entry_bytes its) = Ret (items_bytes its)"
  by (induction its) (simp_all add: entry_part_ok)

lemma generate_entries_ok:
  "\<forall>it \<in> set its. item_ok it \<Longrightarrow> \<forall>n. malloc_ok n \<Longrightarrow> generate_entries malloc_ok its = Ret (Some (map entry_bytes its))"
  by (induction its) (simp_all add: generate_ac_entry_ok)

definition table_of :: "u32 \<Rightarrow> ac_rule_item list \<Rightarrow> ac_repl_table_info" where
  "table_of cate its = \<lparr>category = cate, tsize = word_of_nat (length (items_bytes its)),
     number = word_of_nat (length its), entries = items_bytes its\<rparr>"

lemma generate_ac_table_ok:
  assumes "\<forall>it \<in> set its. item_ok it" and "\<forall>n. malloc_ok n"
  shows "generate_ac_table malloc_ok True its cate = Ret (Some (table_of cate its))"
  using assms
  by (cases its)
     (simp_all add: generate_ac_table_def table_of_def generate_ac_entry_ok generate_entries_ok
       glue_entries_to_table_def entry_part_ok glue_parts_ok)

lemma unat_u32: "n < 4294967296 \<Longrightarrow> unat (word_of_nat n :: u32) = n"
  by (simp add: unat_of_nat take_bit_nat_eq_self)

lemma table_of_sizes:
  assumes "\<forall>it \<in> set its. item_ok it" and "length its \<le> 65535"
  shows "unat (tsize (table_of cate its)) = length (items_bytes its)"
    and "unat (number (table_of cate its)) = length its"
proof -
  have "length (items_bytes its) \<le> 65535 * 65535"
    using items_bytes_bound [OF assms(1)] assms(2) by (meson le_trans mult_le_mono2)
  then show "unat (tsize (table_of cate its)) = length (items_bytes its)"
    by (simp add: table_of_def unat_u32)
  show "unat (number (table_of cate its)) = length its"
    using assms(2) by (simp add: table_of_def unat_u32)
qed

end
