(* ===== verification/Ruletable_Parse.thy ===== *)
theory Ruletable_Parse
  imports Nacs_Layout
begin

text \<open>
  The configuration parser of \<open>ruletable\<close>: \<open>json_utility.c\<close>, \<open>audit_control.c\<close> and
  \<open>do_parse_config\<close> of \<open>rule_core.c\<close>. They read the tree the JSON library builds; the library's
  text parser is a parameter, its tree and two accessors are defined here. \<open>malloc_ok\<close> tells
  whether an allocation of the given size succeeds; a return value -1 is None.
\<close>

section \<open>The tree\<close>

datatype nx_json_type = NX_JSON_NULL | NX_JSON_OBJECT | NX_JSON_ARRAY | NX_JSON_STRING | NX_JSON_INTEGER
  | NX_JSON_DOUBLE | NX_JSON_BOOL

datatype nx_json = NxJson (js_type: nx_json_type) (js_key: "string option") (text_value: string) (int_value: u32)
  (js_length: int) (js_child: "nx_json list")

definition nx_dummy :: nx_json where
  "nx_dummy = NxJson NX_JSON_NULL None [] 0 0 []"

definition nx_json_get :: "nx_json \<Rightarrow> string \<Rightarrow> nx_json" where
  "nx_json_get js k = (case find (\<lambda>c. js_key c = Some k) (js_child js) of Some c \<Rightarrow> c | None \<Rightarrow> nx_dummy)"

definition nx_json_item :: "nx_json \<Rightarrow> nat \<Rightarrow> nx_json" where
  "nx_json_item js idx = (if idx < length (js_child js) then js_child js ! idx else nx_dummy)"

section \<open>json_utility.c\<close>

fun nx_json_verify :: "nx_json \<Rightarrow> bool" where
  "nx_json_verify (NxJson t k txt i len child) =
     (if len < 0 then False
      else if t = NX_JSON_ARRAY \<or> t = NX_JSON_OBJECT
      then (\<forall>c \<in> set child. nx_json_verify c) \<and> int (length child) = len
      else True)"

definition nx_json_integer_map :: "nx_json \<Rightarrow> u32 \<Rightarrow> u32 \<Rightarrow> u32 option" where
  "nx_json_integer_map js lo hi =
     (if js_type js = NX_JSON_NULL then Some 0
      else if js_type js \<noteq> NX_JSON_INTEGER then None
      else if int_value js < lo \<or> int_value js > hi then None
      else Some (int_value js))"

definition nx_json_string_map :: "(nat \<Rightarrow> bool) \<Rightarrow> nx_json \<Rightarrow> nat \<Rightarrow> string option" where
  "nx_json_string_map malloc_ok js max_length =
     (if js_type js = NX_JSON_NULL then (if malloc_ok 1 then Some [] else None)
      else if js_type js \<noteq> NX_JSON_STRING then None
      else
       (let s = cstr (text_value js)
        in if length s > max_length then None
           else if malloc_ok (length s + 1) then Some s else None))"

text \<open>
  The loop over the children: construct, or give up. The array has \<open>js_length\<close> elements; a
  child beyond it would be written outside.
\<close>

fun array_loop :: "(nx_json \<Rightarrow> 'a option) \<Rightarrow> int \<Rightarrow> nx_json list \<Rightarrow> 'a list option run" where
  "array_loop ctor room [] = Ret (Some [])"
| "array_loop ctor room (js # jss) =
     (if room \<le> 0 then Fault Undefined
      else case ctor js of
        None \<Rightarrow> Ret None
      | Some x \<Rightarrow> run_bind (array_loop ctor (room - 1) jss) (\<lambda>r. Ret (map_option ((#) x) r)))"

definition nx_json_array_map ::
  "(nat \<Rightarrow> bool) \<Rightarrow> nat \<Rightarrow> 'a \<Rightarrow> (nx_json \<Rightarrow> 'a option) \<Rightarrow> nx_json \<Rightarrow> nat \<Rightarrow> 'a list option run" where
  "nx_json_array_map malloc_ok elem_size zero ctor js max_length =
     (if js_type js = NX_JSON_NULL then Ret (Some [])
      else if js_type js \<noteq> NX_JSON_ARRAY then Ret None
      else if js_length js > int max_length then Ret None
      else if js_length js = 0 then Ret (Some [])
      else if \<not> malloc_ok (elem_size * nat (js_length js)) then Ret None
      else run_bind (array_loop ctor (js_length js) (js_child js)) (\<lambda>r.
        Ret (map_option (\<lambda>xs. xs @ replicate (nat (js_length js) - length xs) zero) r)))"

section \<open>audit_control.c: rules\<close>

definition AC_ACTION_MAXNUM :: nat where "AC_ACTION_MAXNUM = 3"

definition AC_ACTION_MAXNAMELEN :: nat where "AC_ACTION_MAXNAMELEN = 15"

definition AC_IPSET_MAXNAMELEN :: nat where "AC_IPSET_MAXNAMELEN = 31"

definition AC_RULE_MAXID :: u32 where "AC_RULE_MAXID = 65535"

definition AC_ZONE_MAXID :: u32 where "AC_ZONE_MAXID = 255"

definition AC_IPGRP_MAXID :: u32 where "AC_IPGRP_MAXID = 63"

definition AC_PROTO_MAXID :: u32 where "AC_PROTO_MAXID = - 1"

definition RULE_MAXNUM :: nat where "RULE_MAXNUM = 65535"

definition check_list_valid :: "nx_json \<Rightarrow> nat \<Rightarrow> bool" where
  "check_list_valid js maxnum \<longleftrightarrow> js_type js = NX_JSON_ARRAY \<and> \<not> (js_length js < 0 \<or> js_length js > int maxnum)"

definition id_list_init :: "(nat \<Rightarrow> bool) \<Rightarrow> nx_json \<Rightarrow> u32 \<Rightarrow> u32 \<Rightarrow> u32 list option" where
  "id_list_init malloc_ok js lo hi =
     (if js_type js = NX_JSON_NULL then None
      else if \<not> malloc_ok (4 * nat (js_length js)) then None
      else
       (let ids = map (\<lambda>idx. int_value (nx_json_item js idx)) [0..<nat (js_length js)]
        in if \<exists>v \<in> set ids. v > hi \<or> v < lo then None else Some ids))"

definition str_list_init :: "(nat \<Rightarrow> bool) \<Rightarrow> nx_json \<Rightarrow> string list option" where
  "str_list_init malloc_ok js =
     (if js_type js = NX_JSON_NULL then None
      else those (map (\<lambda>idx. nx_json_string_map malloc_ok (nx_json_item js idx) AC_ACTION_MAXNAMELEN)
        [0..<nat (js_length js)]))"

text \<open>A list of ids that may be missing or not a valid array: then it stays empty.\<close>

definition opt_ids :: "(nat \<Rightarrow> bool) \<Rightarrow> nx_json \<Rightarrow> string \<Rightarrow> u32 \<Rightarrow> u32 list option" where
  "opt_ids malloc_ok js k hi =
     (let js_elem = nx_json_get js k
      in if check_list_valid js_elem AC_ID_MAXNUM_PERMATCH then id_list_init malloc_ok js_elem 0 hi else Some [])"

definition opt_actions :: "(nat \<Rightarrow> bool) \<Rightarrow> nx_json \<Rightarrow> string list option" where
  "opt_actions malloc_ok js =
     (let js_elem = nx_json_get js ''Actions''
      in if check_list_valid js_elem AC_ACTION_MAXNUM then str_list_init malloc_ok js_elem else Some [])"

definition zero_item :: ac_rule_item where
  "zero_item = \<lparr>item_id = 0, src_zone_ids = [], src_ipgrp_ids = [], dst_zone_ids = [], dst_ipgrp_ids = [],
     proto_ids = [], action = []\<rparr>"

definition ac_rule_item_init :: "(nat \<Rightarrow> bool) \<Rightarrow> nx_json \<Rightarrow> ac_rule_item option" where
  "ac_rule_item_init malloc_ok js =
     (case nx_json_integer_map (nx_json_get js ''Id'') 0 AC_RULE_MAXID of None \<Rightarrow> None | Some i \<Rightarrow>
     (case opt_ids malloc_ok js ''SrcZoneIds'' AC_ZONE_MAXID of None \<Rightarrow> None | Some sz \<Rightarrow>
     (case opt_ids malloc_ok js ''SrcIpgrpIds'' AC_IPGRP_MAXID of None \<Rightarrow> None | Some sg \<Rightarrow>
     (case opt_ids malloc_ok js ''DstZoneIds'' AC_ZONE_MAXID of None \<Rightarrow> None | Some dz \<Rightarrow>
     (case opt_ids malloc_ok js ''DstIpgrpIds'' AC_IPGRP_MAXID of None \<Rightarrow> None | Some dg \<Rightarrow>
     (case opt_ids malloc_ok js ''ProtoIds'' AC_PROTO_MAXID of None \<Rightarrow> None | Some ps \<Rightarrow>
     (case opt_actions malloc_ok js of None \<Rightarrow> None | Some acts \<Rightarrow>
        Some \<lparr>item_id = i, src_zone_ids = sz, src_ipgrp_ids = sg, dst_zone_ids = dz, dst_ipgrp_ids = dg,
              proto_ids = ps, action = acts\<rparr>)))))))"

record ac_rule =
  r_updated :: bool
  r_items :: "ac_rule_item list"

text \<open>The size of \<open>struct ac_rule_item\<close> on the target is 64 bytes.\<close>

definition do_parse_ac_rule :: "(nat \<Rightarrow> bool) \<Rightarrow> nx_json \<Rightarrow> (ac_rule \<times> bool) run" where
  "do_parse_ac_rule malloc_ok js =
     run_bind (nx_json_array_map malloc_ok 64 zero_item (ac_rule_item_init malloc_ok) js RULE_MAXNUM) (\<lambda>r.
       Ret (case r of
              None \<Rightarrow> (\<lparr>r_updated = True, r_items = []\<rparr>, False)
            | Some xs \<Rightarrow> (\<lparr>r_updated = True, r_items = xs\<rparr>, True)))"

section \<open>audit_control.c: lists\<close>

text \<open>\<open>s_ipsets\<close> is None for a NULL pointer.\<close>

record ac_set =
  s_updated :: u32
  s_number :: nat
  s_ipsets :: "string option list option"

definition ipset_key_map :: "string list" where
  "ipset_key_map = [''MacWhiteListSetName'', ''IpWhiteListSetName'', ''MacBlackListSetName'', ''IpBlackListSetName'']"

definition CONTROL_IPSET_TYPE_MAX :: nat where "CONTROL_IPSET_TYPE_MAX = 4"

definition AUDIT_IPSET_TYPE_MAX :: nat where "AUDIT_IPSET_TYPE_MAX = 2"

text \<open>The loop; the label \<open>fail\<close> frees the names and the array but keeps the bits.\<close>

fun parse_set_loop :: "(nat \<Rightarrow> bool) \<Rightarrow> nx_json \<Rightarrow> nat list \<Rightarrow> string option list \<Rightarrow> ac_set \<Rightarrow> ac_set \<times> bool" where
  "parse_set_loop malloc_ok js [] names s = (s\<lparr>s_ipsets := Some names\<rparr>, True)"
| "parse_set_loop malloc_ok js (idx # is) names s =
     (let js_elem = nx_json_get js (ipset_key_map ! idx)
      in if js_type js_elem \<noteq> NX_JSON_NULL then
           (case nx_json_string_map malloc_ok js_elem AC_IPSET_MAXNAMELEN of
              None \<Rightarrow> (s\<lparr>s_ipsets := None\<rparr>, False)
            | Some name \<Rightarrow>
                parse_set_loop malloc_ok js is (names[idx := Some name]) (s\<lparr>s_updated := s_updated s OR push_bit idx 1\<rparr>))
         else parse_set_loop malloc_ok js is names s)"

definition do_parse_ac_set :: "(nat \<Rightarrow> bool) \<Rightarrow> nx_json \<Rightarrow> ac_set \<Rightarrow> ac_set \<times> bool" where
  "do_parse_ac_set malloc_ok js s =
     (if \<not> malloc_ok (4 * s_number s) then (s\<lparr>s_ipsets := None\<rparr>, False)
      else parse_set_loop malloc_ok js [0..<s_number s] (replicate (s_number s) None) s)"

definition do_parse_control_set :: "(nat \<Rightarrow> bool) \<Rightarrow> nx_json \<Rightarrow> ac_set \<Rightarrow> ac_set \<times> bool" where
  "do_parse_control_set malloc_ok js s = do_parse_ac_set malloc_ok js (s\<lparr>s_number := CONTROL_IPSET_TYPE_MAX\<rparr>)"

definition do_parse_audit_set :: "(nat \<Rightarrow> bool) \<Rightarrow> nx_json \<Rightarrow> ac_set \<Rightarrow> ac_set \<times> bool" where
  "do_parse_audit_set malloc_ok js s = do_parse_ac_set malloc_ok js (s\<lparr>s_number := AUDIT_IPSET_TYPE_MAX\<rparr>)"

text \<open>Freeing the lists reads the array for every number, also when it is NULL.\<close>

definition free_ac_set :: "ac_set \<Rightarrow> unit run" where
  "free_ac_set s = (if s_number s > 0 \<and> s_ipsets s = None then Fault Undefined else Ret ())"

section \<open>rule_core.c: the whole configuration\<close>

record ac_config =
  c_rule :: ac_rule
  c_set :: ac_set

definition zero_config :: ac_config where
  "zero_config = \<lparr>c_rule = \<lparr>r_updated = False, r_items = []\<rparr>, c_set = \<lparr>s_updated = 0, s_number = 0, s_ipsets = None\<rparr>\<rparr>"

record ac_global_config =
  g_control :: ac_config
  g_audit :: ac_config

text \<open>The two allocations of 24 bytes; None leaves NULL pointers behind.\<close>

definition init_global_config :: "(nat \<Rightarrow> bool) \<Rightarrow> ac_global_config option" where
  "init_global_config malloc_ok = (if malloc_ok 24 then Some \<lparr>g_control = zero_config, g_audit = zero_config\<rparr> else None)"

definition free_global_config :: "ac_global_config option \<Rightarrow> unit run" where
  "free_global_config g =
     (case g of
        None \<Rightarrow> Ret ()
      | Some g \<Rightarrow> run_bind (free_ac_set (c_set (g_control g))) (\<lambda>u. free_ac_set (c_set (g_audit g))))"

text \<open>
  One key of the document: absent, or handled with the pointer into the global configuration. The flag
  tells whether to go on. Without a global configuration the result is \<open>nul\<close>: the address of its lists is
  an offset behind NULL, that of its rules is NULL, which \<open>do_parse_ac_rule\<close> refuses.
\<close>

definition parse_key ::
  "(ac_global_config option \<times> bool) run \<Rightarrow> nx_json \<Rightarrow> string \<Rightarrow> (nx_json \<Rightarrow> ac_global_config \<Rightarrow> (ac_global_config \<times> bool) run) \<Rightarrow> ac_global_config option
   \<Rightarrow> (ac_global_config option \<times> bool) run" where
  "parse_key nul js k f g =
     (let js_elem = nx_json_get js k
      in if js_type js_elem = NX_JSON_NULL then Ret (g, True)
         else case g of
           None \<Rightarrow> nul
         | Some g \<Rightarrow> run_bind (f js_elem g) (\<lambda>(g, ok). Ret (Some g, ok)))"

definition parse_control_set_key :: "(nat \<Rightarrow> bool) \<Rightarrow> nx_json \<Rightarrow> ac_global_config \<Rightarrow> (ac_global_config \<times> bool) run" where
  "parse_control_set_key malloc_ok js g =
     (let (s, ok) = do_parse_control_set malloc_ok js (c_set (g_control g))
      in Ret (g\<lparr>g_control := (g_control g)\<lparr>c_set := s\<rparr>\<rparr>, True))"

definition parse_audit_set_key :: "(nat \<Rightarrow> bool) \<Rightarrow> nx_json \<Rightarrow> ac_global_config \<Rightarrow> (ac_global_config \<times> bool) run" where
  "parse_audit_set_key malloc_ok js g =
     (let (s, ok) = do_parse_audit_set malloc_ok js (c_set (g_audit g))
      in Ret (g\<lparr>g_audit := (g_audit g)\<lparr>c_set := s\<rparr>\<rparr>, True))"

definition parse_control_rule_key :: "(nat \<Rightarrow> bool) \<Rightarrow> nx_json \<Rightarrow> ac_global_config \<Rightarrow> (ac_global_config \<times> bool) run" where
  "parse_control_rule_key malloc_ok js g =
     run_bind (do_parse_ac_rule malloc_ok js) (\<lambda>(r, ok). Ret (g\<lparr>g_control := (g_control g)\<lparr>c_rule := r\<rparr>\<rparr>, ok))"

definition parse_audit_rule_key :: "(nat \<Rightarrow> bool) \<Rightarrow> nx_json \<Rightarrow> ac_global_config \<Rightarrow> (ac_global_config \<times> bool) run" where
  "parse_audit_rule_key malloc_ok js g =
     run_bind (do_parse_ac_rule malloc_ok js) (\<lambda>(r, ok). Ret (g\<lparr>g_audit := (g_audit g)\<lparr>c_rule := r\<rparr>\<rparr>, ok))"

text \<open>The keys in the order of the code; a failed list is only skipped, a failed rule ends the parse.\<close>

definition parse_document :: "(nat \<Rightarrow> bool) \<Rightarrow> nx_json \<Rightarrow> (ac_global_config option \<times> bool) run" where
  "parse_document malloc_ok js =
     run_bind (parse_key (Fault Undefined) js ''ControlSet'' (parse_control_set_key malloc_ok) (init_global_config malloc_ok)) (\<lambda>(g, ok).
     run_bind (parse_key (Fault Undefined) js ''AuditSet'' (parse_audit_set_key malloc_ok) g) (\<lambda>(g, ok).
     run_bind (parse_key (Ret (None, False)) js ''ControlRule'' (parse_control_rule_key malloc_ok) g) (\<lambda>(g, ok).
       if \<not> ok then Ret (g, False)
       else parse_key (Ret (None, False)) js ''AuditRule'' (parse_audit_rule_key malloc_ok) g)))"

definition do_parse_config ::
  "(nat \<Rightarrow> bool) \<Rightarrow> (string \<Rightarrow> nx_json option) \<Rightarrow> string \<Rightarrow> (ac_global_config option \<times> bool) run" where
  "do_parse_config malloc_ok nx_json_parse_utf8 json_str =
     (if json_str = [] then Ret (None, False)
      else if \<not> malloc_ok (length json_str + 1) then Ret (None, False)
      else case nx_json_parse_utf8 json_str of
        None \<Rightarrow> Ret (None, False)
      | Some js \<Rightarrow>
          if \<not> nx_json_verify js then Ret (None, False)
          else run_bind (parse_document malloc_ok js) (\<lambda>(g, ok).
            if ok then Ret (g, True)
            else run_bind (free_global_config g) (\<lambda>u. Ret (None, False))))"

section \<open>What the parser guarantees\<close>

definition item_in_range :: "ac_rule_item \<Rightarrow> bool" where
  "item_in_range it \<longleftrightarrow>
     item_id it \<le> AC_RULE_MAXID
   \<and> (\<forall>ids \<in> {src_zone_ids it, dst_zone_ids it}. length ids \<le> AC_ID_MAXNUM_PERMATCH \<and> (\<forall>v \<in> set ids. v \<le> AC_ZONE_MAXID))
   \<and> (\<forall>ids \<in> {src_ipgrp_ids it, dst_ipgrp_ids it}. length ids \<le> AC_ID_MAXNUM_PERMATCH \<and> (\<forall>v \<in> set ids. v \<le> AC_IPGRP_MAXID))
   \<and> length (proto_ids it) \<le> AC_ID_MAXNUM_PERMATCH
   \<and> length (action it) \<le> AC_ACTION_MAXNUM \<and> (\<forall>a \<in> set (action it). length a \<le> AC_ACTION_MAXNAMELEN)"

text \<open>A rule that names at least one id of each kind and one action is one the encoder accepts.\<close>

definition item_complete :: "ac_rule_item \<Rightarrow> bool" where
  "item_complete it \<longleftrightarrow> src_zone_ids it \<noteq> [] \<and> src_ipgrp_ids it \<noteq> [] \<and> dst_zone_ids it \<noteq> [] \<and> dst_ipgrp_ids it \<noteq> []
     \<and> proto_ids it \<noteq> [] \<and> action it \<noteq> []"

lemma complete_item_ok: "item_in_range it \<Longrightarrow> item_complete it \<Longrightarrow> item_ok it"
  by (auto simp: item_in_range_def item_complete_def item_ok_def ids_ok_def)

lemma opt_ids_bounds:
  assumes "opt_ids malloc_ok js k hi = Some ids"
  shows "length ids \<le> AC_ID_MAXNUM_PERMATCH \<and> (\<forall>v \<in> set ids. v \<le> hi)"
proof (cases "check_list_valid (nx_json_get js k) AC_ID_MAXNUM_PERMATCH")
  case True
  then have "nat (js_length (nx_json_get js k)) \<le> AC_ID_MAXNUM_PERMATCH" by (simp add: check_list_valid_def not_less nat_le_iff)
  moreover have "ids = map (\<lambda>idx. int_value (nx_json_item (nx_json_get js k) idx)) [0..<nat (js_length (nx_json_get js k))]"
    "\<forall>v \<in> set ids. \<not> v > hi"
    using assms True by (auto simp: opt_ids_def id_list_init_def Let_def split: if_splits)
  ultimately show ?thesis by (simp add: linorder_not_less)
next
  case False
  with assms show ?thesis by (simp add: opt_ids_def)
qed

lemma those_Some: "those xs = Some ys \<Longrightarrow> length ys = length xs \<and> (\<forall>y \<in> set ys. Some y \<in> set xs)"
  by (induction xs arbitrary: ys) (auto split: option.splits)

lemma opt_actions_bounds:
  assumes "opt_actions malloc_ok js = Some acts"
  shows "length acts \<le> AC_ACTION_MAXNUM \<and> (\<forall>a \<in> set acts. length a \<le> AC_ACTION_MAXNAMELEN)"
proof (cases "check_list_valid (nx_json_get js ''Actions'') AC_ACTION_MAXNUM")
  case True
  let ?e = "nx_json_get js ''Actions''"
  have n: "nat (js_length ?e) \<le> AC_ACTION_MAXNUM" using True by (simp add: check_list_valid_def not_less nat_le_iff)
  have "those (map (\<lambda>idx. nx_json_string_map malloc_ok (nx_json_item ?e idx) AC_ACTION_MAXNAMELEN) [0..<nat (js_length ?e)]) = Some acts"
    using assms True by (auto simp: opt_actions_def str_list_init_def Let_def split: if_splits)
  note t = those_Some [OF this]
  have "length a \<le> AC_ACTION_MAXNAMELEN" if "nx_json_string_map malloc_ok j AC_ACTION_MAXNAMELEN = Some a" for j a
    using that by (auto simp: nx_json_string_map_def Let_def split: if_splits)
  with t n show ?thesis by auto
next
  case False
  with assms show ?thesis by (simp add: opt_actions_def)
qed

lemma item_init_range:
  assumes "ac_rule_item_init malloc_ok js = Some it"
  shows "item_in_range it"
proof -
  obtain i sz sg dz dg ps acts where it: "it = \<lparr>item_id = i, src_zone_ids = sz, src_ipgrp_ids = sg, dst_zone_ids = dz,
      dst_ipgrp_ids = dg, proto_ids = ps, action = acts\<rparr>"
    and i: "nx_json_integer_map (nx_json_get js ''Id'') 0 AC_RULE_MAXID = Some i"
    and l: "opt_ids malloc_ok js ''SrcZoneIds'' AC_ZONE_MAXID = Some sz" "opt_ids malloc_ok js ''SrcIpgrpIds'' AC_IPGRP_MAXID = Some sg"
      "opt_ids malloc_ok js ''DstZoneIds'' AC_ZONE_MAXID = Some dz" "opt_ids malloc_ok js ''DstIpgrpIds'' AC_IPGRP_MAXID = Some dg"
      "opt_ids malloc_ok js ''ProtoIds'' AC_PROTO_MAXID = Some ps" "opt_actions malloc_ok js = Some acts"
    using assms by (auto simp: ac_rule_item_init_def split: option.splits)
  have "i \<le> AC_RULE_MAXID" using i by (auto simp: nx_json_integer_map_def split: if_splits)
  then show ?thesis
    using l(1-5) [THEN opt_ids_bounds] opt_actions_bounds [OF l(6)] by (simp add: it item_in_range_def)
qed

lemma array_loop_Some:
  "array_loop ctor room jss = Ret (Some xs) \<Longrightarrow> length xs = length jss \<and> int (length xs) \<le> max 0 room \<and> (\<forall>x \<in> set xs. \<exists>js \<in> set jss. ctor js = Some x)"
proof (induction ctor room jss arbitrary: xs rule: array_loop.induct)
  case (1 ctor room)
  then show ?case by simp
next
  case (2 ctor room js jss)
  then obtain x r where "0 < room" "ctor js = Some x" "array_loop ctor (room - 1) jss = Ret r" "map_option ((#) x) r = Some xs"
    by (auto simp: run_simps split: if_splits option.splits)
  with 2(1) show ?case by fastforce
qed

text \<open>Every array the parser builds has constructed (or zero) elements and a bounded length.\<close>

lemma array_map_Some:
  assumes "nx_json_array_map malloc_ok sz zero ctor js n = Ret (Some xs)"
    and "P zero" and "\<And>j x. ctor j = Some x \<Longrightarrow> P x"
  shows "length xs \<le> n \<and> (\<forall>x \<in> set xs. P x)"
proof -
  consider "xs = []" | ys where "array_loop ctor (js_length js) (js_child js) = Ret (Some ys)" "js_length js \<le> int n"
    "xs = ys @ replicate (nat (js_length js) - length ys) zero" "0 \<noteq> js_length js"
    using assms(1) by (auto simp: nx_json_array_map_def run_simps split: if_splits)
  then show ?thesis
  proof cases
    case 1
    then show ?thesis by simp
  next
    case 2
    from array_loop_Some [OF 2(1)] have len: "int (length ys) \<le> max 0 (js_length js)" and el: "\<forall>x \<in> set ys. P x"
      using assms(3) by auto
    then have "length xs \<le> n" using 2 by auto
    with el assms(2) 2(3) show ?thesis by auto
  qed
qed

definition rule_in_range :: "ac_rule \<Rightarrow> bool" where
  "rule_in_range r \<longleftrightarrow> length (r_items r) \<le> RULE_MAXNUM \<and> (\<forall>it \<in> set (r_items r). item_in_range it)"

lemma zero_item_range: "item_in_range zero_item"
  by (simp add: item_in_range_def zero_item_def)

lemma parse_rule_range: "do_parse_ac_rule malloc_ok js = Ret (r, ok) \<Longrightarrow> rule_in_range r"
proof -
  assume "do_parse_ac_rule malloc_ok js = Ret (r, ok)"
  then obtain x where x: "nx_json_array_map malloc_ok 64 zero_item (ac_rule_item_init malloc_ok) js RULE_MAXNUM = Ret x"
    "r = (case x of None \<Rightarrow> \<lparr>r_updated = True, r_items = []\<rparr> | Some xs \<Rightarrow> \<lparr>r_updated = True, r_items = xs\<rparr>)"
    by (auto simp: do_parse_ac_rule_def run_simps split: option.splits)
  then show ?thesis
    using array_map_Some [of malloc_ok 64 zero_item "ac_rule_item_init malloc_ok" js RULE_MAXNUM _ item_in_range] zero_item_range item_init_range
    by (cases x) (auto simp: rule_in_range_def)
qed

text \<open>
  The lists after a parse: either complete, one name of at most 31 characters for every update
  bit, or (after a bad name) the array is gone.
\<close>

definition set_complete :: "ac_set \<Rightarrow> bool" where
  "set_complete s \<longleftrightarrow>
     (if s_number s = 0 then s_updated s = 0
      else \<exists>names. s_ipsets s = Some names \<and> length names = s_number s \<and> s_number s \<le> 4
        \<and> (\<forall>k. bit (s_updated s) k \<longleftrightarrow> k < s_number s \<and> names ! k \<noteq> None)
        \<and> (\<forall>n \<in> set names. \<forall>name. n = Some name \<longrightarrow> length name \<le> AC_IPSET_MAXNAMELEN \<and> CHR 0x00 \<notin> set name))"

lemma bit_or_push: "k < 32 \<Longrightarrow> bit (w OR push_bit k 1) j \<longleftrightarrow> bit w j \<or> j = k" for w :: u32
  by (simp only: bit_or_iff bit_push_bit_iff bit_1_iff) auto

lemma string_map_fits:
  "nx_json_string_map malloc_ok js n = Some name \<Longrightarrow> length name \<le> n \<and> CHR 0x00 \<notin> set name"
  by (auto simp: nx_json_string_map_def Let_def cstr_def split: if_splits dest: set_takeWhileD)

lemma parse_set_loop_complete:
  assumes "parse_set_loop malloc_ok js [k..<n] names s = (s', True)" and "s_number s = n" and "length names = n" and "n \<le> 4" and "0 < n"
    and "\<forall>j. bit (s_updated s) j \<longleftrightarrow> j < n \<and> names ! j \<noteq> None" and "\<forall>j. k \<le> j \<and> j < n \<longrightarrow> names ! j = None"
    and "\<forall>x \<in> set names. \<forall>name. x = Some name \<longrightarrow> length name \<le> AC_IPSET_MAXNAMELEN \<and> CHR 0x00 \<notin> set name"
  shows "set_complete s' \<and> s_number s' = n"
  using assms
proof (induction "n - k" arbitrary: k names s)
  case 0
  then show ?case by (auto simp: set_complete_def)
next
  case (Suc d)
  then have k: "k < n" "k < 32" "d = n - Suc k" by auto
  have upt: "[k..<n] = k # [Suc k..<n]" using k(1) by (rule upt_conv_Cons)
  let ?e = "nx_json_get js (ipset_key_map ! k)"
  show ?case
  proof (cases "js_type ?e = NX_JSON_NULL")
    case True
    then have "parse_set_loop malloc_ok js [Suc k..<n] names s = (s', True)" using Suc.prems(1) by (simp add: upt)
    then show ?thesis using Suc.prems by (intro Suc.hyps(1) [OF k(3)]) auto
  next
    case False
    then obtain name where name: "nx_json_string_map malloc_ok ?e AC_IPSET_MAXNAMELEN = Some name"
      and rest: "parse_set_loop malloc_ok js [Suc k..<n] (names[k := Some name]) (s\<lparr>s_updated := s_updated s OR push_bit k 1\<rparr>) = (s', True)"
      using Suc.prems(1) by (auto simp: upt Let_def split: option.splits)
    have "\<forall>x \<in> set (names[k := Some name]). \<forall>nm. x = Some nm \<longrightarrow> length nm \<le> AC_IPSET_MAXNAMELEN \<and> CHR 0x00 \<notin> set nm"
      using Suc.prems(8) string_map_fits [OF name] set_update_subset_insert [of names k "Some name"] by blast
    moreover have "\<forall>j. bit (s_updated s OR push_bit k 1) j \<longleftrightarrow> j < n \<and> names[k := Some name] ! j \<noteq> None"
    proof
      fix j
      show "bit (s_updated s OR push_bit k 1) j \<longleftrightarrow> j < n \<and> names[k := Some name] ! j \<noteq> None"
        unfolding bit_or_push [OF k(2)] using Suc.prems(3) Suc.prems(6) [rule_format, of j] k(1) by (cases "j = k") simp_all
    qed
    moreover have "\<forall>j. Suc k \<le> j \<and> j < n \<longrightarrow> names[k := Some name] ! j = None" using Suc.prems(7) by simp
    ultimately show ?thesis
      using Suc.prems(2-5) by (intro Suc.hyps(1) [OF k(3) rest]) simp_all
  qed
qed

lemma parse_ac_set_complete:
  assumes "do_parse_ac_set malloc_ok js s = (s', True)" and "s_updated s = 0" and "s_number s \<le> 4" and "0 < s_number s"
  shows "set_complete s' \<and> s_number s' = s_number s"
  using assms parse_set_loop_complete [of malloc_ok js 0 "s_number s" "replicate (s_number s) None" s s']
  by (auto simp: do_parse_ac_set_def split: if_splits)

text \<open>A configuration that came out of a successful parse: rules in range.\<close>

definition config_in_range :: "ac_global_config \<Rightarrow> bool" where
  "config_in_range g \<longleftrightarrow> rule_in_range (c_rule (g_control g)) \<and> rule_in_range (c_rule (g_audit g))"

lemma parse_key_range:
  assumes "parse_key nul js k f g = Ret (g', ok)" and "nul = Fault Undefined \<or> nul = Ret (None, False)" and "\<forall>c. g = Some c \<longrightarrow> config_in_range c"
    and "\<And>j c c' b. f j c = Ret (c', b) \<Longrightarrow> config_in_range c \<Longrightarrow> config_in_range c'"
  shows "\<forall>c. g' = Some c \<longrightarrow> config_in_range c"
  using assms(1-3) by (auto simp: parse_key_def Let_def run_simps split: if_splits option.splits intro: assms(4))

lemma key_range:
  "parse_control_set_key m j c = Ret (c', b) \<Longrightarrow> config_in_range c \<Longrightarrow> config_in_range c'"
  "parse_audit_set_key m j c = Ret (c', b) \<Longrightarrow> config_in_range c \<Longrightarrow> config_in_range c'"
  "parse_control_rule_key m j c = Ret (c', b) \<Longrightarrow> config_in_range c \<Longrightarrow> config_in_range c'"
  "parse_audit_rule_key m j c = Ret (c', b) \<Longrightarrow> config_in_range c \<Longrightarrow> config_in_range c'"
  by (auto simp: parse_control_set_key_def parse_audit_set_key_def parse_control_rule_key_def parse_audit_rule_key_def
      config_in_range_def run_simps parse_rule_range split: prod.splits)

lemma parse_document_range:
  assumes "parse_document malloc_ok js = Ret (g, ok)"
  shows "\<forall>c. g = Some c \<longrightarrow> config_in_range c"
proof -
  obtain g1 g2 g3 b1 b2 b3 where
    k: "parse_key (Fault Undefined) js ''ControlSet'' (parse_control_set_key malloc_ok) (init_global_config malloc_ok) = Ret (g1, b1)"
    "parse_key (Fault Undefined) js ''AuditSet'' (parse_audit_set_key malloc_ok) g1 = Ret (g2, b2)"
    "parse_key (Ret (None, False)) js ''ControlRule'' (parse_control_rule_key malloc_ok) g2 = Ret (g3, b3)"
    and last: "if \<not> b3 then Ret (g3, False) = Ret (g, ok)
       else parse_key (Ret (None, False)) js ''AuditRule'' (parse_audit_rule_key malloc_ok) g3 = Ret (g, ok)"
    using assms by (auto simp: parse_document_def run_simps split: prod.splits if_splits)
  have "\<forall>c. init_global_config malloc_ok = Some c \<longrightarrow> config_in_range c"
    by (auto simp: init_global_config_def config_in_range_def rule_in_range_def zero_config_def)
  then have "\<forall>c. g1 = Some c \<longrightarrow> config_in_range c" using parse_key_range [OF k(1)] key_range(1) by blast
  then have "\<forall>c. g2 = Some c \<longrightarrow> config_in_range c" using parse_key_range [OF k(2)] key_range(2) by blast
  then have g3: "\<forall>c. g3 = Some c \<longrightarrow> config_in_range c" using parse_key_range [OF k(3)] key_range(3) by blast
  show ?thesis
  proof (cases b3)
    case True
    with last have "parse_key (Ret (None, False)) js ''AuditRule'' (parse_audit_rule_key malloc_ok) g3 = Ret (g, ok)" by simp
    then show ?thesis using parse_key_range [OF _ _ g3] key_range(4) by blast
  next
    case False
    with last g3 show ?thesis by simp
  qed
qed

section \<open>Properties\<close>

text \<open>
  C22: whatever the configuration file contains, the rules of an accepted configuration are
  within the limits the kernel side relies on: at most 65535 rules, rule ids of 16 bits, at most
  4096 ids in each list, zones up to 255, groups up to 63, at most three actions of at most 15
  characters; and a rule that names something in every field is one the encoder can lay out
  without wrapping a 16-bit offset.
\<close>

theorem parsed_rules_in_range:
  assumes "do_parse_config malloc_ok parse text = Ret (Some g, True)"
    and "r = c_rule (g_control g) \<or> r = c_rule (g_audit g)"
  shows "length (r_items r) \<le> RULE_MAXNUM \<and> (\<forall>it \<in> set (r_items r). item_in_range it \<and> (item_complete it \<longrightarrow> item_ok it))"
proof -
  obtain js where "parse_document malloc_ok js = Ret (Some g, True)"
    using assms(1) by (auto simp: do_parse_config_def run_simps split: if_splits option.splits)
  from parse_document_range [OF this] assms(2) show ?thesis
    by (auto simp: config_in_range_def rule_in_range_def complete_item_ok)
qed

definition js_ids :: "string \<Rightarrow> u32 list \<Rightarrow> nx_json" where
  "js_ids k ids = NxJson NX_JSON_ARRAY (Some k) [] 0 (int (length ids)) (map (\<lambda>i. NxJson NX_JSON_INTEGER None [] i 0 []) ids)"

definition demo_rule_js :: nx_json where
  "demo_rule_js = NxJson NX_JSON_OBJECT None [] 0 7
     [NxJson NX_JSON_INTEGER (Some ''Id'') [] 7 0 [], js_ids ''SrcZoneIds'' [3], js_ids ''SrcIpgrpIds'' [5, 9],
      js_ids ''DstZoneIds'' [255], js_ids ''DstIpgrpIds'' [63], js_ids ''ProtoIds'' [10, 20, 30],
      NxJson NX_JSON_ARRAY (Some ''Actions'') [] 0 1 [NxJson NX_JSON_STRING None ''REJECT'' 0 0 []]]"

definition demo_set_js :: nx_json where
  "demo_set_js = NxJson NX_JSON_OBJECT (Some ''ControlSet'') [] 0 1
     [NxJson NX_JSON_STRING (Some ''MacBlackListSetName'') ''ads'' 0 0 []]"

definition demo_js :: nx_json where
  "demo_js = NxJson NX_JSON_OBJECT None [] 0 2
     [NxJson NX_JSON_ARRAY (Some ''ControlRule'') [] 0 1 [demo_rule_js], demo_set_js]"

definition demo_item :: ac_rule_item where
  "demo_item = \<lparr>item_id = 7, src_zone_ids = [3], src_ipgrp_ids = [5, 9], dst_zone_ids = [255], dst_ipgrp_ids = [63],
     proto_ids = [10, 20, 30], action = [''REJECT'']\<rparr>"

definition demo_config :: ac_global_config where
  "demo_config = \<lparr>g_control = \<lparr>c_rule = \<lparr>r_updated = True, r_items = [demo_item]\<rparr>,
       c_set = \<lparr>s_updated = 4, s_number = 4, s_ipsets = Some [None, None, Some ''ads'', None]\<rparr>\<rparr>,
     g_audit = zero_config\<rparr>"

lemma demo_blank: "replicate 4 x = [x, x, x, x]"
  by (simp add: numeral_eq_Suc)

lemma demo_parse: "do_parse_config (\<lambda>n. True) (\<lambda>s. Some demo_js) ''{}'' = Ret (Some demo_config, True)"
  by (simp add: do_parse_config_def demo_js_def demo_set_js_def demo_rule_js_def js_ids_def parse_document_def parse_key_def nx_json_get_def
      init_global_config_def parse_control_set_key_def do_parse_control_set_def do_parse_ac_set_def CONTROL_IPSET_TYPE_MAX_def
      ipset_key_map_def nx_dummy_def parse_control_rule_key_def do_parse_ac_rule_def nx_json_array_map_def ac_rule_item_init_def
      nx_json_integer_map_def opt_ids_def opt_actions_def check_list_valid_def id_list_init_def str_list_init_def nx_json_item_def
      nx_json_string_map_def AC_ID_MAXNUM_PERMATCH_def AC_RULE_MAXID_def AC_ZONE_MAXID_def AC_IPGRP_MAXID_def AC_PROTO_MAXID_def
      RULE_MAXNUM_def AC_ACTION_MAXNUM_def AC_ACTION_MAXNAMELEN_def AC_IPSET_MAXNAMELEN_def demo_config_def demo_item_def
      zero_config_def Let_def upt_rec demo_blank)

theorem parsed_rules_in_range_witness: "item_ok demo_item"
proof -
  have "item_complete demo_item" by (simp add: item_complete_def demo_item_def)
  with parsed_rules_in_range [OF demo_parse, of "c_rule (g_control demo_config)"] show ?thesis
    by (simp add: demo_config_def)
qed

end
