(* ===== verification/Nacs_Table.thy ===== *)
theory Nacs_Table
  imports Nacs_Layout
begin

text \<open>
  \<open>drivers/nacs/src/nacs_table.c\<close>, the rule tables: installing a table received from user
  space (size checks, the walk over the entries, one copy per CPU) and evaluating it for a
  flow (zone and group lists, binary search in the protocol ids, first match wins). The
  evaluation reads the raw bytes, as the kernel does; the property at the end connects it
  with the rules the tool \<open>ruletable\<close> was given.
\<close>

section \<open>Installing a table\<close>

text \<open>
  \<open>SMP_CACHE_BYTES\<close> is 32 on the target, and \<open>unsigned int\<close> and \<open>size_t\<close> have 32 bits: the
  sums and products of sizes wrap.
\<close>

definition SMP_ALIGN :: "nat \<Rightarrow> nat" where
  "SMP_ALIGN n = nat ((int n + 31) mod 2 ^ 32 div 32 * 32)"

definition RULE_TYPE_MAX :: nat where
  "RULE_TYPE_MAX = 2"

text \<open>The allocator's answers, and what a fresh block happens to contain.\<close>

record nacs_env =
  ncpu :: nat
  totalram_pages :: nat
  kalloc_ok :: "nat \<Rightarrow> bool"
  junk :: "u8 list"

definition fresh :: "nacs_env \<Rightarrow> nat \<Rightarrow> u8 list" where
  "fresh env n = take n (junk env @ replicate n 0)"

lemma length_fresh [simp]: "length (fresh env n) = n"
  by (simp add: fresh_def)

text \<open>\<open>copy_from_user\<close> of \<open>n\<close> bytes; None when the user's memory does not have them.\<close>

definition copy_from_user :: "u8 list \<Rightarrow> nat \<Rightarrow> nat \<Rightarrow> u8 list option" where
  "copy_from_user user off n = (if off + n \<le> length user then Some (take n (drop off user)) else None)"

text \<open>\<open>ti_buf\<close> is the array \<open>entries\<close>: one aligned copy per CPU.\<close>

record ac_table_info =
  ti_category :: u32
  ti_size :: u32
  ti_number :: u32
  ti_buf :: "u8 list"

text \<open>
  The allocation with the two size checks before it: a header of \<open>h\<close> bytes, then one aligned
  array of \<open>n\<close> bytes per CPU. The result is the memory behind the header.
\<close>

definition alloc_percpu :: "nacs_env \<Rightarrow> nat \<Rightarrow> nat \<Rightarrow> u8 list option" where
  "alloc_percpu env h n =
     (let sz = unat (word_of_nat (h + SMP_ALIGN n * ncpu env) :: u32)
      in if sz < h then None
         else if SMP_ALIGN n div 4096 + 2 > totalram_pages env then None
         else if kalloc_ok env sz then Some (fresh env (sz - h)) else None)"

definition alloc_ac_table_info :: "nacs_env \<Rightarrow> u32 \<Rightarrow> ac_table_info option" where
  "alloc_ac_table_info env sz =
     map_option (\<lambda>buf. \<lparr>ti_category = 0, ti_size = sz, ti_number = 0, ti_buf = buf\<rparr>)
       (alloc_percpu env 32 (unat sz))"

definition check_entry_size :: "u8 list \<Rightarrow> nat \<Rightarrow> nat \<Rightarrow> errno option run" where
  "check_entry_size buf entry limit =
     run_bind (rd16 buf (entry + 6)) (\<lambda>next_offset.
       if entry + unat next_offset > limit then Ret (Some EINVAL)
       else if entry mod 8 \<noteq> 0 then Ret (Some EINVAL)
       else Ret None)"

text \<open>The loop of \<open>translate_table\<close> over the entries: the number of entries, or the error.\<close>

fun check_entries :: "nat \<Rightarrow> u8 list \<Rightarrow> nat \<Rightarrow> nat \<Rightarrow> nat \<Rightarrow> (errno + nat) run" where
  "check_entries 0 buf sz entry i = Fault NoFuel"
| "check_entries (Suc fuel) buf sz entry i =
     (if entry < sz then
        run_bind (check_entry_size buf entry sz) (\<lambda>err.
          case err of
            Some e \<Rightarrow> Ret (Inl e)
          | None \<Rightarrow> run_bind (rd16 buf (entry + 6)) (\<lambda>next_offset.
              check_entries fuel buf sz (entry + unat next_offset) (Suc i)))
      else Ret (Inr i))"

fun percpu_copy :: "nat \<Rightarrow> nat list \<Rightarrow> u8 list \<Rightarrow> u8 list run" where
  "percpu_copy sz [] buf = Ret buf"
| "percpu_copy sz (i # is) buf = run_bind (mem_write buf (sz * i) (take sz buf)) (percpu_copy sz is)"

definition translate_table ::
  "nacs_env \<Rightarrow> nat \<Rightarrow> ac_table_info \<Rightarrow> u32 \<Rightarrow> u32 \<Rightarrow> u32 \<Rightarrow> (ac_table_info \<times> errno option) run" where
  "translate_table env fuel info cate sz num =
     (let info = info\<lparr>ti_category := cate, ti_size := sz, ti_number := num\<rparr>
      in if unat cate \<ge> RULE_TYPE_MAX then Ret (info, Some EINVAL)
         else run_bind (check_entries fuel (ti_buf info) (unat sz) 0 0) (\<lambda>r.
           case r of
             Inl e \<Rightarrow> Ret (info, Some e)
           | Inr i \<Rightarrow>
               run_bind (percpu_copy (SMP_ALIGN (unat sz)) [1..<ncpu env] (ti_buf info)) (\<lambda>buf.
                 Ret (info\<lparr>ti_buf := buf\<rparr>, if i \<noteq> unat num then Some EINVAL else None))))"

record ac_table =
  magic :: u32
  priv_tables :: "ac_table_info list"

definition do_replace_table_locked :: "'a ac_table_scheme \<Rightarrow> ac_table_info \<Rightarrow> 'a ac_table_scheme" where
  "do_replace_table_locked table new_info =
     table\<lparr>priv_tables := (priv_tables table)[unat (ti_category new_info) := new_info],
           magic := magic table + 1\<rparr>"

definition do_replace_table ::
  "nacs_env \<Rightarrow> nat \<Rightarrow> u8 list \<Rightarrow> nat \<Rightarrow> 'a ac_table_scheme \<Rightarrow> ('a ac_table_scheme \<times> errno option) run" where
  "do_replace_table env fuel user len table =
     (case copy_from_user user 0 12 of
        None \<Rightarrow> Ret (table, Some EFAULT)
      | Some tmp \<Rightarrow>
     run_bind (rd32 tmp 0) (\<lambda>cate.
     run_bind (rd32 tmp 4) (\<lambda>sz.
     run_bind (rd32 tmp 8) (\<lambda>num.
       if word_of_nat len \<noteq> 12 + sz then Ret (table, Some ENOPROTOOPT)
       else case alloc_ac_table_info env sz of
         None \<Rightarrow> Ret (table, Some ENOMEM)
       | Some new_info \<Rightarrow>
           (case copy_from_user user 12 (unat sz) of
              None \<Rightarrow> Ret (table, Some EFAULT)
            | Some body \<Rightarrow>
                run_bind (mem_write (ti_buf new_info) 0 body) (\<lambda>buf.
                run_bind (translate_table env fuel (new_info\<lparr>ti_buf := buf\<rparr>) cate sz num) (\<lambda>(info, err).
                  case err of
                    Some e \<Rightarrow> Ret (table, Some e)
                  | None \<Rightarrow> Ret (do_replace_table_locked table info, None))))))))"

section \<open>Evaluating a table\<close>

record nac_table_req =
  rq_src_zone :: u8
  rq_dst_zone :: u8
  rq_src_ipgrp_bits :: u64
  rq_dst_ipgrp_bits :: u64
  rq_proto_id :: u32

text \<open>\<open>binary_search\<close>; \<open>get\<close> reads the array.\<close>

function binary_search :: "(int \<Rightarrow> u32 run) \<Rightarrow> int \<Rightarrow> int \<Rightarrow> u32 \<Rightarrow> int run" where
  "binary_search get left right v =
     (if left \<le> right then
        (let middle = left + (right - left) div 2
         in run_bind (get middle) (\<lambda>x.
              if x > v then binary_search get left (middle - 1) v
              else if x < v then binary_search get (middle + 1) right v
              else Ret middle))
      else Ret (-1))"
  by pat_completeness auto
termination
  by (relation "measure (\<lambda>(get, left, right, v). nat (right - left + 1))") auto

declare binary_search.simps [simp del]

fun ac_zone_check :: "u8 list \<Rightarrow> nat \<Rightarrow> nat \<Rightarrow> u8 \<Rightarrow> bool run" where
  "ac_zone_check buf zone 0 zone_id = Ret False"
| "ac_zone_check buf zone (Suc n) zone_id =
     run_bind (rd8 buf zone) (\<lambda>z.
       if z = zone_id \<or> z \<ge> 255 then Ret True else ac_zone_check buf (zone + 1) n zone_id)"

fun ac_ipgrp_check :: "u8 list \<Rightarrow> nat \<Rightarrow> nat \<Rightarrow> u64 \<Rightarrow> bool run" where
  "ac_ipgrp_check buf ipgrp 0 ipgrp_bits = Ret False"
| "ac_ipgrp_check buf ipgrp (Suc n) ipgrp_bits =
     run_bind (rd8 buf ipgrp) (\<lambda>g.
       if g < 64 \<and> ipgrp_bits AND push_bit (unat g) 1 \<noteq> 0 then Ret True
       else if g \<ge> 63 then Ret True
       else ac_ipgrp_check buf (ipgrp + 1) n ipgrp_bits)"

text \<open>The four parts in order; the elements start 16 bytes into the match.\<close>

definition flow_match_check :: "u8 list \<Rightarrow> nat \<Rightarrow> nac_table_req \<Rightarrow> bool run" where
  "flow_match_check buf m flow =
     (let base = m + 16 in
      run_bind (rd16 buf m) (\<lambda>n0.
      run_bind (ac_zone_check buf base (unat n0) (rq_src_zone flow)) (\<lambda>matched.
      if \<not> matched then Ret False else
      run_bind (rd16 buf (m + 2)) (\<lambda>n1.
      run_bind (ac_ipgrp_check buf (base + unat n0) (unat n1) (rq_src_ipgrp_bits flow)) (\<lambda>matched.
      if \<not> matched then Ret False else
      run_bind (rd16 buf (m + 4)) (\<lambda>n2.
      run_bind (ac_zone_check buf (base + unat n0 + unat n1) (unat n2) (rq_dst_zone flow)) (\<lambda>matched.
      if \<not> matched then Ret False else
      run_bind (rd16 buf (m + 6)) (\<lambda>n3.
      ac_ipgrp_check buf (base + unat n0 + unat n1 + unat n2) (unat n3) (rq_dst_ipgrp_bits flow)))))))))"

definition proto_match_check :: "u8 list \<Rightarrow> nat \<Rightarrow> u32 \<Rightarrow> bool run" where
  "proto_match_check buf m proto_id =
     run_bind (rd16 buf m) (\<lambda>n.
     run_bind (binary_search (\<lambda>i. rd32 buf (m + 8 + 4 * nat i)) 0 (int (unat n) - 1) proto_id) (\<lambda>idx.
       Ret (\<not> idx < 0)))"

text \<open>
  The loop of \<open>__do_table\<close> in one CPU's copy, which starts at \<open>base\<close>: the entry's id and the
  target's flags of the first matching entry. Flags with the value -1 are taken for ``no
  match''.
\<close>

fun do_table_loop :: "nat \<Rightarrow> u8 list \<Rightarrow> nat \<Rightarrow> nat \<Rightarrow> nat \<Rightarrow> nac_table_req \<Rightarrow> (u16 \<times> u32) option run" where
  "do_table_loop 0 buf base sz entry req = Fault NoFuel"
| "do_table_loop (Suc fuel) buf base sz entry req =
     (if entry < sz then
        (let e = base + entry in
         run_bind (rd16 buf (e + 2)) (\<lambda>proto_match_offset.
         run_bind (rd16 buf (e + 4)) (\<lambda>target_offset.
         run_bind (flow_match_check buf (e + 8) req) (\<lambda>fm.
         run_bind (if fm then proto_match_check buf (e + unat proto_match_offset) (rq_proto_id req) else Ret False) (\<lambda>pm.
           if pm then
             run_bind (rd32 buf (e + unat target_offset + 4)) (\<lambda>fl.
             run_bind (rd16 buf e) (\<lambda>eid. Ret (if fl = -1 then None else Some (eid, fl))))
           else
             run_bind (rd16 buf (e + 6)) (\<lambda>next_offset.
               do_table_loop fuel buf base sz (entry + unat next_offset) req))))))
      else Ret None)"

definition do_table :: "nat \<Rightarrow> nat \<Rightarrow> nac_table_req \<Rightarrow> ac_table_info \<Rightarrow> (u16 \<times> u32) option run" where
  "do_table fuel cpu req info =
     do_table_loop fuel (ti_buf info) (SMP_ALIGN (unat (ti_size info)) * cpu) (unat (ti_size info)) 0 req"

section \<open>What the rules mean\<close>

definition zone_in :: "u32 list \<Rightarrow> u8 \<Rightarrow> bool" where
  "zone_in ids z \<longleftrightarrow> (\<exists>i \<in> set ids. (ucast i :: u8) = z \<or> (ucast i :: u8) \<ge> 255)"

definition grp_in :: "u32 list \<Rightarrow> u64 \<Rightarrow> bool" where
  "grp_in ids bits \<longleftrightarrow> (\<exists>i \<in> set ids. (ucast i :: u8) < 64 \<and> bit bits (unat (ucast i :: u8)) \<or> (ucast i :: u8) \<ge> 63)"

definition item_hit :: "nac_table_req \<Rightarrow> ac_rule_item \<Rightarrow> bool" where
  "item_hit req it \<longleftrightarrow>
     zone_in (src_zone_ids it) (rq_src_zone req) \<and> grp_in (src_ipgrp_ids it) (rq_src_ipgrp_bits req)
   \<and> zone_in (dst_zone_ids it) (rq_dst_zone req) \<and> grp_in (dst_ipgrp_ids it) (rq_dst_ipgrp_bits req)
   \<and> rq_proto_id req \<in> set (proto_ids it)"

text \<open>The rule table as its author sees it: the first rule that matches decides.\<close>

definition rules_decide :: "nac_table_req \<Rightarrow> ac_rule_item list \<Rightarrow> (u16 \<times> u32) option" where
  "rules_decide req its =
     map_option (\<lambda>it. (ucast (item_id it), target_flags (action it))) (find (item_hit req) its)"

section \<open>Binary search\<close>

lemma binary_search_sorted:
  fixes xs :: "u32 list"
  assumes "sorted xs" and "\<And>i. i < length xs \<Longrightarrow> get (int i) = Ret (xs ! i)"
    and "0 \<le> left" and "right < int (length xs)"
  shows "\<exists>i. binary_search get left right v = Ret i \<and>
    (if i < 0 then \<forall>j. left \<le> j \<and> j \<le> right \<longrightarrow> xs ! nat j \<noteq> v
     else left \<le> i \<and> i \<le> right \<and> xs ! nat i = v)"
  using assms(3,4)
proof (induction "nat (right - left + 1)" arbitrary: left right rule: less_induct)
  case less
  show ?case
  proof (cases "left \<le> right")
    case False
    then show ?thesis by (auto simp: binary_search.simps [of get left right v])
  next
    case True
    define m where "m = left + (right - left) div 2"
    have m: "left \<le> m" "m \<le> right" using True by (auto simp: m_def)
    then have g: "get m = Ret (xs ! nat m)"
      using assms(2) [of "nat m"] less.prems by simp
    have mono: "xs ! nat i \<le> xs ! nat j" if "0 \<le> i" "i \<le> j" "j < int (length xs)" for i j
      using that by (intro sorted_nth_mono [OF assms(1)]) auto
    have step: "binary_search get left right v =
        (if xs ! nat m > v then binary_search get left (m - 1) v
         else if xs ! nat m < v then binary_search get (m + 1) right v else Ret m)"
      using True g by (simp add: binary_search.simps [of get left right v] m_def [symmetric] Let_def)
    consider (gt) "xs ! nat m > v" | (lt) "xs ! nat m < v" | (eq) "xs ! nat m = v"
      by (meson linorder_neqE)
    then show ?thesis
    proof cases
      case gt
      have "nat (m - 1 - left + 1) < nat (right - left + 1)" using m by simp
      then obtain i where i: "binary_search get left (m - 1) v = Ret i"
        "if i < 0 then \<forall>j. left \<le> j \<and> j \<le> m - 1 \<longrightarrow> xs ! nat j \<noteq> v
         else left \<le> i \<and> i \<le> m - 1 \<and> xs ! nat i = v"
        using less.hyps [of "m - 1" left] less.prems m by auto
      have "xs ! nat j \<noteq> v" if "m \<le> j" "j \<le> right" for j
        using mono [of m j] gt that m less.prems by auto
      with i gt step m show ?thesis
        by (intro exI [of _ i]) (auto split: if_splits, metis linorder_not_less zle_diff1_eq)
    next
      case lt
      have "nat (right - (m + 1) + 1) < nat (right - left + 1)" using m by simp
      then obtain i where i: "binary_search get (m + 1) right v = Ret i"
        "if i < 0 then \<forall>j. m + 1 \<le> j \<and> j \<le> right \<longrightarrow> xs ! nat j \<noteq> v
         else m + 1 \<le> i \<and> i \<le> right \<and> xs ! nat i = v"
        using less.hyps [of right "m + 1"] less.prems m by auto
      have "xs ! nat j \<noteq> v" if "left \<le> j" "j \<le> m" for j
        using mono [of j m] lt that m less.prems by auto
      with i lt step m show ?thesis
        by (intro exI [of _ i]) (auto split: if_splits, metis linorder_not_less zless_imp_add1_zle)
    next
      case eq
      with step m less.prems show ?thesis by (intro exI [of _ m]) auto
    qed
  qed
qed

lemma binary_search_mem:
  fixes xs :: "u32 list"
  assumes "sorted xs" and "\<And>i. i < length xs \<Longrightarrow> get (int i) = Ret (xs ! i)"
  shows "\<exists>i. binary_search get 0 (int (length xs) - 1) v = Ret i \<and> (\<not> i < 0 \<longleftrightarrow> v \<in> set xs)"
proof -
  obtain i where i: "binary_search get 0 (int (length xs) - 1) v = Ret i"
    "if i < 0 then \<forall>j. 0 \<le> j \<and> j \<le> int (length xs) - 1 \<longrightarrow> xs ! nat j \<noteq> v
     else 0 \<le> i \<and> i \<le> int (length xs) - 1 \<and> xs ! nat i = v"
    using binary_search_sorted [OF assms, of 0 "int (length xs) - 1" v] by auto
  show ?thesis
  proof (cases "i < 0")
    case True
    have "v \<notin> set xs"
    proof
      assume "v \<in> set xs"
      then obtain k where "k < length xs" "xs ! k = v" by (auto simp: in_set_conv_nth)
      with i(2) True show False by (auto dest: spec [of _ "int k"])
    qed
    with i True show ?thesis by auto
  next
    case False
    then have "nat i < length xs" "xs ! nat i = v" using i(2) by auto
    then have "v \<in> set xs" by (metis nth_mem)
    with i False show ?thesis by auto
  qed
qed

section \<open>Evaluating encoded entries\<close>

lemma located_Cons: "located buf off (x # xs) \<longleftrightarrow> located buf off [x] \<and> located buf (off + 1) xs"
  using located_append [of buf off "[x]" xs] by simp

lemma rd8_first: "located buf off [x] \<Longrightarrow> rd8 buf off = Ret x"
  using rd8_located [of buf off "[x]" 0] by simp

lemma zone_check_located:
  "located buf off (map ucast ids) \<Longrightarrow> ac_zone_check buf off (length ids) z = Ret (zone_in ids z)"
proof (induction ids arbitrary: off)
  case Nil
  then show ?case by (simp add: zone_in_def)
next
  case (Cons i ids)
  then have "located buf off [ucast i] \<and> located buf (off + 1) (map ucast ids)"
    using located_Cons [of buf off "ucast i" "map ucast ids"] by (simp only: list.map)
  then have "rd8 buf off = Ret (ucast i)" "located buf (off + 1) (map ucast ids)"
    using rd8_first by blast+
  with Cons.IH show ?case by (auto simp: zone_in_def)
qed

lemma ipgrp_check_located:
  "located buf off (map ucast ids) \<Longrightarrow> ac_ipgrp_check buf off (length ids) bits = Ret (grp_in ids bits)"
proof (induction ids arbitrary: off)
  case Nil
  then show ?case by (simp add: grp_in_def)
next
  case (Cons i ids)
  then have "located buf off [ucast i] \<and> located buf (off + 1) (map ucast ids)"
    using located_Cons [of buf off "ucast i" "map ucast ids"] by (simp only: list.map)
  then have "rd8 buf off = Ret (ucast i)" "located buf (off + 1) (map ucast ids)"
    using rd8_first by blast+
  with Cons.IH show ?case by (auto simp: grp_in_def and_exp_eq_0_iff_not_bit)
qed

lemma flow_check_located:
  assumes "located buf m (flow_bytes it)" and "item_ok it"
  shows "flow_match_check buf m req = Ret
    (zone_in (src_zone_ids it) (rq_src_zone req) \<and> grp_in (src_ipgrp_ids it) (rq_src_ipgrp_bits req)
     \<and> zone_in (dst_zone_ids it) (rq_dst_zone req) \<and> grp_in (dst_ipgrp_ids it) (rq_dst_ipgrp_bits req))"
proof -
  have nums: "located buf m (le16 (num16 (src_zone_ids it)))" "located buf (m + 2) (le16 (num16 (src_ipgrp_ids it)))"
    "located buf (m + 4) (le16 (num16 (dst_zone_ids it)))" "located buf (m + 6) (le16 (num16 (dst_ipgrp_ids it)))"
    "located buf (m + 16) (flow_elems it)"
    using assms(1) unfolding flow_bytes_def located_append
    by (simp_all add: add.assoc del: add_2_eq_Suc add_2_eq_Suc')
  have elems: "located buf (m + 16) (map ucast (src_zone_ids it))"
    "located buf (m + 16 + length (src_zone_ids it)) (map ucast (src_ipgrp_ids it))"
    "located buf (m + 16 + length (src_zone_ids it) + length (src_ipgrp_ids it)) (map ucast (dst_zone_ids it))"
    "located buf (m + 16 + length (src_zone_ids it) + length (src_ipgrp_ids it) + length (dst_zone_ids it))
       (map ucast (dst_ipgrp_ids it))"
    using nums(5) unfolding flow_elems_def map_append located_append by simp_all
  have lens: "unat (num16 (src_zone_ids it)) = length (src_zone_ids it)"
    "unat (num16 (src_ipgrp_ids it)) = length (src_ipgrp_ids it)"
    "unat (num16 (dst_zone_ids it)) = length (dst_zone_ids it)"
    "unat (num16 (dst_ipgrp_ids it)) = length (dst_ipgrp_ids it)"
    using assms(2) by (simp_all add: item_ok_def ids_ok_num16)
  show ?thesis
    unfolding flow_match_check_def Let_def
    by (simp add: rd16_located [OF nums(1)] rd16_located [OF nums(2)] rd16_located [OF nums(3)]
        rd16_located [OF nums(4)] lens zone_check_located [OF elems(1)] ipgrp_check_located [OF elems(2)]
        zone_check_located [OF elems(3)] ipgrp_check_located [OF elems(4)] del: add_2_eq_Suc add_2_eq_Suc')
qed

lemma located_concat_le32:
  "located buf off (concat (map le32 ids)) \<Longrightarrow> i < length ids \<Longrightarrow> located buf (off + 4 * i) (le32 (ids ! i))"
proof (induction ids arbitrary: off i)
  case Nil
  then show ?case by simp
next
  case (Cons x ids)
  then show ?case
    by (cases i) (auto simp: add.assoc dest!: Cons.IH)
qed

lemma proto_check_located:
  assumes "located buf m (proto_bytes it)" and "item_ok it" and "sorted (proto_ids it)"
  shows "proto_match_check buf m p = Ret (p \<in> set (proto_ids it))"
proof -
  have num: "located buf m (le16 (num16 (proto_ids it)))" and ids: "located buf (m + 8) (concat (map le32 (proto_ids it)))"
    using assms(1) unfolding proto_bytes_def located_append
    by (simp_all add: add.assoc del: add_2_eq_Suc add_2_eq_Suc')
  have len: "unat (num16 (proto_ids it)) = length (proto_ids it)"
    using assms(2) by (simp add: item_ok_def ids_ok_num16)
  have "rd32 buf (m + 8 + 4 * nat (int i)) = Ret (proto_ids it ! i)" if "i < length (proto_ids it)" for i
    using rd32_located [OF located_concat_le32 [OF ids that]] by simp
  then obtain i where "binary_search (\<lambda>i. rd32 buf (m + 8 + 4 * nat i)) 0 (int (length (proto_ids it)) - 1) p = Ret i"
    "\<not> i < 0 \<longleftrightarrow> p \<in> set (proto_ids it)"
    using binary_search_mem [OF assms(3), of "\<lambda>i. rd32 buf (m + 8 + 4 * nat i)" p] by blast
  then show ?thesis
    unfolding proto_match_check_def rd16_located [OF num] run_bind.simps len by simp
qed

lemma target_located:
  "located buf m (target_bytes it) \<Longrightarrow> rd32 buf (m + 4) = Ret (target_flags (action it))"
  unfolding target_bytes_def located_append by (simp add: rd32_located)

lemma entry_offsets:
  assumes "item_ok it"
  shows "unat (word_of_nat (8 + flow_size it) :: u16) = 8 + flow_size it"
    and "unat (word_of_nat (8 + flow_size it + proto_size it) :: u16) = 8 + flow_size it + proto_size it"
    and "unat (word_of_nat (entry_size it) :: u16) = entry_size it"
  using entry_bounds [OF assms] by (simp_all only: unat_u16 entry_size_def)

lemma target_flags_small: "target_flags acts < 8"
proof -
  have b: "fold (\<lambda>(name, v) f. if strcase_eq a name then f OR v else f) target_map f AND 7 =
      fold (\<lambda>(name, v) f. if strcase_eq a name then f OR v else f) target_map f" if "f AND 7 = f" for a f
    using that by (auto simp: target_map_def AC_ACCEPT_def AC_AUDIT_def AC_REJECT_def bit.conj_disj_distrib2)
  have "fold (\<lambda>a f. fold (\<lambda>(name, v) f. if strcase_eq a name then f OR v else f) target_map f) acts g AND 7 =
      fold (\<lambda>a f. fold (\<lambda>(name, v) f. if strcase_eq a name then f OR v else f) target_map f) acts g" if "g AND 7 = g" for g
    using that by (induction acts arbitrary: g) (simp_all add: b)
  from this [of 0] have "target_flags acts AND 7 = target_flags acts" by (simp add: target_flags_def)
  then have "target_flags acts \<le> 7" by (metis word_and_le1)
  then show ?thesis by (simp add: word_le_nat_alt word_less_nat_alt)
qed

text \<open>The walk over an encoded table finds the first matching rule.\<close>

lemma do_table_loop_located:
  assumes "located buf (base + entry) (items_bytes its)" and "entry + length (items_bytes its) = sz"
    and "\<forall>it \<in> set its. item_ok it \<and> sorted (proto_ids it)" and "length its < fuel"
  shows "do_table_loop fuel buf base sz entry req = Ret (rules_decide req its)"
  using assms
proof (induction its arbitrary: entry fuel)
  case Nil
  then show ?case by (cases fuel) (simp_all add: rules_decide_def)
next
  case (Cons it its)
  then obtain f where f: "fuel = Suc f" by (cases fuel) auto
  have it: "item_ok it" "sorted (proto_ids it)" using Cons.prems(3) by simp_all
  have e: "located buf (base + entry) (entry_bytes it)"
    and rest: "located buf (base + (entry + entry_size it)) (items_bytes its)"
    using Cons.prems(1) by (simp_all add: add.assoc)
  note l = located_entry [OF e]
  note off = entry_offsets [OF it(1)]
  have tgt: "rd32 buf (base + entry + (8 + flow_size it + proto_size it) + 4) = Ret (target_flags (action it))"
    using target_located [OF l(7)] .
  have neg: "target_flags (action it) \<noteq> -1" using target_flags_small [of "action it"] by auto
  have IH: "do_table_loop f buf base sz (entry + entry_size it) req = Ret (rules_decide req its)"
    using rest Cons.prems f by (intro Cons.IH) auto
  have lt: "entry < sz" using Cons.prems(2) by (simp add: entry_size_def)
  show ?case
    unfolding f using lt neg
    by (simp add: Let_def rd16_located [OF l(1)] rd16_located [OF l(2)] rd16_located [OF l(3)] rd16_located [OF l(4)]
        flow_check_located [OF l(5) it(1)] proto_check_located [OF l(6) it] tgt [simplified] off IH rules_decide_def item_hit_def
        del: of_nat_add add_2_eq_Suc add_2_eq_Suc')
qed

section \<open>Installing encoded tables\<close>

lemma entry_size_mod8 [simp]: "entry_size it mod 8 = 0"
proof -
  have "flow_size it mod 8 = 0" "proto_size it mod 8 = 0" by (simp_all add: flow_size_def proto_size_def)
  then show ?thesis by (simp add: entry_size_def mod_add_eq [symmetric] flip: mod_add_eq)
qed

lemma check_entries_located:
  assumes "located buf entry (items_bytes its)" and "entry + length (items_bytes its) = sz"
    and "\<forall>it \<in> set its. item_ok it" and "entry mod 8 = 0" and "length its < fuel"
  shows "check_entries fuel buf sz entry i = Ret (Inr (i + length its))"
  using assms
proof (induction its arbitrary: entry i fuel)
  case Nil
  then show ?case by (cases fuel) simp_all
next
  case (Cons it its)
  then obtain f where f: "fuel = Suc f" by (cases fuel) auto
  have it: "item_ok it" using Cons.prems(3) by simp
  have e: "located buf entry (entry_bytes it)" and rest: "located buf (entry + entry_size it) (items_bytes its)"
    using Cons.prems(1) by simp_all
  have IH: "check_entries f buf sz (entry + entry_size it) (Suc i) = Ret (Inr (Suc i + length its))"
    using rest Cons.prems f by (intro Cons.IH) (auto simp: mod_add_eq [symmetric])
  have "entry < sz" "entry + entry_size it \<le> sz" using Cons.prems(2) by (simp_all add: entry_size_def)
  then show ?case
    unfolding f using Cons.prems(4)
    by (simp add: check_entry_size_def rd16_located [OF located_entry(4) [OF e]] entry_offsets(3) [OF it] IH)
qed

definition slice :: "nat \<Rightarrow> nat \<Rightarrow> u8 list \<Rightarrow> u8 list" where
  "slice s c b = take s (drop (s * c) b)"

lemma take_drop_prefix:
  assumes "a + s \<le> length p"
  shows "take s (drop a (p @ q)) = take s (drop a p)"
proof -
  have "s \<le> length (drop a p)" using assms by simp
  then have "s - length (drop a p) = 0" by simp
  then show ?thesis using assms by simp
qed

lemma slice_write:
  assumes "length x = s" "s * k + s \<le> length b" "s * c + s \<le> length b"
  shows "slice s c (take (s * k) b @ x @ drop (s * k + s) b) = (if c = k then x else slice s c b)"
proof (cases c k rule: linorder_cases)
  case less
  then have "s * Suc c \<le> s * k" by (intro mult_le_mono2) simp
  then have "s * c + s \<le> length (take (s * k) b)" using assms by simp
  then have "slice s c (take (s * k) b @ y) = slice s c (take (s * k) b @ drop (s * k) b)" for y
    unfolding slice_def by (simp only: take_drop_prefix)
  with less show ?thesis by simp
next
  case equal
  with assms show ?thesis by (simp add: slice_def)
next
  case greater
  then have "s * Suc k \<le> s * c" by (intro mult_le_mono2) simp
  then obtain d where "s * c = s * k + s + d" by (metis add.commute le_Suc_ex mult_Suc_right)
  with assms greater show ?thesis by (simp add: slice_def add.commute add.left_commute)
qed

lemma percpu_copy_slices:
  assumes "1 \<le> k" "k \<le> n" "length buf = s * n"
  shows "\<exists>buf'. percpu_copy s [k..<n] buf = Ret buf' \<and> length buf' = length buf
    \<and> (\<forall>c < n. slice s c buf' = (if c < k then slice s c buf else slice s 0 buf))"
  using assms
proof (induction "n - k" arbitrary: k buf)
  case 0
  then show ?case by simp
next
  case (Suc d)
  then have k: "k < n" by simp
  have fit: "s * c + s \<le> length buf" if "c < n" for c
  proof -
    have "s * Suc c \<le> s * n" using that by (intro mult_le_mono2) simp
    with Suc.prems show ?thesis by simp
  qed
  define b1 where "b1 = take (s * k) buf @ take s buf @ drop (s * k + s) buf"
  have s0: "length (take s buf) = s" using fit [of 0] k by simp
  have w: "mem_write buf (s * k) (take s buf) = Ret b1"
    using fit [OF k] s0 by (simp add: mem_write_def b1_def)
  have len: "length b1 = length buf" using fit [OF k] s0 by (simp add: b1_def)
  have sl: "slice s c b1 = (if c = k then slice s 0 buf else slice s c buf)" if "c < n" for c
    unfolding b1_def using slice_write [OF s0 fit [OF k] fit [OF that]] by (simp add: slice_def)
  have d: "d = n - Suc k" using Suc.hyps(2) by simp
  have upt: "[k..<n] = k # [Suc k..<n]" using k by (rule upt_conv_Cons)
  obtain buf' where "percpu_copy s [Suc k..<n] b1 = Ret buf'" "length buf' = length b1"
    "\<forall>c < n. slice s c buf' = (if c < Suc k then slice s c b1 else slice s 0 b1)"
    using Suc.hyps(1) [OF d, of b1] Suc.prems k len by auto
  with sl Suc.prems k len show ?case
    by (intro exI [of _ buf']) (auto simp: upt w)
qed

lemma located_slice: "length (slice s c b) = s \<Longrightarrow> take (length bs) (slice s c b) = bs \<Longrightarrow> length bs \<le> s
    \<Longrightarrow> located b (s * c) bs"
proof -
  assume a: "length (slice s c b) = s" "take (length bs) (slice s c b) = bs" "length bs \<le> s"
  then have "s \<le> length b - s * c" by (simp add: slice_def)
  moreover have "s * c \<le> length b \<or> bs = []" using a calculation by (cases "s * c \<le> length b") auto
  ultimately show ?thesis
    using a by (cases "s * c \<le> length b") (auto simp: located_def slice_def min_def)
qed

text \<open>Enough memory for one array of \<open>n\<close> bytes per CPU behind a header of \<open>h\<close> bytes.\<close>

definition alloc_fits :: "nacs_env \<Rightarrow> nat \<Rightarrow> nat \<Rightarrow> bool" where
  "alloc_fits env h n \<longleftrightarrow>
     n + 31 < 2 ^ 32 \<and> h + SMP_ALIGN n * ncpu env < 2 ^ 32
   \<and> SMP_ALIGN n div 4096 + 2 \<le> totalram_pages env \<and> kalloc_ok env (h + SMP_ALIGN n * ncpu env)"

lemma SMP_ALIGN_ge: "n + 31 < 2 ^ 32 \<Longrightarrow> n \<le> SMP_ALIGN n"
  unfolding SMP_ALIGN_def by simp

lemma SMP_ALIGN_le: "SMP_ALIGN n \<le> n + 31"
proof -
  have "x div 32 * 32 \<le> x" for x :: int by presburger
  then have "(int n + 31) mod 2 ^ 32 div 32 * 32 \<le> (int n + 31) mod 2 ^ 32" .
  also have "\<dots> \<le> int n + 31" by (rule zmod_le_nonneg_dividend) simp
  finally show ?thesis by (simp add: SMP_ALIGN_def)
qed

lemma alloc_percpu_fits:
  "alloc_fits env h n \<Longrightarrow> alloc_percpu env h n = Some (fresh env (SMP_ALIGN n * ncpu env))"
  by (simp add: alloc_fits_def alloc_percpu_def Let_def unat_of_nat del: of_nat_add of_nat_mult)

text \<open>A message whose body is an encoded table is accepted, and every CPU gets a copy of it.\<close>

lemma do_replace_table_encoded:
  assumes ok: "\<forall>it \<in> set its. item_ok it" and len: "length its \<le> 65535" "length its < fuel"
    and env: "alloc_fits env 32 (length (items_bytes its))" "1 \<le> ncpu env" and cate: "unat cate < RULE_TYPE_MAX"
  shows "\<exists>info. do_replace_table env fuel (table_bytes (table_of cate its)) (length (table_bytes (table_of cate its))) table
      = Ret (do_replace_table_locked table info, None)
    \<and> ti_category info = cate \<and> unat (ti_size info) = length (items_bytes its)
    \<and> (\<forall>cpu < ncpu env. located (ti_buf info) (SMP_ALIGN (unat (ti_size info)) * cpu) (items_bytes its))"
proof -
  define t where "t = table_of cate its"
  define n where "n = length (items_bytes its)"
  define a where "a = SMP_ALIGN n"
  have na: "n \<le> a" using env(1) by (simp add: a_def n_def SMP_ALIGN_ge alloc_fits_def)
  have sz: "unat (tsize t) = n" "unat (number t) = length its" and tc: "category t = cate" "entries t = items_bytes its"
    using table_of_sizes [OF ok len(1), of cate] by (simp_all add: t_def n_def table_of_def)
  define h where "h = le32 (category t) @ le32 (tsize t) @ le32 (number t)"
  have tb: "table_bytes t = h @ items_bytes its" "length h = 12"
    by (simp_all add: table_bytes_def h_def tc)
  have hdr: "copy_from_user (table_bytes t) 0 12 = Some h" "copy_from_user (table_bytes t) 12 n = Some (items_bytes its)"
    and lt: "length (table_bytes t) = 12 + n"
    using tb by (simp_all add: copy_from_user_def n_def)
  have "located h 0 h" by (simp add: located_def)
  then have rd: "rd32 h 0 = Ret cate" "rd32 h 4 = Ret (tsize t)" "rd32 h 8 = Ret (number t)"
    unfolding h_def located_append by (simp_all add: rd32_located tc)
  define buf where "buf = items_bytes its @ drop n (fresh env (a * ncpu env))"
  have "a \<le> a * ncpu env" using env(2) by simp
  with na have "n \<le> a * ncpu env" by linarith
  then have w: "mem_write (fresh env (a * ncpu env)) 0 (items_bytes its) = Ret buf"
    and lb: "length buf = a * ncpu env"
    by (simp_all add: mem_write_def buf_def n_def)
  have chk: "check_entries fuel buf n 0 0 = Ret (Inr (length its))"
    using check_entries_located [of buf 0 its n fuel 0] ok len(2) located_refl [of "[]" "items_bytes its"]
    by (simp add: buf_def n_def)
  obtain buf' where cp: "percpu_copy a [1..<ncpu env] buf = Ret buf'" "length buf' = length buf"
    "\<forall>c < ncpu env. slice a c buf' = (if c < 1 then slice a c buf else slice a 0 buf)"
    using percpu_copy_slices [of 1 "ncpu env" buf a] env(2) lb by auto
  have sl: "slice a c buf' = slice a 0 buf" if "c < ncpu env" for c
    using cp(3) that by (auto split: if_splits)
  have s0: "length (slice a 0 buf) = a" using lb \<open>a \<le> a * ncpu env\<close> by (simp add: slice_def)
  have s1: "take n (slice a 0 buf) = items_bytes its"
    using na by (simp add: slice_def buf_def n_def min_absorb1)
  define info where "info = \<lparr>ti_category = cate, ti_size = tsize t, ti_number = number t, ti_buf = buf'\<rparr>"
  have "located buf' (a * c) (items_bytes its)" if "c < ncpu env" for c
    using sl [OF that] s0 s1 na by (intro located_slice) (simp_all add: n_def)
  moreover have "alloc_ac_table_info env (tsize t) =
      Some \<lparr>ti_category = 0, ti_size = tsize t, ti_number = 0, ti_buf = fresh env (a * ncpu env)\<rparr>"
    using alloc_percpu_fits [OF env(1)] by (simp add: alloc_ac_table_info_def sz a_def n_def)
  moreover have "word_of_nat (12 + n) = 12 + tsize t" by (simp flip: sz(1))
  ultimately show ?thesis
    using cate unfolding t_def [symmetric]
    by (intro exI [of _ info])
       (simp add: do_replace_table_def hdr lt rd sz w translate_table_def Let_def chk cp(1) [simplified] a_def [symmetric]
         info_def n_def [symmetric])
qed

section \<open>Properties\<close>

text \<open>
  C2: the access rules survive the way from the configuration tool to the packet path: the
  binary table \<open>ruletable\<close> generates from a list of rules is accepted by the kernel module,
  and on every CPU the module's evaluation of the stored bytes returns, without touching
  memory outside the table, the decision of the first rule that matches the flow, or none.
  The rules obey the limits of the configuration parser and list their protocol ids in
  ascending order, as the binary search requires.
\<close>

theorem rules_end_to_end:
  assumes "\<forall>it \<in> set its. item_ok it \<and> sorted (proto_ids it)" and "length its \<le> 65535"
    and "length its < fuel" and "\<forall>n. malloc_ok n" and "alloc_fits env 32 (length (items_bytes its))"
    and "unat cate < RULE_TYPE_MAX" and "length (priv_tables table) = RULE_TYPE_MAX" and "cpu < ncpu env"
  shows "\<exists>t table'. generate_ac_table malloc_ok True its cate = Ret (Some t)
    \<and> do_replace_table env fuel (table_bytes t) (length (table_bytes t)) table = Ret (table', None)
    \<and> magic table' = magic table + 1
    \<and> do_table fuel cpu req (priv_tables table' ! unat cate) = Ret (rules_decide req its)"
proof -
  have ok: "\<forall>it \<in> set its. item_ok it" using assms(1) by simp
  have gen: "generate_ac_table malloc_ok True its cate = Ret (Some (table_of cate its))"
    using ok assms(4) by (rule generate_ac_table_ok)
  obtain info where acc: "do_replace_table env fuel (table_bytes (table_of cate its))
      (length (table_bytes (table_of cate its))) table = Ret (do_replace_table_locked table info, None)"
    and info: "ti_category info = cate" "unat (ti_size info) = length (items_bytes its)"
    and loc: "\<forall>cpu < ncpu env. located (ti_buf info) (SMP_ALIGN (unat (ti_size info)) * cpu) (items_bytes its)"
    using do_replace_table_encoded [OF ok assms(2,3,5) _ assms(6), of table] assms(8) by auto
  have "do_table fuel cpu req info = Ret (rules_decide req its)"
    unfolding do_table_def
    using loc assms(1,3,8) info by (intro do_table_loop_located) simp_all
  moreover have "priv_tables (do_replace_table_locked table info) ! unat cate = info"
    "magic (do_replace_table_locked table info) = magic table + 1"
    using assms(6,7) info by (simp_all add: do_replace_table_locked_def)
  ultimately show ?thesis using gen acc by (intro exI) auto
qed

definition demo_items :: "ac_rule_item list" where
  "demo_items =
     [\<lparr>item_id = 7, src_zone_ids = [3], src_ipgrp_ids = [5, 9], dst_zone_ids = [255], dst_ipgrp_ids = [63],
       proto_ids = [10, 20, 30], action = [''reject'', ''AUDIT'']\<rparr>,
      \<lparr>item_id = 8, src_zone_ids = [255], src_ipgrp_ids = [63], dst_zone_ids = [255], dst_ipgrp_ids = [63],
       proto_ids = [20], action = [''ACCEPT'']\<rparr>]"

definition demo_nacs_env :: nacs_env where
  "demo_nacs_env = \<lparr>ncpu = 2, totalram_pages = 100, kalloc_ok = (\<lambda>n. True), junk = []\<rparr>"

definition demo_empty_info :: ac_table_info where
  "demo_empty_info = \<lparr>ti_category = 0, ti_size = 0, ti_number = 0, ti_buf = []\<rparr>"

definition demo_treq :: nac_table_req where
  "demo_treq = \<lparr>rq_src_zone = 3, rq_dst_zone = 1, rq_src_ipgrp_bits = 512, rq_dst_ipgrp_bits = 0, rq_proto_id = 20\<rparr>"

lemma demo_items_fit: "alloc_fits demo_nacs_env 32 (length (items_bytes demo_items))"
  by (simp add: alloc_fits_def demo_items_def demo_nacs_env_def SMP_ALIGN_def entry_size_def flow_size_def proto_size_def
      AC_ALIGN_def flow_elems_def)

theorem rules_end_to_end_witness:
  "\<exists>t table'. generate_ac_table (\<lambda>n. True) True demo_items 0 = Ret (Some t)
    \<and> do_replace_table demo_nacs_env 10 (table_bytes t) (length (table_bytes t))
        \<lparr>magic = 999, priv_tables = [demo_empty_info, demo_empty_info]\<rparr> = Ret (table', None)
    \<and> magic table' = 1000
    \<and> do_table 10 1 demo_treq (priv_tables table' ! 0) = Ret (Some (7, 6))"
proof -
  have "\<exists>t table'. generate_ac_table (\<lambda>n. True) True demo_items 0 = Ret (Some t)
    \<and> do_replace_table demo_nacs_env 10 (table_bytes t) (length (table_bytes t))
        \<lparr>magic = 999, priv_tables = [demo_empty_info, demo_empty_info]\<rparr> = Ret (table', None)
    \<and> magic table' = magic \<lparr>magic = 999, priv_tables = [demo_empty_info, demo_empty_info]\<rparr> + 1
    \<and> do_table 10 1 demo_treq (priv_tables table' ! unat (0 :: u32)) = Ret (rules_decide demo_treq demo_items)"
    by (rule rules_end_to_end)
       (use demo_items_fit in \<open>auto simp: demo_items_def item_ok_def ids_ok_def AC_ID_MAXNUM_PERMATCH_def demo_nacs_env_def RULE_TYPE_MAX_def\<close>)
  moreover have "rules_decide demo_treq demo_items = Some (7, 6)"
    by code_simp
  ultimately show ?thesis by simp
qed

text \<open>
  C21: the binary search agrees with membership on an ascending array: it always ends, never
  reads outside the array, and finds an index exactly when the value occurs.
\<close>

theorem binary_search_correct:
  fixes xs :: "u32 list"
  assumes "sorted xs"
  shows "\<exists>i. binary_search (\<lambda>i. if 0 \<le> i \<and> i < int (length xs) then Ret (xs ! nat i) else Fault Undefined)
      0 (int (length xs) - 1) v = Ret i
    \<and> (if v \<in> set xs then 0 \<le> i \<and> i < int (length xs) \<and> xs ! nat i = v else i < 0)"
proof -
  let ?get = "\<lambda>i. if 0 \<le> i \<and> i < int (length xs) then Ret (xs ! nat i) else Fault Undefined"
  have "?get (int i) = Ret (xs ! i)" if "i < length xs" for i using that by simp
  from binary_search_sorted [OF assms this, where left = 0 and right = "int (length xs) - 1" and v = v]
    binary_search_mem [OF assms this, of v]
  show ?thesis by (auto split: if_splits)
qed

theorem binary_search_correct_witness:
  "\<exists>i. binary_search (\<lambda>i. if 0 \<le> i \<and> i < int (length [3, 7, 20 :: u32]) then Ret ([3, 7, 20] ! nat i) else Fault Undefined)
      0 (int (length [3, 7, 20 :: u32]) - 1) 7 = Ret i \<and> 0 \<le> i \<and> [3, 7, 20 :: u32] ! nat i = 7"
proof -
  have "sorted [3, 7, 20 :: u32]" by simp
  from binary_search_correct [OF this, of 7] show ?thesis by auto
qed

text \<open>
  A table with an entry whose \<open>next_offset\<close> is 0 hangs the kernel: \<open>do_replace_table\<close>
  walks the entries without requiring progress, so the loop never ends, whatever the bound
  on its steps.
\<close>

theorem zero_offset_hangs:
  assumes "unat cate < RULE_TYPE_MAX" and "alloc_fits env 32 8" and "1 \<le> ncpu env"
  shows "do_replace_table env fuel (le32 cate @ le32 8 @ le32 num @ replicate 8 0) 20 table = Fault NoFuel"
proof -
  let ?u = "le32 cate @ le32 8 @ le32 num @ replicate 8 0"
  let ?h = "le32 cate @ le32 8 @ le32 num"
  have "located ?h 0 ?h" by (simp add: located_def)
  then have rd: "rd32 ?h 0 = Ret cate" "rd32 ?h 4 = Ret 8" "rd32 ?h 8 = Ret num"
    unfolding located_append by (simp_all add: rd32_located)
  have cp: "copy_from_user ?u 0 12 = Some ?h" "copy_from_user ?u 12 8 = Some (replicate 8 0)"
    by (simp_all add: copy_from_user_def)
  define m where "m = SMP_ALIGN 8 * ncpu env"
  have m: "8 \<le> m" using assms(3) by (simp add: m_def SMP_ALIGN_def)
  define buf where "buf = replicate 8 0 @ drop 8 (fresh env m)"
  have w: "mem_write (fresh env m) 0 (replicate 8 0) = Ret buf"
    using m by (simp add: mem_write_def buf_def)
  have "located buf 0 (replicate 6 0 @ le16 0)"
    using located_refl [of "[]" "replicate 8 0" "drop 8 (fresh env m)"]
    by (simp add: buf_def le16_def numeral_eq_Suc)
  then have z: "rd16 buf 6 = Ret 0" using rd16_located [of buf 6 0] by simp
  have loop: "check_entries f buf 8 0 i = Fault NoFuel" for f i
    by (induction f arbitrary: i) (simp_all add: check_entry_size_def z)
  have al: "alloc_ac_table_info env 8 = Some \<lparr>ti_category = 0, ti_size = 8, ti_number = 0, ti_buf = fresh env m\<rparr>"
    using alloc_percpu_fits [OF assms(2)] by (simp add: alloc_ac_table_info_def m_def)
  show ?thesis
    unfolding do_replace_table_def cp option.case
    using assms(1) by (simp add: rd al cp w translate_table_def Let_def loop)
qed

theorem zero_offset_hangs_witness:
  "\<forall>fuel. do_replace_table demo_nacs_env fuel (le32 1 @ le32 8 @ le32 1 @ replicate 8 0) 20
     \<lparr>magic = 999, priv_tables = [demo_empty_info, demo_empty_info]\<rparr> = Fault NoFuel"
  by (intro allI zero_offset_hangs) (simp_all add: RULE_TYPE_MAX_def demo_nacs_env_def alloc_fits_def SMP_ALIGN_def)

definition evil_entry :: "u8 list" where
  "evil_entry = le16 1 @ le16 8 @ le16 8 @ le16 32 @ le16 255 @ replicate 22 0"

text \<open>
  The offsets and counts inside an entry are not checked: a message whose entry announces
  255 source zones in 32 bytes is accepted, and the evaluation then reads past the end of the table.
\<close>

theorem inner_counts_unchecked:
  "\<exists>table'. do_replace_table \<lparr>ncpu = 1, totalram_pages = 100, kalloc_ok = (\<lambda>n. True), junk = []\<rparr> 2
       (le32 0 @ le32 32 @ le32 1 @ evil_entry) 44 \<lparr>magic = 999, priv_tables = [demo_empty_info, demo_empty_info]\<rparr>
     = Ret (table', None)
   \<and> do_table 2 0 demo_treq (priv_tables table' ! 0) = Fault Undefined"
proof -
  let ?t = "\<lparr>ti_category = 0, ti_size = 32, ti_number = 1, ti_buf = evil_entry\<rparr>"
  have "do_replace_table \<lparr>ncpu = 1, totalram_pages = 100, kalloc_ok = (\<lambda>n. True), junk = []\<rparr> 2
       (le32 0 @ le32 32 @ le32 1 @ evil_entry) 44 \<lparr>magic = 999, priv_tables = [demo_empty_info, demo_empty_info]\<rparr>
     = Ret (\<lparr>magic = 1000, priv_tables = [?t, demo_empty_info]\<rparr>, None)"
    by code_simp
  moreover have "do_table 2 0 demo_treq ?t = Fault Undefined" by code_simp
  ultimately show ?thesis by simp
qed

end
