(* ===== verification/Hook_Guard.thy ===== *)
theory Hook_Guard
  imports Prelude
begin

text \<open>
  The update protocol of the \<open>nos\<close> module. A device that changes its configuration sets
  \<open>nos_hook_disable\<close>, calls \<open>synchronize_rcu\<close>, writes, and clears the flag; the netfilter
  hooks test the flag first and accept the packet when it is set. The flag is one global
  for all devices and no lock orders the writers. \<open>guarded\<close> is the protocol as one
  sequential step; the step relation below interleaves any number of writers and hook
  invocations and shows what the protocol gives.
\<close>

section \<open>The sequential view\<close>

text \<open>\<open>nos_hook_disable\<close>, the global every device state of the module shares.\<close>

record nos_global =
  nos_hook_disable :: u32

definition guarded :: "('a nos_global_scheme \<Rightarrow> 'a nos_global_scheme) \<Rightarrow> 'a nos_global_scheme \<Rightarrow> 'a nos_global_scheme" where
  "guarded f s = (f (s\<lparr>nos_hook_disable := 1\<rparr>))\<lparr>nos_hook_disable := 0\<rparr>"

lemma guarded_enabled [simp]: "nos_hook_disable (guarded f s) = 0"
  by (simp add: guarded_def)

section \<open>Writers and hook invocations interleaved\<close>

text \<open>
  A writer is idle, has set the flag, waits in \<open>synchronize_rcu\<close> for the hook invocations
  that were running when it called it, or is changing the configuration. A hook invocation
  (an RCU read-side section) is outside, has entered, or has read the flag; one that read 0
  goes on to read the configuration.
\<close>

datatype wphase = WIdle | WDisabled | WWait "nat set" | WMutate

datatype rphase = ROut | REntered | RChecked bool

record guard_sys =
  hook_flag :: bool
  writer :: "nat \<Rightarrow> wphase"
  hook_cpu :: "nat \<Rightarrow> rphase"

definition guard_init :: guard_sys where
  "guard_init = \<lparr>hook_flag = False, writer = (\<lambda>_. WIdle), hook_cpu = (\<lambda>_. ROut)\<rparr>"

fun gp_leave :: "nat \<Rightarrow> wphase \<Rightarrow> wphase" where
  "gp_leave r (WWait R) = WWait (R - {r})"
| "gp_leave r p = p"

inductive guard_step :: "guard_sys \<Rightarrow> guard_sys \<Rightarrow> bool" where
  hook_enter: "hook_cpu s r = ROut \<Longrightarrow>
     guard_step s (s\<lparr>hook_cpu := (hook_cpu s)(r := REntered)\<rparr>)"
| hook_check: "hook_cpu s r = REntered \<Longrightarrow>
     guard_step s (s\<lparr>hook_cpu := (hook_cpu s)(r := RChecked (hook_flag s))\<rparr>)"
| hook_leave: "hook_cpu s r = RChecked b \<Longrightarrow>
     guard_step s (s\<lparr>hook_cpu := (hook_cpu s)(r := ROut), writer := (\<lambda>w. gp_leave r (writer s w))\<rparr>)"
| set_flag: "writer s w = WIdle \<Longrightarrow>
     guard_step s (s\<lparr>hook_flag := True, writer := (writer s)(w := WDisabled)\<rparr>)"
| sync_call: "writer s w = WDisabled \<Longrightarrow>
     guard_step s (s\<lparr>writer := (writer s)(w := WWait {r. hook_cpu s r \<noteq> ROut})\<rparr>)"
| sync_done: "writer s w = WWait {} \<Longrightarrow>
     guard_step s (s\<lparr>writer := (writer s)(w := WMutate)\<rparr>)"
| clear_flag: "writer s w = WMutate \<Longrightarrow>
     guard_step s (s\<lparr>hook_flag := False, writer := (writer s)(w := WIdle)\<rparr>)"

inductive guard_reach :: "(guard_sys \<Rightarrow> bool) \<Rightarrow> guard_sys \<Rightarrow> bool" for allowed where
  init: "guard_reach allowed guard_init"
| step: "guard_reach allowed s \<Longrightarrow> guard_step s t \<Longrightarrow> allowed t \<Longrightarrow> guard_reach allowed t"

text \<open>Runs in which the writers exclude each other (each device behind one lock).\<close>

definition one_writer :: "guard_sys \<Rightarrow> bool" where
  "one_writer s \<longleftrightarrow> (\<forall>w w'. writer s w \<noteq> WIdle \<longrightarrow> writer s w' \<noteq> WIdle \<longrightarrow> w = w')"

text \<open>A hook reads the configuration while a writer changes it.\<close>

definition torn_read :: "guard_sys \<Rightarrow> bool" where
  "torn_read s \<longleftrightarrow> (\<exists>w r. writer s w = WMutate \<and> hook_cpu s r = RChecked False)"

definition guard_inv :: "guard_sys \<Rightarrow> bool" where
  "guard_inv s \<longleftrightarrow>
     (\<forall>w. writer s w \<noteq> WIdle \<longrightarrow> hook_flag s)
     \<and> (\<forall>w R r. writer s w = WWait R \<longrightarrow> hook_cpu s r = RChecked False \<longrightarrow> r \<in> R)
     \<and> \<not> torn_read s"

lemma gp_leave_idle [simp]: "gp_leave r p = WIdle \<longleftrightarrow> p = WIdle"
  by (cases p) auto

lemma gp_leave_mutate [simp]: "gp_leave r p = WMutate \<longleftrightarrow> p = WMutate"
  by (cases p) auto

lemma gp_leave_wait: "gp_leave r p = WWait R \<longleftrightarrow> (\<exists>R'. p = WWait R' \<and> R = R' - {r})"
  by (cases p) auto

lemma guard_inv_init: "guard_inv guard_init"
  by (simp add: guard_inv_def guard_init_def torn_read_def)

lemma guard_step_inv:
  assumes "guard_step s t" "one_writer s" "guard_inv s"
  shows "guard_inv t"
  using assms
proof (cases rule: guard_step.cases)
  case (hook_check r)
  with assms(3) show ?thesis
    by (auto simp: guard_inv_def torn_read_def split: if_splits)
next
  case (clear_flag w)
  then have "\<And>w'. w' \<noteq> w \<Longrightarrow> writer s w' = WIdle"
    using assms(2) by (auto simp: one_writer_def)
  with clear_flag assms(3) show ?thesis
    by (fastforce simp: guard_inv_def torn_read_def)
qed (fastforce simp: guard_inv_def torn_read_def gp_leave_wait)+

lemma guard_reach_inv: "guard_reach one_writer s \<Longrightarrow> guard_inv s \<and> one_writer s"
proof (induction rule: guard_reach.induct)
  case init
  show ?case using guard_inv_init by (auto simp: one_writer_def guard_init_def)
next
  case (step s t)
  then show ?case by (blast intro: guard_step_inv)
qed

section \<open>Properties\<close>

text \<open>
  C17: when the writers exclude each other, no hook invocation ever reads a configuration
  that is being changed, whatever the interleaving with the hooks.
\<close>

theorem hook_guard_one_writer:
  assumes "guard_reach one_writer s"
  shows "\<not> torn_read s"
  using guard_reach_inv [OF assms] by (simp add: guard_inv_def)

definition guard_mutating :: guard_sys where
  "guard_mutating = guard_init\<lparr>hook_flag := True, writer := (\<lambda>_. WIdle)(0 := WMutate)\<rparr>"

lemma guard_reach_mutating: "guard_reach one_writer guard_mutating"
proof -
  have one: "one_writer (guard_init\<lparr>hook_flag := b, writer := (\<lambda>_. WIdle)(0 := p)\<rparr>)" for b p
    by (simp add: one_writer_def)
  let ?s1 = "guard_init\<lparr>hook_flag := True, writer := (\<lambda>_. WIdle)(0 := WDisabled)\<rparr>"
  let ?s2 = "guard_init\<lparr>hook_flag := True, writer := (\<lambda>_. WIdle)(0 := WWait {})\<rparr>"
  have "guard_reach one_writer ?s1"
    using guard_step.set_flag [of guard_init 0] one
    by (intro guard_reach.step [OF guard_reach.init]) (auto simp: guard_init_def)
  moreover have "guard_step ?s1 ?s2"
    using guard_step.sync_call [of ?s1 0] by (simp add: guard_init_def)
  ultimately have "guard_reach one_writer ?s2" using one by (rule guard_reach.step)
  moreover have "guard_step ?s2 guard_mutating"
    using guard_step.sync_done [of ?s2 0] by (simp add: guard_mutating_def)
  ultimately show ?thesis
    by (rule guard_reach.step) (simp add: guard_mutating_def one)
qed

theorem hook_guard_one_writer_witness:
  "writer guard_mutating 0 = WMutate \<and> \<not> torn_read guard_mutating"
  using hook_guard_one_writer [OF guard_reach_mutating] by (simp add: guard_mutating_def)

text \<open>
  Without that exclusion the protocol does not protect the configuration: with two
  writers (say the zone and the ipgrp device) the first one to finish clears the flag while
  the second still writes, and a hook then reads a half-written configuration.
\<close>

theorem hook_guard_two_writers: "\<exists>s. guard_reach (\<lambda>_. True) s \<and> torn_read s"
proof -
  let ?st = "\<lambda>b p q r. \<lparr>hook_flag = b, writer = (\<lambda>_. WIdle)(0 := p, 1 := q), hook_cpu = (\<lambda>_. ROut)(0 := r)\<rparr>"
  let ?R = "guard_reach (\<lambda>_. True)"
  note nxt = guard_reach.step [where allowed = "\<lambda>_. True", OF _ _ TrueI]
  have "guard_init = ?st False WIdle WIdle ROut" by (simp add: guard_init_def fun_eq_iff)
  then have "?R (?st False WIdle WIdle ROut)" by (metis guard_reach.init)
  then have "?R (?st True WDisabled WIdle ROut)"
    by (rule nxt) (use guard_step.set_flag [of "?st False WIdle WIdle ROut" 0] in \<open>simp add: fun_upd_twist\<close>)
  then have "?R (?st True WDisabled WDisabled ROut)"
    by (rule nxt) (use guard_step.set_flag [of "?st True WDisabled WIdle ROut" 1] in simp)
  then have "?R (?st True (WWait {}) WDisabled ROut)"
    by (rule nxt) (use guard_step.sync_call [of "?st True WDisabled WDisabled ROut" 0] in \<open>simp add: fun_upd_twist\<close>)
  then have "?R (?st True (WWait {}) (WWait {}) ROut)"
    by (rule nxt) (use guard_step.sync_call [of "?st True (WWait {}) WDisabled ROut" 1] in simp)
  then have "?R (?st True WMutate (WWait {}) ROut)"
    by (rule nxt) (use guard_step.sync_done [of "?st True (WWait {}) (WWait {}) ROut" 0] in \<open>simp add: fun_upd_twist\<close>)
  then have "?R (?st True WMutate WMutate ROut)"
    by (rule nxt) (use guard_step.sync_done [of "?st True WMutate (WWait {}) ROut" 1] in simp)
  then have "?R (?st False WIdle WMutate ROut)"
    by (rule nxt) (use guard_step.clear_flag [of "?st True WMutate WMutate ROut" 0] in \<open>simp add: fun_upd_twist\<close>)
  then have "?R (?st False WIdle WMutate REntered)"
    by (rule nxt) (use guard_step.hook_enter [of "?st False WIdle WMutate ROut" 0] in simp)
  then have "?R (?st False WIdle WMutate (RChecked False))"
    by (rule nxt) (use guard_step.hook_check [of "?st False WIdle WMutate REntered" 0] in simp)
  moreover have "torn_read (?st False WIdle WMutate (RChecked False))"
    unfolding torn_read_def by (rule exI [of _ 1], rule exI [of _ 0]) simp
  ultimately show ?thesis by blast
qed

end
