(* ===== verification/Ipset_Refs.thy ===== *)
theory Ipset_Refs
  imports Hook_Guard
begin

text \<open>
  What the modules use of the kernel's ipset: \<open>ip_set_get_byname\<close> (takes a reference),
  \<open>ip_set_put_byindex\<close> (drops one), \<open>ip_set_name_byindex\<close> and \<open>ip_set_test\<close>. The kernel
  side is a parameter; the references taken and dropped are a log in the state, so that
  leaks and double drops can be stated. The three wrappers around \<open>ip_set_test\<close> of
  \<open>drivers/nos/src/nos.h\<close> are defined here.
\<close>

section \<open>The reference log\<close>

datatype ipset_ref = Get u32 | Put u32

type_synonym set_ptr = nat

text \<open>The sets of \<open>init_net\<close>: id and address by name, name by id.\<close>

record ipsets =
  ip_set_get_byname :: "string \<Rightarrow> (u32 \<times> set_ptr) option"
  ip_set_name_byindex :: "u32 \<Rightarrow> string"

fun held :: "ipset_ref list \<Rightarrow> u32 \<Rightarrow> int" where
  "held [] i = 0"
| "held (Get j # es) i = (if i = j then 1 else 0) + held es i"
| "held (Put j # es) i = (if i = j then -1 else 0) + held es i"

lemma held_append [simp]: "held (es @ fs) i = held es i + held fs i"
  by (induction es i rule: held.induct) auto

record ipset_user = nos_global +
  ipset_log :: "ipset_ref list"

definition log_ref :: "ipset_ref \<Rightarrow> 'a ipset_user_scheme \<Rightarrow> 'a ipset_user_scheme" where
  "log_ref e s = s\<lparr>ipset_log := ipset_log s @ [e]\<rparr>"

lemma ipset_log_log_ref [simp]: "ipset_log (log_ref e s) = ipset_log s @ [e]"
  by (simp add: log_ref_def)

text \<open>Dropping the reference behind a pointer field that may be NULL.\<close>

definition put_if :: "set_ptr option \<Rightarrow> u32 \<Rightarrow> 'a ipset_user_scheme \<Rightarrow> 'a ipset_user_scheme" where
  "put_if p i s = (if p \<noteq> None then log_ref (Put i) s else s)"

definition ref1 :: "set_ptr option \<Rightarrow> u32 \<Rightarrow> u32 \<Rightarrow> int" where
  "ref1 p j i = (if p \<noteq> None \<and> j = i then 1 else 0)"

lemma held_put_if [simp]: "held (ipset_log (put_if p j s)) i = held (ipset_log s) i - ref1 p j i"
  by (auto simp: put_if_def ref1_def)

lemma nos_hook_disable_put_if [simp]: "nos_hook_disable (put_if p j s) = nos_hook_disable s"
  by (simp add: put_if_def log_ref_def)

section \<open>The test wrappers of nos.h\<close>

record net_device =
  ifindex :: nat
  netns :: nat

record xt_par =
  par_in :: "net_device option"
  par_out :: "net_device option"
  par_net :: nat

record adt_opt =
  opt_family :: nat
  opt_dim :: nat
  opt_flags :: nat
  opt_cmdflags :: nat
  opt_timeout :: u32

definition NFPROTO_UNSPEC :: nat where "NFPROTO_UNSPEC = 0"

definition NFPROTO_IPV4 :: nat where "NFPROTO_IPV4 = 2"

definition IPSET_DIM_ONE :: nat where "IPSET_DIM_ONE = 1"

definition IPSET_DIM_ONE_SRC :: nat where "IPSET_DIM_ONE_SRC = 2"

definition init_net :: nat where "init_net = 0"

type_synonym 'p ip_set_test = "u32 \<Rightarrow> 'p \<Rightarrow> xt_par \<Rightarrow> adt_opt \<Rightarrow> int"

definition test_par :: "net_device option \<Rightarrow> net_device option \<Rightarrow> xt_par" where
  "test_par din dout =
     \<lparr>par_in = din, par_out = dout,
      par_net = (case din of Some d \<Rightarrow> netns d
                 | None \<Rightarrow> (case dout of Some d \<Rightarrow> netns d | None \<Rightarrow> init_net))\<rparr>"

definition ip_set_test_src_ip ::
  "'p ip_set_test \<Rightarrow> net_device option \<Rightarrow> net_device option \<Rightarrow> 'p \<Rightarrow> u32 \<Rightarrow> int" where
  "ip_set_test_src_ip ip_set_test din dout skb i =
     ip_set_test i skb (test_par din dout)
       \<lparr>opt_family = NFPROTO_IPV4, opt_dim = IPSET_DIM_ONE, opt_flags = IPSET_DIM_ONE_SRC,
        opt_cmdflags = 0, opt_timeout = - 1\<rparr>"

definition ip_set_test_dst_ip ::
  "'p ip_set_test \<Rightarrow> net_device option \<Rightarrow> net_device option \<Rightarrow> 'p \<Rightarrow> u32 \<Rightarrow> int" where
  "ip_set_test_dst_ip ip_set_test din dout skb i =
     ip_set_test i skb (test_par din dout)
       \<lparr>opt_family = NFPROTO_IPV4, opt_dim = IPSET_DIM_ONE, opt_flags = 0,
        opt_cmdflags = 0, opt_timeout = - 1\<rparr>"

definition ip_set_test_src_mac ::
  "'p ip_set_test \<Rightarrow> net_device option \<Rightarrow> net_device option \<Rightarrow> 'p \<Rightarrow> u32 \<Rightarrow> int" where
  "ip_set_test_src_mac ip_set_test din dout skb i =
     ip_set_test i skb (test_par din dout)
       \<lparr>opt_family = NFPROTO_UNSPEC, opt_dim = IPSET_DIM_ONE, opt_flags = IPSET_DIM_ONE_SRC,
        opt_cmdflags = 0, opt_timeout = - 1\<rparr>"

section \<open>The shift of the group masks\<close>

text \<open>
  The expression \<open>1 << id\<close> of \<open>nos_ipgrp.c\<close> and \<open>nos_auth.c\<close> has type \<open>int\<close>; it is then
  converted to 64 bits with sign extension. A count of 32 or more is undefined in C; the
  shift instructions of the targets (MIPS \<open>sllv\<close>, x86 \<open>shl\<close>) use it modulo 32.
\<close>

definition int_shl1 :: "u32 \<Rightarrow> u64" where
  "int_shl1 i = scast (push_bit (unat i mod 32) 1 :: u32)"


lemma bit_int_shl1:
  "bit (int_shl1 i) k \<longleftrightarrow> k < 64 \<and> (if k < 31 then k = unat i mod 32 else unat i mod 32 = 31)"
proof -
  have "unat i mod 32 < 32" by simp
  then show ?thesis
    by (auto simp: int_shl1_def bit_signed_iff bit_push_bit_iff min_def bit_exp_iff)
qed

lemma bit_int_shl1_small: "unat i < 31 \<Longrightarrow> bit (int_shl1 i) k \<longleftrightarrow> k = unat i"
  by (auto simp: bit_int_shl1)

end
