(* ===== verification/Nacs_Sets.thy ===== *)
theory Nacs_Sets
  imports Nacs_Table Ipset_Refs
begin

text \<open>
  \<open>drivers/nacs/src/nacs_table.c\<close>, the black and white lists: four ipsets per category
  (two for audit), each with the action to take, received from user space as an
  \<open>ac_repl_set_info\<close> message. Installing one takes a reference to every named ipset and
  drops those of the lists it replaces. The references are logged, as in theory
  \<open>Ipset_Refs\<close>. The read-back handlers for tables and sets are here too.
\<close>

section \<open>State\<close>

text \<open>
  \<open>si_buf\<close> is the array \<open>entries\<close>: per CPU, one 8-byte \<open>ac_hybrid_entry\<close> (size, ipset id,
  flags) per set. \<open>si_header\<close> are the 144 bytes of the message header (four words and the
  name union), which the kernel copies as they are.
\<close>

record ac_set_info =
  si_category :: u32
  si_size :: u32
  si_number :: u32
  si_updated :: u32
  si_header :: "u8 list"
  si_buf :: "u8 list"

record nac_state = ac_table +
  priv_sets :: "ac_set_info list"
  set_log :: "ipset_ref list"

definition SET_HEADER :: nat where
  "SET_HEADER = 144"

definition AC_IPSET_TYPE_MAX :: nat where
  "AC_IPSET_TYPE_MAX = 4"

definition set_invalid_id :: u16 where
  "set_invalid_id = 65535"

definition alloc_ac_set_info :: "nacs_env \<Rightarrow> u32 \<Rightarrow> ac_set_info option" where
  "alloc_ac_set_info env sz =
     map_option (\<lambda>buf. \<lparr>si_category = 0, si_size = sz, si_number = 0, si_updated = 0,
                         si_header = replicate SET_HEADER 0, si_buf = buf\<rparr>)
       (alloc_percpu env 160 (unat sz))"

text \<open>The loop of \<open>free_ac_set_info\<close>: the references dropped, in order.\<close>

fun put_entries :: "u8 list \<Rightarrow> nat list \<Rightarrow> ipset_ref list run" where
  "put_entries buf [] = Ret []"
| "put_entries buf (i # is) =
     run_bind (rd16 buf (8 * i + 2)) (\<lambda>sid.
     run_bind (put_entries buf is) (\<lambda>es.
       Ret (if sid \<noteq> set_invalid_id then Put (ucast sid) # es else es)))"

definition free_ac_set_info :: "ac_set_info \<Rightarrow> ipset_ref list run" where
  "free_ac_set_info info = put_entries (si_buf info) [0..<unat (si_number info)]"

definition set_name :: "u8 list \<Rightarrow> nat \<Rightarrow> string" where
  "set_name header i = cstr (map (\<lambda>b. char_of (unat b)) (take 32 (drop (16 + 32 * i) header)))"

text \<open>
  The loop of \<open>translate_set\<close>: every id is reset, those with their \<open>updated\<close> bit are looked
  up. The shift count of \<open>1 << i\<close> counts modulo 32 on the targets; the name array has four
  elements.
\<close>

fun get_entries :: "ipsets \<Rightarrow> u8 list \<Rightarrow> u32 \<Rightarrow> nat list \<Rightarrow> u8 list \<Rightarrow> (u8 list \<times> ipset_ref list) run" where
  "get_entries ips header updated [] buf = Ret (buf, [])"
| "get_entries ips header updated (i # is) buf =
     run_bind (mem_write buf (8 * i + 2) (le16 set_invalid_id)) (\<lambda>buf.
       if bit updated (i mod 32) then
         (if i \<ge> AC_IPSET_TYPE_MAX then Fault Undefined
          else case ip_set_get_byname ips (set_name header i) of
            None \<Rightarrow> get_entries ips header updated is buf
          | Some (sid, p) \<Rightarrow>
              run_bind (mem_write buf (8 * i + 2) (le16 (ucast sid))) (\<lambda>buf.
              run_bind (get_entries ips header updated is buf) (\<lambda>(buf, es). Ret (buf, Get sid # es))))
       else get_entries ips header updated is buf)"

definition translate_set ::
  "nacs_env \<Rightarrow> ipsets \<Rightarrow> ac_set_info \<Rightarrow> ((ac_set_info \<times> ipset_ref list) \<times> errno option) run" where
  "translate_set env ips info =
     (if si_number info * word_of_nat (AC_ALIGN 8) \<noteq> si_size info then Ret ((info, []), Some EINVAL)
      else run_bind (get_entries ips (si_header info) (si_updated info) [0..<unat (si_number info)] (si_buf info))
        (\<lambda>(buf, es).
           run_bind (percpu_copy (SMP_ALIGN (unat (si_size info))) [1..<ncpu env] buf) (\<lambda>buf.
             Ret ((info\<lparr>si_buf := buf\<rparr>, es), None))))"

text \<open>\<open>__do_replace_set\<close>; the category indexes an array of two.\<close>

definition do_replace_set_locked :: "nac_state \<Rightarrow> ac_set_info \<Rightarrow> nac_state run" where
  "do_replace_set_locked st info =
     (let c = unat (si_category info)
      in if c \<ge> RULE_TYPE_MAX then Fault Undefined
         else run_bind (free_ac_set_info (priv_sets st ! c)) (\<lambda>puts.
           Ret (st\<lparr>priv_sets := (priv_sets st)[c := info], magic := magic st + 1,
                   set_log := set_log st @ puts\<rparr>)))"

definition log_sets :: "ipset_ref list \<Rightarrow> nac_state \<Rightarrow> nac_state" where
  "log_sets es st = st\<lparr>set_log := set_log st @ es\<rparr>"

definition do_replace_set ::
  "nacs_env \<Rightarrow> ipsets \<Rightarrow> u8 list \<Rightarrow> nat \<Rightarrow> nac_state \<Rightarrow> (nac_state \<times> errno option) run" where
  "do_replace_set env ips user len st =
     (case copy_from_user user 0 SET_HEADER of
        None \<Rightarrow> Ret (st, Some EFAULT)
      | Some tmp \<Rightarrow>
     run_bind (rd32 tmp 0) (\<lambda>cate.
     run_bind (rd32 tmp 4) (\<lambda>sz.
     run_bind (rd32 tmp 8) (\<lambda>num.
     run_bind (rd32 tmp 12) (\<lambda>upd.
       if word_of_nat len \<noteq> word_of_nat SET_HEADER + sz then Ret (st, Some ENOPROTOOPT)
       else if unat cate > RULE_TYPE_MAX then Ret (st, Some EINVAL)
       else case alloc_ac_set_info env sz of
         None \<Rightarrow> Ret (st, Some ENOMEM)
       | Some info \<Rightarrow>
           (let info = info\<lparr>si_category := cate, si_size := sz, si_number := num, si_updated := upd, si_header := tmp\<rparr>
            in case copy_from_user user SET_HEADER (unat sz) of
                 None \<Rightarrow> Ret (st, Some EFAULT)
               | Some body \<Rightarrow>
                   run_bind (mem_write (si_buf info) 0 body) (\<lambda>buf.
                   run_bind (translate_set env ips (info\<lparr>si_buf := buf\<rparr>)) (\<lambda>((info, es), err).
                     case err of
                       Some e \<Rightarrow>
                         run_bind (free_ac_set_info info) (\<lambda>puts. Ret (log_sets (es @ puts) st, Some e))
                     | None \<Rightarrow>
                         run_bind (do_replace_set_locked (log_sets es st) info) (\<lambda>st. Ret (st, None))))))))))"

section \<open>Reading back\<close>

text \<open>
  The read-back handlers check the category with \<open>>\<close> instead of \<open>>=\<close>: 2 passes and indexes
  behind the array of two.
\<close>

definition do_get_table_info :: "'a ac_table_scheme \<Rightarrow> u8 list \<Rightarrow> nat \<Rightarrow> (u8 list \<times> errno option) run" where
  "do_get_table_info st user len =
     (case copy_from_user user 0 12 of
        None \<Rightarrow> Ret (user, Some EFAULT)
      | Some tmp \<Rightarrow>
          run_bind (rd32 tmp 0) (\<lambda>cate.
            if word_of_nat len \<noteq> (12 :: u32) then Ret (user, Some ENOPROTOOPT)
            else if unat cate > RULE_TYPE_MAX then Ret (user, Some EINVAL)
            else if unat cate = RULE_TYPE_MAX then Fault Undefined
            else (let info = priv_tables st ! unat cate
                  in Ret (le32 cate @ le32 (ti_number info) @ le32 (ti_size info) @ drop 12 user, None))))"

definition do_get_set_info :: "nac_state \<Rightarrow> u8 list \<Rightarrow> nat \<Rightarrow> (u8 list \<times> errno option) run" where
  "do_get_set_info st user len =
     (case copy_from_user user 0 16 of
        None \<Rightarrow> Ret (user, Some EFAULT)
      | Some tmp \<Rightarrow>
          run_bind (rd32 tmp 0) (\<lambda>cate.
            if word_of_nat len \<noteq> (16 :: u32) then Ret (user, Some ENOPROTOOPT)
            else if unat cate > RULE_TYPE_MAX then Ret (user, Some EINVAL)
            else if unat cate = RULE_TYPE_MAX then Fault Undefined
            else (let info = priv_sets st ! unat cate
                  in Ret (le32 cate @ le32 (si_number info) @ le32 (si_updated info) @ le32 (si_size info) @ drop 16 user,
                          None))))"

definition do_get_entries :: "'a ac_table_scheme \<Rightarrow> u8 list \<Rightarrow> nat \<Rightarrow> (u8 list \<times> errno option) run" where
  "do_get_entries st user len =
     (case copy_from_user user 0 12 of
        None \<Rightarrow> Ret (user, Some EFAULT)
      | Some tmp \<Rightarrow>
     run_bind (rd32 tmp 0) (\<lambda>cate.
     run_bind (rd32 tmp 4) (\<lambda>sz.
     run_bind (rd32 tmp 8) (\<lambda>num.
       if word_of_nat len \<noteq> 12 + sz then Ret (user, Some ENOPROTOOPT)
       else if unat cate > RULE_TYPE_MAX then Ret (user, Some EINVAL)
       else if unat cate = RULE_TYPE_MAX then Fault Undefined
       else
        (let info = priv_tables st ! unat cate
         in if cate \<noteq> ti_category info \<or> sz \<noteq> ti_size info \<or> num \<noteq> ti_number info then Ret (user, Some EINVAL)
            else if 12 + unat sz > length user then Ret (user, Some EFAULT)
            else if unat sz > length (ti_buf info) then Fault Undefined
            else Ret (take 12 user @ take (unat sz) (ti_buf info) @ drop (12 + unat sz) user, None))))))"

definition do_get_sets :: "nac_state \<Rightarrow> u8 list \<Rightarrow> nat \<Rightarrow> (u8 list \<times> errno option) run" where
  "do_get_sets st user len =
     (case copy_from_user user 0 SET_HEADER of
        None \<Rightarrow> Ret (user, Some EFAULT)
      | Some tmp \<Rightarrow>
     run_bind (rd32 tmp 0) (\<lambda>cate.
     run_bind (rd32 tmp 4) (\<lambda>sz.
     run_bind (rd32 tmp 8) (\<lambda>num.
     run_bind (rd32 tmp 12) (\<lambda>upd.
       if word_of_nat len \<noteq> word_of_nat SET_HEADER + sz then Ret (user, Some ENOPROTOOPT)
       else if unat cate > RULE_TYPE_MAX then Ret (user, Some EINVAL)
       else if unat cate = RULE_TYPE_MAX then Fault Undefined
       else
        (let info = priv_sets st ! unat cate
         in if cate \<noteq> si_category info \<or> sz \<noteq> si_size info \<or> num \<noteq> si_number info \<or> upd \<noteq> si_updated info
            then Ret (user, Some EINVAL)
            else if SET_HEADER + unat sz > length user then Ret (user, Some EFAULT)
            else if unat sz > length (si_buf info) then Fault Undefined
            else Ret (si_header info @ take (unat sz) (si_buf info) @ drop (SET_HEADER + unat sz) user, None)))))))"

section \<open>The references held by a set\<close>

text \<open>Byte offsets stay as sums.\<close>

declare add_2_eq_Suc [simp del] add_2_eq_Suc' [simp del]

definition entry_sid :: "u8 list \<Rightarrow> nat \<Rightarrow> u16" where
  "entry_sid buf i = ucast (buf ! (8 * i + 2)) OR push_bit 8 (ucast (buf ! (8 * i + 2 + 1)))"

definition entry_flags :: "u8 list \<Rightarrow> nat \<Rightarrow> u32" where
  "entry_flags buf i = (case rd32 buf (8 * i + 4) of Ret fl \<Rightarrow> fl | Fault e \<Rightarrow> 0)"

definition sid_refs :: "u16 \<Rightarrow> u32 \<Rightarrow> int" where
  "sid_refs sid i = (if sid \<noteq> set_invalid_id \<and> ucast sid = i then 1 else 0)"

definition set_refs :: "ac_set_info \<Rightarrow> u32 \<Rightarrow> int" where
  "set_refs info i = (\<Sum>k \<leftarrow> [0..<unat (si_number info)]. sid_refs (entry_sid (si_buf info) k) i)"

text \<open>The id that the k-th list is to have after a message.\<close>

definition set_wanted :: "ipsets \<Rightarrow> u8 list \<Rightarrow> u32 \<Rightarrow> nat \<Rightarrow> u16" where
  "set_wanted ips header updated k =
     (if bit updated k then
        (case ip_set_get_byname ips (set_name header k) of Some (sid, p) \<Rightarrow> ucast sid | None \<Rightarrow> set_invalid_id)
      else set_invalid_id)"

definition sets_inv :: "nac_state \<Rightarrow> bool" where
  "sets_inv st \<longleftrightarrow>
     length (priv_sets st) = RULE_TYPE_MAX
   \<and> (\<forall>info \<in> set (priv_sets st). 8 * unat (si_number info) \<le> length (si_buf info))
   \<and> (\<forall>i. held (set_log st) i = (\<Sum>info \<leftarrow> priv_sets st. set_refs info i))"

text \<open>Every CPU has the same lists.\<close>

definition lists_ok :: "nacs_env \<Rightarrow> ac_set_info \<Rightarrow> bool" where
  "lists_ok env info \<longleftrightarrow>
     (let s = SMP_ALIGN (unat (si_size info))
      in length (si_buf info) = s * ncpu env \<and> 8 * unat (si_number info) \<le> s
       \<and> (\<forall>c < ncpu env. slice s c (si_buf info) = slice s 0 (si_buf info)))"

text \<open>Ipset ids have 16 bits and are never the invalid id.\<close>

definition ipset_ids_ok :: "ipsets \<Rightarrow> bool" where
  "ipset_ids_ok ips \<longleftrightarrow> (\<forall>name sid p. ip_set_get_byname ips name = Some (sid, p) \<longrightarrow> sid < 65535)"

lemma rd16_sid: "8 * i + 4 \<le> length buf \<Longrightarrow> rd16 buf (8 * i + 2) = Ret (entry_sid buf i)"
  by (simp add: rd16_def entry_sid_def)

lemma mem_write_le16:
  assumes "off + 2 \<le> length buf"
  shows "mem_write buf off (le16 w) = Ret (buf[off := ucast w, off + 1 := ucast (drop_bit 8 w)])"
proof -
  have "take off buf @ le16 w @ drop (off + 2) buf = buf[off := ucast w, off + 1 := ucast (drop_bit 8 w)]"
    using assms by (intro nth_equalityI) (auto simp: le16_def nth_append nth_list_update nth_Cons' less_diff_conv Suc_diff_le)
  with assms show ?thesis by (simp add: mem_write_def)
qed

lemma u16_join: "(ucast (ucast w :: u8) :: u16) OR push_bit 8 (ucast (ucast (drop_bit 8 w) :: u8)) = w"
  by (rule bit_word_eqI) (auto simp: bit_or_iff bit_push_bit_iff bit_ucast_iff bit_drop_bit_eq)

lemma entry_sid_write:
  assumes "8 * k + 4 \<le> length buf"
  shows "entry_sid (buf[8 * k + 2 := ucast w, 8 * k + 2 + 1 := ucast (drop_bit 8 w)]) j = (if j = k then w else entry_sid buf j)"
proof -
  have "8 * j + 2 \<noteq> 8 * k + 3" "8 * j + 3 \<noteq> 8 * k + 2" by presburger+
  with assms u16_join [of w] show ?thesis
    by (simp add: entry_sid_def nth_list_update)
qed

lemma sid_small:
  fixes sid :: u32
  assumes "sid < 65535"
  shows "ucast (ucast sid :: u16) = sid" and "(ucast sid :: u16) \<noteq> 65535"
proof -
  show *: "ucast (ucast sid :: u16) = sid"
    using assms by transfer (simp add: take_bit_eq_mod)
  show "(ucast sid :: u16) \<noteq> 65535"
  proof
    assume "(ucast sid :: u16) = 65535"
    then have "sid = ucast (65535 :: u16)" using * by metis
    with assms show False by simp
  qed
qed

lemma put_entries_refs:
  assumes "\<forall>k \<in> set ks. 8 * k + 4 \<le> length buf"
  shows "\<exists>es. put_entries buf ks = Ret es \<and> (\<forall>i. held es i = - (\<Sum>k \<leftarrow> ks. sid_refs (entry_sid buf k) i))"
  using assms
proof (induction ks)
  case Nil
  then show ?case by simp
next
  case (Cons k ks)
  then obtain es where "put_entries buf ks = Ret es" "\<forall>i. held es i = - (\<Sum>k \<leftarrow> ks. sid_refs (entry_sid buf k) i)"
    by auto
  with Cons.prems show ?case by (auto simp: rd16_sid sid_refs_def)
qed

lemma get_entries_refs:
  assumes "ipset_ids_ok ips" and "8 * n \<le> length buf" and "n \<le> AC_IPSET_TYPE_MAX"
  shows "\<exists>buf' es. get_entries ips header updated [k..<n] buf = Ret (buf', es) \<and> length buf' = length buf
    \<and> (\<forall>j. entry_sid buf' j = (if k \<le> j \<and> j < n then set_wanted ips header updated j else entry_sid buf j))
    \<and> (\<forall>i. held es i = (\<Sum>j \<leftarrow> [k..<n]. sid_refs (set_wanted ips header updated j) i))"
  using assms(2)
proof (induction "n - k" arbitrary: k buf)
  case 0
  then show ?case by auto
next
  case (Suc d)
  then have k: "k < n" "8 * k + 4 \<le> length buf" "k < 4" "k mod 32 = k" "d = n - Suc k"
    using assms(3) by (simp_all add: AC_IPSET_TYPE_MAX_def)
  define put where "put w b = b[8 * k + 2 := ucast w, 8 * k + 2 + 1 := ucast (drop_bit 8 w)]" for w :: u16 and b :: "u8 list"
  have put: "mem_write b (8 * k + 2) (le16 w) = Ret (put w b)" "length (put w b) = length b"
    "entry_sid (put w b) j = (if j = k then w else entry_sid b j)" if "length b = length buf" for w b j
    using that k(2) mem_write_le16 [of "8 * k + 2" b w] entry_sid_write [of k b w j] by (simp_all add: put_def)
  define b1 where "b1 = put set_invalid_id buf"
  have b1: "length b1 = length buf" "entry_sid b1 j = (if j = k then set_invalid_id else entry_sid buf j)" for j
    by (simp_all add: b1_def put)
  have rest: "\<exists>buf' es. get_entries ips header updated [Suc k..<n] b = Ret (buf', es) \<and> length buf' = length buf
    \<and> (\<forall>j. entry_sid buf' j = (if Suc k \<le> j \<and> j < n then set_wanted ips header updated j else entry_sid b j))
    \<and> (\<forall>i. held es i = (\<Sum>j \<leftarrow> [Suc k..<n]. sid_refs (set_wanted ips header updated j) i))" if "length b = length buf" for b
    using Suc.hyps(1) [OF k(5), of b] Suc.prems that by simp
  have upt: "[k..<n] = k # [Suc k..<n]" using k(1) by (rule upt_conv_Cons)
  have range: "(k \<le> j \<and> j < n) = (j = k \<or> Suc k \<le> j \<and> j < n)" for j using k(1) by auto
  show ?case
  proof (cases "bit updated k \<and> ip_set_get_byname ips (set_name header k) \<noteq> None")
    case True
    then obtain sid p where got: "ip_set_get_byname ips (set_name header k) = Some (sid, p)" by (metis option.exhaust surj_pair)
    then have "sid < 65535" using assms(1) by (auto simp: ipset_ids_ok_def)
    then have sid: "ucast (ucast sid :: u16) = sid" "(ucast sid :: u16) \<noteq> set_invalid_id"
      by (simp_all add: sid_small set_invalid_id_def)
    have w: "set_wanted ips header updated k = ucast sid" using True got by (simp add: set_wanted_def)
    from rest [of "put (ucast sid) b1"] b1 put(2) [of b1] obtain buf' es where
      "get_entries ips header updated [Suc k..<n] (put (ucast sid) b1) = Ret (buf', es)" "length buf' = length buf"
      "\<forall>j. entry_sid buf' j = (if Suc k \<le> j \<and> j < n then set_wanted ips header updated j else entry_sid (put (ucast sid) b1) j)"
      "\<forall>i. held es i = (\<Sum>j \<leftarrow> [Suc k..<n]. sid_refs (set_wanted ips header updated j) i)" by auto
    with True got b1 k w sid show ?thesis
      by (simp add: upt range put b1_def [symmetric] AC_IPSET_TYPE_MAX_def sid_refs_def)
  next
    case False
    then have w: "set_wanted ips header updated k = set_invalid_id" by (cases "ip_set_get_byname ips (set_name header k)") (auto simp: set_wanted_def)
    from rest [of b1] b1 obtain buf' es where
      "get_entries ips header updated [Suc k..<n] b1 = Ret (buf', es)" "length buf' = length buf"
      "\<forall>j. entry_sid buf' j = (if Suc k \<le> j \<and> j < n then set_wanted ips header updated j else entry_sid b1 j)"
      "\<forall>i. held es i = (\<Sum>j \<leftarrow> [Suc k..<n]. sid_refs (set_wanted ips header updated j) i)" by auto
    moreover have "get_entries ips header updated [k..<n] buf = get_entries ips header updated [Suc k..<n] b1"
      using False k by (cases "ip_set_get_byname ips (set_name header k)")
        (auto simp: upt put b1_def [symmetric] AC_IPSET_TYPE_MAX_def)
    ultimately show ?thesis
      using b1 k w by (simp add: upt range sid_refs_def)
  qed
qed

text \<open>Looking up the names changes nothing but the ids.\<close>

lemma write_sid_keeps:
  assumes "mem_write buf (8 * k + 2) (le16 w) = Ret buf'"
  shows "length buf' = length buf \<and> (\<forall>j. j mod 8 \<notin> {2, 3} \<longrightarrow> buf' ! j = buf ! j)"
proof -
  have "8 * k + 2 + 2 \<le> length buf" using assms by (auto simp: mem_write_def split: if_splits)
  from mem_write_le16 [OF this, of w] assms have b: "buf' = buf[8 * k + 2 := ucast w, 8 * k + 2 + 1 := ucast (drop_bit 8 w)]"
    by simp
  have "j \<noteq> 8 * k + 2 \<and> j \<noteq> 8 * k + 2 + 1" if "j mod 8 \<notin> {2, 3}" for j
    using that by auto
  then have "buf' ! j = buf ! j" if "j mod 8 \<notin> {2, 3}" for j
    unfolding b using that by (metis nth_list_update_neq)
  then show ?thesis by (simp add: b)
qed

lemma get_entries_keeps:
  "get_entries ips header updated ks buf = Ret (buf', es) \<Longrightarrow>
    length buf' = length buf \<and> (\<forall>j. j mod 8 \<notin> {2, 3} \<longrightarrow> buf' ! j = buf ! j)"
proof (induction ks arbitrary: buf buf' es)
  case Nil
  then show ?case by simp
next
  case (Cons k ks)
  then obtain b1 where b1: "mem_write buf (8 * k + 2) (le16 set_invalid_id) = Ret b1" by (auto simp: run_simps)
  consider es' where "get_entries ips header updated ks b1 = Ret (buf', es')"
    | w b2 es' where "mem_write b1 (8 * k + 2) (le16 w) = Ret b2" "get_entries ips header updated ks b2 = Ret (buf', es')"
    using Cons.prems b1 by (auto simp: run_simps split: if_splits option.splits)
  then show ?case
    using Cons.IH write_sid_keeps [OF b1] by cases (metis write_sid_keeps)+
qed

lemma entry_flags_same:
  assumes "8 * k + 8 \<le> length b" and "8 * k + 8 \<le> length c" and "\<forall>j. j mod 8 \<notin> {2, 3} \<and> j < 8 * k + 8 \<longrightarrow> b ! j = c ! j"
  shows "entry_flags b k = entry_flags c k"
proof -
  have "b ! (8 * k + 4 + i) = c ! (8 * k + 4 + i)" if "i < 4" for i
  proof -
    have "(8 * k + 4 + i) mod 8 \<notin> {2, 3}" using that by simp presburger
    with assms(3) that show ?thesis by simp
  qed
  from this [of 0] this [of 1] this [of 2] this [of 3] assms(1,2) show ?thesis by (simp add: entry_flags_def rd32_def add.assoc)
qed

lemma entry_sid_take: "take s b = take s c \<Longrightarrow> 8 * k + 4 \<le> s \<Longrightarrow> entry_sid b k = entry_sid c k"
proof -
  assume t: "take s b = take s c" and k: "8 * k + 4 \<le> s"
  have "b ! i = c ! i" if "i < s" for i using t that by (metis nth_take)
  with k show ?thesis by (simp add: entry_sid_def)
qed

lemma translate_set_refs:
  assumes "ipset_ids_ok ips" and num: "unat (si_number info) \<le> AC_IPSET_TYPE_MAX" and sz: "si_size info = 8 * si_number info"
    and len: "length (si_buf info) = SMP_ALIGN (unat (si_size info)) * ncpu env" and cpu: "1 \<le> ncpu env"
  shows "\<exists>buf es. translate_set env ips info = Ret ((info\<lparr>si_buf := buf\<rparr>, es), None)
    \<and> lists_ok env (info\<lparr>si_buf := buf\<rparr>)
    \<and> 8 * unat (si_number info) \<le> length buf
    \<and> (\<forall>k < unat (si_number info). entry_sid buf k = set_wanted ips (si_header info) (si_updated info) k
         \<and> entry_flags buf k = entry_flags (si_buf info) k)
    \<and> (\<forall>i. held es i = set_refs (info\<lparr>si_buf := buf\<rparr>) i)"
proof -
  define n where "n = unat (si_number info)"
  have n4: "n \<le> 4" using num by (simp add: n_def AC_IPSET_TYPE_MAX_def)
  have us: "unat (si_size info) = 8 * n"
    using n4 by (simp add: sz n_def unat_word_ariths)
  define a where "a = SMP_ALIGN (8 * n)"
  have na: "8 * n \<le> a" using SMP_ALIGN_ge [of "8 * n"] n4 by (simp add: a_def)
  have "a \<le> a * ncpu env" using cpu by simp
  with na have "8 * n \<le> a * ncpu env" by linarith
  then have fit: "8 * n \<le> length (si_buf info)" using len us by (simp add: a_def)
  obtain b1 es where g: "get_entries ips (si_header info) (si_updated info) [0..<n] (si_buf info) = Ret (b1, es)"
    "length b1 = length (si_buf info)"
    "\<forall>j. entry_sid b1 j = (if 0 \<le> j \<and> j < n then set_wanted ips (si_header info) (si_updated info) j else entry_sid (si_buf info) j)"
    "\<forall>i. held es i = (\<Sum>j \<leftarrow> [0..<n]. sid_refs (set_wanted ips (si_header info) (si_updated info) j) i)"
    using get_entries_refs [OF assms(1) fit, of "si_header info" "si_updated info" 0] n4 by (auto simp: AC_IPSET_TYPE_MAX_def)
  obtain b2 where cp: "percpu_copy a [1..<ncpu env] b1 = Ret b2" "length b2 = length b1"
    "\<forall>c < ncpu env. slice a c b2 = (if c < 1 then slice a c b1 else slice a 0 b1)"
    using percpu_copy_slices [of 1 "ncpu env" b1 a] cpu g(2) len us by (auto simp: a_def)
  have "take a b2 = take a b1" using cp(3) cpu by (auto simp: slice_def dest: spec [of _ 0])
  moreover have "0 < ncpu env" using cpu by simp
  ultimately have first: "take a b2 = take a b1" "slice a 0 b2 = slice a 0 b1" using cp(3) by auto
  then have sl: "slice a c b2 = slice a 0 b2" if "c < ncpu env" for c
    using cp(3) that by (cases c) auto
  have e: "entry_sid b2 k = set_wanted ips (si_header info) (si_updated info) k" if "k < n" for k
    using entry_sid_take [OF first(1), of k] na that g(3) by simp
  have fl: "entry_flags b2 k = entry_flags (si_buf info) k" if "k < n" for k
  proof (rule entry_flags_same)
    show "8 * k + 8 \<le> length b2" "8 * k + 8 \<le> length (si_buf info)" using that fit g(2) cp(2) by simp_all
    have "b2 ! j = b1 ! j" if "j < 8 * k + 8" for j using first(1) na \<open>k < n\<close> that by (metis (no_types, lifting) Suc_leI less_le_trans mult_Suc_right mult_le_mono2 nth_take add.commute)
    with get_entries_keeps [OF g(1)] show "\<forall>j. j mod 8 \<notin> {2, 3} \<and> j < 8 * k + 8 \<longrightarrow> b2 ! j = si_buf info ! j" by simp
  qed
  have "(\<Sum>j \<leftarrow> [0..<n]. sid_refs (entry_sid b2 j) i)
      = (\<Sum>j \<leftarrow> [0..<n]. sid_refs (set_wanted ips (si_header info) (si_updated info) j) i)" for i
    by (intro arg_cong [where f = sum_list] map_cong) (simp_all add: e)
  moreover have lists: "lists_ok env (info\<lparr>si_buf := b2\<rparr>)"
  proof -
    have [simp]: "SMP_ALIGN (unat (si_size info)) = a" by (simp add: us a_def)
    have "length b2 = a * ncpu env" using len g(2) cp(2) by simp
    then show ?thesis
      unfolding lists_ok_def Let_def using na by (auto simp: n_def intro: sl)
  qed
  moreover have guard: "si_number info * word_of_nat (AC_ALIGN 8) = si_size info" by (simp add: sz AC_ALIGN_def)
  ultimately have "translate_set env ips info = Ret ((info\<lparr>si_buf := b2\<rparr>, es), None)
    \<and> lists_ok env (info\<lparr>si_buf := b2\<rparr>) \<and> 8 * n \<le> length b2
    \<and> (\<forall>k < n. entry_sid b2 k = set_wanted ips (si_header info) (si_updated info) k \<and> entry_flags b2 k = entry_flags (si_buf info) k)
    \<and> (\<forall>i. held es i = set_refs (info\<lparr>si_buf := b2\<rparr>) i)"
    using g cp fit e fl guard us lists by (simp add: translate_set_def n_def [symmetric] a_def [symmetric] set_refs_def)
  then show ?thesis unfolding n_def by blast
qed

lemma sum_list_replace: "k < length xs \<Longrightarrow> sum_list (xs[k := x]) = sum_list xs + x - xs ! k" for x :: int
  by (induction xs arbitrary: k) (auto split: nat.split)

lemma free_set_refs:
  "8 * unat (si_number info) \<le> length (si_buf info) \<Longrightarrow>
    \<exists>es. free_ac_set_info info = Ret es \<and> (\<forall>i. held es i = - set_refs info i)"
  unfolding free_ac_set_info_def set_refs_def by (rule put_entries_refs) auto

lemma replace_set_keeps_inv:
  assumes "sets_inv st" and "unat (si_category info) < RULE_TYPE_MAX"
    and "8 * unat (si_number info) \<le> length (si_buf info)" and "\<forall>i. held es i = set_refs info i"
  shows "\<exists>puts. do_replace_set_locked (log_sets es st) info
      = Ret (st\<lparr>priv_sets := (priv_sets st)[unat (si_category info) := info], magic := magic st + 1,
               set_log := set_log st @ es @ puts\<rparr>)
    \<and> sets_inv (st\<lparr>priv_sets := (priv_sets st)[unat (si_category info) := info], magic := magic st + 1,
               set_log := set_log st @ es @ puts\<rparr>)"
proof -
  define c where "c = unat (si_category info)"
  have c: "c < length (priv_sets st)" and old: "8 * unat (si_number (priv_sets st ! c)) \<le> length (si_buf (priv_sets st ! c))"
    using assms(1,2) by (auto simp: sets_inv_def c_def)
  obtain puts where puts: "free_ac_set_info (priv_sets st ! c) = Ret puts" "\<forall>i. held puts i = - set_refs (priv_sets st ! c) i"
    using free_set_refs [OF old] by auto
  have "(\<Sum>x \<leftarrow> (priv_sets st)[c := info]. set_refs x i)
      = (\<Sum>x \<leftarrow> priv_sets st. set_refs x i) + set_refs info i - set_refs (priv_sets st ! c) i" for i
    using c by (simp add: map_update sum_list_replace)
  with assms puts c have "sets_inv (st\<lparr>priv_sets := (priv_sets st)[c := info], magic := magic st + 1,
               set_log := set_log st @ es @ puts\<rparr>)"
    by (auto simp: sets_inv_def dest: set_update_subset_insert [THEN subsetD])
  moreover have "do_replace_set_locked (log_sets es st) info
      = Ret (st\<lparr>priv_sets := (priv_sets st)[c := info], magic := magic st + 1, set_log := set_log st @ es @ puts\<rparr>)"
    using puts assms(2) by (simp add: do_replace_set_locked_def log_sets_def c_def Let_def)
  ultimately show ?thesis by (auto simp: c_def)
qed

section \<open>Properties\<close>

definition set_header :: "u32 \<Rightarrow> u32 \<Rightarrow> u32 \<Rightarrow> u32 \<Rightarrow> u8 list \<Rightarrow> u8 list" where
  "set_header cate sz num upd names = le32 cate @ le32 sz @ le32 num @ le32 upd @ names"

definition set_message :: "u32 \<Rightarrow> u32 \<Rightarrow> u32 \<Rightarrow> u32 \<Rightarrow> u8 list \<Rightarrow> u8 list \<Rightarrow> u8 list" where
  "set_message cate sz num upd names body = set_header cate sz num upd names @ body"

lemma set_message_header:
  assumes "length names = 128"
  shows "copy_from_user (set_message cate sz num upd names body) 0 SET_HEADER = Some (set_header cate sz num upd names)"
    and "rd32 (set_header cate sz num upd names) 0 = Ret cate" and "rd32 (set_header cate sz num upd names) 4 = Ret sz" and "rd32 (set_header cate sz num upd names) 8 = Ret num" and "rd32 (set_header cate sz num upd names) 12 = Ret upd"
    and "copy_from_user (set_message cate sz num upd names body) SET_HEADER n
         = (if n \<le> length body then Some (take n body) else None)"
proof -
  have m: "set_message cate sz num upd names body = set_header cate sz num upd names @ body"
    "length (set_header cate sz num upd names) = 144"
    using assms(1) by (simp_all add: set_message_def set_header_def)
  then show "copy_from_user (set_message cate sz num upd names body) 0 SET_HEADER = Some (set_header cate sz num upd names)"
    "copy_from_user (set_message cate sz num upd names body) SET_HEADER n
         = (if n \<le> length body then Some (take n body) else None)"
    by (simp_all add: copy_from_user_def SET_HEADER_def)
  have "located (set_header cate sz num upd names) 0 (set_header cate sz num upd names)" by (simp add: located_def)
  then show "rd32 (set_header cate sz num upd names) 0 = Ret cate" "rd32 (set_header cate sz num upd names) 4 = Ret sz" "rd32 (set_header cate sz num upd names) 8 = Ret num" "rd32 (set_header cate sz num upd names) 12 = Ret upd"
    unfolding set_header_def located_append by (simp_all add: rd32_located)
qed

lemma replace_set_message:
  assumes "sets_inv st" and "ipset_ids_ok ips" and "1 \<le> ncpu env" and "ncpu env < 2 ^ 20"
    and "unat cate < RULE_TYPE_MAX" and "num \<le> 4" and "length names = 128"
  shows "\<exists>st' err. do_replace_set env ips (set_message cate (8 * num) num upd names body) len st = Ret (st', err)
    \<and> sets_inv st'
    \<and> (err \<noteq> None \<longrightarrow> st' = st)
    \<and> (word_of_nat len = word_of_nat SET_HEADER + 8 * num \<and> alloc_percpu env 160 (8 * unat num) \<noteq> None \<and> 8 * unat num \<le> length body \<longrightarrow> err = None)
    \<and> (err = None \<longrightarrow> magic st' = magic st + 1 \<and> priv_tables st' = priv_tables st
         \<and> (\<forall>c. c \<noteq> unat cate \<longrightarrow> priv_sets st' ! c = priv_sets st ! c)
         \<and> length (priv_sets st') = length (priv_sets st) \<and> lists_ok env (priv_sets st' ! unat cate)
         \<and> si_category (priv_sets st' ! unat cate) = cate \<and> si_size (priv_sets st' ! unat cate) = 8 * num
         \<and> si_header (priv_sets st' ! unat cate) = set_header cate (8 * num) num upd names
         \<and> si_updated (priv_sets st' ! unat cate) = upd \<and> si_number (priv_sets st' ! unat cate) = num
         \<and> (\<forall>k < unat num. entry_sid (si_buf (priv_sets st' ! unat cate)) k =
              set_wanted ips (set_header cate (8 * num) num upd names) upd k
              \<and> entry_flags (si_buf (priv_sets st' ! unat cate)) k = entry_flags body k))"
proof -
  note hdr = set_message_header [OF assms(7)]
  let ?h = "set_header cate (8 * num) num upd names"
  have n4: "unat num \<le> 4" using assms(6) by (simp add: word_le_nat_alt)
  then have us: "unat (8 * num) = 8 * unat num" by (simp add: unat_word_ariths)
  define a where "a = SMP_ALIGN (8 * unat num)"
  have a: "8 * unat num \<le> a" "a \<le> 64"
    using n4 SMP_ALIGN_ge [of "8 * unat num"] SMP_ALIGN_le [of "8 * unat num"] by (simp_all add: a_def)
  have "a * ncpu env \<le> 64 * 2 ^ 20" using a assms(4) by (intro mult_le_mono) simp_all
  then have al: "alloc_percpu env 160 (8 * unat num) = None
      \<or> alloc_percpu env 160 (8 * unat num) = Some (fresh env (a * ncpu env))"
    by (auto simp: alloc_percpu_def a_def [symmetric] Let_def unat_of_nat simp del: of_nat_add of_nat_mult)
  show ?thesis
  proof (cases "word_of_nat len \<noteq> word_of_nat SET_HEADER + 8 * num \<or> alloc_percpu env 160 (8 * unat num) = None
      \<or> length body < 8 * unat num")
    case True
    then have e: "\<exists>e. do_replace_set env ips (set_message cate (8 * num) num upd names body) len st = Ret (st, Some e)"
      using al assms(5) unfolding do_replace_set_def hdr(1) option.case
      by (auto simp: hdr alloc_ac_set_info_def us)
    have "\<not> (word_of_nat len = word_of_nat SET_HEADER + 8 * num \<and> alloc_percpu env 160 (8 * unat num) \<noteq> None \<and> 8 * unat num \<le> length body)"
      using True by auto
    with e show ?thesis using assms(1) by blast
  next
    case False
    then have body: "8 * unat num \<le> length body" and fr: "alloc_percpu env 160 (8 * unat num) = Some (fresh env (a * ncpu env))"
      using al by auto
    define buf where "buf = take (8 * unat num) body @ drop (8 * unat num) (fresh env (a * ncpu env))"
    have "a \<le> a * ncpu env" using assms(3) by simp
    then have "8 * unat num \<le> a * ncpu env" using a(1) by linarith
    then have w: "mem_write (fresh env (a * ncpu env)) 0 (take (8 * unat num) body) = Ret buf" and lb: "length buf = a * ncpu env"
      using body by (simp_all add: mem_write_def buf_def)
    have fl: "entry_flags buf k = entry_flags body k" if "k < unat num" for k
      by (rule entry_flags_same) (use that body lb \<open>8 * unat num \<le> a * ncpu env\<close> in \<open>auto simp: buf_def nth_append\<close>)
    define info where "info = \<lparr>si_category = cate, si_size = 8 * num, si_number = num, si_updated = upd, si_header = ?h, si_buf = buf\<rparr>"
    obtain buf' es where tr: "translate_set env ips info = Ret ((info\<lparr>si_buf := buf'\<rparr>, es), None)"
      "lists_ok env (info\<lparr>si_buf := buf'\<rparr>)" "8 * unat (si_number info) \<le> length buf'"
      "\<forall>k < unat (si_number info). entry_sid buf' k = set_wanted ips (si_header info) (si_updated info) k
         \<and> entry_flags buf' k = entry_flags (si_buf info) k"
      "\<forall>i. held es i = set_refs (info\<lparr>si_buf := buf'\<rparr>) i"
      using translate_set_refs [OF assms(2), of info env] n4 lb assms(3)
      by (auto simp: info_def us a_def AC_IPSET_TYPE_MAX_def)
    obtain st' where st': "do_replace_set_locked (log_sets es st) (info\<lparr>si_buf := buf'\<rparr>) = Ret st'" "sets_inv st'"
      "priv_sets st' = (priv_sets st)[unat cate := info\<lparr>si_buf := buf'\<rparr>]" "magic st' = magic st + 1"
      "priv_tables st' = priv_tables st"
      using replace_set_keeps_inv [OF assms(1), of "info\<lparr>si_buf := buf'\<rparr>" es] tr assms(5) by (auto simp: info_def)
    have "do_replace_set env ips (set_message cate (8 * num) num upd names body) len st = Ret (st', None)"
      using False assms(5) unfolding do_replace_set_def hdr(1) option.case
      by (simp add: hdr alloc_ac_set_info_def us fr body w Let_def info_def [symmetric] tr st')
    moreover have "unat cate < length (priv_sets st)" using assms(1,5) by (simp add: sets_inv_def)
    ultimately show ?thesis using st' tr fl by (auto simp: info_def)
  qed
qed

text \<open>
  C19: a message with the black and white lists whose size is consistent, for an existing
  category and with at most four lists, never makes the module touch foreign memory,
  whatever its names, its body and its length. The references the module holds to ipsets
  stay exactly those of the installed lists. A refused message changes nothing; an accepted
  one gives every list the set named in the message when its update bit is set and the set
  exists, and clears every other list of the category.
\<close>

theorem set_refs_balanced:
  assumes "sets_inv st" and "ipset_ids_ok ips" and "1 \<le> ncpu env" and "ncpu env < 2 ^ 20"
    and "unat cate < RULE_TYPE_MAX" and "num \<le> 4" and "length names = 128"
  shows "\<exists>st' err. do_replace_set env ips (set_message cate (8 * num) num upd names body) len st = Ret (st', err)
    \<and> sets_inv st'
    \<and> (err \<noteq> None \<longrightarrow> st' = st)
    \<and> (err = None \<longrightarrow> magic st' = magic st + 1 \<and> priv_tables st' = priv_tables st
         \<and> (\<forall>c. c \<noteq> unat cate \<longrightarrow> priv_sets st' ! c = priv_sets st ! c)
         \<and> si_number (priv_sets st' ! unat cate) = num
         \<and> (\<forall>k < unat num. entry_sid (si_buf (priv_sets st' ! unat cate)) k =
              set_wanted ips (set_header cate (8 * num) num upd names) upd k))"
  using replace_set_message [OF assms, of upd body len] by blast

definition demo_ipsets :: ipsets where
  "demo_ipsets = \<lparr>ip_set_get_byname = (\<lambda>name. if name = ''ads'' then Some (5, 4096) else None), ip_set_name_byindex = (\<lambda>i. ''ads'')\<rparr>"

definition demo_empty_sets :: "u32 \<Rightarrow> ac_set_info" where
  "demo_empty_sets c = \<lparr>si_category = c, si_size = 0, si_number = 0, si_updated = 0, si_header = replicate SET_HEADER 0, si_buf = []\<rparr>"

definition demo_nac_state :: nac_state where
  "demo_nac_state = \<lparr>magic = 999, priv_tables = [demo_empty_info, demo_empty_info\<lparr>ti_category := 1\<rparr>],
     priv_sets = [demo_empty_sets 0, demo_empty_sets 1], set_log = []\<rparr>"

definition demo_names :: "u8 list" where
  "demo_names = replicate 64 0 @ [97, 100, 115] @ replicate 61 0"

lemma demo_sets_inv: "sets_inv demo_nac_state"
  by (auto simp: sets_inv_def demo_nac_state_def demo_empty_sets_def RULE_TYPE_MAX_def set_refs_def)

lemma demo_ipset_ids: "ipset_ids_ok demo_ipsets"
  by (auto simp: ipset_ids_ok_def demo_ipsets_def split: if_splits)

theorem set_refs_balanced_witness:
  "\<exists>st'. do_replace_set demo_nacs_env demo_ipsets (set_message 0 32 4 4 demo_names (replicate 32 0)) 176 demo_nac_state
       = Ret (st', None)
     \<and> sets_inv st' \<and> magic st' = 1000 \<and> entry_sid (si_buf (priv_sets st' ! 0)) 2 = 5"
proof -
  have "\<exists>st' err. do_replace_set demo_nacs_env demo_ipsets (set_message 0 (8 * 4) 4 4 demo_names (replicate 32 0)) 176 demo_nac_state
      = Ret (st', err)
    \<and> sets_inv st'
    \<and> (err \<noteq> None \<longrightarrow> st' = demo_nac_state)
    \<and> (err = None \<longrightarrow> magic st' = magic demo_nac_state + 1 \<and> priv_tables st' = priv_tables demo_nac_state
         \<and> (\<forall>c. c \<noteq> unat (0 :: u32) \<longrightarrow> priv_sets st' ! c = priv_sets demo_nac_state ! c)
         \<and> si_number (priv_sets st' ! unat (0 :: u32)) = 4
         \<and> (\<forall>k < unat (4 :: u32). entry_sid (si_buf (priv_sets st' ! unat (0 :: u32))) k =
              set_wanted demo_ipsets (set_header 0 (8 * 4) 4 4 demo_names) 4 k))"
    by (rule set_refs_balanced)
       (simp_all add: demo_sets_inv demo_ipset_ids demo_nacs_env_def RULE_TYPE_MAX_def demo_names_def)
  moreover have "set_wanted demo_ipsets (set_header 0 32 4 4 demo_names) 4 2 = 5" by code_simp
  moreover have "map_option (\<lambda>x. snd x = None) (case do_replace_set demo_nacs_env demo_ipsets
      (set_message 0 32 4 4 demo_names (replicate 32 0)) 176 demo_nac_state of Ret x \<Rightarrow> Some x | Fault e \<Rightarrow> None) = Some True"
    by code_simp
  ultimately show ?thesis by (auto simp: demo_nac_state_def)
qed

text \<open>
  A message with the lists whose size does not fit its number is refused, but the
  refusal drops references the module never took: every id the message carries in the place
  of a set id is put, here any set of the sender's choice.
\<close>

theorem refused_set_drops_reference:
  fixes sid :: u16
  assumes "sid \<noteq> set_invalid_id" and "length names = 128" and "unat cate < RULE_TYPE_MAX" and "alloc_fits env 160 16"
    and "1 \<le> ncpu env"
  shows "do_replace_set env ips (set_message cate 16 1 upd names (le16 8 @ le16 sid @ replicate 12 0)) 160 st
     = Ret (st\<lparr>set_log := set_log st @ [Put (ucast sid)]\<rparr>, Some EINVAL)"
proof -
  note hdr = set_message_header [OF assms(2)]
  let ?b = "le16 8 @ le16 sid @ replicate 12 0"
  define m where "m = SMP_ALIGN 16 * ncpu env"
  have m: "16 \<le> m" using assms(5) by (simp add: m_def SMP_ALIGN_def)
  define buf where "buf = ?b @ drop 16 (fresh env m)"
  have w: "mem_write (fresh env m) 0 ?b = Ret buf" using m by (simp add: mem_write_def buf_def)
  have "located buf 2 (le16 sid)"
    using located_refl [of "le16 8" "le16 sid" "replicate 12 0 @ drop 16 (fresh env m)"] by (simp add: buf_def)
  then have "rd16 buf 2 = Ret sid" by (rule rd16_located)
  then have put: "put_entries buf [0..<Suc 0] = Ret [Put (ucast sid)]" using assms(1) by simp
  have "alloc_percpu env 160 16 = Some (fresh env m)" using alloc_percpu_fits [OF assms(4)] by (simp add: m_def)
  then show ?thesis
    using assms(3) w put unfolding do_replace_set_def hdr(1) option.case
    by (simp add: hdr hdr(6) [unfolded SET_HEADER_def] Let_def alloc_ac_set_info_def SET_HEADER_def translate_set_def AC_ALIGN_def free_ac_set_info_def log_sets_def
        del: put_entries.simps)
qed

theorem refused_set_drops_reference_witness:
  "do_replace_set demo_nacs_env demo_ipsets (set_message 0 16 1 0 demo_names (le16 8 @ le16 5 @ replicate 12 0)) 160 demo_nac_state
     = Ret (demo_nac_state\<lparr>set_log := [Put 5]\<rparr>, Some EINVAL)"
  using refused_set_drops_reference [of 5 demo_names 0 demo_nacs_env demo_ipsets 0 demo_nac_state]
  by (simp add: set_invalid_id_def demo_names_def RULE_TYPE_MAX_def alloc_fits_def SMP_ALIGN_def demo_nacs_env_def demo_nac_state_def)

lemma percpu_copy_first:
  "percpu_copy s ks buf = Ret buf' \<Longrightarrow> 0 \<notin> set ks \<Longrightarrow> take s buf' = take s buf"
proof (induction ks arbitrary: buf)
  case Nil
  then show ?case by simp
next
  case (Cons k ks)
  then obtain b where b: "mem_write buf (s * k) (take s buf) = Ret b" "percpu_copy s ks b = Ret buf'"
    by (auto simp: run_simps)
  have "s \<le> s * k" using Cons.prems by simp
  with b(1) have "take s b = take s buf"
    by (auto simp: mem_write_def min_def split: if_splits)
  with Cons b(2) show ?case by simp
qed

lemma SMP_ALIGN_wraps: "n < 2 ^ 32 \<Longrightarrow> \<not> n + 31 < 2 ^ 32 \<Longrightarrow> SMP_ALIGN n = 0"
proof -
  assume n: "n < 2 ^ 32" "\<not> n + 31 < 2 ^ 32"
  have "(int n + 31) mod 2 ^ 32 = (int n + 31 - 2 ^ 32) mod 2 ^ 32" by (rule minus_mod_self2 [symmetric])
  also have "\<dots> = int n + 31 - 2 ^ 32" using n by (intro mod_pos_pos_trivial) simp_all
  finally have "(int n + 31) mod 2 ^ 32 = int n + 31 - 2 ^ 32" .
  with n show ?thesis by (simp add: SMP_ALIGN_def)
qed

lemma alloc_percpu_size:
  assumes "alloc_percpu env h (unat (sz :: u32)) = Some buf" and "unat sz \<le> length buf" and "h < 2 ^ 32"
  shows "unat sz \<le> SMP_ALIGN (unat sz)"
proof (cases "unat sz + 31 < 2 ^ 32")
  case True
  then show ?thesis by (rule SMP_ALIGN_ge)
next
  case False
  have "unat sz < 2 ^ 32" using unsigned_less [of sz, where 'a = nat] by simp
  with False have "SMP_ALIGN (unat sz) = 0" by (intro SMP_ALIGN_wraps)
  with assms have "unat sz = 0" by (auto simp: alloc_percpu_def Let_def unat_of_nat split: if_splits)
  then show ?thesis by simp
qed

lemma take_prefix_eq: "take s a = take s b \<Longrightarrow> n \<le> s \<Longrightarrow> take n a = take n b"
  by (metis min.absorb1 take_take)

lemma replace_table_stores:
  assumes "do_replace_table env fuel (le32 cate @ le32 sz @ le32 num @ body) len table = Ret (table', None)"
  shows "\<exists>info. table' = do_replace_table_locked table info \<and> ti_category info = cate \<and> ti_size info = sz \<and> ti_number info = num
    \<and> take (unat sz) (ti_buf info) = take (unat sz) body \<and> unat sz \<le> length body \<and> unat cate < RULE_TYPE_MAX
    \<and> word_of_nat len = 12 + sz"
proof -
  let ?u = "le32 cate @ le32 sz @ le32 num @ body" and ?h = "le32 cate @ le32 sz @ le32 num"
  have h: "copy_from_user ?u 0 12 = Some ?h"
    "copy_from_user ?u 12 (unat sz) = (if unat sz \<le> length body then Some (take (unat sz) body) else None)"
    by (simp_all add: copy_from_user_def)
  have "located ?h 0 ?h" by (simp add: located_def)
  then have rd: "rd32 ?h 0 = Ret cate" "rd32 ?h 4 = Ret sz" "rd32 ?h 8 = Ret num"
    unfolding located_append by (simp_all add: rd32_located)
  from assms obtain fr b1 info where al: "alloc_percpu env 32 (unat sz) = Some fr" and body: "unat sz \<le> length body"
    and w: "mem_write fr 0 (take (unat sz) body) = Ret b1" and len: "word_of_nat len = 12 + sz"
    and tr: "translate_table env fuel \<lparr>ti_category = 0, ti_size = sz, ti_number = 0, ti_buf = b1\<rparr> cate sz num = Ret (info, None)"
    and t': "table' = do_replace_table_locked table info"
    unfolding do_replace_table_def h option.case
    by (auto simp: h(2) rd run_simps alloc_ac_table_info_def split: if_splits option.splits)
  from tr have c: "unat cate < RULE_TYPE_MAX" by (auto simp: translate_table_def Let_def split: if_splits)
  with tr obtain r where r: "check_entries fuel b1 (unat sz) 0 0 = Ret r" by (auto simp: translate_table_def run_simps)
  with tr c obtain k where "r = Inr k" by (cases r) (auto simp: translate_table_def)
  with tr c r obtain b2 where cp: "percpu_copy (SMP_ALIGN (unat sz)) [Suc 0..<ncpu env] b1 = Ret b2"
    and info: "info = \<lparr>ti_category = cate, ti_size = sz, ti_number = num, ti_buf = b2\<rparr>"
    by (auto simp: translate_table_def run_simps split: if_splits)
  have fit: "unat sz \<le> length fr" and b1: "take (unat sz) b1 = take (unat sz) body"
    using w body by (auto simp: mem_write_def split: if_splits)
  have "take (SMP_ALIGN (unat sz)) b2 = take (SMP_ALIGN (unat sz)) b1" using cp by (rule percpu_copy_first) simp
  moreover have "unat sz \<le> SMP_ALIGN (unat sz)" using alloc_percpu_size [OF al fit] by simp
  ultimately have "take (unat sz) b2 = take (unat sz) b1" by (rule take_prefix_eq)
  with t' info c body b1 len show ?thesis by (intro exI [of _ info]) simp
qed

text \<open>
  An accepted rule table can be read back: the size query returns the number and size of
  the message, and the entries read with them are byte for byte those of the message.
\<close>

theorem table_read_back:
  assumes "do_replace_table env fuel (le32 cate @ le32 sz @ le32 num @ body) len table = Ret (table', None)"
    and "length (priv_tables table) = RULE_TYPE_MAX" and "length pad = 8" and "length space = unat sz"
  shows "do_get_table_info table' (le32 cate @ pad) 12 = Ret (le32 cate @ le32 num @ le32 sz, None)
    \<and> do_get_entries table' (le32 cate @ le32 sz @ le32 num @ space) len
      = Ret (le32 cate @ le32 sz @ le32 num @ take (unat sz) body, None)"
proof -
  obtain info where i: "table' = do_replace_table_locked table info" "ti_category info = cate" "ti_size info = sz" "ti_number info = num"
    "take (unat sz) (ti_buf info) = take (unat sz) body" "unat sz \<le> length body" "unat cate < RULE_TYPE_MAX"
    "word_of_nat len = 12 + sz"
    using replace_table_stores [OF assms(1)] by auto
  have at: "priv_tables table' ! unat cate = info" using i assms(2) by (simp add: do_replace_table_locked_def)
  have "unat sz \<le> length (ti_buf info)" using i(5,6) by (metis length_take min.absorb_iff2)
  moreover have "rd32 (le32 cate @ xs) 0 = Ret cate" for xs
    using located_refl [of "[]" "le32 cate" xs] by (intro rd32_located) simp
  moreover have "rd32 (le32 cate @ le32 sz @ xs) 4 = Ret sz" for xs
    using located_refl [of "le32 cate" "le32 sz" xs] by (intro rd32_located) simp
  moreover have "rd32 (le32 cate @ le32 sz @ le32 num) 8 = Ret num"
    using located_refl [of "le32 cate @ le32 sz" "le32 num" "[]"] by (intro rd32_located) simp
  ultimately show ?thesis
    using i(2-) assms(3,4) by (simp add: do_get_table_info_def do_get_entries_def copy_from_user_def at Let_def)
qed

theorem table_read_back_witness:
  "\<exists>table'. do_replace_table demo_nacs_env 2 (le32 0 @ le32 32 @ le32 1 @ evil_entry) 44 demo_nac_state = Ret (table', None)
    \<and> do_get_table_info table' (le32 0 @ replicate 8 0) 12 = Ret (le32 0 @ le32 1 @ le32 32, None)
    \<and> do_get_entries table' (le32 0 @ le32 32 @ le32 1 @ replicate 32 0) 44 = Ret (le32 0 @ le32 32 @ le32 1 @ evil_entry, None)"
proof -
  let ?t = "\<lparr>ti_category = 0, ti_size = 32, ti_number = 1, ti_buf = evil_entry @ evil_entry\<rparr>"
  have acc: "do_replace_table demo_nacs_env 2 (le32 0 @ le32 32 @ le32 1 @ evil_entry) 44 demo_nac_state
     = Ret (demo_nac_state\<lparr>magic := 1000, priv_tables := [?t, demo_empty_info\<lparr>ti_category := 1\<rparr>]\<rparr>, None)"
    by code_simp
  have "take (unat (32 :: u32)) evil_entry = evil_entry" by (simp add: evil_entry_def)
  with table_read_back [OF acc, of "replicate 8 0" "replicate 32 0"] acc show ?thesis
    by (simp add: demo_nac_state_def RULE_TYPE_MAX_def)
qed

text \<open>
  The handlers check the category with \<open>>\<close> instead of \<open>>=\<close>: category 2 passes the check of
  a query and of a message with lists, and the access that follows is behind the end of the
  arrays of two.
\<close>

theorem category_off_by_one:
  assumes "length names = 128" and "alloc_fits env 160 0" and "length pad = 8"
  shows "do_get_table_info table (le32 2 @ pad) 12 = Fault Undefined
    \<and> do_replace_set env ips (set_message 2 0 0 0 names []) 144 st = Fault Undefined"
proof -
  note hdr = set_message_header [OF assms(1)]
  have "rd32 (le32 2 @ pad) 0 = Ret 2"
    using located_refl [of "[]" "le32 2" pad] by (intro rd32_located) simp
  then have "do_get_table_info table (le32 2 @ pad) 12 = Fault Undefined"
    using assms(3) by (simp add: do_get_table_info_def copy_from_user_def RULE_TYPE_MAX_def)
  moreover have "SMP_ALIGN 0 = 0" by (simp add: SMP_ALIGN_def)
  then have "alloc_percpu env 160 0 = Some []" using alloc_percpu_fits [OF assms(2)] by (simp add: fresh_def)
  moreover have "percpu_copy 0 ks [] = Ret []" for ks by (induction ks) (simp_all add: mem_write_def)
  ultimately show ?thesis
    unfolding do_replace_set_def hdr(1) option.case
    by (simp add: hdr hdr(6) [unfolded SET_HEADER_def] Let_def alloc_ac_set_info_def SET_HEADER_def translate_set_def
        RULE_TYPE_MAX_def mem_write_def do_replace_set_locked_def SMP_ALIGN_def)
qed

theorem category_off_by_one_witness:
  "do_get_table_info demo_nac_state (le32 2 @ replicate 8 0) 12 = Fault Undefined
    \<and> do_replace_set demo_nacs_env demo_ipsets (set_message 2 0 0 0 demo_names []) 144 demo_nac_state = Fault Undefined"
  by (rule category_off_by_one) (simp_all add: demo_names_def alloc_fits_def SMP_ALIGN_def demo_nacs_env_def)

end
