(* ===== verification/Flow_Flags.thy ===== *)
theory Flow_Flags
  imports Prelude
begin

text \<open>
  \<open>include/src/ntrack_flow.h\<close>: the flag word of a flow node, which every module reads and
  writes through small accessors, the layout of the node's private area, and the
  direction tests. Accessors that return an \<open>int\<close> used as a truth value are predicates.
\<close>

section \<open>The flow node\<close>

record flow_tuple =
  ip_src :: u32
  ip_dst :: u32
  port_src :: u16
  port_dst :: u16
  tuple_proto :: u8

record flow_info =
  f_id :: u32
  f_magic :: u32
  tuple :: flow_tuple
  flags :: u32
  f_proto :: u32
  nacs_magic :: u32

definition flow_srcip :: "flow_info \<Rightarrow> u32" where "flow_srcip fi = ip_src (tuple fi)"

definition flow_dstip :: "flow_info \<Rightarrow> u32" where "flow_dstip fi = ip_dst (tuple fi)"

definition flow_sport :: "flow_info \<Rightarrow> u16" where "flow_sport fi = port_src (tuple fi)"

definition flow_dport :: "flow_info \<Rightarrow> u16" where "flow_dport fi = port_dst (tuple fi)"

section \<open>Flags\<close>

definition FLOW_STAT_SHIFT :: nat where "FLOW_STAT_SHIFT = 0"

definition FLOW_DROP_SHIFT :: nat where "FLOW_DROP_SHIFT = 8"

definition FLOW_ACCEPT_SHIFT :: nat where "FLOW_ACCEPT_SHIFT = 16"

definition FLOW_DBG_SHIFT :: nat where "FLOW_DBG_SHIFT = 24"

definition FLOW_STAT_MASK :: u32 where "FLOW_STAT_MASK = push_bit FLOW_STAT_SHIFT 0xFF"

definition FLOW_DROP_MASK :: u32 where "FLOW_DROP_MASK = push_bit FLOW_DROP_SHIFT 0xFF"

definition FLOW_ACCEPT_MASK :: u32 where "FLOW_ACCEPT_MASK = push_bit FLOW_ACCEPT_SHIFT 0xFF"

definition FLOW_DBG_MASK :: u32 where "FLOW_DBG_MASK = push_bit FLOW_DBG_SHIFT 0xFF"

definition FG_FLOW_NPROTO_FIN :: u32 where "FG_FLOW_NPROTO_FIN = push_bit (FLOW_STAT_SHIFT + 0) 1"

definition FG_FLOW_NPROTO_BEHIVOR :: u32 where "FG_FLOW_NPROTO_BEHIVOR = push_bit (FLOW_STAT_SHIFT + 1) 1"

definition FG_FLOW_TRACE :: u32 where "FG_FLOW_TRACE = push_bit (FLOW_STAT_SHIFT + 2) 1"

definition FG_FLOW_AUDIT :: u32 where "FG_FLOW_AUDIT = push_bit (FLOW_STAT_SHIFT + 3) 1"

definition FG_FLOW_AUDIT_FIN :: u32 where "FG_FLOW_AUDIT_FIN = push_bit (FLOW_STAT_SHIFT + 4) 1"

definition FG_FLOW_CONTROL_FIN :: u32 where "FG_FLOW_CONTROL_FIN = push_bit (FLOW_STAT_SHIFT + 5) 1"

definition FG_FLOW_STATISTIC :: u32 where "FG_FLOW_STATISTIC = push_bit (FLOW_STAT_SHIFT + 6) 1"

definition FG_FLOW_DROP_AUTH :: u32 where "FG_FLOW_DROP_AUTH = push_bit (FLOW_DROP_SHIFT + 0) 1"

definition FG_FLOW_DROP_L4_FW :: u32 where "FG_FLOW_DROP_L4_FW = push_bit (FLOW_DROP_SHIFT + 1) 1"

definition FG_FLOW_DROP_L7_FW :: u32 where "FG_FLOW_DROP_L7_FW = push_bit (FLOW_DROP_SHIFT + 2) 1"

definition FG_FLOW_DROP_CTX_FILTER :: u32 where "FG_FLOW_DROP_CTX_FILTER = push_bit (FLOW_DROP_SHIFT + 3) 1"

definition FG_FLOW_ACCEPT_L4_FW :: u32 where "FG_FLOW_ACCEPT_L4_FW = push_bit (FLOW_ACCEPT_SHIFT + 0) 1"

definition FG_FLOW_ACCEPT_L7_FW :: u32 where "FG_FLOW_ACCEPT_L7_FW = push_bit (FLOW_ACCEPT_SHIFT + 1) 1"

definition FG_LFOW_DBG_RATELIMIT :: u32 where "FG_LFOW_DBG_RATELIMIT = push_bit (FLOW_DBG_SHIFT + 0) 1"

lemmas flag_defs = FLOW_STAT_SHIFT_def FLOW_DROP_SHIFT_def FLOW_ACCEPT_SHIFT_def FLOW_DBG_SHIFT_def
  FLOW_STAT_MASK_def FLOW_DROP_MASK_def FLOW_ACCEPT_MASK_def FLOW_DBG_MASK_def
  FG_FLOW_NPROTO_FIN_def FG_FLOW_NPROTO_BEHIVOR_def FG_FLOW_TRACE_def FG_FLOW_AUDIT_def
  FG_FLOW_AUDIT_FIN_def FG_FLOW_CONTROL_FIN_def FG_FLOW_STATISTIC_def FG_FLOW_DROP_AUTH_def
  FG_FLOW_DROP_L4_FW_def FG_FLOW_DROP_L7_FW_def FG_FLOW_DROP_CTX_FILTER_def
  FG_FLOW_ACCEPT_L4_FW_def FG_FLOW_ACCEPT_L7_FW_def FG_LFOW_DBG_RATELIMIT_def

definition nt_flow_flags :: "flow_info \<Rightarrow> u32" where "nt_flow_flags fi = flags fi"

definition nt_flow_flags_set :: "flow_info \<Rightarrow> u32 \<Rightarrow> flow_info" where
  "nt_flow_flags_set fi f = fi\<lparr>flags := f\<rparr>"

definition nt_flow_nproto_fin :: "flow_info \<Rightarrow> bool" where
  "nt_flow_nproto_fin fi \<longleftrightarrow> flags fi AND FG_FLOW_NPROTO_FIN \<noteq> 0"

definition nt_flow_nproto_fin_set :: "flow_info \<Rightarrow> flow_info" where
  "nt_flow_nproto_fin_set fi = fi\<lparr>flags := flags fi OR FG_FLOW_NPROTO_FIN\<rparr>"

definition nt_flow_track :: "flow_info \<Rightarrow> bool" where
  "nt_flow_track fi \<longleftrightarrow> flags fi AND FG_FLOW_TRACE \<noteq> 0"

definition nt_flow_track_set :: "flow_info \<Rightarrow> flow_info" where
  "nt_flow_track_set fi = fi\<lparr>flags := flags fi OR FG_FLOW_TRACE\<rparr>"

definition nt_flow_audited :: "flow_info \<Rightarrow> bool" where
  "nt_flow_audited fi \<longleftrightarrow> flags fi AND FG_FLOW_AUDIT \<noteq> 0"

definition nt_flow_audit_set :: "flow_info \<Rightarrow> flow_info" where
  "nt_flow_audit_set fi = fi\<lparr>flags := flags fi OR FG_FLOW_AUDIT\<rparr>"

definition nt_flow_audit_clr :: "flow_info \<Rightarrow> flow_info" where
  "nt_flow_audit_clr fi = fi\<lparr>flags := flags fi AND NOT FG_FLOW_AUDIT\<rparr>"

definition nt_flow_audit_fin :: "flow_info \<Rightarrow> bool" where
  "nt_flow_audit_fin fi \<longleftrightarrow> flags fi AND FG_FLOW_AUDIT_FIN \<noteq> 0"

definition nt_flow_audit_fin_set :: "flow_info \<Rightarrow> flow_info" where
  "nt_flow_audit_fin_set fi = fi\<lparr>flags := flags fi OR FG_FLOW_AUDIT_FIN\<rparr>"

definition nt_flow_audit_fin_clr :: "flow_info \<Rightarrow> flow_info" where
  "nt_flow_audit_fin_clr fi = fi\<lparr>flags := flags fi AND NOT FG_FLOW_AUDIT_FIN\<rparr>"

definition nt_flow_control_fin :: "flow_info \<Rightarrow> bool" where
  "nt_flow_control_fin fi \<longleftrightarrow> flags fi AND FG_FLOW_CONTROL_FIN \<noteq> 0"

definition nt_flow_control_fin_set :: "flow_info \<Rightarrow> flow_info" where
  "nt_flow_control_fin_set fi = fi\<lparr>flags := flags fi OR FG_FLOW_CONTROL_FIN\<rparr>"

definition nt_flow_control_fin_clr :: "flow_info \<Rightarrow> flow_info" where
  "nt_flow_control_fin_clr fi = fi\<lparr>flags := flags fi AND NOT FG_FLOW_CONTROL_FIN\<rparr>"

definition nt_flow_drop_set :: "flow_info \<Rightarrow> u32 \<Rightarrow> flow_info" where
  "nt_flow_drop_set fi d = fi\<lparr>flags := flags fi OR (FLOW_DROP_MASK AND d)\<rparr>"

definition nt_flow_drop_clr :: "flow_info \<Rightarrow> u32 \<Rightarrow> flow_info" where
  "nt_flow_drop_clr fi d = fi\<lparr>flags := flags fi AND NOT (FLOW_DROP_MASK AND d)\<rparr>"

definition nt_flow_droped :: "flow_info \<Rightarrow> bool" where
  "nt_flow_droped fi \<longleftrightarrow> flags fi AND FLOW_DROP_MASK \<noteq> 0"

definition nt_flow_accept_set :: "flow_info \<Rightarrow> u32 \<Rightarrow> flow_info" where
  "nt_flow_accept_set fi d = fi\<lparr>flags := flags fi OR (FLOW_ACCEPT_MASK AND d)\<rparr>"

definition nt_flow_accept_clr :: "flow_info \<Rightarrow> u32 \<Rightarrow> flow_info" where
  "nt_flow_accept_clr fi d = fi\<lparr>flags := flags fi AND NOT (FLOW_ACCEPT_MASK AND d)\<rparr>"

definition nt_flow_accepted :: "flow_info \<Rightarrow> bool" where
  "nt_flow_accepted fi \<longleftrightarrow> flags fi AND FLOW_ACCEPT_MASK \<noteq> 0"

definition nt_flow_dbg_rlmt :: "flow_info \<Rightarrow> bool" where
  "nt_flow_dbg_rlmt fi \<longleftrightarrow> flags fi AND FG_LFOW_DBG_RATELIMIT \<noteq> 0"

definition nt_flow_dbg_rlmt_set :: "flow_info \<Rightarrow> flow_info" where
  "nt_flow_dbg_rlmt_set fi = fi\<lparr>flags := flags fi OR FG_LFOW_DBG_RATELIMIT\<rparr>"

definition nt_flow_dbg_rlmt_clr :: "flow_info \<Rightarrow> flow_info" where
  "nt_flow_dbg_rlmt_clr fi = fi\<lparr>flags := flags fi AND NOT FG_LFOW_DBG_RATELIMIT\<rparr>"

definition nt_flow_stat :: "flow_info \<Rightarrow> bool" where
  "nt_flow_stat fi \<longleftrightarrow> flags fi AND FG_FLOW_STATISTIC \<noteq> 0"

definition nt_flow_stat_set :: "flow_info \<Rightarrow> flow_info" where
  "nt_flow_stat_set fi = fi\<lparr>flags := flags fi OR FG_FLOW_STATISTIC\<rparr>"

definition nt_flow_stat_clr :: "flow_info \<Rightarrow> flow_info" where
  "nt_flow_stat_clr fi = fi\<lparr>flags := flags fi AND NOT FG_FLOW_STATISTIC\<rparr>"

lemmas flag_op_defs = nt_flow_flags_def nt_flow_flags_set_def nt_flow_nproto_fin_def
  nt_flow_nproto_fin_set_def nt_flow_track_def nt_flow_track_set_def nt_flow_audited_def
  nt_flow_audit_set_def nt_flow_audit_clr_def nt_flow_audit_fin_def nt_flow_audit_fin_set_def
  nt_flow_audit_fin_clr_def nt_flow_control_fin_def nt_flow_control_fin_set_def
  nt_flow_control_fin_clr_def nt_flow_drop_set_def nt_flow_drop_clr_def nt_flow_droped_def
  nt_flow_accept_set_def nt_flow_accept_clr_def nt_flow_accepted_def nt_flow_dbg_rlmt_def
  nt_flow_dbg_rlmt_set_def nt_flow_dbg_rlmt_clr_def nt_flow_stat_def nt_flow_stat_set_def
  nt_flow_stat_clr_def

definition nt_flow_nproto :: "flow_info \<Rightarrow> u16" where
  "nt_flow_nproto fi = ucast (f_proto fi)"

section \<open>The private area\<close>

text \<open>
  The areas of the modules in \<open>fi->private\<close>, as offsets for a given pointer size: the
  protocol state (one byte of bit fields), the authentication pointer, the access control
  version. The macro for the last offset adds the size of the area itself instead of the
  authentication area's.
\<close>

definition sizeof_nt_flow_nproto_t :: nat where "sizeof_nt_flow_nproto_t = 1"

definition sizeof_nt_flow_authd_t :: "nat \<Rightarrow> nat" where "sizeof_nt_flow_authd_t ptr = ptr"

definition sizeof_nt_flow_nacs_t :: nat where "sizeof_nt_flow_nacs_t = 4"

definition NT_FLOW_OFF_NPROTO :: nat where "NT_FLOW_OFF_NPROTO = 0"

definition NT_FLOW_OFF_AUTHD :: nat where "NT_FLOW_OFF_AUTHD = sizeof_nt_flow_nproto_t"

definition NT_FLOW_OFF_NACS :: nat where
  "NT_FLOW_OFF_NACS = sizeof_nt_flow_nproto_t + sizeof_nt_flow_nacs_t"

definition NT_FLOW_CMM_HDR_SIZE :: "nat \<Rightarrow> nat" where
  "NT_FLOW_CMM_HDR_SIZE ptr =
     sizeof_nt_flow_nproto_t + sizeof_nt_flow_authd_t ptr + sizeof_nt_flow_nacs_t"

definition nt_flow_priv_nproto :: "nat \<times> nat" where
  "nt_flow_priv_nproto = (NT_FLOW_OFF_NPROTO, sizeof_nt_flow_nproto_t)"

definition nt_flow_priv_authd :: "nat \<Rightarrow> nat \<times> nat" where
  "nt_flow_priv_authd ptr = (NT_FLOW_OFF_AUTHD, sizeof_nt_flow_authd_t ptr)"

definition nt_flow_priv_nacs :: "nat \<times> nat" where
  "nt_flow_priv_nacs = (NT_FLOW_OFF_NACS, sizeof_nt_flow_nacs_t)"

text \<open>The start and the size of what is left; the static assertion must hold.\<close>

definition nt_flow_priv_data :: "nat \<Rightarrow> nat \<Rightarrow> (nat \<times> nat) option" where
  "nt_flow_priv_data ptr private_size =
     (if private_size > NT_FLOW_CMM_HDR_SIZE ptr
      then Some (NT_FLOW_CMM_HDR_SIZE ptr, private_size - NT_FLOW_CMM_HDR_SIZE ptr) else None)"

definition disjoint_areas :: "nat \<times> nat \<Rightarrow> nat \<times> nat \<Rightarrow> bool" where
  "disjoint_areas a b \<longleftrightarrow> fst a + snd a \<le> fst b \<or> fst b + snd b \<le> fst a"

section \<open>Directions\<close>

datatype flow_dir = NP_FLOW_DIR_ANY | NP_FLOW_DIR_C2S | NP_FLOW_DIR_S2C

datatype user_dir = NP_USER_XMIT | NP_USER_RECV

text \<open>\<open>saddr\<close> is the packet's source address in host order.\<close>

definition nt_flow_dir :: "flow_tuple \<Rightarrow> u32 \<Rightarrow> flow_dir" where
  "nt_flow_dir t saddr = (if saddr = ip_dst t then NP_FLOW_DIR_S2C else NP_FLOW_DIR_C2S)"

definition nt_user_dir :: "u32 \<Rightarrow> u32 \<Rightarrow> user_dir" where
  "nt_user_dir uip saddr = (if saddr = uip then NP_USER_XMIT else NP_USER_RECV)"

section \<open>Facts\<close>

lemma and_zero_iff: "(a :: u32) AND b = 0 \<longleftrightarrow> (\<forall>k. \<not> (bit a k \<and> bit b k))"
proof -
  have "k < 32" if "bit a k" for k using bit_imp_le_length [OF that] by simp
  then show ?thesis by (auto simp: bit_eq_iff bit_and_iff)
qed

lemma bit_push1: "n < 32 \<Longrightarrow> bit (push_bit n (1 :: u32)) k \<longleftrightarrow> k = n"
  by (simp only: bit_push_bit_iff bit_1_iff) auto

text \<open>Every flag as a power of two, and the two masks as ranges of bits.\<close>

lemma bit_flags:
  "bit FG_FLOW_NPROTO_FIN k \<longleftrightarrow> k = 0" "bit FG_FLOW_TRACE k \<longleftrightarrow> k = 2" "bit FG_FLOW_AUDIT k \<longleftrightarrow> k = 3"
  "bit FG_FLOW_AUDIT_FIN k \<longleftrightarrow> k = 4" "bit FG_FLOW_CONTROL_FIN k \<longleftrightarrow> k = 5" "bit FG_FLOW_STATISTIC k \<longleftrightarrow> k = 6"
  "bit FG_FLOW_DROP_AUTH k \<longleftrightarrow> k = 8" "bit FG_FLOW_DROP_L4_FW k \<longleftrightarrow> k = 9" "bit FG_FLOW_DROP_L7_FW k \<longleftrightarrow> k = 10"
  "bit FG_FLOW_DROP_CTX_FILTER k \<longleftrightarrow> k = 11"
  "bit FG_FLOW_ACCEPT_L4_FW k \<longleftrightarrow> k = 16" "bit FG_FLOW_ACCEPT_L7_FW k \<longleftrightarrow> k = 17"
  "bit FG_LFOW_DBG_RATELIMIT k \<longleftrightarrow> k = 24"
  unfolding flag_defs by (subst bit_push1, simp, arith)+

lemma bit_255: "bit (0xFF :: u32) k \<longleftrightarrow> k < 8"
proof -
  have "(0xFF :: u32) = mask 8" by (simp add: mask_eq_exp_minus_1)
  then show ?thesis by (simp only: bit_mask_iff) auto
qed

lemma bit_push255: "n + 8 \<le> 32 \<Longrightarrow> bit (push_bit n (0xFF :: u32)) k \<longleftrightarrow> n \<le> k \<and> k < n + 8"
  by (simp only: bit_push_bit_iff bit_255) auto

lemma bit_masks:
  "bit FLOW_DROP_MASK k \<longleftrightarrow> 8 \<le> k \<and> k < 16" "bit FLOW_ACCEPT_MASK k \<longleftrightarrow> 16 \<le> k \<and> k < 24"
  unfolding flag_defs by (subst bit_push255, simp, simp)+

lemma flow_flag_iff:
  "nt_flow_droped fi \<longleftrightarrow> (\<exists>k. 8 \<le> k \<and> k < 16 \<and> bit (flags fi) k)"
  "nt_flow_accepted fi \<longleftrightarrow> (\<exists>k. 16 \<le> k \<and> k < 24 \<and> bit (flags fi) k)"
  "nt_flow_audited fi \<longleftrightarrow> bit (flags fi) 3" "nt_flow_audit_fin fi \<longleftrightarrow> bit (flags fi) 4"
  "nt_flow_control_fin fi \<longleftrightarrow> bit (flags fi) 5" "nt_flow_nproto_fin fi \<longleftrightarrow> bit (flags fi) 0"
  "nt_flow_track fi \<longleftrightarrow> bit (flags fi) 2" "nt_flow_stat fi \<longleftrightarrow> bit (flags fi) 6"
  "nt_flow_dbg_rlmt fi \<longleftrightarrow> bit (flags fi) 24"
  by (auto simp: flag_op_defs and_zero_iff bit_masks bit_flags)

text \<open>What the modifying accessors do to each bit.\<close>

lemma flow_flag_bits:
  "k < 32 \<Longrightarrow> bit (flags (nt_flow_drop_set fi d)) k \<longleftrightarrow> bit (flags fi) k \<or> 8 \<le> k \<and> k < 16 \<and> bit d k"
  "k < 32 \<Longrightarrow> bit (flags (nt_flow_drop_clr fi d)) k \<longleftrightarrow> bit (flags fi) k \<and> \<not> (8 \<le> k \<and> k < 16 \<and> bit d k)"
  "k < 32 \<Longrightarrow> bit (flags (nt_flow_accept_set fi d)) k \<longleftrightarrow> bit (flags fi) k \<or> 16 \<le> k \<and> k < 24 \<and> bit d k"
  "k < 32 \<Longrightarrow> bit (flags (nt_flow_accept_clr fi d)) k \<longleftrightarrow> bit (flags fi) k \<and> \<not> (16 \<le> k \<and> k < 24 \<and> bit d k)"
  "k < 32 \<Longrightarrow> bit (flags (nt_flow_audit_set fi)) k \<longleftrightarrow> bit (flags fi) k \<or> k = 3"
  "k < 32 \<Longrightarrow> bit (flags (nt_flow_audit_clr fi)) k \<longleftrightarrow> bit (flags fi) k \<and> k \<noteq> 3"
  "k < 32 \<Longrightarrow> bit (flags (nt_flow_audit_fin_set fi)) k \<longleftrightarrow> bit (flags fi) k \<or> k = 4"
  "k < 32 \<Longrightarrow> bit (flags (nt_flow_audit_fin_clr fi)) k \<longleftrightarrow> bit (flags fi) k \<and> k \<noteq> 4"
  "k < 32 \<Longrightarrow> bit (flags (nt_flow_control_fin_set fi)) k \<longleftrightarrow> bit (flags fi) k \<or> k = 5"
  "k < 32 \<Longrightarrow> bit (flags (nt_flow_control_fin_clr fi)) k \<longleftrightarrow> bit (flags fi) k \<and> k \<noteq> 5"
  by (auto simp: flag_op_defs bit_masks bit_flags bit_or_iff bit_and_iff bit_not_iff)

section \<open>Properties\<close>

text \<open>
  The drop and accept accessors confine themselves to their byte of the flag word: whatever
  argument they are given, setting or clearing drop reasons changes no accept, status or
  debug flag, setting or clearing accept reasons changes no drop, status or debug flag, and
  clearing the reasons just set on a flow without them restores it.
\<close>

theorem flow_flags_confined:
  "(\<forall>k < 32. \<not> (8 \<le> k \<and> k < 16) \<longrightarrow>
      bit (flags (nt_flow_drop_set fi d)) k = bit (flags fi) k \<and> bit (flags (nt_flow_drop_clr fi d)) k = bit (flags fi) k)
   \<and> (\<forall>k < 32. \<not> (16 \<le> k \<and> k < 24) \<longrightarrow>
      bit (flags (nt_flow_accept_set fi d)) k = bit (flags fi) k \<and> bit (flags (nt_flow_accept_clr fi d)) k = bit (flags fi) k)
   \<and> (\<not> nt_flow_droped fi \<longrightarrow> nt_flow_drop_clr (nt_flow_drop_set fi d) d = fi)
   \<and> (\<not> nt_flow_accepted fi \<longrightarrow> nt_flow_accept_clr (nt_flow_accept_set fi d) d = fi)"
proof (intro conjI)
  have eq: "fi' = fi" if "flags fi' = flags fi" "fi' = fi\<lparr>flags := flags fi'\<rparr>" for fi'
    using that by simp
  show "\<not> nt_flow_droped fi \<longrightarrow> nt_flow_drop_clr (nt_flow_drop_set fi d) d = fi"
  proof
    assume "\<not> nt_flow_droped fi"
    then have "flags (nt_flow_drop_clr (nt_flow_drop_set fi d) d) = flags fi"
      by (intro bit_word_eqI) (auto simp: flow_flag_bits flow_flag_iff)
    then show "nt_flow_drop_clr (nt_flow_drop_set fi d) d = fi"
      by (intro eq) (simp_all add: nt_flow_drop_clr_def nt_flow_drop_set_def)
  qed
  show "\<not> nt_flow_accepted fi \<longrightarrow> nt_flow_accept_clr (nt_flow_accept_set fi d) d = fi"
  proof
    assume "\<not> nt_flow_accepted fi"
    then have "flags (nt_flow_accept_clr (nt_flow_accept_set fi d) d) = flags fi"
      by (intro bit_word_eqI) (auto simp: flow_flag_bits flow_flag_iff)
    then show "nt_flow_accept_clr (nt_flow_accept_set fi d) d = fi"
      by (intro eq) (simp_all add: nt_flow_accept_clr_def nt_flow_accept_set_def)
  qed
qed (auto simp: flow_flag_bits)

definition demo_flow :: flow_info where
  "demo_flow = \<lparr>f_id = 3, f_magic = 2, tuple = \<lparr>ip_src = 1, ip_dst = 2, port_src = 3, port_dst = 80, tuple_proto = 6\<rparr>,
     flags = 0x20, f_proto = 77, nacs_magic = 0\<rparr>"

theorem flow_flags_confined_witness:
  "nt_flow_drop_clr (nt_flow_drop_set demo_flow 0xFFFFFFFF) 0xFFFFFFFF = demo_flow"
proof -
  have "\<not> nt_flow_droped demo_flow" by (simp add: nt_flow_droped_def demo_flow_def flag_defs)
  then show ?thesis using flow_flags_confined [of demo_flow "0xFFFFFFFF"] by blast
qed

text \<open>
  The areas of the private part are disjoint exactly for 4-byte pointers: on a 64-bit
  kernel the access control version overlaps the second half of the authentication pointer,
  because \<open>NT_FLOW_OFF_NACS\<close> adds the wrong size.
\<close>

theorem flow_private_overlap:
  "disjoint_areas (nt_flow_priv_authd ptr) nt_flow_priv_nacs \<longleftrightarrow> ptr \<le> 4"
  by (auto simp: disjoint_areas_def nt_flow_priv_authd_def nt_flow_priv_nacs_def NT_FLOW_OFF_AUTHD_def
      NT_FLOW_OFF_NACS_def sizeof_nt_flow_nproto_t_def sizeof_nt_flow_authd_t_def sizeof_nt_flow_nacs_t_def)

end
