(* ===== verification/Ctl_Device.thy ===== *)
theory Ctl_Device
  imports Prelude
begin

text \<open>
  The control devices of the \<open>nos\<close> module (\<open>nos_zone_ctl\<close>, \<open>nos_ipgrp_ctl\<close>,
  \<open>nos_auth_ctl\<close>) share one write path: the static buffer \<open>data[256]\<close> collects bytes
  until a newline, then the line is executed. The three \<open>*_write\<close> functions repeat the
  code; here it is \<open>ctl_write\<close>, with the device's line interpreter as an argument.
  The reference semantics is the byte-at-a-time reader \<open>ctl_step\<close>; \<open>write_all_eq_ctl_run\<close>
  shows that a writer that hands over a text piece by piece gets exactly that semantics.
\<close>

section \<open>The write path\<close>

text \<open>A line interpreter: the new device state and the error the handler returns, if any.\<close>

type_synonym 's exec = "'s \<Rightarrow> string \<Rightarrow> ('s \<times> errno option) run"

text \<open>\<open>pending\<close> holds \<open>data[0 .. data_left)\<close>.\<close>

record 's ctl =
  device :: 's
  pending :: string

definition CTL_BUF :: nat where
  "CTL_BUF = 256"

definition blank :: "char \<Rightarrow> bool" where
  "blank c \<longleftrightarrow> c = CHR '' '' \<or> c = newline \<or> c = CHR 0x09"

definition ctl_write :: "'s exec \<Rightarrow> bool \<Rightarrow> string \<Rightarrow> 's ctl \<Rightarrow> ('s ctl \<times> (errno + nat)) run" where
  "ctl_write exec copy_fails buf s =
     (let data_left = length (pending s);
          cnt = min (CTL_BUF - data_left) (length buf);
          data = pending s @ take cnt buf;
          n = length (takeWhile blank (take cnt data));
          l = length (takeWhile (\<lambda>c. c \<noteq> newline) (drop data_left data))
      in if copy_fails then Ret (s, Inl EACCES)
         else if n \<noteq> 0 then Ret (s\<lparr>pending := []\<rparr>, Inr n)
         else if l \<ge> cnt then
           (if data_left + l \<ge> CTL_BUF then Ret (s\<lparr>pending := []\<rparr>, Inl EINVAL)
            else Ret (s\<lparr>pending := data\<rparr>, Inr l))
         else
           run_bind (exec (device s) (cstr (take (l + data_left) data)))
             (\<lambda>(d, err). Ret (s\<lparr>device := d, pending := []\<rparr>,
                (case err of None \<Rightarrow> Inr (l + 1) | Some e \<Rightarrow> Inl e))))"

text \<open>
  A writer in user space: it repeats \<open>write\<close> with what is left until the text is consumed
  or a call fails.
\<close>

function write_all :: "'s exec \<Rightarrow> 's ctl \<Rightarrow> string \<Rightarrow> ('s ctl \<times> errno option) run" where
  "write_all exec s bs =
     (if bs = [] then Ret (s, None)
      else case ctl_write exec False bs s of
        Fault f \<Rightarrow> Fault f
      | Ret (s', Inl e) \<Rightarrow> Ret (s', Some e)
      | Ret (s', Inr k) \<Rightarrow> (if k = 0 then Ret (s', None) else write_all exec s' (drop k bs)))"
  by pat_completeness auto
termination
  by (relation "measure (\<lambda>(exec, s, bs). length bs)") auto

declare write_all.simps [simp del]

section \<open>The byte-at-a-time reader\<close>

definition ctl_step :: "'s exec \<Rightarrow> 's ctl \<Rightarrow> char \<Rightarrow> ('s ctl \<times> errno option) run" where
  "ctl_step exec s c =
     (if pending s = [] \<and> blank c then Ret (s, None)
      else if c = newline then
        run_bind (exec (device s) (cstr (pending s)))
          (\<lambda>(d, err). Ret (s\<lparr>device := d, pending := []\<rparr>, err))
      else if length (pending s) + 1 \<ge> CTL_BUF then Ret (s\<lparr>pending := []\<rparr>, Some EINVAL)
      else Ret (s\<lparr>pending := pending s @ [c]\<rparr>, None))"

fun ctl_run :: "'s exec \<Rightarrow> 's ctl \<Rightarrow> string \<Rightarrow> ('s ctl \<times> errno option) run" where
  "ctl_run exec s [] = Ret (s, None)"
| "ctl_run exec s (c # cs) =
     run_bind (ctl_step exec s c)
       (\<lambda>(s', err). case err of None \<Rightarrow> ctl_run exec s' cs | Some e \<Rightarrow> Ret (s', Some e))"

definition ctl_inv :: "'s ctl \<Rightarrow> bool" where
  "ctl_inv s \<longleftrightarrow> length (pending s) < CTL_BUF \<and> newline \<notin> set (pending s)
     \<and> (pending s \<noteq> [] \<longrightarrow> \<not> blank (hd (pending s)))"

lemma blank_newline [simp]: "blank newline"
  by (simp add: blank_def)

lemma ctl_run_append:
  "ctl_run exec s (xs @ ys) =
     run_bind (ctl_run exec s xs)
       (\<lambda>(s', err). case err of None \<Rightarrow> ctl_run exec s' ys | Some e \<Rightarrow> Ret (s', Some e))"
proof (induction xs arbitrary: s)
  case Nil
  then show ?case by simp
next
  case (Cons c cs)
  then show ?case
    by (cases "ctl_step exec s c") (auto split: option.splits)
qed

lemma ctl_run_blanks:
  "pending s = [] \<Longrightarrow> list_all blank xs \<Longrightarrow> ctl_run exec s xs = Ret (s, None)"
  by (induction xs) (auto simp: ctl_step_def)

text \<open>Bytes that are neither skipped nor a newline are collected.\<close>

lemma ctl_run_collect:
  assumes "newline \<notin> set xs" and "pending s = [] \<longrightarrow> xs = [] \<or> \<not> blank (hd xs)"
    and "length (pending s) + length xs < CTL_BUF"
  shows "ctl_run exec s xs = Ret (s\<lparr>pending := pending s @ xs\<rparr>, None)"
  using assms
proof (induction xs arbitrary: s)
  case Nil
  then show ?case by simp
next
  case (Cons c cs)
  have "ctl_step exec s c = Ret (s\<lparr>pending := pending s @ [c]\<rparr>, None)"
    using Cons.prems by (auto simp: ctl_step_def)
  moreover have "ctl_run exec (s\<lparr>pending := pending s @ [c]\<rparr>) cs =
      Ret (s\<lparr>pending := (pending s @ [c]) @ cs\<rparr>, None)"
    using Cons.IH [of "s\<lparr>pending := pending s @ [c]\<rparr>"] Cons.prems by simp
  ultimately show ?case by simp
qed


lemma takeWhile_len_ge: "length xs \<le> length (takeWhile P xs) \<Longrightarrow> \<forall>x \<in> set xs. P x"
  by (metis takeWhile_eq_all_conv takeWhile_eq_take take_all)

lemma run_case_eq:
  "run_bind m (\<lambda>(s', err). case err of None \<Rightarrow> f s' | Some e \<Rightarrow> Ret (s', Some e)) =
     (case m of Fault g \<Rightarrow> Fault g | Ret (s', None) \<Rightarrow> f s' | Ret (s', Some e) \<Rightarrow> Ret (s', Some e))"
  by (cases m) (auto split: option.splits)

section \<open>Refinement of the reader by the write path\<close>

text \<open>The three branches of \<open>ctl_write\<close>, each against the reader on the bytes it consumes.\<close>

lemma ctl_write_skip:
  assumes inv: "ctl_inv s" and ne: "bs \<noteq> []"
    and n: "length (takeWhile blank (take cnt (pending s @ take cnt bs))) = n" "n \<noteq> 0"
    and cnt: "cnt = min (CTL_BUF - length (pending s)) (length bs)"
  shows "pending s = []" and "ctl_run exec s (take n bs) = Ret (s, None)" and "n \<le> length bs"
proof -
  have cp: "0 < cnt" using inv ne cnt by (cases bs) (auto simp: ctl_inv_def)
  show p: "pending s = []"
  proof (rule ccontr)
    assume "pending s \<noteq> []"
    with inv have "\<not> blank (hd (pending s))" by (simp add: ctl_inv_def)
    moreover obtain x xs where "pending s = x # xs" using \<open>pending s \<noteq> []\<close> by (cases "pending s") auto
    moreover obtain m where "cnt = Suc m" using cp gr0_conv_Suc by blast
    ultimately show False using n by simp
  qed
  define w where "w = takeWhile blank (take cnt bs)"
  from p cnt n(1) have wn: "length w = n"
    by (simp add: w_def CTL_BUF_def min_def)
  have len: "length w \<le> length (take cnt bs)"
    unfolding w_def by (rule length_takeWhile_le)
  then have nc: "n \<le> cnt" "n \<le> length bs" using wn by auto
  have "w = take (length w) (take cnt bs)"
    unfolding w_def by (rule takeWhile_eq_take)
  with wn nc(1) have w: "w = take n bs" by (simp add: min_absorb1)
  have "list_all blank w" by (auto simp: w_def list_all_iff dest: set_takeWhileD)
  with p w show "ctl_run exec s (take n bs) = Ret (s, None)" by (simp add: ctl_run_blanks)
  show "n \<le> length bs" by (rule nc(2))
qed

lemma ctl_write_collect:
  assumes inv: "ctl_inv s" and ne: "bs \<noteq> []"
    and first: "pending s = [] \<Longrightarrow> \<not> blank (hd bs)"
    and nonl: "newline \<notin> set (take cnt bs)"
    and cnt: "cnt = min (CTL_BUF - length (pending s)) (length bs)"
  shows "length (pending s) + cnt \<ge> CTL_BUF \<Longrightarrow>
           ctl_run exec s (take cnt bs) = Ret (s\<lparr>pending := []\<rparr>, Some EINVAL)"
    and "length (pending s) + cnt < CTL_BUF \<Longrightarrow>
           ctl_run exec s (take cnt bs) = Ret (s\<lparr>pending := pending s @ take cnt bs\<rparr>, None)"
proof -
  have cp: "0 < cnt" "cnt \<le> length bs" using inv ne cnt by (cases bs; auto simp: ctl_inv_def)+
  have hd: "hd (take m bs) = hd bs" if "0 < m" for m using that ne by simp
  {
    assume full: "length (pending s) + cnt \<ge> CTL_BUF"
    obtain m where m: "cnt = Suc m" using cp gr0_conv_Suc by blast
    have eq: "length (pending s) + cnt = CTL_BUF" using full cnt inv by (auto simp: ctl_inv_def)
    let ?s = "s\<lparr>pending := pending s @ take m bs\<rparr>"
    have tk: "take cnt bs = take m bs @ [bs ! m]"
      using m cp by (simp add: take_Suc_conv_app_nth)
    have "newline \<notin> set (take m bs)" using nonl tk by auto
    then have "ctl_run exec s (take m bs) = Ret (?s, None)"
      using first hd [of m] eq m cp by (intro ctl_run_collect) auto
    moreover have "pending ?s = [] \<longrightarrow> \<not> blank (bs ! m)"
      using first hd_conv_nth [OF ne] ne by auto
    moreover have "bs ! m \<noteq> newline" using nonl tk by auto
    ultimately show "ctl_run exec s (take cnt bs) = Ret (s\<lparr>pending := []\<rparr>, Some EINVAL)"
      unfolding tk ctl_run_append using eq m cp by (auto simp: ctl_step_def)
  }
  assume "length (pending s) + cnt < CTL_BUF"
  then show "ctl_run exec s (take cnt bs) = Ret (s\<lparr>pending := pending s @ take cnt bs\<rparr>, None)"
    using nonl first hd cp by (intro ctl_run_collect) auto
qed

lemma ctl_write_line:
  assumes inv: "ctl_inv s" and l: "l < length bs" "bs ! l = newline" "newline \<notin> set (take l bs)"
    and room: "length (pending s) + l < CTL_BUF"
    and first: "pending s = [] \<Longrightarrow> \<not> blank (hd bs)"
  shows "ctl_run exec s (take (l + 1) bs) =
    run_bind (exec (device s) (cstr (pending s @ take l bs)))
      (\<lambda>(d, err). Ret (s\<lparr>device := d, pending := []\<rparr>, err))"
proof -
  have ne: "bs \<noteq> []" using l by auto
  have some: "pending s @ take l bs \<noteq> []"
  proof
    assume "pending s @ take l bs = []"
    then have "pending s = []" "l = 0" using ne by auto
    then show False using first l ne by (simp add: hd_conv_nth)
  qed
  have "ctl_run exec s (take l bs) = Ret (s\<lparr>pending := pending s @ take l bs\<rparr>, None)"
    using l room first ne by (intro ctl_run_collect) auto
  moreover have "take (l + 1) bs = take l bs @ [newline]"
    using l by (simp add: take_Suc_conv_app_nth)
  ultimately show ?thesis
    using some by (cases "exec (device s) (cstr (pending s @ take l bs))")
      (auto simp: ctl_run_append ctl_step_def split: option.splits)
qed


text \<open>
  One call of the write path, against the reader on the whole text: what the call consumed
  is what the reader does on it, and the reader goes on with the rest.
\<close>

lemma ctl_write_cases:
  assumes inv: "ctl_inv s" and ne: "bs \<noteq> []"
  obtains
    (ok) s' k where "ctl_write exec False bs s = Ret (s', Inr k)" "0 < k"
      "ctl_run exec s (take k bs) = Ret (s', None)" "ctl_inv s'"
  | (err) s' e k where "ctl_write exec False bs s = Ret (s', Inl e)"
      "ctl_run exec s (take k bs) = Ret (s', Some e)" "ctl_inv s'"
  | (fault) f k where "ctl_write exec False bs s = Fault f" "ctl_run exec s (take k bs) = Fault f"
proof -
  let ?p = "pending s"
  define cnt where "cnt = min (CTL_BUF - length ?p) (length bs)"
  define n where "n = length (takeWhile blank (take cnt (?p @ take cnt bs)))"
  define l where "l = length (takeWhile (\<lambda>c. c \<noteq> newline) (take cnt bs))"
  have lcnt: "l \<le> cnt" unfolding l_def by (metis length_takeWhile_le length_take min.bounded_iff)
  have cp: "0 < cnt" "cnt \<le> length bs" "length ?p + cnt \<le> CTL_BUF"
    using inv ne by (cases bs; auto simp: ctl_inv_def cnt_def)+
  have W: "ctl_write exec False bs s =
     (if n \<noteq> 0 then Ret (s\<lparr>pending := []\<rparr>, Inr n)
      else if l \<ge> cnt then
        (if length ?p + l \<ge> CTL_BUF then Ret (s\<lparr>pending := []\<rparr>, Inl EINVAL)
         else Ret (s\<lparr>pending := ?p @ take cnt bs\<rparr>, Inr l))
      else run_bind (exec (device s) (cstr (take (l + length ?p) (?p @ take cnt bs))))
             (\<lambda>(d, err). Ret (s\<lparr>device := d, pending := []\<rparr>,
                (case err of None \<Rightarrow> Inr (l + 1) | Some e \<Rightarrow> Inl e))))"
  proof -
    have "drop (length ?p) (?p @ take cnt bs) = take cnt bs" by simp
    then show ?thesis
      unfolding ctl_write_def Let_def cnt_def [symmetric] n_def [symmetric]
      by (simp only: l_def [symmetric] if_False)
  qed
  have first: "?p = [] \<Longrightarrow> \<not> blank (hd bs)" if "n = 0"
  proof -
    assume "?p = []"
    with that cp show ?thesis by (cases bs; cases cnt) (auto simp: n_def split: if_splits)
  qed
  consider (skip) "n \<noteq> 0" | (full) "n = 0" "l \<ge> cnt" | (line) "n = 0" "l < cnt" by linarith
  then show thesis
  proof cases
    case skip
    note sk = ctl_write_skip [OF inv ne n_def [symmetric] skip cnt_def]
    have "s\<lparr>pending := []\<rparr> = s" using sk(1) by simp
    with skip sk inv W show thesis by (intro ok [of s n]) auto
  next
    case full
    then have nonl: "newline \<notin> set (take cnt bs)" and "l = cnt"
      using takeWhile_len_ge [of "take cnt bs" "\<lambda>c. c \<noteq> newline"] lcnt cp by (auto simp: l_def)
    note co = ctl_write_collect [OF inv ne first [OF full(1)] nonl cnt_def]
    show thesis
    proof (cases "length ?p + cnt \<ge> CTL_BUF")
      case True
      with W full \<open>l = cnt\<close> co(1) show thesis
        by (intro err [of "s\<lparr>pending := []\<rparr>" EINVAL cnt]) (auto simp: ctl_inv_def CTL_BUF_def)
    next
      case False
      moreover have "?p = [] \<Longrightarrow> \<not> blank (hd (take cnt bs))"
        using first [OF full(1)] cp by simp
      ultimately show thesis
        using W full \<open>l = cnt\<close> co(2) nonl inv cp
        by (intro ok [of "s\<lparr>pending := ?p @ take cnt bs\<rparr>" cnt]) (auto simp: ctl_inv_def hd_append)
    qed
  next
    case line
    have tk: "takeWhile (\<lambda>c. c \<noteq> newline) (take cnt bs) = take l bs"
    proof -
      have "takeWhile (\<lambda>c. c \<noteq> newline) (take cnt bs) = take l (take cnt bs)"
        unfolding l_def by (rule takeWhile_eq_take)
      with line show ?thesis by (simp add: min_absorb1)
    qed
    have "bs ! l = newline"
      using line nth_length_takeWhile [of "\<lambda>c. c \<noteq> newline" "take cnt bs"] cp by (simp add: l_def)
    moreover have "newline \<notin> set (take l bs)"
      using tk set_takeWhileD [of _ "\<lambda>c. c \<noteq> newline" "take cnt bs"] by auto
    moreover have arg: "take (l + length ?p) (?p @ take cnt bs) = ?p @ take l bs"
      using line by (simp add: min_absorb1)
    ultimately have run: "ctl_run exec s (take (l + 1) bs) =
        run_bind (exec (device s) (cstr (?p @ take l bs)))
          (\<lambda>(d, err). Ret (s\<lparr>device := d, pending := []\<rparr>, err))"
      using line cp first by (intro ctl_write_line inv) auto
    have idle: "ctl_inv (s\<lparr>device := d, pending := []\<rparr>)" for d by (simp add: ctl_inv_def CTL_BUF_def)
    show thesis
    proof (cases "exec (device s) (cstr (?p @ take l bs))")
      case (Fault f)
      with line W arg run show thesis by (intro fault [of f "l + 1"]) auto
    next
      case (Ret r)
      obtain d err where "r = (d, err)" by (cases r)
      with Ret line W arg run idle show thesis
        by (cases err) (auto intro: ok [of _ "l + 1"] err [of _ _ "l + 1"])
    qed
  qed
qed

theorem write_all_eq_ctl_run: "ctl_inv s \<Longrightarrow> write_all exec s bs = ctl_run exec s bs"
proof (induction exec s bs rule: write_all.induct)
  case (1 exec s bs)
  show ?case
  proof (cases "bs = []")
    case True
    then show ?thesis by (simp add: write_all.simps)
  next
    case False
    have part: "ctl_run exec s bs = run_bind (ctl_run exec s (take k bs))
       (\<lambda>(s', err). case err of None \<Rightarrow> ctl_run exec s' (drop k bs) | Some e \<Rightarrow> Ret (s', Some e))" for k
      using ctl_run_append [of exec s "take k bs" "drop k bs"] by simp
    from "1.prems" False show ?thesis
    proof (cases rule: ctl_write_cases [of s bs exec])
      case (ok s' k)
      with "1.IH" [OF False ok(1) refl refl] part [of k] False show ?thesis
        by (simp add: write_all.simps [of exec s bs])
    next
      case (err s' e k)
      with part [of k] False show ?thesis by (simp add: write_all.simps [of exec s bs])
    next
      case (fault f k)
      with part [of k] False show ?thesis by (simp add: write_all.simps [of exec s bs])
    qed
  qed
qed

section \<open>Texts made of lines\<close>

text \<open>Lines the reader hands to the interpreter unchanged.\<close>

definition ok_line :: "string \<Rightarrow> bool" where
  "ok_line l \<longleftrightarrow> l \<noteq> [] \<and> \<not> blank (hd l) \<and> newline \<notin> set l \<and> CHR 0x00 \<notin> set l
     \<and> length l < CTL_BUF"

lemma ok_lineI [intro]:
  "\<not> blank c \<Longrightarrow> plain (c # l) \<Longrightarrow> length (c # l) < CTL_BUF \<Longrightarrow> ok_line (c # l)"
  by (auto simp: ok_line_def plain_def list_all_iff newline_def)

definition unlines :: "string list \<Rightarrow> string" where
  "unlines ls = concat (map (\<lambda>l. l @ [newline]) ls)"

fun exec_lines :: "'s exec \<Rightarrow> 's \<Rightarrow> string list \<Rightarrow> ('s \<times> errno option) run" where
  "exec_lines exec d [] = Ret (d, None)"
| "exec_lines exec d (l # ls) =
     run_bind (exec d l)
       (\<lambda>(d', err). case err of None \<Rightarrow> exec_lines exec d' ls | Some e \<Rightarrow> Ret (d', Some e))"

lemma unlines_simps [simp]:
  "unlines [] = []" "unlines (l # ls) = l @ newline # unlines ls"
  "unlines (ls @ ls') = unlines ls @ unlines ls'"
  by (simp_all add: unlines_def)

lemma exec_lines_append:
  "exec_lines exec d (ls @ ls') =
     run_bind (exec_lines exec d ls)
       (\<lambda>(d', err). case err of None \<Rightarrow> exec_lines exec d' ls' | Some e \<Rightarrow> Ret (d', Some e))"
proof (induction ls arbitrary: d)
  case Nil
  then show ?case by simp
next
  case (Cons l ls)
  then show ?case by (cases "exec d l") (auto split: option.splits)
qed

lemma ctl_run_one_line:
  assumes "pending s = []" and "ok_line l"
  shows "ctl_run exec s (l @ newline # rest) =
    run_bind (exec (device s) l)
      (\<lambda>(d, err). case err of None \<Rightarrow> ctl_run exec (s\<lparr>device := d\<rparr>) rest
                             | Some e \<Rightarrow> Ret (s\<lparr>device := d\<rparr>, Some e))"
proof -
  have "ctl_run exec s l = Ret (s\<lparr>pending := l\<rparr>, None)"
    using assms ctl_run_collect [of l s exec] by (simp add: ok_line_def)
  then show ?thesis
    using assms by (cases s; cases "exec (device s) l")
      (auto simp: ctl_run_append ctl_step_def ok_line_def split: option.splits)
qed

text \<open>Writing a text executes its non-empty lines in order, up to the first error.\<close>

lemma ctl_run_unlines:
  assumes "pending s = []" and "\<forall>l \<in> set ls. l = [] \<or> ok_line l"
  shows "ctl_run exec s (unlines ls) =
    run_bind (exec_lines exec (device s) (filter (\<lambda>l. l \<noteq> []) ls))
      (\<lambda>(d, err). Ret (s\<lparr>device := d\<rparr>, err))"
  using assms
proof (induction ls arbitrary: s)
  case Nil
  then show ?case by simp
next
  case (Cons l ls)
  show ?case
  proof (cases "l = []")
    case True
    have "ctl_step exec s newline = Ret (s, None)" using Cons.prems by (simp add: ctl_step_def)
    with True Cons show ?thesis by simp
  next
    case False
    have IH: "ctl_run exec (s\<lparr>device := d\<rparr>) (unlines ls) =
        run_bind (exec_lines exec d (filter (\<lambda>l. l \<noteq> []) ls))
          (\<lambda>(d, err). Ret (s\<lparr>device := d\<rparr>, err))" for d
      using Cons.IH [of "s\<lparr>device := d\<rparr>"] Cons.prems by simp
    have "ok_line l" using False Cons.prems by auto
    with False Cons.prems IH show ?thesis
      by (cases "exec (device s) l") (auto simp: ctl_run_one_line split: option.splits)
  qed
qed

corollary write_all_unlines:
  assumes "pending s = []" and "\<forall>l \<in> set ls. l = [] \<or> ok_line l"
  shows "write_all exec s (unlines ls) =
    run_bind (exec_lines exec (device s) (filter (\<lambda>l. l \<noteq> []) ls))
      (\<lambda>(d, err). Ret (s\<lparr>device := d\<rparr>, err))"
proof -
  have "ctl_inv s" using assms(1) by (simp add: ctl_inv_def CTL_BUF_def)
  then show ?thesis using assms by (simp add: write_all_eq_ctl_run ctl_run_unlines)
qed

section \<open>What every device gets from its interpreter\<close>

text \<open>
  The contract between the write path and a device: the interpreter keeps the device's
  invariant on every line it accepts or rejects.
\<close>

locale ctl_interpreter =
  fixes exec :: "'s exec"
    and inv :: "'s \<Rightarrow> bool"
  assumes exec_inv: "inv d \<Longrightarrow> exec d line = Ret (d', err) \<Longrightarrow> inv d'"
begin

lemma exec_lines_keeps: "inv d \<Longrightarrow> exec_lines exec d ls = Ret (d', err) \<Longrightarrow> inv d'"
proof (induction ls arbitrary: d)
  case Nil
  then show ?case by simp
next
  case (Cons l ls)
  then obtain d1 e1 where "exec d l = Ret (d1, e1)" by (auto simp: run_simps)
  with Cons show ?case by (auto split: option.splits dest: exec_inv)
qed

lemma ctl_step_keeps: "inv (device s) \<Longrightarrow> ctl_step exec s c = Ret (s', err) \<Longrightarrow> inv (device s')"
  by (auto simp: ctl_step_def run_simps split: if_splits dest: exec_inv)

lemma ctl_run_keeps: "inv (device s) \<Longrightarrow> ctl_run exec s bs = Ret (s', err) \<Longrightarrow> inv (device s')"
proof (induction bs arbitrary: s)
  case Nil
  then show ?case by simp
next
  case (Cons c cs)
  then obtain s1 e1 where "ctl_step exec s c = Ret (s1, e1)" by (auto simp: run_simps)
  with Cons show ?case by (auto split: option.splits dest: ctl_step_keeps)
qed

lemma ctl_write_keeps:
  "inv (device s) \<Longrightarrow> ctl_write exec cf bs s = Ret (s', r) \<Longrightarrow> inv (device s')"
  by (auto simp: ctl_write_def Let_def run_simps split: if_splits dest: exec_inv)

lemma write_all_keeps:
  assumes "inv (device s)" "ctl_inv s" "write_all exec s bs = Ret (s', err)"
  shows "inv (device s')"
  using assms ctl_run_keeps by (simp add: write_all_eq_ctl_run)

end

section \<open>Dumps\<close>

text \<open>
  Reading a device yields a text that starts with comments, the command \<open>clean\<close> and then
  one line per entry. A device that ignores comments and empties itself on \<open>clean\<close>
  executes such a text by running the entry lines from the empty table.
\<close>

lemma exec_lines_comments:
  assumes "\<And>d l. exec d (CHR ''#'' # l) = Ret (d, None)"
  shows "exec_lines exec d (map ((#) (CHR ''#'')) ls) = Ret (d, None)"
  by (induction ls) (simp_all add: assms)

locale ctl_dump =
  fixes exec :: "'s exec"
    and cleanup :: "'s \<Rightarrow> 's"
  assumes exec_comment: "exec d (CHR ''#'' # l) = Ret (d, None)"
    and exec_clean: "exec d ''clean'' = Ret (cleanup d, None)"
begin

lemma write_all_dump:
  assumes idle: "pending c = []"
    and usage: "filter (\<lambda>l. l \<noteq> []) usage = map ((#) (CHR ''#'')) cs @ [''clean'']"
    and usage_ok: "\<forall>l \<in> set usage. l = [] \<or> ok_line l"
    and items_ok: "\<forall>l \<in> set items. ok_line l"
    and run: "exec_lines exec (cleanup (device c)) items = Ret (d', None)"
  shows "write_all exec c (unlines (usage @ items)) = Ret (c\<lparr>device := d'\<rparr>, None)"
proof -
  have "\<forall>l \<in> set items. l \<noteq> []" using items_ok by (auto simp: ok_line_def)
  then have keep: "filter (\<lambda>l. l \<noteq> []) items = items" by (simp add: filter_id_conv)
  have "exec_lines exec (device c) (filter (\<lambda>l. l \<noteq> []) (usage @ items)) = Ret (d', None)"
    using run by (simp add: keep usage exec_lines_append exec_lines_comments exec_comment exec_clean)
  moreover have "\<forall>l \<in> set (usage @ items). l = [] \<or> ok_line l"
    using usage_ok items_ok by auto
  ultimately show ?thesis
    by (simp add: write_all_unlines [OF idle] del: unlines_simps)
qed

end

end
