(* ===== verification/Nos_Zone.thy ===== *)
theory Nos_Zone
  imports Ctl_Device Hook_Guard
begin

text \<open>
  \<open>drivers/nos/src/nos_zone.c\<close>: the table \<open>if_zone_map\<close> from interface indices to zone
  ids, its control device and the lookup the forwarding hook uses. The kernel's device
  table is the parameter \<open>net\<close>; \<open>dev_refs\<close> counts the \<open>net_device\<close> references the
  module holds (\<open>dev_get_by_name\<close>, \<open>dev_get_by_index\<close> take one, \<open>dev_put\<close> drops one).
\<close>

section \<open>State and operations\<close>

definition MAX_IF_INDEX :: nat where
  "MAX_IF_INDEX = 4096"

definition INVALID_ZONE_ID :: u32 where
  "INVALID_ZONE_ID = 255"

definition IFNAMSIZ :: nat where
  "IFNAMSIZ = 16"

record zone_t =
  z_id :: u32
  z_if_name :: string

record zone_conf = nos_global +
  if_zone_map :: "nat \<Rightarrow> u32"
  g_zone_conf_magic :: u16
  dev_refs :: int

text \<open>The interfaces of \<open>init_net\<close>: name to index, and index to name.\<close>

record netdevs =
  dev_get_by_name :: "string \<Rightarrow> nat option"
  dev_get_by_index :: "nat \<Rightarrow> string option"

definition zone_conf_init :: "zone_conf \<Rightarrow> zone_conf" where
  "zone_conf_init s = s\<lparr>if_zone_map := fold (\<lambda>i m. m(i := INVALID_ZONE_ID)) [0..<MAX_IF_INDEX] (if_zone_map s)\<rparr>"

definition nos_zone_cleanup :: "zone_conf \<Rightarrow> zone_conf" where
  "nos_zone_cleanup s =
     guarded (\<lambda>s. s\<lparr>if_zone_map := fold (\<lambda>i m. m(i := INVALID_ZONE_ID)) [0..<MAX_IF_INDEX] (if_zone_map s)\<rparr>) s"

definition zone_conf_exit :: "zone_conf \<Rightarrow> zone_conf" where
  "zone_conf_exit s = nos_zone_cleanup s"

definition dev_hold :: "zone_conf \<Rightarrow> zone_conf" where
  "dev_hold s = s\<lparr>dev_refs := dev_refs s + 1\<rparr>"

definition dev_put :: "zone_conf \<Rightarrow> zone_conf" where
  "dev_put s = s\<lparr>dev_refs := dev_refs s - 1\<rparr>"

definition nos_zone_set :: "netdevs \<Rightarrow> zone_t \<Rightarrow> zone_conf \<Rightarrow> zone_conf \<times> errno option" where
  "nos_zone_set net zone s =
     (if z_id zone \<ge> INVALID_ZONE_ID then (s, Some EINVAL)
      else case dev_get_by_name net (z_if_name zone) of
        None \<Rightarrow> (s, Some EINVAL)
      | Some ifindex \<Rightarrow>
          (let s = dev_hold s in
           if ifindex \<ge> MAX_IF_INDEX then (dev_put s, Some EINVAL)
           else
             (let s = guarded (\<lambda>s. s\<lparr>if_zone_map := (if_zone_map s)(ifindex := z_id zone)\<rparr>) s
              in (dev_put s, None))))"

text \<open>The loop of \<open>nos_zone_delete\<close>: every entry with the zid is reset, \<open>found\<close> is set.\<close>

definition zone_delete_loop :: "u32 \<Rightarrow> (nat \<Rightarrow> u32) \<Rightarrow> (nat \<Rightarrow> u32) \<times> bool" where
  "zone_delete_loop zid m =
     fold (\<lambda>i (m, found). if m i = zid then (m(i := INVALID_ZONE_ID), True) else (m, found))
       [0..<MAX_IF_INDEX] (m, False)"

definition nos_zone_delete :: "zone_t \<Rightarrow> zone_conf \<Rightarrow> zone_conf \<times> errno option" where
  "nos_zone_delete zone s =
     (let (m, found) = zone_delete_loop (z_id zone) (if_zone_map s);
          s' = guarded (\<lambda>s. s\<lparr>if_zone_map := m\<rparr>) s
      in (s', if found then None else Some ENOENT))"

definition nos_zone_match :: "zone_conf \<Rightarrow> nat \<Rightarrow> u32" where
  "nos_zone_match s ifindex =
     (if ifindex < MAX_IF_INDEX then if_zone_map s ifindex else INVALID_ZONE_ID)"

section \<open>Reading the device\<close>

definition nos_zone_get :: "zone_conf \<Rightarrow> nat \<Rightarrow> u32 option" where
  "nos_zone_get s idx = (if idx < MAX_IF_INDEX then Some (if_zone_map s idx) else None)"

definition zone_usage :: "u16 \<Rightarrow> string list" where
  "zone_usage magic =
     [''# Usage:'',
      ''#    zone <id>=<if_name> -- set interface zone'',
      ''#    delete <id> -- delete one zone'',
      ''#    clean -- remove all existing zone(s)'',
      ''#    update magic -- update the g_zone_conf_magic'',
      ''#'',
      ''# Info: #  VALID ZONE ID RANGE: 0~'' @ dec (unat (INVALID_ZONE_ID - 1)),
      ''#  MAX ZONE: '' @ dec (unat INVALID_ZONE_ID),
      ''#    g_zone_conf_magic='' @ dec (unat magic),
      ''#'',
      ''# Reload cmd:'',
      [],
      ''clean'',
      []]"

definition zone_line :: "u32 \<Rightarrow> string \<Rightarrow> string" where
  "zone_line zid name = ''zone '' @ dec (unat zid) @ ''='' @ name"

text \<open>
  What \<open>nos_zone_start\<close> leaves in \<open>nos_zone_ctl_buffer\<close> for a position (None is NULL,
  the end of the sequence); \<open>nos_zone_next\<close> increments the position first.
\<close>

definition nos_zone_start :: "netdevs \<Rightarrow> zone_conf \<Rightarrow> nat \<Rightarrow> string option" where
  "nos_zone_start net s pos =
     (if pos = 0 then Some (unlines (zone_usage (g_zone_conf_magic s)))
      else case nos_zone_get s (pos - 1) of
        None \<Rightarrow> None
      | Some zid \<Rightarrow>
          (if zid \<noteq> INVALID_ZONE_ID then
             (case dev_get_by_index net (pos - 1) of
                Some name \<Rightarrow> Some (unlines [zone_line zid name])
              | None \<Rightarrow> Some [])
           else Some []))"

definition nos_zone_next :: "netdevs \<Rightarrow> zone_conf \<Rightarrow> nat \<Rightarrow> string option" where
  "nos_zone_next net s pos = nos_zone_start net s (pos + 1)"

text \<open>A whole read: the sequence from position 0 until NULL, each item shown.\<close>

definition nos_zone_read :: "netdevs \<Rightarrow> zone_conf \<Rightarrow> string" where
  "nos_zone_read net s =
     concat (List.map_filter (nos_zone_start net s) [0..<MAX_IF_INDEX + 2])"

section \<open>Writing the device\<close>

text \<open>
  One line. \<open>%s\<close> stores into \<open>zone.if_name[IFNAMSIZ]\<close> without a width: a longer word
  writes past the structure on the stack.
\<close>

definition nos_zone_exec :: "netdevs \<Rightarrow> zone_conf exec" where
  "nos_zone_exec net s data =
     (if starts_with data ''clean'' then Ret (nos_zone_cleanup s, None)
      else if starts_with data ''zone '' then
        (case sscanf (fmt ''zone %u=%s\<newline>'') data of
           [ScanU zid, ScanS name] \<Rightarrow>
             (if length name \<ge> IFNAMSIZ then Fault Undefined
              else Ret (nos_zone_set net \<lparr>z_id = zid, z_if_name = name\<rparr> s))
         | _ \<Rightarrow> Ret (s, None))
      else if starts_with data ''delete '' then
        (case sscanf (fmt ''delete %u\<newline>'') data of
           [ScanU zid] \<Rightarrow> Ret (nos_zone_delete \<lparr>z_id = zid, z_if_name = []\<rparr> s)
         | _ \<Rightarrow> Ret (s, None))
      else if starts_with data ''update magic'' then
        Ret (s\<lparr>g_zone_conf_magic := g_zone_conf_magic s + 1\<rparr>, None)
      else Ret (s, None))"

definition nos_zone_write ::
  "netdevs \<Rightarrow> bool \<Rightarrow> string \<Rightarrow> zone_conf ctl \<Rightarrow> (zone_conf ctl \<times> (errno + nat)) run" where
  "nos_zone_write net = ctl_write (nos_zone_exec net)"

section \<open>Facts about the loops\<close>

lemma fold_upd_const: "fold (\<lambda>i m. m(i := c)) is m = (\<lambda>i. if i \<in> set is then c else m i)"
  by (induction "is" arbitrary: m) auto

lemma zone_delete_fold:
  assumes "distinct is"
  shows "fold (\<lambda>i (m, found). if m i = zid then (m(i := c), True) else (m, found)) is (m, found) =
    ((\<lambda>i. if i \<in> set is \<and> m i = zid then c else m i), found \<or> (\<exists>i \<in> set is. m i = zid))"
  using assms by (induction "is" arbitrary: m found) (auto simp: fun_eq_iff)

lemma zone_delete_loop_eq:
  "zone_delete_loop zid m =
     ((\<lambda>i. if i < MAX_IF_INDEX \<and> m i = zid then INVALID_ZONE_ID else m i),
      \<exists>i < MAX_IF_INDEX. m i = zid)"
  by (auto simp: zone_delete_loop_def zone_delete_fold)

lemma zone_cleanup_map [simp]:
  "if_zone_map (nos_zone_cleanup s) = (\<lambda>i. if i < MAX_IF_INDEX then INVALID_ZONE_ID else if_zone_map s i)"
  by (auto simp: nos_zone_cleanup_def guarded_def fold_upd_const fun_eq_iff)

lemma zone_cleanup_frame [simp]:
  "g_zone_conf_magic (nos_zone_cleanup s) = g_zone_conf_magic s"
  "dev_refs (nos_zone_cleanup s) = dev_refs s"
  "nos_hook_disable (nos_zone_cleanup s) = 0"
  by (simp_all add: nos_zone_cleanup_def guarded_def)

lemma nos_zone_set_ok:
  assumes "z_id z < INVALID_ZONE_ID" "dev_get_by_name net (z_if_name z) = Some i" "i < MAX_IF_INDEX"
  shows "nos_zone_set net z s = (s\<lparr>nos_hook_disable := 0, if_zone_map := (if_zone_map s)(i := z_id z)\<rparr>, None)"
  using assms by (simp add: nos_zone_set_def Let_def dev_put_def dev_hold_def guarded_def)

section \<open>Invariant\<close>

text \<open>
  Every entry is a valid zone id or 255, no device reference is held between operations,
  and the hooks are enabled.
\<close>

definition zone_inv :: "zone_conf \<Rightarrow> bool" where
  "zone_inv s \<longleftrightarrow> (\<forall>i < MAX_IF_INDEX. if_zone_map s i \<le> INVALID_ZONE_ID) \<and> dev_refs s = 0
     \<and> nos_hook_disable s = 0"

lemma nos_zone_set_inv: "zone_inv s \<Longrightarrow> nos_zone_set net z s = (s', e) \<Longrightarrow> zone_inv s'"
  by (auto simp: zone_inv_def nos_zone_set_def dev_hold_def dev_put_def guarded_def Let_def
      split: if_splits option.splits)

lemma nos_zone_delete_inv: "zone_inv s \<Longrightarrow> nos_zone_delete z s = (s', e) \<Longrightarrow> zone_inv s'"
  by (auto simp: zone_inv_def nos_zone_delete_def zone_delete_loop_eq guarded_def split: if_splits)

lemma nos_zone_cleanup_inv: "zone_inv s \<Longrightarrow> zone_inv (nos_zone_cleanup s)"
  by (auto simp: zone_inv_def)

lemma zone_magic_inv: "zone_inv s \<Longrightarrow> zone_inv (s\<lparr>g_zone_conf_magic := m\<rparr>)"
  by (simp add: zone_inv_def)

lemmas zone_invs = nos_zone_cleanup_inv nos_zone_set_inv nos_zone_delete_inv zone_magic_inv

lemma nos_zone_exec_inv:
  assumes "zone_inv s" "nos_zone_exec net s line = Ret (s', e)"
  shows "zone_inv s'"
  using assms
  by (auto simp: nos_zone_exec_def split: if_splits list.splits scanned.splits intro: zone_invs)

interpretation zone_ctl: ctl_interpreter "nos_zone_exec net" zone_inv for net
  by unfold_locales (rule nos_zone_exec_inv)


section \<open>Replaying what the device prints\<close>

definition zone_lines :: "netdevs \<Rightarrow> zone_conf \<Rightarrow> nat list \<Rightarrow> string list" where
  "zone_lines net s is = List.map_filter (\<lambda>i.
     if if_zone_map s i \<noteq> INVALID_ZONE_ID
     then map_option (zone_line (if_zone_map s i)) (dev_get_by_index net i) else None) is"

text \<open>An interface name as the kernel allows it: a non-empty word that fits \<open>IFNAMSIZ\<close>.\<close>

definition if_name_ok :: "string \<Rightarrow> bool" where
  "if_name_ok n \<longleftrightarrow> n \<noteq> [] \<and> length n < IFNAMSIZ \<and> (\<forall>c \<in> set n. \<not> is_space c \<and> c \<noteq> CHR 0x00)"

definition netdevs_know :: "netdevs \<Rightarrow> (nat \<Rightarrow> u32) \<Rightarrow> bool" where
  "netdevs_know net m \<longleftrightarrow> (\<forall>i < MAX_IF_INDEX. m i \<noteq> INVALID_ZONE_ID \<longrightarrow>
     (\<exists>n. dev_get_by_index net i = Some n \<and> dev_get_by_name net n = Some i \<and> if_name_ok n))"

lemma map_filter_concat:
  "concat (List.map_filter (\<lambda>i. Some (f i)) is) = concat (map f is)"
  by (induction "is") (auto simp: List.map_filter_simps)

lemma zone_lines_simps:
  "zone_lines net s [] = []"
  "zone_lines net s (i # is) =
     (if if_zone_map s i \<noteq> INVALID_ZONE_ID
      then (case dev_get_by_index net i of None \<Rightarrow> [] | Some n \<Rightarrow> [zone_line (if_zone_map s i) n])
      else []) @ zone_lines net s is"
  by (auto simp: zone_lines_def List.map_filter_simps split: option.splits)

lemma zone_read_items:
  assumes "\<forall>i \<in> set is. i < MAX_IF_INDEX"
  shows "concat (List.map_filter (nos_zone_start net s) (map Suc is)) = unlines (zone_lines net s is)"
  using assms
  by (induction "is")
     (auto simp: zone_lines_simps List.map_filter_simps nos_zone_start_def nos_zone_get_def split: option.splits)

lemma nos_zone_read_lines:
  "nos_zone_read net s =
     unlines (zone_usage (g_zone_conf_magic s) @ zone_lines net s [0..<MAX_IF_INDEX])"
proof -
  have "[0..<MAX_IF_INDEX + 2] = 0 # map Suc [0..<MAX_IF_INDEX] @ [Suc MAX_IF_INDEX]"
    by (rule upt_seq_positions)
  moreover have "nos_zone_start net s (Suc MAX_IF_INDEX) = None"
    by (simp add: nos_zone_start_def nos_zone_get_def)
  moreover have "nos_zone_start net s 0 = Some (unlines (zone_usage (g_zone_conf_magic s)))"
    by (simp add: nos_zone_start_def)
  ultimately show ?thesis
    using zone_read_items [of "[0..<MAX_IF_INDEX]" net s]
    by (simp add: nos_zone_read_def List.map_filter_simps)
qed

lemma zone_exec_comment: "nos_zone_exec net s (CHR ''#'' # l) = Ret (s, None)"
  by (simp add: nos_zone_exec_def scan_simps)

lemma zone_exec_clean: "nos_zone_exec net s ''clean'' = Ret (nos_zone_cleanup s, None)"
  by (simp add: nos_zone_exec_def scan_simps)

interpretation zone_dump: ctl_dump "nos_zone_exec net" nos_zone_cleanup for net
  by unfold_locales (rule zone_exec_comment zone_exec_clean)+

lemma zone_scan:
  assumes "n \<noteq> []" "\<forall>c \<in> set n. \<not> is_space c"
  shows "sscanf (fmt ''zone %u=%s\<newline>'') (zone_line zid n) = [ScanU zid, ScanS n]"
proof -
  have f: "fmt ''zone %u=%s\<newline>'' =
      map Lit ''zone'' @ [Spc, PctU, Lit (CHR ''=''), PctS, Spc]"
    by (simp add: scan_simps is_space_def cv_def)
  have "sscanf (PctU # Lit (CHR ''='') # ds) (dec (unat zid) @ CHR ''='' # n) =
      ScanU zid # sscanf ds n" for ds
    by (subst sscanf_PctU_dec) (auto simp: scan_simps)
  moreover have "sscanf [PctS, Spc] n = [ScanS n]"
    using sscanf_PctS_word [of n "[]" "[Spc]"] assms by (simp add: scan_simps)
  ultimately show ?thesis
    by (simp add: f zone_line_def sscanf.simps(1-3))
qed

lemma zone_exec_line:
  assumes "n \<noteq> []" "\<forall>c \<in> set n. \<not> is_space c"
  shows "nos_zone_exec net s (zone_line zid n) =
    (if length n \<ge> IFNAMSIZ then Fault Undefined
     else Ret (nos_zone_set net \<lparr>z_id = zid, z_if_name = n\<rparr> s))"
  using zone_scan [OF assms, of zid]
  by (simp add: nos_zone_exec_def zone_line_def starts_with.simps)


text \<open>The lines of a listing set their entries and nothing else.\<close>

lemma zone_exec_lines_set:
  assumes "netdevs_know net (if_zone_map s)" "zone_inv s" "\<forall>i \<in> set is. i < MAX_IF_INDEX"
  shows "\<exists>d'. exec_lines (nos_zone_exec net) d (zone_lines net s is) = Ret (d', None) \<and>
    (\<forall>i. if_zone_map d' i =
       (if i \<in> set is \<and> if_zone_map s i \<noteq> INVALID_ZONE_ID then if_zone_map s i else if_zone_map d i))"
  using assms(3)
proof (induction "is" arbitrary: d)
  case Nil
  then show ?case by (simp add: zone_lines_simps)
next
  case (Cons i "is")
  show ?case
  proof (cases "if_zone_map s i = INVALID_ZONE_ID")
    case True
    obtain d' where "exec_lines (nos_zone_exec net) d (zone_lines net s is) = Ret (d', None)"
      "\<forall>i. if_zone_map d' i =
         (if i \<in> set is \<and> if_zone_map s i \<noteq> INVALID_ZONE_ID then if_zone_map s i else if_zone_map d i)"
      using Cons.IH [of d] Cons.prems by auto
    with True show ?thesis by (intro exI [of _ d']) (auto simp: zone_lines_simps)
  next
    case False
    from Cons.prems have i: "i < MAX_IF_INDEX" by simp
    with False assms(1) obtain n where n: "dev_get_by_index net i = Some n"
      "dev_get_by_name net n = Some i" "if_name_ok n"
      by (auto simp: netdevs_know_def)
    have lt: "if_zone_map s i < INVALID_ZONE_ID"
      using assms(2) i False by (auto simp: zone_inv_def)
    define d1 where "d1 = d\<lparr>nos_hook_disable := 0, if_zone_map := (if_zone_map d)(i := if_zone_map s i)\<rparr>"
    have d1: "nos_zone_exec net d (zone_line (if_zone_map s i) n) = Ret (d1, None)"
      "if_zone_map d1 = (if_zone_map d)(i := if_zone_map s i)"
      using n(3) zone_exec_line [of n net d "if_zone_map s i"]
        nos_zone_set_ok [of "\<lparr>z_id = if_zone_map s i, z_if_name = n\<rparr>" net i d] lt n(2) i
      by (simp_all add: if_name_ok_def d1_def)
    obtain d' where "exec_lines (nos_zone_exec net) d1 (zone_lines net s is) = Ret (d', None)"
      "\<forall>i. if_zone_map d' i =
         (if i \<in> set is \<and> if_zone_map s i \<noteq> INVALID_ZONE_ID then if_zone_map s i else if_zone_map d1 i)"
      using Cons.IH [of d1] Cons.prems by auto
    with d1 n False show ?thesis
      by (intro exI [of _ d']) (auto simp: zone_lines_simps)
  qed
qed

lemma zone_usage_split:
  "filter (\<lambda>l. l \<noteq> []) (zone_usage m) = map ((#) (CHR ''#'')) (map tl (take 11 (zone_usage m))) @ [''clean'']"
  by (simp add: zone_usage_def)

lemma zone_usage_ok: "l \<in> set (zone_usage m) \<Longrightarrow> l = [] \<or> ok_line l"
  using length_dec_u16 [of m] length_dec_u32 [of INVALID_ZONE_ID] length_dec_u32 [of "INVALID_ZONE_ID - 1"]
  by (auto simp: zone_usage_def CTL_BUF_def blank_def newline_def)

lemma zone_lines_in:
  "l \<in> set (zone_lines net s is) \<Longrightarrow>
     \<exists>i \<in> set is. \<exists>n. l = zone_line (if_zone_map s i) n \<and> if_zone_map s i \<noteq> INVALID_ZONE_ID
       \<and> dev_get_by_index net i = Some n"
proof (induction "is")
  case Nil
  then show ?case by (simp add: zone_lines_simps)
next
  case (Cons i "is")
  then show ?case
    by (cases "if_zone_map s i = INVALID_ZONE_ID"; cases "dev_get_by_index net i")
       (auto simp: zone_lines_simps)
qed

lemma zone_lines_ok:
  assumes "netdevs_know net (if_zone_map s)" "\<forall>i \<in> set is. i < MAX_IF_INDEX"
    and "l \<in> set (zone_lines net s is)"
  shows "ok_line l"
proof -
  from zone_lines_in [OF assms(3)] assms(1,2) obtain i n where "l = zone_line (if_zone_map s i) n" "if_name_ok n"
    by (fastforce simp: netdevs_know_def)
  then have "plain l" "length l < CTL_BUF" "\<not> blank (CHR ''z'')" "l = CHR ''z'' # tl l"
    using length_dec_u32 [of "if_zone_map s i"] plain_word [of n]
    by (simp_all add: zone_line_def if_name_ok_def CTL_BUF_def IFNAMSIZ_def blank_def newline_def)
  then show ?thesis by (metis ok_lineI)
qed


section \<open>Properties\<close>

text \<open>
  C14: the control device's text is a faithful dump: writing what one reads from
  \<open>nos_zone_ctl\<close> back into the device (in any state) succeeds and restores every
  interface's zone, provided the configured interfaces still exist. This is what the
  listing's ``Reload cmd'' heading promises.
\<close>

theorem zone_reload_restores:
  assumes "netdevs_know net (if_zone_map s)" and "zone_inv s" and "pending c = []"
  shows "\<exists>c'. write_all (nos_zone_exec net) c (nos_zone_read net s) = Ret (c', None) \<and>
    (\<forall>i. nos_zone_match (device c') i = nos_zone_match s i)"
proof -
  let ?exec = "nos_zone_exec net"
  obtain d' where d': "exec_lines ?exec (nos_zone_cleanup (device c)) (zone_lines net s [0..<MAX_IF_INDEX]) = Ret (d', None)"
    "\<forall>i. if_zone_map d' i = (if i \<in> set [0..<MAX_IF_INDEX] \<and> if_zone_map s i \<noteq> INVALID_ZONE_ID
       then if_zone_map s i else if_zone_map (nos_zone_cleanup (device c)) i)"
    using zone_exec_lines_set [OF assms(1,2), of "[0..<MAX_IF_INDEX]" "nos_zone_cleanup (device c)"] by auto
  then have "write_all ?exec c (nos_zone_read net s) = Ret (c\<lparr>device := d'\<rparr>, None)"
    unfolding nos_zone_read_lines
    using zone_usage_ok zone_lines_ok [OF assms(1), of "[0..<MAX_IF_INDEX]"]
    by (intro zone_dump.write_all_dump [OF assms(3) zone_usage_split]) auto
  moreover have "\<forall>i. nos_zone_match d' i = nos_zone_match s i"
    using d'(2) by (auto simp: nos_zone_match_def)
  ultimately show ?thesis by simp
qed

definition zone_demo_net :: netdevs where
  "zone_demo_net = \<lparr>dev_get_by_name = (\<lambda>n. if n = ''br-lan'' then Some 7 else None),
                    dev_get_by_index = (\<lambda>i. if i = 7 then Some ''br-lan'' else None)\<rparr>"

definition zone_demo :: "u32 \<Rightarrow> zone_conf" where
  "zone_demo z = \<lparr>nos_hook_disable = 0, if_zone_map = (\<lambda>_. INVALID_ZONE_ID)(7 := z),
                  g_zone_conf_magic = 50855, dev_refs = 0\<rparr>"

theorem zone_reload_restores_witness:
  "\<exists>c'. write_all (nos_zone_exec zone_demo_net) \<lparr>device = zone_demo 9, pending = []\<rparr>
      (nos_zone_read zone_demo_net (zone_demo 3)) = Ret (c', None) \<and>
    (\<forall>i. nos_zone_match (device c') i = nos_zone_match (zone_demo 3) i)"
proof (rule zone_reload_restores)
  show "netdevs_know zone_demo_net (if_zone_map (zone_demo 3))"
    by (auto simp: netdevs_know_def zone_demo_net_def zone_demo_def if_name_ok_def IFNAMSIZ_def
        is_space_def cv_def INVALID_ZONE_ID_def)
  show "zone_inv (zone_demo 3)" by (simp add: zone_inv_def zone_demo_def INVALID_ZONE_ID_def)
qed simp

text \<open>
  Every write to the zone device, of any bytes in any pieces, keeps the table
  well-formed, leaves no \<open>net_device\<close> reference behind and re-enables the hooks.
\<close>

theorem zone_write_keeps_inv:
  assumes "zone_inv (device c)" and "nos_zone_write net cf bs c = Ret (c', r)"
  shows "zone_inv (device c')"
  using assms zone_ctl.ctl_write_keeps by (simp add: nos_zone_write_def)

theorem zone_write_keeps_inv_witness:
  "\<exists>c' r. nos_zone_write zone_demo_net False ''zone 3=br-lan\<newline>'' \<lparr>device = zone_demo 9, pending = []\<rparr>
     = Ret (c', r) \<and> zone_inv (device c')"
proof -
  let ?c = "\<lparr>device = zone_demo 9, pending = []\<rparr>"
  have inv: "zone_inv (device ?c)" by (simp add: zone_inv_def zone_demo_def INVALID_ZONE_ID_def)
  have "nos_zone_exec zone_demo_net (zone_demo 9) (zone_line 3 ''br-lan'') \<noteq> Fault f" for f
    using zone_exec_line [of "''br-lan''" zone_demo_net "zone_demo 9" 3]
    by (simp add: IFNAMSIZ_def is_space_def cv_def)
  moreover have "zone_line 3 ''br-lan'' = ''zone 3=br-lan''"
    by code_simp
  ultimately have "\<exists>c' r. nos_zone_write zone_demo_net False ''zone 3=br-lan\<newline>'' ?c = Ret (c', r)"
    by (cases "nos_zone_exec zone_demo_net (zone_demo 9) ''zone 3=br-lan''")
       (auto simp: nos_zone_write_def ctl_write_def CTL_BUF_def blank_def newline_def)
  then obtain c' r where "nos_zone_write zone_demo_net False ''zone 3=br-lan\<newline>'' ?c = Ret (c', r)" by blast
  with zone_write_keeps_inv [OF inv this] show ?thesis by blast
qed


text \<open>
  Setting an interface's zone succeeds exactly for a valid zone id and a known interface
  with a small enough index; it then changes the zone of that interface and of no other.
  Deleting a zone id takes every interface out of it, keeps all other assignments, and
  reports ENOENT exactly when no interface was in it.
\<close>

theorem zone_set_delete_match:
  "(let (s', e) = nos_zone_set net z s;
        ok = z_id z < INVALID_ZONE_ID \<and> (\<exists>i < MAX_IF_INDEX. dev_get_by_name net (z_if_name z) = Some i)
    in e = (if ok then None else Some EINVAL) \<and>
       nos_zone_match s' j =
         (if ok \<and> dev_get_by_name net (z_if_name z) = Some j then z_id z else nos_zone_match s j)) \<and>
   (let (s', e) = nos_zone_delete z s
    in e = (if \<exists>i < MAX_IF_INDEX. nos_zone_match s i = z_id z then None else Some ENOENT) \<and>
       nos_zone_match s' j = (if nos_zone_match s j = z_id z then INVALID_ZONE_ID else nos_zone_match s j))"
proof (intro conjI)
  show "let (s', e) = nos_zone_set net z s;
        ok = z_id z < INVALID_ZONE_ID \<and> (\<exists>i < MAX_IF_INDEX. dev_get_by_name net (z_if_name z) = Some i)
    in e = (if ok then None else Some EINVAL) \<and>
       nos_zone_match s' j =
         (if ok \<and> dev_get_by_name net (z_if_name z) = Some j then z_id z else nos_zone_match s j)"
    by (auto simp: nos_zone_set_def nos_zone_match_def guarded_def dev_hold_def dev_put_def Let_def
        not_less split: option.splits if_splits)
  show "let (s', e) = nos_zone_delete z s
    in e = (if \<exists>i < MAX_IF_INDEX. nos_zone_match s i = z_id z then None else Some ENOENT) \<and>
       nos_zone_match s' j = (if nos_zone_match s j = z_id z then INVALID_ZONE_ID else nos_zone_match s j)"
    by (auto simp: nos_zone_delete_def zone_delete_loop_eq nos_zone_match_def guarded_def)
qed

text \<open>
  A \<open>zone\<close> command whose interface name has 16 characters or more makes \<open>sscanf\<close>
  write past \<open>zone.if_name\<close> on the kernel stack, before the name is looked up.
\<close>

theorem zone_name_overflows_stack:
  assumes "\<forall>c \<in> set n. \<not> is_space c" and "length n \<ge> IFNAMSIZ"
  shows "nos_zone_exec net s (zone_line zid n) = Fault Undefined"
proof -
  have "n \<noteq> []" using assms(2) by (auto simp: IFNAMSIZ_def)
  then show ?thesis using assms by (simp add: zone_exec_line)
qed

theorem zone_name_overflows_stack_witness:
  "nos_zone_exec zone_demo_net (zone_demo 3) (zone_line 1 ''wlan-guest-24ghz'') = Fault Undefined"
  by (rule zone_name_overflows_stack) (auto simp: IFNAMSIZ_def is_space_def cv_def)

end
