(* ===== verification/Nos_Ipgrp.thy ===== *)
theory Nos_Ipgrp
  imports Ctl_Device Ipset_Refs
begin

text \<open>
  \<open>drivers/nos/src/nos_ipgrp.c\<close>: the table of ip groups (an id, and an ipset or ``@all''),
  its control device, and the computation of a packet's group mask. The array
  \<open>ipgrp[0 .. num)\<close> is the list \<open>ipgrps\<close>.
\<close>

section \<open>State and operations\<close>

definition MAX_IPGRP :: nat where
  "MAX_IPGRP = 64"

definition IPSET_INVALID_ID :: u32 where
  "IPSET_INVALID_ID = 65535"

record ip_grp_t =
  g_id :: u32
  g_ipset_id :: u32
  g_ipset_set :: "set_ptr option"

record ipgrp_conf = ipset_user +
  ipgrps :: "ip_grp_t list"
  g_ipgrp_conf_magic :: u16

definition ipgrp_conf_init :: "ipgrp_conf \<Rightarrow> ipgrp_conf" where
  "ipgrp_conf_init s = s\<lparr>ipgrps := []\<rparr>"

definition ipgrp_put :: "ip_grp_t \<Rightarrow> ipgrp_conf \<Rightarrow> ipgrp_conf" where
  "ipgrp_put g s = put_if (g_ipset_set g) (g_ipset_id g) s"

definition nos_ipgrp_cleanup :: "ipgrp_conf \<Rightarrow> ipgrp_conf" where
  "nos_ipgrp_cleanup s =
     guarded (\<lambda>s. (fold ipgrp_put (ipgrps s) s)\<lparr>ipgrps := []\<rparr>) s"

definition ipgrp_conf_exit :: "ipgrp_conf \<Rightarrow> ipgrp_conf" where
  "ipgrp_conf_exit s = nos_ipgrp_cleanup s"

definition nos_ipgrp_set :: "ip_grp_t \<Rightarrow> ipgrp_conf \<Rightarrow> ipgrp_conf \<times> errno option" where
  "nos_ipgrp_set g s =
     (if unat (g_id g) \<ge> MAX_IPGRP then (s, Some EINVAL)
      else if list_ex (\<lambda>e. g_id e = g_id g) (ipgrps s) then (s, Some EEXIST)
      else if length (ipgrps s) = MAX_IPGRP then (s, Some ENOSPC)
      else (guarded (\<lambda>s. s\<lparr>ipgrps := ipgrps s @ [g]\<rparr>) s, None))"

text \<open>The first entry with the id, and the array after the \<open>memmove\<close>.\<close>

fun ipgrp_take_out :: "u32 \<Rightarrow> ip_grp_t list \<Rightarrow> (ip_grp_t \<times> ip_grp_t list) option" where
  "ipgrp_take_out i [] = None"
| "ipgrp_take_out i (e # es) =
     (if g_id e = i then Some (e, es)
      else map_option (\<lambda>(x, xs). (x, e # xs)) (ipgrp_take_out i es))"

definition nos_ipgrp_delete :: "u32 \<Rightarrow> ipgrp_conf \<Rightarrow> ipgrp_conf \<times> errno option" where
  "nos_ipgrp_delete i s =
     (case ipgrp_take_out i (ipgrps s) of
        None \<Rightarrow> (s, Some ENOENT)
      | Some (e, es) \<Rightarrow> (guarded (\<lambda>s. (ipgrp_put e s)\<lparr>ipgrps := es\<rparr>) s, None))"

definition nos_ipgrp_match_src ::
  "'p ip_set_test \<Rightarrow> ipgrp_conf \<Rightarrow> net_device option \<Rightarrow> net_device option \<Rightarrow> 'p \<Rightarrow> u64" where
  "nos_ipgrp_match_src ip_set_test s din dout skb =
     fold (\<lambda>g bits.
         if g_ipset_set g = None then bits OR int_shl1 (g_id g)
         else if ip_set_test_src_ip ip_set_test din dout skb (g_ipset_id g) > 0
         then bits OR int_shl1 (g_id g)
         else bits)
       (ipgrps s) 0"

definition nos_ipgrp_match_dst ::
  "'p ip_set_test \<Rightarrow> ipgrp_conf \<Rightarrow> net_device option \<Rightarrow> net_device option \<Rightarrow> 'p \<Rightarrow> u64" where
  "nos_ipgrp_match_dst ip_set_test s din dout skb =
     fold (\<lambda>g bits.
         if g_ipset_set g = None then bits OR int_shl1 (g_id g)
         else if ip_set_test_dst_ip ip_set_test din dout skb (g_ipset_id g) > 0
         then bits OR int_shl1 (g_id g)
         else bits)
       (ipgrps s) 0"

section \<open>Reading the device\<close>

definition nos_ipgrp_get :: "ipgrp_conf \<Rightarrow> nat \<Rightarrow> ip_grp_t option" where
  "nos_ipgrp_get s idx = (if idx < length (ipgrps s) then Some (ipgrps s ! idx) else None)"

definition ipgrp_usage :: "u16 \<Rightarrow> string list" where
  "ipgrp_usage magic =
     [''# Usage:'',
      ''#    ipgrp <id>=<ipset_name> -- set one ipgrp'',
      ''#    ipgrp <id>=@all -- set all range 0.0.0.0~255.255.255.255'',
      ''#    delete <id> -- delete one ipgrp'',
      ''#    clean -- remove all existing ipgrp(s)'',
      ''#    update magic -- update the g_ipgrp_conf_magic'',
      ''#'',
      ''# Info: #  VALID IPGRP ID RANGE: 0~'' @ dec (MAX_IPGRP - 1),
      ''#  MAX IPGRP: '' @ dec MAX_IPGRP,
      ''#    g_ipgrp_conf_magic='' @ dec (unat magic),
      ''#'',
      ''# Reload cmd:'',
      [],
      ''clean'',
      []]"

definition ipgrp_line :: "ipsets \<Rightarrow> ip_grp_t \<Rightarrow> string" where
  "ipgrp_line ips g =
     ''ipgrp '' @ dec (unat (g_id g)) @ ''='' @
     (if g_ipset_set g = None then ''@all'' else ip_set_name_byindex ips (g_ipset_id g))"

definition nos_ipgrp_start :: "ipsets \<Rightarrow> ipgrp_conf \<Rightarrow> nat \<Rightarrow> string option" where
  "nos_ipgrp_start ips s pos =
     (if pos = 0 then Some (unlines (ipgrp_usage (g_ipgrp_conf_magic s)))
      else map_option (\<lambda>g. unlines [ipgrp_line ips g]) (nos_ipgrp_get s (pos - 1)))"

definition nos_ipgrp_next :: "ipsets \<Rightarrow> ipgrp_conf \<Rightarrow> nat \<Rightarrow> string option" where
  "nos_ipgrp_next ips s pos = nos_ipgrp_start ips s (pos + 1)"

text \<open>A whole read: the sequence from position 0 until NULL, each item shown.\<close>

definition nos_ipgrp_read :: "ipsets \<Rightarrow> ipgrp_conf \<Rightarrow> string" where
  "nos_ipgrp_read ips s =
     concat (List.map_filter (nos_ipgrp_start ips s) [0..<length (ipgrps s) + 2])"

section \<open>Writing the device\<close>

definition nos_ipgrp_exec :: "ipsets \<Rightarrow> ipgrp_conf exec" where
  "nos_ipgrp_exec ips s data =
     (if starts_with data ''clean'' then Ret (nos_ipgrp_cleanup s, None)
      else if starts_with data ''ipgrp '' then
        (case sscanf (fmt ''ipgrp %u=%s\<newline>'') data of
           [ScanU i, ScanS buf] \<Rightarrow>
             (if buf = ''@all'' then
                Ret (nos_ipgrp_set \<lparr>g_id = i, g_ipset_id = IPSET_INVALID_ID, g_ipset_set = None\<rparr> s)
              else case ip_set_get_byname ips buf of
                Some (sid, p) \<Rightarrow>
                  (case nos_ipgrp_set \<lparr>g_id = i, g_ipset_id = sid, g_ipset_set = Some p\<rparr> (log_ref (Get sid) s) of
                     (s', None) \<Rightarrow> Ret (s', None)
                   | (s', Some err) \<Rightarrow> Ret (log_ref (Put sid) s', Some err))
              | None \<Rightarrow> Ret (s, Some EINVAL))
         | _ \<Rightarrow> Ret (s, None))
      else if starts_with data ''delete '' then
        (case sscanf (fmt ''delete %u\<newline>'') data of
           [ScanU i] \<Rightarrow> Ret (nos_ipgrp_delete i s)
         | _ \<Rightarrow> Ret (s, None))
      else if starts_with data ''update magic'' then
        Ret (s\<lparr>g_ipgrp_conf_magic := g_ipgrp_conf_magic s + 1\<rparr>, None)
      else Ret (s, None))"

definition nos_ipgrp_write ::
  "ipsets \<Rightarrow> bool \<Rightarrow> string \<Rightarrow> ipgrp_conf ctl \<Rightarrow> (ipgrp_conf ctl \<times> (errno + nat)) run" where
  "nos_ipgrp_write ips = ctl_write (nos_ipgrp_exec ips)"

section \<open>Invariant\<close>

text \<open>
  At most 64 groups with distinct ids below 64; the module holds exactly one ipset
  reference per group that names a set; the hooks are enabled.
\<close>

definition ipgrp_refs :: "ip_grp_t list \<Rightarrow> u32 \<Rightarrow> int" where
  "ipgrp_refs gs i = (\<Sum>g\<leftarrow>gs. ref1 (g_ipset_set g) (g_ipset_id g) i)"

definition ipgrp_inv :: "ipgrp_conf \<Rightarrow> bool" where
  "ipgrp_inv s \<longleftrightarrow> length (ipgrps s) \<le> MAX_IPGRP \<and> distinct (map g_id (ipgrps s))
     \<and> (\<forall>g \<in> set (ipgrps s). unat (g_id g) < MAX_IPGRP)
     \<and> (\<forall>i. held (ipset_log s) i = ipgrp_refs (ipgrps s) i)
     \<and> nos_hook_disable s = 0"

lemma ipgrp_refs_simps [simp]:
  "ipgrp_refs [] i = 0"
  "ipgrp_refs (g # gs) i = ref1 (g_ipset_set g) (g_ipset_id g) i + ipgrp_refs gs i"
  "ipgrp_refs (gs @ hs) i = ipgrp_refs gs i + ipgrp_refs hs i"
  by (simp_all add: ipgrp_refs_def)

lemma held_fold_put:
  "held (ipset_log (fold ipgrp_put gs s)) i = held (ipset_log s) i - ipgrp_refs gs i"
  by (induction gs arbitrary: s) (simp_all add: ipgrp_put_def)

lemma ipgrp_put_frame [simp]:
  "nos_hook_disable (ipgrp_put g s) = nos_hook_disable s"
  "ipgrps (ipgrp_put g s) = ipgrps s"
  by (simp_all add: ipgrp_put_def put_if_def log_ref_def)

lemma ipset_log_hook_update [simp]:
  "ipset_log (s\<lparr>nos_hook_disable := b\<rparr>) = ipset_log s"
  by simp

lemma ipgrp_cleanup_inv: "ipgrp_inv s \<Longrightarrow> ipgrp_inv (nos_ipgrp_cleanup s)"
  by (simp add: ipgrp_inv_def nos_ipgrp_cleanup_def guarded_def held_fold_put)

lemma ipgrp_take_out_Some:
  "ipgrp_take_out i gs = Some (e, es) \<Longrightarrow>
     \<exists>xs ys. gs = xs @ e # ys \<and> es = xs @ ys \<and> g_id e = i \<and> i \<notin> g_id ` set xs"
proof (induction gs arbitrary: es)
  case Nil
  then show ?case by simp
next
  case (Cons g gs)
  show ?case
  proof (cases "g_id g = i")
    case True
    with Cons.prems show ?thesis by (intro exI [of _ "[]"] exI [of _ es]) auto
  next
    case False
    with Cons obtain xs ys zs where "gs = xs @ e # ys" "es = g # xs @ ys" "g_id e = i" "i \<notin> g_id ` set xs"
      by (fastforce split: prod.splits)
    with False show ?thesis by (intro exI [of _ "g # xs"] exI [of _ ys]) auto
  qed
qed

lemma ipgrp_take_out_None: "ipgrp_take_out i gs = None \<longleftrightarrow> i \<notin> g_id ` set gs"
  by (induction gs) auto

lemma ipgrp_delete_inv: "ipgrp_inv s \<Longrightarrow> nos_ipgrp_delete i s = (s', e) \<Longrightarrow> ipgrp_inv s'"
  by (auto simp: nos_ipgrp_delete_def ipgrp_inv_def guarded_def ipgrp_put_def
      split: option.splits dest!: ipgrp_take_out_Some)

text \<open>Adding a group: the caller owns one reference to its set, which the table takes over.\<close>

definition owes :: "ip_grp_t \<Rightarrow> ipgrp_conf \<Rightarrow> bool" where
  "owes g s \<longleftrightarrow> length (ipgrps s) \<le> MAX_IPGRP \<and> distinct (map g_id (ipgrps s))
     \<and> (\<forall>g \<in> set (ipgrps s). unat (g_id g) < MAX_IPGRP)
     \<and> (\<forall>i. held (ipset_log s) i = ipgrp_refs (ipgrps s) i + ref1 (g_ipset_set g) (g_ipset_id g) i)
     \<and> nos_hook_disable s = 0"

lemma ipgrp_set_inv:
  assumes "owes g s" "nos_ipgrp_set g s = (s', e)"
  shows "if e = None then ipgrp_inv s' else s' = s"
  using assms
  by (fastforce simp: nos_ipgrp_set_def owes_def ipgrp_inv_def guarded_def list_ex_iff split: if_splits)

lemma ipgrp_exec_inv:
  assumes inv: "ipgrp_inv s" and ex: "nos_ipgrp_exec ips s line = Ret (s', e)"
  shows "ipgrp_inv s'"
proof -
  have everyone: "nos_ipgrp_set \<lparr>g_id = i, g_ipset_id = j, g_ipset_set = None\<rparr> s = (t, r) \<Longrightarrow> ipgrp_inv t" for i j t r
    using ipgrp_set_inv [of "\<lparr>g_id = i, g_ipset_id = j, g_ipset_set = None\<rparr>" s t r] inv
    by (auto simp: owes_def ipgrp_inv_def ref1_def split: if_splits)
  have owned: "owes \<lparr>g_id = i, g_ipset_id = j, g_ipset_set = Some p\<rparr> (log_ref (Get j) s)" for i j p
    using inv by (auto simp: owes_def ipgrp_inv_def ref1_def log_ref_def)
  have undo: "ipgrp_inv (log_ref (Put j) (log_ref (Get j) s))" for j
    using inv by (simp add: ipgrp_inv_def log_ref_def)
  have magic: "ipgrp_inv (s\<lparr>g_ipgrp_conf_magic := m\<rparr>)" for m
    using inv by (simp add: ipgrp_inv_def)
  note set_named = ipgrp_set_inv [OF owned]
  from ex inv show ?thesis
    by (auto simp: nos_ipgrp_exec_def everyone magic
        split: if_splits list.splits scanned.splits option.splits prod.splits
        dest: ipgrp_delete_inv everyone intro: ipgrp_cleanup_inv dest!: set_named)
       (auto simp: undo)
qed

interpretation ipgrp_ctl: ctl_interpreter "nos_ipgrp_exec ips" ipgrp_inv for ips
  by unfold_locales (rule ipgrp_exec_inv)

section \<open>Replaying what the device prints\<close>

text \<open>
  The ipset names behind the groups, as the kernel's ipset keeps them: the name leads back
  to the same set, is a word of less than 32 bytes and is not the reserved \<open>@all\<close>.
\<close>

definition ipset_name_ok :: "string \<Rightarrow> bool" where
  "ipset_name_ok n \<longleftrightarrow> n \<noteq> [] \<and> n \<noteq> ''@all'' \<and> length n < 32
     \<and> (\<forall>c \<in> set n. \<not> is_space c \<and> c \<noteq> CHR 0x00)"

definition ipsets_know :: "ipsets \<Rightarrow> ip_grp_t list \<Rightarrow> bool" where
  "ipsets_know ips gs \<longleftrightarrow> (\<forall>g \<in> set gs. g_ipset_set g = None \<and> g_ipset_id g = IPSET_INVALID_ID
     \<or> (\<exists>p. g_ipset_set g = Some p \<and> ipset_name_ok (ip_set_name_byindex ips (g_ipset_id g))
          \<and> ip_set_get_byname ips (ip_set_name_byindex ips (g_ipset_id g)) = Some (g_ipset_id g, p)))"

lemma ipgrp_read_items:
  "concat (List.map_filter (nos_ipgrp_start ips s) (map Suc [0..<length (ipgrps s)])) =
     unlines (map (ipgrp_line ips) (ipgrps s))"
proof -
  have "List.map_filter (nos_ipgrp_start ips s) (map Suc is) =
      map (\<lambda>g. unlines [ipgrp_line ips g]) (map ((!) (ipgrps s)) is)"
    if "\<forall>i \<in> set is. i < length (ipgrps s)" for "is"
    using that by (induction "is") (simp_all add: List.map_filter_simps nos_ipgrp_start_def nos_ipgrp_get_def)
  from this [of "[0..<length (ipgrps s)]"] show ?thesis
    by (simp add: map_nth unlines_def comp_def)
qed

lemma nos_ipgrp_read_lines:
  "nos_ipgrp_read ips s =
     unlines (ipgrp_usage (g_ipgrp_conf_magic s) @ map (ipgrp_line ips) (ipgrps s))"
proof -
  let ?n = "length (ipgrps s)"
  have "[0..<?n + 2] = 0 # map Suc [0..<?n] @ [Suc ?n]"
    by (rule upt_seq_positions)
  moreover have "nos_ipgrp_start ips s (Suc ?n) = None"
    by (simp add: nos_ipgrp_start_def nos_ipgrp_get_def)
  moreover have "nos_ipgrp_start ips s 0 = Some (unlines (ipgrp_usage (g_ipgrp_conf_magic s)))"
    by (simp add: nos_ipgrp_start_def)
  ultimately show ?thesis
    using ipgrp_read_items [of ips s] by (simp add: nos_ipgrp_read_def List.map_filter_simps)
qed

interpretation ipgrp_dump: ctl_dump "nos_ipgrp_exec ips" nos_ipgrp_cleanup for ips
  by unfold_locales (simp_all add: nos_ipgrp_exec_def scan_simps)

lemma ipgrp_usage_split:
  "filter (\<lambda>l. l \<noteq> []) (ipgrp_usage m) = map ((#) (CHR ''#'')) (map tl (take 12 (ipgrp_usage m))) @ [''clean'']"
  by (simp add: ipgrp_usage_def)

lemma ipgrp_usage_ok: "l \<in> set (ipgrp_usage m) \<Longrightarrow> l = [] \<or> ok_line l"
  using length_dec_u16 [of m] length_dec_u32 [of 63] length_dec_u32 [of 64]
  by (auto simp: ipgrp_usage_def CTL_BUF_def MAX_IPGRP_def blank_def newline_def)

lemma ipgrp_scan:
  assumes "n \<noteq> []" "\<forall>c \<in> set n. \<not> is_space c"
  shows "sscanf (fmt ''ipgrp %u=%s\<newline>'') (''ipgrp '' @ dec (unat i) @ ''='' @ n) = [ScanU i, ScanS n]"
proof -
  have f: "fmt ''ipgrp %u=%s\<newline>'' = map Lit ''ipgrp'' @ [Spc, PctU, Lit (CHR ''=''), PctS, Spc]"
    by (simp add: scan_simps is_space_def cv_def)
  have "sscanf (PctU # Lit (CHR ''='') # ds) (dec (unat i) @ CHR ''='' # n) = ScanU i # sscanf ds n" for ds
    by (subst sscanf_PctU_dec) (auto simp: scan_simps)
  moreover have "sscanf [PctS, Spc] n = [ScanS n]"
    using sscanf_PctS_word [of n "[]" "[Spc]"] assms by (simp add: scan_simps)
  ultimately show ?thesis by (simp add: f sscanf.simps(1-3))
qed

lemma all_word: "''@all'' \<noteq> []" "\<forall>c \<in> set ''@all''. \<not> is_space c"
  by (simp_all add: is_space_def cv_def)

text \<open>The line of one group adds that group.\<close>

lemma ipgrp_exec_line:
  assumes "ipsets_know ips [g]" and "unat (g_id g) < MAX_IPGRP"
    and "g_id g \<notin> g_id ` set (ipgrps s)" and "length (ipgrps s) < MAX_IPGRP"
  shows "\<exists>s'. nos_ipgrp_exec ips s (ipgrp_line ips g) = Ret (s', None) \<and> ipgrps s' = ipgrps s @ [g]"
proof -
  have set_ok: "nos_ipgrp_set g t = (guarded (\<lambda>s. s\<lparr>ipgrps := ipgrps s @ [g]\<rparr>) t, None)"
    if "ipgrps t = ipgrps s" for t
    using that assms(2-4) by (auto simp: nos_ipgrp_set_def list_ex_iff image_iff)
  show ?thesis
  proof (cases "g_ipset_set g")
    case None
    with assms(1) have "g = \<lparr>g_id = g_id g, g_ipset_id = IPSET_INVALID_ID, g_ipset_set = None\<rparr>"
      by (simp add: ipsets_know_def)
    with None set_ok [of s] ipgrp_scan [OF all_word, of "g_id g"] show ?thesis
      by (simp add: nos_ipgrp_exec_def ipgrp_line_def starts_with.simps guarded_def)
  next
    case (Some p)
    define n where "n = ip_set_name_byindex ips (g_ipset_id g)"
    from Some assms(1) have n: "ipset_name_ok n" "ip_set_get_byname ips n = Some (g_ipset_id g, p)"
      by (simp_all add: ipsets_know_def n_def)
    from Some have g: "\<lparr>g_id = g_id g, g_ipset_id = g_ipset_id g, g_ipset_set = Some p\<rparr> = g" by (cases g) simp
    with Some n set_ok [of "log_ref (Get (g_ipset_id g)) s"] ipgrp_scan [of n "g_id g"] show ?thesis
      by (simp add: nos_ipgrp_exec_def ipgrp_line_def starts_with.simps guarded_def ipset_name_ok_def
          n_def [symmetric] log_ref_def g)
  qed
qed

lemma ipgrp_exec_lines_add:
  assumes "ipsets_know ips gs" and "\<forall>g \<in> set gs. unat (g_id g) < MAX_IPGRP"
    and "distinct (map g_id (ipgrps d @ gs))" and "length (ipgrps d @ gs) \<le> MAX_IPGRP"
  shows "\<exists>d'. exec_lines (nos_ipgrp_exec ips) d (map (ipgrp_line ips) gs) = Ret (d', None)
    \<and> ipgrps d' = ipgrps d @ gs"
  using assms
proof (induction gs arbitrary: d)
  case Nil
  then show ?case by simp
next
  case (Cons g gs)
  obtain d1 where d1: "nos_ipgrp_exec ips d (ipgrp_line ips g) = Ret (d1, None)" "ipgrps d1 = ipgrps d @ [g]"
    using ipgrp_exec_line [of ips g d] Cons.prems by (auto simp: ipsets_know_def)
  have "\<exists>d'. exec_lines (nos_ipgrp_exec ips) d1 (map (ipgrp_line ips) gs) = Ret (d', None)
      \<and> ipgrps d' = ipgrps d1 @ gs"
    using Cons.prems d1(2) by (intro Cons.IH) (auto simp: ipsets_know_def)
  with d1 show ?case by auto
qed

lemma ipgrp_line_ok: "ipsets_know ips gs \<Longrightarrow> g \<in> set gs \<Longrightarrow> ok_line (ipgrp_line ips g)"
proof -
  assume "ipsets_know ips gs" "g \<in> set gs"
  then have "plain (ipgrp_line ips g)" "length (ipgrp_line ips g) < CTL_BUF"
    using length_dec_u32 [of "g_id g"] plain_word [of "ip_set_name_byindex ips (g_ipset_id g)"]
    by (auto simp: ipsets_know_def ipgrp_line_def ipset_name_ok_def CTL_BUF_def)
  moreover have "ipgrp_line ips g = CHR ''i'' # tl (ipgrp_line ips g)" "\<not> blank (CHR ''i'')"
    by (simp_all add: ipgrp_line_def blank_def newline_def)
  ultimately show ?thesis by (metis ok_lineI)
qed

section \<open>The mask\<close>

text \<open>What the mask is meant to be: bit \<open>k\<close> is set when the group with id \<open>k\<close> matches.\<close>

definition grp_hit :: "('p ip_set_test \<Rightarrow> net_device option \<Rightarrow> net_device option \<Rightarrow> 'p \<Rightarrow> u32 \<Rightarrow> int)
    \<Rightarrow> 'p ip_set_test \<Rightarrow> net_device option \<Rightarrow> net_device option \<Rightarrow> 'p \<Rightarrow> ip_grp_t \<Rightarrow> bool" where
  "grp_hit test ip_set_test din dout skb g \<longleftrightarrow>
     g_ipset_set g = None \<or> test ip_set_test din dout skb (g_ipset_id g) > 0"

lemma bit_fold_or:
  "bit (fold (\<lambda>g bits. if h g then bits OR m g else bits) gs (b :: u64)) k
     \<longleftrightarrow> bit b k \<or> (\<exists>g \<in> set gs. h g \<and> bit (m g) k)"
  by (induction gs arbitrary: b) (auto simp: bit_or_iff)

lemma ipgrp_match_bits:
  "bit (nos_ipgrp_match_src t s din dout skb) k \<longleftrightarrow>
     (\<exists>g \<in> set (ipgrps s). grp_hit ip_set_test_src_ip t din dout skb g \<and> bit (int_shl1 (g_id g)) k)"
  "bit (nos_ipgrp_match_dst t s din dout skb) k \<longleftrightarrow>
     (\<exists>g \<in> set (ipgrps s). grp_hit ip_set_test_dst_ip t din dout skb g \<and> bit (int_shl1 (g_id g)) k)"
proof -
  have or_if: "(if a then x else if b then x else y) = (if a \<or> b then x else y)" for a b and x y :: u64
    by simp
  show "bit (nos_ipgrp_match_src t s din dout skb) k \<longleftrightarrow>
     (\<exists>g \<in> set (ipgrps s). grp_hit ip_set_test_src_ip t din dout skb g \<and> bit (int_shl1 (g_id g)) k)"
    "bit (nos_ipgrp_match_dst t s din dout skb) k \<longleftrightarrow>
     (\<exists>g \<in> set (ipgrps s). grp_hit ip_set_test_dst_ip t din dout skb g \<and> bit (int_shl1 (g_id g)) k)"
    by (simp_all add: nos_ipgrp_match_src_def nos_ipgrp_match_dst_def or_if bit_fold_or grp_hit_def)
qed

section \<open>Properties\<close>

text \<open>
  The ip group device's dump restores the table: writing what one reads from
  \<open>nos_ipgrp_ctl\<close> back, in any state of the device, succeeds and leaves exactly the same
  groups in the same order, as long as the ipsets still carry their names.
\<close>

theorem ipgrp_reload_restores:
  assumes "ipsets_know ips (ipgrps s)" and "ipgrp_inv s" and "pending c = []"
  shows "\<exists>c'. write_all (nos_ipgrp_exec ips) c (nos_ipgrp_read ips s) = Ret (c', None)
    \<and> ipgrps (device c') = ipgrps s"
proof -
  have empty: "ipgrps (nos_ipgrp_cleanup (device c)) = []"
    by (simp add: nos_ipgrp_cleanup_def guarded_def)
  obtain d' where "exec_lines (nos_ipgrp_exec ips) (nos_ipgrp_cleanup (device c)) (map (ipgrp_line ips) (ipgrps s))
      = Ret (d', None)" and d': "ipgrps d' = ipgrps s"
    using ipgrp_exec_lines_add [of ips "ipgrps s" "nos_ipgrp_cleanup (device c)"] assms(1,2)
    by (auto simp: ipgrp_inv_def empty)
  then have "write_all (nos_ipgrp_exec ips) c (nos_ipgrp_read ips s) = Ret (c\<lparr>device := d'\<rparr>, None)"
    unfolding nos_ipgrp_read_lines
    using ipgrp_usage_ok ipgrp_line_ok [OF assms(1)]
    by (intro ipgrp_dump.write_all_dump [OF assms(3) ipgrp_usage_split]) auto
  with d' show ?thesis by simp
qed

definition ipgrp_demo_sets :: ipsets where
  "ipgrp_demo_sets = \<lparr>ip_set_get_byname = (\<lambda>n. if n = ''lan_hosts'' then Some (4, 4096) else None),
                      ip_set_name_byindex = (\<lambda>i. if i = 4 then ''lan_hosts'' else [])\<rparr>"

definition ipgrp_demo :: ipgrp_conf where
  "ipgrp_demo = \<lparr>nos_hook_disable = 0, ipset_log = [Get 4],
     ipgrps = [\<lparr>g_id = 0, g_ipset_id = IPSET_INVALID_ID, g_ipset_set = None\<rparr>,
               \<lparr>g_id = 5, g_ipset_id = 4, g_ipset_set = Some 4096\<rparr>],
     g_ipgrp_conf_magic = 50855\<rparr>"

lemma ipgrp_demo_inv: "ipgrp_inv ipgrp_demo"
  by (simp add: ipgrp_inv_def ipgrp_demo_def MAX_IPGRP_def ref1_def)

theorem ipgrp_reload_restores_witness:
  "\<exists>c'. write_all (nos_ipgrp_exec ipgrp_demo_sets) \<lparr>device = ipgrp_demo, pending = []\<rparr>
      (nos_ipgrp_read ipgrp_demo_sets ipgrp_demo) = Ret (c', None)
    \<and> ipgrps (device c') = ipgrps ipgrp_demo"
proof (rule ipgrp_reload_restores)
  show "ipsets_know ipgrp_demo_sets (ipgrps ipgrp_demo)"
    by (simp add: ipsets_know_def ipgrp_demo_def ipgrp_demo_sets_def ipset_name_ok_def is_space_def cv_def)
qed (simp_all add: ipgrp_demo_inv)

text \<open>
  C13: whatever bytes are written to the ip group device, in whatever pieces, the table keeps
  at most 64 groups with distinct valid ids, and the module owns exactly one reference
  to each ipset per group that uses it: none is leaked on a rejected command and none is
  dropped twice on \<open>delete\<close> or \<open>clean\<close>.
\<close>

theorem ipgrp_write_keeps_inv:
  assumes "ipgrp_inv (device c)" and "nos_ipgrp_write ips cf bs c = Ret (c', r)"
  shows "ipgrp_inv (device c')"
  using assms ipgrp_ctl.ctl_write_keeps by (simp add: nos_ipgrp_write_def)

lemma ipgrp_exec_returns: "\<exists>r. nos_ipgrp_exec ips s l = Ret r"
  by (auto simp: nos_ipgrp_exec_def split: list.splits scanned.splits option.splits prod.splits)

theorem ipgrp_write_keeps_inv_witness:
  "\<exists>c' r. nos_ipgrp_write ipgrp_demo_sets False ''ipgrp 5=lan_hosts\<newline>'' \<lparr>device = ipgrp_demo, pending = []\<rparr>
     = Ret (c', r) \<and> ipgrp_inv (device c')"
proof -
  let ?c = "\<lparr>device = ipgrp_demo, pending = []\<rparr>"
  obtain d e where "nos_ipgrp_exec ipgrp_demo_sets ipgrp_demo ''ipgrp 5=lan_hosts'' = Ret (d, e)"
    using ipgrp_exec_returns by fastforce
  then obtain c' r where "nos_ipgrp_write ipgrp_demo_sets False ''ipgrp 5=lan_hosts\<newline>'' ?c = Ret (c', r)"
    by (cases e) (auto simp: nos_ipgrp_write_def ctl_write_def CTL_BUF_def blank_def newline_def)
  with ipgrp_write_keeps_inv [OF _ this] ipgrp_demo_inv show ?thesis by auto
qed

text \<open>
  For groups with ids below 31 the masks are exact: bit \<open>k\<close> of the source (destination)
  mask is set exactly when the group with id \<open>k\<close> is \<open>@all\<close> or its ipset contains the
  packet's source (destination) address.
\<close>

theorem ipgrp_mask_exact:
  assumes "\<forall>g \<in> set (ipgrps s). unat (g_id g) < 31"
  shows "(bit (nos_ipgrp_match_src t s din dout skb) k \<longleftrightarrow>
      (\<exists>g \<in> set (ipgrps s). unat (g_id g) = k \<and> grp_hit ip_set_test_src_ip t din dout skb g))
    \<and> (bit (nos_ipgrp_match_dst t s din dout skb) k \<longleftrightarrow>
      (\<exists>g \<in> set (ipgrps s). unat (g_id g) = k \<and> grp_hit ip_set_test_dst_ip t din dout skb g))"
  using assms by (auto simp: ipgrp_match_bits bit_int_shl1_small)

theorem ipgrp_mask_exact_witness:
  "bit (nos_ipgrp_match_src (\<lambda>i skb par opt. if i = 4 \<and> skb = (7 :: nat) then 1 else 0) ipgrp_demo None None 7) 5"
  using ipgrp_mask_exact [of ipgrp_demo "\<lambda>i skb par opt. if i = 4 \<and> skb = (7 :: nat) then 1 else 0" None None 7 5]
  by (simp add: ipgrp_demo_def grp_hit_def ip_set_test_src_ip_def)

text \<open>
  Ids 31 to 63 are accepted by \<open>nos_ipgrp_set\<close> but not by the mask: the group with
  id 31 sets bits 31 to 63, so a packet appears to be in all those groups, and a group with
  an id from 32 to 62 sets the bit of the group 32 below and not its own.
\<close>

theorem ipgrp_mask_wraps:
  assumes "ipgrps s = [\<lparr>g_id = i, g_ipset_id = IPSET_INVALID_ID, g_ipset_set = None\<rparr>]"
    and "31 \<le> unat i" and "unat i < MAX_IPGRP"
  shows "bit (nos_ipgrp_match_src t s din dout skb) k \<longleftrightarrow>
    (if unat i = 31 \<or> unat i = 63 then 31 \<le> k \<and> k < 64 else k = unat i - 32)"
proof -
  have "unat i mod 32 = (if unat i = 31 then 31 else unat i - 32)"
    using assms(2,3) by (auto simp: MAX_IPGRP_def mod_if)
  then show ?thesis
    using assms by (auto simp: ipgrp_match_bits grp_hit_def bit_int_shl1 MAX_IPGRP_def split: if_splits)
qed

theorem ipgrp_mask_wraps_witness:
  "nos_ipgrp_set \<lparr>g_id = 33, g_ipset_id = IPSET_INVALID_ID, g_ipset_set = None\<rparr> (ipgrp_demo\<lparr>ipgrps := []\<rparr>)
     = (ipgrp_demo\<lparr>ipgrps := [\<lparr>g_id = 33, g_ipset_id = IPSET_INVALID_ID, g_ipset_set = None\<rparr>]\<rparr>, None)
   \<and> bit (nos_ipgrp_match_src (\<lambda>i (skb :: nat) par opt. 0)
       (ipgrp_demo\<lparr>ipgrps := [\<lparr>g_id = 33, g_ipset_id = IPSET_INVALID_ID, g_ipset_set = None\<rparr>]\<rparr>) None None 0) 1"
  using ipgrp_mask_wraps [of "ipgrp_demo\<lparr>ipgrps := [\<lparr>g_id = 33, g_ipset_id = IPSET_INVALID_ID, g_ipset_set = None\<rparr>]\<rparr>"
      33 "\<lambda>i skb par opt. 0" None None 0 1]
  by (simp add: MAX_IPGRP_def nos_ipgrp_set_def guarded_def ipgrp_demo_def)

end
