(* ===== verification/Nos_Auth.thy ===== *)
theory Nos_Auth
  imports Nos_Zone Nos_Ipgrp
begin

text \<open>
  \<open>drivers/nos/src/nos_auth.c\<close>, the configuration half: the table of authentication
  rules, the global list of destinations that need no authentication, and the control
  device. The packet path is in theory \<open>Auth_Hook\<close>.
\<close>

section \<open>State and operations\<close>

definition MAX_AUTH :: nat where
  "MAX_AUTH = 16"

definition AUTH_TYPE_UNKNOWN :: u32 where "AUTH_TYPE_UNKNOWN = 0"

definition AUTH_TYPE_AUTO :: u32 where "AUTH_TYPE_AUTO = 1"

definition AUTH_TYPE_WEB :: u32 where "AUTH_TYPE_WEB = 2"

record auth_rule_t =
  a_id :: u32
  src_zone_id :: u32
  src_ipgrp_id :: u32
  auth_type :: u32
  ip_white_list_id :: u32
  mac_white_list_id :: u32
  ip_white_list_set :: "set_ptr option"
  mac_white_list_set :: "set_ptr option"

text \<open>
  \<open>redirect_ip\<close> is kept as the four bytes in memory (it is stored with \<open>htonl\<close> and
  printed with \<open>%pI4\<close>, which reads the bytes).
\<close>

record auth_conf = ipset_user +
  auths :: "auth_rule_t list"
  bypass_dst_list_id :: u32
  bypass_dst_list_set :: "set_ptr option"
  g_auth_conf_magic :: u16
  redirect_ip :: "u32 list"
  nos_auth_no_flow_timeout :: u32

definition auth_conf_init :: "auth_conf \<Rightarrow> auth_conf" where
  "auth_conf_init s = s\<lparr>auths := [], bypass_dst_list_id := 0, bypass_dst_list_set := None\<rparr>"

definition auth_put :: "auth_rule_t \<Rightarrow> auth_conf \<Rightarrow> auth_conf" where
  "auth_put a s =
     put_if (mac_white_list_set a) (mac_white_list_id a)
       (put_if (ip_white_list_set a) (ip_white_list_id a) s)"

definition nos_auth_cleanup :: "auth_conf \<Rightarrow> auth_conf" where
  "nos_auth_cleanup s =
     guarded (\<lambda>s. auth_conf_init
       (fold auth_put (auths s) (put_if (bypass_dst_list_set s) (bypass_dst_list_id s) s))) s"

definition auth_conf_exit :: "auth_conf \<Rightarrow> auth_conf" where
  "auth_conf_exit s = nos_auth_cleanup s"

definition nos_auth_set :: "auth_rule_t \<Rightarrow> auth_conf \<Rightarrow> auth_conf \<times> errno option" where
  "nos_auth_set a s =
     (if unat (a_id a) \<ge> MAX_AUTH then (s, Some EINVAL)
      else if src_zone_id a \<ge> INVALID_ZONE_ID then (s, Some EINVAL)
      else if unat (src_ipgrp_id a) \<ge> MAX_IPGRP then (s, Some EINVAL)
      else if list_ex (\<lambda>e. a_id e = a_id a) (auths s) then (s, Some EEXIST)
      else if length (auths s) = MAX_AUTH then (s, Some ENOSPC)
      else (guarded (\<lambda>s. s\<lparr>auths := auths s @ [a]\<rparr>) s, None))"

fun auth_take_out :: "u32 \<Rightarrow> auth_rule_t list \<Rightarrow> (auth_rule_t \<times> auth_rule_t list) option" where
  "auth_take_out i [] = None"
| "auth_take_out i (e # es) =
     (if a_id e = i then Some (e, es)
      else map_option (\<lambda>(x, xs). (x, e # xs)) (auth_take_out i es))"

definition nos_auth_delete :: "u32 \<Rightarrow> auth_conf \<Rightarrow> auth_conf \<times> errno option" where
  "nos_auth_delete i s =
     (case auth_take_out i (auths s) of
        None \<Rightarrow> (s, Some ENOENT)
      | Some (e, es) \<Rightarrow> (guarded (\<lambda>s. (auth_put e s)\<lparr>auths := es\<rparr>) s, None))"

section \<open>Reading the device\<close>

definition nos_auth_get :: "auth_conf \<Rightarrow> nat \<Rightarrow> auth_rule_t option" where
  "nos_auth_get s idx = (if idx < length (auths s) then Some (auths s ! idx) else None)"

text \<open>\<open>%pI4\<close> of four bytes in memory.\<close>

definition pI4 :: "u32 list \<Rightarrow> string" where
  "pI4 bs = (case map (\<lambda>b. dec (unat b)) bs of
     [a, b, c, d] \<Rightarrow> a @ ''.'' @ b @ ''.'' @ c @ ''.'' @ d | _ \<Rightarrow> [])"

definition auth_usage :: "ipsets \<Rightarrow> auth_conf \<Rightarrow> string list" where
  "auth_usage ips s =
     [''# Usage:'',
      ''#    auth id=<id>,szone=<idx>,sipgrp=<idx>,type=web/auto[,ipwhite=<name>][,macwhite=<name>] -- set one auth'',
      ''#    delete <id> -- delete one auth'',
      ''#    clean -- remove all existing auth(s)'',
      ''#    redirect_ip=a.b.c.d -- set the redirect ip'',
      ''#    update magic -- update the g_auth_conf_magic'',
      ''#'',
      ''# Info:'',
      ''#    redirect_ip='' @ pI4 (redirect_ip s),
      ''#    no_flow_timeout='' @ dec (unat (nos_auth_no_flow_timeout s)),
      ''#    auth_global_bypass_dst_ip='' @
        (if bypass_dst_list_set s \<noteq> None then ip_set_name_byindex ips (bypass_dst_list_id s) else []),
      ''#    g_auth_conf_magic='' @ dec (unat (g_auth_conf_magic s)),
      ''#'',
      ''# Reload cmd:'',
      [],
      ''clean'',
      []]"

definition auth_line :: "ipsets \<Rightarrow> auth_rule_t \<Rightarrow> string" where
  "auth_line ips a =
     ''auth id='' @ dec (unat (a_id a)) @ '',szone='' @ dec (unat (src_zone_id a)) @
     '',sipgrp='' @ dec (unat (src_ipgrp_id a)) @
     '',type='' @ (if auth_type a = AUTH_TYPE_AUTO then ''auto'' else ''web'') @
     (if ip_white_list_set a \<noteq> None
      then '',ipwhite='' @ ip_set_name_byindex ips (ip_white_list_id a) else []) @
     (if mac_white_list_set a \<noteq> None
      then '',macwhite='' @ ip_set_name_byindex ips (mac_white_list_id a) else [])"

definition nos_auth_start :: "ipsets \<Rightarrow> auth_conf \<Rightarrow> nat \<Rightarrow> string option" where
  "nos_auth_start ips s pos =
     (if pos = 0 then Some (unlines (auth_usage ips s))
      else map_option (\<lambda>a. unlines [auth_line ips a]) (nos_auth_get s (pos - 1)))"

definition nos_auth_next :: "ipsets \<Rightarrow> auth_conf \<Rightarrow> nat \<Rightarrow> string option" where
  "nos_auth_next ips s pos = nos_auth_start ips s (pos + 1)"

definition nos_auth_read :: "ipsets \<Rightarrow> auth_conf \<Rightarrow> string" where
  "nos_auth_read ips s =
     concat (List.map_filter (nos_auth_start ips s) [0..<length (auths s) + 2])"

section \<open>Writing the device\<close>

text \<open>The value of an optional field: what follows the key, up to a comma or the end.\<close>

definition white_name :: "string \<Rightarrow> string \<Rightarrow> string" where
  "white_name key data =
     (case strstr data key of
        None \<Rightarrow> []
      | Some p \<Rightarrow> takeWhile (\<lambda>c. c \<noteq> CHR '','') (drop (length key) p))"

text \<open>
  Resolving a white list: Some when the field is absent or empty, or the set exists (a
  reference is then taken and handed to \<open>store\<close>); None is the error exit.
\<close>

definition get_white ::
  "ipsets \<Rightarrow> string \<Rightarrow> (u32 \<Rightarrow> set_ptr \<Rightarrow> auth_rule_t \<Rightarrow> auth_rule_t) \<Rightarrow>
     auth_conf \<times> auth_rule_t \<Rightarrow> (auth_conf \<times> auth_rule_t) option" where
  "get_white ips name store sa =
     (if name = [] then Some sa
      else case ip_set_get_byname ips name of
        Some (i, p) \<Rightarrow> Some (log_ref (Get i) (fst sa), store i p (snd sa))
      | None \<Rightarrow> None)"

definition store_ip :: "u32 \<Rightarrow> set_ptr \<Rightarrow> auth_rule_t \<Rightarrow> auth_rule_t" where
  "store_ip i p a = a\<lparr>ip_white_list_id := i, ip_white_list_set := Some p\<rparr>"

definition store_mac :: "u32 \<Rightarrow> set_ptr \<Rightarrow> auth_rule_t \<Rightarrow> auth_rule_t" where
  "store_mac i p a = a\<lparr>mac_white_list_id := i, mac_white_list_set := Some p\<rparr>"

text \<open>The body of the \<open>do ... while (0)\<close>; the last component is \<open>err\<close>.\<close>

definition auth_fields ::
  "ipsets \<Rightarrow> string \<Rightarrow> auth_conf \<times> auth_rule_t \<Rightarrow> (auth_conf \<times> auth_rule_t) \<times> errno option" where
  "auth_fields ips data sa =
     (case strstr data '',type='' of
        None \<Rightarrow> (sa, Some EINVAL)
      | Some p \<Rightarrow>
          (let p = drop 6 p in
           if starts_with p ''web'' \<or> starts_with p ''auto'' then
             (let ty = (if starts_with p ''web'' then AUTH_TYPE_WEB else AUTH_TYPE_AUTO);
                  sa = (fst sa, (snd sa)\<lparr>auth_type := ty\<rparr>)
              in case get_white ips (white_name '',ipwhite='' data) store_ip sa of
                   None \<Rightarrow> (sa, Some EINVAL)
                 | Some sa \<Rightarrow>
                     (case get_white ips (white_name '',macwhite='' data) store_mac sa of
                        None \<Rightarrow> (sa, Some EINVAL)
                      | Some sa \<Rightarrow> (sa, None)))
           else (sa, Some EINVAL)))"

definition auth_blank :: "u32 \<Rightarrow> u32 \<Rightarrow> u32 \<Rightarrow> auth_rule_t" where
  "auth_blank i z g =
     \<lparr>a_id = i, src_zone_id = z, src_ipgrp_id = g, auth_type = 0, ip_white_list_id = 0,
      mac_white_list_id = 0, ip_white_list_set = None, mac_white_list_set = None\<rparr>"

definition auth_add :: "ipsets \<Rightarrow> string \<Rightarrow> auth_rule_t \<Rightarrow> auth_conf \<Rightarrow> auth_conf \<times> errno option" where
  "auth_add ips data a s =
     (case auth_fields ips data (s, a) of
        ((s, a), None) \<Rightarrow>
          (case nos_auth_set a s of
             (s, None) \<Rightarrow> (s, None)
           | (s, Some err) \<Rightarrow> (auth_put a s, Some err))
      | ((s, a), Some err) \<Rightarrow> (auth_put a s, Some err))"

definition set_bypass_dst :: "u32 \<Rightarrow> set_ptr \<Rightarrow> auth_conf \<Rightarrow> auth_conf" where
  "set_bypass_dst i p s =
     guarded (\<lambda>s. (put_if (bypass_dst_list_set s) (bypass_dst_list_id s) s)
       \<lparr>bypass_dst_list_id := i, bypass_dst_list_set := Some p\<rparr>) (log_ref (Get i) s)"

definition nos_auth_exec :: "ipsets \<Rightarrow> auth_conf exec" where
  "nos_auth_exec ips s data = Ret
     (if starts_with data ''clean'' then (nos_auth_cleanup s, None)
      else if starts_with data ''auth id='' then
        (case sscanf (fmt ''auth id=%u,szone=%u,sipgrp=%u'') data of
           [ScanU i, ScanU z, ScanU g] \<Rightarrow> auth_add ips data (auth_blank i z g) s
         | _ \<Rightarrow> (s, None))
      else if starts_with data ''delete '' then
        (case sscanf (fmt ''delete %u\<newline>'') data of
           [ScanU i] \<Rightarrow> nos_auth_delete i s
         | _ \<Rightarrow> (s, None))
      else if starts_with data ''redirect_ip='' then
        (case sscanf (fmt ''redirect_ip=%u.%u.%u.%u'') data of
           [ScanU a, ScanU b, ScanU c, ScanU d] \<Rightarrow>
             (if a AND 255 = a \<and> b AND 255 = b \<and> c AND 255 = c \<and> d AND 255 = d
              then (s\<lparr>redirect_ip := [a, b, c, d]\<rparr>, None)
              else (s, None))
         | _ \<Rightarrow> (s, None))
      else if starts_with data ''no_flow_timeout='' then
        (case sscanf (fmt ''no_flow_timeout=%u'') data of
           [ScanU a] \<Rightarrow> (s\<lparr>nos_auth_no_flow_timeout := a\<rparr>, None)
         | _ \<Rightarrow> (s, None))
      else if starts_with data ''update magic'' then
        (s\<lparr>g_auth_conf_magic := g_auth_conf_magic s + 1\<rparr>, None)
      else if starts_with data ''auth_global_bypass_dst_ip='' then
        (case sscanf (fmt ''auth_global_bypass_dst_ip=%s\<newline>'') data of
           [ScanS buf] \<Rightarrow>
             (if buf = [] then (s, None)
              else case ip_set_get_byname ips buf of
                Some (i, p) \<Rightarrow> (set_bypass_dst i p s, None)
              | None \<Rightarrow> (s, Some EINVAL))
         | _ \<Rightarrow> (s, None))
      else (s, None))"

definition nos_auth_write ::
  "ipsets \<Rightarrow> bool \<Rightarrow> string \<Rightarrow> auth_conf ctl \<Rightarrow> (auth_conf ctl \<times> (errno + nat)) run" where
  "nos_auth_write ips = ctl_write (nos_auth_exec ips)"

section \<open>Invariant\<close>

definition rule_ref :: "auth_rule_t \<Rightarrow> u32 \<Rightarrow> int" where
  "rule_ref a i = ref1 (ip_white_list_set a) (ip_white_list_id a) i
     + ref1 (mac_white_list_set a) (mac_white_list_id a) i"

definition auth_refs :: "auth_conf \<Rightarrow> u32 \<Rightarrow> int" where
  "auth_refs s i = ref1 (bypass_dst_list_set s) (bypass_dst_list_id s) i
     + (\<Sum>a\<leftarrow>auths s. rule_ref a i)"

definition auth_rule_ok :: "auth_rule_t \<Rightarrow> bool" where
  "auth_rule_ok a \<longleftrightarrow> unat (a_id a) < MAX_AUTH \<and> src_zone_id a < INVALID_ZONE_ID
     \<and> unat (src_ipgrp_id a) < MAX_IPGRP \<and> auth_type a \<in> {AUTH_TYPE_AUTO, AUTH_TYPE_WEB}"

text \<open>
  At most 16 rules with distinct ids, each within its ranges and of a known type; the module
  owns exactly the ipset references its white lists and the bypass list account for; four
  octets in the redirect address; the hooks are enabled. \<open>extra\<close> stands for references
  a command in progress owns.
\<close>

definition auth_inv_with :: "(u32 \<Rightarrow> int) \<Rightarrow> auth_conf \<Rightarrow> bool" where
  "auth_inv_with extra s \<longleftrightarrow> length (auths s) \<le> MAX_AUTH \<and> distinct (map a_id (auths s))
     \<and> (\<forall>a \<in> set (auths s). auth_rule_ok a)
     \<and> (\<forall>i. held (ipset_log s) i = auth_refs s i + extra i)
     \<and> length (redirect_ip s) = 4 \<and> (\<forall>b \<in> set (redirect_ip s). b \<le> 255)
     \<and> nos_hook_disable s = 0"

definition auth_inv :: "auth_conf \<Rightarrow> bool" where
  "auth_inv s \<longleftrightarrow> auth_inv_with (\<lambda>_. 0) s"

lemma held_auth_put [simp]:
  "held (ipset_log (auth_put a s)) i = held (ipset_log s) i - rule_ref a i"
  by (simp add: auth_put_def rule_ref_def)

lemma auth_put_frame [simp]:
  "nos_hook_disable (auth_put a s) = nos_hook_disable s" "auths (auth_put a s) = auths s"
  "bypass_dst_list_set (auth_put a s) = bypass_dst_list_set s"
  "bypass_dst_list_id (auth_put a s) = bypass_dst_list_id s"
  "redirect_ip (auth_put a s) = redirect_ip s"
  by (simp_all add: auth_put_def put_if_def log_ref_def)

lemma put_if_auth_frame [simp]:
  "auths (put_if p i s) = auths s" "redirect_ip (put_if p i s) = redirect_ip s"
  "bypass_dst_list_set (put_if p i s) = bypass_dst_list_set s"
  "bypass_dst_list_id (put_if p i s) = bypass_dst_list_id s"
  by (simp_all add: put_if_def log_ref_def)

lemma log_ref_auth_frame [simp]:
  "auths (log_ref e s) = auths s" "redirect_ip (log_ref e s) = redirect_ip s"
  "bypass_dst_list_set (log_ref e s) = bypass_dst_list_set s"
  "bypass_dst_list_id (log_ref e s) = bypass_dst_list_id s"
  "nos_hook_disable (log_ref e s) = nos_hook_disable s"
  by (simp_all add: log_ref_def)

lemma fold_auth_put [simp]:
  "held (ipset_log (fold auth_put as s)) i = held (ipset_log s) i - (\<Sum>a\<leftarrow>as. rule_ref a i)"
  "redirect_ip (fold auth_put as s) = redirect_ip s"
  by (induction as arbitrary: s) simp_all

lemma auth_cleanup_inv: "auth_inv s \<Longrightarrow> auth_inv (nos_auth_cleanup s)"
  by (simp add: auth_inv_def auth_inv_with_def nos_auth_cleanup_def auth_conf_init_def guarded_def
      auth_refs_def) (simp add: ref1_def)

lemma auth_take_out_Some:
  "auth_take_out i as = Some (e, es) \<Longrightarrow> \<exists>xs ys. as = xs @ e # ys \<and> es = xs @ ys \<and> a_id e = i"
proof (induction as arbitrary: es)
  case Nil
  then show ?case by simp
next
  case (Cons a as)
  show ?case
  proof (cases "a_id a = i")
    case True
    with Cons.prems show ?thesis by (intro exI [of _ "[]"] exI [of _ es]) auto
  next
    case False
    with Cons.prems obtain es' where "auth_take_out i as = Some (e, es')" and es: "es = a # es'"
      by (auto split: prod.splits)
    with Cons.IH obtain xs ys where "as = xs @ e # ys" "es' = xs @ ys" "a_id e = i" by blast
    with es show ?thesis by (intro exI [of _ "a # xs"] exI [of _ ys]) auto
  qed
qed

lemma auth_delete_inv: "auth_inv s \<Longrightarrow> nos_auth_delete i s = (s', e) \<Longrightarrow> auth_inv s'"
  by (auto simp: nos_auth_delete_def auth_inv_def auth_inv_with_def guarded_def auth_refs_def
      split: option.splits dest!: auth_take_out_Some)

lemma auth_set_inv:
  assumes "auth_inv_with (rule_ref a) s" "auth_type a \<in> {AUTH_TYPE_AUTO, AUTH_TYPE_WEB}"
    and "nos_auth_set a s = (s', e)"
  shows "if e = None then auth_inv s' else s' = s"
proof (cases "e = None")
  case True
  with assms(3) have s': "s' = s\<lparr>auths := auths s @ [a], nos_hook_disable := 0\<rparr>"
    and ok: "unat (a_id a) < MAX_AUTH" "src_zone_id a < INVALID_ZONE_ID" "unat (src_ipgrp_id a) < MAX_IPGRP"
    and new: "a_id a \<notin> a_id ` set (auths s)" and room: "length (auths s) \<noteq> MAX_AUTH"
    by (auto simp: nos_auth_set_def guarded_def list_ex_iff image_iff split: if_splits)
  have "auth_rule_ok a" using ok assms(2) by (simp add: auth_rule_ok_def)
  then show ?thesis
    using assms(1) new room True by (simp add: s' auth_inv_def auth_inv_with_def auth_refs_def)
next
  case False
  with assms(3) show ?thesis by (auto simp: nos_auth_set_def split: if_splits)
qed

lemma auth_put_inv: "auth_inv_with (rule_ref a) s \<Longrightarrow> auth_inv (auth_put a s)"
  by (simp add: auth_inv_def auth_inv_with_def auth_refs_def)

lemma auth_log_ref_inv:
  "auth_inv_with r s \<Longrightarrow> (\<And>i. r' i = r i + (if i = j then 1 else 0)) \<Longrightarrow> auth_inv_with r' (log_ref (Get j) s)"
  by (simp add: auth_inv_with_def auth_refs_def)

lemma get_white_inv:
  assumes "get_white ips name store (s, a) = Some (s', a')" and "auth_inv_with (rule_ref a) s"
    and "\<And>j p i. rule_ref (store j p a) i = rule_ref a i + (if i = j then 1 else 0)"
  shows "auth_inv_with (rule_ref a') s'"
  using assms by (auto simp: get_white_def intro: auth_log_ref_inv split: if_splits option.splits)

lemma rule_ref_store:
  "ip_white_list_set a = None \<Longrightarrow> rule_ref (store_ip j p a) i = rule_ref a i + (if i = j then 1 else 0)"
  "mac_white_list_set a = None \<Longrightarrow> rule_ref (store_mac j p a) i = rule_ref a i + (if i = j then 1 else 0)"
  by (simp_all add: rule_ref_def store_ip_def store_mac_def ref1_def)

lemma rule_ref_type [simp]: "rule_ref (a\<lparr>auth_type := t\<rparr>) = rule_ref a"
  by (simp add: rule_ref_def fun_eq_iff)

lemma get_white_frame:
  assumes "get_white ips name store_ip (s, a) = Some (s', a')"
  shows "mac_white_list_set a' = mac_white_list_set a" "auth_type a' = auth_type a"
  using assms by (auto simp: get_white_def store_ip_def split: if_splits option.splits)

lemma get_white_mac_frame:
  assumes "get_white ips name store_mac (s, a) = Some (s', a')"
  shows "auth_type a' = auth_type a"
  using assms by (auto simp: get_white_def store_mac_def split: if_splits option.splits)

lemma auth_fields_inv:
  assumes "auth_fields ips data (s, a) = ((s', a'), e)" and "auth_inv_with (rule_ref a) s"
    and "ip_white_list_set a = None" "mac_white_list_set a = None"
  shows "auth_inv_with (rule_ref a') s' \<and> (e = None \<longrightarrow> auth_type a' \<in> {AUTH_TYPE_AUTO, AUTH_TYPE_WEB})"
proof -
  define ip where "ip = white_name '',ipwhite='' data"
  define mac where "mac = white_name '',macwhite='' data"
  have ip_step: "auth_inv_with (rule_ref a2) s2 \<and> mac_white_list_set a2 = None \<and> auth_type a2 = t"
    if "get_white ips ip store_ip (s, a\<lparr>auth_type := t\<rparr>) = Some (s2, a2)" for t s2 a2
    using get_white_inv [OF that] get_white_frame [OF that] assms(2-4) by (simp add: rule_ref_store)
  have mac_step: "auth_inv_with (rule_ref a2) s2 \<and> auth_type a2 = auth_type a1"
    if "get_white ips mac store_mac (s1, a1) = Some (s2, a2)" "auth_inv_with (rule_ref a1) s1"
      "mac_white_list_set a1 = None" for s1 a1 s2 a2
    using get_white_inv [OF that(1,2)] get_white_mac_frame [OF that(1)] that(3) by (simp add: rule_ref_store)
  from assms(1,2) show ?thesis
    unfolding auth_fields_def ip_def [symmetric] mac_def [symmetric]
    by (auto simp: Let_def split: option.splits if_splits dest!: ip_step dest: mac_step)
qed

lemma auth_add_inv:
  assumes "auth_inv s" "auth_add ips data (auth_blank i z g) s = (s', e)"
  shows "auth_inv s'"
proof -
  obtain s1 a1 e1 where f: "auth_fields ips data (s, auth_blank i z g) = ((s1, a1), e1)"
    by (metis prod.exhaust)
  have "rule_ref (auth_blank i z g) = (\<lambda>_. 0)"
    by (simp add: rule_ref_def auth_blank_def ref1_def fun_eq_iff)
  with assms(1) auth_fields_inv [OF f] have inv: "auth_inv_with (rule_ref a1) s1"
    and ty: "e1 = None \<longrightarrow> auth_type a1 \<in> {AUTH_TYPE_AUTO, AUTH_TYPE_WEB}"
    by (simp_all add: auth_inv_def auth_blank_def)
  show ?thesis
  proof (cases "e1 = None")
    case True
    obtain s2 e2 where s2: "nos_auth_set a1 s1 = (s2, e2)" by (cases "nos_auth_set a1 s1")
    with auth_set_inv [OF inv _ s2] ty True have "if e2 = None then auth_inv s2 else s2 = s1" by simp
    with assms(2) f s2 True auth_put_inv [OF inv] show ?thesis
      by (cases e2) (auto simp: auth_add_def)
  next
    case False
    with assms(2) f auth_put_inv [OF inv] show ?thesis by (auto simp: auth_add_def)
  qed
qed

lemma and_255_le: "(a :: u32) AND 255 = a \<Longrightarrow> a \<le> 255"
  by (metis word_and_le1)

lemma set_bypass_inv: "auth_inv s \<Longrightarrow> auth_inv (set_bypass_dst i p s)"
  by (simp add: auth_inv_def auth_inv_with_def set_bypass_dst_def guarded_def auth_refs_def)
     (simp add: ref1_def)

lemma auth_fields_update_inv:
  "auth_inv s \<Longrightarrow> auth_inv (s\<lparr>g_auth_conf_magic := m\<rparr>)"
  "auth_inv s \<Longrightarrow> auth_inv (s\<lparr>nos_auth_no_flow_timeout := t\<rparr>)"
  "auth_inv s \<Longrightarrow> a AND 255 = a \<Longrightarrow> b AND 255 = b \<Longrightarrow> c AND 255 = c \<Longrightarrow> d AND 255 = d \<Longrightarrow>
     auth_inv (s\<lparr>redirect_ip := [a, b, c, d]\<rparr>)"
  by (simp_all add: auth_inv_def auth_inv_with_def auth_refs_def and_255_le)

lemma auth_exec_inv:
  assumes "auth_inv s" "nos_auth_exec ips s line = Ret (s', e)"
  shows "auth_inv s'"
  using assms
  by (auto simp: nos_auth_exec_def auth_fields_update_inv set_bypass_inv auth_cleanup_inv
      split: if_splits list.splits scanned.splits option.splits
      dest: auth_add_inv auth_delete_inv)

interpretation auth_ctl: ctl_interpreter "nos_auth_exec ips" auth_inv for ips
  by unfold_locales (rule auth_exec_inv)

section \<open>Replaying what the device prints\<close>

lemma strstr_word:
  "CHR '','' \<notin> set w \<Longrightarrow> strstr (w @ r) (CHR '','' # ks) = strstr r (CHR '','' # ks)"
  by (induction w) (auto simp: scan_simps)

lemma strstr_word_end: "CHR '','' \<notin> set w \<Longrightarrow> strstr w (CHR '','' # ks) = None"
  using strstr_word [of w "[]" ks] by (simp add: strstr.simps)

text \<open>A white list of a rule whose ipset still carries its name.\<close>

definition white_know :: "ipsets \<Rightarrow> set_ptr option \<Rightarrow> u32 \<Rightarrow> bool" where
  "white_know ips p i \<longleftrightarrow> (case p of
     None \<Rightarrow> i = 0
   | Some q \<Rightarrow> (let n = ip_set_name_byindex ips i in
       n \<noteq> [] \<and> length n < 32 \<and> (\<forall>c \<in> set n. \<not> is_space c \<and> c \<noteq> CHR 0x00 \<and> c \<noteq> CHR '','')
       \<and> ip_set_get_byname ips n = Some (i, q)))"

definition auth_know :: "ipsets \<Rightarrow> auth_rule_t \<Rightarrow> bool" where
  "auth_know ips a \<longleftrightarrow> white_know ips (ip_white_list_set a) (ip_white_list_id a)
     \<and> white_know ips (mac_white_list_set a) (mac_white_list_id a)"

lemma white_know_cases:
  assumes "white_know ips p i"
  obtains "p = None" "i = 0"
  | q n where "p = Some q" "n = ip_set_name_byindex ips i" "n \<noteq> []" "length n < 32" "plain n"
      "CHR '','' \<notin> set n" "ip_set_get_byname ips n = Some (i, q)"
  using assms plain_word [of "ip_set_name_byindex ips i"] that
  by (auto simp: white_know_def Let_def split: option.splits)

lemma takeWhile_word:
  "c \<notin> set w \<Longrightarrow> takeWhile (\<lambda>x. x \<noteq> c) (w @ r) = w @ takeWhile (\<lambda>x. x \<noteq> c) r"
  by (rule takeWhile_append2) auto

lemma takeWhile_word_end: "c \<notin> set w \<Longrightarrow> takeWhile (\<lambda>x. x \<noteq> c) w = w"
  using takeWhile_word [of c w "[]"] by simp

text \<open>What the field parsers find in the printed form of a rule.\<close>

lemma auth_line_type:
  "\<exists>r. strstr (auth_line ips a) '',type='' =
     Some ('',type='' @ (if auth_type a = AUTH_TYPE_AUTO then ''auto'' else ''web'') @ r)"
  by (simp add: auth_line_def scan_simps strstr_word)

lemma auth_line_ip:
  assumes "auth_know ips a"
  shows "white_name '',ipwhite='' (auth_line ips a) =
    (if ip_white_list_set a = None then [] else ip_set_name_byindex ips (ip_white_list_id a))"
proof -
  from assms have "white_know ips (ip_white_list_set a) (ip_white_list_id a)"
    "white_know ips (mac_white_list_set a) (mac_white_list_id a)" by (simp_all add: auth_know_def)
  then show ?thesis
    by (elim white_know_cases)
       (simp_all add: white_name_def auth_line_def scan_simps strstr_word strstr_word_end
         takeWhile_word takeWhile_word_end)
qed

lemma auth_line_mac:
  assumes "auth_know ips a"
  shows "white_name '',macwhite='' (auth_line ips a) =
    (if mac_white_list_set a = None then [] else ip_set_name_byindex ips (mac_white_list_id a))"
proof -
  from assms have "white_know ips (ip_white_list_set a) (ip_white_list_id a)"
    "white_know ips (mac_white_list_set a) (mac_white_list_id a)" by (simp_all add: auth_know_def)
  then show ?thesis
    by (elim white_know_cases)
       (simp_all add: white_name_def auth_line_def scan_simps strstr_word strstr_word_end
         takeWhile_word takeWhile_word_end)
qed

lemma auth_line_scan:
  "sscanf (fmt ''auth id=%u,szone=%u,sipgrp=%u'') (auth_line ips a) =
     [ScanU (a_id a), ScanU (src_zone_id a), ScanU (src_ipgrp_id a)]"
proof -
  have f: "fmt ''auth id=%u,szone=%u,sipgrp=%u'' =
      map Lit ''auth'' @ Spc # map Lit ''id='' @ PctU # map Lit '',szone='' @ PctU # map Lit '',sipgrp='' @ [PctU]"
    by (simp add: scan_simps is_space_def cv_def)
  have comma: "sscanf (PctU # ds) (dec n @ CHR '','' # r) = ScanU (word_of_nat n) # sscanf ds (CHR '','' # r)" for ds n r
    by (rule sscanf_PctU_dec) simp
  have "\<not> is_space (CHR ''i'')" by (simp add: is_space_def cv_def)
  then show ?thesis
    by (simp add: f auth_line_def sscanf.simps(1-3) comma)
qed

lemma get_white_known:
  assumes "white_know ips p i"
  shows "\<exists>s'. get_white ips (if p = None then [] else ip_set_name_byindex ips i) store (s, a) =
    Some (s', case p of None \<Rightarrow> a | Some q \<Rightarrow> store i q a) \<and> auths s' = auths s
    \<and> bypass_dst_list_set s' = bypass_dst_list_set s"
  using assms by (elim white_know_cases) (auto simp: get_white_def)

text \<open>The line of a rule adds that rule.\<close>

lemma auth_exec_line:
  assumes "auth_know ips a" and "auth_rule_ok a" and "a_id a \<notin> a_id ` set (auths s)"
    and "length (auths s) < MAX_AUTH"
  shows "\<exists>s'. nos_auth_exec ips s (auth_line ips a) = Ret (s', None) \<and> auths s' = auths s @ [a]
    \<and> bypass_dst_list_set s' = bypass_dst_list_set s"
proof -
  let ?b = "(auth_blank (a_id a) (src_zone_id a) (src_ipgrp_id a))\<lparr>auth_type := auth_type a\<rparr>"
  let ?b1 = "case ip_white_list_set a of None \<Rightarrow> ?b | Some q \<Rightarrow> store_ip (ip_white_list_id a) q ?b"
  let ?b2 = "case mac_white_list_set a of None \<Rightarrow> ?b1 | Some q \<Rightarrow> store_mac (mac_white_list_id a) q ?b1"
  have wip: "white_know ips (ip_white_list_set a) (ip_white_list_id a)"
    and wmac: "white_know ips (mac_white_list_set a) (mac_white_list_id a)"
    using assms(1) by (simp_all add: auth_know_def)
  from wip wmac have rule: "?b2 = a"
    by (cases a) (auto simp: white_know_def auth_blank_def store_ip_def store_mac_def split: option.splits)
  obtain s1 where s1: "get_white ips (white_name '',ipwhite='' (auth_line ips a)) store_ip (s, ?b) = Some (s1, ?b1)"
    "auths s1 = auths s" "bypass_dst_list_set s1 = bypass_dst_list_set s"
    using get_white_known [OF wip, of store_ip s ?b] unfolding auth_line_ip [OF assms(1)] by blast
  obtain s2 where s2: "get_white ips (white_name '',macwhite='' (auth_line ips a)) store_mac (s1, ?b1) = Some (s2, ?b2)"
    "auths s2 = auths s1" "bypass_dst_list_set s2 = bypass_dst_list_set s1"
    using get_white_known [OF wmac, of store_mac s1 ?b1] unfolding auth_line_mac [OF assms(1)] by blast
  obtain r where r: "strstr (auth_line ips a) '',type='' =
      Some ('',type='' @ (if auth_type a = AUTH_TYPE_AUTO then ''auto'' else ''web'') @ r)"
    using auth_line_type by blast
  have "auth_type a = AUTH_TYPE_AUTO \<or> auth_type a = AUTH_TYPE_WEB" "AUTH_TYPE_AUTO \<noteq> AUTH_TYPE_WEB"
    using assms(2) by (auto simp: auth_rule_ok_def AUTH_TYPE_AUTO_def AUTH_TYPE_WEB_def)
  with r s1(1) s2(1) rule have fields:
    "auth_fields ips (auth_line ips a) (s, auth_blank (a_id a) (src_zone_id a) (src_ipgrp_id a)) = ((s2, a), None)"
    by (auto simp: auth_fields_def starts_with.simps Let_def)
  have "nos_auth_set a s2 = (guarded (\<lambda>s. s\<lparr>auths := auths s @ [a]\<rparr>) s2, None)"
    using assms(2-4) s1(2) s2(2) by (auto simp: nos_auth_set_def auth_rule_ok_def list_ex_iff image_iff)
  with fields have "auth_add ips (auth_line ips a) (auth_blank (a_id a) (src_zone_id a) (src_ipgrp_id a)) s
      = (guarded (\<lambda>s. s\<lparr>auths := auths s @ [a]\<rparr>) s2, None)"
    by (simp add: auth_add_def)
  moreover have "starts_with (auth_line ips a) ''auth id=''" "\<not> starts_with (auth_line ips a) ''clean''"
    by (simp_all add: auth_line_def starts_with.simps)
  ultimately show ?thesis
    using s1 s2 by (simp add: nos_auth_exec_def auth_line_scan guarded_def)
qed

lemma auth_exec_lines_add:
  assumes "\<forall>a \<in> set as. auth_know ips a \<and> auth_rule_ok a"
    and "distinct (map a_id (auths d @ as))" and "length (auths d @ as) \<le> MAX_AUTH"
  shows "\<exists>d'. exec_lines (nos_auth_exec ips) d (map (auth_line ips) as) = Ret (d', None)
    \<and> auths d' = auths d @ as \<and> bypass_dst_list_set d' = bypass_dst_list_set d"
  using assms
proof (induction as arbitrary: d)
  case Nil
  then show ?case by simp
next
  case (Cons a as)
  obtain d1 where d1: "nos_auth_exec ips d (auth_line ips a) = Ret (d1, None)" "auths d1 = auths d @ [a]"
    "bypass_dst_list_set d1 = bypass_dst_list_set d"
    using auth_exec_line [of ips a d] Cons.prems by auto
  have "\<exists>d'. exec_lines (nos_auth_exec ips) d1 (map (auth_line ips) as) = Ret (d', None)
      \<and> auths d' = auths d1 @ as \<and> bypass_dst_list_set d' = bypass_dst_list_set d1"
    using Cons.prems d1(2) by (intro Cons.IH) auto
  with d1 show ?case by auto
qed

lemma auth_line_ok: "auth_know ips a \<Longrightarrow> ok_line (auth_line ips a)"
proof -
  assume "auth_know ips a"
  then have "white_know ips (ip_white_list_set a) (ip_white_list_id a)"
    "white_know ips (mac_white_list_set a) (mac_white_list_id a)" by (simp_all add: auth_know_def)
  then have "plain (auth_line ips a) \<and> length (auth_line ips a) < CTL_BUF"
    using length_dec_u32 [of "a_id a"] length_dec_u32 [of "src_zone_id a"] length_dec_u32 [of "src_ipgrp_id a"]
    by (elim white_know_cases) (auto simp: auth_line_def CTL_BUF_def)
  moreover have "auth_line ips a = CHR ''a'' # tl (auth_line ips a)" "\<not> blank (CHR ''a'')"
    by (simp_all add: auth_line_def blank_def newline_def)
  ultimately show ?thesis by (metis ok_lineI)
qed

lemma auth_read_items:
  "concat (List.map_filter (nos_auth_start ips s) (map Suc [0..<length (auths s)])) =
     unlines (map (auth_line ips) (auths s))"
proof -
  have "List.map_filter (nos_auth_start ips s) (map Suc is) =
      map (\<lambda>a. unlines [auth_line ips a]) (map ((!) (auths s)) is)"
    if "\<forall>i \<in> set is. i < length (auths s)" for "is"
    using that by (induction "is") (simp_all add: List.map_filter_simps nos_auth_start_def nos_auth_get_def)
  from this [of "[0..<length (auths s)]"] show ?thesis
    by (simp add: map_nth unlines_def comp_def)
qed

lemma nos_auth_read_lines:
  "nos_auth_read ips s = unlines (auth_usage ips s @ map (auth_line ips) (auths s))"
proof -
  let ?n = "length (auths s)"
  have "nos_auth_start ips s (Suc ?n) = None" "nos_auth_start ips s 0 = Some (unlines (auth_usage ips s))"
    by (simp_all add: nos_auth_start_def nos_auth_get_def)
  then show ?thesis
    using auth_read_items [of ips s] unfolding nos_auth_read_def upt_seq_positions
    by (simp add: List.map_filter_simps)
qed

interpretation auth_dump: ctl_dump "nos_auth_exec ips" nos_auth_cleanup for ips
  by unfold_locales (simp_all add: nos_auth_exec_def scan_simps)

lemma auth_usage_split:
  "filter (\<lambda>l. l \<noteq> []) (auth_usage ips s) = map ((#) (CHR ''#'')) (map tl (take 14 (auth_usage ips s))) @ [''clean'']"
  by (simp add: auth_usage_def)

lemma pI4_plain: "plain (pI4 bs)"
  by (auto simp: pI4_def split: list.splits)

lemma pI4_length: "length (pI4 bs) \<le> 43"
proof (cases "length bs = 4")
  case True
  then obtain a b c d where "bs = [a, b, c, d]"
    by (auto simp: numeral_eq_Suc length_Suc_conv)
  then show ?thesis
    using length_dec_u32 [of a] length_dec_u32 [of b] length_dec_u32 [of c] length_dec_u32 [of d]
    by (simp add: pI4_def)
next
  case False
  then show ?thesis by (auto simp: pI4_def split: list.splits)
qed

lemma auth_usage_ok:
  assumes "white_know ips (bypass_dst_list_set s) (bypass_dst_list_id s)" and "l \<in> set (auth_usage ips s)"
  shows "l = [] \<or> ok_line l"
proof -
  let ?n = "if bypass_dst_list_set s \<noteq> None then ip_set_name_byindex ips (bypass_dst_list_id s) else []"
  have "plain ?n \<and> length ?n < 32" using assms(1) by (elim white_know_cases) auto
  then show ?thesis
    using assms(2) length_dec_u16 [of "g_auth_conf_magic s"] length_dec_u32 [of "nos_auth_no_flow_timeout s"]
      pI4_plain [of "redirect_ip s"] pI4_length [of "redirect_ip s"]
    by (auto simp: auth_usage_def CTL_BUF_def blank_def newline_def)
qed

section \<open>Properties\<close>

text \<open>
  C11: the authentication device's dump restores the rules: writing what one reads from
  \<open>nos_auth_ctl\<close> back, in any state of the device, succeeds and leaves exactly the same
  rules in the same order, white lists included, as long as their ipsets still carry their
  names. The global bypass list is not part of the dump: the leading \<open>clean\<close> drops it.
\<close>

theorem auth_reload_restores:
  assumes "\<forall>a \<in> set (auths s). auth_know ips a"
    and "white_know ips (bypass_dst_list_set s) (bypass_dst_list_id s)"
    and "auth_inv s" and "pending c = []"
  shows "\<exists>c'. write_all (nos_auth_exec ips) c (nos_auth_read ips s) = Ret (c', None)
    \<and> auths (device c') = auths s \<and> bypass_dst_list_set (device c') = None"
proof -
  have empty: "auths (nos_auth_cleanup (device c)) = []" "bypass_dst_list_set (nos_auth_cleanup (device c)) = None"
    by (simp_all add: nos_auth_cleanup_def guarded_def auth_conf_init_def)
  obtain d' where "exec_lines (nos_auth_exec ips) (nos_auth_cleanup (device c)) (map (auth_line ips) (auths s))
      = Ret (d', None)" and d': "auths d' = auths s" "bypass_dst_list_set d' = None"
    using auth_exec_lines_add [of "auths s" ips "nos_auth_cleanup (device c)"] assms(1,3)
    by (auto simp: auth_inv_def auth_inv_with_def empty)
  then have "write_all (nos_auth_exec ips) c (nos_auth_read ips s) = Ret (c\<lparr>device := d'\<rparr>, None)"
    unfolding nos_auth_read_lines
    using auth_usage_ok [OF assms(2)] auth_line_ok assms(1)
    by (intro auth_dump.write_all_dump [OF assms(4) auth_usage_split]) auto
  with d' show ?thesis by simp
qed

definition auth_demo_sets :: ipsets where
  "auth_demo_sets = \<lparr>ip_set_get_byname = (\<lambda>n. if n = ''vip'' then Some (4, 4096) else if n = ''macs'' then Some (6, 8192) else None),
                     ip_set_name_byindex = (\<lambda>i. if i = 4 then ''vip'' else if i = 6 then ''macs'' else [])\<rparr>"

definition auth_demo :: auth_conf where
  "auth_demo = \<lparr>nos_hook_disable = 0, ipset_log = [Get 4, Get 6, Get 4],
     auths = [\<lparr>a_id = 1, src_zone_id = 0, src_ipgrp_id = 5, auth_type = AUTH_TYPE_WEB, ip_white_list_id = 4,
               mac_white_list_id = 6, ip_white_list_set = Some 4096, mac_white_list_set = Some 8192\<rparr>,
              \<lparr>a_id = 0, src_zone_id = 3, src_ipgrp_id = 0, auth_type = AUTH_TYPE_AUTO, ip_white_list_id = 0,
               mac_white_list_id = 0, ip_white_list_set = None, mac_white_list_set = None\<rparr>],
     bypass_dst_list_id = 4, bypass_dst_list_set = Some 4096,
     g_auth_conf_magic = 50855, redirect_ip = [1, 0, 0, 8], nos_auth_no_flow_timeout = 0\<rparr>"

lemma auth_demo_inv: "auth_inv auth_demo"
  by (simp add: auth_inv_def auth_inv_with_def auth_demo_def MAX_AUTH_def MAX_IPGRP_def INVALID_ZONE_ID_def
      auth_rule_ok_def auth_refs_def rule_ref_def ref1_def)

theorem auth_reload_restores_witness:
  "\<exists>c'. write_all (nos_auth_exec auth_demo_sets) \<lparr>device = auth_demo, pending = []\<rparr>
      (nos_auth_read auth_demo_sets auth_demo) = Ret (c', None)
    \<and> auths (device c') = auths auth_demo \<and> bypass_dst_list_set (device c') = None"
proof (rule auth_reload_restores)
  show "\<forall>a \<in> set (auths auth_demo). auth_know auth_demo_sets a"
    by (simp add: auth_know_def white_know_def auth_demo_def auth_demo_sets_def is_space_def cv_def)
  show "white_know auth_demo_sets (bypass_dst_list_set auth_demo) (bypass_dst_list_id auth_demo)"
    by (simp add: white_know_def auth_demo_def auth_demo_sets_def is_space_def cv_def)
qed (simp_all add: auth_demo_inv)

text \<open>
  C12: whatever is written to the authentication device, the rule table stays within its
  16 slots with distinct ids and valid zones, groups and types, and the module's ipset
  references are exactly those its white lists and the bypass list account for: no
  reference leaks on any error exit of the rule parser and none is dropped twice.
\<close>

theorem auth_write_keeps_inv:
  assumes "auth_inv (device c)" and "nos_auth_write ips cf bs c = Ret (c', r)"
  shows "auth_inv (device c')"
  using assms auth_ctl.ctl_write_keeps by (simp add: nos_auth_write_def)

lemma auth_exec_returns: "\<exists>r. nos_auth_exec ips s l = Ret r"
  by (simp add: nos_auth_exec_def)

theorem auth_write_keeps_inv_witness:
  "\<exists>c' r. nos_auth_write auth_demo_sets False ''auth id=1,szone=0,sipgrp=5,type=web,ipwhite=vip\<newline>''
       \<lparr>device = auth_demo, pending = []\<rparr> = Ret (c', r) \<and> auth_inv (device c')"
proof -
  let ?c = "\<lparr>device = auth_demo, pending = []\<rparr>"
  let ?l = "''auth id=1,szone=0,sipgrp=5,type=web,ipwhite=vip''"
  obtain d e where "nos_auth_exec auth_demo_sets auth_demo ?l = Ret (d, e)"
    using auth_exec_returns by fastforce
  then obtain c' r where "nos_auth_write auth_demo_sets False (?l @ ''\<newline>'') ?c = Ret (c', r)"
    by (cases e) (auto simp: nos_auth_write_def ctl_write_def CTL_BUF_def blank_def newline_def)
  with auth_write_keeps_inv [OF _ this] auth_demo_inv show ?thesis by auto
qed

end
