(* ===== verification/Auth_Hook.thy ===== *)
theory Auth_Hook
  imports Nos_Auth
begin

text \<open>
  \<open>drivers/nos/src/nos_auth.c\<close>, the packet path: \<open>nos_auth_hook\<close> decides what to do with a
  forwarded packet of a user, answers a web request of a user who has to log in with a
  redirect (\<open>nos_auth_http_302\<close>, \<open>nos_auth_reply_payload\<close>) and turns a bare
  acknowledgement into a reset (\<open>nos_auth_convert_tcprst\<close>). Header fields are kept as
  values in host order. The kernel's checksum functions, the allocator's outcome, the clock
  and \<open>ip_set_test\<close> are parameters (\<open>hook_env\<close>).
\<close>

section \<open>Packets, users, connections\<close>

record iphdr =
  version :: nat
  ihl :: nat
  tos :: nat
  tot_len :: u16
  ip_ident :: u16
  frag_off :: u16
  ttl :: nat
  protocol :: nat
  ip_check :: u16
  saddr :: u32
  daddr :: u32

text \<open>
  The transport header read as a TCP header; \<open>source\<close> and \<open>dest\<close> are at the same place in
  a UDP header.
\<close>

record tcphdr =
  source :: u16
  dest :: u16
  seq :: u32
  ack_seq :: u32
  doff :: nat
  fin :: bool
  syn :: bool
  rst :: bool
  psh :: bool
  ack :: bool
  window :: u16
  tcp_check :: u16

datatype ip_summed = CHECKSUM_NONE | CHECKSUM_UNNECESSARY | CHECKSUM_COMPLETE | CHECKSUM_PARTIAL

text \<open>
  \<open>tcp_data\<close> are the bytes from \<open>skb->data + (ihl << 2) + (doff << 2)\<close> on; \<open>mac_len\<close> is
  the distance from the link header to the IP header, \<open>ip_off\<close> that from the start of the
  buffer to the IP header, \<open>skb_room\<close> the bytes of the buffer
  from the IP header to its end.
\<close>

record sk_buff =
  h_dest :: "u8 list"
  h_source :: "u8 list"
  h_proto :: u16
  iph :: iphdr
  tcph :: tcphdr
  tcp_data :: string
  skb_len :: int
  skb_room :: int
  skb_tail :: int
  mac_len :: int
  ip_off :: int
  skb_summed :: ip_summed
  skb_csum :: u32
  csum_start :: int
  csum_offset :: nat
  gso_size :: nat
  gso_segs :: nat
  gso_type :: nat
  skb_dev :: "net_device option"

definition IPPROTO_TCP :: nat where "IPPROTO_TCP = 6"

definition IPPROTO_UDP :: nat where "IPPROTO_UDP = 17"

datatype verdict = NF_DROP | NF_ACCEPT

definition AUTH_NONE :: u8 where "AUTH_NONE = 0"

definition AUTH_OK :: u8 where "AUTH_OK = 1"

definition AUTH_BYPASS :: u8 where "AUTH_BYPASS = 2"

definition AUTH_REQ :: u8 where "AUTH_REQ = 3"

lemmas auth_status_defs = AUTH_NONE_def AUTH_OK_def AUTH_BYPASS_def AUTH_REQ_def

lemmas auth_type_defs = AUTH_TYPE_UNKNOWN_def AUTH_TYPE_AUTO_def AUTH_TYPE_WEB_def

definition INVALID_AUTH_RULE_ID :: u8 where "INVALID_AUTH_RULE_ID = 255"

text \<open>
  The fields of the user node the module uses; \<open>u_ip\<close> are the four bytes \<open>%pI4\<close> reads.
\<close>

record user_info =
  u_id :: u32
  u_magic :: u32
  u_ip :: "u32 list"
  rule_magic :: u16
  u_type :: u32
  status :: u8
  rule_id :: u8
  macaddr :: "u8 list"
  zone_id :: u32
  zone_magic :: u16
  ipgrp_bits :: u64
  ipgrp_magic :: u16
  time_stamp :: u32

definition nt_auth_get_status :: "user_info \<Rightarrow> u8" where
  "nt_auth_get_status ui = status ui"

definition nt_auth_set_status :: "user_info \<Rightarrow> u8 \<Rightarrow> user_info \<times> u8" where
  "nt_auth_set_status ui st = (let s_priv = status ui in (ui\<lparr>status := st\<rparr>, s_priv))"

record nf_conn =
  ct_status :: u32

definition IPS_NOS_BYPASS_BIT :: nat where "IPS_NOS_BYPASS_BIT = 30"

definition IPS_NOS_DROP_BIT :: nat where "IPS_NOS_DROP_BIT = 31"

definition set_ct_bit :: "nat \<Rightarrow> nf_conn \<Rightarrow> nf_conn" where
  "set_ct_bit n ct = ct\<lparr>ct_status := set_bit n (ct_status ct)\<rparr>"

record auth_msg_t =
  m_magic :: u32
  m_id :: u32

record hook_env =
  set_test :: "sk_buff ip_set_test"
  jiffies :: u32
  HZ :: u32
  kmalloc_ok :: bool
  skb_copy_ok :: bool
  ip_fast_csum :: "iphdr \<Rightarrow> u16"
  csum_partial :: "tcphdr \<Rightarrow> string \<Rightarrow> nat \<Rightarrow> u32"
  csum_tcpudp_magic :: "u32 \<Rightarrow> u32 \<Rightarrow> int \<Rightarrow> nat \<Rightarrow> u32 \<Rightarrow> u16"

section \<open>The redirect\<close>

definition hex_digit :: "nat \<Rightarrow> char" where
  "hex_digit d = (if d < 10 then digit_char d else char_of (55 + d))"

text \<open>\<open>%02X\<close>.\<close>

definition hex2 :: "u8 \<Rightarrow> string" where
  "hex2 b = [hex_digit (unat b div 16), hex_digit (unat b mod 16)]"

text \<open>\<open>snprintf\<close> into \<open>sz\<close> bytes: at most \<open>sz - 1\<close> characters are stored.\<close>

definition snprintf :: "nat \<Rightarrow> string \<Rightarrow> string" where
  "snprintf sz s = take (sz - 1) s"

definition crlf :: string where
  "crlf = [CHR 0x0D, CHR 0x0A]"

definition quot :: string where
  "quot = [CHR 0x22]"

definition location_text :: "u32 list \<Rightarrow> u8 list \<Rightarrow> user_info \<Rightarrow> u32 \<Rightarrow> string" where
  "location_text redirect mac ui now =
     ''http://'' @ pI4 redirect @ ''/index.html?ip='' @ pI4 (u_ip ui) @ ''&mac='' @
     hex2 (mac ! 0) @ ''-'' @ hex2 (mac ! 1) @ ''-'' @ hex2 (mac ! 2) @ ''-'' @
     hex2 (mac ! 3) @ ''-'' @ hex2 (mac ! 4) @ ''-'' @ hex2 (mac ! 5) @
     ''&uid='' @ dec (unat (u_id ui)) @ ''&magic='' @ dec (unat (u_magic ui)) @
     ''&rid='' @ dec (unat (rule_id ui)) @ ''&_t='' @ dec (unat now)"

definition http_data :: "string \<Rightarrow> string" where
  "http_data location =
     ''<HTML><HEAD><meta http-equiv='' @ quot @ ''content-type'' @ quot @ '' content='' @ quot @
     ''text/html;charset=utf-8'' @ quot @ ''>'' @ crlf @
     ''<TITLE>302 Moved</TITLE></HEAD><BODY>'' @ crlf @
     ''<H1>302 Moved</H1>'' @ crlf @
     ''The document has moved'' @ crlf @
     ''<A HREF='' @ quot @ location @ quot @ ''>here</A>.'' @ crlf @
     ''</BODY></HTML>'' @ crlf"

definition http_header :: "string \<Rightarrow> nat \<Rightarrow> string" where
  "http_header location n =
     ''HTTP/1.1 302 Moved Temporarily'' @ crlf @
     ''Connection: close'' @ crlf @
     ''Cache-Control: no-cache'' @ crlf @
     ''Content-Type: text/html; charset=UTF-8'' @ crlf @
     ''Location: '' @ location @ crlf @
     ''Content-Length: '' @ dec n @ crlf @ crlf"

text \<open>The payload: \<open>n\<close> is what \<open>snprintf\<close> of the data returns, the length without truncation.\<close>

definition http_payload :: "u32 list \<Rightarrow> u8 list \<Rightarrow> user_info \<Rightarrow> u32 \<Rightarrow> string" where
  "http_payload redirect mac ui now =
     (let location = snprintf 128 (location_text redirect mac ui now);
          n = length (http_data location);
          data = snprintf 384 (http_data location);
          header = snprintf 384 (http_header location n)
      in header @ data)"

definition tcp_payload_len :: "sk_buff \<Rightarrow> int" where
  "tcp_payload_len skb = uint (tot_len (iph skb)) - int (4 * ihl (iph skb) + 4 * doff (tcph skb))"

text \<open>\<open>nos_auth_reply_payload\<close>: the packet handed to \<open>dev_queue_xmit\<close>, None when the copy fails.\<close>

definition nos_auth_reply_payload ::
  "hook_env \<Rightarrow> string \<Rightarrow> sk_buff \<Rightarrow> net_device option \<Rightarrow> sk_buff option" where
  "nos_auth_reply_payload env payload oskb dev =
     (let offset = 40 + int (length payload) - skb_len oskb;
          header_len = (if offset < 0 then 0 else offset)
      in if \<not> skb_copy_ok env then None
         else
          (let oiph = iph oskb; otcph = tcph oskb;
               ntcph = \<lparr>source = dest otcph, dest = source otcph, seq = ack_seq otcph,
                        ack_seq = seq otcph + ucast (tot_len oiph) - word_of_nat (4 * ihl oiph)
                                    - word_of_nat (4 * doff otcph),
                        doff = 5, fin = True, syn = False, rst = False, psh = True, ack = True,
                        window = 65535, tcp_check = 0\<rparr>;
               niph = \<lparr>version = version oiph, ihl = 5, tos = 0,
                       tot_len = 40 + word_of_nat (length payload), ip_ident = 0xDEAD, frag_off = 0,
                       ttl = 0x80, protocol = protocol oiph, ip_check = 0,
                       saddr = daddr oiph, daddr = saddr oiph\<rparr>;
               niph = niph\<lparr>ip_check := ip_fast_csum env niph\<rparr>;
               len = uint (tot_len niph) - 20;
               csum = csum_partial env ntcph payload (nat len);
               ntcph = ntcph\<lparr>tcp_check := csum_tcpudp_magic env (saddr niph) (daddr niph) len IPPROTO_TCP csum\<rparr>
           in Some (oskb\<lparr>h_dest := h_source oskb, h_source := h_dest oskb, h_proto := 0x0800,
                  iph := niph, tcph := ntcph, tcp_data := payload,
                  skb_len := skb_len oskb + offset + mac_len oskb,
                  skb_room := skb_room oskb + header_len,
                  skb_dev := dev, skb_summed := CHECKSUM_UNNECESSARY, gso_size := 0, gso_segs := 0,
                  gso_type := 0\<rparr>)))"

definition nos_auth_http_302 ::
  "hook_env \<Rightarrow> auth_conf \<Rightarrow> net_device option \<Rightarrow> sk_buff \<Rightarrow> user_info \<Rightarrow> sk_buff option" where
  "nos_auth_http_302 env s dev skb ui =
     (if \<not> kmalloc_ok env then None
      else nos_auth_reply_payload env (http_payload (redirect_ip s) (h_source skb) ui (jiffies env)) skb dev)"

definition nos_auth_convert_tcprst :: "hook_env \<Rightarrow> sk_buff \<Rightarrow> sk_buff" where
  "nos_auth_convert_tcprst env skb =
     (if protocol (iph skb) \<noteq> IPPROTO_TCP then skb
      else
       (let offset = uint (tot_len (iph skb)) - int (4 * ihl (iph skb) + 20);
            t = (tcph skb)\<lparr>ack := False, psh := False, rst := True, fin := False, window := 0, doff := 5\<rparr>;
            i = (iph skb)\<lparr>tot_len := word_of_int (uint (tot_len (iph skb)) - offset), ip_ident := 0xDEAD,
                         frag_off := 0\<rparr>;
            slen = skb_len skb - offset;
            len = uint (tot_len i);
            i = i\<lparr>ip_check := ip_fast_csum env (i\<lparr>ip_check := 0\<rparr>)\<rparr>;
            t = t\<lparr>tcp_check := 0\<rparr>;
            seg = len - int (4 * ihl i)
        in if skb_summed skb = CHECKSUM_PARTIAL then
             skb\<lparr>iph := i,
               tcph := t\<lparr>tcp_check := NOT (csum_tcpudp_magic env (saddr i) (daddr i) (slen - int (4 * ihl i)) IPPROTO_TCP 0)\<rparr>,
               skb_len := slen, skb_tail := skb_tail skb - offset,
               csum_start := ip_off skb + int (4 * ihl i), csum_offset := 16\<rparr>
           else
             (let c = csum_partial env t (tcp_data skb) (nat seg)
              in skb\<lparr>iph := i, skb_len := slen, skb_tail := skb_tail skb - offset, skb_csum := c,
                   tcph := t\<lparr>tcp_check := csum_tcpudp_magic env (saddr i) (daddr i) seg (protocol i) c\<rparr>\<rparr>)))"

section \<open>The hook\<close>

definition nos_auth_match_bypass_dst ::
  "hook_env \<Rightarrow> auth_conf \<Rightarrow> net_device option \<Rightarrow> net_device option \<Rightarrow> sk_buff \<Rightarrow> bool" where
  "nos_auth_match_bypass_dst env s din dout skb \<longleftrightarrow>
     bypass_dst_list_set s \<noteq> None
     \<and> ip_set_test_dst_ip (set_test env) din dout skb (bypass_dst_list_id s) > 0"

definition rule_hit :: "user_info \<Rightarrow> auth_rule_t \<Rightarrow> bool" where
  "rule_hit ui a \<longleftrightarrow> zone_id ui = src_zone_id a \<and> ipgrp_bits ui AND int_shl1 (src_ipgrp_id a) \<noteq> 0"

definition white_listed ::
  "hook_env \<Rightarrow> net_device option \<Rightarrow> net_device option \<Rightarrow> sk_buff \<Rightarrow> auth_rule_t \<Rightarrow> bool" where
  "white_listed env din dout skb a \<longleftrightarrow>
     ip_white_list_set a \<noteq> None \<and> ip_set_test_src_ip (set_test env) din dout skb (ip_white_list_id a) > 0
   \<or> mac_white_list_set a \<noteq> None \<and> ip_set_test_src_mac (set_test env) din dout skb (mac_white_list_id a) > 0"

definition rule_apply ::
  "hook_env \<Rightarrow> net_device option \<Rightarrow> net_device option \<Rightarrow> sk_buff \<Rightarrow> auth_rule_t \<Rightarrow> user_info \<Rightarrow> user_info" where
  "rule_apply env din dout skb a ui =
     (let ui = ui\<lparr>rule_id := ucast (a_id a)\<rparr> in
      if auth_type a = AUTH_TYPE_AUTO then ui\<lparr>u_type := AUTH_TYPE_AUTO, status := AUTH_OK\<rparr>
      else ui\<lparr>u_type := AUTH_TYPE_WEB,
              status := (if white_listed env din dout skb a then AUTH_BYPASS else AUTH_REQ)\<rparr>)"

text \<open>The rule loop; the second component tells whether \<open>nos_user_info_hold\<close> was called.\<close>

fun rule_loop ::
  "hook_env \<Rightarrow> net_device option \<Rightarrow> net_device option \<Rightarrow> sk_buff \<Rightarrow> auth_rule_t list \<Rightarrow> user_info
     \<Rightarrow> user_info \<times> bool" where
  "rule_loop env din dout skb [] ui = (ui, False)"
| "rule_loop env din dout skb (a # as) ui =
     (if rule_hit ui a then (rule_apply env din dout skb a ui, True)
      else rule_loop env din dout skb as ui)"

definition needs_rule :: "auth_conf \<Rightarrow> user_info \<Rightarrow> bool" where
  "needs_rule s ui \<longleftrightarrow>
     (rule_magic ui \<noteq> g_auth_conf_magic s \<and> status ui \<noteq> AUTH_OK) \<or> status ui = AUTH_NONE"

definition auth_select ::
  "hook_env \<Rightarrow> auth_conf \<Rightarrow> net_device option \<Rightarrow> net_device option \<Rightarrow> sk_buff \<Rightarrow> user_info
     \<Rightarrow> user_info \<times> bool" where
  "auth_select env s din dout skb ui =
     (if needs_rule s ui then
        rule_loop env din dout skb (auths s)
          (ui\<lparr>rule_magic := g_auth_conf_magic s, u_type := AUTH_TYPE_UNKNOWN, status := AUTH_BYPASS,
              rule_id := INVALID_AUTH_RULE_ID, macaddr := h_source skb\<rparr>)
      else (ui, False))"

record hook_out =
  verdict_of :: verdict
  out_ct :: nf_conn
  out_ui :: user_info
  out_skb :: sk_buff
  out_sent :: "sk_buff list"
  out_msgs :: "auth_msg_t list"
  out_held :: bool

text \<open>\<open>strncasecmp (data, lit, strlen (lit)) == 0\<close>.\<close>

definition starts_with_case :: "string \<Rightarrow> string \<Rightarrow> bool" where
  "starts_with_case s lit = starts_with (map to_lower s) (map to_lower lit)"

definition is_http_request :: "sk_buff \<Rightarrow> bool" where
  "is_http_request skb \<longleftrightarrow>
     tcp_payload_len skb > 4 \<and> starts_with_case (tcp_data skb) ''GET ''
   \<or> tcp_payload_len skb > 5 \<and> starts_with_case (tcp_data skb) ''POST ''"

text \<open>The packet of a user who has to log in over the web.\<close>

definition auth_web ::
  "hook_env \<Rightarrow> auth_conf \<Rightarrow> net_device option \<Rightarrow> net_device option \<Rightarrow> sk_buff \<Rightarrow> nf_conn \<Rightarrow> user_info
     \<Rightarrow> bool \<Rightarrow> hook_out" where
  "auth_web env s din dout skb ct ui h =
     (let out = \<lparr>verdict_of = NF_ACCEPT, out_ct = ct, out_ui = ui, out_skb = skb, out_sent = [],
                 out_msgs = [], out_held = h\<rparr>;
          bypass = out\<lparr>out_ct := set_ct_bit IPS_NOS_BYPASS_BIT ct\<rparr>;
          drop = out\<lparr>verdict_of := NF_DROP, out_ct := set_ct_bit IPS_NOS_DROP_BIT ct\<rparr>
      in if nos_auth_match_bypass_dst env s din dout skb then bypass
         else if protocol (iph skb) = IPPROTO_UDP \<and> (dest (tcph skb) = 53 \<or> dest (tcph skb) = 67) then bypass
         else if protocol (iph skb) \<noteq> IPPROTO_TCP then drop
         else if is_http_request skb then
           drop\<lparr>out_sent := (case nos_auth_http_302 env s din skb ui of None \<Rightarrow> [] | Some r \<Rightarrow> [r])\<rparr>
         else if tcp_payload_len skb > 0 then drop
         else if ack (tcph skb) \<and> \<not> syn (tcph skb) then
           out\<lparr>out_skb := nos_auth_convert_tcprst env skb\<rparr>
         else out)"

text \<open>\<open>time_after (a, b)\<close>: the signed difference, so that a wrap of the clock is harmless.\<close>

definition time_after :: "u32 \<Rightarrow> u32 \<Rightarrow> bool" where
  "time_after a b \<longleftrightarrow> sint (b - a) < 0"

definition nos_auth_hook ::
  "hook_env \<Rightarrow> auth_conf \<Rightarrow> net_device option \<Rightarrow> net_device option \<Rightarrow> sk_buff \<Rightarrow> nf_conn \<Rightarrow> user_info
     \<Rightarrow> hook_out" where
  "nos_auth_hook env s din dout skb ct ui =
     (let (ui, h) = auth_select env s din dout skb ui;
          out = \<lparr>verdict_of = NF_ACCEPT, out_ct = ct, out_ui = ui, out_skb = skb, out_sent = [],
                 out_msgs = [], out_held = h\<rparr>
      in if status ui = AUTH_REQ then
           (if u_type ui = AUTH_TYPE_WEB then auth_web env s din dout skb ct ui h
            else if u_type ui = AUTH_TYPE_AUTO then out\<lparr>out_ui := ui\<lparr>status := AUTH_OK\<rparr>\<rparr>
            else out)
         else if status ui = AUTH_OK then
           (if time_after (jiffies env) (time_stamp ui + 30 * HZ env) then
              out\<lparr>out_ui := ui\<lparr>time_stamp := jiffies env\<rparr>,
                  out_msgs := [\<lparr>m_magic = u_magic ui, m_id = u_id ui\<rparr>]\<rparr>
            else out)
         else out)"

section \<open>Facts about the redirect\<close>

lemma length_hex2 [simp]: "length (hex2 b) = 2"
  by (simp add: hex2_def)

lemma length_snprintf: "0 < sz \<Longrightarrow> length (snprintf sz s) < sz"
  by (simp add: snprintf_def)

lemma snprintf_fits: "length s < sz \<Longrightarrow> snprintf sz s = s"
  by (simp add: snprintf_def)

lemma length_http_data: "length (http_data l) = 201 + length l"
  by (simp add: http_data_def crlf_def quot_def)

lemma length_http_header: "length (http_header l n) = 148 + length l + length (dec n)"
  by (simp add: http_header_def crlf_def)

lemma http_payload_fits:
  fixes redirect mac ui now
  defines "loc \<equiv> snprintf 128 (location_text redirect mac ui now)"
  shows "http_payload redirect mac ui now = http_header loc (length (http_data loc)) @ http_data loc"
    and "length (http_payload redirect mac ui now) < 700"
proof -
  have loc: "length loc < 128" unfolding loc_def by (rule length_snprintf) simp
  then have "length (dec (length (http_data loc))) \<le> 3"
    by (intro length_dec_le) (simp_all add: length_http_data)
  with loc have len: "length (http_header loc (length (http_data loc))) < 384" "length (http_data loc) < 384"
    and sum: "length (http_header loc (length (http_data loc))) + length (http_data loc) < 700"
    by (simp_all add: length_http_header length_http_data)
  then show "http_payload redirect mac ui now = http_header loc (length (http_data loc)) @ http_data loc"
    by (simp add: http_payload_def Let_def loc_def [symmetric] snprintf_fits)
  with sum show "length (http_payload redirect mac ui now) < 700" by simp
qed

lemma uint_u16: "n < 65536 \<Longrightarrow> uint (word_of_nat n :: u16) = int n"
  by (simp add: unsigned_of_nat take_bit_nat_eq_self flip: of_nat_take_bit)

lemma uint_tot_len:
  assumes "length p < 700"
  shows "uint (40 + word_of_nat (length p) :: u16) = 40 + int (length p)"
proof -
  have "(40 + word_of_nat (length p) :: u16) = word_of_nat (40 + length p)" by simp
  then show ?thesis using assms uint_u16 [of "40 + length p"] by simp
qed

lemma auth_web_no_msgs: "out_msgs (auth_web env s din dout skb ct ui h) = []"
  by (simp add: auth_web_def Let_def)

lemma sint_sub_nonneg:
  fixes t d :: u32
  assumes "unat d \<le> unat t" and "unat t < 2 ^ 31"
  shows "0 \<le> sint (t - d)"
proof -
  have "unat (t - d) = unat t - unat d" using assms(1) by (simp add: unat_sub word_le_nat_alt)
  with assms(2) have "unat (t - d) < 2 ^ 31" by simp
  then have "int (unat (t - d)) < int (2 ^ 31)" by (simp only: of_nat_less_iff)
  then have "uint (t - d) < 2 ^ 31" by simp
  then have "sint (t - d) = uint (t - d)"
    unfolding sint_uint by (intro signed_take_bit_int_eq_self) (simp_all add: order_trans [OF _ unsigned_greater_eq])
  then show ?thesis by (simp only: unsigned_greater_eq)
qed

lemma rule_loop_find:
  "rule_loop env din dout skb as ui =
     (case find (rule_hit ui) as of None \<Rightarrow> (ui, False) | Some a \<Rightarrow> (rule_apply env din dout skb a ui, True))"
  by (induction as) auto

section \<open>Properties\<close>

text \<open>
  The redirect a user gets is a well-formed HTTP response: nothing of it is truncated,
  its Content-Length is the length of the body, and with its terminating NUL it stays
  inside the 2048 bytes allocated (896 of them taken by the three scratch fields).
\<close>

theorem http_302_well_formed:
  "\<exists>location. length location < 128
     \<and> location = take 127 (location_text redirect mac ui now)
     \<and> http_payload redirect mac ui now = http_header location (length (http_data location)) @ http_data location
     \<and> length (http_payload redirect mac ui now) + 1 \<le> 2048 - (128 + 384 + 384)"
  using http_payload_fits [of redirect mac ui now]
  by (intro exI [of _ "snprintf 128 (location_text redirect mac ui now)"])
     (simp add: length_snprintf snprintf_def)

text \<open>
  C15: the redirect packet answers the request it was built from: link addresses, IP
  addresses and ports are swapped, it continues at the acknowledged sequence number and
  acknowledges exactly the request's payload, its length fields agree with each other and
  with the payload (no 16-bit wrap), and everything written lies inside the copied buffer.
\<close>

theorem http_302_answers_request:
  assumes "nos_auth_http_302 env s dev skb ui = Some r" and "skb_len skb \<le> skb_room skb"
  shows "h_dest r = h_source skb \<and> h_source r = h_dest skb
    \<and> saddr (iph r) = daddr (iph skb) \<and> daddr (iph r) = saddr (iph skb)
    \<and> source (tcph r) = dest (tcph skb) \<and> dest (tcph r) = source (tcph skb)
    \<and> seq (tcph r) = ack_seq (tcph skb)
    \<and> ack_seq (tcph r) = seq (tcph skb) + word_of_int (tcp_payload_len skb)
    \<and> uint (tot_len (iph r)) = 40 + int (length (tcp_data r))
    \<and> skb_len r = mac_len skb + uint (tot_len (iph r))
    \<and> 40 + int (length (tcp_data r)) \<le> skb_room r"
proof -
  let ?p = "http_payload (redirect_ip s) (h_source skb) ui (jiffies env)"
  have r: "nos_auth_reply_payload env ?p skb dev = Some r"
    using assms(1) by (simp add: nos_auth_http_302_def split: if_splits)
  have t: "uint (40 + word_of_nat (length ?p) :: u16) = 40 + int (length ?p)"
    by (rule uint_tot_len [OF http_payload_fits(2)])
  show ?thesis
    using r assms(2) t
    by (auto simp: nos_auth_reply_payload_def Let_def tcp_payload_len_def split: if_splits)
qed

definition demo_skb :: sk_buff where
  "demo_skb = \<lparr>h_dest = [2,0,0,0,0,1], h_source = [2,0,0,0,0,9], h_proto = 0x0800,
     iph = \<lparr>version = 4, ihl = 5, tos = 0, tot_len = 58, ip_ident = 7, frag_off = 0, ttl = 64, protocol = 6,
            ip_check = 0, saddr = 0xC0A80109, daddr = 0x08080808\<rparr>,
     tcph = \<lparr>source = 40000, dest = 80, seq = 1000, ack_seq = 2000, doff = 5, fin = False, syn = False,
             rst = False, psh = True, ack = True, window = 512, tcp_check = 0\<rparr>,
     tcp_data = ''GET / HTTP/1.1'' @ crlf @ crlf, skb_len = 58, skb_room = 128, skb_tail = 72, mac_len = 14,
     ip_off = 14, skb_summed = CHECKSUM_NONE, skb_csum = 0, csum_start = 0, csum_offset = 0, gso_size = 0,
     gso_segs = 0, gso_type = 0, skb_dev = None\<rparr>"

definition demo_env :: hook_env where
  "demo_env = \<lparr>set_test = (\<lambda>i skb par opt. 0), jiffies = 5000, HZ = 100, kmalloc_ok = True, skb_copy_ok = True,
     ip_fast_csum = (\<lambda>i. 0), csum_partial = (\<lambda>t d n. 0), csum_tcpudp_magic = (\<lambda>a b n p c. 0)\<rparr>"

definition demo_ui :: user_info where
  "demo_ui = \<lparr>u_id = 12, u_magic = 4, u_ip = [192, 168, 1, 9], rule_magic = 0, u_type = AUTH_TYPE_UNKNOWN,
     status = AUTH_NONE, rule_id = 0, macaddr = [], zone_id = 0, zone_magic = 0, ipgrp_bits = 32,
     ipgrp_magic = 0, time_stamp = 0\<rparr>"

theorem http_302_answers_request_witness:
  "\<exists>r. nos_auth_http_302 demo_env auth_demo None demo_skb demo_ui = Some r \<and> dest (tcph r) = 40000
     \<and> ack_seq (tcph r) = 1018"
proof -
  obtain r where r: "nos_auth_http_302 demo_env auth_demo None demo_skb demo_ui = Some r"
    by (simp add: nos_auth_http_302_def nos_auth_reply_payload_def demo_env_def Let_def)
  have "skb_len demo_skb \<le> skb_room demo_skb" by (simp add: demo_skb_def)
  from http_302_answers_request [OF r this] r show ?thesis
    by (simp add: demo_skb_def tcp_payload_len_def)
qed

text \<open>
  The reset made from a bare acknowledgement is a 20-byte TCP header with RST and without
  ACK, PSH and FIN, and the IP length and the buffer length both shrink to the two headers.
\<close>

theorem tcprst_well_formed:
  assumes "protocol (iph skb) = IPPROTO_TCP" and "skb_len skb = uint (tot_len (iph skb))"
    and "ihl (iph skb) \<le> 15"
  shows "let r = nos_auth_convert_tcprst env skb
    in rst (tcph r) \<and> \<not> ack (tcph r) \<and> \<not> psh (tcph r) \<and> \<not> fin (tcph r) \<and> doff (tcph r) = 5
     \<and> skb_len r = int (4 * ihl (iph skb) + 20) \<and> uint (tot_len (iph r)) = skb_len r
     \<and> saddr (iph r) = saddr (iph skb) \<and> daddr (iph r) = daddr (iph skb)
     \<and> source (tcph r) = source (tcph skb) \<and> dest (tcph r) = dest (tcph skb) \<and> seq (tcph r) = seq (tcph skb)"
proof -
  have "uint (word_of_int (int (4 * ihl (iph skb) + 20)) :: u16) = int (4 * ihl (iph skb) + 20)"
    using assms(3) uint_u16 [of "4 * ihl (iph skb) + 20"] by simp
  then show ?thesis
    using assms by (auto simp: nos_auth_convert_tcprst_def Let_def)
qed

theorem tcprst_well_formed_witness:
  "rst (tcph (nos_auth_convert_tcprst demo_env demo_skb)) \<and> skb_len (nos_auth_convert_tcprst demo_env demo_skb) = 40"
  using tcprst_well_formed [of demo_skb demo_env] by (simp add: demo_skb_def IPPROTO_TCP_def Let_def)

text \<open>
  C5: the gate holds: a packet of a user who still has to log in is accepted only towards
  the global bypass list, as DNS or DHCP over UDP, or as a TCP segment without payload;
  every other packet is dropped and its connection is marked to be dropped.
\<close>

theorem auth_gate:
  assumes "out = nos_auth_hook env s din dout skb ct ui"
    and "status (out_ui out) = AUTH_REQ" and "u_type (out_ui out) = AUTH_TYPE_WEB"
  shows "if nos_auth_match_bypass_dst env s din dout skb
           \<or> protocol (iph skb) = IPPROTO_UDP \<and> dest (tcph skb) \<in> {53, 67}
           \<or> protocol (iph skb) = IPPROTO_TCP \<and> tcp_payload_len skb \<le> 0
         then verdict_of out = NF_ACCEPT
         else verdict_of out = NF_DROP \<and> bit (ct_status (out_ct out)) IPS_NOS_DROP_BIT"
proof -
  obtain ui' h where sel: "auth_select env s din dout skb ui = (ui', h)" by force
  have out: "out = auth_web env s din dout skb ct ui' h"
    using assms sel
    by (auto simp: nos_auth_hook_def Let_def auth_status_defs auth_type_defs split: if_splits)
  have "\<not> is_http_request skb" if "tcp_payload_len skb \<le> 0"
    using that by (auto simp: is_http_request_def)
  then show ?thesis
    by (auto simp: out auth_web_def Let_def IPPROTO_TCP_def IPPROTO_UDP_def set_ct_bit_def bit_set_bit_iff
        IPS_NOS_DROP_BIT_def)
qed

definition demo_req :: user_info where
  "demo_req = demo_ui\<lparr>rule_magic := 50855, status := AUTH_REQ, u_type := AUTH_TYPE_WEB\<rparr>"

theorem auth_gate_witness:
  "verdict_of (nos_auth_hook demo_env auth_demo None None demo_skb \<lparr>ct_status = 0\<rparr> demo_req) = NF_DROP"
proof -
  let ?out = "nos_auth_hook demo_env auth_demo None None demo_skb \<lparr>ct_status = 0\<rparr> demo_req"
  have "auth_select demo_env auth_demo None None demo_skb demo_req = (demo_req, False)"
    by (simp add: auth_select_def needs_rule_def demo_req_def demo_ui_def auth_demo_def auth_status_defs)
  then have "out_ui ?out = demo_req"
    by (simp add: nos_auth_hook_def Let_def auth_web_def demo_req_def)
  then have "status (out_ui ?out) = AUTH_REQ" "u_type (out_ui ?out) = AUTH_TYPE_WEB"
    by (simp_all add: demo_req_def)
  from auth_gate [OF refl this] show ?thesis
    by (simp add: nos_auth_match_bypass_dst_def demo_env_def ip_set_test_dst_ip_def demo_skb_def
        IPPROTO_UDP_def IPPROTO_TCP_def tcp_payload_len_def)
qed

text \<open>
  Packets of one user in a row: each with the time and the configuration it meets, and before it the
  status that user space may have given the user. The result are the messages sent for each.
\<close>

record auth_packet =
  p_env :: hook_env
  p_conf :: auth_conf
  p_in :: "net_device option"
  p_out :: "net_device option"
  p_skb :: sk_buff
  p_ct :: nf_conn
  p_set :: "u8 option"

definition packet_out :: "auth_packet \<Rightarrow> user_info \<Rightarrow> hook_out" where
  "packet_out p ui =
     nos_auth_hook (p_env p) (p_conf p) (p_in p) (p_out p) (p_skb p) (p_ct p)
       (case p_set p of None \<Rightarrow> ui | Some st \<Rightarrow> fst (nt_auth_set_status ui st))"

fun hook_run :: "auth_packet list \<Rightarrow> user_info \<Rightarrow> auth_msg_t list list" where
  "hook_run [] ui = []"
| "hook_run (p # ps) ui = out_msgs (packet_out p ui) # hook_run ps (out_ui (packet_out p ui))"

lemma length_hook_run [simp]: "length (hook_run ps ui) = length ps"
  by (induction ps arbitrary: ui) simp_all

text \<open>Rules and the web gate leave the time stamp alone; only a message moves it, to the present.\<close>

lemma auth_select_stamp: "time_stamp (fst (auth_select env s din dout skb ui)) = time_stamp ui"
  by (simp add: auth_select_def rule_loop_find rule_apply_def Let_def split: option.splits)

lemma auth_web_ui: "out_ui (auth_web env s din dout skb ct ui h) = ui"
  by (simp add: auth_web_def Let_def)

lemma hook_stamp:
  fixes env s din dout skb ct ui
  defines "out \<equiv> nos_auth_hook env s din dout skb ct ui"
  shows "length (out_msgs out) \<le> 1"
    and "time_stamp (out_ui out) = (if out_msgs out = [] then time_stamp ui else jiffies env)"
    and "out_msgs out \<noteq> [] \<longrightarrow> time_after (jiffies env) (time_stamp ui + 30 * HZ env)"
proof -
  obtain ui1 h where sel: "auth_select env s din dout skb ui = (ui1, h)" by force
  then have t: "time_stamp ui1 = time_stamp ui" using auth_select_stamp [of env s din dout skb ui] by simp
  note out = out_def [unfolded nos_auth_hook_def sel Let_def prod.case]
  show "length (out_msgs out) \<le> 1" unfolding out by (simp add: auth_web_no_msgs)
  show "time_stamp (out_ui out) = (if out_msgs out = [] then time_stamp ui else jiffies env)"
    unfolding out by (simp add: auth_web_no_msgs auth_web_ui t)
  show "out_msgs out \<noteq> [] \<longrightarrow> time_after (jiffies env) (time_stamp ui + 30 * HZ env)"
    unfolding out by (simp add: auth_web_no_msgs t)
qed

lemma packet_stamp:
  shows "length (out_msgs (packet_out p ui)) \<le> 1"
    and "time_stamp (out_ui (packet_out p ui)) = (if out_msgs (packet_out p ui) = [] then time_stamp ui else jiffies (p_env p))"
    and "out_msgs (packet_out p ui) \<noteq> [] \<longrightarrow> time_after (jiffies (p_env p)) (time_stamp ui + 30 * HZ (p_env p))"
proof -
  let ?ui = "case p_set p of None \<Rightarrow> ui | Some st \<Rightarrow> fst (nt_auth_set_status ui st)"
  have "time_stamp ?ui = time_stamp ui" by (simp add: nt_auth_set_status_def Let_def split: option.splits)
  then show "length (out_msgs (packet_out p ui)) \<le> 1"
    "time_stamp (out_ui (packet_out p ui)) = (if out_msgs (packet_out p ui) = [] then time_stamp ui else jiffies (p_env p))"
    "out_msgs (packet_out p ui) \<noteq> [] \<longrightarrow> time_after (jiffies (p_env p)) (time_stamp ui + 30 * HZ (p_env p))"
    using hook_stamp [of "p_env p" "p_conf p" "p_in p" "p_out p" "p_skb p" "p_ct p" ?ui] unfolding packet_out_def by simp_all
qed

text \<open>Ticks within the interval are not after its end, also across the wrap of the 32-bit clock.\<close>

lemma not_after:
  assumes "t \<le> t'" and "t' \<le> t + 30 * unat hz" and "30 * unat hz < 2 ^ 31"
  shows "\<not> time_after (word_of_nat t') (word_of_nat t + 30 * hz)"
proof -
  have hz: "unat (30 * hz) = 30 * unat hz" using assms(3) by (simp add: unat_word_ariths)
  have "t' - t < 2 ^ 31" using assms by linarith
  moreover have "(2 :: nat) ^ 31 < 2 ^ 32" by simp
  ultimately have "t' - t < 2 ^ 32" by (rule order.strict_trans)
  then have d: "unat (word_of_nat (t' - t) :: u32) = t' - t" by (simp only: unat_of_nat) simp
  have "0 \<le> sint (30 * hz - word_of_nat (t' - t))"
    by (rule sint_sub_nonneg) (use assms in \<open>unfold hz d, linarith+\<close>)
  moreover have "word_of_nat t + 30 * hz - word_of_nat t' = 30 * hz - (word_of_nat (t' - t) :: u32)"
    using assms(1) by (simp add: of_nat_diff)
  ultimately show ?thesis unfolding time_after_def by (simp only: not_less)
qed

lemma quiet_interval:
  assumes "30 * unat hz < 2 ^ 31" and "time_stamp ui = word_of_nat t"
    and "\<forall>j < length ps. HZ (p_env (ps ! j)) = hz \<and> jiffies (p_env (ps ! j)) = word_of_nat (time j) \<and> t \<le> time j \<and> time j \<le> t + 30 * unat hz"
    and "j < length ps"
  shows "hook_run ps ui ! j = []"
  using assms(2-4)
proof (induction ps arbitrary: ui time j)
  case Nil
  then show ?case by simp
next
  case (Cons p ps)
  have p: "HZ (p_env p) = hz" "jiffies (p_env p) = word_of_nat (time 0)" "t \<le> time 0" "time 0 \<le> t + 30 * unat hz"
    using Cons.prems(2) by (force dest: spec [of _ 0])+
  then have q: "out_msgs (packet_out p ui) = []"
    using packet_stamp(3) [of p ui] not_after [OF p(3,4) assms(1)] Cons.prems(1) by auto
  then have "time_stamp (out_ui (packet_out p ui)) = word_of_nat t" using packet_stamp(2) [of p ui] Cons.prems(1) by simp
  moreover have "\<forall>j < length ps. HZ (p_env (ps ! j)) = hz \<and> jiffies (p_env (ps ! j)) = word_of_nat (time (Suc j)) \<and> t \<le> time (Suc j)
      \<and> time (Suc j) \<le> t + 30 * unat hz"
    using Cons.prems(2) by force
  ultimately show ?case using q Cons.IH [of "out_ui (packet_out p ui)" "\<lambda>j. time (Suc j)" "j - 1"] Cons.prems(3) by (cases j) auto
qed

lemma hook_run_suffix:
  assumes "i < length ps"
  obtains ui' where "hook_run ps ui ! i = out_msgs (packet_out (ps ! i) ui')"
    and "\<forall>j. i < j \<and> j < length ps \<longrightarrow> hook_run ps ui ! j = hook_run (drop (Suc i) ps) (out_ui (packet_out (ps ! i) ui')) ! (j - Suc i)"
proof -
  have "\<exists>ui'. hook_run ps ui ! i = out_msgs (packet_out (ps ! i) ui') \<and>
      (\<forall>j. i < j \<and> j < length ps \<longrightarrow> hook_run ps ui ! j = hook_run (drop (Suc i) ps) (out_ui (packet_out (ps ! i) ui')) ! (j - Suc i))"
    using assms
  proof (induction ps arbitrary: ui i)
    case Nil
    then show ?case by simp
  next
    case (Cons p ps)
    show ?case
    proof (cases i)
      case 0
      then show ?thesis by (intro exI [of _ ui]) (auto simp: nth_Cons split: nat.splits)
    next
      case (Suc k)
      then obtain ui' where u: "hook_run ps (out_ui (packet_out p ui)) ! k = out_msgs (packet_out (ps ! k) ui')"
        "\<forall>j. k < j \<and> j < length ps \<longrightarrow> hook_run ps (out_ui (packet_out p ui)) ! j
           = hook_run (drop (Suc k) ps) (out_ui (packet_out (ps ! k) ui')) ! (j - Suc k)"
        using Cons.IH [of k "out_ui (packet_out p ui)"] Cons.prems by auto
      show ?thesis
      proof (intro exI conjI allI impI)
        show "hook_run (p # ps) ui ! i = out_msgs (packet_out ((p # ps) ! i) ui')" using u(1) Suc by simp
        fix j assume j: "i < j \<and> j < length (p # ps)"
        then obtain m where "j = Suc m" by (cases j) auto
        then show "hook_run (p # ps) ui ! j = hook_run (drop (Suc i) (p # ps)) (out_ui (packet_out ((p # ps) ! i) ui')) ! (j - Suc i)"
          using u(2) j Suc by simp
      qed
    qed
  qed
  then show thesis using that by blast
qed

text \<open>
  C16: a user causes at most one keep-alive message per 30 seconds. Take any sequence of packets of one
  user at times that do not decrease, whatever the packets, connections and configurations and
  whatever status user space sets in between. Each packet sends at most one message, and between two packets
  that send one lie more than 30 * HZ ticks, also across wraps of the 32-bit clock.
\<close>

theorem keepalive_rate:
  assumes "\<forall>j < length ps. HZ (p_env (ps ! j)) = hz \<and> jiffies (p_env (ps ! j)) = word_of_nat (time j)"
    and "\<forall>i j. i \<le> j \<and> j < length ps \<longrightarrow> time i \<le> time j" and "30 * unat hz < 2 ^ 31" and "i < j" and "j < length ps"
  shows "length (hook_run ps ui ! i) \<le> 1 \<and> (hook_run ps ui ! i \<noteq> [] \<and> hook_run ps ui ! j \<noteq> [] \<longrightarrow> time i + 30 * unat hz < time j)"
proof -
  obtain ui' where u: "hook_run ps ui ! i = out_msgs (packet_out (ps ! i) ui')"
    "hook_run ps ui ! j = hook_run (drop (Suc i) ps) (out_ui (packet_out (ps ! i) ui')) ! (j - Suc i)"
    using hook_run_suffix [of i ps ui] assms(4,5) by auto
  have "hook_run ps ui ! j = []" if sent: "hook_run ps ui ! i \<noteq> []" and soon: "time j \<le> time i + 30 * unat hz"
  proof -
    let ?qs = "take (j - i) (drop (Suc i) ps)"
    have take: "hook_run (take n qs) v = take n (hook_run qs v)" for n qs v
      by (induction qs arbitrary: n v) (simp_all add: take_Cons split: nat.splits)
    have "time_stamp (out_ui (packet_out (ps ! i) ui')) = word_of_nat (time i)"
      using packet_stamp(2) [of "ps ! i" ui'] sent u(1) assms(1,4,5) by auto
    moreover have "\<forall>k < length ?qs. HZ (p_env (?qs ! k)) = hz \<and> jiffies (p_env (?qs ! k)) = word_of_nat (time (Suc i + k)) \<and> time i \<le> time (Suc i + k)
        \<and> time (Suc i + k) \<le> time i + 30 * unat hz"
    proof (intro allI impI)
      fix k assume k: "k < length ?qs"
      then have "Suc i + k \<le> j" "Suc i + k < length ps" using assms(4,5) by auto
      moreover from this have "time (Suc i + k) \<le> time j" "time i \<le> time (Suc i + k)" using assms(2,5) by simp_all
      ultimately show "HZ (p_env (?qs ! k)) = hz \<and> jiffies (p_env (?qs ! k)) = word_of_nat (time (Suc i + k)) \<and> time i \<le> time (Suc i + k)
        \<and> time (Suc i + k) \<le> time i + 30 * unat hz"
        using assms(1) [rule_format, of "Suc i + k"] k soon by simp
    qed
    ultimately have "hook_run ?qs (out_ui (packet_out (ps ! i) ui')) ! (j - Suc i) = []"
      using assms(4,5) by (intro quiet_interval [OF assms(3), where t = "time i" and time = "\<lambda>k. time (Suc i + k)"]) simp_all
    then show ?thesis unfolding u(2) take using assms(4) by simp
  qed
  moreover have "length (hook_run ps ui ! i) \<le> 1" unfolding u(1) by (rule packet_stamp(1))
  ultimately show ?thesis by fastforce
qed

definition demo_ok :: user_info where
  "demo_ok = demo_ui\<lparr>status := AUTH_OK, u_type := AUTH_TYPE_WEB\<rparr>"

definition demo_packet :: "u32 \<Rightarrow> auth_packet" where
  "demo_packet now = \<lparr>p_env = demo_env\<lparr>jiffies := now\<rparr>, p_conf = auth_demo, p_in = None, p_out = None, p_skb = demo_skb, p_ct = \<lparr>ct_status = 0\<rparr>,
     p_set = Some AUTH_OK\<rparr>"

theorem keepalive_rate_witness:
  "hook_run [demo_packet 5000, demo_packet 6000, demo_packet 7999] demo_ok ! 0 \<noteq> [] \<and>
   hook_run [demo_packet 5000, demo_packet 6000, demo_packet 7999] demo_ok ! 2 = []"
proof -
  let ?ps = "[demo_packet 5000, demo_packet 6000, demo_packet 7999]"
  let ?time = "\<lambda>j :: nat. if j = 0 then 5000 else if j = 1 then 6000 else (7999 :: nat)"
  have sent: "hook_run ?ps demo_ok ! 0 \<noteq> []"
    by (simp add: packet_out_def demo_packet_def nt_auth_set_status_def nos_auth_hook_def auth_select_def needs_rule_def demo_ok_def demo_ui_def
        demo_env_def auth_status_defs time_after_def)
  have a: "\<forall>j < length ?ps. HZ (p_env (?ps ! j)) = 100 \<and> jiffies (p_env (?ps ! j)) = word_of_nat (?time j)"
    by (auto simp: demo_packet_def demo_env_def nth_Cons less_Suc_eq split: nat.splits)
  have b: "\<forall>i j. i \<le> j \<and> j < length ?ps \<longrightarrow> ?time i \<le> ?time j" by auto
  have c: "30 * unat (100 :: u32) < 2 ^ 31" "(0 :: nat) < 2" "2 < length ?ps" by simp_all
  from keepalive_rate [OF a b c, of demo_ok] sent show ?thesis by (simp del: hook_run.simps)
qed

end
