(* ===== verification/Nos_Main.thy ===== *)
theory Nos_Main
  imports Auth_Hook
begin

text \<open>
  \<open>drivers/nos/src/nos_main.c\<close>: the three netfilter hooks, which put the zone table, the ip
  groups and the authentication rules together, and the start and stop of the module with
  the unwinding of a failed start; also the character device set-up that
  \<open>nos_zone_init\<close>, \<open>nos_ipgrp_init\<close> and \<open>nos_auth_init\<close> share.
\<close>

section \<open>The hooks\<close>

record nos_track =
  ui_src :: user_info
  ui_dst :: user_info

text \<open>
  What \<open>nf_ct_get\<close>, \<open>nf_ct_is_untracked\<close>, \<open>CTINFO2DIR\<close> and \<open>nf_ct_get_nos\<close> give for a
  packet.
\<close>

record conn_view =
  conn :: nf_conn
  untracked :: bool
  dir_original :: bool
  nos_of :: "nos_track option"

text \<open>\<open>nt_user\<close> and \<open>nt_peer\<close>: the node, with the assertion on its id.\<close>

definition nt_user :: "u32 \<Rightarrow> nos_track \<Rightarrow> user_info run" where
  "nt_user nos_user_info_max nt =
     (let ui = ui_src nt in if u_id ui < nos_user_info_max then Ret ui else Fault BugOn)"

definition nt_peer :: "u32 \<Rightarrow> nos_track \<Rightarrow> user_info run" where
  "nt_peer nos_user_info_max nt =
     (let ui = ui_dst nt in if u_id ui < nos_user_info_max then Ret ui else Fault BugOn)"

definition nos_pre_hook :: "u32 \<Rightarrow> conn_view option \<Rightarrow> verdict" where
  "nos_pre_hook disabled co =
     (if disabled \<noteq> 0 then NF_ACCEPT
      else case co of
        None \<Rightarrow> NF_ACCEPT
      | Some c \<Rightarrow>
          (if untracked c then NF_ACCEPT
           else if bit (ct_status (conn c)) IPS_NOS_DROP_BIT then NF_DROP
           else if bit (ct_status (conn c)) IPS_NOS_BYPASS_BIT then NF_ACCEPT
           else if nos_of c = None then NF_ACCEPT
           else NF_ACCEPT))"

record nos_conf =
  zone_c :: zone_conf
  ipgrp_c :: ipgrp_conf
  auth_c :: auth_conf

text \<open>The lookups that refresh the cached zone and group mask of the two users.\<close>

definition refresh_zone :: "nos_conf \<Rightarrow> net_device \<Rightarrow> user_info \<Rightarrow> user_info" where
  "refresh_zone nc dev ui =
     (if zone_magic ui \<noteq> g_zone_conf_magic (zone_c nc)
      then ui\<lparr>zone_id := nos_zone_match (zone_c nc) (ifindex dev), zone_magic := g_zone_conf_magic (zone_c nc)\<rparr>
      else ui)"

definition refresh_ipgrp :: "nos_conf \<Rightarrow> u64 \<Rightarrow> user_info \<Rightarrow> user_info" where
  "refresh_ipgrp nc bits ui =
     (if ipgrp_magic ui \<noteq> g_ipgrp_conf_magic (ipgrp_c nc)
      then ui\<lparr>ipgrp_bits := bits, ipgrp_magic := g_ipgrp_conf_magic (ipgrp_c nc)\<rparr>
      else ui)"

datatype fw_result = Pass | Hooked hook_out user_info

text \<open>\<open>Pass\<close> is NF_ACCEPT without any effect; \<open>Hooked\<close> carries the peer node as well.\<close>

definition nos_fw_hook ::
  "hook_env \<Rightarrow> u32 \<Rightarrow> nos_conf \<Rightarrow> u32 \<Rightarrow> net_device \<Rightarrow> net_device \<Rightarrow> sk_buff \<Rightarrow> conn_view option \<Rightarrow> fw_result run" where
  "nos_fw_hook env nos_user_info_max nc disabled din dout skb co =
     (if disabled \<noteq> 0 then Ret Pass
      else case co of
        None \<Rightarrow> Ret Pass
      | Some c \<Rightarrow>
          (if untracked c then Ret Pass
           else if bit (ct_status (conn c)) IPS_NOS_BYPASS_BIT then Ret Pass
           else if \<not> dir_original c then Ret Pass
           else case nos_of c of
             None \<Rightarrow> Ret Pass
           | Some nt \<Rightarrow>
               run_bind (nt_user nos_user_info_max nt) (\<lambda>ui.
               run_bind (nt_peer nos_user_info_max nt) (\<lambda>pi.
                 let pi = refresh_zone nc dout pi;
                     ui = refresh_zone nc din ui;
                     pi = refresh_ipgrp nc
                       (nos_ipgrp_match_dst (set_test env) (ipgrp_c nc) (Some din) (Some dout) skb) pi;
                     ui = refresh_ipgrp nc
                       (nos_ipgrp_match_src (set_test env) (ipgrp_c nc) (Some din) (Some dout) skb) ui
                 in Ret (Hooked (nos_auth_hook env (auth_c nc) (Some din) (Some dout) skb (conn c) ui) pi)))))"

definition fw_verdict :: "fw_result \<Rightarrow> verdict" where
  "fw_verdict r = (case r of Pass \<Rightarrow> NF_ACCEPT | Hooked out pi \<Rightarrow> verdict_of out)"

definition nos_post_hook :: "u32 \<Rightarrow> conn_view option \<Rightarrow> verdict" where
  "nos_post_hook disabled co = NF_ACCEPT"

section \<open>Character devices\<close>

datatype res = RRegion | RCdev | RClass | RDevice

text \<open>
  The kernel's answers: \<open>class_create\<close> returns an error pointer on failure, and
  \<open>device_create\<close> does too (\<open>PtrErr\<close>); the source tests its result against NULL only.
\<close>

datatype kptr = PtrNull | PtrErr | PtrOk

record chr_env =
  register_ret :: int
  alloc_ret :: "int \<times> nat \<times> nat"
  cdev_add_ret :: int
  class_create_ret :: kptr
  device_create_ret :: kptr

record chrdev =
  dev_major :: nat
  dev_minor :: nat
  holds :: "res list"

definition acquire :: "res \<Rightarrow> chrdev \<Rightarrow> chrdev" where
  "acquire r c = c\<lparr>holds := r # holds c\<rparr>"

definition release :: "res \<Rightarrow> chrdev \<Rightarrow> chrdev" where
  "release r c = c\<lparr>holds := remove1 r (holds c)\<rparr>"

definition chrdev_init :: "chr_env \<Rightarrow> ('s \<Rightarrow> 's) \<Rightarrow> chrdev \<times> 's \<Rightarrow> (chrdev \<times> 's) \<times> int" where
  "chrdev_init e conf_init cs =
     (let (c, s) = cs;
          (retval, ma, mi) =
            (if dev_major c > 0 then (register_ret e, dev_major c, dev_minor c) else alloc_ret e)
      in if retval < 0 then ((c, s), retval)
         else
          (let c = acquire RRegion (c\<lparr>dev_major := ma, dev_minor := mi\<rparr>) in
           if cdev_add_ret e \<noteq> 0 then ((release RRegion c, s), cdev_add_ret e)
           else
            (let c = acquire RCdev c in
             if class_create_ret e = PtrErr then ((release RRegion (release RCdev c), s), -22)
             else
              (let c = acquire RClass c in
               if device_create_ret e = PtrNull
               then ((release RRegion (release RCdev (release RClass c)), s), -22)
               else
                (let c = (if device_create_ret e = PtrOk then acquire RDevice c else c)
                 in ((c, conf_init s), 0))))))"

definition chrdev_exit :: "('s \<Rightarrow> 's) \<Rightarrow> chrdev \<times> 's \<Rightarrow> chrdev \<times> 's" where
  "chrdev_exit conf_exit cs =
     (let (c, s) = cs; s = conf_exit s
      in (release RRegion (release RCdev (release RClass (release RDevice c))), s))"

definition nos_zone_init :: "chr_env \<Rightarrow> chrdev \<times> zone_conf \<Rightarrow> (chrdev \<times> zone_conf) \<times> int" where
  "nos_zone_init e = chrdev_init e zone_conf_init"

definition nos_zone_exit :: "chrdev \<times> zone_conf \<Rightarrow> chrdev \<times> zone_conf" where
  "nos_zone_exit = chrdev_exit zone_conf_exit"

definition nos_ipgrp_init :: "chr_env \<Rightarrow> chrdev \<times> ipgrp_conf \<Rightarrow> (chrdev \<times> ipgrp_conf) \<times> int" where
  "nos_ipgrp_init e = chrdev_init e ipgrp_conf_init"

definition nos_ipgrp_exit :: "chrdev \<times> ipgrp_conf \<Rightarrow> chrdev \<times> ipgrp_conf" where
  "nos_ipgrp_exit = chrdev_exit ipgrp_conf_exit"

definition nos_auth_init :: "chr_env \<Rightarrow> chrdev \<times> auth_conf \<Rightarrow> (chrdev \<times> auth_conf) \<times> int" where
  "nos_auth_init e = chrdev_init e auth_conf_init"

definition nos_auth_exit :: "chrdev \<times> auth_conf \<Rightarrow> chrdev \<times> auth_conf" where
  "nos_auth_exit = chrdev_exit auth_conf_exit"

section \<open>Start and stop of the module\<close>

record nos_module =
  klog_on :: bool
  msg_on :: bool
  hooks_on :: bool
  zone_d :: "chrdev \<times> zone_conf"
  ipgrp_d :: "chrdev \<times> ipgrp_conf"
  auth_d :: "chrdev \<times> auth_conf"

record nos_env =
  klog_ok :: bool
  msg_init_ret :: int
  zone_e :: chr_env
  ipgrp_e :: chr_env
  auth_e :: chr_env
  register_hooks_ret :: int

definition nos_init :: "nos_env \<Rightarrow> nos_module \<Rightarrow> nos_module \<times> int" where
  "nos_init e m =
     (if \<not> klog_ok e then (m, -12)
      else
       (let m = m\<lparr>klog_on := True\<rparr> in
        if msg_init_ret e \<noteq> 0 then (m\<lparr>klog_on := False\<rparr>, msg_init_ret e)
        else
         (let m = m\<lparr>msg_on := True\<rparr>; (zd, ret) = nos_zone_init (zone_e e) (zone_d m); m = m\<lparr>zone_d := zd\<rparr> in
          if ret \<noteq> 0 then (m\<lparr>msg_on := False, klog_on := False\<rparr>, ret)
          else
           (let (gd, ret) = nos_ipgrp_init (ipgrp_e e) (ipgrp_d m); m = m\<lparr>ipgrp_d := gd\<rparr> in
            if ret \<noteq> 0
            then (m\<lparr>zone_d := nos_zone_exit (zone_d m), msg_on := False, klog_on := False\<rparr>, ret)
            else
             (let (ad, ret) = nos_auth_init (auth_e e) (auth_d m); m = m\<lparr>auth_d := ad\<rparr> in
              if ret \<noteq> 0
              then (m\<lparr>ipgrp_d := nos_ipgrp_exit (ipgrp_d m), zone_d := nos_zone_exit (zone_d m),
                      msg_on := False, klog_on := False\<rparr>, ret)
              else if register_hooks_ret e \<noteq> 0
              then (m\<lparr>auth_d := nos_auth_exit (auth_d m), ipgrp_d := nos_ipgrp_exit (ipgrp_d m),
                      zone_d := nos_zone_exit (zone_d m), msg_on := False, klog_on := False\<rparr>,
                    register_hooks_ret e)
              else (m\<lparr>hooks_on := True\<rparr>, 0))))))"

definition nos_exit :: "nos_module \<Rightarrow> nos_module" where
  "nos_exit m =
     m\<lparr>hooks_on := False, auth_d := nos_auth_exit (auth_d m), ipgrp_d := nos_ipgrp_exit (ipgrp_d m),
       zone_d := nos_zone_exit (zone_d m), msg_on := False, klog_on := False\<rparr>"

section \<open>Facts\<close>

text \<open>Nothing held by the module: no device resources and no switch on.\<close>

definition module_idle :: "nos_module \<Rightarrow> bool" where
  "module_idle m \<longleftrightarrow> \<not> klog_on m \<and> \<not> msg_on m \<and> \<not> hooks_on m
     \<and> holds (fst (zone_d m)) = [] \<and> holds (fst (ipgrp_d m)) = [] \<and> holds (fst (auth_d m)) = []"

definition dev_full :: "chrdev \<times> 's \<Rightarrow> bool" where
  "dev_full d \<longleftrightarrow> holds (fst d) = [RDevice, RClass, RCdev, RRegion]"

lemma chrdev_init_cases:
  assumes "holds (fst d) = []"
  shows "snd (chrdev_init e ci d) \<noteq> 0 \<longrightarrow> holds (fst (fst (chrdev_init e ci d))) = []"
    and "snd (chrdev_init e ci d) = 0 \<longrightarrow> holds (fst (fst (chrdev_init e ci d))) =
      (if device_create_ret e = PtrOk then [RDevice, RClass, RCdev, RRegion] else [RClass, RCdev, RRegion])"
  using assms by (auto simp: chrdev_init_def acquire_def release_def Let_def split: prod.splits)

lemma chrdev_init_fails:
  "holds (fst d) = [] \<Longrightarrow> chrdev_init e ci d = (d', r) \<Longrightarrow> r \<noteq> 0 \<Longrightarrow> holds (fst d') = []"
  using chrdev_init_cases(1) [of d e ci] by simp

lemma chrdev_init_conf: "chrdev_init e ci d = (d', 0) \<Longrightarrow> snd d' = ci (snd d)"
  by (auto simp: chrdev_init_def Let_def split: prod.splits if_splits)

lemma chrdev_exit_holds:
  assumes "holds (fst d) = [RDevice, RClass, RCdev, RRegion] \<or> holds (fst d) = [RClass, RCdev, RRegion]"
  shows "holds (fst (chrdev_exit ce d)) = []"
  using assms by (auto simp: chrdev_exit_def release_def Let_def split: prod.splits)

lemma chrdev_exit_after_init:
  assumes "holds (fst d) = []" "chrdev_init e ci d = (d', 0)"
  shows "holds (fst (chrdev_exit ce d')) = []"
  using chrdev_init_cases(2) [OF assms(1), of e ci] assms(2)
  by (intro chrdev_exit_holds) (auto split: if_splits)

lemmas dev_inits = nos_zone_init_def nos_ipgrp_init_def nos_auth_init_def

lemmas dev_exits = nos_zone_exit_def nos_ipgrp_exit_def nos_auth_exit_def

lemma nos_init_fails_idle:
  assumes "module_idle m" "nos_init e m = (m', r)" "r \<noteq> 0"
  shows "module_idle m'"
proof -
  obtain zd zr where z: "chrdev_init (zone_e e) zone_conf_init (zone_d m) = (zd, zr)" by (metis surj_pair)
  obtain gd gr where g: "chrdev_init (ipgrp_e e) ipgrp_conf_init (ipgrp_d m) = (gd, gr)" by (metis surj_pair)
  obtain ad ar where a: "chrdev_init (auth_e e) auth_conf_init (auth_d m) = (ad, ar)" by (metis surj_pair)
  have idle: "holds (fst (zone_d m)) = []" "holds (fst (ipgrp_d m)) = []" "holds (fst (auth_d m)) = []"
    using assms(1) by (simp_all add: module_idle_def)
  note zf = chrdev_init_fails [OF idle(1) z] chrdev_exit_after_init [OF idle(1), of "zone_e e" zone_conf_init zd]
  note gf = chrdev_init_fails [OF idle(2) g] chrdev_exit_after_init [OF idle(2), of "ipgrp_e e" ipgrp_conf_init gd]
  note af = chrdev_init_fails [OF idle(3) a] chrdev_exit_after_init [OF idle(3), of "auth_e e" auth_conf_init ad]
  have r: "nos_init e m = (m', r)" by (rule assms(2))
  show ?thesis
    using r assms(1,3) zf gf af z g a
    by (auto simp: nos_init_def dev_inits dev_exits z g a Let_def module_idle_def split: if_splits)
qed

lemma nos_init_ok:
  assumes "module_idle m" "nos_init e m = (m', 0)"
  shows "klog_on m' \<and> msg_on m' \<and> hooks_on m' \<and> module_idle (nos_exit m')"
    and "snd (zone_d m') = zone_conf_init (snd (zone_d m))"
    and "snd (ipgrp_d m') = ipgrp_conf_init (snd (ipgrp_d m))"
    and "snd (auth_d m') = auth_conf_init (snd (auth_d m))"
proof -
  obtain zd zr where z: "chrdev_init (zone_e e) zone_conf_init (zone_d m) = (zd, zr)" by (metis surj_pair)
  obtain gd gr where g: "chrdev_init (ipgrp_e e) ipgrp_conf_init (ipgrp_d m) = (gd, gr)" by (metis surj_pair)
  obtain ad ar where a: "chrdev_init (auth_e e) auth_conf_init (auth_d m) = (ad, ar)" by (metis surj_pair)
  have m': "m' = m\<lparr>klog_on := True, msg_on := True, zone_d := zd, ipgrp_d := gd, auth_d := ad, hooks_on := True\<rparr>"
    and zero: "zr = 0" "gr = 0" "ar = 0"
    using assms(2) by (auto simp: nos_init_def dev_inits z g a Let_def split: if_splits)
  have idle: "holds (fst (zone_d m)) = []" "holds (fst (ipgrp_d m)) = []" "holds (fst (auth_d m)) = []"
    using assms(1) by (simp_all add: module_idle_def)
  have "holds (fst (chrdev_exit ce zd)) = []" "holds (fst (chrdev_exit cg gd)) = []"
    "holds (fst (chrdev_exit ca ad)) = []" for ce cg ca
    using chrdev_exit_after_init z g a zero idle by blast+
  then show "klog_on m' \<and> msg_on m' \<and> hooks_on m' \<and> module_idle (nos_exit m')"
    by (simp add: m' nos_exit_def module_idle_def dev_exits)
  show "snd (zone_d m') = zone_conf_init (snd (zone_d m))"
    "snd (ipgrp_d m') = ipgrp_conf_init (snd (ipgrp_d m))"
    "snd (auth_d m') = auth_conf_init (snd (auth_d m))"
    using chrdev_init_conf [OF z [unfolded zero]] chrdev_init_conf [OF g [unfolded zero]]
      chrdev_init_conf [OF a [unfolded zero]]
    by (simp_all add: m')
qed

section \<open>The policy the hooks implement\<close>

text \<open>
  The specification, without caches and masks: the first rule whose zone is that of the
  input interface and whose group contains the packet's source.
\<close>

definition policy_rule ::
  "hook_env \<Rightarrow> nos_conf \<Rightarrow> net_device \<Rightarrow> net_device \<Rightarrow> sk_buff \<Rightarrow> auth_rule_t option" where
  "policy_rule env nc din dout skb =
     find (\<lambda>a. nos_zone_match (zone_c nc) (ifindex din) = src_zone_id a
         \<and> list_ex (\<lambda>g. g_id g = src_ipgrp_id a
              \<and> grp_hit ip_set_test_src_ip (set_test env) (Some din) (Some dout) skb g) (ipgrps (ipgrp_c nc)))
       (auths (auth_c nc))"

text \<open>Packets that pass even before the user has logged in.\<close>

definition exempt :: "hook_env \<Rightarrow> auth_conf \<Rightarrow> net_device option \<Rightarrow> net_device option \<Rightarrow> sk_buff \<Rightarrow> bool" where
  "exempt env s din dout skb \<longleftrightarrow>
     nos_auth_match_bypass_dst env s din dout skb
   \<or> protocol (iph skb) = IPPROTO_UDP \<and> (dest (tcph skb) = 53 \<or> dest (tcph skb) = 67)
   \<or> protocol (iph skb) = IPPROTO_TCP \<and> tcp_payload_len skb \<le> 0"

definition policy_verdict :: "hook_env \<Rightarrow> nos_conf \<Rightarrow> net_device \<Rightarrow> net_device \<Rightarrow> sk_buff \<Rightarrow> verdict" where
  "policy_verdict env nc din dout skb =
     (case policy_rule env nc din dout skb of
        None \<Rightarrow> NF_ACCEPT
      | Some a \<Rightarrow>
          (if auth_type a = AUTH_TYPE_AUTO \<or> white_listed env (Some din) (Some dout) skb a
              \<or> exempt env (auth_c nc) (Some din) (Some dout) skb
           then NF_ACCEPT else NF_DROP))"

lemma auth_web_verdict:
  "verdict_of (auth_web env s din dout skb ct ui h) = (if exempt env s din dout skb then NF_ACCEPT else NF_DROP)"
proof -
  have "\<not> is_http_request skb" if "tcp_payload_len skb \<le> 0"
    using that by (auto simp: is_http_request_def)
  then show ?thesis
    by (auto simp: auth_web_def exempt_def Let_def IPPROTO_TCP_def IPPROTO_UDP_def)
qed

lemma and_nonzero_iff: "(a :: u64) AND b \<noteq> 0 \<longleftrightarrow> (\<exists>k. bit a k \<and> bit b k)"
proof -
  have "k < 64" if "bit a k" for k using bit_imp_le_length [OF that] by simp
  then show ?thesis by (auto simp: bit_eq_iff bit_and_iff)
qed

lemma rule_hit_bit:
  "unat (src_ipgrp_id a) < 31 \<Longrightarrow>
     rule_hit ui a \<longleftrightarrow> zone_id ui = src_zone_id a \<and> bit (ipgrp_bits ui) (unat (src_ipgrp_id a))"
  by (auto simp: rule_hit_def and_nonzero_iff bit_int_shl1_small)

lemma unat_eq_comm: "unat (a :: u32) = unat b \<longleftrightarrow> b = a"
  by (auto dest: unsigned_word_eqI)

lemma find_cong_set: "(\<And>a. a \<in> set as \<Longrightarrow> P a = Q a) \<Longrightarrow> find P as = find Q as"
  by (induction as) auto

lemma hook_fresh_verdict:
  assumes "status ui = AUTH_NONE"
  shows "verdict_of (nos_auth_hook env s din dout skb ct ui) =
    (case find (rule_hit ui) (auths s) of
       None \<Rightarrow> NF_ACCEPT
     | Some a \<Rightarrow> if auth_type a = AUTH_TYPE_AUTO \<or> white_listed env din dout skb a \<or> exempt env s din dout skb
                then NF_ACCEPT else NF_DROP)"
proof -
  let ?ui0 = "ui\<lparr>rule_magic := g_auth_conf_magic s, u_type := AUTH_TYPE_UNKNOWN, status := AUTH_BYPASS,
              rule_id := INVALID_AUTH_RULE_ID, macaddr := h_source skb\<rparr>"
  have hit: "rule_hit ?ui0 = rule_hit ui" by (simp add: rule_hit_def fun_eq_iff)
  have sel: "auth_select env s din dout skb ui =
      (case find (rule_hit ui) (auths s) of None \<Rightarrow> (?ui0, False) | Some a \<Rightarrow> (rule_apply env din dout skb a ?ui0, True))"
    using assms by (simp add: auth_select_def needs_rule_def rule_loop_find hit)
  show ?thesis
  proof (cases "find (rule_hit ui) (auths s)")
    case None
    then show ?thesis by (simp add: nos_auth_hook_def sel auth_status_defs)
  next
    case (Some a)
    then show ?thesis
      by (simp add: nos_auth_hook_def sel rule_apply_def Let_def auth_status_defs auth_type_defs auth_web_verdict)
  qed
qed

section \<open>Properties\<close>

text \<open>
  C4: on the first packet of a new user the forwarding hook implements the access policy:
  through the cached zone and the group mask it reaches the verdict of the first rule that
  names the zone of the input interface and a group that contains the source address. The
  group ids in use must be below 31, the range in which the mask is exact.
\<close>

theorem fw_hook_policy:
  assumes "co = Some c" and "\<not> untracked c" and "\<not> bit (ct_status (conn c)) IPS_NOS_BYPASS_BIT"
    and "dir_original c" and "nos_of c = Some nt"
    and "u_id (ui_src nt) < umax" and "u_id (ui_dst nt) < umax"
    and "status (ui_src nt) = AUTH_NONE" and "zone_magic (ui_src nt) \<noteq> g_zone_conf_magic (zone_c nc)"
    and "ipgrp_magic (ui_src nt) \<noteq> g_ipgrp_conf_magic (ipgrp_c nc)"
    and "\<forall>g \<in> set (ipgrps (ipgrp_c nc)). unat (g_id g) < 31"
    and "\<forall>a \<in> set (auths (auth_c nc)). unat (src_ipgrp_id a) < 31"
  shows "\<exists>out pi. nos_fw_hook env umax nc 0 din dout skb co = Ret (Hooked out pi)
    \<and> verdict_of out = policy_verdict env nc din dout skb"
proof -
  define ui where "ui = refresh_ipgrp nc
     (nos_ipgrp_match_src (set_test env) (ipgrp_c nc) (Some din) (Some dout) skb) (refresh_zone nc din (ui_src nt))"
  have ui: "zone_id ui = nos_zone_match (zone_c nc) (ifindex din)"
    "ipgrp_bits ui = nos_ipgrp_match_src (set_test env) (ipgrp_c nc) (Some din) (Some dout) skb"
    "status ui = AUTH_NONE"
    using assms(8-10) by (simp_all add: ui_def refresh_ipgrp_def refresh_zone_def)
  have "rule_hit ui a \<longleftrightarrow> nos_zone_match (zone_c nc) (ifindex din) = src_zone_id a
       \<and> list_ex (\<lambda>g. g_id g = src_ipgrp_id a
            \<and> grp_hit ip_set_test_src_ip (set_test env) (Some din) (Some dout) skb g) (ipgrps (ipgrp_c nc))"
    if "a \<in> set (auths (auth_c nc))" for a
    using that assms(11,12)
    by (auto simp: rule_hit_bit ui ipgrp_match_bits bit_int_shl1_small list_ex_iff unat_eq_comm)
  then have "find (rule_hit ui) (auths (auth_c nc)) = policy_rule env nc din dout skb"
    unfolding policy_rule_def by (rule find_cong_set)
  with hook_fresh_verdict [OF ui(3), of env "auth_c nc" "Some din" "Some dout" skb "conn c"]
  have "verdict_of (nos_auth_hook env (auth_c nc) (Some din) (Some dout) skb (conn c) ui)
      = policy_verdict env nc din dout skb"
    by (simp add: policy_verdict_def)
  then show ?thesis
    using assms(1-7) by (simp add: nos_fw_hook_def nt_user_def nt_peer_def Let_def ui_def)
qed

definition demo_nc :: nos_conf where
  "demo_nc = \<lparr>zone_c = zone_demo 0, ipgrp_c = ipgrp_demo, auth_c = auth_demo\<rparr>"

definition demo_conn :: conn_view where
  "demo_conn = \<lparr>conn = \<lparr>ct_status = 0\<rparr>, untracked = False, dir_original = True,
     nos_of = Some \<lparr>ui_src = demo_ui, ui_dst = demo_ui\<lparr>u_id := 13\<rparr>\<rparr>\<rparr>"

definition demo_lan_env :: hook_env where
  "demo_lan_env = demo_env\<lparr>set_test := (\<lambda>i skb par opt.
     if i = 4 \<and> opt_flags opt = IPSET_DIM_ONE_SRC \<and> saddr (iph skb) = 0xC0A80109 then 1 else 0)\<rparr>"

theorem fw_hook_policy_witness:
  "\<exists>out pi. nos_fw_hook demo_lan_env 4096 demo_nc 0 \<lparr>ifindex = 7, netns = 0\<rparr> \<lparr>ifindex = 2, netns = 0\<rparr> demo_skb
      (Some demo_conn) = Ret (Hooked out pi) \<and> verdict_of out = NF_ACCEPT"
proof -
  have "\<exists>out pi. nos_fw_hook demo_lan_env 4096 demo_nc 0 \<lparr>ifindex = 7, netns = 0\<rparr> \<lparr>ifindex = 2, netns = 0\<rparr> demo_skb
      (Some demo_conn) = Ret (Hooked out pi)
    \<and> verdict_of out = policy_verdict demo_lan_env demo_nc \<lparr>ifindex = 7, netns = 0\<rparr> \<lparr>ifindex = 2, netns = 0\<rparr> demo_skb"
    by (rule fw_hook_policy [OF refl, where nt = "the (nos_of demo_conn)"])
       (simp_all add: demo_conn_def demo_ui_def demo_nc_def zone_demo_def ipgrp_demo_def auth_demo_def)
  moreover have "policy_verdict demo_lan_env demo_nc \<lparr>ifindex = 7, netns = 0\<rparr> \<lparr>ifindex = 2, netns = 0\<rparr> demo_skb = NF_ACCEPT"
    by (simp add: policy_verdict_def policy_rule_def demo_nc_def zone_demo_def ipgrp_demo_def auth_demo_def
        nos_zone_match_def MAX_IF_INDEX_def grp_hit_def ip_set_test_src_ip_def demo_lan_env_def demo_env_def
        demo_skb_def white_listed_def)
  ultimately show ?thesis by simp
qed

text \<open>
  C10: a refused connection stays refused: once the forwarding hook has dropped a packet, the
  pre-routing hook drops every later packet of that connection, in both directions, until
  the hooks are disabled.
\<close>

theorem drop_is_sticky:
  assumes "nos_fw_hook env umax nc d din dout skb (Some c) = Ret (Hooked out pi)"
    and "verdict_of out = NF_DROP"
    and "conn c' = out_ct out" and "\<not> untracked c'"
  shows "nos_pre_hook 0 (Some c') = NF_DROP"
proof -
  have web: "bit (ct_status (out_ct (auth_web env s i o' sk ct u h))) IPS_NOS_DROP_BIT"
    if "verdict_of (auth_web env s i o' sk ct u h) = NF_DROP" for s i o' sk ct u h
    using that
    by (auto simp: auth_web_def Let_def set_ct_bit_def bit_set_bit_iff IPS_NOS_DROP_BIT_def split: if_splits)
  obtain u where "out = nos_auth_hook env (auth_c nc) (Some din) (Some dout) skb (conn c) u"
    using assms(1) by (auto simp: nos_fw_hook_def run_simps Let_def split: if_splits option.splits)
  with assms(2) obtain u' h where "out = auth_web env (auth_c nc) (Some din) (Some dout) skb (conn c) u' h"
    by (auto simp: nos_auth_hook_def Let_def split: prod.splits if_splits)
  with web assms(2-4) show ?thesis by (simp add: nos_pre_hook_def)
qed

definition demo_wan_nc :: nos_conf where
  "demo_wan_nc = demo_nc\<lparr>auth_c := auth_demo\<lparr>auths := [auth_blank 1 0 0\<lparr>auth_type := AUTH_TYPE_WEB\<rparr>],
     bypass_dst_list_set := None\<rparr>\<rparr>"

theorem drop_is_sticky_witness:
  "\<exists>out pi. nos_fw_hook demo_env 4096 demo_wan_nc 0 \<lparr>ifindex = 7, netns = 0\<rparr> \<lparr>ifindex = 2, netns = 0\<rparr> demo_skb
      (Some demo_conn) = Ret (Hooked out pi)
    \<and> nos_pre_hook 0 (Some (demo_conn\<lparr>conn := out_ct out, dir_original := False\<rparr>)) = NF_DROP"
proof -
  let ?fw = "nos_fw_hook demo_env 4096 demo_wan_nc 0 \<lparr>ifindex = 7, netns = 0\<rparr> \<lparr>ifindex = 2, netns = 0\<rparr> demo_skb
      (Some demo_conn)"
  define ui where "ui = refresh_ipgrp demo_wan_nc
     (nos_ipgrp_match_src (set_test demo_env) (ipgrp_c demo_wan_nc) (Some \<lparr>ifindex = 7, netns = 0\<rparr>)
        (Some \<lparr>ifindex = 2, netns = 0\<rparr>) demo_skb) (refresh_zone demo_wan_nc \<lparr>ifindex = 7, netns = 0\<rparr> demo_ui)"
  obtain pi where fw: "?fw = Ret (Hooked (nos_auth_hook demo_env (auth_c demo_wan_nc) (Some \<lparr>ifindex = 7, netns = 0\<rparr>)
      (Some \<lparr>ifindex = 2, netns = 0\<rparr>) demo_skb (conn demo_conn) ui) pi)"
    by (simp add: nos_fw_hook_def demo_conn_def nt_user_def nt_peer_def demo_ui_def Let_def ui_def)
  have st: "status ui = AUTH_NONE"
    by (simp add: ui_def refresh_ipgrp_def refresh_zone_def demo_ui_def)
  have "rule_hit ui (auth_blank 1 0 0\<lparr>auth_type := AUTH_TYPE_WEB\<rparr>)"
    by (simp add: rule_hit_bit auth_blank_def ui_def refresh_ipgrp_def refresh_zone_def demo_ui_def demo_wan_nc_def
        demo_nc_def zone_demo_def ipgrp_demo_def nos_zone_match_def MAX_IF_INDEX_def ipgrp_match_bits
        bit_int_shl1_small grp_hit_def)
  then have drop: "verdict_of (nos_auth_hook demo_env (auth_c demo_wan_nc) (Some \<lparr>ifindex = 7, netns = 0\<rparr>)
      (Some \<lparr>ifindex = 2, netns = 0\<rparr>) demo_skb (conn demo_conn) ui) = NF_DROP"
    by (simp add: hook_fresh_verdict [OF st] demo_wan_nc_def auth_type_defs white_listed_def auth_blank_def
        exempt_def nos_auth_match_bypass_dst_def demo_skb_def IPPROTO_UDP_def IPPROTO_TCP_def tcp_payload_len_def)
  have "nos_pre_hook 0 (Some (demo_conn\<lparr>conn := out_ct (nos_auth_hook demo_env (auth_c demo_wan_nc)
      (Some \<lparr>ifindex = 7, netns = 0\<rparr>) (Some \<lparr>ifindex = 2, netns = 0\<rparr>) demo_skb (conn demo_conn) ui),
      dir_original := False\<rparr>)) = NF_DROP"
    by (rule drop_is_sticky [OF fw drop]) (simp_all add: demo_conn_def)
  with fw show ?thesis by blast
qed

text \<open>
  C18: loading the module is all or nothing: when any step fails, every resource acquired
  before it is released again; when it succeeds, everything is on and unloading releases it.
\<close>

theorem nos_init_all_or_nothing:
  assumes "module_idle m" and "nos_init e m = (m', r)"
  shows "if r \<noteq> 0 then module_idle m' else klog_on m' \<and> msg_on m' \<and> hooks_on m' \<and> module_idle (nos_exit m')"
  using assms nos_init_fails_idle nos_init_ok(1) by auto

definition demo_chr :: chr_env where
  "demo_chr = \<lparr>register_ret = 0, alloc_ret = (0, 240, 0), cdev_add_ret = 0, class_create_ret = PtrOk,
     device_create_ret = PtrOk\<rparr>"

definition demo_nos_env :: nos_env where
  "demo_nos_env = \<lparr>klog_ok = True, msg_init_ret = 0, zone_e = demo_chr, ipgrp_e = demo_chr,
     auth_e = demo_chr\<lparr>cdev_add_ret := -12\<rparr>, register_hooks_ret = 0\<rparr>"

definition demo_module :: nos_module where
  "demo_module = \<lparr>klog_on = False, msg_on = False, hooks_on = False,
     zone_d = (\<lparr>dev_major = 0, dev_minor = 0, holds = []\<rparr>, zone_demo 0),
     ipgrp_d = (\<lparr>dev_major = 0, dev_minor = 0, holds = []\<rparr>, ipgrp_demo\<lparr>ipset_log := [], ipgrps := []\<rparr>),
     auth_d = (\<lparr>dev_major = 0, dev_minor = 0, holds = []\<rparr>, auth_demo\<lparr>ipset_log := [], auths := []\<rparr>)\<rparr>"

theorem nos_init_all_or_nothing_witness:
  "snd (nos_init demo_nos_env demo_module) = -12 \<and> module_idle (fst (nos_init demo_nos_env demo_module))"
proof -
  have r: "snd (nos_init demo_nos_env demo_module) = -12"
    by (simp add: nos_init_def demo_nos_env_def demo_module_def dev_inits chrdev_init_def demo_chr_def Let_def)
  have "module_idle demo_module" by (simp add: module_idle_def demo_module_def)
  from nos_init_all_or_nothing [OF this, of demo_nos_env "fst (nos_init demo_nos_env demo_module)" "-12"] r
  show ?thesis by (metis neg_equal_0_iff_equal prod.collapse zero_neq_numeral)
qed

text \<open>
  Unloading the module gives back every ipset reference: from any configuration state
  the control devices can produce, the group and rule tables hold none after \<open>nos_exit\<close>.
\<close>

theorem nos_exit_drops_references:
  assumes "ipgrp_inv (snd (ipgrp_d m))" and "auth_inv (snd (auth_d m))"
  shows "held (ipset_log (snd (ipgrp_d (nos_exit m)))) i = 0 \<and> held (ipset_log (snd (auth_d (nos_exit m)))) i = 0"
proof -
  have g: "ipgrp_inv (nos_ipgrp_cleanup (snd (ipgrp_d m)))" and a: "auth_inv (nos_auth_cleanup (snd (auth_d m)))"
    using assms ipgrp_cleanup_inv auth_cleanup_inv by blast+
  have "ipgrps (nos_ipgrp_cleanup s) = []" for s
    by (simp add: nos_ipgrp_cleanup_def guarded_def)
  with g have "held (ipset_log (nos_ipgrp_cleanup (snd (ipgrp_d m)))) i = 0"
    by (simp add: ipgrp_inv_def)
  moreover have "auth_refs (nos_auth_cleanup s) i = 0" for s
    by (simp add: nos_auth_cleanup_def guarded_def auth_conf_init_def auth_refs_def ref1_def)
  with a have "held (ipset_log (nos_auth_cleanup (snd (auth_d m)))) i = 0"
    by (simp add: auth_inv_def auth_inv_with_def)
  ultimately show ?thesis
    by (simp add: nos_exit_def dev_exits chrdev_exit_def Let_def ipgrp_conf_exit_def auth_conf_exit_def
        split: prod.splits) (metis snd_conv)
qed

theorem nos_exit_drops_references_witness:
  "held (ipset_log (snd (auth_d (nos_exit (demo_module\<lparr>ipgrp_d := (fst (ipgrp_d demo_module), ipgrp_demo),
     auth_d := (fst (auth_d demo_module), auth_demo)\<rparr>))))) 4 = 0"
  using nos_exit_drops_references [of "demo_module\<lparr>ipgrp_d := (fst (ipgrp_d demo_module), ipgrp_demo),
     auth_d := (fst (auth_d demo_module), auth_demo)\<rparr>" 4]
  by (simp add: ipgrp_demo_inv auth_demo_inv)

text \<open>
  A failed \<open>device_create\<close> goes unnoticed: it reports failure with an error pointer, the
  three init functions test for NULL, so they return success without a device node.
\<close>

theorem device_create_error_missed:
  assumes "holds (fst d) = []" and "alloc_ret e = (0, ma, mi)" and "dev_major (fst d) = 0"
    and "cdev_add_ret e = 0" and "class_create_ret e = PtrOk" and "device_create_ret e = PtrErr"
  shows "let (d', r) = nos_zone_init e d in r = 0 \<and> RDevice \<notin> set (holds (fst d'))"
  using assms by (cases d) (simp add: nos_zone_init_def chrdev_init_def acquire_def Let_def)

theorem device_create_error_missed_witness:
  "let (d', r) = nos_zone_init (demo_chr\<lparr>device_create_ret := PtrErr\<rparr>) (zone_d demo_module)
   in r = 0 \<and> RDevice \<notin> set (holds (fst d'))"
  by (rule device_create_error_missed [of _ _ 240 0]) (simp_all add: demo_module_def demo_chr_def)

end
