(* ===== verification/Nacs_Query.thy ===== *)
theory Nacs_Query
  imports Nacs_Sets Flow_Flags Nos_Main
begin

text \<open>
  The packet path of the module \<open>nacs\<close>: \<open>drivers/nacs/src/nacs_table.c\<close> from \<open>__do_set\<close> on,
  \<open>nacs_main.c\<close> (the netfilter hook, the callback for a changed protocol, start and stop)
  and \<open>nacs_ipc.c\<close> (the socket options). A flow is checked against the lists and rules of
  both categories once per configuration version; the outcome is kept in its flags.
\<close>

section \<open>Checking one category\<close>

definition AC_MACWHITELIST_SET :: nat where "AC_MACWHITELIST_SET = 0"

definition AC_IPWHITELIST_SET :: nat where "AC_IPWHITELIST_SET = 1"

definition AC_MACBLACKLIST_SET :: nat where "AC_MACBLACKLIST_SET = 2"

definition AC_IPBLACKLIST_SET :: nat where "AC_IPBLACKLIST_SET = 3"

definition RULE_TYPE_CONTROL :: nat where "RULE_TYPE_CONTROL = 0"

definition RULE_TYPE_AUDIT :: nat where "RULE_TYPE_AUDIT = 1"

record nac_check_req =
  rq_in :: net_device
  rq_out :: net_device
  rq_skb :: sk_buff
  rq_fi :: flow_info
  rq_ui :: user_info
  rq_pi :: user_info
  rq_proto :: u32

text \<open>The switch of \<open>__do_set\<close>: which test the k-th list gets.\<close>

definition set_probe :: "hook_env \<Rightarrow> nac_check_req \<Rightarrow> nat \<Rightarrow> u16 \<Rightarrow> bool" where
  "set_probe env req k sid =
     (if k = AC_MACWHITELIST_SET \<or> k = AC_MACBLACKLIST_SET then
        ip_set_test_src_mac (set_test env) (Some (rq_in req)) (Some (rq_out req)) (rq_skb req) (ucast sid) \<noteq> 0
      else if k = AC_IPWHITELIST_SET \<or> k = AC_IPBLACKLIST_SET then
        ip_set_test_src_ip (set_test env) (Some (rq_in req)) (Some (rq_out req)) (rq_skb req) (ucast sid) \<noteq> 0
      else False)"

text \<open>The outcome of a match: the number of the list, or the rule with the values it matched.\<close>

datatype nacs_match = RULE_SUB_TYPE_SET nat | RULE_SUB_TYPE_RULE u16 nac_table_req

record nacs_msg =
  nm_rule_type :: nat
  nm_match :: nacs_match
  nm_macaddr :: "u8 list"
  nm_src_ip :: u32
  nm_dst_ip :: u32
  nm_src_port :: u16
  nm_dst_port :: u16
  nm_proto :: u8
  nm_actions :: u8
  nm_time_stamp :: u32

fun do_set_loop :: "(nat \<Rightarrow> u16 \<Rightarrow> bool) \<Rightarrow> u8 list \<Rightarrow> nat \<Rightarrow> nat list \<Rightarrow> (nat \<times> u32) option run" where
  "do_set_loop probe buf base [] = Ret None"
| "do_set_loop probe buf base (i # is) =
     run_bind (rd16 buf (base + 8 * i + 2)) (\<lambda>sid.
       if sid \<noteq> set_invalid_id \<and> probe i sid
       then run_bind (rd32 buf (base + 8 * i + 4)) (\<lambda>fl. Ret (Some (i, fl)))
       else do_set_loop probe buf base is)"

definition do_set :: "hook_env \<Rightarrow> nat \<Rightarrow> nac_check_req \<Rightarrow> ac_set_info \<Rightarrow> (nat \<times> u32) option run" where
  "do_set env cpu req info =
     do_set_loop (set_probe env req) (si_buf info) (SMP_ALIGN (unat (si_size info)) * cpu) [0..<unat (si_number info)]"

text \<open>The \<open>nac_table_req\<close> that \<open>__do_ac_table\<close> builds; the zones are cut to 8 bits.\<close>

definition table_req :: "nac_check_req \<Rightarrow> nac_table_req" where
  "table_req req =
     \<lparr>rq_src_zone = ucast (zone_id (rq_ui req)), rq_dst_zone = ucast (zone_id (rq_pi req)),
      rq_src_ipgrp_bits = ipgrp_bits (rq_ui req), rq_dst_ipgrp_bits = ipgrp_bits (rq_pi req),
      rq_proto_id = rq_proto req\<rparr>"

definition fill_flow :: "hook_env \<Rightarrow> nac_check_req \<Rightarrow> nat \<Rightarrow> nacs_match \<Rightarrow> u32 \<Rightarrow> nacs_msg" where
  "fill_flow env req rule_type m fl =
     \<lparr>nm_rule_type = rule_type, nm_match = m, nm_macaddr = macaddr (rq_ui req),
      nm_src_ip = flow_srcip (rq_fi req), nm_dst_ip = flow_dstip (rq_fi req),
      nm_src_port = flow_sport (rq_fi req), nm_dst_port = flow_dport (rq_fi req),
      nm_proto = tuple_proto (tuple (rq_fi req)), nm_actions = ucast fl, nm_time_stamp = jiffies env\<rparr>"

text \<open>\<open>__do_ac_table\<close>: the lists first, then the rules.\<close>

definition do_ac_table_locked ::
  "hook_env \<Rightarrow> nat \<Rightarrow> nat \<Rightarrow> nac_check_req \<Rightarrow> nac_state \<Rightarrow> nat \<Rightarrow> nacs_msg option run" where
  "do_ac_table_locked env fuel cpu req table rule_type =
     run_bind (do_set env cpu req (priv_sets table ! rule_type)) (\<lambda>r.
       case r of
         Some (k, fl) \<Rightarrow> Ret (Some (fill_flow env req rule_type (RULE_SUB_TYPE_SET k) fl))
       | None \<Rightarrow>
           run_bind (do_table fuel cpu (table_req req) (priv_tables table ! rule_type)) (\<lambda>r.
             Ret (map_option (\<lambda>(eid, fl). fill_flow env req rule_type (RULE_SUB_TYPE_RULE eid (table_req req)) fl) r)))"

section \<open>Keeping the outcome in the flow\<close>

definition flow_flags_clr :: "flow_info \<Rightarrow> flow_info" where
  "flow_flags_clr fi =
     (let fi = nt_flow_audit_fin_clr fi;
          fi = nt_flow_control_fin_clr fi;
          fi = nt_flow_drop_clr fi FG_FLOW_DROP_L4_FW;
          fi = nt_flow_drop_clr fi FG_FLOW_DROP_L7_FW;
          fi = nt_flow_accept_clr fi FG_FLOW_ACCEPT_L4_FW
      in nt_flow_accept_clr fi FG_FLOW_ACCEPT_L7_FW)"

definition flow_flags_setdef :: "flow_info \<Rightarrow> nat \<Rightarrow> flow_info" where
  "flow_flags_setdef fi rule_type =
     (if rule_type = RULE_TYPE_CONTROL then nt_flow_control_fin_set fi else nt_flow_audit_fin_set fi)"

fun is_set_match :: "nacs_match \<Rightarrow> bool" where
  "is_set_match (RULE_SUB_TYPE_SET k) = True"
| "is_set_match (RULE_SUB_TYPE_RULE eid req) = False"

text \<open>The flow, and the messages handed to \<open>nt_msg_enqueue\<close>, whose failure is only logged.\<close>

definition process_check_result :: "flow_info \<Rightarrow> nacs_msg \<Rightarrow> flow_info \<times> nacs_msg list" where
  "process_check_result fi result =
     (let fi = flow_flags_setdef fi (nm_rule_type result);
          fi = (if nm_rule_type result = RULE_TYPE_CONTROL then
                  (let rejected = nm_actions result AND ucast AC_REJECT \<noteq> 0;
                       rejected = (if nm_actions result AND ucast AC_ACCEPT \<noteq> 0 then False else rejected)
                   in if is_set_match (nm_match result)
                      then (if rejected then nt_flow_drop_set fi FG_FLOW_DROP_L4_FW else nt_flow_accept_set fi FG_FLOW_ACCEPT_L4_FW)
                      else (if rejected then nt_flow_drop_set fi FG_FLOW_DROP_L7_FW else nt_flow_accept_set fi FG_FLOW_ACCEPT_L7_FW))
                else fi);
          fi = (if nm_rule_type result = RULE_TYPE_AUDIT \<and> nm_actions result AND ucast AC_AUDIT \<noteq> 0
                then nt_flow_audit_set fi else fi)
      in (fi, if is_set_match (nm_match result) then [] else [result]))"

text \<open>The loop over the categories; the flow is changed in place.\<close>

fun do_ac_types ::
  "hook_env \<Rightarrow> nat \<Rightarrow> nat \<Rightarrow> nac_state \<Rightarrow> nac_check_req \<Rightarrow> nat list \<Rightarrow> flow_info \<Rightarrow> (flow_info \<times> nacs_msg list) run" where
  "do_ac_types env fuel cpu table req [] fi = Ret (fi, [])"
| "do_ac_types env fuel cpu table req (t # ts) fi =
     run_bind (do_ac_table_locked env fuel cpu (req\<lparr>rq_fi := fi\<rparr>) table t) (\<lambda>r.
       let (fi, ms) = (case r of None \<Rightarrow> (fi, []) | Some result \<Rightarrow> process_check_result fi result)
       in run_bind (do_ac_types env fuel cpu table req ts fi) (\<lambda>(fi, ms'). Ret (fi, ms @ ms')))"

definition do_ac_table ::
  "hook_env \<Rightarrow> nat \<Rightarrow> nat \<Rightarrow> nac_state \<Rightarrow> net_device \<Rightarrow> net_device \<Rightarrow> sk_buff \<Rightarrow> flow_info \<Rightarrow> user_info \<Rightarrow> user_info \<Rightarrow> u32
   \<Rightarrow> (flow_info \<times> nacs_msg list) run" where
  "do_ac_table env fuel cpu table din dout skb fi ui pi proto =
     do_ac_types env fuel cpu table
       \<lparr>rq_in = din, rq_out = dout, rq_skb = skb, rq_fi = fi, rq_ui = ui, rq_pi = pi, rq_proto = proto\<rparr>
       [0..<RULE_TYPE_MAX] fi"

definition do_ac_table_hk ::
  "hook_env \<Rightarrow> nat \<Rightarrow> nat \<Rightarrow> nac_state \<Rightarrow> net_device \<Rightarrow> net_device \<Rightarrow> sk_buff \<Rightarrow> flow_info \<Rightarrow> user_info \<Rightarrow> user_info
   \<Rightarrow> (flow_info \<times> nacs_msg list) run" where
  "do_ac_table_hk env fuel cpu table din dout skb fi ui pi =
     (if f_proto fi = 0 then Ret (fi, [])
      else if magic table = nacs_magic fi then Ret (fi, [])
      else run_bind (do_ac_table env fuel cpu table din dout skb (flow_flags_clr fi) ui pi (f_proto fi)) (\<lambda>(fi, ms).
        Ret (fi\<lparr>nacs_magic := magic table\<rparr>, ms)))"

definition do_ac_table_cb ::
  "hook_env \<Rightarrow> nat \<Rightarrow> nat \<Rightarrow> nac_state \<Rightarrow> net_device \<Rightarrow> net_device \<Rightarrow> sk_buff \<Rightarrow> flow_info \<Rightarrow> user_info \<Rightarrow> user_info \<Rightarrow> u32
   \<Rightarrow> (flow_info \<times> nacs_msg list) run" where
  "do_ac_table_cb env fuel cpu table din dout skb fi ui pi proto_new =
     (if f_proto fi = proto_new then Fault BugOn
      else do_ac_table env fuel cpu table din dout skb (flow_flags_clr (fi\<lparr>nacs_magic := magic table\<rparr>)) ui pi proto_new)"

section \<open>The hook and the callback\<close>

text \<open>\<open>nt_flow\<close> with its assertion; \<open>flow_of\<close> is the flow node of the tracked connection.\<close>

definition nt_flow :: "u32 \<Rightarrow> flow_info \<Rightarrow> flow_info run" where
  "nt_flow nos_flow_info_max fi = (if f_id fi < nos_flow_info_max then Ret fi else Fault BugOn)"

definition nacs_hook_fn ::
  "hook_env \<Rightarrow> nat \<Rightarrow> nat \<Rightarrow> nac_state \<Rightarrow> u32 \<Rightarrow> u32 \<Rightarrow> net_device \<Rightarrow> net_device \<Rightarrow> sk_buff \<Rightarrow> conn_view option \<Rightarrow> flow_info
   \<Rightarrow> (verdict \<times> flow_info \<times> nacs_msg list) run" where
  "nacs_hook_fn env fuel cpu table flow_max user_max din dout skb co flow_of =
     (case co of
        None \<Rightarrow> Ret (NF_ACCEPT, flow_of, [])
      | Some c \<Rightarrow>
          (if untracked c then Ret (NF_ACCEPT, flow_of, [])
           else case nos_of c of
             None \<Rightarrow> Ret (NF_ACCEPT, flow_of, [])
           | Some nt \<Rightarrow>
               run_bind (nt_flow flow_max flow_of) (\<lambda>fi.
               run_bind (nt_user user_max nt) (\<lambda>ui.
               run_bind (nt_peer user_max nt) (\<lambda>pi.
               run_bind (do_ac_table_hk env fuel cpu table din dout skb fi ui pi) (\<lambda>(fi, ms).
                 Ret (NF_ACCEPT, fi, ms)))))))"

text \<open>The fields of \<open>nt_packet_t\<close> the callback reads; a NULL pointer is None.\<close>

record nt_packet =
  pkt_in :: "net_device option"
  pkt_out :: "net_device option"
  pkt_skb :: "sk_buff option"
  pkt_fi :: "flow_info option"
  pkt_ui :: "user_info option"
  pkt_pi :: "user_info option"

definition nacs_nproto_callback ::
  "hook_env \<Rightarrow> nat \<Rightarrow> nat \<Rightarrow> nac_state \<Rightarrow> nt_packet \<Rightarrow> u32 \<Rightarrow> (int \<times> nt_packet \<times> nacs_msg list) run" where
  "nacs_nproto_callback env fuel cpu table pkt proto_crc =
     (case (pkt_in pkt, pkt_out pkt, pkt_skb pkt, pkt_fi pkt, pkt_ui pkt, pkt_pi pkt) of
        (Some din, Some dout, Some skb, Some fi, Some ui, Some pi) \<Rightarrow>
          run_bind (do_ac_table_cb env fuel cpu table din dout skb fi ui pi proto_crc) (\<lambda>(fi, ms).
            Ret (if nt_flow_droped fi then - 1 else 0, pkt\<lparr>pkt_fi := Some fi\<rparr>, ms))
      | _ \<Rightarrow> Ret (1, pkt, []))"

section \<open>The socket options\<close>

definition AC_SO_BASE_CTL :: int where "AC_SO_BASE_CTL = 4096"

definition AC_SO_SET_REPLACE_TABLE :: int where "AC_SO_SET_REPLACE_TABLE = AC_SO_BASE_CTL"

definition AC_SO_SET_REPLACE_SET :: int where "AC_SO_SET_REPLACE_SET = AC_SO_BASE_CTL + 1"

definition AC_SO_GET_TABLE_INFO :: int where "AC_SO_GET_TABLE_INFO = AC_SO_BASE_CTL"

definition AC_SO_GET_SET_INFO :: int where "AC_SO_GET_SET_INFO = AC_SO_BASE_CTL + 1"

definition AC_SO_GET_ENTRIES :: int where "AC_SO_GET_ENTRIES = AC_SO_BASE_CTL + 2"

definition AC_SO_GET_SETS :: int where "AC_SO_GET_SETS = AC_SO_BASE_CTL + 3"

definition do_ac_set_ctl ::
  "nacs_env \<Rightarrow> nat \<Rightarrow> ipsets \<Rightarrow> bool \<Rightarrow> int \<Rightarrow> u8 list \<Rightarrow> nat \<Rightarrow> nac_state \<Rightarrow> (nac_state \<times> errno option) run" where
  "do_ac_set_ctl env fuel ips net_admin cmd user len st =
     (if \<not> net_admin then Ret (st, Some EPERM)
      else if cmd = AC_SO_SET_REPLACE_TABLE then do_replace_table env fuel user len st
      else if cmd = AC_SO_SET_REPLACE_SET then do_replace_set env ips user len st
      else Ret (st, Some EINVAL))"

definition do_ac_get_ctl :: "bool \<Rightarrow> int \<Rightarrow> u8 list \<Rightarrow> nat \<Rightarrow> nac_state \<Rightarrow> (u8 list \<times> errno option) run" where
  "do_ac_get_ctl net_admin cmd user len st =
     (if \<not> net_admin then Ret (user, Some EPERM)
      else if cmd = AC_SO_GET_TABLE_INFO then do_get_table_info st user len
      else if cmd = AC_SO_GET_SET_INFO then do_get_set_info st user len
      else if cmd = AC_SO_GET_ENTRIES then do_get_entries st user len
      else if cmd = AC_SO_GET_SETS then do_get_sets st user len
      else Ret (user, Some EINVAL))"

section \<open>Start and stop\<close>

text \<open>
  Whether each step of the start succeeds, and the module: a NULL table is None. The tables
  of a fresh start are allocated one after the other; \<open>kz n\<close> is the answer to the n-th
  allocation.
\<close>

record nacs_start =
  klog_init_ok :: bool
  kz :: "nat \<Rightarrow> bool"
  nf_register_sockopt_ok :: bool
  nf_register_hooks_ok :: bool
  np_hook_register_ok :: bool

record nacs_module =
  nac_table :: "nac_state option"
  klog_open :: bool
  sockopt_registered :: bool
  nf_hooks_registered :: bool
  np_hook_registered :: bool

definition table_init :: "nacs_start \<Rightarrow> nac_state option" where
  "table_init s =
     (if \<forall>n \<in> set [0..<2 * RULE_TYPE_MAX]. kz s n
      then Some \<lparr>magic = 999,
             priv_tables = map (\<lambda>i. \<lparr>ti_category = word_of_nat i, ti_size = 0, ti_number = 0, ti_buf = []\<rparr>) [0..<RULE_TYPE_MAX],
             priv_sets = map (\<lambda>i. \<lparr>si_category = word_of_nat i, si_size = 0, si_number = 0, si_updated = 0,
                                  si_header = replicate SET_HEADER 0, si_buf = []\<rparr>) [0..<RULE_TYPE_MAX],
             set_log = []\<rparr>
      else None)"

fun free_sets :: "ac_set_info list \<Rightarrow> ipset_ref list run" where
  "free_sets [] = Ret []"
| "free_sets (info # infos) =
     run_bind (free_ac_set_info info) (\<lambda>es. run_bind (free_sets infos) (\<lambda>es'. Ret (es @ es')))"

text \<open>The references dropped when the tables go away.\<close>

definition table_fini :: "nac_state option \<Rightarrow> ipset_ref list run" where
  "table_fini t = (case t of None \<Rightarrow> Ret [] | Some st \<Rightarrow> free_sets (priv_sets st))"

definition nacs_off :: nacs_module where
  "nacs_off = \<lparr>nac_table = None, klog_open = False, sockopt_registered = False, nf_hooks_registered = False,
     np_hook_registered = False\<rparr>"

text \<open>The label \<open>failed\<close>: the tables and the log are released, nothing else.\<close>

definition nacs_init_failed :: "nacs_module \<Rightarrow> (nacs_module \<times> ipset_ref list \<times> bool) run" where
  "nacs_init_failed m =
     run_bind (table_fini (nac_table m)) (\<lambda>es. Ret (m\<lparr>nac_table := None, klog_open := False\<rparr>, es, False))"

definition nacs_init :: "nacs_start \<Rightarrow> (nacs_module \<times> ipset_ref list \<times> bool) run" where
  "nacs_init s =
     (let m = nacs_off in
      if \<not> klog_init_ok s then Ret (m, [], False)
      else
       (let m = m\<lparr>klog_open := True\<rparr> in
        case table_init s of
          None \<Rightarrow> nacs_init_failed m
        | Some st \<Rightarrow>
            (let m = m\<lparr>nac_table := Some st\<rparr> in
             if \<not> nf_register_sockopt_ok s then nacs_init_failed m
             else
              (let m = m\<lparr>sockopt_registered := True\<rparr> in
               if \<not> nf_register_hooks_ok s then nacs_init_failed m
               else
                (let m = m\<lparr>nf_hooks_registered := True\<rparr> in
                 if \<not> np_hook_register_ok s then nacs_init_failed m
                 else Ret (m\<lparr>np_hook_registered := True\<rparr>, [], True))))))"

definition nacs_fini :: "nacs_module \<Rightarrow> (nacs_module \<times> ipset_ref list) run" where
  "nacs_fini m =
     (let m = m\<lparr>np_hook_registered := False\<rparr>;
          m = m\<lparr>nf_hooks_registered := False\<rparr>;
          m = m\<lparr>sockopt_registered := False\<rparr>
      in run_bind (table_fini (nac_table m)) (\<lambda>es. Ret (m\<lparr>nac_table := None, klog_open := False\<rparr>, es)))"

section \<open>What a check decides\<close>

text \<open>The first of the lists that contains the packet.\<close>

definition lists_decide :: "(nat \<Rightarrow> u16 \<Rightarrow> bool) \<Rightarrow> ac_set_info \<Rightarrow> (nat \<times> u32) option" where
  "lists_decide probe info =
     map_option (\<lambda>k. (k, entry_flags (si_buf info) k))
       (find (\<lambda>k. entry_sid (si_buf info) k \<noteq> set_invalid_id \<and> probe k (entry_sid (si_buf info) k)) [0..<unat (si_number info)])"

text \<open>The decision of a category: by a list (True) or by a rule, and the actions.\<close>

definition nacs_decide :: "hook_env \<Rightarrow> nac_check_req \<Rightarrow> ac_set_info \<Rightarrow> ac_rule_item list \<Rightarrow> (bool \<times> u8) option" where
  "nacs_decide env req info its =
     (case lists_decide (set_probe env req) info of
        Some (k, fl) \<Rightarrow> Some (True, ucast fl)
      | None \<Rightarrow> map_option (\<lambda>(eid, fl). (False, ucast fl)) (rules_decide (table_req req) its))"

definition rejects :: "u8 \<Rightarrow> bool" where
  "rejects fl \<longleftrightarrow> bit fl 2 \<and> \<not> bit fl 0"

text \<open>Every CPU has the rules \<open>its\<close>.\<close>

definition rules_ok :: "nacs_env \<Rightarrow> ac_table_info \<Rightarrow> ac_rule_item list \<Rightarrow> bool" where
  "rules_ok env info its \<longleftrightarrow>
     unat (ti_size info) = length (items_bytes its)
   \<and> (\<forall>c < ncpu env. located (ti_buf info) (SMP_ALIGN (unat (ti_size info)) * c) (items_bytes its))
   \<and> (\<forall>it \<in> set its. item_ok it \<and> sorted (proto_ids it))"

section \<open>The check computes the decision\<close>

declare add_2_eq_Suc [simp del] add_2_eq_Suc' [simp del]

lemma slice_nth:
  assumes "slice s c b = slice s 0 b" and "s * c + s \<le> length b" and "j < s"
  shows "b ! (s * c + j) = b ! j"
proof -
  have "take s (drop (s * c) b) ! j = take s b ! j" using assms(1) by (simp add: slice_def)
  with assms(2,3) show ?thesis by simp
qed

lemma lists_read:
  assumes "lists_ok env info" and "cpu < ncpu env" and "k < unat (si_number info)"
  defines "s \<equiv> SMP_ALIGN (unat (si_size info))"
  shows "rd16 (si_buf info) (s * cpu + 8 * k + 2) = Ret (entry_sid (si_buf info) k)"
    and "rd32 (si_buf info) (s * cpu + 8 * k + 4) = Ret (entry_flags (si_buf info) k)"
proof -
  let ?b = "si_buf info"
  have sl: "slice s c ?b = slice s 0 ?b" if "c < ncpu env" for c
    using assms(1) that unfolding lists_ok_def Let_def s_def by blast
  have len: "length ?b = s * ncpu env" and "8 * unat (si_number info) \<le> s"
    using assms(1) unfolding lists_ok_def Let_def s_def by blast+
  then have k: "8 * k + 8 \<le> s" using assms(3) by linarith
  have fit: "s * c + s \<le> length ?b" if "c < ncpu env" for c
  proof -
    have "s * Suc c \<le> s * ncpu env" using that by (intro mult_le_mono2) simp
    with len show ?thesis by simp
  qed
  have n: "?b ! (s * cpu + j) = ?b ! j" if "j < s" for j
    using slice_nth [OF sl [OF assms(2)] fit [OF assms(2)] that] .
  have "0 < ncpu env" using assms(2) by simp
  with fit [of 0] fit [OF assms(2)] k have "8 * k + 8 \<le> length ?b" "s * cpu + (8 * k + 8) \<le> length ?b" by simp_all
  moreover have "?b ! (3 + (s * cpu + 8 * k)) = ?b ! (3 + 8 * k)" "?b ! (5 + (s * cpu + 8 * k)) = ?b ! (5 + 8 * k)"
    using n [of "3 + 8 * k"] n [of "5 + 8 * k"] k by (simp_all add: ac_simps)
  ultimately show "rd16 ?b (s * cpu + 8 * k + 2) = Ret (entry_sid ?b k)"
    "rd32 ?b (s * cpu + 8 * k + 4) = Ret (entry_flags ?b k)"
    using k n by (simp_all add: rd16_def rd32_def entry_sid_def entry_flags_def add.assoc)
qed

lemma do_set_lists:
  assumes "lists_ok env info" and "cpu < ncpu env"
  shows "do_set henv cpu req info = Ret (lists_decide (set_probe henv req) info)"
proof -
  have "do_set_loop p (si_buf info) (SMP_ALIGN (unat (si_size info)) * cpu) ks =
      Ret (map_option (\<lambda>k. (k, entry_flags (si_buf info) k))
        (find (\<lambda>k. entry_sid (si_buf info) k \<noteq> set_invalid_id \<and> p k (entry_sid (si_buf info) k)) ks))"
    if "\<forall>k \<in> set ks. k < unat (si_number info)" for ks p
    using that by (induction ks) (auto simp: lists_read [OF assms])
  then show ?thesis by (simp add: do_set_def lists_decide_def)
qed

lemma do_table_rules:
  assumes "rules_ok env info its" and "cpu < ncpu env" and "length its < fuel"
  shows "do_table fuel cpu req info = Ret (rules_decide req its)"
proof -
  have len: "unat (ti_size info) = length (items_bytes its)"
    and loc: "located (ti_buf info) (SMP_ALIGN (unat (ti_size info)) * cpu) (items_bytes its)"
    and ok: "\<forall>it \<in> set its. item_ok it \<and> sorted (proto_ids it)"
    using assms(1,2) unfolding rules_ok_def by blast+
  show ?thesis
    unfolding do_table_def by (rule do_table_loop_located [OF _ _ ok assms(3)]) (simp_all add: loc [unfolded len] len)
qed

lemma locked_decides:
  assumes "lists_ok env (priv_sets st ! t)" and "rules_ok env (priv_tables st ! t) its" and "cpu < ncpu env" and "length its < fuel"
  shows "\<exists>r. do_ac_table_locked henv fuel cpu req st t = Ret r
    \<and> map_option (\<lambda>m. (is_set_match (nm_match m), nm_actions m)) r = nacs_decide henv req (priv_sets st ! t) its
    \<and> (\<forall>m \<in> set_option r. nm_rule_type m = t)"
proof -
  let ?l = "lists_decide (set_probe henv req) (priv_sets st ! t)"
  note d = do_set_lists [OF assms(1,3)] do_table_rules [OF assms(2,3,4)]
  show ?thesis
  proof (cases ?l)
    case None
    then show ?thesis
      by (simp add: do_ac_table_locked_def d nacs_decide_def option.map_comp o_def case_prod_unfold fill_flow_def option.set_map)
  next
    case (Some x)
    then show ?thesis
      by (cases x) (simp add: do_ac_table_locked_def d nacs_decide_def fill_flow_def)
  qed
qed

lemma decide_fi [simp]: "nacs_decide henv (req\<lparr>rq_fi := fi\<rparr>) info its = nacs_decide henv req info its"
proof -
  have "set_probe henv (req\<lparr>rq_fi := fi\<rparr>) = set_probe henv req" by (simp add: set_probe_def fun_eq_iff)
  moreover have "table_req (req\<lparr>rq_fi := fi\<rparr>) = table_req req" by (simp add: table_req_def)
  ultimately show ?thesis unfolding nacs_decide_def by (simp only:)
qed

text \<open>The flag bits of the firewall after a check with the two decisions.\<close>

definition decided_bit :: "(bool \<times> u8) option \<Rightarrow> (bool \<times> u8) option \<Rightarrow> u32 \<Rightarrow> nat \<Rightarrow> bool" where
  "decided_bit ctl aud old k \<longleftrightarrow>
     (if k = 5 then ctl \<noteq> None
      else if k = 4 then aud \<noteq> None
      else if k = 3 then bit old 3 \<or> (\<exists>s fl. aud = Some (s, fl) \<and> bit fl 1)
      else if k = 9 then \<exists>fl. ctl = Some (True, fl) \<and> rejects fl
      else if k = 10 then \<exists>fl. ctl = Some (False, fl) \<and> rejects fl
      else if k = 16 then \<exists>fl. ctl = Some (True, fl) \<and> \<not> rejects fl
      else if k = 17 then \<exists>fl. ctl = Some (False, fl) \<and> \<not> rejects fl
      else bit old k)"

lemma clr_bits: "k < 32 \<Longrightarrow> bit (flags (flow_flags_clr fi)) k \<longleftrightarrow> bit (flags fi) k \<and> k \<notin> {4, 5, 9, 10, 16, 17}"
  by (auto simp: flow_flags_clr_def Let_def flow_flag_bits bit_flags)

lemma clr_frame: "flow_flags_clr fi = fi\<lparr>flags := flags (flow_flags_clr fi)\<rparr>"
  by (simp add: flow_flags_clr_def Let_def flag_op_defs)

lemma action_bits:
  fixes a :: u8
  shows "a AND ucast AC_REJECT \<noteq> 0 \<longleftrightarrow> bit a 2" "a AND ucast AC_ACCEPT \<noteq> 0 \<longleftrightarrow> bit a 0" "a AND ucast AC_AUDIT \<noteq> 0 \<longleftrightarrow> bit a 1"
proof -
  have "(ucast AC_REJECT :: u8) = 2 ^ 2" "(ucast AC_ACCEPT :: u8) = 2 ^ 0" "(ucast AC_AUDIT :: u8) = 2 ^ 1"
    by (simp_all add: AC_REJECT_def AC_ACCEPT_def AC_AUDIT_def)
  then show "a AND ucast AC_REJECT \<noteq> 0 \<longleftrightarrow> bit a 2" "a AND ucast AC_ACCEPT \<noteq> 0 \<longleftrightarrow> bit a 0" "a AND ucast AC_AUDIT \<noteq> 0 \<longleftrightarrow> bit a 1"
    by (simp_all only: and_exp_eq_0_iff_not_bit not_not)
qed

lemma process_bits:
  assumes "k < 32" and "nm_rule_type m \<in> {0, 1}"
  shows "bit (flags (fst (process_check_result fi m))) k \<longleftrightarrow> bit (flags fi) k
    \<or> (if nm_rule_type m = 0
       then k = 5 \<or> k = (if is_set_match (nm_match m) then if rejects (nm_actions m) then 9 else 16
                        else if rejects (nm_actions m) then 10 else 17)
       else k = 4 \<or> k = 3 \<and> bit (nm_actions m) 1)"
  using assms by (auto simp: process_check_result_def Let_def flow_flags_setdef_def RULE_TYPE_CONTROL_def RULE_TYPE_AUDIT_def
      action_bits flow_flag_bits bit_flags rejects_def split: if_splits)

lemma process_frame: "fst (process_check_result fi m) = fi\<lparr>flags := flags (fst (process_check_result fi m))\<rparr>"
  by (auto simp: process_check_result_def Let_def flow_flags_setdef_def flag_op_defs)

text \<open>The configuration is sound: for every category the lists and the rules \<open>its\<close>.\<close>

definition nac_ok :: "nacs_env \<Rightarrow> nac_state \<Rightarrow> (nat \<Rightarrow> ac_rule_item list) \<Rightarrow> bool" where
  "nac_ok env st its \<longleftrightarrow>
     length (priv_tables st) = RULE_TYPE_MAX \<and> length (priv_sets st) = RULE_TYPE_MAX
   \<and> (\<forall>t < RULE_TYPE_MAX. lists_ok env (priv_sets st ! t) \<and> rules_ok env (priv_tables st ! t) (its t))"

definition rule_log :: "nat \<Rightarrow> (bool \<times> u8) option \<Rightarrow> (nat \<times> u8) list" where
  "rule_log t d = (case d of Some (False, fl) \<Rightarrow> [(t, fl)] | _ \<Rightarrow> [])"

definition msg_view :: "nacs_msg \<Rightarrow> nat \<times> u8" where
  "msg_view m = (nm_rule_type m, nm_actions m)"

definition check_step :: "flow_info \<Rightarrow> nacs_msg option \<Rightarrow> flow_info \<times> nacs_msg list" where
  "check_step fi r = (case r of None \<Rightarrow> (fi, []) | Some result \<Rightarrow> process_check_result fi result)"

lemma do_ac_types_step:
  "do_ac_types env fuel cpu table req (t # ts) fi =
     run_bind (do_ac_table_locked env fuel cpu (req\<lparr>rq_fi := fi\<rparr>) table t) (\<lambda>r.
       run_bind (do_ac_types env fuel cpu table req ts (fst (check_step fi r))) (\<lambda>(fi', ms').
         Ret (fi', snd (check_step fi r) @ ms')))"
  by (simp add: check_step_def case_prod_unfold Let_def cong: run_bind_cong)

lemma check_step_log:
  "\<forall>m \<in> set_option r. nm_rule_type m = t \<Longrightarrow>
    map msg_view (snd (check_step fi r)) = rule_log t (map_option (\<lambda>m. (is_set_match (nm_match m), nm_actions m)) r)"
  by (cases r) (auto simp: check_step_def rule_log_def process_check_result_def Let_def msg_view_def)

lemma check_step_frame: "fst (check_step fi r) = fi\<lparr>flags := flags (fst (check_step fi r))\<rparr>"
  using process_frame [of fi] by (cases r) (simp_all add: check_step_def)

lemma check_steps_bits:
  assumes "k < 32" and "\<forall>m \<in> set_option r0. nm_rule_type m = 0" and "\<forall>m \<in> set_option r1. nm_rule_type m = 1"
    and "\<forall>j \<in> {4, 5, 9, 10, 16, 17}. \<not> bit (flags fi) j"
  defines "v \<equiv> \<lambda>m. (is_set_match (nm_match m), nm_actions m)"
  shows "bit (flags (fst (check_step (fst (check_step fi r0)) r1))) k
    \<longleftrightarrow> decided_bit (map_option v r0) (map_option v r1) (flags fi) k"
proof -
  have b: "bit (flags (fst (check_step fi r))) k \<longleftrightarrow> bit (flags fi) k \<or> (\<exists>m. r = Some m \<and>
      (if nm_rule_type m = 0
       then k = 5 \<or> k = (if is_set_match (nm_match m) then if rejects (nm_actions m) then 9 else 16
                        else if rejects (nm_actions m) then 10 else 17)
       else k = 4 \<or> k = 3 \<and> bit (nm_actions m) 1))" if "\<forall>m \<in> set_option r. nm_rule_type m \<in> {0, 1}" for fi r
    using process_bits [OF assms(1), of _ fi] that by (cases r) (simp_all add: check_step_def)
  have b0: "bit (flags (fst (check_step fi r0))) k \<longleftrightarrow> bit (flags fi) k \<or> (\<exists>m. r0 = Some m \<and>
      (k = 5 \<or> k = (if is_set_match (nm_match m) then if rejects (nm_actions m) then 9 else 16
                     else if rejects (nm_actions m) then 10 else 17)))"
    using b [of r0 fi] assms(2) by (cases r0) simp_all
  have b1: "bit (flags (fst (check_step (fst (check_step fi r0)) r1))) k \<longleftrightarrow> bit (flags (fst (check_step fi r0))) k
      \<or> (\<exists>m. r1 = Some m \<and> (k = 4 \<or> k = 3 \<and> bit (nm_actions m) 1))"
    using b [of r1 "fst (check_step fi r0)"] assms(3) by (cases r1) simp_all
  consider "k \<in> {3, 4, 5}" | "k \<in> {9, 10, 16, 17}" | "k \<notin> {3, 4, 5, 9, 10, 16, 17}" by blast
  then show ?thesis
  proof cases
    case 1
    then show ?thesis
      unfolding b1 b0 decided_bit_def v_def using assms(4) by (cases r0; cases r1) (elim insertE; simp)+
  next
    case 2
    then show ?thesis
      unfolding b1 b0 decided_bit_def v_def using assms(4) by (cases r0; cases r1) (elim insertE; simp)+
  next
    case 3
    then show ?thesis
      unfolding b1 b0 decided_bit_def v_def by simp
  qed
qed

lemma do_ac_table_decides:
  fixes henv :: hook_env and din dout :: net_device and skb :: sk_buff and ui pi :: user_info and proto :: u32
  assumes ok: "nac_ok env st its" and cpu: "cpu < ncpu env" and fuel: "\<forall>t < RULE_TYPE_MAX. length (its t) < fuel"
    and clean: "\<forall>j \<in> {4, 5, 9, 10, 16, 17}. \<not> bit (flags fi) j"
  defines "req \<equiv> \<lparr>rq_in = din, rq_out = dout, rq_skb = skb, rq_fi = fi, rq_ui = ui, rq_pi = pi, rq_proto = proto\<rparr>"
  defines "ctl \<equiv> nacs_decide henv req (priv_sets st ! 0) (its 0)" and "aud \<equiv> nacs_decide henv req (priv_sets st ! 1) (its 1)"
  shows "\<exists>fi' ms. do_ac_table henv fuel cpu st din dout skb fi ui pi proto = Ret (fi', ms)
    \<and> fi' = fi\<lparr>flags := flags fi'\<rparr>
    \<and> (\<forall>k < 32. bit (flags fi') k \<longleftrightarrow> decided_bit ctl aud (flags fi) k)
    \<and> map msg_view ms = rule_log 0 ctl @ rule_log 1 aud"
proof -
  let ?v = "\<lambda>m. (is_set_match (nm_match m), nm_actions m)"
  have t: "lists_ok env (priv_sets st ! t)" "rules_ok env (priv_tables st ! t) (its t)" "length (its t) < fuel" if "t < 2" for t
    using ok fuel that unfolding nac_ok_def RULE_TYPE_MAX_def by blast+
  obtain r0 where r0: "do_ac_table_locked henv fuel cpu (req\<lparr>rq_fi := fi\<rparr>) st 0 = Ret r0" "map_option ?v r0 = ctl"
    "\<forall>m \<in> set_option r0. nm_rule_type m = 0"
    using locked_decides [OF t(1,2) cpu t(3), of 0 henv "req\<lparr>rq_fi := fi\<rparr>"] by (auto simp: ctl_def)
  define f1 where "f1 = fst (check_step fi r0)"
  obtain r1 where r1: "do_ac_table_locked henv fuel cpu (req\<lparr>rq_fi := f1\<rparr>) st 1 = Ret r1" "map_option ?v r1 = aud"
    "\<forall>m \<in> set_option r1. nm_rule_type m = 1"
    using locked_decides [OF t(1,2) cpu t(3), of 1 henv "req\<lparr>rq_fi := f1\<rparr>"] by (auto simp: aud_def)
  define f2 where "f2 = fst (check_step f1 r1)"
  have types: "[0..<RULE_TYPE_MAX] = [0, 1]" by (simp add: RULE_TYPE_MAX_def upt_rec)
  have "do_ac_table henv fuel cpu st din dout skb fi ui pi proto
      = Ret (f2, snd (check_step fi r0) @ snd (check_step f1 r1))"
    unfolding do_ac_table_def req_def [symmetric] types do_ac_types_step
    by (simp only: r0(1) run_bind.simps f1_def [symmetric] r1(1) f2_def [symmetric] do_ac_types.simps prod.case append_Nil2)
  moreover have "f2 = fi\<lparr>flags := flags f2\<rparr>"
    using check_step_frame [of fi r0] check_step_frame [of f1 r1] unfolding f2_def f1_def
    by (metis (no_types, lifting) flow_info.surjective flow_info.update_convs(4))
  moreover have "bit (flags f2) k \<longleftrightarrow> decided_bit ctl aud (flags fi) k" if "k < 32" for k
    using check_steps_bits [OF that r0(3) r1(3) clean] by (simp add: f2_def f1_def r0(2) r1(2))
  moreover have "map msg_view (snd (check_step fi r0) @ snd (check_step f1 r1)) = rule_log 0 ctl @ rule_log 1 aud"
    using check_step_log [OF r0(3)] check_step_log [OF r1(3)] r0(2) r1(2) by simp
  ultimately show ?thesis by blast
qed

end
