(* ===== verification/Nacs_Config.thy ===== *)
theory Nacs_Config
  imports Nacs_Query
begin

text \<open>
  The module \<open>nacs\<close> as a whole: the configurations its socket options can produce, as an
  inductive relation, the invariants of all of them, and what the hook and the callback do to
  a flow in any of them. The start and stop of the module close the theory.
\<close>

section \<open>The configurations the module can reach\<close>

text \<open>
  From the start of the module, the configuration changes by the two setsockopt commands:
  rule tables as the tool \<open>ruletable\<close> encodes them and consistent list messages. The second
  component are the rules of each category.
\<close>

inductive nacs_reach :: "nacs_env \<Rightarrow> ipsets \<Rightarrow> nac_state \<Rightarrow> (nat \<Rightarrow> ac_rule_item list) \<Rightarrow> bool"
  for env ips where
  start: "table_init s = Some st \<Longrightarrow> nacs_reach env ips st (\<lambda>t. [])"
| rules: "nacs_reach env ips st its \<Longrightarrow> \<forall>it \<in> set new. item_ok it \<and> sorted (proto_ids it) \<Longrightarrow> length new \<le> 65535 \<Longrightarrow>
    alloc_fits env 32 (length (items_bytes new)) \<Longrightarrow> length new < fuel \<Longrightarrow> unat cate < RULE_TYPE_MAX \<Longrightarrow>
    do_ac_set_ctl env fuel ips True AC_SO_SET_REPLACE_TABLE (table_bytes (table_of cate new))
      (length (table_bytes (table_of cate new))) st = Ret (st', None) \<Longrightarrow>
    nacs_reach env ips st' (its(unat cate := new))"
| lists: "nacs_reach env ips st its \<Longrightarrow> unat cate < RULE_TYPE_MAX \<Longrightarrow> num \<le> 4 \<Longrightarrow> length names = 128 \<Longrightarrow>
    do_ac_set_ctl env fuel ips True AC_SO_SET_REPLACE_SET (set_message cate (8 * num) num upd names body) len st
      = Ret (st', err) \<Longrightarrow>
    nacs_reach env ips st' its"

lemma set_ctl_simps:
  "do_ac_set_ctl env fuel ips True AC_SO_SET_REPLACE_TABLE user len st = do_replace_table env fuel user len st"
  "do_ac_set_ctl env fuel ips True AC_SO_SET_REPLACE_SET user len st = do_replace_set env ips user len st"
  by (simp_all add: do_ac_set_ctl_def AC_SO_SET_REPLACE_TABLE_def AC_SO_SET_REPLACE_SET_def)

lemma less_two_cases: "(\<forall>t < 2. P t) \<longleftrightarrow> P 0 \<and> P (Suc 0)"
  by (auto simp: less_2_cases_iff)

lemma start_ok:
  assumes "table_init s = Some st"
  shows "nac_ok env st (\<lambda>t. []) \<and> sets_inv st"
proof -
  have st: "st = \<lparr>magic = 999,
      priv_tables = map (\<lambda>i. \<lparr>ti_category = word_of_nat i, ti_size = 0, ti_number = 0, ti_buf = []\<rparr>) [0..<RULE_TYPE_MAX],
      priv_sets = map (\<lambda>i. \<lparr>si_category = word_of_nat i, si_size = 0, si_number = 0, si_updated = 0,
                           si_header = replicate SET_HEADER 0, si_buf = []\<rparr>) [0..<RULE_TYPE_MAX], set_log = []\<rparr>"
    using assms by (auto simp: table_init_def split: if_splits)
  have "SMP_ALIGN 0 = 0" by (simp add: SMP_ALIGN_def)
  moreover have "(\<Sum>info \<leftarrow> priv_sets st. set_refs info i) = 0" for i
    by (simp add: st RULE_TYPE_MAX_def upt_rec set_refs_def)
  ultimately show ?thesis
    by (auto simp: nac_ok_def lists_ok_def rules_ok_def sets_inv_def located_def st Let_def RULE_TYPE_MAX_def set_refs_def slice_def)
qed

text \<open>Installing encoded rules keeps everything but the rules of the category.\<close>

lemma install_rules:
  assumes "nac_ok env st its" and "\<forall>it \<in> set new. item_ok it \<and> sorted (proto_ids it)" and "length new \<le> 65535"
    and "alloc_fits env 32 (length (items_bytes new))" and "length new < fuel" and "unat cate < RULE_TYPE_MAX" and "1 \<le> ncpu env"
  shows "\<exists>info. do_replace_table env fuel (table_bytes (table_of cate new)) (length (table_bytes (table_of cate new))) st
      = Ret (do_replace_table_locked st info, None)
    \<and> nac_ok env (do_replace_table_locked st info) (its(unat cate := new))
    \<and> priv_sets (do_replace_table_locked st info) = priv_sets st \<and> set_log (do_replace_table_locked st info) = set_log st
    \<and> magic (do_replace_table_locked st info) = magic st + 1"
proof -
  have ok: "\<forall>it \<in> set new. item_ok it" using assms(2) by simp
  obtain info where acc: "do_replace_table env fuel (table_bytes (table_of cate new)) (length (table_bytes (table_of cate new))) st
      = Ret (do_replace_table_locked st info, None)"
    and info: "ti_category info = cate" "unat (ti_size info) = length (items_bytes new)"
    and loc: "\<forall>cpu < ncpu env. located (ti_buf info) (SMP_ALIGN (unat (ti_size info)) * cpu) (items_bytes new)"
    using do_replace_table_encoded [OF ok assms(3,5,4,7,6), of st] by auto
  have "rules_ok env info new" unfolding rules_ok_def using info(2) loc assms(2) by blast
  with assms(1,6) info(1) have "nac_ok env (do_replace_table_locked st info) (its(unat cate := new))"
    by (auto simp: nac_ok_def do_replace_table_locked_def nth_list_update)
  with acc show ?thesis by (auto simp: do_replace_table_locked_def)
qed

lemma nacs_reach_ok:
  assumes "nacs_reach env ips st its" and "1 \<le> ncpu env" and "ncpu env < 2 ^ 20" and "ipset_ids_ok ips"
  shows "nac_ok env st its \<and> sets_inv st"
  using assms(1)
proof (induction rule: nacs_reach.induct)
  case (start s st)
  then show ?case by (rule start_ok)
next
  case (rules st its new fuel cate st')
  then obtain info where "st' = do_replace_table_locked st info" "nac_ok env st' (its(unat cate := new))"
    "priv_sets st' = priv_sets st" "set_log st' = set_log st"
    using install_rules [of env st its new fuel cate] assms(2) by (auto simp: set_ctl_simps)
  moreover from this rules.IH have "sets_inv st'" unfolding sets_inv_def by metis
  ultimately show ?case by blast
next
  case (lists st its cate num names fuel upd body len st' err)
  then have m: "do_replace_set env ips (set_message cate (8 * num) num upd names body) len st = Ret (st', err)"
    and ih: "nac_ok env st its" "sets_inv st" by (simp_all add: set_ctl_simps)
  from replace_set_message [OF ih(2) assms(4,2,3) lists.hyps(2-4), of upd body len] m
  have new: "sets_inv st'" "err \<noteq> None \<longrightarrow> st' = st"
    "err = None \<longrightarrow> priv_tables st' = priv_tables st \<and> length (priv_sets st') = length (priv_sets st)
       \<and> lists_ok env (priv_sets st' ! unat cate) \<and> (\<forall>c. c \<noteq> unat cate \<longrightarrow> priv_sets st' ! c = priv_sets st ! c)"
    by auto
  then have "nac_ok env st' its" using ih(1) unfolding nac_ok_def by (cases err) metis+
  with new show ?case by simp
qed

section \<open>A check in a sound configuration\<close>

lemma hook_decides:
  assumes ok: "nac_ok env st its" and cpu: "cpu < ncpu env"
    and fuel: "\<forall>t < RULE_TYPE_MAX. length (its t) < fuel" and fi: "f_proto fi \<noteq> 0" "nacs_magic fi \<noteq> magic st"
  shows "let req = \<lparr>rq_in = din, rq_out = dout, rq_skb = skb, rq_fi = fi, rq_ui = ui, rq_pi = pi, rq_proto = f_proto fi\<rparr>;
             ctl = nacs_decide henv req (priv_sets st ! RULE_TYPE_CONTROL) (its RULE_TYPE_CONTROL);
             aud = nacs_decide henv req (priv_sets st ! RULE_TYPE_AUDIT) (its RULE_TYPE_AUDIT)
         in \<exists>fi' ms. do_ac_table_hk henv fuel cpu st din dout skb fi ui pi = Ret (fi', ms)
            \<and> fi' = fi\<lparr>flags := flags fi', nacs_magic := magic st\<rparr>
            \<and> (\<forall>k < 32. bit (flags fi') k \<longleftrightarrow> decided_bit ctl aud (flags fi) k)
            \<and> map msg_view ms = rule_log RULE_TYPE_CONTROL ctl @ rule_log RULE_TYPE_AUDIT aud
            \<and> do_ac_table_hk henv fuel cpu st din dout skb fi' ui pi = Ret (fi', [])"
proof -
  let ?req = "\<lparr>rq_in = din, rq_out = dout, rq_skb = skb, rq_fi = fi, rq_ui = ui, rq_pi = pi, rq_proto = f_proto fi\<rparr>"
  define ctl where "ctl = nacs_decide henv ?req (priv_sets st ! 0) (its 0)"
  define aud where "aud = nacs_decide henv ?req (priv_sets st ! 1) (its 1)"
  have clean: "\<forall>j \<in> {4, 5, 9, 10, 16, 17}. \<not> bit (flags (flow_flags_clr fi)) j" by (auto simp: clr_bits)
  have req: "?req\<lparr>rq_fi := flow_flags_clr fi\<rparr> = \<lparr>rq_in = din, rq_out = dout, rq_skb = skb, rq_fi = flow_flags_clr fi,
      rq_ui = ui, rq_pi = pi, rq_proto = f_proto fi\<rparr>" by simp
  obtain f1 ms where f1: "do_ac_table henv fuel cpu st din dout skb (flow_flags_clr fi) ui pi (f_proto fi) = Ret (f1, ms)"
    "f1 = (flow_flags_clr fi)\<lparr>flags := flags f1\<rparr>"
    "\<forall>k < 32. bit (flags f1) k \<longleftrightarrow> decided_bit ctl aud (flags (flow_flags_clr fi)) k"
    "map msg_view ms = rule_log 0 ctl @ rule_log 1 aud"
    using do_ac_table_decides [OF ok cpu fuel clean, of henv din dout skb ui pi "f_proto fi"]
    unfolding ctl_def aud_def req [symmetric] decide_fi by blast
  have eq: "f1 = fi\<lparr>flags := flags f1\<rparr>" using f1(2) clr_frame [of fi] by (metis (no_types, lifting) flow_info.surjective flow_info.update_convs(4))
  have "decided_bit ctl aud (flags (flow_flags_clr fi)) k = decided_bit ctl aud (flags fi) k" if "k < 32" for k
    using clr_bits [OF that, of fi] clr_bits [of 3 fi] by (auto simp: decided_bit_def)
  with f1(3) have bits: "\<forall>k < 32. bit (flags f1) k \<longleftrightarrow> decided_bit ctl aud (flags fi) k" by simp
  define f2 where "f2 = f1\<lparr>nacs_magic := magic st\<rparr>"
  have run: "do_ac_table_hk henv fuel cpu st din dout skb fi ui pi = Ret (f2, ms)"
    using fi f1(1) by (simp add: do_ac_table_hk_def f2_def)
  have frame: "f2 = fi\<lparr>flags := flags f2, nacs_magic := magic st\<rparr>" unfolding f2_def by (subst eq) simp
  moreover have "do_ac_table_hk henv fuel cpu st din dout skb f2 ui pi = Ret (f2, [])"
    by (simp add: do_ac_table_hk_def f2_def)
  ultimately show ?thesis
    unfolding Let_def RULE_TYPE_CONTROL_def RULE_TYPE_AUDIT_def ctl_def [symmetric] aud_def [symmetric]
    using run bits f1(4) by (intro exI [of _ f2] exI [of _ ms]) (simp add: f2_def)
qed


section \<open>Properties\<close>

text \<open>
  C3: in every configuration the module can reach, a packet of an identified flow that was last
  checked under another configuration version is checked exactly once: the black and white
  lists come first, then the rules, first match wins, and on every CPU the flow's flags
  afterwards are the decision (control: accept or drop, at layer 4 for a list, at layer 7 for
  a rule, where accept outweighs reject; audit: marked), every other flag of the flow is as
  it was, only rule matches are reported, and the next packet of the flow changes nothing.
\<close>

theorem nacs_hook_decides:
  assumes "nacs_reach env ips st its" and "cpu < ncpu env" and "ncpu env < 2 ^ 20" and "ipset_ids_ok ips"
    and "\<forall>t < RULE_TYPE_MAX. length (its t) < fuel" and "f_proto fi \<noteq> 0" and "nacs_magic fi \<noteq> magic st"
  shows "let req = \<lparr>rq_in = din, rq_out = dout, rq_skb = skb, rq_fi = fi, rq_ui = ui, rq_pi = pi, rq_proto = f_proto fi\<rparr>;
             ctl = nacs_decide henv req (priv_sets st ! RULE_TYPE_CONTROL) (its RULE_TYPE_CONTROL);
             aud = nacs_decide henv req (priv_sets st ! RULE_TYPE_AUDIT) (its RULE_TYPE_AUDIT)
         in \<exists>fi' ms. do_ac_table_hk henv fuel cpu st din dout skb fi ui pi = Ret (fi', ms)
            \<and> fi' = fi\<lparr>flags := flags fi', nacs_magic := magic st\<rparr>
            \<and> (\<forall>k < 32. bit (flags fi') k \<longleftrightarrow> decided_bit ctl aud (flags fi) k)
            \<and> map msg_view ms = rule_log RULE_TYPE_CONTROL ctl @ rule_log RULE_TYPE_AUDIT aud
            \<and> do_ac_table_hk henv fuel cpu st din dout skb fi' ui pi = Ret (fi', [])"
proof -
  have "nac_ok env st its" using nacs_reach_ok [OF assms(1) _ assms(3,4)] assms(2) by simp
  then show ?thesis using assms(2,5-7) by (rule hook_decides)
qed

definition demo_start :: nacs_start where
  "demo_start = \<lparr>klog_init_ok = True, kz = (\<lambda>n. True), nf_register_sockopt_ok = True, nf_register_hooks_ok = True,
     np_hook_register_ok = True\<rparr>"

definition demo_rules :: "nat \<Rightarrow> ac_rule_item list" where
  "demo_rules = (\<lambda>t. [])(0 := demo_items)"

lemma demo_items_ok: "\<forall>it \<in> set demo_items. item_ok it \<and> sorted (proto_ids it)" "length demo_items \<le> 65535" "length demo_items < 10"
  by (auto simp: demo_items_def item_ok_def ids_ok_def AC_ID_MAXNUM_PERMATCH_def)

text \<open>A configuration with the two demonstration rules and no lists is reachable.\<close>

lemma demo_reach:
  "\<exists>st. nacs_reach demo_nacs_env demo_ipsets st demo_rules \<and> magic st = 1000 \<and> (\<forall>t < 2. si_number (priv_sets st ! t) = 0)"
proof -
  obtain st0 where st0: "table_init demo_start = Some st0" "magic st0 = 999" "\<forall>t < 2. si_number (priv_sets st0 ! t) = 0"
    by (auto simp: table_init_def demo_start_def RULE_TYPE_MAX_def)
  have ok: "nac_ok demo_nacs_env st0 (\<lambda>t. [])" using start_ok [OF st0(1)] by simp
  have "unat (0 :: u32) < RULE_TYPE_MAX" "1 \<le> ncpu demo_nacs_env" by (simp_all add: RULE_TYPE_MAX_def demo_nacs_env_def)
  from install_rules [OF ok demo_items_ok(1,2) demo_items_fit demo_items_ok(3) this] obtain st
    where st: "do_replace_table demo_nacs_env 10 (table_bytes (table_of 0 demo_items)) (length (table_bytes (table_of 0 demo_items))) st0
      = Ret (st, None)" "priv_sets st = priv_sets st0" "magic st = 1000"
    using st0(2) by auto
  have "nacs_reach demo_nacs_env demo_ipsets st ((\<lambda>t. [])(unat (0 :: u32) := demo_items))"
    by (rule nacs_reach.rules [OF nacs_reach.start [OF st0(1)] demo_items_ok(1,2) demo_items_fit demo_items_ok(3), of 0])
       (simp_all add: RULE_TYPE_MAX_def set_ctl_simps st(1))
  with st st0(3) show ?thesis by (auto simp: demo_rules_def)
qed

definition demo_new_flow :: flow_info where
  "demo_new_flow = demo_flow\<lparr>f_proto := 20\<rparr>"

definition demo_lan_user :: user_info where
  "demo_lan_user = demo_ui\<lparr>zone_id := 3, ipgrp_bits := 512\<rparr>"

definition demo_wan_peer :: user_info where
  "demo_wan_peer = demo_ui\<lparr>u_id := 13, zone_id := 1, ipgrp_bits := 0\<rparr>"

definition demo_eth0 :: net_device where
  "demo_eth0 = \<lparr>ifindex = 7, netns = 0\<rparr>"

lemma demo_rules_short: "\<forall>t < RULE_TYPE_MAX. length (demo_rules t) < 10"
  using demo_items_ok(3) by (simp add: demo_rules_def)

lemma demo_decision:
  assumes "si_number info = 0"
  shows "nacs_decide henv \<lparr>rq_in = din, rq_out = dout, rq_skb = skb, rq_fi = fi, rq_ui = demo_lan_user, rq_pi = demo_wan_peer,
    rq_proto = 20\<rparr> info demo_items = Some (False, 6)"
proof -
  have "rules_decide \<lparr>rq_src_zone = 3, rq_dst_zone = 1, rq_src_ipgrp_bits = 512, rq_dst_ipgrp_bits = 0, rq_proto_id = 20\<rparr> demo_items
      = Some (7, 6)"
    by code_simp
  then show ?thesis
    using assms by (simp add: nacs_decide_def lists_decide_def table_req_def demo_lan_user_def demo_wan_peer_def demo_ui_def)
qed

lemma empty_decision: "si_number info = 0 \<Longrightarrow> nacs_decide henv req info [] = None"
  by (simp add: nacs_decide_def lists_decide_def rules_decide_def)

theorem nacs_hook_decides_witness:
  "\<exists>st fi' ms. nacs_reach demo_nacs_env demo_ipsets st demo_rules
    \<and> do_ac_table_hk demo_env 10 1 st demo_eth0 demo_eth0 demo_skb demo_new_flow demo_lan_user demo_wan_peer = Ret (fi', ms)
    \<and> bit (flags fi') 10 \<and> map msg_view ms = [(0, 6)]"
proof -
  obtain st where st: "nacs_reach demo_nacs_env demo_ipsets st demo_rules" "magic st = 1000" "\<forall>t < 2. si_number (priv_sets st ! t) = 0"
    using demo_reach by blast
  have p: "f_proto demo_new_flow = 20" "nacs_magic demo_new_flow = 0" by (simp_all add: demo_new_flow_def demo_flow_def)
  have "1 < ncpu demo_nacs_env" "ncpu demo_nacs_env < 2 ^ 20" by (simp_all add: demo_nacs_env_def)
  from nacs_hook_decides [OF st(1) this demo_ipset_ids demo_rules_short, where fi = demo_new_flow and din = demo_eth0
      and dout = demo_eth0 and skb = demo_skb and ui = demo_lan_user and pi = demo_wan_peer and henv = demo_env]
  obtain fi' ms where h: "do_ac_table_hk demo_env 10 1 st demo_eth0 demo_eth0 demo_skb demo_new_flow demo_lan_user demo_wan_peer = Ret (fi', ms)"
    "\<forall>k < 32. bit (flags fi') k \<longleftrightarrow> decided_bit (Some (False, 6)) None (flags demo_new_flow) k"
    "map msg_view ms = rule_log 0 (Some (False, 6)) @ rule_log 1 None"
    using st(2,3) demo_decision [of "priv_sets st ! 0"] empty_decision [of "priv_sets st ! 1"]
    by (auto simp: p Let_def RULE_TYPE_CONTROL_def RULE_TYPE_AUDIT_def demo_rules_def)
  moreover have "bit (flags fi') 10" using h(2) by (simp add: decided_bit_def rejects_def)
  ultimately show ?thesis using st(1) by (auto simp: rule_log_def)
qed

text \<open>
  C6: a rule update takes effect on flows that are already decided: after the module accepted
  new rules for a category, the next packet of an identified flow that was checked under the
  old configuration is decided by the new rules (and the lists, which stay), whatever its
  flags said before.
\<close>

theorem rule_update_takes_effect:
  assumes "nacs_reach env ips st its" and "cpu < ncpu env" and "ncpu env < 2 ^ 20" and "ipset_ids_ok ips"
    and "\<forall>it \<in> set new. item_ok it \<and> sorted (proto_ids it)" and "length new \<le> 65535"
    and "alloc_fits env 32 (length (items_bytes new))" and "unat cate < RULE_TYPE_MAX"
    and "\<forall>t < RULE_TYPE_MAX. length (its t) < fuel" and "length new < fuel"
    and "f_proto fi \<noteq> 0" and "nacs_magic fi = magic st"
  shows "let its' = its(unat cate := new);
             req = \<lparr>rq_in = din, rq_out = dout, rq_skb = skb, rq_fi = fi, rq_ui = ui, rq_pi = pi, rq_proto = f_proto fi\<rparr>;
             ctl = nacs_decide henv req (priv_sets st ! RULE_TYPE_CONTROL) (its' RULE_TYPE_CONTROL);
             aud = nacs_decide henv req (priv_sets st ! RULE_TYPE_AUDIT) (its' RULE_TYPE_AUDIT)
         in \<exists>st' fi' ms. do_ac_set_ctl env fuel ips True AC_SO_SET_REPLACE_TABLE (table_bytes (table_of cate new))
              (length (table_bytes (table_of cate new))) st = Ret (st', None)
            \<and> nacs_reach env ips st' its'
            \<and> do_ac_table_hk henv fuel cpu st' din dout skb fi ui pi = Ret (fi', ms)
            \<and> (\<forall>k < 32. bit (flags fi') k \<longleftrightarrow> decided_bit ctl aud (flags fi) k)"
proof -
  have ok: "nac_ok env st its" using nacs_reach_ok [OF assms(1) _ assms(3,4)] assms(2) by simp
  obtain st' where st': "do_replace_table env fuel (table_bytes (table_of cate new)) (length (table_bytes (table_of cate new))) st
      = Ret (st', None)" "nac_ok env st' (its(unat cate := new))" "priv_sets st' = priv_sets st" "magic st' = magic st + 1"
    using install_rules [OF ok assms(5,6,7,10,8)] assms(2) by auto
  have ctl: "do_ac_set_ctl env fuel ips True AC_SO_SET_REPLACE_TABLE (table_bytes (table_of cate new))
      (length (table_bytes (table_of cate new))) st = Ret (st', None)" by (simp add: set_ctl_simps st'(1))
  then have reach: "nacs_reach env ips st' (its(unat cate := new))"
    by (rule nacs_reach.rules [OF assms(1,5,6,7,10,8)])
  have "\<forall>t < RULE_TYPE_MAX. length ((its(unat cate := new)) t) < fuel" using assms(9,10) by simp
  moreover have "nacs_magic fi \<noteq> magic st'" using assms(12) st'(4) by simp
  ultimately show ?thesis
    using hook_decides [OF st'(2) assms(2) _ assms(11), where henv = henv and fuel = fuel and din = din and dout = dout and skb = skb
      and ui = ui and pi = pi] ctl reach
    unfolding Let_def st'(3) by blast
qed

theorem rule_update_takes_effect_witness:
  "\<exists>st st' fi' ms. nacs_reach demo_nacs_env demo_ipsets st demo_rules
    \<and> do_ac_set_ctl demo_nacs_env 10 demo_ipsets True AC_SO_SET_REPLACE_TABLE (table_bytes (table_of 0 []))
        (length (table_bytes (table_of 0 []))) st = Ret (st', None)
    \<and> do_ac_table_hk demo_env 10 1 st' demo_eth0 demo_eth0 demo_skb (demo_new_flow\<lparr>flags := 1024, nacs_magic := 1000\<rparr>)
        demo_lan_user demo_wan_peer = Ret (fi', ms)
    \<and> \<not> bit (flags fi') 10"
proof -
  obtain st where st: "nacs_reach demo_nacs_env demo_ipsets st demo_rules" "magic st = 1000" "\<forall>t < 2. si_number (priv_sets st ! t) = 0"
    using demo_reach by blast
  let ?fi = "demo_new_flow\<lparr>flags := 1024, nacs_magic := 1000\<rparr>"
  have env: "1 < ncpu demo_nacs_env" "ncpu demo_nacs_env < 2 ^ 20" by (simp_all add: demo_nacs_env_def)
  have fit: "alloc_fits demo_nacs_env 32 (length (items_bytes []))" by (simp add: alloc_fits_def SMP_ALIGN_def demo_nacs_env_def)
  have p: "f_proto ?fi \<noteq> 0" "nacs_magic ?fi = magic st" by (simp_all add: demo_new_flow_def demo_flow_def st(2))
  have short: "length ([] :: ac_rule_item list) < 10" "unat (0 :: u32) < RULE_TYPE_MAX" "length ([] :: ac_rule_item list) \<le> 65535"
    "\<forall>it \<in> set []. item_ok it \<and> sorted (proto_ids it)" by (simp_all add: RULE_TYPE_MAX_def)
  from rule_update_takes_effect [OF st(1) env demo_ipset_ids short(4,3) fit short(2) demo_rules_short short(1) p, where henv = demo_env
      and din = demo_eth0 and dout = demo_eth0 and skb = demo_skb and ui = demo_lan_user and pi = demo_wan_peer]
  obtain st' fi' ms where h: "do_ac_set_ctl demo_nacs_env 10 demo_ipsets True AC_SO_SET_REPLACE_TABLE (table_bytes (table_of 0 []))
        (length (table_bytes (table_of 0 []))) st = Ret (st', None)"
    "do_ac_table_hk demo_env 10 1 st' demo_eth0 demo_eth0 demo_skb ?fi demo_lan_user demo_wan_peer = Ret (fi', ms)"
    "\<forall>k < 32. bit (flags fi') k \<longleftrightarrow> decided_bit None None (flags ?fi) k"
    using st(3) empty_decision [of "priv_sets st ! 0"] empty_decision [of "priv_sets st ! 1"]
    by (auto simp: Let_def RULE_TYPE_CONTROL_def RULE_TYPE_AUDIT_def demo_rules_def)
  have "\<not> bit (flags fi') 10" using h(3) by (simp add: decided_bit_def)
  with st(1) h(1,2) show ?thesis by blast
qed

text \<open>
  When the protocol of a flow becomes known, the callback answers ``drop'' exactly when the
  control decision for the new protocol rejects the flow, or when the flow carries a drop
  reason of another module (authentication, content filter); the flow then counts as checked
  under the current configuration. It must not be called with the protocol the flow already has.
\<close>

lemma callback_decides:
  assumes "nacs_reach env ips st its" and "cpu < ncpu env" and "ncpu env < 2 ^ 20" and "ipset_ids_ok ips"
    and "\<forall>t < RULE_TYPE_MAX. length (its t) < fuel"
    and "pkt = \<lparr>pkt_in = Some din, pkt_out = Some dout, pkt_skb = Some skb, pkt_fi = Some fi, pkt_ui = Some ui, pkt_pi = Some pi\<rparr>"
    and False: "proto \<noteq> f_proto fi"
  shows "\<exists>f1 ms. nacs_nproto_callback henv fuel cpu st pkt proto = Ret (if nt_flow_droped f1 then -1 else 0, pkt\<lparr>pkt_fi := Some f1\<rparr>, ms)
      \<and> nacs_magic f1 = magic st
      \<and> (nt_flow_droped f1 \<longleftrightarrow>
          (\<exists>s fl. nacs_decide henv \<lparr>rq_in = din, rq_out = dout, rq_skb = skb, rq_fi = fi, rq_ui = ui, rq_pi = pi, rq_proto = proto\<rparr>
              (priv_sets st ! RULE_TYPE_CONTROL) (its RULE_TYPE_CONTROL) = Some (s, fl) \<and> rejects fl)
          \<or> (\<exists>k. 8 \<le> k \<and> k < 16 \<and> k \<noteq> 9 \<and> k \<noteq> 10 \<and> bit (flags fi) k))"
proof -
  have ok: "nac_ok env st its" using nacs_reach_ok [OF assms(1) _ assms(3,4)] assms(2) by simp
  let ?req = "\<lparr>rq_in = din, rq_out = dout, rq_skb = skb, rq_fi = fi, rq_ui = ui, rq_pi = pi, rq_proto = proto\<rparr>"
  let ?f = "fi\<lparr>nacs_magic := magic st\<rparr>"
  define ctl where "ctl = nacs_decide henv ?req (priv_sets st ! 0) (its 0)"
  define aud where "aud = nacs_decide henv ?req (priv_sets st ! 1) (its 1)"
  have clean: "\<forall>j \<in> {4, 5, 9, 10, 16, 17}. \<not> bit (flags (flow_flags_clr ?f)) j" by (auto simp: clr_bits)
  have req: "?req\<lparr>rq_fi := flow_flags_clr ?f\<rparr> = \<lparr>rq_in = din, rq_out = dout, rq_skb = skb, rq_fi = flow_flags_clr ?f,
      rq_ui = ui, rq_pi = pi, rq_proto = proto\<rparr>" by simp
  obtain f1 ms where f1: "do_ac_table henv fuel cpu st din dout skb (flow_flags_clr ?f) ui pi proto = Ret (f1, ms)"
    "f1 = (flow_flags_clr ?f)\<lparr>flags := flags f1\<rparr>"
    "\<forall>k < 32. bit (flags f1) k \<longleftrightarrow> decided_bit ctl aud (flags (flow_flags_clr ?f)) k"
    using do_ac_table_decides [OF ok assms(2,5) clean, of henv din dout skb ui pi proto]
    unfolding ctl_def aud_def req [symmetric] decide_fi by blast
  have mg: "nacs_magic f1 = magic st"
  proof -
    have "nacs_magic (flow_flags_clr ?f) = nacs_magic ?f" by (subst clr_frame) simp
    then show ?thesis by (subst f1(2)) simp
  qed
  have drops: "nt_flow_droped f1 \<longleftrightarrow> (\<exists>k. 8 \<le> k \<and> k < 16 \<and> decided_bit ctl aud (flags (flow_flags_clr ?f)) k)"
    using f1(3) by (auto simp: flow_flag_iff)
  have bits: "decided_bit ctl aud (flags (flow_flags_clr ?f)) k \<longleftrightarrow>
      (if k = 9 then \<exists>fl. ctl = Some (True, fl) \<and> rejects fl else if k = 10 then \<exists>fl. ctl = Some (False, fl) \<and> rejects fl
       else bit (flags fi) k)" if "8 \<le> k" "k < 16" for k
    using that clr_bits [of k ?f] by (simp add: decided_bit_def)
  have split: "(\<exists>k. 8 \<le> k \<and> k < 16 \<and> P k) \<longleftrightarrow> P 9 \<or> P 10 \<or> (\<exists>k. 8 \<le> k \<and> k < 16 \<and> k \<noteq> 9 \<and> k \<noteq> 10 \<and> P k)"
    for P :: "nat \<Rightarrow> bool" by (auto intro: exI [of _ 9] exI [of _ 10])
  have "nt_flow_droped f1 \<longleftrightarrow> (\<exists>s fl. ctl = Some (s, fl) \<and> rejects fl)
      \<or> (\<exists>k. 8 \<le> k \<and> k < 16 \<and> k \<noteq> 9 \<and> k \<noteq> 10 \<and> bit (flags fi) k)"
  proof -
    let ?d = "decided_bit ctl aud (flags (flow_flags_clr ?f))"
    have d: "?d 9 \<longleftrightarrow> (\<exists>fl. ctl = Some (True, fl) \<and> rejects fl)" "?d 10 \<longleftrightarrow> (\<exists>fl. ctl = Some (False, fl) \<and> rejects fl)"
      using bits [of 9] bits [of 10] by simp_all
    have "(8 \<le> k \<and> k < 16 \<and> k \<noteq> 9 \<and> k \<noteq> 10 \<and> ?d k) = (8 \<le> k \<and> k < 16 \<and> k \<noteq> 9 \<and> k \<noteq> 10 \<and> bit (flags fi) k)" for k
      using bits [of k] by auto
    moreover have "(\<exists>s fl. ctl = Some (s, fl) \<and> rejects fl)
        \<longleftrightarrow> (\<exists>fl. ctl = Some (True, fl) \<and> rejects fl) \<or> (\<exists>fl. ctl = Some (False, fl) \<and> rejects fl)"
      by (metis (full_types))
    ultimately show ?thesis unfolding drops split [of ?d] d by simp
  qed
  moreover have "nacs_nproto_callback henv fuel cpu st pkt proto
      = Ret (if nt_flow_droped f1 then -1 else 0, pkt\<lparr>pkt_fi := Some f1\<rparr>, ms)"
    using False f1(1) by (simp add: nacs_nproto_callback_def do_ac_table_cb_def assms(6))
  ultimately show ?thesis
    using mg unfolding RULE_TYPE_CONTROL_def ctl_def [symmetric] by (intro exI [of _ f1]) auto
qed

lemma callback_same_protocol: "nacs_nproto_callback henv fuel cpu st
    \<lparr>pkt_in = Some din, pkt_out = Some dout, pkt_skb = Some skb, pkt_fi = Some fi, pkt_ui = Some ui, pkt_pi = Some pi\<rparr> (f_proto fi) = Fault BugOn"
  by (simp add: nacs_nproto_callback_def do_ac_table_cb_def)

lemma free_sets_refs:
  assumes "\<forall>info \<in> set infos. 8 * unat (si_number info) \<le> length (si_buf info)"
  shows "\<exists>es. free_sets infos = Ret es \<and> (\<forall>i. held es i = - (\<Sum>info \<leftarrow> infos. set_refs info i))"
  using assms
proof (induction infos)
  case (Cons info infos)
  obtain es where "free_sets infos = Ret es" "\<forall>i. held es i = - (\<Sum>info \<leftarrow> infos. set_refs info i)"
    using Cons by auto
  moreover obtain fs where "free_ac_set_info info = Ret fs" "\<forall>i. held fs i = - set_refs info i"
    using free_set_refs [of info] Cons.prems by auto
  ultimately show ?case by simp
qed simp

text \<open>
  C20: unloading the module in any reachable configuration returns every ipset reference it
  ever took, exactly once, and leaves nothing registered.
\<close>

theorem nacs_fini_releases:
  assumes "nacs_reach env ips st its" and "1 \<le> ncpu env" and "ncpu env < 2 ^ 20" and "ipset_ids_ok ips"
  shows "\<exists>es. nacs_fini \<lparr>nac_table = Some st, klog_open = True, sockopt_registered = True, nf_hooks_registered = True,
        np_hook_registered = True\<rparr> = Ret (nacs_off, es)
    \<and> (\<forall>i. held (set_log st @ es) i = 0)"
proof -
  have inv: "sets_inv st" using nacs_reach_ok [OF assms] by simp
  then obtain es where "free_sets (priv_sets st) = Ret es" "\<forall>i. held es i = - (\<Sum>info \<leftarrow> priv_sets st. set_refs info i)"
    using free_sets_refs [of "priv_sets st"] by (auto simp: sets_inv_def)
  with inv show ?thesis by (auto simp: nacs_fini_def table_fini_def nacs_off_def sets_inv_def)
qed

theorem nacs_fini_releases_witness:
  "\<exists>st es. nacs_fini \<lparr>nac_table = Some st, klog_open = True, sockopt_registered = True, nf_hooks_registered = True,
        np_hook_registered = True\<rparr> = Ret (nacs_off, es) \<and> (\<forall>i. held (set_log st @ es) i = 0)"
proof -
  obtain st where "nacs_reach demo_nacs_env demo_ipsets st demo_rules" using demo_reach by blast
  from nacs_fini_releases [OF this _ _ demo_ipset_ids] show ?thesis by (auto simp: demo_nacs_env_def)
qed

text \<open>
  The start of the module succeeds exactly when every step does, and a successful start can
  be undone; but when the last step (the protocol callback) fails, the start reports failure
  and frees the tables with the netfilter hook and the socket options still registered: the
  next packet or setsockopt call works on freed memory.
\<close>

theorem nacs_init_outcome:
  "(\<exists>m es ok. nacs_init s = Ret (m, es, ok)
      \<and> (ok \<longleftrightarrow> klog_init_ok s \<and> (\<forall>n < 4. kz s n) \<and> nf_register_sockopt_ok s \<and> nf_register_hooks_ok s \<and> np_hook_register_ok s)
      \<and> (ok \<longrightarrow> nac_table m \<noteq> None \<and> nacs_fini m = Ret (nacs_off, [])))
   \<and> (klog_init_ok s \<and> (\<forall>n < 4. kz s n) \<and> nf_register_sockopt_ok s \<and> nf_register_hooks_ok s \<and> \<not> np_hook_register_ok s \<longrightarrow>
       nacs_init s = Ret (nacs_off\<lparr>sockopt_registered := True, nf_hooks_registered := True\<rparr>, [], False))"
proof -
  have tab: "table_init s \<noteq> None \<longleftrightarrow> (\<forall>n < 4. kz s n)"
    by (auto simp: table_init_def RULE_TYPE_MAX_def)
  have free: "table_fini (table_init s) = Ret []"
    by (auto simp: table_fini_def table_init_def free_ac_set_info_def RULE_TYPE_MAX_def upt_rec)
  show ?thesis
  proof (cases "table_init s")
    case None
    then have n: "\<not> (\<forall>n < 4. kz s n)" using tab by auto
    have "\<exists>m. nacs_init s = Ret (m, [], False)"
      by (cases "klog_init_ok s") (simp_all add: nacs_init_def nacs_init_failed_def table_fini_def None nacs_off_def)
    with n show ?thesis by blast
  next
    case (Some st)
    then have f: "table_fini (Some st) = Ret []" and k: "\<forall>n < 4. kz s n" using free tab by auto
    have i: "nacs_init s = (if \<not> klog_init_ok s then Ret (nacs_off, [], False)
        else if \<not> nf_register_sockopt_ok s then Ret (nacs_off, [], False)
        else if \<not> nf_register_hooks_ok s then Ret (nacs_off\<lparr>sockopt_registered := True\<rparr>, [], False)
        else if \<not> np_hook_register_ok s
          then Ret (nacs_off\<lparr>sockopt_registered := True, nf_hooks_registered := True\<rparr>, [], False)
        else Ret (\<lparr>nac_table = Some st, klog_open = True, sockopt_registered = True, nf_hooks_registered = True,
          np_hook_registered = True\<rparr>, [], True))"
      by (simp add: nacs_init_def nacs_init_failed_def Some f nacs_off_def)
    moreover have "nacs_fini \<lparr>nac_table = Some st, klog_open = True, sockopt_registered = True, nf_hooks_registered = True,
          np_hook_registered = True\<rparr> = Ret (nacs_off, [])"
      by (simp add: nacs_fini_def f nacs_off_def)
    ultimately show ?thesis using k by auto
  qed
qed

theorem nacs_init_outcome_witness:
  "nacs_init (demo_start\<lparr>np_hook_register_ok := False\<rparr>)
     = Ret (nacs_off\<lparr>sockopt_registered := True, nf_hooks_registered := True\<rparr>, [], False)"
  using nacs_init_outcome [of "demo_start\<lparr>np_hook_register_ok := False\<rparr>"] by (simp add: demo_start_def)

end
