(* ===== verification/Ruletable_Commit.thy ===== *)
theory Ruletable_Commit
  imports Ruletable_Parse Nacs_Config
begin

text \<open>
  The tool \<open>ruletable\<close>: the list message (\<open>generate_ac_set\<close> of \<open>rule_entry.c\<close>), the
  socket calls (\<open>rule_ipc.c\<close>) and the command of \<open>rule_core.c\<close> that commits a configuration to
  the kernel; fetching it back is in \<open>Ruletable_Fetch\<close>. What the tool needs of the kernel is the locale \<open>rule_ipc\<close>;
  the module \<open>nacs\<close> provides it.
\<close>

section \<open>The list message\<close>

definition ac_set_action_map :: "u32 list" where
  "ac_set_action_map = [AC_ACCEPT, AC_ACCEPT, AC_AUDIT OR AC_REJECT, AC_AUDIT OR AC_REJECT]"

definition char_byte :: "char \<Rightarrow> u8" where
  "char_byte c = word_of_nat (cv c)"

text \<open>
  \<open>memcpy\<close> of 32 bytes from a name allocated with its length plus one: what follows it in the
  heap (\<open>after\<close>) is copied as well.
\<close>

definition name_slot :: "u8 list \<Rightarrow> string \<Rightarrow> u8 list" where
  "name_slot after name = take 32 (map char_byte name @ [0] @ after @ replicate 32 0)"

fun copy_names :: "(nat \<Rightarrow> u8 list) \<Rightarrow> ac_set \<Rightarrow> nat list \<Rightarrow> u8 list run" where
  "copy_names after s [] = Ret []"
| "copy_names after s (i # is) =
     run_bind
       (if bit (s_updated s) i then
          (case s_ipsets s of
             None \<Rightarrow> Fault Undefined
           | Some names \<Rightarrow> (case names ! i of None \<Rightarrow> Fault Undefined | Some name \<Rightarrow> Ret (name_slot (after i) name)))
        else Ret (replicate 32 0)) (\<lambda>slot.
     run_bind (copy_names after s is) (\<lambda>slots. Ret (slot @ slots)))"

definition set_entry :: "nat \<Rightarrow> u8 list" where
  "set_entry i = le16 (word_of_nat (AC_ALIGN 8)) @ le16 set_invalid_id @ le32 (ac_set_action_map ! i)"

definition generate_ac_set ::
  "(nat \<Rightarrow> bool) \<Rightarrow> (nat \<Rightarrow> u8 list) \<Rightarrow> ac_set \<Rightarrow> u32 \<Rightarrow> u8 list option run" where
  "generate_ac_set malloc_ok after s cate =
     (let entry_size = s_number s * AC_ALIGN 8;
          total_size = entry_size + SET_HEADER
      in if \<not> malloc_ok total_size then Ret None
         else run_bind (copy_names after s [0..<s_number s]) (\<lambda>names.
           Ret (Some (set_message cate (word_of_nat entry_size) (word_of_nat (s_number s)) (s_updated s)
             (names @ replicate (128 - length names) 0) (concat (map set_entry [0..<s_number s]))))))"

section \<open>Talking to the kernel\<close>

text \<open>\<open>ipc\<close> is the kernel's setsockopt handler; \<open>sock_ok\<close> whether a raw socket can be had.\<close>

definition do_rule_ipc_set ::
  "(int \<Rightarrow> u8 list \<Rightarrow> nat \<Rightarrow> 'k \<Rightarrow> ('k \<times> errno option) run) \<Rightarrow> bool \<Rightarrow> int \<Rightarrow> u8 list \<Rightarrow> 'k \<Rightarrow> ('k \<times> bool) run" where
  "do_rule_ipc_set ipc sock_ok cmd data k =
     (if \<not> sock_ok then Ret (k, False)
      else run_bind (ipc cmd data (length data) k) (\<lambda>(k, err). Ret (k, err = None)))"

definition do_rule_ipc_get ::
  "(int \<Rightarrow> u8 list \<Rightarrow> nat \<Rightarrow> (u8 list \<times> errno option) run) \<Rightarrow> bool \<Rightarrow> int \<Rightarrow> u8 list \<Rightarrow> (u8 list \<times> bool) run" where
  "do_rule_ipc_get get sock_ok cmd data =
     (if \<not> sock_ok then Ret (data, False)
      else run_bind (get cmd data (length data)) (\<lambda>(data, err). Ret (data, err = None)))"

section \<open>Committing a configuration\<close>

text \<open>
  One block of \<open>do_commit_config\<close>: the kernel, whether the message was allocated, and whether to
  go on. A message that cannot be generated is skipped.
\<close>

definition commit_table ::
  "(nat \<Rightarrow> bool) \<Rightarrow> (int \<Rightarrow> u8 list \<Rightarrow> nat \<Rightarrow> 'k \<Rightarrow> ('k \<times> errno option) run) \<Rightarrow> bool \<Rightarrow> ac_rule \<Rightarrow> nat \<Rightarrow> 'k
   \<Rightarrow> ('k \<times> bool \<times> bool) run" where
  "commit_table malloc_ok ipc sock_ok r cate k =
     (if \<not> r_updated r then Ret (k, False, True)
      else run_bind (generate_ac_table malloc_ok (r_updated r) (r_items r) (word_of_nat cate)) (\<lambda>t.
        case t of
          None \<Rightarrow> Ret (k, False, True)
        | Some t \<Rightarrow>
            run_bind (do_rule_ipc_set ipc sock_ok AC_SO_SET_REPLACE_TABLE (table_bytes t) k) (\<lambda>(k, ok).
              Ret (k, True, ok))))"

definition commit_set ::
  "(nat \<Rightarrow> bool) \<Rightarrow> (nat \<Rightarrow> u8 list) \<Rightarrow> (int \<Rightarrow> u8 list \<Rightarrow> nat \<Rightarrow> 'k \<Rightarrow> ('k \<times> errno option) run) \<Rightarrow> bool \<Rightarrow> ac_set \<Rightarrow> nat \<Rightarrow> 'k
   \<Rightarrow> ('k \<times> bool) run" where
  "commit_set malloc_ok after ipc sock_ok s cate k =
     (if s_updated s = 0 then Ret (k, True)
      else run_bind (generate_ac_set malloc_ok after s (word_of_nat cate)) (\<lambda>m.
        case m of
          None \<Rightarrow> Ret (k, True)
        | Some m \<Rightarrow> do_rule_ipc_set ipc sock_ok AC_SO_SET_REPLACE_SET m k))"

text \<open>
  The label \<open>out\<close>: when the audit table was allocated, the control table is freed (again), and the
  audit table never.
\<close>

definition commit_out :: "ac_global_config \<Rightarrow> bool \<Rightarrow> bool \<Rightarrow> 'k \<Rightarrow> bool \<Rightarrow> ('k \<times> bool) run" where
  "commit_out g control_table audit_table k ret =
     (if control_table \<and> audit_table then Fault Undefined
      else run_bind (free_global_config (Some g)) (\<lambda>u. Ret (k, ret)))"

text \<open>The four blocks in their order; a refused message ends the command with an error.\<close>

definition commit_parts ::
  "(nat \<Rightarrow> bool) \<Rightarrow> (nat \<Rightarrow> u8 list) \<Rightarrow> (int \<Rightarrow> u8 list \<Rightarrow> nat \<Rightarrow> 'k \<Rightarrow> ('k \<times> errno option) run) \<Rightarrow> bool \<Rightarrow> ac_global_config \<Rightarrow> 'k
   \<Rightarrow> ('k \<times> bool) run" where
  "commit_parts malloc_ok after ipc sock_ok g k =
     run_bind (commit_table malloc_ok ipc sock_ok (c_rule (g_control g)) RULE_TYPE_CONTROL k) (\<lambda>(k, ct, go).
     if \<not> go then commit_out g ct False k False else
     run_bind (commit_set malloc_ok after ipc sock_ok (c_set (g_control g)) RULE_TYPE_CONTROL k) (\<lambda>(k, go).
     if \<not> go then commit_out g ct False k False else
     run_bind (commit_table malloc_ok ipc sock_ok (c_rule (g_audit g)) RULE_TYPE_AUDIT k) (\<lambda>(k, at, go).
     if \<not> go then commit_out g ct at k False else
     run_bind (commit_set malloc_ok after ipc sock_ok (c_set (g_audit g)) RULE_TYPE_AUDIT k) (\<lambda>(k, go).
     commit_out g ct at k go))))"

definition do_commit_config ::
  "(nat \<Rightarrow> bool) \<Rightarrow> (nat \<Rightarrow> u8 list) \<Rightarrow> (string \<Rightarrow> nx_json option) \<Rightarrow> (int \<Rightarrow> u8 list \<Rightarrow> nat \<Rightarrow> 'k \<Rightarrow> ('k \<times> errno option) run)
   \<Rightarrow> bool \<Rightarrow> string \<Rightarrow> 'k \<Rightarrow> ('k \<times> bool) run" where
  "do_commit_config malloc_ok after parse ipc sock_ok config_str k =
     (if config_str = [] then Ret (k, False)
      else run_bind (do_parse_config malloc_ok parse config_str) (\<lambda>(g, ok).
        if \<not> ok then Ret (k, False)
        else case g of
          None \<Rightarrow> Fault Undefined
        | Some g \<Rightarrow> commit_parts malloc_ok after ipc sock_ok g k))"

section \<open>Names and messages\<close>

declare add_2_eq_Suc [simp del] add_2_eq_Suc' [simp del]

text \<open>The name the kernel reads from the i-th slot.\<close>

definition slot_name :: "u8 list \<Rightarrow> nat \<Rightarrow> string" where
  "slot_name names i = cstr (map (\<lambda>b. char_of (unat b)) (take 32 (drop (32 * i) names)))"

lemma char_byte_inverse [simp]: "char_of (unat (char_byte c)) = c"
proof -
  have "cv c < 256" using nat_of_char_less_256 [of c] by (simp add: cv_def)
  then have "unat (char_byte c) = cv c" by (simp add: char_byte_def unat_of_nat)
  then show ?thesis by (simp add: cv_def)
qed

lemma length_name_slot [simp]: "length (name_slot after name) = 32"
  by (simp add: name_slot_def)

lemma name_slot_reads:
  assumes "length name \<le> AC_IPSET_MAXNAMELEN" and "CHR 0x00 \<notin> set name"
  shows "cstr (map (\<lambda>b. char_of (unat b)) (name_slot after name)) = name"
proof -
  obtain n where n: "32 - length name = Suc n"
    using assms(1) by (cases "32 - length name") (auto simp: AC_IPSET_MAXNAMELEN_def)
  have z: "char_of (0 :: nat) = CHR 0x00" by code_simp
  have "map (\<lambda>b. char_of (unat b)) (name_slot after name)
      = name @ CHR 0x00 # map (\<lambda>b. char_of (unat b)) (take n (after @ replicate 32 0))"
    using n by (simp add: name_slot_def o_def z)
  moreover have "\<forall>c \<in> set name. c \<noteq> CHR 0x00" using assms(2) by auto
  ultimately show ?thesis by (simp add: cstr_def takeWhile_append2 takeWhile_eq_all_conv)
qed

text \<open>The slots of a complete set, and what is read from them.\<close>

lemma copy_names_complete:
  assumes "set_complete s" and "s_number s \<noteq> 0"
  shows "\<exists>names. copy_names after s [0..<s_number s] = Ret names \<and> length names = 32 * s_number s
    \<and> (\<forall>i < s_number s. bit (s_updated s) i \<longrightarrow> Some (slot_name names i) = the (s_ipsets s) ! i)"
proof -
  obtain nms where nms: "s_ipsets s = Some nms" "length nms = s_number s"
    "\<forall>k. bit (s_updated s) k \<longleftrightarrow> k < s_number s \<and> nms ! k \<noteq> None"
    "\<forall>n \<in> set nms. \<forall>name. n = Some name \<longrightarrow> length name \<le> AC_IPSET_MAXNAMELEN \<and> CHR 0x00 \<notin> set name"
    using assms by (auto simp: set_complete_def)
  have "\<exists>names. copy_names after s [k..<s_number s] = Ret names \<and> length names = 32 * (s_number s - k)
    \<and> (\<forall>i. k \<le> i \<and> i < s_number s \<and> bit (s_updated s) i \<longrightarrow> Some (slot_name names (i - k)) = nms ! i)" for k
  proof (induction "s_number s - k" arbitrary: k)
    case 0
    then show ?case by auto
  next
    case (Suc d)
    then have k: "k < s_number s" and d: "d = s_number s - Suc k" by auto
    obtain names where IH: "copy_names after s [Suc k..<s_number s] = Ret names" "length names = 32 * (s_number s - Suc k)"
      "\<forall>i. Suc k \<le> i \<and> i < s_number s \<and> bit (s_updated s) i \<longrightarrow> Some (slot_name names (i - Suc k)) = nms ! i"
      using Suc.hyps(1) [OF d] by auto
    obtain slot where slot: "copy_names after s [k..<s_number s] = Ret (slot @ names)" "length slot = 32"
      "bit (s_updated s) k \<longrightarrow> Some (cstr (map (\<lambda>b. char_of (unat b)) slot)) = nms ! k"
    proof (cases "bit (s_updated s) k")
      case True
      then obtain name where name: "nms ! k = Some name" "length name \<le> AC_IPSET_MAXNAMELEN" "CHR 0x00 \<notin> set name"
        using nms k by (metis not_None_eq nth_mem)
      show ?thesis
        by (rule that [of "name_slot (after k) name"])
           (use True name k nms IH name_slot_reads [OF name(2,3)] in \<open>simp_all add: upt_conv_Cons\<close>)
    next
      case False
      show ?thesis
        by (rule that [of "replicate 32 0"]) (use False k IH in \<open>simp_all add: upt_conv_Cons\<close>)
    qed
    have "slot_name (slot @ names) (i - k) = (if i = k then cstr (map (\<lambda>b. char_of (unat b)) slot) else slot_name names (i - Suc k))"
      if "k \<le> i" for i
    proof (cases "i = k")
      case True
      then show ?thesis using slot(2) by (simp add: slot_name_def)
    next
      case False
      with that have "32 * (i - k) = 32 + 32 * (i - Suc k)" by simp
      then show ?thesis using False slot(2) by (simp add: slot_name_def)
    qed
    then show ?case
      using slot IH k by (intro exI [of _ "slot @ names"]) (auto simp: Suc_diff_le Suc_le_eq)
  qed
  from this [of 0] nms show ?thesis by auto
qed

lemma length_concat_set_entry [simp]: "length (concat (map set_entry is)) = 8 * length is"
  by (induction "is") (simp_all add: set_entry_def)

section \<open>What the tool needs of the kernel\<close>

text \<open>The lists a message asks for: for each, the ipset its name stands for and the action.\<close>

definition message_lists :: "(string \<Rightarrow> u16) \<Rightarrow> nat \<Rightarrow> u32 \<Rightarrow> u8 list \<Rightarrow> u8 list \<Rightarrow> (u16 \<times> u32) list" where
  "message_lists resolve n upd names body =
     map (\<lambda>i. (if bit upd i then resolve (slot_name names i) else set_invalid_id, entry_flags body i)) [0..<n]"

text \<open>The lists a configuration asks for.\<close>

definition config_lists :: "(string \<Rightarrow> u16) \<Rightarrow> ac_set \<Rightarrow> (u16 \<times> u32) list" where
  "config_lists resolve s =
     map (\<lambda>i. (case the (s_ipsets s) ! i of None \<Rightarrow> set_invalid_id | Some name \<Rightarrow> resolve name, ac_set_action_map ! i)) [0..<s_number s]"

definition set_after :: "(string \<Rightarrow> u16) \<Rightarrow> nat \<Rightarrow> ac_set \<Rightarrow> (nat \<Rightarrow> (u16 \<times> u32) list) \<Rightarrow> nat \<Rightarrow> (u16 \<times> u32) list" where
  "set_after resolve cate s ls = (if s_updated s = 0 then ls else ls(cate := config_lists resolve s))"

definition rules_after :: "nat \<Rightarrow> ac_rule \<Rightarrow> (nat \<Rightarrow> ac_rule_item list) \<Rightarrow> nat \<Rightarrow> ac_rule_item list" where
  "rules_after cate r its = (if r_updated r then its(cate := r_items r) else its)"

lemma set_entry_flags:
  assumes "i < n"
  shows "entry_flags (concat (map set_entry [0..<n])) i = ac_set_action_map ! i"
proof -
  have "[0..<n] = [0..<i] @ i # [Suc i..<n]" using assms upt_add_eq_append [of 0 i "n - i"] by (simp add: upt_conv_Cons)
  then have "concat (map set_entry [0..<n]) = concat (map set_entry [0..<i]) @ set_entry i @ concat (map set_entry [Suc i..<n])"
    by simp
  then have "located (concat (map set_entry [0..<n])) (8 * i) (set_entry i)" by (simp add: located_def)
  then have "located (concat (map set_entry [0..<n])) (8 * i + 4) (le32 (ac_set_action_map ! i))"
    unfolding set_entry_def located_append by (simp add: add.assoc)
  then show ?thesis by (simp add: entry_flags_def rd32_located)
qed

text \<open>The message of a complete set asks for the lists of the set, whatever follows its names in memory.\<close>

lemma generate_ac_set_complete:
  assumes "set_complete s" and "s_updated s \<noteq> 0" and "\<forall>n. malloc_ok n"
  shows "\<exists>names body. generate_ac_set malloc_ok after s cate
      = Ret (Some (set_message cate (word_of_nat (8 * s_number s)) (word_of_nat (s_number s)) (s_updated s) names body))
    \<and> length names = 128 \<and> length body = 8 * s_number s \<and> s_number s \<le> 4
    \<and> message_lists resolve (s_number s) (s_updated s) names body = config_lists resolve s"
proof -
  have n: "s_number s \<noteq> 0" "s_number s \<le> 4"
    "\<forall>i. bit (s_updated s) i \<longleftrightarrow> i < s_number s \<and> the (s_ipsets s) ! i \<noteq> None"
    using assms(1,2) by (auto simp: set_complete_def split: if_splits)
  obtain names where names: "copy_names after s [0..<s_number s] = Ret names" "length names = 32 * s_number s"
    "\<forall>i < s_number s. bit (s_updated s) i \<longrightarrow> Some (slot_name names i) = the (s_ipsets s) ! i"
    using copy_names_complete [OF assms(1) n(1)] by blast
  define pad where "pad = names @ replicate (128 - length names) 0"
  have pad: "slot_name pad i = slot_name names i" if "i < s_number s" for i
  proof -
    have "32 * i + 32 \<le> length names" using that names(2) by simp
    then show ?thesis by (simp add: slot_name_def pad_def)
  qed
  have "message_lists resolve (s_number s) (s_updated s) pad (concat (map set_entry [0..<s_number s])) = config_lists resolve s"
    unfolding message_lists_def config_lists_def
  proof (rule map_cong [OF refl], rule prod_eqI)
    fix i
    assume "i \<in> set [0..<s_number s]"
    then have i: "i < s_number s" by simp
    show "fst (if bit (s_updated s) i then resolve (slot_name pad i) else set_invalid_id,
          entry_flags (concat (map set_entry [0..<s_number s])) i)
      = fst (case the (s_ipsets s) ! i of None \<Rightarrow> set_invalid_id | Some name \<Rightarrow> resolve name, ac_set_action_map ! i)"
      using names(3) n(3) i pad [OF i] by (cases "the (s_ipsets s) ! i") auto
    show "snd (if bit (s_updated s) i then resolve (slot_name pad i) else set_invalid_id,
          entry_flags (concat (map set_entry [0..<s_number s])) i)
      = snd (case the (s_ipsets s) ! i of None \<Rightarrow> set_invalid_id | Some name \<Rightarrow> resolve name, ac_set_action_map ! i)"
      using set_entry_flags [OF i] by simp
  qed
  moreover have "generate_ac_set malloc_ok after s cate
      = Ret (Some (set_message cate (word_of_nat (8 * s_number s)) (word_of_nat (s_number s)) (s_updated s) pad
          (concat (map set_entry [0..<s_number s]))))"
    using assms(3) names by (simp add: generate_ac_set_def Let_def pad_def mult.commute)
  moreover have "length pad = 128" using names(2) n(2) by (simp add: pad_def)
  ultimately show ?thesis using n(2) by (intro exI [of _ pad] exI [of _ "concat (map set_entry [0..<s_number s])"]) simp
qed

text \<open>A part of the configuration that can be committed.\<close>

definition rule_ready :: "(ac_rule_item list \<Rightarrow> bool) \<Rightarrow> ac_rule \<Rightarrow> bool" where
  "rule_ready room r \<longleftrightarrow> (r_updated r \<longrightarrow> (\<forall>it \<in> set (r_items r). item_complete it \<and> sorted (proto_ids it)) \<and> room (r_items r))"

definition config_ready :: "(ac_rule_item list \<Rightarrow> bool) \<Rightarrow> ac_global_config \<Rightarrow> bool" where
  "config_ready room g \<longleftrightarrow>
     rule_ready room (c_rule (g_control g)) \<and> rule_ready room (c_rule (g_audit g))
   \<and> set_complete (c_set (g_control g)) \<and> set_complete (c_set (g_audit g))"

text \<open>The rules and lists after a configuration.\<close>

definition config_rules :: "ac_global_config \<Rightarrow> (nat \<Rightarrow> ac_rule_item list) \<Rightarrow> nat \<Rightarrow> ac_rule_item list" where
  "config_rules g its = rules_after RULE_TYPE_AUDIT (c_rule (g_audit g)) (rules_after RULE_TYPE_CONTROL (c_rule (g_control g)) its)"

definition config_sets :: "(string \<Rightarrow> u16) \<Rightarrow> ac_global_config \<Rightarrow> (nat \<Rightarrow> (u16 \<times> u32) list) \<Rightarrow> nat \<Rightarrow> (u16 \<times> u32) list" where
  "config_sets resolve g ls =
     set_after resolve RULE_TYPE_AUDIT (c_set (g_audit g)) (set_after resolve RULE_TYPE_CONTROL (c_set (g_control g)) ls)"

text \<open>The messages a configuration is sent in.\<close>

definition config_messages :: "ac_global_config \<Rightarrow> nat" where
  "config_messages g =
     of_bool (r_updated (c_rule (g_control g))) + of_bool (s_updated (c_set (g_control g)) \<noteq> 0)
   + of_bool (r_updated (c_rule (g_audit g))) + of_bool (s_updated (c_set (g_audit g)) \<noteq> 0)"

definition both_rules :: "ac_global_config \<Rightarrow> bool" where
  "both_rules g \<longleftrightarrow> r_updated (c_rule (g_control g)) \<and> r_updated (c_rule (g_audit g))"

text \<open>
  The kernel as the tool sees it: \<open>conf k its ls\<close> says that its state \<open>k\<close> enforces the rules \<open>its\<close>
  and the lists \<open>ls\<close>. A message with a table or with lists is accepted, replaces its part and makes a new
  version.
\<close>

locale rule_ipc =
  fixes ipc :: "int \<Rightarrow> u8 list \<Rightarrow> nat \<Rightarrow> 'k \<Rightarrow> ('k \<times> errno option) run"
    and conf :: "'k \<Rightarrow> (nat \<Rightarrow> ac_rule_item list) \<Rightarrow> (nat \<Rightarrow> (u16 \<times> u32) list) \<Rightarrow> bool"
    and resolve :: "string \<Rightarrow> u16"
    and room :: "ac_rule_item list \<Rightarrow> bool"
    and version :: "'k \<Rightarrow> u32"
  assumes table_law: "conf k its ls \<Longrightarrow> cate < RULE_TYPE_MAX \<Longrightarrow> \<forall>it \<in> set new. item_ok it \<and> sorted (proto_ids it) \<Longrightarrow>
      length new \<le> 65535 \<Longrightarrow> room new \<Longrightarrow>
      \<exists>k'. ipc AC_SO_SET_REPLACE_TABLE (table_bytes (table_of (word_of_nat cate) new))
             (length (table_bytes (table_of (word_of_nat cate) new))) k = Ret (k', None) \<and> conf k' (its(cate := new)) ls
         \<and> version k' = version k + 1"
    and set_law: "conf k its ls \<Longrightarrow> cate < RULE_TYPE_MAX \<Longrightarrow> n \<le> 4 \<Longrightarrow> length names = 128 \<Longrightarrow> length body = 8 * n \<Longrightarrow>
      \<exists>k'. ipc AC_SO_SET_REPLACE_SET (set_message (word_of_nat cate) (word_of_nat (8 * n)) (word_of_nat n) upd names body)
             (144 + 8 * n) k = Ret (k', None)
         \<and> conf k' its (ls(cate := message_lists resolve n upd names body)) \<and> version k' = version k + 1"
begin

lemma commit_table_installs:
  assumes "conf k its ls" and "cate < RULE_TYPE_MAX" and "rule_in_range r" and "rule_ready room r" and "\<forall>n. malloc_ok n"
  shows "\<exists>k'. commit_table malloc_ok ipc True r cate k = Ret (k', r_updated r, True) \<and> conf k' (rules_after cate r its) ls
    \<and> version k' = version k + of_bool (r_updated r)"
proof (cases "r_updated r")
  case True
  have ok: "\<forall>it \<in> set (r_items r). item_ok it \<and> sorted (proto_ids it)" "length (r_items r) \<le> 65535" "room (r_items r)"
    using assms(3,4) True by (auto simp: rule_in_range_def rule_ready_def RULE_MAXNUM_def complete_item_ok)
  then have "generate_ac_table malloc_ok True (r_items r) (word_of_nat cate) = Ret (Some (table_of (word_of_nat cate) (r_items r)))"
    using assms(5) by (intro generate_ac_table_ok) simp_all
  with table_law [OF assms(1,2) ok] True show ?thesis
    by (auto simp: commit_table_def do_rule_ipc_set_def rules_after_def)
next
  case False
  with assms(1) show ?thesis by (simp add: commit_table_def rules_after_def)
qed

lemma commit_set_installs:
  assumes "conf k its ls" and "cate < RULE_TYPE_MAX" and "set_complete s" and "\<forall>n. malloc_ok n"
  shows "\<exists>k'. commit_set malloc_ok after ipc True s cate k = Ret (k', True) \<and> conf k' its (set_after resolve cate s ls)
    \<and> version k' = version k + of_bool (s_updated s \<noteq> 0)"
proof (cases "s_updated s = 0")
  case False
  obtain names body where gen: "generate_ac_set malloc_ok after s (word_of_nat cate)
      = Ret (Some (set_message (word_of_nat cate) (word_of_nat (8 * s_number s)) (word_of_nat (s_number s)) (s_updated s) names body))"
    and m: "length names = 128" "length body = 8 * s_number s" "s_number s \<le> 4"
      "message_lists resolve (s_number s) (s_updated s) names body = config_lists resolve s"
    using generate_ac_set_complete [OF assms(3) False assms(4)] by blast
  obtain k' where "ipc AC_SO_SET_REPLACE_SET (set_message (word_of_nat cate) (word_of_nat (8 * s_number s)) (word_of_nat (s_number s))
        (s_updated s) names body) (144 + 8 * s_number s) k = Ret (k', None)"
    "conf k' its (ls(cate := config_lists resolve s))" "version k' = version k + 1"
    using set_law [OF assms(1,2) m(3,1,2), of "s_updated s"] m(4) by auto
  then show ?thesis
    using False m by (auto simp: commit_set_def gen do_rule_ipc_set_def set_after_def set_message_def set_header_def)
next
  case True
  with assms(1) show ?thesis by (simp add: commit_set_def set_after_def)
qed

text \<open>
  Committing a configuration that can be committed gets to its end with every part it contains
  installed and the rest kept; there, it returns unless both rule tables were sent.
\<close>

lemma commit_installs:
  assumes "conf k its ls" and parsed: "do_parse_config malloc_ok parse config_str = Ret (Some g, True)"
    and "config_in_range g" and "config_ready room g" and "\<forall>n. malloc_ok n"
  shows "\<exists>k'. do_commit_config malloc_ok after parse ipc True config_str k = (if both_rules g then Fault Undefined else Ret (k', True))
    \<and> conf k' (config_rules g its) (config_sets resolve g ls) \<and> version k' = version k + of_nat (config_messages g)"
proof -
  note range = assms(3) [unfolded config_in_range_def] and ready = assms(4) [unfolded config_ready_def]
  have t: "RULE_TYPE_CONTROL < RULE_TYPE_MAX" "RULE_TYPE_AUDIT < RULE_TYPE_MAX"
    by (simp_all add: RULE_TYPE_CONTROL_def RULE_TYPE_AUDIT_def RULE_TYPE_MAX_def)
  obtain k1 where k1: "commit_table malloc_ok ipc True (c_rule (g_control g)) RULE_TYPE_CONTROL k = Ret (k1, r_updated (c_rule (g_control g)), True)"
    and c1: "conf k1 (rules_after RULE_TYPE_CONTROL (c_rule (g_control g)) its) ls"
    and v1: "version k1 = version k + of_bool (r_updated (c_rule (g_control g)))"
    using commit_table_installs [OF assms(1) t(1)] range ready assms(5) by blast
  obtain k2 where k2: "commit_set malloc_ok after ipc True (c_set (g_control g)) RULE_TYPE_CONTROL k1 = Ret (k2, True)"
    and c2: "conf k2 (rules_after RULE_TYPE_CONTROL (c_rule (g_control g)) its) (set_after resolve RULE_TYPE_CONTROL (c_set (g_control g)) ls)"
    and v2: "version k2 = version k1 + of_bool (s_updated (c_set (g_control g)) \<noteq> 0)"
    using commit_set_installs [OF c1 t(1)] ready assms(5) by blast
  obtain k3 where k3: "commit_table malloc_ok ipc True (c_rule (g_audit g)) RULE_TYPE_AUDIT k2 = Ret (k3, r_updated (c_rule (g_audit g)), True)"
    and c3: "conf k3 (rules_after RULE_TYPE_AUDIT (c_rule (g_audit g)) (rules_after RULE_TYPE_CONTROL (c_rule (g_control g)) its))
        (set_after resolve RULE_TYPE_CONTROL (c_set (g_control g)) ls)"
    and v3: "version k3 = version k2 + of_bool (r_updated (c_rule (g_audit g)))"
    using commit_table_installs [OF c2 t(2)] range ready assms(5) by blast
  obtain k4 where k4: "commit_set malloc_ok after ipc True (c_set (g_audit g)) RULE_TYPE_AUDIT k3 = Ret (k4, True)"
    and c4: "conf k4 (rules_after RULE_TYPE_AUDIT (c_rule (g_audit g)) (rules_after RULE_TYPE_CONTROL (c_rule (g_control g)) its))
        (set_after resolve RULE_TYPE_AUDIT (c_set (g_audit g)) (set_after resolve RULE_TYPE_CONTROL (c_set (g_control g)) ls))"
    and v4: "version k4 = version k3 + of_bool (s_updated (c_set (g_audit g)) \<noteq> 0)"
    using commit_set_installs [OF c3 t(2)] ready assms(5) by blast
  have "config_str \<noteq> []" using parsed by (auto simp: do_parse_config_def)
  moreover have "free_global_config (Some g) = Ret ()"
    using ready by (auto simp: free_global_config_def free_ac_set_def set_complete_def split: if_splits)
  ultimately have "do_commit_config malloc_ok after parse ipc True config_str k = (if both_rules g then Fault Undefined else Ret (k4, True))"
    using parsed k1 k2 k3 k4 by (auto simp: do_commit_config_def commit_parts_def commit_out_def both_rules_def)
  moreover have "version k4 = version k + of_nat (config_messages g)"
    by (simp add: v1 v2 v3 v4 config_messages_def)
  ultimately show ?thesis using c4 unfolding config_rules_def config_sets_def by blast
qed

end

section \<open>The module nacs provides it\<close>

text \<open>The lists the kernel has, and what it resolves a name to.\<close>

definition lists_of :: "ac_set_info \<Rightarrow> (u16 \<times> u32) list" where
  "lists_of info = map (\<lambda>i. (entry_sid (si_buf info) i, entry_flags (si_buf info) i)) [0..<unat (si_number info)]"

definition nacs_resolve :: "ipsets \<Rightarrow> string \<Rightarrow> u16" where
  "nacs_resolve ips name = (case ip_set_get_byname ips name of Some (sid, p) \<Rightarrow> ucast sid | None \<Rightarrow> set_invalid_id)"

definition kernel_ready :: "nacs_env \<Rightarrow> ipsets \<Rightarrow> bool" where
  "kernel_ready env ips \<longleftrightarrow> 1 \<le> ncpu env \<and> ncpu env < 2 ^ 20 \<and> ipset_ids_ok ips \<and> (\<forall>n \<le> 4. alloc_fits env 160 (8 * n))"

definition nacs_conf ::
  "nacs_env \<Rightarrow> ipsets \<Rightarrow> nac_state \<Rightarrow> (nat \<Rightarrow> ac_rule_item list) \<Rightarrow> (nat \<Rightarrow> (u16 \<times> u32) list) \<Rightarrow> bool" where
  "nacs_conf env ips st its ls \<longleftrightarrow>
     kernel_ready env ips \<and> nacs_reach env ips st its \<and> (\<forall>c < RULE_TYPE_MAX. lists_of (priv_sets st ! c) = ls c)"

definition nacs_room :: "nacs_env \<Rightarrow> nat \<Rightarrow> ac_rule_item list \<Rightarrow> bool" where
  "nacs_room env fuel new \<longleftrightarrow> alloc_fits env 32 (length (items_bytes new)) \<and> length new < fuel"

lemma set_name_slot: "set_name (set_header cate sz num upd names) i = slot_name names i"
  by (simp add: set_name_def slot_name_def set_header_def)

lemma unat_cate: "cate < RULE_TYPE_MAX \<Longrightarrow> unat (word_of_nat cate :: u32) = cate"
  by (simp add: RULE_TYPE_MAX_def unat_u32)

lemma nacs_table_law:
  assumes "nacs_conf env ips st its ls" and "cate < RULE_TYPE_MAX" and "\<forall>it \<in> set new. item_ok it \<and> sorted (proto_ids it)"
    and "length new \<le> 65535" and "nacs_room env fuel new"
  shows "\<exists>st'. do_ac_set_ctl env fuel ips True AC_SO_SET_REPLACE_TABLE (table_bytes (table_of (word_of_nat cate) new))
      (length (table_bytes (table_of (word_of_nat cate) new))) st = Ret (st', None) \<and> nacs_conf env ips st' (its(cate := new)) ls
    \<and> magic st' = magic st + 1"
proof -
  let ?c = "word_of_nat cate :: u32"
  have env: "1 \<le> ncpu env" "ncpu env < 2 ^ 20" "ipset_ids_ok ips" and reach: "nacs_reach env ips st its"
    using assms(1) by (simp_all add: nacs_conf_def kernel_ready_def)
  have c: "unat ?c = cate" "unat ?c < RULE_TYPE_MAX" using unat_cate [OF assms(2)] assms(2) by simp_all
  have room: "alloc_fits env 32 (length (items_bytes new))" "length new < fuel" using assms(5) by (simp_all add: nacs_room_def)
  have ok: "nac_ok env st its" using nacs_reach_ok [OF reach env] by simp
  obtain st' where st': "do_replace_table env fuel (table_bytes (table_of ?c new)) (length (table_bytes (table_of ?c new))) st = Ret (st', None)"
    "priv_sets st' = priv_sets st" "magic st' = magic st + 1"
    using install_rules [OF ok assms(3,4) room c(2) env(1)] by blast
  have "nacs_reach env ips st' (its(unat ?c := new))"
    by (rule nacs_reach.rules [OF reach assms(3,4) room c(2)]) (simp add: set_ctl_simps st'(1))
  with st' assms(1) c(1) show ?thesis by (auto simp: nacs_conf_def set_ctl_simps)
qed

lemma nacs_set_law:
  assumes "nacs_conf env ips st its ls" and "cate < RULE_TYPE_MAX" and "n \<le> 4" and "length names = 128" and "length body = 8 * n"
  shows "\<exists>st'. do_ac_set_ctl env fuel ips True AC_SO_SET_REPLACE_SET
      (set_message (word_of_nat cate) (word_of_nat (8 * n)) (word_of_nat n) upd names body) (144 + 8 * n) st = Ret (st', None)
    \<and> nacs_conf env ips st' its (ls(cate := message_lists (nacs_resolve ips) n upd names body)) \<and> magic st' = magic st + 1"
proof -
  let ?c = "word_of_nat cate :: u32" and ?n = "word_of_nat n :: u32"
  let ?m = "set_message ?c (8 * ?n) ?n upd names body"
  have env: "1 \<le> ncpu env" "ncpu env < 2 ^ 20" "ipset_ids_ok ips" and reach: "nacs_reach env ips st its"
    and fits: "alloc_fits env 160 (8 * n)" and ls: "\<forall>c < RULE_TYPE_MAX. lists_of (priv_sets st ! c) = ls c"
    using assms(1,3) by (simp_all add: nacs_conf_def kernel_ready_def)
  have c: "unat ?c = cate" "unat ?c < RULE_TYPE_MAX" using unat_cate [OF assms(2)] assms(2) by simp_all
  have n: "unat ?n = n" "?n \<le> 4" using assms(3) by (simp_all add: unat_u32 word_le_nat_alt)
  have inv: "sets_inv st" using nacs_reach_ok [OF reach env] by simp
  have "alloc_percpu env 160 (8 * unat ?n) \<noteq> None" "word_of_nat (144 + 8 * n) = word_of_nat SET_HEADER + 8 * ?n" "8 * unat ?n \<le> length body"
    using alloc_percpu_fits [OF fits] n(1) assms(5) by (simp_all add: SET_HEADER_def)
  then obtain st' where st': "do_replace_set env ips ?m (144 + 8 * n) st = Ret (st', None)"
    and new: "\<forall>c. c \<noteq> cate \<longrightarrow> priv_sets st' ! c = priv_sets st ! c" "si_number (priv_sets st' ! cate) = ?n"
      "\<forall>k < n. entry_sid (si_buf (priv_sets st' ! cate)) k = set_wanted ips (set_header ?c (8 * ?n) ?n upd names) upd k
         \<and> entry_flags (si_buf (priv_sets st' ! cate)) k = entry_flags body k"
      "magic st' = magic st + 1"
    using replace_set_message [OF inv env(3,1,2) c(2) n(2) assms(4), of upd body "144 + 8 * n"] unfolding c(1) n(1) by blast
  have r: "nacs_reach env ips st' its"
    using nacs_reach.lists [OF reach c(2) n(2) assms(4), unfolded set_ctl_simps, OF st'] .
  have "lists_of (priv_sets st' ! cate) = message_lists (nacs_resolve ips) n upd names body"
    unfolding lists_of_def message_lists_def new(2) n(1)
    using new(3) by (intro map_cong) (auto simp: set_wanted_def set_name_slot nacs_resolve_def)
  with new(1,4) r st' ls assms(1) show ?thesis by (auto simp: nacs_conf_def set_ctl_simps)
qed

interpretation nacs_ipc: rule_ipc "do_ac_set_ctl env fuel ips True" "nacs_conf env ips" "nacs_resolve ips" "nacs_room env fuel" magic
  for env fuel ips
  by unfold_locales (fact nacs_table_law, fact nacs_set_law)

section \<open>What a committed configuration does\<close>

text \<open>The decision of one category on a packet, from its lists and rules: the lists come first.\<close>

definition config_decide :: "hook_env \<Rightarrow> nac_check_req \<Rightarrow> (u16 \<times> u32) list \<Rightarrow> ac_rule_item list \<Rightarrow> (bool \<times> u8) option" where
  "config_decide env req ls its =
     (case find (\<lambda>k. fst (ls ! k) \<noteq> set_invalid_id \<and> set_probe env req k (fst (ls ! k))) [0..<length ls] of
        Some k \<Rightarrow> Some (True, ucast (snd (ls ! k)))
      | None \<Rightarrow> map_option (\<lambda>(eid, fl). (False, ucast fl)) (rules_decide (table_req req) its))"

lemma nacs_decide_config: "nacs_decide henv req info its = config_decide henv req (lists_of info) its"
proof -
  let ?f = "find (\<lambda>k. entry_sid (si_buf info) k \<noteq> set_invalid_id \<and> set_probe henv req k (entry_sid (si_buf info) k)) [0..<unat (si_number info)]"
  have f: "?f = find (\<lambda>k. fst (lists_of info ! k) \<noteq> set_invalid_id \<and> set_probe henv req k (fst (lists_of info ! k))) [0..<length (lists_of info)]"
    by (intro find_cong) (simp_all add: lists_of_def)
  show ?thesis
  proof (cases ?f)
    case None
    then show ?thesis by (simp add: nacs_decide_def lists_decide_def config_decide_def f [symmetric])
  next
    case (Some k)
    then have "k < unat (si_number info)" by (auto simp: find_Some_iff)
    then have "snd (lists_of info ! k) = entry_flags (si_buf info) k" by (simp add: lists_of_def)
    with Some show ?thesis by (simp add: nacs_decide_def lists_decide_def config_decide_def f [symmetric])
  qed
qed

lemma parse_config_range: "do_parse_config malloc_ok parse config_str = Ret (Some g, True) \<Longrightarrow> config_in_range g"
  using parse_document_range by (fastforce simp: do_parse_config_def run_simps split: if_splits option.splits prod.splits)

text \<open>The version moves on by the messages sent, so a flow checked before it has to be checked again.\<close>

lemma version_moves:
  assumes "m = v - word_of_nat old" and "old + k < 2 ^ 32" and "0 < old + k"
  shows "m \<noteq> (v + word_of_nat k :: u32)"
proof
  assume "m = v + word_of_nat k"
  with assms(1) have "v - word_of_nat old + word_of_nat (old + k) = v - word_of_nat old" by simp
  then have "(word_of_nat (old + k) :: u32) = 0" by (metis add_cancel_right_right)
  then have "unat (word_of_nat (old + k) :: u32) = 0" by simp
  then show False using assms(2,3) by (simp add: unat_of_nat take_bit_nat_eq_self del: of_nat_add)
qed

lemma no_messages: "config_messages g = 0 \<Longrightarrow> config_rules g its = its \<and> config_sets resolve g ls = ls"
  by (simp add: config_messages_def config_rules_def config_sets_def rules_after_def set_after_def split: if_splits)


lemma demo_kernel_ready: "kernel_ready demo_nacs_env demo_ipsets"
proof -
  have "alloc_fits demo_nacs_env 160 (8 * n)" if "n \<le> 4" for n
  proof -
    have "n = 0 \<or> n = 1 \<or> n = 2 \<or> n = 3 \<or> n = 4" using that by linarith
    then show ?thesis by (auto simp: alloc_fits_def demo_nacs_env_def SMP_ALIGN_def)
  qed
  then show ?thesis using demo_ipset_ids by (simp add: kernel_ready_def demo_nacs_env_def)
qed

lemma demo_conf: "\<exists>st. nacs_conf demo_nacs_env demo_ipsets st (\<lambda>t. []) (\<lambda>t. [])"
proof -
  obtain st where st: "table_init demo_start = Some st" "\<forall>t < 2. si_number (priv_sets st ! t) = 0"
    by (auto simp: table_init_def demo_start_def RULE_TYPE_MAX_def)
  then show ?thesis
    using nacs_reach.start [OF st(1)] demo_kernel_ready
    by (intro exI [of _ st]) (simp add: nacs_conf_def lists_of_def RULE_TYPE_MAX_def)
qed

lemma demo_item_room: "nacs_room demo_nacs_env 10 [demo_item]" "item_complete demo_item" "sorted (proto_ids demo_item)"
  by (simp_all add: nacs_room_def alloc_fits_def demo_item_def demo_nacs_env_def SMP_ALIGN_def entry_size_def flow_size_def proto_size_def
      flow_elems_def AC_ALIGN_def item_complete_def)

lemma demo_bits: "bit (4 :: u32) k \<longleftrightarrow> k = 2"
proof -
  have "(4 :: u32) = push_bit 2 1" by simp
  then show ?thesis by (simp only: bit_push_bit_iff bit_1_iff) auto
qed

lemma demo_config_ready: "config_ready (nacs_room demo_nacs_env 10) demo_config"
proof -
  have "set_complete (c_set (g_control demo_config))"
    by (auto simp: set_complete_def demo_config_def demo_bits AC_IPSET_MAXNAMELEN_def less_Suc_eq numeral_eq_Suc)
  then show ?thesis
    using demo_item_room by (simp add: config_ready_def rule_ready_def demo_config_def zero_config_def set_complete_def)
qed


end
