(* ===== verification/Ruletable_Fetch.thy ===== *)
theory Ruletable_Fetch
  imports Ruletable_Commit
begin

text \<open>
  The other command of the tool \<open>ruletable\<close>: fetching the rule tables and lists from the kernel
  (\<open>fetch_ac_table\<close>, \<open>fetch_ac_set\<close> of \<open>rule_entry.c\<close>, \<open>do_fetch_config\<close> of \<open>rule_core.c\<close>), and what
  comes back in every state the module \<open>nacs\<close> can reach. The two ways a commit can crash the tool
  close the theory.
\<close>

section \<open>Fetching a configuration\<close>

definition fetch_ac_table ::
  "(nat \<Rightarrow> bool) \<Rightarrow> (int \<Rightarrow> u8 list \<Rightarrow> nat \<Rightarrow> (u8 list \<times> errno option) run) \<Rightarrow> bool \<Rightarrow> u32 \<Rightarrow> u8 list option run" where
  "fetch_ac_table malloc_ok get sock_ok cate =
     run_bind (do_rule_ipc_get get sock_ok AC_SO_GET_TABLE_INFO (le32 cate @ replicate 8 0)) (\<lambda>(info, ok).
       if \<not> ok then Ret None
       else
         run_bind (rd32 info 4) (\<lambda>num.
         run_bind (rd32 info 8) (\<lambda>sz.
           if \<not> malloc_ok (12 + unat sz) then Ret None
           else
             run_bind (do_rule_ipc_get get sock_ok AC_SO_GET_ENTRIES (le32 cate @ le32 sz @ le32 num @ replicate (unat sz) 0))
               (\<lambda>(table, ok). Ret (if ok then Some table else None)))))"

definition fetch_ac_set ::
  "(nat \<Rightarrow> bool) \<Rightarrow> (int \<Rightarrow> u8 list \<Rightarrow> nat \<Rightarrow> (u8 list \<times> errno option) run) \<Rightarrow> bool \<Rightarrow> u32 \<Rightarrow> u8 list option run" where
  "fetch_ac_set malloc_ok get sock_ok cate =
     run_bind (do_rule_ipc_get get sock_ok AC_SO_GET_SET_INFO (le32 cate @ replicate 12 0)) (\<lambda>(info, ok).
       if \<not> ok then Ret None
       else
         run_bind (rd32 info 4) (\<lambda>num.
         run_bind (rd32 info 8) (\<lambda>upd.
         run_bind (rd32 info 12) (\<lambda>sz.
           if \<not> malloc_ok (SET_HEADER + unat sz) then Ret None
           else
             run_bind (do_rule_ipc_get get sock_ok AC_SO_GET_SETS
                 (set_message cate sz num upd (replicate 128 0) (replicate (unat sz) 0)))
               (\<lambda>(sets, ok). Ret (if ok then Some sets else None))))))"

text \<open>What \<open>do_fetch_config\<close> prints: the tables and lists up to the first that cannot be had.\<close>

fun do_fetch_config ::
  "(nat \<Rightarrow> bool) \<Rightarrow> (int \<Rightarrow> u8 list \<Rightarrow> nat \<Rightarrow> (u8 list \<times> errno option) run) \<Rightarrow> bool \<Rightarrow> nat list \<Rightarrow> ((u8 list \<times> u8 list) list \<times> bool) run" where
  "do_fetch_config malloc_ok get sock_ok [] = Ret ([], True)"
| "do_fetch_config malloc_ok get sock_ok (i # is) =
     run_bind (fetch_ac_table malloc_ok get sock_ok (word_of_nat i)) (\<lambda>t.
       case t of
         None \<Rightarrow> Ret ([], False)
       | Some t \<Rightarrow>
           run_bind (fetch_ac_set malloc_ok get sock_ok (word_of_nat i)) (\<lambda>s.
             case s of
               None \<Rightarrow> Ret ([], False)
             | Some s \<Rightarrow> run_bind (do_fetch_config malloc_ok get sock_ok is) (\<lambda>(r, ok). Ret ((t, s) # r, ok))))"

section \<open>How the kernel describes its tables\<close>

declare add_2_eq_Suc [simp del] add_2_eq_Suc' [simp del]

text \<open>The descriptions the kernel keeps with a table and with a category's lists.\<close>

definition table_described :: "nac_state \<Rightarrow> (nat \<Rightarrow> ac_rule_item list) \<Rightarrow> nat \<Rightarrow> bool" where
  "table_described st its t \<longleftrightarrow>
     (let info = priv_tables st ! t; table = table_of (word_of_nat t) (its t)
      in ti_category info = word_of_nat t \<and> ti_size info = tsize table \<and> ti_number info = number table
       \<and> take (unat (tsize table)) (ti_buf info) = entries table \<and> unat (tsize table) = length (entries table))"

definition sets_described :: "nac_state \<Rightarrow> nat \<Rightarrow> bool" where
  "sets_described st t \<longleftrightarrow>
     (let info = priv_sets st ! t
      in si_category info = word_of_nat t \<and> si_size info = 8 * si_number info \<and> si_number info \<le> 4
       \<and> length (si_header info) = SET_HEADER)"

lemma start_described:
  assumes "table_init s = Some st"
  shows "\<forall>t < RULE_TYPE_MAX. table_described st (\<lambda>t. []) t \<and> sets_described st t"
proof -
  have "priv_tables st = map (\<lambda>i. \<lparr>ti_category = word_of_nat i, ti_size = 0, ti_number = 0, ti_buf = []\<rparr>) [0..<RULE_TYPE_MAX]"
    "priv_sets st = map (\<lambda>i. \<lparr>si_category = word_of_nat i, si_size = 0, si_number = 0, si_updated = 0,
                           si_header = replicate SET_HEADER 0, si_buf = []\<rparr>) [0..<RULE_TYPE_MAX]"
    using assms by (auto simp: table_init_def split: if_splits)
  then show ?thesis by (simp add: table_described_def sets_described_def table_of_def)
qed

lemma nacs_reach_described:
  assumes "nacs_reach env ips st its" and "1 \<le> ncpu env" and "ncpu env < 2 ^ 20" and "ipset_ids_ok ips"
  shows "\<forall>t < RULE_TYPE_MAX. table_described st its t \<and> sets_described st t"
  using assms(1)
proof (induction rule: nacs_reach.induct)
  case (start s st)
  then show ?case by (rule start_described)
next
  case (rules st its new fuel cate st')
  have ok: "nac_ok env st its" using nacs_reach_ok [OF rules.hyps(1) assms(2-4)] by simp
  let ?t = "table_of cate new"
  have items: "\<forall>it \<in> set new. item_ok it" using rules.hyps(2) by simp
  have "do_replace_table env fuel (le32 cate @ le32 (tsize ?t) @ le32 (number ?t) @ entries ?t) (length (table_bytes ?t)) st = Ret (st', None)"
    using rules.hyps(7) by (simp add: set_ctl_simps table_bytes_def table_of_def)
  from replace_table_stores [OF this] obtain info where i: "st' = do_replace_table_locked st info" "ti_category info = cate"
    "ti_size info = tsize ?t" "ti_number info = number ?t" "take (unat (tsize ?t)) (ti_buf info) = take (unat (tsize ?t)) (entries ?t)"
    by auto
  have sz: "unat (tsize ?t) = length (entries ?t)"
    using table_of_sizes(1) [OF items rules.hyps(3), of cate] by (simp add: table_of_def)
  have c: "word_of_nat (unat cate) = cate" by simp
  have "length (priv_tables st) = RULE_TYPE_MAX" using ok by (simp add: nac_ok_def)
  with rules.IH i sz rules.hyps(6) show ?case
    by (auto simp: do_replace_table_locked_def table_described_def sets_described_def Let_def nth_list_update c)
next
  case (lists st its cate num names fuel upd body len st' err)
  have inv: "sets_inv st" using nacs_reach_ok [OF lists.hyps(1) assms(2-4)] by simp
  have "do_replace_set env ips (set_message cate (8 * num) num upd names body) len st = Ret (st', err)"
    using lists.hyps(5) by (simp add: set_ctl_simps)
  with replace_set_message [OF inv assms(4,2,3) lists.hyps(2-4), of upd body len]
  have new: "err \<noteq> None \<longrightarrow> st' = st" "err = None \<longrightarrow> priv_tables st' = priv_tables st
      \<and> (\<forall>c. c \<noteq> unat cate \<longrightarrow> priv_sets st' ! c = priv_sets st ! c) \<and> si_category (priv_sets st' ! unat cate) = cate
      \<and> si_size (priv_sets st' ! unat cate) = 8 * num \<and> si_number (priv_sets st' ! unat cate) = num
      \<and> si_header (priv_sets st' ! unat cate) = set_header cate (8 * num) num upd names"
    by auto
  show ?case
  proof (cases err)
    case (Some e)
    with new(1) lists.IH show ?thesis by simp
  next
    case None
    have "length (set_header cate (8 * num) num upd names) = SET_HEADER" using lists.hyps(4) by (simp add: set_header_def SET_HEADER_def)
    with None new(2) have "sets_described st' (unat cate)" using lists.hyps(3) by (simp add: sets_described_def Let_def)
    moreover have "sets_described st' t = sets_described st t" if "t \<noteq> unat cate" for t
      using None new(2) that by (simp add: sets_described_def)
    moreover have "table_described st' its = table_described st its"
      using None new(2) by (simp add: table_described_def fun_eq_iff)
    ultimately show ?thesis using lists.IH by metis
  qed
qed

section \<open>What comes back\<close>

lemma rd32_head: "rd32 (le32 a @ xs) 0 = Ret a"
  using located_refl [of "[]" "le32 a" xs] by (intro rd32_located) simp

lemma rd32_second: "rd32 (le32 a @ le32 b @ xs) 4 = Ret b"
  using located_refl [of "le32 a" "le32 b" xs] by (intro rd32_located) simp

lemma rd32_third: "rd32 (le32 a @ le32 b @ le32 c @ xs) 8 = Ret c"
  using located_refl [of "le32 a @ le32 b" "le32 c" xs] by (intro rd32_located) simp

lemma rd32_fourth: "rd32 (le32 a @ le32 b @ le32 c @ le32 d @ xs) 12 = Ret d"
  using located_refl [of "le32 a @ le32 b @ le32 c" "le32 d" xs] by (intro rd32_located) simp

lemmas rd32_words = rd32_head rd32_second rd32_third rd32_fourth
  rd32_third [where xs = "[]", simplified] rd32_fourth [where xs = "[]", simplified]

lemma get_ctl_simps:
  "do_ac_get_ctl True AC_SO_GET_TABLE_INFO user len st = do_get_table_info st user len"
  "do_ac_get_ctl True AC_SO_GET_SET_INFO user len st = do_get_set_info st user len"
  "do_ac_get_ctl True AC_SO_GET_ENTRIES user len st = do_get_entries st user len"
  "do_ac_get_ctl True AC_SO_GET_SETS user len st = do_get_sets st user len"
  by (simp_all add: do_ac_get_ctl_def AC_SO_GET_TABLE_INFO_def AC_SO_GET_SET_INFO_def AC_SO_GET_ENTRIES_def AC_SO_GET_SETS_def)

lemma cate_two: "t < RULE_TYPE_MAX \<Longrightarrow> unat (word_of_nat t :: u32) = t \<and> \<not> RULE_TYPE_MAX < t \<and> t \<noteq> RULE_TYPE_MAX"
  using unat_cate by simp

lemma fetch_table_described:
  assumes "table_described st its t" and "t < RULE_TYPE_MAX" and "\<forall>n. malloc_ok n"
  shows "fetch_ac_table malloc_ok (\<lambda>cmd data len. do_ac_get_ctl True cmd data len st) True (word_of_nat t)
    = Ret (Some (table_bytes (table_of (word_of_nat t) (its t))))"
proof -
  let ?i = "priv_tables st ! t" and ?t = "table_of (word_of_nat t) (its t)" and ?c = "word_of_nat t :: u32"
  have i: "ti_category ?i = ?c" "ti_size ?i = tsize ?t" "ti_number ?i = number ?t"
    "take (unat (tsize ?t)) (ti_buf ?i) = entries ?t" "unat (tsize ?t) = length (entries ?t)"
    using assms(1) unfolding table_described_def Let_def by blast+
  have fits: "\<not> length (ti_buf ?i) < unat (tsize ?t)"
  proof -
    have "length (take (unat (tsize ?t)) (ti_buf ?i)) = unat (tsize ?t)" using i(4,5) by simp
    then show ?thesis by simp
  qed
  have len: "word_of_nat (12 + unat (tsize ?t)) = 12 + tsize ?t" by simp
  have info: "do_get_table_info st (le32 ?c @ replicate 8 0) 12 = Ret (le32 ?c @ le32 (number ?t) @ le32 (tsize ?t), None)"
    using cate_two [OF assms(2)] i by (simp add: do_get_table_info_def copy_from_user_def rd32_words Let_def)
  have "do_get_entries st (le32 ?c @ le32 (tsize ?t) @ le32 (number ?t) @ replicate (unat (tsize ?t)) 0) (12 + unat (tsize ?t))
      = Ret (table_bytes ?t, None)"
    using cate_two [OF assms(2)] i fits len
    by (simp add: do_get_entries_def copy_from_user_def rd32_words Let_def table_bytes_def) (simp add: table_of_def)
  with info assms(3) show ?thesis
    by (simp add: fetch_ac_table_def do_rule_ipc_get_def get_ctl_simps rd32_words)
qed

lemma fetch_set_described:
  assumes "sets_described st t" and "t < RULE_TYPE_MAX" and "\<forall>n. malloc_ok n"
    and "8 * unat (si_number (priv_sets st ! t)) \<le> length (si_buf (priv_sets st ! t))"
  shows "fetch_ac_set malloc_ok (\<lambda>cmd data len. do_ac_get_ctl True cmd data len st) True (word_of_nat t)
    = Ret (Some (si_header (priv_sets st ! t) @ take (8 * unat (si_number (priv_sets st ! t))) (si_buf (priv_sets st ! t))))"
proof -
  let ?i = "priv_sets st ! t" and ?c = "word_of_nat t :: u32"
  have i: "si_category ?i = ?c" "si_size ?i = 8 * si_number ?i" "length (si_header ?i) = SET_HEADER"
    using assms(1) by (simp_all add: sets_described_def Let_def)
  have "unat (si_number ?i) \<le> 4" using assms(1) by (simp add: sets_described_def Let_def word_le_nat_alt)
  then have us: "unat (si_size ?i) = 8 * unat (si_number ?i)" by (simp add: i(2) unat_word_ariths)
  have info: "do_get_set_info st (le32 ?c @ replicate 12 0) 16
      = Ret (le32 ?c @ le32 (si_number ?i) @ le32 (si_updated ?i) @ le32 (si_size ?i), None)"
    using cate_two [OF assms(2)] by (simp add: do_get_set_info_def copy_from_user_def rd32_words Let_def)
  let ?m = "set_message ?c (si_size ?i) (si_number ?i) (si_updated ?i) (replicate 128 0) (replicate (unat (si_size ?i)) 0)"
  have lm: "length ?m = SET_HEADER + unat (si_size ?i)" by (simp add: set_message_def set_header_def SET_HEADER_def)
  have w: "word_of_nat (SET_HEADER + unat (si_size ?i)) = word_of_nat SET_HEADER + si_size ?i" by simp
  note hdr = set_message_header [of "replicate 128 0"]
  have "do_get_sets st ?m (SET_HEADER + unat (si_size ?i))
      = Ret (si_header ?i @ take (8 * unat (si_number ?i)) (si_buf ?i), None)"
    unfolding do_get_sets_def hdr(1) [OF length_replicate] option.case
    using cate_two [OF assms(2)] i(1) lm w us assms(4) by (simp add: hdr(2-5) Let_def)
  with info assms(3) lm show ?thesis
    by (simp add: fetch_ac_set_def do_rule_ipc_get_def get_ctl_simps rd32_words)
qed

section \<open>Properties\<close>

lemma lists_of_prefix:
  assumes "8 * unat (si_number info) \<le> length (si_buf info)" and "b = take (8 * unat (si_number info)) (si_buf info)"
  shows "lists_of info = map (\<lambda>i. (entry_sid b i, entry_flags b i)) [0..<length b div 8]"
proof -
  have "entry_sid (si_buf info) k = entry_sid b k \<and> entry_flags (si_buf info) k = entry_flags b k" if "k < unat (si_number info)" for k
  proof -
    have "8 * k + 8 \<le> 8 * unat (si_number info)" using that by simp
    then show ?thesis
      using assms by (intro conjI entry_flags_same) (auto simp: entry_sid_def nth_take)
  qed
  with assms show ?thesis by (simp add: lists_of_def)
qed

text \<open>
  C23: in every configuration the module can reach, fetching reports exactly that configuration:
  the command succeeds, the table printed for a category is byte for byte the encoding of the
  rules in force, and the entries printed with its lists are the ipset ids and actions in
  force.
\<close>

theorem fetch_reports_config:
  assumes "nacs_reach env ips st its" and "1 \<le> ncpu env" and "ncpu env < 2 ^ 20" and "ipset_ids_ok ips" and "\<forall>n. malloc_ok n"
  shows "\<exists>xs. do_fetch_config malloc_ok (\<lambda>cmd data len. do_ac_get_ctl True cmd data len st) True [0..<RULE_TYPE_MAX] = Ret (xs, True)
    \<and> length xs = RULE_TYPE_MAX
    \<and> (\<forall>t < RULE_TYPE_MAX. fst (xs ! t) = table_bytes (table_of (word_of_nat t) (its t))
         \<and> (let b = drop SET_HEADER (snd (xs ! t))
            in map (\<lambda>i. (entry_sid b i, entry_flags b i)) [0..<length b div 8] = lists_of (priv_sets st ! t)))"
proof -
  have d: "table_described st its t" "sets_described st t" if "t < RULE_TYPE_MAX" for t
    using nacs_reach_described [OF assms(1-4)] that by auto
  have "sets_inv st" using nacs_reach_ok [OF assms(1-4)] by simp
  then have n: "8 * unat (si_number (priv_sets st ! t)) \<le> length (si_buf (priv_sets st ! t))" if "t < RULE_TYPE_MAX" for t
    using that by (simp add: sets_inv_def)
  define tb where "tb t = table_bytes (table_of (word_of_nat t) (its t))" for t
  define sb where "sb t = si_header (priv_sets st ! t) @ take (8 * unat (si_number (priv_sets st ! t))) (si_buf (priv_sets st ! t))" for t
  have f: "do_fetch_config malloc_ok (\<lambda>cmd data len. do_ac_get_ctl True cmd data len st) True ts = Ret (map (\<lambda>t. (tb t, sb t)) ts, True)"
    if "\<forall>t \<in> set ts. t < RULE_TYPE_MAX" for ts
    using that
  proof (induction ts)
    case (Cons t ts)
    then show ?case
      using fetch_table_described [OF d(1) _ assms(5), of t] fetch_set_described [OF d(2) _ assms(5) n, of t]
      by (simp add: tb_def sb_def)
  qed simp
  have "map (\<lambda>i. (entry_sid (drop SET_HEADER (sb t)) i, entry_flags (drop SET_HEADER (sb t)) i)) [0..<length (drop SET_HEADER (sb t)) div 8]
      = lists_of (priv_sets st ! t)" if "t < RULE_TYPE_MAX" for t
    by (rule lists_of_prefix [OF n [OF that], symmetric])
       (use d(2) [OF that] in \<open>simp add: sb_def sets_described_def Let_def\<close>)
  then show ?thesis
    unfolding Let_def by (intro exI [of _ "map (\<lambda>t. (tb t, sb t)) [0..<RULE_TYPE_MAX]"]) (simp add: f tb_def)
qed

theorem fetch_reports_config_witness:
  "\<exists>st xs. do_fetch_config (\<lambda>n. True) (\<lambda>cmd data len. do_ac_get_ctl True cmd data len st) True [0..<2] = Ret (xs, True)
    \<and> fst (xs ! 0) = table_bytes (table_of 0 demo_items)"
proof -
  obtain st where "nacs_reach demo_nacs_env demo_ipsets st demo_rules" using demo_reach by blast
  from fetch_reports_config [OF this _ _ demo_ipset_ids, of "\<lambda>n. True"] obtain xs where
    "do_fetch_config (\<lambda>n. True) (\<lambda>cmd data len. do_ac_get_ctl True cmd data len st) True [0..<RULE_TYPE_MAX] = Ret (xs, True)"
    "\<forall>t < RULE_TYPE_MAX. fst (xs ! t) = table_bytes (table_of (word_of_nat t) (demo_rules t))"
    by (auto simp: demo_nacs_env_def)
  moreover from this(2) have "fst (xs ! 0) = table_bytes (table_of 0 demo_items)"
    by (auto simp: RULE_TYPE_MAX_def demo_rules_def dest: spec [of _ 0])
  ultimately show ?thesis unfolding RULE_TYPE_MAX_def by blast
qed

text \<open>
  A configuration with both a control and an audit rule table is installed, but the command
  then frees the control table twice (and the audit table never).
\<close>

theorem both_tables_double_free:
  assumes "nacs_conf env ips st its ls" and "do_parse_config malloc_ok parse config_str = Ret (Some g, True)"
    and "config_ready (nacs_room env fuel) g" and "both_rules g" and "\<forall>n. malloc_ok n"
  shows "do_commit_config malloc_ok after parse (do_ac_set_ctl env fuel ips True) True config_str st = Fault Undefined"
  using nacs_ipc.commit_installs [OF assms(1,2) parse_config_range [OF assms(2)] assms(3,5)] assms(4) by auto

definition demo_both_js :: nx_json where
  "demo_both_js = NxJson NX_JSON_OBJECT None [] 0 2
     [NxJson NX_JSON_ARRAY (Some ''ControlRule'') [] 0 0 [], NxJson NX_JSON_ARRAY (Some ''AuditRule'') [] 0 0 []]"

definition demo_both :: ac_global_config where
  "demo_both = \<lparr>g_control = zero_config\<lparr>c_rule := \<lparr>r_updated = True, r_items = []\<rparr>\<rparr>,
     g_audit = zero_config\<lparr>c_rule := \<lparr>r_updated = True, r_items = []\<rparr>\<rparr>\<rparr>"

lemma demo_both_parse: "do_parse_config (\<lambda>n. True) (\<lambda>s. Some demo_both_js) ''{}'' = Ret (Some demo_both, True)"
  by (simp add: do_parse_config_def demo_both_js_def parse_document_def parse_key_def nx_json_get_def init_global_config_def
      nx_dummy_def parse_control_rule_key_def parse_audit_rule_key_def do_parse_ac_rule_def nx_json_array_map_def RULE_MAXNUM_def
      demo_both_def zero_config_def Let_def)

theorem both_tables_double_free_witness:
  "\<exists>st. do_commit_config (\<lambda>n. True) (\<lambda>i. []) (\<lambda>s. Some demo_both_js) (do_ac_set_ctl demo_nacs_env 10 demo_ipsets True) True ''{}'' st
    = Fault Undefined"
proof -
  obtain st where st: "nacs_conf demo_nacs_env demo_ipsets st (\<lambda>t. []) (\<lambda>t. [])" using demo_conf by blast
  have "nacs_room demo_nacs_env 10 []" by (simp add: nacs_room_def alloc_fits_def demo_nacs_env_def SMP_ALIGN_def)
  then have "config_ready (nacs_room demo_nacs_env 10) demo_both" "both_rules demo_both"
    by (simp_all add: config_ready_def rule_ready_def demo_both_def zero_config_def set_complete_def both_rules_def)
  from both_tables_double_free [OF st demo_both_parse this] show ?thesis by blast
qed

text \<open>
  After a name that is too long, the lists of the category have a number but no array. The
  rest of the parse leaves them so.
\<close>

definition control_lost :: "ac_global_config option \<Rightarrow> bool" where
  "control_lost g \<longleftrightarrow> (\<exists>c. g = Some c \<and> s_number (c_set (g_control c)) > 0 \<and> s_ipsets (c_set (g_control c)) = None)"

lemma set_loop_fails:
  assumes "idx \<in> set ks" and "js_type (nx_json_get js (ipset_key_map ! idx)) = NX_JSON_STRING"
    and "length (cstr (text_value (nx_json_get js (ipset_key_map ! idx)))) > AC_IPSET_MAXNAMELEN"
  shows "s_ipsets (fst (parse_set_loop malloc_ok js ks names s)) = None
    \<and> s_number (fst (parse_set_loop malloc_ok js ks names s)) = s_number s"
  using assms(1)
proof (induction ks arbitrary: names s)
  case (Cons k ks)
  then show ?case
    using assms(2,3) by (cases "k = idx") (auto simp: Let_def nx_json_string_map_def split: option.splits)
qed simp

lemma lost_not_freed: "control_lost g \<Longrightarrow> free_global_config g \<noteq> Ret u"
  by (auto simp: control_lost_def free_global_config_def free_ac_set_def)

lemma key_keeps_lost:
  assumes "parse_key nul js k f g = Ret (g', ok)" and "control_lost g"
    and "\<And>j c c' b. f j c = Ret (c', b) \<Longrightarrow> c_set (g_control c') = c_set (g_control c)"
  shows "control_lost g'"
  using assms by (fastforce simp: parse_key_def Let_def run_simps control_lost_def split: if_splits)

lemma other_keys_keep:
  "parse_audit_set_key m j c = Ret (c', b) \<Longrightarrow> c_set (g_control c') = c_set (g_control c)"
  "parse_control_rule_key m j c = Ret (c', b) \<Longrightarrow> c_set (g_control c') = c_set (g_control c)"
  "parse_audit_rule_key m j c = Ret (c', b) \<Longrightarrow> c_set (g_control c') = c_set (g_control c)"
  by (auto simp: parse_audit_set_key_def parse_control_rule_key_def parse_audit_rule_key_def run_simps split: prod.splits)

lemma document_lost:
  assumes "js_type (nx_json_get js ''ControlSet'') \<noteq> NX_JSON_NULL" and "idx < CONTROL_IPSET_TYPE_MAX"
    and "js_type (nx_json_get (nx_json_get js ''ControlSet'') (ipset_key_map ! idx)) = NX_JSON_STRING"
    and "length (cstr (text_value (nx_json_get (nx_json_get js ''ControlSet'') (ipset_key_map ! idx)))) > AC_IPSET_MAXNAMELEN"
    and "parse_document malloc_ok js = Ret (g, ok)"
  shows "control_lost g"
proof -
  obtain g1 g2 g3 b1 b2 b3 where
    k: "parse_key (Fault Undefined) js ''ControlSet'' (parse_control_set_key malloc_ok) (init_global_config malloc_ok) = Ret (g1, b1)"
    "parse_key (Fault Undefined) js ''AuditSet'' (parse_audit_set_key malloc_ok) g1 = Ret (g2, b2)"
    "parse_key (Ret (None, False)) js ''ControlRule'' (parse_control_rule_key malloc_ok) g2 = Ret (g3, b3)"
    and last: "if \<not> b3 then Ret (g3, False) = Ret (g, ok)
       else parse_key (Ret (None, False)) js ''AuditRule'' (parse_audit_rule_key malloc_ok) g3 = Ret (g, ok)"
    using assms(5) by (auto simp: parse_document_def run_simps split: prod.splits if_splits)
  let ?s = "zero_config\<lparr>c_set := (c_set zero_config)\<lparr>s_number := CONTROL_IPSET_TYPE_MAX\<rparr>\<rparr>"
  have "s_ipsets (fst (do_parse_control_set malloc_ok (nx_json_get js ''ControlSet'') (c_set zero_config))) = None
      \<and> s_number (fst (do_parse_control_set malloc_ok (nx_json_get js ''ControlSet'') (c_set zero_config))) = CONTROL_IPSET_TYPE_MAX"
    using set_loop_fails [OF _ assms(3,4), of "[0..<CONTROL_IPSET_TYPE_MAX]" malloc_ok] assms(2)
    by (simp add: do_parse_control_set_def do_parse_ac_set_def)
  then have "control_lost g1"
    using k(1) assms(1) by (auto simp: parse_key_def Let_def init_global_config_def parse_control_set_key_def control_lost_def
        CONTROL_IPSET_TYPE_MAX_def split: if_splits prod.splits)
  then have "control_lost g2" using key_keeps_lost [OF k(2)] other_keys_keep(1) by blast
  then have g3: "control_lost g3" using key_keeps_lost [OF k(3)] other_keys_keep(2) by blast
  show ?thesis
  proof (cases b3)
    case True
    with last have "parse_key (Ret (None, False)) js ''AuditRule'' (parse_audit_rule_key malloc_ok) g3 = Ret (g, ok)" by simp
    then show ?thesis using key_keeps_lost [OF _ g3] other_keys_keep(3) by blast
  next
    case False
    with last g3 show ?thesis by simp
  qed
qed

text \<open>
  A name of more than 31 characters in the control lists of a configuration is reported and
  skipped by the parser, but it leaves the lists without an array: whatever else the file
  contains and whatever the kernel answers, the command does not return normally (it follows
  the NULL pointer when it builds the message or when it frees the configuration).
\<close>

theorem long_set_name_crashes:
  assumes "parse config_str = Some js" and "nx_json_verify js" and "config_str \<noteq> []" and "malloc_ok (length config_str + 1)"
    and "js_type (nx_json_get js ''ControlSet'') \<noteq> NX_JSON_NULL" and "idx < CONTROL_IPSET_TYPE_MAX"
    and "js_type (nx_json_get (nx_json_get js ''ControlSet'') (ipset_key_map ! idx)) = NX_JSON_STRING"
    and "length (cstr (text_value (nx_json_get (nx_json_get js ''ControlSet'') (ipset_key_map ! idx)))) > AC_IPSET_MAXNAMELEN"
  shows "do_commit_config malloc_ok after parse ipc sock_ok config_str k \<noteq> Ret r"
proof
  assume "do_commit_config malloc_ok after parse ipc sock_ok config_str k = Ret r"
  then obtain x where parsed: "do_parse_config malloc_ok parse config_str = Ret x"
    and rest: "(case x of (g, ok) \<Rightarrow> if \<not> ok then Ret (k, False) else case g of None \<Rightarrow> Fault Undefined
        | Some g \<Rightarrow> commit_parts malloc_ok after ipc sock_ok g k) = Ret r"
    using assms(3) by (auto simp: do_commit_config_def run_simps)
  obtain g' ok' where doc: "parse_document malloc_ok js = Ret (g', ok')"
    and fin: "(if ok' then Ret (g', True) else run_bind (free_global_config g') (\<lambda>u. Ret (None, False))) = Ret x"
    using parsed assms(1-4) by (auto simp: do_parse_config_def run_simps)
  have lost: "control_lost g'" using document_lost [OF assms(5-8) doc] .
  with fin lost_not_freed have "x = (g', True)" by (auto simp: run_simps split: if_splits)
  then obtain c where c: "x = (Some c, True)" "control_lost (Some c)" using lost by (auto simp: control_lost_def)
  have out: "commit_out c ct at k' b \<noteq> Ret r" for ct at k' b
    using lost_not_freed [OF c(2)] by (auto simp: commit_out_def run_simps)
  show False using rest out by (auto simp: c(1) commit_parts_def run_simps split: if_splits)
qed

definition demo_long_js :: nx_json where
  "demo_long_js = NxJson NX_JSON_OBJECT None [] 0 1 [NxJson NX_JSON_OBJECT (Some ''ControlSet'') [] 0 1
     [NxJson NX_JSON_STRING (Some ''IpWhiteListSetName'') (replicate 32 (CHR ''a'')) 0 0 []]]"

theorem long_set_name_crashes_witness:
  "do_commit_config (\<lambda>n. True) (\<lambda>i. []) (\<lambda>s. Some demo_long_js) (\<lambda>cmd data len k. Ret (k, None)) True ''{}'' () \<noteq> Ret ((), True)"
  by (rule long_set_name_crashes [where js = demo_long_js and idx = 1])
     (simp_all add: demo_long_js_def nx_json_get_def ipset_key_map_def CONTROL_IPSET_TYPE_MAX_def AC_IPSET_MAXNAMELEN_def cstr_def)

end
