(* ===== verification/Nproto_Bmh.thy ===== *)
theory Nproto_Bmh
  imports Prelude
begin

text \<open>
  The Boyer-Moore-Horspool search of the protocol identification (\<open>drivers/nproto/src/bmh.c\<close>), and
  that it finds the first occurrence of its pattern. A pointer to characters is the list of the
  bytes that may be read from it on; a read outside is the fault \<open>Undefined\<close>.
\<close>

section \<open>The code\<close>

definition rd :: "u8 list \<Rightarrow> int \<Rightarrow> u8 run" where
  "rd buf i = (if 0 \<le> i \<and> i < int (length buf) then Ret (buf ! nat i) else Fault Undefined)"

definition MAXCHAR :: nat where "MAXCHAR = 256"

record bmh =
  bmh_m :: nat
  bmh_patt :: "u8 list"
  bmh_d :: "nat list"

text \<open>The second loop of \<open>BMHInit\<close>, with \<open>r\<close> turns left.\<close>

fun bmh_fill :: "u8 list \<Rightarrow> nat \<Rightarrow> nat \<Rightarrow> nat \<Rightarrow> nat list \<Rightarrow> nat list run" where
  "bmh_fill patt m k 0 d = Ret d"
| "bmh_fill patt m k (Suc r) d = run_bind (rd patt (int k)) (\<lambda>c. bmh_fill patt m (k + 1) r (d[unat c := m - k - 1]))"

definition BMHInit :: "u8 list \<Rightarrow> nat \<Rightarrow> bmh run" where
  "BMHInit patt nlen =
     run_bind (bmh_fill patt nlen 0 (nlen - 1) (replicate MAXCHAR nlen)) (\<lambda>d.
       Ret \<lparr>bmh_m = nlen, bmh_patt = patt, bmh_d = d\<rparr>)"

text \<open>The inner loop, with \<open>j\<close> (here \<open>j - 1\<close>) and \<open>i\<close> running down; true when it ends with \<open>j == -1\<close>.\<close>

fun bmh_cmp :: "u8 list \<Rightarrow> u8 list \<Rightarrow> nat \<Rightarrow> int \<Rightarrow> bool run" where
  "bmh_cmp buf patt 0 i = Ret True"
| "bmh_cmp buf patt (Suc j) i =
     run_bind (rd buf i) (\<lambda>a. run_bind (rd patt (int j)) (\<lambda>b. if a = b then bmh_cmp buf patt j (i - 1) else Ret False))"

text \<open>The outer loop. A shift of 0 would repeat the turn forever.\<close>

function bmh_loop :: "bmh \<Rightarrow> u8 list \<Rightarrow> int \<Rightarrow> int \<Rightarrow> int option run" where
  "bmh_loop b buf nlen k =
     (if k < nlen then
        run_bind (bmh_cmp buf (bmh_patt b) (bmh_m b) k) (\<lambda>hit.
          if hit then Ret (Some (k - int (bmh_m b) + 1))
          else
            run_bind (rd buf k) (\<lambda>c.
              (let s = bmh_d b ! unat c in if s = 0 then Fault NoFuel else bmh_loop b buf nlen (k + int s))))
      else Ret None)"
  by pat_completeness auto
termination by (relation "measure (\<lambda>(b, buf, nlen, k). nat (nlen - k))") (auto simp: Let_def)

declare bmh_loop.simps [simp del]

text \<open>The offset of the occurrence in the buffer, or None for the null pointer.\<close>

definition BMHChr :: "bmh \<Rightarrow> u8 list \<Rightarrow> int \<Rightarrow> int option run" where
  "BMHChr b buf nlen =
     (if int (bmh_m b) > nlen then Ret None else bmh_loop b buf nlen (int (bmh_m b) - 1))"

section \<open>Searching\<close>

text \<open>The reference: try every offset in turn.\<close>

fun first_occ :: "'a list \<Rightarrow> 'a list \<Rightarrow> nat option" where
  "first_occ p [] = (if p = [] then Some 0 else None)"
| "first_occ p (x # xs) = (if take (length p) (x # xs) = p then Some 0 else map_option Suc (first_occ p xs))"

definition occurs_at :: "'a list \<Rightarrow> 'a list \<Rightarrow> nat \<Rightarrow> bool" where
  "occurs_at p t i \<longleftrightarrow> i + length p \<le> length t \<and> (\<forall>j < length p. t ! (i + j) = p ! j)"

lemma occurs_at_take: "occurs_at p t i \<longleftrightarrow> i \<le> length t \<and> take (length p) (drop i t) = p"
proof
  assume h: "i \<le> length t \<and> take (length p) (drop i t) = p"
  have "length (take (length p) (drop i t)) \<le> length t - i" by simp
  then have "length p \<le> length t - i" unfolding conjunct2 [OF h] .
  then have "i + length p \<le> length t" using conjunct1 [OF h] by linarith
  moreover have "t ! (i + j) = p ! j" if "j < length p" for j
    using h that calculation by (metis nth_drop nth_take)
  ultimately show "occurs_at p t i" by (simp add: occurs_at_def)
qed (auto simp: occurs_at_def intro!: nth_equalityI)

lemma first_occ_Some: "first_occ p t = Some i \<longleftrightarrow> occurs_at p t i \<and> (\<forall>j < i. \<not> occurs_at p t j)"
proof (induction t arbitrary: i)
  case Nil
  then show ?case by (auto simp: occurs_at_def)
next
  case (Cons x xs)
  show ?case
  proof (cases i)
    case 0
    then show ?thesis by (auto simp: occurs_at_take)
  next
    case (Suc n)
    have e: "occurs_at p (x # xs) (Suc m) = occurs_at p xs m" for m by (simp add: occurs_at_take)
    have z: "occurs_at p (x # xs) 0 \<longleftrightarrow> take (length p) (x # xs) = p" by (simp add: occurs_at_take)
    have "(\<forall>j < Suc n. \<not> occurs_at p (x # xs) j) \<longleftrightarrow> \<not> occurs_at p (x # xs) 0 \<and> (\<forall>j < n. \<not> occurs_at p xs j)"
      using e by (auto simp: less_Suc_eq_0_disj)
    then show ?thesis using Cons.IH [of n] e z Suc by (simp add: conj_commute)
  qed
qed

lemma first_occ_None: "first_occ p t = None \<longleftrightarrow> (\<forall>i. \<not> occurs_at p t i)"
proof (induction t)
  case (Cons x xs)
  have "occurs_at p (x # xs) (Suc m) = occurs_at p xs m" "occurs_at p (x # xs) 0 \<longleftrightarrow> take (length p) (x # xs) = p" for m
    by (simp_all add: occurs_at_take)
  with Cons show ?case by (metis (no_types, lifting) first_occ.simps(2) map_option_is_None not0_implies_Suc option.distinct(1))
qed (simp add: occurs_at_def)

section \<open>The shift table\<close>

lemma byte_index: "unat (c :: u8) < MAXCHAR"
  using unsigned_less [where ?'a = nat and w = c] by (simp add: MAXCHAR_def)

lemma bmh_fill_table:
  "k + r \<le> length patt \<Longrightarrow> length d = MAXCHAR \<Longrightarrow> k + r + 1 = m
    \<Longrightarrow> (\<forall>c. 0 < d ! unat c \<and> d ! unat c \<le> m \<and> (\<forall>j < k. patt ! j = c \<longrightarrow> d ! unat c \<le> m - 1 - j))
    \<Longrightarrow> \<exists>d'. bmh_fill patt m k r d = Ret d' \<and> length d' = MAXCHAR
      \<and> (\<forall>c. 0 < d' ! unat c \<and> d' ! unat c \<le> m \<and> (\<forall>j < m - 1. patt ! j = c \<longrightarrow> d' ! unat c \<le> m - 1 - j))"
proof (induction r arbitrary: k d)
  case (Suc r)
  let ?d = "d[unat (patt ! k) := m - k - 1]"
  have len: "unat c < length d" for c :: u8 using Suc.prems(2) byte_index by simp
  have nth: "?d ! unat c = (if c = patt ! k then m - k - 1 else d ! unat c)" for c :: u8
    using len by (auto simp: nth_list_update word_unat_eq_iff)
  have "\<forall>c. 0 < ?d ! unat c \<and> ?d ! unat c \<le> m \<and> (\<forall>j < k + 1. patt ! j = c \<longrightarrow> ?d ! unat c \<le> m - 1 - j)"
  proof (intro allI conjI impI)
    show "0 < ?d ! unat c" "?d ! unat c \<le> m" for c :: u8 using Suc.prems nth [of c] by auto
    show "?d ! unat c \<le> m - 1 - j" if "j < k + 1" "patt ! j = c" for c j using Suc.prems nth [of c] that by (auto simp: less_Suc_eq)
  qed
  with Suc.IH [of "k + 1" ?d] Suc.prems show ?case by (simp add: rd_def)
qed auto

lemma BMHInit_table:
  assumes "patt \<noteq> []"
  shows "\<exists>d. BMHInit patt (length patt) = Ret \<lparr>bmh_m = length patt, bmh_patt = patt, bmh_d = d\<rparr>
    \<and> (\<forall>c. 0 < d ! unat c \<and> d ! unat c \<le> length patt \<and> (\<forall>j < length patt - 1. patt ! j = c \<longrightarrow> d ! unat c \<le> length patt - 1 - j))"
proof -
  have n: "replicate MAXCHAR (length patt) ! unat c = length patt" for c :: u8
    using byte_index by simp
  have "\<exists>d'. bmh_fill patt (length patt) 0 (length patt - 1) (replicate MAXCHAR (length patt)) = Ret d' \<and> length d' = MAXCHAR
      \<and> (\<forall>c. 0 < d' ! unat c \<and> d' ! unat c \<le> length patt \<and> (\<forall>j < length patt - 1. patt ! j = c \<longrightarrow> d' ! unat c \<le> length patt - 1 - j))"
    using assms n by (intro bmh_fill_table) (auto simp: Suc_le_eq)
  then show ?thesis by (auto simp: BMHInit_def)
qed

section \<open>The search\<close>

lemma bmh_cmp_hit:
  assumes "j \<le> length p" "int j \<le> i + 1" "i < int (length buf)"
  shows "bmh_cmp buf p j i = Ret (\<forall>l < j. buf ! nat (i - int j + 1 + int l) = p ! l)"
  using assms
proof (induction j arbitrary: i)
  case (Suc j)
  have a: "rd buf i = Ret (buf ! nat i)" "rd p (int j) = Ret (p ! j)" using Suc.prems by (simp_all add: rd_def)
  have "bmh_cmp buf p j (i - 1) = Ret (\<forall>l < j. buf ! nat (i - int j + int l) = p ! l)"
    using Suc.IH [of "i - 1"] Suc.prems by (simp add: algebra_simps)
  then show ?case using a by (auto simp: less_Suc_eq)
qed simp

lemma bmh_loop_finds:
  fixes p :: "u8 list"
  defines "m \<equiv> length p"
  assumes b: "bmh_m b = m" "bmh_patt b = p" and p: "p \<noteq> []"
    and d: "\<forall>c. 0 < bmh_d b ! unat c \<and> bmh_d b ! unat c \<le> m \<and> (\<forall>j < m - 1. p ! j = c \<longrightarrow> bmh_d b ! unat c \<le> m - 1 - j)"
    and n: "n \<le> length buf"
  shows "m - 1 \<le> k \<Longrightarrow> (\<forall>i < k - (m - 1). \<not> occurs_at p (take n buf) i)
    \<Longrightarrow> bmh_loop b buf (int n) (int k) = Ret (map_option int (first_occ p (take n buf)))"
proof (induction "n - k" arbitrary: k rule: less_induct)
  case less
  let ?t = "take n buf" and ?s = "k - (m - 1)"
  have m: "0 < m" using p by (simp add: m_def)
  show ?case
  proof (cases "k < n")
    case False
    then have "\<not> occurs_at p ?t i" for i
    proof (cases "i < ?s")
      case False
      then have "\<not> i + length p \<le> length ?t" using less.prems(1) n m \<open>\<not> k < n\<close> unfolding m_def by auto
      then show ?thesis unfolding occurs_at_def by blast
    qed (use less.prems(2) in blast)
    then have "first_occ p ?t = None" by (simp add: first_occ_None)
    with False show ?thesis by (simp add: bmh_loop.simps)
  next
    case True
    have cmp: "bmh_cmp buf p m (int k) = Ret (occurs_at p ?t ?s)"
    proof -
      have i: "nat (int k - int m + 1 + int l) = ?s + l" for l using less.prems(1) m by linarith
      have "bmh_cmp buf p m (int k) = Ret (\<forall>l < m. buf ! (?s + l) = p ! l)"
        using bmh_cmp_hit [of m p "int k" buf] less.prems(1) True n m by (simp add: i) (simp add: m_def)
      moreover have "(\<forall>l < m. buf ! (?s + l) = p ! l) \<longleftrightarrow> occurs_at p ?t ?s"
        using less.prems(1) True n m by (auto simp: occurs_at_def m_def)
      ultimately show ?thesis by simp
    qed
    show ?thesis
    proof (cases "occurs_at p ?t ?s")
      case hit: True
      then have "first_occ p ?t = Some ?s" using less.prems(2) by (simp add: first_occ_Some)
      with True hit cmp b show ?thesis using less.prems(1) m by (simp add: bmh_loop.simps of_nat_diff)
    next
      case miss: False
      let ?c = "buf ! k" let ?d = "bmh_d b ! unat ?c"
      have d0: "0 < ?d" "?d \<le> m" "\<And>j. j < m - 1 \<Longrightarrow> p ! j = ?c \<Longrightarrow> ?d \<le> m - 1 - j" using d by blast+
      have "\<not> occurs_at p ?t i" if i: "i < k + ?d - (m - 1)" for i
      proof (cases "i \<le> ?s")
        case True
        then show ?thesis using less.prems(2) miss by (cases "i = ?s") auto
      next
        case False
        text \<open>The pattern would cover position \<open>k\<close> with a character that the table excludes.\<close>
        have j: "k - i < m - 1" "i + (k - i) = k" using False i d0(2) less.prems(1) by linarith+
        have "\<not> ?d \<le> m - 1 - (k - i)" using i False less.prems(1) d0(2) by linarith
        then have "p ! (k - i) \<noteq> ?c" using d0(3) [OF j(1)] by blast
        moreover have "?t ! (i + (k - i)) = ?c" "k - i < length p" using j \<open>k < n\<close> by (simp_all add: m_def)
        ultimately show ?thesis unfolding occurs_at_def by metis
      qed
      then have "bmh_loop b buf (int n) (int (k + ?d)) = Ret (map_option int (first_occ p ?t))"
        using less.hyps [of "k + ?d"] True d0(1) less.prems(1) by simp
      moreover have "rd buf (int k) = Ret ?c" using True n by (simp add: rd_def)
      ultimately show ?thesis using True cmp miss b d0(1) by (subst bmh_loop.simps) (simp add: Let_def)
    qed
  qed
qed

text \<open>
  C32: The search of \<open>bmh.c\<close> is correct: for a non-empty pattern the table is built without reading
  outside the pattern, and the search over the first \<open>n\<close> bytes of a buffer ends, reads nothing
  outside them, and returns the first occurrence of the pattern there, or null when there is none
  (also for a negative length).
\<close>

theorem BMHChr_first_occurrence:
  assumes "patt \<noteq> []" "n \<le> int (length buf)"
  shows "run_bind (BMHInit patt (length patt)) (\<lambda>b. BMHChr b buf n) = Ret (map_option int (first_occ patt (take (nat n) buf)))"
proof -
  obtain d where d: "BMHInit patt (length patt) = Ret \<lparr>bmh_m = length patt, bmh_patt = patt, bmh_d = d\<rparr>"
    "\<forall>c. 0 < d ! unat c \<and> d ! unat c \<le> length patt \<and> (\<forall>j < length patt - 1. patt ! j = c \<longrightarrow> d ! unat c \<le> length patt - 1 - j)"
    using BMHInit_table [OF assms(1)] by blast
  let ?b = "\<lparr>bmh_m = length patt, bmh_patt = patt, bmh_d = d\<rparr>"
  have "BMHChr ?b buf n = Ret (map_option int (first_occ patt (take (nat n) buf)))"
  proof (cases "int (length patt) > n")
    case True
    then have "\<not> length patt \<le> nat n" using assms(1) by (cases patt) auto
    then have "first_occ patt (take (nat n) buf) = None" unfolding first_occ_None occurs_at_def by auto
    with True show ?thesis by (simp add: BMHChr_def)
  next
    case False
    have "0 < length patt" using assms(1) by simp
    have "bmh_loop ?b buf (int (nat n)) (int (length patt - 1)) = Ret (map_option int (first_occ patt (take (nat n) buf)))"
      using assms d(2) by (intro bmh_loop_finds) auto
    then show ?thesis using False \<open>0 < length patt\<close> by (simp add: BMHChr_def of_nat_diff)
  qed
  with d(1) show ?thesis by simp
qed

theorem BMHChr_first_occurrence_witness:
  "run_bind (BMHInit [98, 97] (length [98, 97 :: u8])) (\<lambda>b. BMHChr b [97, 97, 98, 97, 98, 97] 6)
     = Ret (map_option int (first_occ [98, 97 :: u8] (take (nat 6) [97, 97, 98, 97, 98, 97])))
   \<and> first_occ [98, 97 :: u8] (take (nat 6) [97, 97, 98, 97, 98, 97]) = Some 2"
  by (rule conjI, rule BMHChr_first_occurrence) simp_all

end
