(* ===== verification/Nproto_Match.thy ===== *)
theory Nproto_Match
  imports Nproto_Bmh Flow_Flags
begin

text \<open>
  Matching one packet against one rule of the protocol identification: the rule structures of
  \<open>drivers/nproto/src/rules.h\<close>, the matching functions of \<open>rules.c\<close>, and the parser of HTTP headers in
  \<open>rules/http.c\<close>. The regular expressions (pcre2) and the multi-pattern search (mwm) are parameters.
\<close>

section \<open>Rules\<close>

definition MAX_REF_IDs :: nat where "MAX_REF_IDs = 8"
definition MAX_L4_ADDRS :: nat where "MAX_L4_ADDRS = 8"
definition MAX_L4_PORTS :: nat where "MAX_L4_PORTS = 31"
definition MAX_L7_LEN_LIST :: nat where "MAX_L7_LEN_LIST = 15"
definition MAX_L7_LEN_RANGE :: nat where "MAX_L7_LEN_RANGE = 16"
definition MAX_CT_MATCH_NUM :: nat where "MAX_CT_MATCH_NUM = 16"
definition NP_RULE_PRI_MIN :: nat where "NP_RULE_PRI_MIN = 0"
definition NP_RULE_PRI_MAX :: nat where "NP_RULE_PRI_MAX = 65535"
definition NP_RULES_COUNT_MAX :: nat where "NP_RULES_COUNT_MAX = 4096"

text \<open>Arrays of the rule structures are lists of their length; the initialisers leave the rest 0.\<close>

definition pad :: "nat \<Rightarrow> 'a \<Rightarrow> 'a list \<Rightarrow> 'a list" where
  "pad n z xs = xs @ replicate (n - length xs) z"

record l4_match =
  addrs :: "u32 list"
  ports :: "u16 list"
  l4_proto :: u16

datatype match_type = MHTP_OFFSET | MHTP_REGEXP | MHTP_SEARCH | MHTP_MAX

datatype lnm_type = NP_LNM_NONE | NP_LNM_LIST | NP_LNM_MATCH | NP_LNM_RANGE | NP_LNM_MAX

record len_match =
  ln_type :: lnm_type
  ln_offset :: int
  ln_fixed :: int
  ln_width :: nat
  ln_list :: "u16 list"
  ln_range :: "(u16 \<times> u16) list"

text \<open>\<open>mt_rex\<close>: the expression was compiled. \<open>mt_patt\<close> is the text in the array of 256 bytes.\<close>

record match_t =
  mt_type :: match_type
  mt_offset :: int
  mt_deep :: nat
  mt_length :: nat
  mt_patt :: "u8 list"
  mt_rex :: bool
  mt_bmh :: "bmh option"

record content_match =
  spec_len :: nat
  cm_wrap :: match_t
  cm_match :: match_t

datatype relation = NP_CTM_OR | NP_CTM_AND

record l7_match =
  l7_dir :: nat
  lnm :: len_match
  ctm_relation :: relation
  ctm :: "content_match list"

record httpm =
  hm_hdr :: nat
  hm_match :: match_t

record http_match =
  htp_relation :: relation
  htpm :: "httpm list"

datatype callback = NoCallback | OnHttpHdr

record rule_set =
  rs_mwm :: "(match_t \<times> nat) list option"
  rs_mwm_host :: "(match_t \<times> nat) list option"
  rs_capacity :: nat
  rs_rules :: "nat list"

record np_rule =
  name_rule :: string
  name_app :: string
  r_crc :: u32
  priority :: u16
  r_ID :: nat
  ID_REFs :: "nat list"
  is_base :: bool
  is_fin :: bool
  refs_flow :: bool
  refs_packet :: bool
  enable_l4 :: bool
  enable_l7 :: bool
  enable_http :: bool
  r_l4 :: l4_match
  r_l7 :: l7_match
  r_http :: http_match
  ref_set :: "rule_set option"
  proto_init :: callback
  proto_cb :: callback

section \<open>Packets\<close>

definition NP_FLOW_DIR_ANY :: nat where "NP_FLOW_DIR_ANY = 0"
definition NP_FLOW_DIR_C2S :: nat where "NP_FLOW_DIR_C2S = 1"
definition NP_FLOW_DIR_S2C :: nat where "NP_FLOW_DIR_S2C = 2"
definition IPPROTO_TCP :: nat where "IPPROTO_TCP = 6"
definition IPPROTO_UDP :: nat where "IPPROTO_UDP = 17"

text \<open>
  What lies from the payload on: \<open>pmem\<close> is the readable memory, the payload first; \<open>l7_ptr\<close> is an offset
  in it (the HTTP parser moves it) and \<open>l7_len\<close> is an \<open>int16_t\<close>. The ports are 0 for protocols without.
\<close>

record np_packet =
  pmem :: "u8 list"
  l7_ptr :: int
  l7_len :: int
  pk_proto :: nat
  pk_dir :: nat
  pk_saddr :: u32
  pk_daddr :: u32
  pk_sport :: u16
  pk_dport :: u16
  du_type :: nat
  headers_range :: "nat \<Rightarrow> int \<times> int"

definition NP_DUT_HTTP_REQ :: nat where "NP_DUT_HTTP_REQ = 0"
definition NP_DUT_HTTP_REP :: nat where "NP_DUT_HTTP_REP = 1"
definition NP_HTTP_END :: nat where "NP_HTTP_END = 0"
definition NP_HTTP_URL :: nat where "NP_HTTP_URL = 1"
definition NP_HTTP_Host :: nat where "NP_HTTP_Host = 2"
definition NP_HTTP_User_Agent :: nat where "NP_HTTP_User_Agent = 6"
definition NP_HTTP_MAX :: nat where "NP_HTTP_MAX = 17"

definition s16 :: "int \<Rightarrow> int" where
  "s16 i = sint (word_of_int i :: u16)"

text \<open>
  The libraries: \<open>pcre_find patt text\<close> is the offset of the match or a negative number, \<open>mwm_headers\<close> the
  header names found in a text, each with the offset behind it, in the order the search reports
  them, and \<open>mwm_calls patts text\<close> the rules that the search reports.
\<close>

record np_env =
  pcre_create_ok :: "u8 list \<Rightarrow> bool"
  pcre_find :: "u8 list \<Rightarrow> u8 list \<Rightarrow> int"
  mwm_headers :: "u8 list \<Rightarrow> (nat \<times> int) list"
  mwm_calls :: "(match_t \<times> nat) list \<Rightarrow> u8 list \<Rightarrow> nat list"
  mwm_new_ok :: bool
  mwm_add_ok :: "match_t \<Rightarrow> bool"
  mwm_prep_ok :: "(match_t \<times> nat) list \<Rightarrow> bool"
  http_prep_ok :: bool
  kmalloc_ok :: bool
  vmalloc_ok :: "nat \<Rightarrow> bool"
  crc32 :: "string \<Rightarrow> u32"

section \<open>Layer 4\<close>

text \<open>The loops over the ports and addresses stop at a 0; a full array has none.\<close>

fun list_scan :: "('a \<Rightarrow> bool) \<Rightarrow> ('a :: zero) list \<Rightarrow> bool run" where
  "list_scan P [] = Fault Undefined"
| "list_scan P (x # xs) = (if x = 0 then Ret False else if P x then Ret True else list_scan P xs)"

definition l4_matches :: "l4_match \<Rightarrow> np_packet \<Rightarrow> bool run" where
  "l4_matches l4 npt =
     (if l4_proto l4 \<noteq> 0 \<and> unat (l4_proto l4) \<noteq> pk_proto npt then Ret False
      else
        run_bind (if hd (ports l4) \<noteq> 0 then list_scan (\<lambda>p. pk_sport npt = p \<or> pk_dport npt = p) (ports l4) else Ret True) (\<lambda>pm.
          if \<not> pm then Ret False
          else if hd (addrs l4) \<noteq> 0 then list_scan (\<lambda>a. pk_saddr npt = a \<or> pk_daddr npt = a) (addrs l4)
          else Ret True))"

section \<open>Lengths\<close>

fun list_lens :: "u16 list \<Rightarrow> int \<Rightarrow> bool run" where
  "list_lens [] n = Fault Undefined"
| "list_lens (x # xs) n = (if x = 0 then Ret False else if uint x = n then Ret True else list_lens xs n)"

fun range_lens :: "(u16 \<times> u16) list \<Rightarrow> int \<Rightarrow> bool run" where
  "range_lens [] n = Fault Undefined"
| "range_lens ((a, b) # xs) n =
     (if a = 0 \<or> b = 0 then Ret False else if n \<ge> uint a \<and> n \<le> uint b then Ret True else range_lens xs n)"

text \<open>Little-endian reads, and the comparisons in the types C gives them.\<close>

definition rd_le :: "u8 list \<Rightarrow> int \<Rightarrow> nat \<Rightarrow> int run" where
  "rd_le buf i w =
     (if 0 \<le> i \<and> i + int w \<le> int (length buf)
      then Ret (\<Sum>j\<leftarrow>[0..<w]. uint (buf ! (nat i + j)) * 256 ^ j) else Fault Undefined)"

definition bswap :: "nat \<Rightarrow> int \<Rightarrow> int" where
  "bswap w n = (\<Sum>j\<leftarrow>[0..<w]. n div 256 ^ j mod 256 * 256 ^ (w - 1 - j))"

definition eq_u32 :: "int \<Rightarrow> int \<Rightarrow> bool" where
  "eq_u32 a b \<longleftrightarrow> (word_of_int a :: u32) = word_of_int b"

definition len_info_match :: "len_match \<Rightarrow> np_packet \<Rightarrow> bool run" where
  "len_info_match ln npt =
     (let n = l7_len npt; at = l7_ptr npt + ln_offset ln
      in case ln_type ln of
        NP_LNM_LIST \<Rightarrow> list_lens (ln_list ln) n
      | NP_LNM_RANGE \<Rightarrow> range_lens (ln_range ln) n
      | NP_LNM_MATCH \<Rightarrow>
          if ln_width ln = 1 then run_bind (rd_le (pmem npt) at 1) (\<lambda>v. Ret (eq_u32 (v + ln_fixed ln) n))
          else if ln_width ln = 2 then
            run_bind (rd_le (pmem npt) at 2) (\<lambda>v. Ret (bswap 2 v + ln_fixed ln = n \<or> eq_u32 (v + ln_fixed ln) n))
          else if ln_width ln = 4 then
            run_bind (rd_le (pmem npt) at 4) (\<lambda>v. Ret (eq_u32 (bswap 4 v + ln_fixed ln) n \<or> eq_u32 (v + ln_fixed ln) n))
          else Ret False
      | _ \<Rightarrow> Ret False)"

section \<open>Contents\<close>

text \<open>\<open>data\<close> is an offset in the memory of the packet, like the result.\<close>

definition ctm_do :: "np_env \<Rightarrow> match_t \<Rightarrow> u8 list \<Rightarrow> int \<Rightarrow> int \<Rightarrow> int option run" where
  "ctm_do env m buf data dlen =
     (let offset = (if mt_offset m < 0 then mt_offset m + dlen else mt_offset m);
          rest = dlen - offset;
          mlen = (if mt_deep m \<noteq> 0 \<and> rest > int (mt_deep m) then int (mt_deep m) else rest);
          at = data + offset
      in if mt_offset m < 0 \<and> offset \<le> 0 then Ret None
         else
           (case mt_type m of
              MHTP_OFFSET \<Rightarrow>
                if mlen < int (mt_length m) then Ret None
                else if 0 \<le> at \<and> at + int (mt_length m) \<le> int (length buf)
                then Ret (if take (mt_length m) (drop (nat at) buf) = take (mt_length m) (mt_patt m) then Some at else None)
                else Fault Undefined
            | MHTP_REGEXP \<Rightarrow>
                if \<not> mt_rex m then Ret None
                else
                  (let n = mlen mod 2 ^ 32
                   in if 0 \<le> at \<and> at + n \<le> int (length buf)
                      then (let r = pcre_find env (mt_patt m) (take (nat n) (drop (nat at) buf))
                            in Ret (if 0 \<le> r then Some (at + r) else None))
                      else Fault Undefined)
            | MHTP_SEARCH \<Rightarrow>
                (case mt_bmh m of
                   None \<Rightarrow> Ret None
                 | Some b \<Rightarrow>
                     run_bind (BMHChr b (drop (nat at) buf) mlen) (\<lambda>r. Ret (map_option (\<lambda>i. at + i) r)))
            | MHTP_MAX \<Rightarrow> Ret None))"

text \<open>
  The wrapper is applied with the test the wrong way round: when it is not found, the null pointer
  is taken as the data.
\<close>

definition cont_match :: "np_env \<Rightarrow> content_match \<Rightarrow> np_packet \<Rightarrow> bool run" where
  "cont_match env c npt =
     (if spec_len c \<noteq> 0 \<and> int (spec_len c) \<noteq> l7_len npt then Ret False
      else
        run_bind
          (if mt_type (cm_wrap c) = MHTP_REGEXP \<or> mt_type (cm_wrap c) = MHTP_SEARCH
           then run_bind (ctm_do env (cm_wrap c) (pmem npt) (l7_ptr npt) (l7_len npt)) (\<lambda>mc. if mc = None then Fault Undefined else Ret ())
           else Ret ()) (\<lambda>_.
        run_bind (ctm_do env (cm_match c) (pmem npt) (l7_ptr npt) (l7_len npt)) (\<lambda>mc. Ret (mc \<noteq> None))))"

fun cont_loop :: "np_env \<Rightarrow> relation \<Rightarrow> np_packet \<Rightarrow> bool \<Rightarrow> content_match list \<Rightarrow> bool run" where
  "cont_loop env rel npt m [] = Ret (m \<and> rel = NP_CTM_AND)"
| "cont_loop env rel npt m (c # cs) =
     run_bind (cont_match env c npt) (\<lambda>m.
       if m \<and> rel = NP_CTM_OR then Ret True
       else if \<not> m \<and> rel = NP_CTM_AND then Ret False
       else cont_loop env rel npt m cs)"

definition l7_matches :: "np_env \<Rightarrow> l7_match \<Rightarrow> np_packet \<Rightarrow> bool run" where
  "l7_matches env l7 npt =
     (if l7_len npt = 0 then Ret False
      else if l7_dir l7 \<noteq> 0 \<and> pk_dir npt \<noteq> l7_dir l7 then Ret False
      else
        run_bind (if ln_type (lnm l7) \<noteq> NP_LNM_NONE then len_info_match (lnm l7) npt else Ret True) (\<lambda>lm.
          if \<not> lm then Ret False
          else if ctm l7 = [] then Ret True
          else cont_loop env (ctm_relation l7) npt False (ctm l7)))"

section \<open>HTTP\<close>

definition np_http_hdr :: "np_packet \<Rightarrow> nat \<Rightarrow> (int \<times> int) option" where
  "np_http_hdr npt em_hdr =
     (if em_hdr = 0 \<or> em_hdr \<ge> NP_HTTP_MAX then None
      else
        (let (offset, end) = headers_range npt em_hdr
         in if end - offset \<le> 0 then None else Some (l7_ptr npt + offset, end - offset)))"

datatype http_result = NP_CONTINUE | NP_FALSE | NP_TRUE

definition http_do_match :: "np_env \<Rightarrow> httpm \<Rightarrow> np_packet \<Rightarrow> http_result run" where
  "http_do_match env h npt =
     (let go = (\<lambda>(d, n). run_bind (ctm_do env (hm_match h) (pmem npt) d n) (\<lambda>mc. Ret (if mc \<noteq> None then NP_TRUE else NP_FALSE)))
      in if du_type npt = NP_DUT_HTTP_REQ \<or> du_type npt = NP_DUT_HTTP_REP then
           (if hm_hdr h \<noteq> NP_HTTP_END
            then (case np_http_hdr npt (hm_hdr h) of None \<Rightarrow> Ret NP_FALSE | Some md \<Rightarrow> go md)
            else go (l7_ptr npt, l7_len npt))
         else if hm_hdr h \<noteq> NP_HTTP_END then Ret NP_CONTINUE
         else go (l7_ptr npt, l7_len npt))"

fun http_loop :: "np_env \<Rightarrow> relation \<Rightarrow> np_packet \<Rightarrow> http_result \<Rightarrow> httpm list \<Rightarrow> http_result run" where
  "http_loop env rel npt m [] = Ret m"
| "http_loop env rel npt m (h # hs) =
     (if mt_length (hm_match h) = 0 then Ret m
      else
        run_bind (http_do_match env h npt) (\<lambda>m.
          if m = NP_TRUE \<and> rel = NP_CTM_OR then Ret NP_TRUE
          else if m = NP_FALSE \<and> rel \<noteq> NP_CTM_OR then Ret NP_FALSE
          else http_loop env rel npt m hs))"

text \<open>Only \<open>NP_FALSE\<close> is 0: \<open>NP_CONTINUE\<close> counts as a match for the caller.\<close>

definition http_matches :: "np_env \<Rightarrow> http_match \<Rightarrow> np_packet \<Rightarrow> bool run" where
  "http_matches env http npt =
     run_bind (http_loop env (htp_relation http) npt NP_TRUE (htpm http)) (\<lambda>m. Ret (m \<noteq> NP_FALSE))"

subsection \<open>The header parser\<close>

text \<open>The first two blanks of the request line.\<close>

fun url_scan :: "u8 list \<Rightarrow> int \<Rightarrow> nat \<Rightarrow> int \<Rightarrow> (int \<times> int) run" where
  "url_scan buf i 0 start = Ret (start, 0)"
| "url_scan buf i (Suc n) start =
     run_bind (rd buf i) (\<lambda>c.
       if start = 0 \<and> c = 0x20 then url_scan buf (i + 1) n i
       else if c = 0x20 then Ret (start, i)
       else if c = 0x0D \<or> c = 0x0A then Ret (start, 0)
       else url_scan buf (i + 1) n start)"

text \<open>The line end finder \<open>bmhLine\<close>.\<close>

definition bmhLine :: bmh where
  "bmhLine = \<lparr>bmh_m = 2, bmh_patt = [0x0D, 0x0A], bmh_d = (replicate MAXCHAR 2)[13 := 1]\<rparr>"

text \<open>One report of the search: the packet, and whether the search goes on.\<close>

definition mwm_http_match :: "nat \<Rightarrow> int \<Rightarrow> np_packet \<Rightarrow> (np_packet \<times> bool) run" where
  "mwm_http_match idx out npt =
     (if idx = NP_HTTP_END then
        (let end = s16 out; nlen = s16 (l7_len npt - end);
             npt = npt\<lparr>headers_range := (headers_range npt)(idx := (end, end))\<rparr>
         in Ret (if nlen < 0 then npt else npt\<lparr>l7_len := nlen, l7_ptr := l7_ptr npt + end\<rparr>, False))
      else
        (let start = s16 out; lasted = s16 (l7_len npt - start)
         in run_bind (BMHChr bmhLine (drop (nat (l7_ptr npt + out + 1)) (pmem npt)) lasted) (\<lambda>r.
           case r of
             None \<Rightarrow> Ret (npt, True)
           | Some e \<Rightarrow> Ret (npt\<lparr>headers_range := (headers_range npt)(idx := (start, s16 (out + 1 + e)))\<rparr>, True))))"

fun http_reports :: "(nat \<times> int) list \<Rightarrow> np_packet \<Rightarrow> np_packet run" where
  "http_reports [] npt = Ret npt"
| "http_reports ((idx, out) # rs) npt =
     run_bind (mwm_http_match idx out npt) (\<lambda>(npt, go). if go then http_reports rs npt else Ret npt)"

text \<open>
  The text that is searched: the length is the \<open>int16_t\<close> of the packet.
\<close>

definition payload :: "np_packet \<Rightarrow> u8 list" where
  "payload npt = take (nat (l7_len npt)) (drop (nat (l7_ptr npt)) (pmem npt))"

definition on_http_hdr :: "np_env \<Rightarrow> np_packet \<Rightarrow> np_packet run" where
  "on_http_hdr env npt =
     run_bind (url_scan (drop (nat (l7_ptr npt)) (pmem npt)) 0 (nat (l7_len npt)) 0) (\<lambda>(start, end).
       (let npt' = (if start \<noteq> 0 \<and> end \<noteq> 0 then npt\<lparr>headers_range := (headers_range npt)(NP_HTTP_URL := (start, end))\<rparr> else npt)
        in run_bind (http_reports (mwm_headers env (payload npt)) npt') (\<lambda>npt. Ret (npt\<lparr>du_type := NP_DUT_HTTP_REQ\<rparr>))))"

section \<open>One rule\<close>

definition run_callback :: "np_env \<Rightarrow> callback \<Rightarrow> np_packet \<Rightarrow> np_packet run" where
  "run_callback env cb npt = (case cb of NoCallback \<Rightarrow> Ret npt | OnHttpHdr \<Rightarrow> on_http_hdr env npt)"

text \<open>The result of \<open>rule_matched_cb\<close> is always true.\<close>

definition rule_hits :: "np_env \<Rightarrow> np_rule \<Rightarrow> np_packet \<Rightarrow> bool run" where
  "rule_hits env r npt =
     run_bind (if enable_l4 r then l4_matches (r_l4 r) npt else Ret True) (\<lambda>a.
       if \<not> a then Ret False
       else
         run_bind (if enable_l7 r then l7_matches env (r_l7 r) npt else Ret True) (\<lambda>b.
           if \<not> b then Ret False
           else if enable_http r then http_matches env (r_http r) npt else Ret True))"

definition rule_one_match :: "np_env \<Rightarrow> np_rule \<Rightarrow> np_packet \<Rightarrow> (np_packet \<times> bool) run" where
  "rule_one_match env r npt =
     run_bind (rule_hits env r npt) (\<lambda>m.
       if m then run_bind (run_callback env (proto_cb r) npt) (\<lambda>npt. Ret (npt, True)) else Ret (npt, False))"

end
