(* ===== verification/Nproto_Rules.thy ===== *)
theory Nproto_Rules
  imports Nproto_Match
begin

text \<open>
  The rule sets of the protocol identification (\<open>drivers/nproto/src/rules.c\<close>): compiling and
  registering rules, building the sets, and identifying a flow by them. A pointer to a rule is its
  index in \<open>RULES_ALL.array\<close>.
\<close>

section \<open>Compiling a rule\<close>

definition zero_match :: match_t where
  "zero_match = \<lparr>mt_type = MHTP_OFFSET, mt_offset = 0, mt_deep = 0, mt_length = 0, mt_patt = [], mt_rex = False, mt_bmh = None\<rparr>"

datatype init_result = InitOk | InitEmpty | InitNoMem

definition ctm_init :: "np_env \<Rightarrow> match_t \<Rightarrow> (match_t \<times> init_result) run" where
  "ctm_init env m =
     (let m = (if mt_length m = 0 then m\<lparr>mt_length := length (takeWhile (\<lambda>c. c \<noteq> 0) (mt_patt m))\<rparr> else m)
      in if mt_length m = 0 then Ret (zero_match, InitEmpty)
         else
           (case mt_type m of
              MHTP_REGEXP \<Rightarrow>
                Ret (if mt_rex m then (m, InitOk)
                     else if pcre_create_ok env (mt_patt m) then (m\<lparr>mt_rex := True\<rparr>, InitOk) else (m, InitNoMem))
            | MHTP_SEARCH \<Rightarrow>
                if mt_bmh m \<noteq> None then Ret (m, InitOk)
                else if \<not> kmalloc_ok env then Ret (m, InitNoMem)
                else run_bind (BMHInit (mt_patt m) (mt_length m)) (\<lambda>b. Ret (m\<lparr>mt_bmh := Some b\<rparr>, InitOk))
            | _ \<Rightarrow> Ret (m, InitOk)))"

definition ctm_destroy :: "match_t \<Rightarrow> match_t" where
  "ctm_destroy m = (if mt_length m = 0 then m else m\<lparr>mt_rex := False, mt_bmh := None\<rparr>)"

fun compile_contents :: "np_env \<Rightarrow> content_match list \<Rightarrow> content_match list run" where
  "compile_contents env [] = Ret []"
| "compile_contents env (c # cs) =
     run_bind (ctm_init env (cm_wrap c)) (\<lambda>(w, _).
     run_bind (ctm_init env (cm_match c)) (\<lambda>(m, _).
     run_bind (compile_contents env cs) (\<lambda>cs. Ret (c\<lparr>cm_wrap := w, cm_match := m\<rparr> # cs))))"

fun compile_http :: "np_env \<Rightarrow> httpm list \<Rightarrow> httpm list run" where
  "compile_http env [] = Ret []"
| "compile_http env (h # hs) =
     run_bind (ctm_init env (hm_match h)) (\<lambda>(m, r).
       if r = InitEmpty then Ret (h\<lparr>hm_match := m\<rparr> # hs)
       else run_bind (compile_http env hs) (\<lambda>hs. Ret (h\<lparr>hm_match := m\<rparr> # hs)))"

definition http_init :: "np_env \<Rightarrow> bool" where
  "http_init env \<longleftrightarrow> kmalloc_ok env \<and> mwm_new_ok env \<and> http_prep_ok env"

definition rule_compile :: "np_env \<Rightarrow> np_rule \<Rightarrow> np_rule option run" where
  "rule_compile env r =
     (if proto_init r = OnHttpHdr \<and> \<not> http_init env then Ret None
      else
        run_bind (if enable_l7 r then compile_contents env (ctm (r_l7 r)) else Ret (ctm (r_l7 r))) (\<lambda>cs.
        run_bind (if enable_http r then compile_http env (htpm (r_http r)) else Ret (htpm (r_http r))) (\<lambda>hs.
          Ret (Some (r\<lparr>r_l7 := (r_l7 r)\<lparr>ctm := cs\<rparr>, r_http := (r_http r)\<lparr>htpm := hs\<rparr>, r_crc := crc32 env (name_app r)\<rparr>)))))"

section \<open>Sets\<close>

definition NP_SET_GROW_COUNT :: nat where "NP_SET_GROW_COUNT = 64"

definition set_alloc :: rule_set where
  "set_alloc = \<lparr>rs_mwm = None, rs_mwm_host = None, rs_capacity = 0, rs_rules = []\<rparr>"

text \<open>The binary search for the insert position, over the priorities of the set.\<close>

function insert_pos :: "nat list \<Rightarrow> nat \<Rightarrow> int \<Rightarrow> int \<Rightarrow> int" where
  "insert_pos ps p lo hi =
     (if lo \<le> hi then
        (let mid = (lo + hi) div 2
         in if ps ! nat mid = p then mid
            else if ps ! nat mid < p then insert_pos ps p lo (mid - 1)
            else insert_pos ps p (mid + 1) hi)
      else hi)"
  by pat_completeness auto
termination by (relation "measure (\<lambda>(ps, p, lo, hi). nat (hi - lo + 1))") auto

declare insert_pos.simps [simp del]

definition insert_at :: "nat \<Rightarrow> 'a \<Rightarrow> 'a list \<Rightarrow> 'a list" where
  "insert_at n x xs = take n xs @ x # drop n xs"

definition set_add_rule_normal_sorted :: "(nat \<Rightarrow> nat) \<Rightarrow> nat \<Rightarrow> rule_set \<Rightarrow> rule_set" where
  "set_add_rule_normal_sorted prio i s =
     (if prio i = NP_RULE_PRI_MIN then s\<lparr>rs_rules := rs_rules s @ [i]\<rparr>
      else if prio i = NP_RULE_PRI_MAX then s\<lparr>rs_rules := i # rs_rules s\<rparr>
      else
        (let hi = insert_pos (map prio (rs_rules s)) (prio i) 0 (int (length (rs_rules s)) - 1)
         in s\<lparr>rs_rules := insert_at (nat (hi + 1)) i (rs_rules s)\<rparr>))"

text \<open>The results are the number of rules, or -ENOMEM.\<close>

definition ENOMEM_NR :: int where "ENOMEM_NR = 12"

definition set_add_rule_normal :: "np_env \<Rightarrow> (nat \<Rightarrow> nat) \<Rightarrow> nat \<Rightarrow> rule_set \<Rightarrow> rule_set \<times> int" where
  "set_add_rule_normal env prio i s =
     (let grow = length (rs_rules s) \<ge> rs_capacity s; cap = rs_capacity s + NP_SET_GROW_COUNT
      in if grow \<and> \<not> vmalloc_ok env (cap * 4) then (s, - ENOMEM_NR)
         else
           (let s = set_add_rule_normal_sorted prio i (if grow then s\<lparr>rs_capacity := cap\<rparr> else s)
            in (s, int (length (rs_rules s)))))"

text \<open>The matcher for hosts, or the one for contents; a failure falls back to the array.\<close>

definition set_add_rule_mwm :: "np_env \<Rightarrow> (nat \<Rightarrow> nat) \<Rightarrow> bool \<Rightarrow> nat \<Rightarrow> match_t \<Rightarrow> rule_set \<Rightarrow> rule_set \<times> int" where
  "set_add_rule_mwm env prio host i m s =
     (case (if host then rs_mwm_host s else rs_mwm s, mwm_new_ok env) of
        (None, False) \<Rightarrow> set_add_rule_normal env prio i s
      | (p, _) \<Rightarrow>
          (let ps = (case p of None \<Rightarrow> [] | Some ps \<Rightarrow> ps); ps' = (if mwm_add_ok env m then ps @ [(m, i)] else ps);
               s = (if host then s\<lparr>rs_mwm_host := Some ps'\<rparr> else s\<lparr>rs_mwm := Some ps'\<rparr>)
           in if mwm_add_ok env m then (s, 0) else set_add_rule_normal env prio i s))"

text \<open>Which matcher a pattern goes to, if any; and the loop over the patterns of a rule.\<close>

definition searchable :: "match_t \<Rightarrow> bool" where
  "searchable m \<longleftrightarrow> mt_type m = MHTP_SEARCH \<and> mt_length m \<ge> 4"

definition rule_patterns :: "np_rule \<Rightarrow> (bool \<times> match_t) list" where
  "rule_patterns r =
     (if enable_http r
      then map (\<lambda>h. (hm_hdr h = NP_HTTP_Host, hm_match h))
             (filter (\<lambda>h. (hm_hdr h = NP_HTTP_END \<or> hm_hdr h = NP_HTTP_Host) \<and> searchable (hm_match h)) (htpm (r_http r)))
      else map (\<lambda>c. (False, cm_match c)) (filter (\<lambda>c. searchable (cm_match c)) (ctm (r_l7 r))))"

fun add_patterns :: "np_env \<Rightarrow> (nat \<Rightarrow> nat) \<Rightarrow> nat \<Rightarrow> (bool \<times> match_t) list \<Rightarrow> rule_set \<Rightarrow> rule_set" where
  "add_patterns env prio i [] s = s"
| "add_patterns env prio i ((host, m) # ps) s =
     (let (s, n) = set_add_rule_mwm env prio host i m s in if n \<noteq> 0 then s else add_patterns env prio i ps s)"

definition set_add_rule :: "np_env \<Rightarrow> (nat \<Rightarrow> nat) \<Rightarrow> nat \<Rightarrow> np_rule \<Rightarrow> rule_set \<Rightarrow> rule_set \<times> int" where
  "set_add_rule env prio i r s =
     (if \<not> enable_l7 r \<and> \<not> enable_http r then set_add_rule_normal env prio i s
      else if (if enable_http r then htp_relation (r_http r) else ctm_relation (r_l7 r)) \<noteq> NP_CTM_OR
      then set_add_rule_normal env prio i s
      else if rule_patterns r = [] then set_add_rule_normal env prio i s
      else (add_patterns env prio i (rule_patterns r) s, 0))"

section \<open>Registering\<close>

datatype base_set = NP_SET_BASE_UDP | NP_SET_BASE_TCP | NP_SET_BASE_OTHER

definition np_proto_to_set :: "nat \<Rightarrow> base_set" where
  "np_proto_to_set p = (if p = IPPROTO_TCP then NP_SET_BASE_TCP else if p = IPPROTO_UDP then NP_SET_BASE_UDP else NP_SET_BASE_OTHER)"

record np_rules =
  all_rules :: "np_rule list"
  id_to_index :: "nat \<Rightarrow> nat"
  rs_base :: "nat \<Rightarrow> base_set \<Rightarrow> rule_set option"

definition no_rules :: np_rules where
  "no_rules = \<lparr>all_rules = [], id_to_index = (\<lambda>_. 0), rs_base = (\<lambda>_ _. None)\<rparr>"

definition prio_of :: "np_rules \<Rightarrow> nat \<Rightarrow> nat" where
  "prio_of st i = unat (priority (all_rules st ! i))"

definition set_add_base_rule :: "np_env \<Rightarrow> nat \<Rightarrow> base_set \<Rightarrow> nat \<Rightarrow> np_rules \<Rightarrow> np_rules \<times> int" where
  "set_add_base_rule env dir proto i st =
     (if rs_base st dir proto = None \<and> \<not> kmalloc_ok env then (st, - ENOMEM_NR)
      else
        (let (s, n) = set_add_rule env (prio_of st) i (all_rules st ! i) (case rs_base st dir proto of None \<Rightarrow> set_alloc | Some s \<Rightarrow> s)
         in (st\<lparr>rs_base := (rs_base st)(dir := (rs_base st dir)(proto := Some s))\<rparr>, n)))"

definition np_rule_register :: "np_env \<Rightarrow> np_rule \<Rightarrow> np_rules \<Rightarrow> (np_rules \<times> int) run" where
  "np_rule_register env r st =
     run_bind (rule_compile env r) (\<lambda>c.
       case c of
         None \<Rightarrow> Ret (st, - 22)
       | Some r \<Rightarrow>
           if length (all_rules st) \<ge> NP_RULES_COUNT_MAX then Ret (st, - ENOMEM_NR)
           else
             (let i = length (all_rules st); st = st\<lparr>all_rules := all_rules st @ [r]\<rparr>;
                  proto = (if enable_l4 r then np_proto_to_set (unat (l4_proto (r_l4 r)) mod 256) else NP_SET_BASE_OTHER);
                  dir = (if enable_l7 r then l7_dir (r_l7 r) else 0)
              in if \<not> is_base r then Ret (st, 0)
                 else
                   run_bind (assertion (dir < 3)) (\<lambda>_.
                     if dir = NP_FLOW_DIR_ANY then
                       (let (st, n) = set_add_base_rule env NP_FLOW_DIR_C2S proto i st
                        in if n < 0 then Ret (st, n)
                           else (let (st, n) = set_add_base_rule env NP_FLOW_DIR_S2C proto i st in Ret (st, if n < 0 then n else 0)))
                     else (let (st, n) = set_add_base_rule env dir proto i st in Ret (st, if n < 0 then n else 0)))))"

section \<open>Building\<close>

definition build_index :: "np_rule list \<Rightarrow> (nat \<Rightarrow> nat) run" where
  "build_index rs =
     (if \<forall>r \<in> set rs. r_ID r < NP_RULES_COUNT_MAX
      then Ret (fold (\<lambda>i f. if f (r_ID (rs ! i)) \<noteq> 0 then f else f(r_ID (rs ! i) := i)) [0..<length rs] (\<lambda>_. 0))
      else Fault BugOn)"

text \<open>Rule \<open>i\<close> joins the set of every rule with the ID it refers to.\<close>

definition add_ref :: "np_env \<Rightarrow> nat \<Rightarrow> nat \<Rightarrow> nat \<Rightarrow> np_rule list \<Rightarrow> np_rule list" where
  "add_ref env i ref_id j rs =
     (let r2 = rs ! j
      in if r_ID r2 \<noteq> ref_id \<or> (ref_set r2 = None \<and> \<not> kmalloc_ok env) then rs
         else
           (let (s, n) = set_add_rule env (\<lambda>k. unat (priority (rs ! k))) i (rs ! i) (case ref_set r2 of None \<Rightarrow> set_alloc | Some s \<Rightarrow> s)
            in rs[j := r2\<lparr>ref_set := Some s\<rparr>]))"

definition add_refs :: "np_env \<Rightarrow> nat \<Rightarrow> np_rule list \<Rightarrow> np_rule list" where
  "add_refs env i rs =
     (if refs_flow (rs ! i) \<or> refs_packet (rs ! i)
      then fold (\<lambda>ref_id. fold (\<lambda>j. add_ref env i ref_id j) [0..<length rs]) (takeWhile (\<lambda>x. x \<noteq> 0) (ID_REFs (rs ! i))) rs
      else rs)"

definition set_compile :: "np_env \<Rightarrow> rule_set \<Rightarrow> rule_set" where
  "set_compile env s =
     s\<lparr>rs_mwm := (case rs_mwm s of Some ps \<Rightarrow> if mwm_prep_ok env ps then Some ps else None | None \<Rightarrow> None),
       rs_mwm_host := (case rs_mwm_host s of Some ps \<Rightarrow> if mwm_prep_ok env ps then Some ps else None | None \<Rightarrow> None)\<rparr>"

definition rules_build :: "np_env \<Rightarrow> np_rules \<Rightarrow> np_rules run" where
  "rules_build env st =
     run_bind (build_index (all_rules st)) (\<lambda>ix.
       (let rs = fold (add_refs env) [0..<length (all_rules st)] (all_rules st)
        in Ret (st\<lparr>id_to_index := ix, all_rules := map (\<lambda>r. r\<lparr>ref_set := map_option (set_compile env) (ref_set r)\<rparr>) rs,
                 rs_base := (\<lambda>d p. map_option (set_compile env) (rs_base st d p))\<rparr>)))"

fun register_all :: "np_env \<Rightarrow> np_rule list \<Rightarrow> np_rules \<Rightarrow> np_rules run" where
  "register_all env [] st = Ret st"
| "register_all env (r # rs) st = run_bind (np_rule_register env r st) (\<lambda>(st, _). register_all env rs st)"

section \<open>Identifying\<close>

fun normal_match :: "np_env \<Rightarrow> np_rule list \<Rightarrow> nat list \<Rightarrow> np_packet \<Rightarrow> (np_packet \<times> nat option) run" where
  "normal_match env rules [] npt = Ret (npt, None)"
| "normal_match env rules (i # is') npt =
     run_bind (rule_one_match env (rules ! i) npt) (\<lambda>(npt, m). if m then Ret (npt, Some i) else normal_match env rules is' npt)"

text \<open>
  The reports of the multi-pattern search. \<open>mwmOnMatch\<close> stores the rule in its own parameter, so
  nothing comes back but the effects of the callbacks on the packet. With fewer than five patterns the
  search is a loop over them that stops at the first rule that matches (\<open>mwmSearch\<close>); otherwise a match
  lets it go on.
\<close>

fun mwm_match :: "np_env \<Rightarrow> np_rule list \<Rightarrow> bool \<Rightarrow> nat list \<Rightarrow> np_packet \<Rightarrow> np_packet run" where
  "mwm_match env rules stop [] npt = Ret npt"
| "mwm_match env rules stop (i # is') npt =
     run_bind (rule_one_match env (rules ! i) npt) (\<lambda>(npt, m). if m \<and> stop then Ret npt else mwm_match env rules stop is' npt)"

definition mwm_search :: "np_env \<Rightarrow> np_rule list \<Rightarrow> (match_t \<times> nat) list \<Rightarrow> u8 list \<Rightarrow> np_packet \<Rightarrow> np_packet run" where
  "mwm_search env rules ps t npt = mwm_match env rules (length ps < 5) (mwm_calls env ps t) npt"

definition text_at :: "np_packet \<Rightarrow> int \<Rightarrow> int \<Rightarrow> u8 list run" where
  "text_at npt d n =
     (if n \<le> 0 then Ret [] else if 0 \<le> d \<and> d + n \<le> int (length (pmem npt)) then Ret (take (nat n) (drop (nat d) (pmem npt))) else Fault Undefined)"

text \<open>
  The text of the second search is the host when the first one ran, and the null pointer when there
  is no host.
\<close>

definition rules_set_match :: "np_env \<Rightarrow> np_rule list \<Rightarrow> rule_set \<Rightarrow> np_packet \<Rightarrow> (np_packet \<times> nat option) run" where
  "rules_set_match env rules s npt =
     (let mdlen = l7_len npt; mdata = l7_ptr npt
      in run_bind (normal_match env rules (rs_rules s) npt) (\<lambda>(npt, m).
           if m \<noteq> None then Ret (npt, m)
           else
             run_bind
               (case rs_mwm_host s of
                  None \<Rightarrow> Ret (npt, Some (mdata, mdlen))
                | Some ps \<Rightarrow>
                    (case np_http_hdr npt NP_HTTP_Host of
                       None \<Rightarrow> Ret (npt, None)
                     | Some (d, n) \<Rightarrow>
                         run_bind (text_at npt d n) (\<lambda>t. run_bind (mwm_search env rules ps t npt) (\<lambda>npt. Ret (npt, Some (d, n)))))) (\<lambda>(npt, md).
             case rs_mwm s of
               None \<Rightarrow> Ret (npt, None)
             | Some ps \<Rightarrow>
                 (case md of
                    None \<Rightarrow> Fault Undefined
                  | Some (d, n) \<Rightarrow>
                      run_bind (text_at npt d n) (\<lambda>t. run_bind (mwm_search env rules ps t npt) (\<lambda>npt. Ret (npt, None)))))))"

definition get_rule_by_id :: "np_rules \<Rightarrow> nat \<Rightarrow> nat option run" where
  "get_rule_by_id st id' =
     run_bind (assertion (id' < NP_RULES_COUNT_MAX)) (\<lambda>_.
       Ret (if id_to_index st id' < length (all_rules st) then Some (id_to_index st id') else None))"

definition ref_match :: "np_env \<Rightarrow> np_rules \<Rightarrow> nat option \<Rightarrow> np_packet \<Rightarrow> (np_packet \<times> nat option) run" where
  "ref_match env st r npt =
     (case r of
        None \<Rightarrow> Ret (npt, None)
      | Some i \<Rightarrow> (case ref_set (all_rules st ! i) of None \<Rightarrow> Ret (npt, None) | Some s \<Rightarrow> rules_set_match env (all_rules st) s npt))"

text \<open>The rule to be reported for a packet of a flow identified as \<open>proto\<close> so far.\<close>

definition identify :: "np_env \<Rightarrow> np_rules \<Rightarrow> nat \<Rightarrow> np_packet \<Rightarrow> (np_packet \<times> nat option) run" where
  "identify env st proto npt =
     (case rs_base st (pk_dir npt) (np_proto_to_set (pk_proto npt)) of
        None \<Rightarrow> Fault BugOn
      | Some base_set \<Rightarrow>
          if proto = 0 then
            run_bind (rules_set_match env (all_rules st) base_set npt) (\<lambda>(npt, b).
            run_bind (ref_match env st b npt) (\<lambda>(npt, r). Ret (npt, if r = None then b else r)))
          else run_bind (get_rule_by_id st proto) (\<lambda>b. ref_match env st b npt))"

end
