(* ===== verification/Nproto_Builtin.thy ===== *)
theory Nproto_Builtin
  imports Nproto_Rules
begin

text \<open>
  The built-in rules (\<open>drivers/nproto/src/rules/*.c\<close>), registered by \<open>inner_rules_init\<close>
  (\<open>rules-inner.c\<close>). Fields that an initialiser leaves out are 0.
\<close>

section \<open>Initialisers\<close>

definition no_l4 :: l4_match where
  "no_l4 = \<lparr>addrs = pad MAX_L4_ADDRS 0 [], ports = pad MAX_L4_PORTS 0 [], l4_proto = 0\<rparr>"

definition no_len :: len_match where
  "no_len = \<lparr>ln_type = NP_LNM_NONE, ln_offset = 0, ln_fixed = 0, ln_width = 0, ln_list = pad MAX_L7_LEN_LIST 0 [],
     ln_range = pad MAX_L7_LEN_RANGE (0, 0) []\<rparr>"

definition no_l7 :: l7_match where
  "no_l7 = \<lparr>l7_dir = 0, lnm = no_len, ctm_relation = NP_CTM_OR, ctm = []\<rparr>"

definition no_htpm :: httpm where "no_htpm = \<lparr>hm_hdr = 0, hm_match = zero_match\<rparr>"

definition no_http :: http_match where
  "no_http = \<lparr>htp_relation = NP_CTM_OR, htpm = pad MAX_CT_MATCH_NUM no_htpm []\<rparr>"

definition no_rule :: np_rule where
  "no_rule = \<lparr>name_rule = '''', name_app = '''', r_crc = 0, priority = 65535, r_ID = 0, ID_REFs = pad MAX_REF_IDs 0 [],
     is_base = False, is_fin = False, refs_flow = False, refs_packet = False, enable_l4 = False, enable_l7 = False, enable_http = False,
     r_l4 = no_l4, r_l7 = no_l7, r_http = no_http, ref_set = None, proto_init = NoCallback, proto_cb = NoCallback\<rparr>"

definition bytes_of :: "string \<Rightarrow> u8 list" where "bytes_of s = map of_char s"

definition rex :: "int \<Rightarrow> nat \<Rightarrow> string \<Rightarrow> content_match" where
  "rex off deep s = \<lparr>spec_len = 0, cm_wrap = zero_match,
     cm_match = zero_match\<lparr>mt_type := MHTP_REGEXP, mt_offset := off, mt_deep := deep, mt_patt := bytes_of s\<rparr>\<rparr>"

definition on_ports :: "u16 \<Rightarrow> u16 list \<Rightarrow> l4_match" where
  "on_ports proto ps = no_l4\<lparr>l4_proto := proto, ports := pad MAX_L4_PORTS 0 ps\<rparr>"

text \<open>A rule with one expression that must match, in one direction.\<close>

definition one_rex :: "nat \<Rightarrow> len_match \<Rightarrow> content_match \<Rightarrow> l7_match" where
  "one_rex dir ln c = \<lparr>l7_dir = dir, lnm = ln, ctm_relation = NP_CTM_AND, ctm = [c]\<rparr>"

definition len_at :: "int \<Rightarrow> int \<Rightarrow> nat \<Rightarrow> len_match" where
  "len_at off fixed width = no_len\<lparr>ln_type := NP_LNM_MATCH, ln_offset := off, ln_fixed := fixed, ln_width := width\<rparr>"

definition len_range :: "u16 \<Rightarrow> u16 \<Rightarrow> len_match" where
  "len_range a b = no_len\<lparr>ln_type := NP_LNM_RANGE, ln_range := pad MAX_L7_LEN_RANGE (0, 0) [(a, b)]\<rparr>"

definition len_list :: "u16 \<Rightarrow> len_match" where
  "len_list n = no_len\<lparr>ln_type := NP_LNM_LIST, ln_list := pad MAX_L7_LEN_LIST 0 [n]\<rparr>"

text \<open>The backslash and the quotes of the patterns.\<close>

definition bs :: string where "bs = [CHR 0x5C]"
definition dq :: string where "dq = [CHR 0x22]"
definition sq :: string where "sq = [CHR 0x27]"

section \<open>The rules\<close>

definition NP_INNER_RULE_HTTP_REQ :: nat where "NP_INNER_RULE_HTTP_REQ = 1"
definition NP_INNER_RULE_HTTP_REP :: nat where "NP_INNER_RULE_HTTP_REP = 2"
definition NP_INNER_RULE_HTTP_SVN :: nat where "NP_INNER_RULE_HTTP_SVN = 4"
definition NP_INNER_RULE_HTTP_WEIBO :: nat where "NP_INNER_RULE_HTTP_WEIBO = 5"

definition inner_http_req :: np_rule where
  "inner_http_req = no_rule\<lparr>name_rule := ''http_req'', name_app := ''http'', r_ID := NP_INNER_RULE_HTTP_REQ, is_base := True,
     enable_l4 := True, r_l4 := on_ports 6 [], enable_l7 := True,
     r_l7 := one_rex NP_FLOW_DIR_C2S no_len (rex 0 0 (''/^GET|^POST|^CONNECT|^HEAD|^OPTIONS '' @ bs @ ''//'')),
     proto_init := OnHttpHdr, proto_cb := OnHttpHdr\<rparr>"

definition inner_http_rep :: np_rule where
  "inner_http_rep = no_rule\<lparr>name_rule := ''http_rep'', name_app := ''http'', r_ID := NP_INNER_RULE_HTTP_REP, is_base := True,
     enable_l4 := True, r_l4 := on_ports 6 [], enable_l7 := True,
     r_l7 := one_rex NP_FLOW_DIR_S2C no_len (rex 0 0 (''/^HTTP'' @ bs @ ''/[12].0 /'')),
     proto_init := OnHttpHdr, proto_cb := OnHttpHdr\<rparr>"

definition inner_http_svn :: np_rule where
  "inner_http_svn = no_rule\<lparr>name_rule := ''http-svn'', name_app := ''svn'', r_ID := NP_INNER_RULE_HTTP_SVN, is_fin := True,
     refs_packet := True, ID_REFs := pad MAX_REF_IDs 0 [NP_INNER_RULE_HTTP_REQ], enable_http := True,
     r_http := \<lparr>htp_relation = NP_CTM_OR, htpm = pad MAX_CT_MATCH_NUM no_htpm [\<lparr>hm_hdr = NP_HTTP_User_Agent,
       hm_match = cm_match (rex 0 0 (''/^SVN'' @ bs @ ''/[0-9]'' @ bs @ ''.[0-9]'' @ bs @ ''.[0-9] /i''))\<rparr>]\<rparr>\<rparr>"

definition host_search :: "string \<Rightarrow> httpm" where
  "host_search s = \<lparr>hm_hdr = NP_HTTP_Host, hm_match = zero_match\<lparr>mt_type := MHTP_SEARCH, mt_patt := bytes_of s\<rparr>\<rparr>"

definition inner_http_weibo :: np_rule where
  "inner_http_weibo = no_rule\<lparr>name_rule := ''http-weibo'', name_app := ''weibo'', r_ID := NP_INNER_RULE_HTTP_WEIBO, is_fin := True,
     refs_packet := True, ID_REFs := pad MAX_REF_IDs 0 [NP_INNER_RULE_HTTP_REQ], enable_http := True,
     r_http := \<lparr>htp_relation = NP_CTM_OR, htpm = pad MAX_CT_MATCH_NUM no_htpm
       (map host_search [''.weibo.com'', ''.weibo.cn'', ''.sinaimg.cn'', ''.sinajs.cn'', ''.sina.cn'', ''.sina.com.cn''])\<rparr>\<rparr>"

definition inner_http_flv :: np_rule where
  "inner_http_flv = no_rule\<lparr>name_rule := ''http-flv'', name_app := ''flash'', r_ID := 3, is_fin := True,
     refs_packet := True, refs_flow := True, ID_REFs := pad MAX_REF_IDs 0 [NP_INNER_RULE_HTTP_REP], enable_http := True,
     r_http := \<lparr>htp_relation = NP_CTM_OR, htpm = pad MAX_CT_MATCH_NUM no_htpm [\<lparr>hm_hdr = 0,
       hm_match = cm_match (rex 0 0 (''/^[FC]WS['' @ bs @ ''x01-'' @ bs @ ''x09]|FLV'' @ bs @ ''x01'' @ bs @ ''x05'' @ bs @ ''x09/''))\<rparr>]\<rparr>\<rparr>"

definition inner_pop3 :: np_rule where
  "inner_pop3 = no_rule\<lparr>name_rule := ''pop3'', name_app := ''e-mail'', r_ID := 7, is_base := True, is_fin := True,
     enable_l4 := True, r_l4 := on_ports 6 [], enable_l7 := True,
     r_l7 := one_rex NP_FLOW_DIR_S2C no_len (rex 0 48 (''/^'' @ bs @ ''+ok'' @ bs @ ''b.*pop3'' @ bs @ ''b/i''))\<rparr>"

definition inner_smtp :: np_rule where
  "inner_smtp = no_rule\<lparr>name_rule := ''smtp'', name_app := ''e-mail'', r_ID := 6, is_base := True,
     enable_l4 := True, r_l4 := on_ports 6 [], enable_l7 := True,
     r_l7 := one_rex NP_FLOW_DIR_S2C no_len (rex 0 48 (''/^220['' @ bs @ ''x09-'' @ bs @ ''x0d -~]*.*(smtp|mail)/i''))\<rparr>"

definition inner_ssh :: np_rule where
  "inner_ssh = no_rule\<lparr>name_rule := ''ssh'', name_app := ''ssh2'', r_ID := 8, is_base := True, is_fin := True,
     enable_l4 := True, r_l4 := on_ports 6 [], enable_l7 := True,
     r_l7 := one_rex NP_FLOW_DIR_S2C (len_range 8 64) (rex 0 16 (''/^SSH-[12]'' @ bs @ ''.[0-9]-/i''))\<rparr>"

definition inner_ssl :: np_rule where
  "inner_ssl = no_rule\<lparr>name_rule := ''ssl'', name_app := ''ssl'', r_ID := 9, is_base := True,
     enable_l4 := True, r_l4 := on_ports 6 [], enable_l7 := True,
     r_l7 := one_rex NP_FLOW_DIR_C2S (len_at 3 5 2)
       (rex 0 0 (''/^'' @ bs @ ''x16'' @ bs @ ''x03'' @ bs @ ''x01|'' @ bs @ ''x17'' @ bs @ ''x03'' @ bs @ ''x01/m''))\<rparr>"

definition inner_ftp :: np_rule where
  "inner_ftp = no_rule\<lparr>name_rule := ''ftp'', name_app := ''ftp'', r_ID := 10, is_base := True, is_fin := True,
     enable_l4 := True, r_l4 := on_ports 6 [21], enable_l7 := True,
     r_l7 := one_rex NP_FLOW_DIR_S2C (len_range 8 64) (rex 0 32 ''/^220.*ftp/i'')\<rparr>"

definition inner_dhcp :: np_rule where
  "inner_dhcp = no_rule\<lparr>name_rule := ''dhcp'', name_app := ''dhcp'', r_ID := 11, is_base := True, is_fin := True,
     enable_l4 := True, r_l4 := on_ports 17 [67, 68], enable_l7 := False,
     r_l7 := one_rex NP_FLOW_DIR_ANY no_len
       (rex 0 256 (''/^['' @ bs @ ''x01'' @ bs @ ''x02]['' @ bs @ ''x01- ]'' @ bs @ ''x06.*c'' @ bs @ ''x82sc/m''))\<rparr>"

definition inner_SMB :: np_rule where
  "inner_SMB = no_rule\<lparr>name_rule := ''SMB'', name_app := ''Samba'', r_ID := 12, is_base := True, is_fin := True,
     enable_l4 := True, r_l4 := on_ports 6 [445], enable_l7 := True,
     r_l7 := one_rex NP_FLOW_DIR_C2S (len_at 0 4 4) (rex 4 0 (''/^'' @ [CHR 0xFF] @ ''smb[r%]/i''))\<rparr>"

definition inner_RDP :: np_rule where
  "inner_RDP = no_rule\<lparr>name_rule := ''RDP'', name_app := ''MS-RDP'', r_ID := 13, is_base := True, is_fin := True,
     enable_l4 := True, r_l4 := on_ports 6 [], enable_l7 := True,
     r_l7 := one_rex NP_FLOW_DIR_C2S (len_at 2 0 2) (rex (- 64) 0 ''/rdpdr.*cliprdr.*rdpsnd/m'')\<rparr>"

definition inner_SIP :: np_rule where
  "inner_SIP = no_rule\<lparr>name_rule := ''SIP'', name_app := ''SIP'', r_ID := 14, is_base := True, is_fin := True,
     enable_l4 := True, r_l4 := on_ports 17 [], enable_l7 := True,
     r_l7 := one_rex NP_FLOW_DIR_C2S no_len (rex 0 0 (''/^(invite|register|cancel|message|subscribe|notify) sip['' @ bs @ ''x09-'' @ bs
       @ ''x0d -~]*sip/[0-2]'' @ bs @ ''.[0-9]/i''))\<rparr>"

definition inner_NTP :: np_rule where
  "inner_NTP = no_rule\<lparr>name_rule := ''NTP'', name_app := ''NTP'', r_ID := 15, is_base := True, is_fin := True,
     enable_l4 := True, r_l4 := on_ports 17 [123], enable_l7 := True, r_l7 := no_l7\<lparr>l7_dir := NP_FLOW_DIR_C2S, lnm := len_list 48\<rparr>\<rparr>"

definition inner_VNC :: np_rule where
  "inner_VNC = no_rule\<lparr>name_rule := ''VNC'', name_app := ''VNC'', r_ID := 16, is_base := True, is_fin := True,
     enable_l4 := True, r_l4 := on_ports 6 [], enable_l7 := True,
     r_l7 := one_rex NP_FLOW_DIR_C2S (len_list 12) (rex 0 0 (''/^RFB 00[1-9]'' @ bs @ ''.00[0-9]'' @ bs @ ''x0a$/i''))\<rparr>"

definition inner_GTalk :: np_rule where
  "inner_GTalk = no_rule\<lparr>name_rule := ''GTalk'', name_app := ''GTalk'', r_ID := 17, is_base := True, is_fin := True,
     enable_l4 := True, r_l4 := on_ports 6 [], enable_l7 := True,
     r_l7 := one_rex NP_FLOW_DIR_C2S no_len (rex 0 0 (''/^<stream:stream to=['' @ dq @ sq @ '']gmail'' @ bs @ ''.com['' @ dq @ sq @ '']/''))\<rparr>"

definition inner_mysql :: np_rule where
  "inner_mysql = no_rule\<lparr>name_rule := ''mysql'', name_app := ''mysql'', r_ID := 18, is_base := True, is_fin := True,
     enable_l4 := True, r_l4 := on_ports 6 [], enable_l7 := True,
     r_l7 := one_rex NP_FLOW_DIR_S2C (len_at 0 4 2)
       (rex 4 0 (''/^'' @ bs @ ''x0a[0-9]'' @ bs @ ''x2e[0-9]'' @ bs @ ''x2e[0-9][0-9]'' @ bs @ ''x0/m''))\<rparr>"

text \<open>The rule for flash is not among the registered ones.\<close>

definition builtin :: "np_rule list" where
  "builtin = [inner_http_req, inner_http_rep, inner_http_svn, inner_http_weibo, inner_pop3, inner_smtp, inner_ssh, inner_ssl,
     inner_ftp, inner_dhcp, inner_SMB, inner_RDP, inner_SIP, inner_NTP, inner_VNC, inner_GTalk, inner_mysql]"

definition inner_rules_init :: "np_env \<Rightarrow> np_rules \<Rightarrow> np_rules run" where
  "inner_rules_init env st = register_all env builtin st"

end
