(* ===== verification/Nproto_Order.thy ===== *)
theory Nproto_Order
  imports Nproto_Builtin
begin

text \<open>
  What the sets of rules promise: the array of a set stays ordered by priority however rules are
  registered and referred to, so the first rule that matches is one of the highest priority; and the
  rules that went to the multi-pattern search are never reported.
\<close>

section \<open>Inserting by binary search\<close>

definition descending :: "nat list \<Rightarrow> bool" where
  "descending ps \<longleftrightarrow> sorted_wrt (\<ge>) ps"

lemma descendingD: "descending ps \<Longrightarrow> i \<le> j \<Longrightarrow> j < length ps \<Longrightarrow> ps ! j \<le> ps ! i"
  unfolding descending_def by (metis le_eq_less_or_eq sorted_wrt_iff_nth_less order_refl)

text \<open>Everything up to the position found is at least \<open>p\<close>, everything behind it at most \<open>p\<close>.\<close>

definition splits_at :: "nat list \<Rightarrow> nat \<Rightarrow> int \<Rightarrow> bool" where
  "splits_at ps p h \<longleftrightarrow> - 1 \<le> h \<and> h < int (length ps) \<and>
     (\<forall>k < length ps. if int k \<le> h then p \<le> ps ! k else ps ! k \<le> p)"

lemma splits_atI:
  assumes "- 1 \<le> h" and "h < int (length ps)" and "\<And>k. k < length ps \<Longrightarrow> int k \<le> h \<Longrightarrow> p \<le> ps ! k"
    and "\<And>k. k < length ps \<Longrightarrow> h < int k \<Longrightarrow> ps ! k \<le> p"
  shows "splits_at ps p h"
  unfolding splits_at_def using assms by auto

lemma insert_pos_splits:
  assumes "descending ps" and "0 \<le> lo" and "hi < int (length ps)" and "lo \<le> hi + 1"
    and "\<And>k. int k < lo \<Longrightarrow> p < ps ! k" and "\<And>k. k < length ps \<Longrightarrow> hi < int k \<Longrightarrow> ps ! k < p"
  shows "splits_at ps p (insert_pos ps p lo hi)"
  using assms
proof (induction ps p lo hi rule: insert_pos.induct)
  case (1 ps p lo hi)
  define mid where "mid = (lo + hi) div 2"
  show ?case
  proof (cases "lo \<le> hi")
    case False
    then show ?thesis
      using "1.prems" by (intro splits_atI) (auto simp: insert_pos.simps [of ps p lo hi] intro: less_imp_le)
  next
    case True
    have m: "lo \<le> mid" "mid \<le> hi" using True by (auto simp: mid_def)
    have mn: "nat mid < length ps" "int (nat mid) = mid" using m "1.prems"(2,3) by auto
    consider "ps ! nat mid = p" | "ps ! nat mid < p" | "p < ps ! nat mid" by linarith
    then show ?thesis
    proof cases
      case 1
      have "splits_at ps p mid"
      proof (rule splits_atI)
        show "- 1 \<le> mid" "mid < int (length ps)" using m mn "1.prems"(2) by auto
        show "p \<le> ps ! k" if "k < length ps" "int k \<le> mid" for k
          using descendingD [OF "1.prems"(1), of k "nat mid"] that mn 1 by linarith
        show "ps ! k \<le> p" if "k < length ps" "mid < int k" for k
          using descendingD [OF "1.prems"(1), of "nat mid" k] that mn 1 by linarith
      qed
      then show ?thesis using True 1 by (simp add: insert_pos.simps [of ps p lo hi] mid_def Let_def)
    next
      case 2
      have "splits_at ps p (insert_pos ps p lo (mid - 1))"
      proof (rule "1.IH"(1) [OF True mid_def])
        show "ps ! k < p" if "k < length ps" "mid - 1 < int k" for k
          using descendingD [OF "1.prems"(1), of "nat mid" k] that mn 2 by linarith
      qed (use "1.prems" 2 m in auto)
      then show ?thesis using True 2 by (simp add: insert_pos.simps [of ps p lo hi] mid_def Let_def)
    next
      case 3
      have "splits_at ps p (insert_pos ps p (mid + 1) hi)"
      proof (rule "1.IH"(2) [OF True mid_def])
        show "p < ps ! k" if "int k < mid + 1" for k
          using descendingD [OF "1.prems"(1), of k "nat mid"] that mn 3 by linarith
      qed (use "1.prems" 3 m in auto)
      then show ?thesis using True 3 by (simp add: insert_pos.simps [of ps p lo hi] mid_def Let_def)
    qed
  qed
qed

lemma map_insert_at: "map f (insert_at n x xs) = insert_at n (f x) (map f xs)"
  by (simp add: insert_at_def take_map drop_map)

lemma set_insert_at [simp]: "set (insert_at n x xs) = insert x (set xs)"
  by (simp add: insert_at_def) (metis append_take_drop_id insert_is_Un set_append sup_left_commute)

lemma splits_at_insert:
  assumes "descending ps" and "splits_at ps p h"
  shows "descending (insert_at (nat (h + 1)) p ps)"
proof -
  let ?n = "nat (h + 1)"
  have "\<forall>x \<in> set (take ?n ps). p \<le> x" "\<forall>x \<in> set (drop ?n ps). x \<le> p"
    using assms(2) by (auto simp: splits_at_def in_set_conv_nth)
  moreover have "sorted_wrt (\<ge>) (take ?n ps @ drop ?n ps)" using assms(1) by (simp add: descending_def)
  ultimately show ?thesis
    by (auto simp: descending_def insert_at_def sorted_wrt_append simp del: append_take_drop_id)
qed

lemma add_sorted_descending:
  assumes "descending (map prio (rs_rules s))" and "\<forall>j \<in> insert i (set (rs_rules s)). prio j \<le> NP_RULE_PRI_MAX"
  shows "descending (map prio (rs_rules (set_add_rule_normal_sorted prio i s)))"
proof -
  let ?ps = "map prio (rs_rules s)"
  have "splits_at ?ps (prio i) (insert_pos ?ps (prio i) 0 (int (length (rs_rules s)) - 1))"
    using insert_pos_splits [OF assms(1), of 0 "int (length (rs_rules s)) - 1" "prio i"] by simp
  from splits_at_insert [OF assms(1) this] show ?thesis
    using assms
    by (auto simp: set_add_rule_normal_sorted_def map_insert_at Let_def descending_def sorted_wrt_append NP_RULE_PRI_MIN_def)
qed

lemma set_add_sorted [simp]: "set (rs_rules (set_add_rule_normal_sorted prio i s)) = insert i (set (rs_rules s))"
  by (auto simp: set_add_rule_normal_sorted_def Let_def)

section \<open>The invariant of the sets\<close>

definition rank :: "np_rule list \<Rightarrow> nat \<Rightarrow> nat" where
  "rank rs i = unat (priority (rs ! i))"

lemma rank_le [simp]: "rank rs i \<le> NP_RULE_PRI_MAX"
proof -
  have "unat (priority (rs ! i)) < 2 ^ LENGTH(16)" by (rule unsigned_less)
  then show ?thesis by (simp add: rank_def NP_RULE_PRI_MAX_def)
qed

text \<open>A rule that goes to the multi-pattern search, when the search takes its patterns.\<close>

definition searched :: "np_rule \<Rightarrow> bool" where
  "searched r \<longleftrightarrow> (enable_l7 r \<or> enable_http r) \<and>
     (if enable_http r then htp_relation (r_http r) else ctm_relation (r_l7 r)) = NP_CTM_OR \<and> rule_patterns r \<noteq> []"

definition search_ok :: "np_env \<Rightarrow> bool" where
  "search_ok env \<longleftrightarrow> mwm_new_ok env \<and> mwm_add_ok env = (\<lambda>_. True)"

definition direct :: "np_env \<Rightarrow> np_rule \<Rightarrow> bool" where
  "direct env r \<longleftrightarrow> \<not> (search_ok env \<and> searched r)"

definition set_ok :: "np_env \<Rightarrow> np_rule list \<Rightarrow> rule_set \<Rightarrow> bool" where
  "set_ok env rs s \<longleftrightarrow> descending (map (rank rs) (rs_rules s)) \<and> (\<forall>i \<in> set (rs_rules s). i < length rs \<and> direct env (rs ! i))"

lemma set_ok_alloc [simp]: "set_ok env rs set_alloc"
  by (simp add: set_ok_def set_alloc_def descending_def)

lemma set_ok_rules: "rs_rules s' = rs_rules s \<Longrightarrow> set_ok env rs s \<Longrightarrow> set_ok env rs s'"
  by (simp add: set_ok_def)

lemma set_ok_normal:
  assumes "set_ok env rs s" and "i < length rs" and "direct env (rs ! i)"
  shows "set_ok env rs (fst (set_add_rule_normal env (rank rs) i s))"
proof -
  have "set_ok env rs (set_add_rule_normal_sorted (rank rs) i s')" if "set_ok env rs s'" for s'
    using that assms(2,3) by (auto simp: set_ok_def intro!: add_sorted_descending)
  moreover have "set_ok env rs (s\<lparr>rs_capacity := c\<rparr>)" for c using assms(1) by (simp add: set_ok_def)
  ultimately show ?thesis using assms(1) by (simp add: set_add_rule_normal_def Let_def)
qed

lemma set_ok_mwm:
  assumes "set_ok env rs s" and "i < length rs"
  shows "set_ok env rs (fst (set_add_rule_mwm env (rank rs) host i m s))"
proof (cases "search_ok env")
  case True
  then show ?thesis
    using assms(1) by (auto simp: set_add_rule_mwm_def search_ok_def set_ok_def Let_def split: option.splits bool.splits)
next
  case False
  then have d: "direct env (rs ! i)" by (simp add: direct_def)
  have "set_ok env rs (s\<lparr>rs_mwm := a\<rparr>)" "set_ok env rs (s\<lparr>rs_mwm_host := a\<rparr>)" for a
    using assms(1) by (simp_all add: set_ok_def)
  then show ?thesis
    using assms d by (auto simp: set_add_rule_mwm_def Let_def intro!: set_ok_normal split: option.splits bool.splits)
qed

lemma set_ok_patterns: "set_ok env rs s \<Longrightarrow> i < length rs \<Longrightarrow> set_ok env rs (add_patterns env (rank rs) i ps s)"
proof (induction ps arbitrary: s)
  case (Cons a ps)
  obtain host m where a: "a = (host, m)" by (cases a)
  obtain s' n where e: "set_add_rule_mwm env (rank rs) host i m s = (s', n)" by force
  have "set_ok env rs s'" using set_ok_mwm [OF Cons.prems, of host m] e by simp
  then show ?case using Cons.IH Cons.prems(2) by (simp add: a e)
qed simp

lemma set_ok_add:
  assumes "set_ok env rs s" and "i < length rs"
  shows "set_ok env rs (fst (set_add_rule env (rank rs) i (rs ! i) s))"
proof (cases "searched (rs ! i)")
  case True
  then show ?thesis using set_ok_patterns [OF assms] by (auto simp: set_add_rule_def searched_def)
next
  case False
  then show ?thesis
    using set_ok_normal [OF assms] by (auto simp: set_add_rule_def searched_def direct_def split: if_splits)
qed

lemma set_ok_compile [simp]: "set_ok env rs (set_compile env s) = set_ok env rs s"
  by (simp add: set_ok_def set_compile_def)

text \<open>The invariant reads only these parts of the rules, which no later step changes.\<close>

definition same_rule :: "np_rule \<Rightarrow> np_rule \<Rightarrow> bool" where
  "same_rule r r' \<longleftrightarrow> r'\<lparr>ref_set := None\<rparr> = r\<lparr>ref_set := None\<rparr>"

lemma same_rule_keeps:
  "same_rule r r' \<Longrightarrow> (\<And>x. f (x\<lparr>ref_set := None\<rparr>) = f x) \<Longrightarrow> f r' = f r"
  unfolding same_rule_def by metis

lemma same_rule_priority: "same_rule r r' \<Longrightarrow> priority r' = priority r"
  by (rule same_rule_keeps [where f = priority]) simp_all

lemma same_rule_direct: "same_rule r r' \<Longrightarrow> direct env r' = direct env r"
  by (rule same_rule_keeps [where f = "direct env"]) (simp_all add: direct_def searched_def rule_patterns_def)

lemma same_rule_refl [simp]: "same_rule r r"
  by (simp add: same_rule_def)

lemma same_rule_set [simp]: "same_rule r (r\<lparr>ref_set := x\<rparr>)"
  by (simp add: same_rule_def)

lemma same_rule_trans: "same_rule a b \<Longrightarrow> same_rule b c \<Longrightarrow> same_rule a c"
  by (simp add: same_rule_def)

definition extends :: "np_rule list \<Rightarrow> np_rule list \<Rightarrow> bool" where
  "extends rs rs' \<longleftrightarrow> length rs \<le> length rs' \<and> (\<forall>i < length rs. same_rule (rs ! i) (rs' ! i))"

lemma extends_rule: "extends rs rs' \<Longrightarrow> i < length rs \<Longrightarrow> i < length rs' \<and> same_rule (rs ! i) (rs' ! i)"
  by (auto simp: extends_def)

lemma extends_refl [simp]: "extends rs rs"
  by (simp add: extends_def)

lemma extends_snoc [simp]: "extends rs (rs @ [r])"
  by (simp add: extends_def nth_append)

lemma extends_trans: "extends a b \<Longrightarrow> extends b c \<Longrightarrow> extends a c"
  by (auto simp: extends_def intro: same_rule_trans)

lemma set_ok_extends:
  assumes "set_ok env rs s" and "extends rs rs'"
  shows "set_ok env rs' s"
proof -
  have k: "i < length rs' \<and> rank rs' i = rank rs i \<and> direct env (rs' ! i)" if "i \<in> set (rs_rules s)" for i
  proof -
    have "i < length rs" "direct env (rs ! i)" using assms(1) that by (auto simp: set_ok_def)
    with extends_rule [OF assms(2), of i] same_rule_priority same_rule_direct [of "rs ! i" "rs' ! i" env] show ?thesis
      by (auto simp: rank_def)
  qed
  then have e: "map (rank rs') (rs_rules s) = map (rank rs) (rs_rules s)" by simp
  show ?thesis unfolding set_ok_def e using assms(1) k by (simp add: set_ok_def)
qed

definition refs_ok :: "np_env \<Rightarrow> np_rule list \<Rightarrow> bool" where
  "refs_ok env rs \<longleftrightarrow> (\<forall>r \<in> set rs. \<forall>s. ref_set r = Some s \<longrightarrow> set_ok env rs s)"

definition bases_ok :: "np_env \<Rightarrow> np_rule list \<Rightarrow> (nat \<Rightarrow> base_set \<Rightarrow> rule_set option) \<Rightarrow> bool" where
  "bases_ok env rs b \<longleftrightarrow> (\<forall>d p s. b d p = Some s \<longrightarrow> set_ok env rs s)"

definition sets_ok :: "np_env \<Rightarrow> np_rules \<Rightarrow> bool" where
  "sets_ok env st \<longleftrightarrow> bases_ok env (all_rules st) (rs_base st) \<and> refs_ok env (all_rules st)"

subsection \<open>Registering keeps it\<close>

lemma bases_ok_extends: "bases_ok env rs b \<Longrightarrow> extends rs rs' \<Longrightarrow> bases_ok env rs' b"
  by (auto simp: bases_ok_def intro: set_ok_extends)

lemma set_add_base_rule_ok:
  assumes "sets_ok env st" and "i < length (all_rules st)"
  shows "sets_ok env (fst (set_add_base_rule env d p i st)) \<and> all_rules (fst (set_add_base_rule env d p i st)) = all_rules st"
proof -
  let ?s = "case rs_base st d p of None \<Rightarrow> set_alloc | Some s \<Rightarrow> s"
  have e: "prio_of st = rank (all_rules st)" by (auto simp: prio_of_def rank_def)
  obtain s n where a: "set_add_rule env (rank (all_rules st)) i (all_rules st ! i) ?s = (s, n)" by force
  have "set_ok env (all_rules st) ?s" using assms(1) by (auto simp: sets_ok_def bases_ok_def split: option.splits)
  from set_ok_add [OF this assms(2)] have "set_ok env (all_rules st) s" by (simp add: a)
  then show ?thesis using assms(1) by (auto simp: set_add_base_rule_def e a sets_ok_def bases_ok_def)
qed

lemma rule_compile_ref: "rule_compile env r = Ret (Some r') \<Longrightarrow> ref_set r' = ref_set r"
  by (auto simp: rule_compile_def run_bind_eq_Ret split: if_splits)

lemma np_rule_register_ok:
  assumes "sets_ok env st" and "ref_set r = None" and "np_rule_register env r st = Ret (st', n)"
  shows "sets_ok env st'"
proof (cases "rule_compile env r")
  case (Ret c)
  show ?thesis
  proof (cases c)
    case None
    then show ?thesis using assms Ret by (simp add: np_rule_register_def)
  next
    case (Some r')
    let ?st = "st\<lparr>all_rules := all_rules st @ [r']\<rparr>"
    have "ref_set r' = None" using rule_compile_ref [of env r r'] Ret Some assms(2) by simp
    then have ok: "sets_ok env ?st"
      using assms(1) by (auto simp: sets_ok_def refs_ok_def intro: bases_ok_extends set_ok_extends [OF _ extends_snoc])
    note add = set_add_base_rule_ok [where i = "length (all_rules st)"]
    have one: "sets_ok env a \<and> all_rules a = all_rules st @ [r']"
      if "set_add_base_rule env d p (length (all_rules st)) ?st = (a, m)" for a m d p
      using add [OF ok, of d p] that by simp
    have two: "sets_ok env b"
      if "set_add_base_rule env d p (length (all_rules st)) ?st = (a, m)"
        and "set_add_base_rule env d' p' (length (all_rules st)) a = (b, k)" for a m d p b d' p' k
      using add [of env a d' p'] one [OF that(1)] that(2) by simp
    show ?thesis
      using assms(1,3) Ret Some ok
      by (auto simp: np_rule_register_def Let_def run_bind_assertion dest: one two split: if_splits prod.splits)
  qed
qed (use assms in \<open>simp add: np_rule_register_def\<close>)

lemma register_all_ok:
  "register_all env rs st = Ret st' \<Longrightarrow> sets_ok env st \<Longrightarrow> \<forall>r \<in> set rs. ref_set r = None \<Longrightarrow> sets_ok env st'"
proof (induction rs arbitrary: st)
  case (Cons r rs)
  from Cons.prems(1) obtain st1 n where "np_rule_register env r st = Ret (st1, n)" "register_all env rs st1 = Ret st'"
    by (auto simp: run_bind_eq_Ret)
  with Cons.IH [of st1] Cons.prems np_rule_register_ok [of env st r st1 n] show ?case by simp
qed simp

subsection \<open>Building keeps it\<close>

lemma extends_update: "j < length rs \<Longrightarrow> extends rs (rs[j := (rs ! j)\<lparr>ref_set := x\<rparr>])"
  by (auto simp: extends_def nth_list_update)

definition grown :: "np_env \<Rightarrow> np_rule list \<Rightarrow> np_rule list \<Rightarrow> bool" where
  "grown env rs rs' \<longleftrightarrow> extends rs rs' \<and> length rs' = length rs \<and> (refs_ok env rs \<longrightarrow> refs_ok env rs')"

lemma grown_refl [simp]: "grown env rs rs"
  by (simp add: grown_def)

lemma grown_trans: "grown env a b \<Longrightarrow> grown env b c \<Longrightarrow> grown env a c"
  by (auto simp: grown_def intro: extends_trans)

lemma grown_fold:
  assumes "\<And>x rs. x \<in> set xs \<Longrightarrow> length rs = n \<Longrightarrow> grown env rs (f x rs)" and "length rs = n"
  shows "grown env rs (fold f xs rs)"
  using assms
proof (induction xs arbitrary: rs)
  case (Cons x xs)
  have "grown env rs (f x rs)" using Cons.prems by simp
  moreover from this have "length (f x rs) = n" using Cons.prems(2) by (simp add: grown_def)
  ultimately show ?case using Cons grown_trans [of env rs "f x rs"] by simp
qed simp

lemma add_ref_grown:
  assumes "i < length rs" and "j < length rs"
  shows "grown env rs (add_ref env i ref_id j rs)"
proof -
  let ?s = "case ref_set (rs ! j) of None \<Rightarrow> set_alloc | Some s \<Rightarrow> s"
  have e: "(\<lambda>k. unat (priority (rs ! k))) = rank rs" by (auto simp: rank_def)
  obtain s n where a: "set_add_rule env (rank rs) i (rs ! i) ?s = (s, n)" by force
  let ?rs = "rs[j := (rs ! j)\<lparr>ref_set := Some s\<rparr>]"
  have x: "extends rs ?rs" using assms(2) by (rule extends_update)
  have "refs_ok env ?rs" if r: "refs_ok env rs"
  proof -
    have "set_ok env rs ?s" using r assms(2) by (auto simp: refs_ok_def split: option.splits)
    from set_ok_add [OF this assms(1)] have "set_ok env rs s" by (simp add: a)
    then have "set_ok env ?rs s" using x by (rule set_ok_extends)
    then show ?thesis
      using r set_ok_extends [OF _ x] by (fastforce simp: refs_ok_def dest!: subsetD [OF set_update_subset_insert])
  qed
  then show ?thesis using x by (auto simp: add_ref_def grown_def Let_def e a)
qed

lemma add_refs_grown: "i < length rs \<Longrightarrow> grown env rs (add_refs env i rs)"
proof -
  assume i: "i < length rs"
  let ?n = "length rs"
  have "grown env rs' (fold (\<lambda>j. add_ref env i ref_id j) [0..<?n] rs')" if "length rs' = ?n" for rs' ref_id
    by (rule grown_fold [where n = ?n]) (use i that in \<open>auto intro: add_ref_grown\<close>)
  then have "grown env rs (fold (\<lambda>ref_id. fold (\<lambda>j. add_ref env i ref_id j) [0..<?n]) xs rs)" for xs
    by - (rule grown_fold [where n = ?n], auto)
  then show ?thesis by (simp add: add_refs_def)
qed

lemma extends_map: "extends rs (map (\<lambda>r. r\<lparr>ref_set := f (ref_set r)\<rparr>) rs)"
  by (auto simp: extends_def)

lemma rules_build_ok:
  assumes "rules_build env st = Ret st'" and "sets_ok env st"
  shows "sets_ok env st'"
proof -
  define rs where "rs = fold (add_refs env) [0..<length (all_rules st)] (all_rules st)"
  define rs' where "rs' = map (\<lambda>r. r\<lparr>ref_set := map_option (set_compile env) (ref_set r)\<rparr>) rs"
  have g: "grown env (all_rules st) rs"
    unfolding rs_def by (rule grown_fold [where n = "length (all_rules st)"]) (auto intro: add_refs_grown)
  have x: "extends rs rs'" unfolding rs'_def by (rule extends_map)
  have st': "all_rules st' = rs'" "rs_base st' = (\<lambda>d p. map_option (set_compile env) (rs_base st d p))"
    using assms(1) by (auto simp: rules_build_def run_bind_eq_Ret Let_def rs_def rs'_def)
  have "bases_ok env rs' (rs_base st)"
    using assms(2) g x by (auto simp: sets_ok_def grown_def intro: bases_ok_extends extends_trans)
  moreover have "refs_ok env rs'"
    using assms(2) g set_ok_extends [OF _ x] by (auto simp: sets_ok_def grown_def refs_ok_def rs'_def)
  ultimately show ?thesis by (auto simp: sets_ok_def st' bases_ok_def)
qed

text \<open>The states the module works with: some rules were registered, then the sets were built.\<close>

definition installed :: "np_env \<Rightarrow> np_rule list \<Rightarrow> np_rules run" where
  "installed env rs = run_bind (register_all env rs no_rules) (rules_build env)"

lemma installed_ok:
  assumes "installed env rs = Ret st" and "\<forall>r \<in> set rs. ref_set r = None"
  shows "sets_ok env st"
proof -
  from assms(1) obtain st0 where r: "register_all env rs no_rules = Ret st0" and b: "rules_build env st0 = Ret st"
    by (auto simp: installed_def run_bind_eq_Ret)
  have "sets_ok env no_rules" by (simp add: sets_ok_def no_rules_def bases_ok_def refs_ok_def)
  from rules_build_ok [OF b register_all_ok [OF r this assms(2)]] show ?thesis .
qed

section \<open>Matching by the sets\<close>

lemma rule_one_match_miss: "rule_one_match env r npt = Ret (npt', False) \<Longrightarrow> npt' = npt \<and> rule_hits env r npt = Ret False"
  by (auto simp: rule_one_match_def run_bind_eq_Ret split: if_splits)

lemma rule_one_match_hit: "rule_one_match env r npt = Ret (npt', True) \<Longrightarrow> rule_hits env r npt = Ret True"
  by (auto simp: rule_one_match_def run_bind_eq_Ret split: if_splits)

lemma normal_match_first:
  assumes "normal_match env rules is npt = Ret (npt', Some i)"
  shows "\<exists>before after. is = before @ i # after \<and> (\<forall>j \<in> set before. rule_hits env (rules ! j) npt = Ret False) \<and>
     rule_hits env (rules ! i) npt = Ret True"
  using assms
proof (induction "is")
  case (Cons j js)
  from Cons.prems obtain npt1 m where m: "rule_one_match env (rules ! j) npt = Ret (npt1, m)"
    by (auto simp: run_bind_eq_Ret)
  show ?case
  proof (cases m)
    case True
    then have "i = j" using Cons.prems m by simp
    then show ?thesis using rule_one_match_hit m True by (intro exI [of _ "[]"] exI [of _ js]) auto
  next
    case False
    with m rule_one_match_miss have e: "npt1 = npt" "rule_hits env (rules ! j) npt = Ret False" by auto
    then have "normal_match env rules js npt = Ret (npt', Some i)" using Cons.prems m False by simp
    from Cons.IH [OF this] obtain before after where "js = before @ i # after"
      "\<forall>j \<in> set before. rule_hits env (rules ! j) npt = Ret False" "rule_hits env (rules ! i) npt = Ret True" by blast
    then show ?thesis using e(2) by (intro exI [of _ "j # before"] exI [of _ after]) auto
  qed
qed simp

text \<open>Only the array of a set can give a result.\<close>

lemma rules_set_match_normal:
  assumes "rules_set_match env rules s npt = Ret (npt', Some i)"
  shows "\<exists>npt1. normal_match env rules (rs_rules s) npt = Ret (npt1, Some i)"
  using assms
  by (auto simp: rules_set_match_def Let_def run_bind_eq_Ret split: if_splits option.splits prod.splits)

definition in_sets :: "np_rules \<Rightarrow> rule_set \<Rightarrow> bool" where
  "in_sets st s \<longleftrightarrow> (\<exists>d p. rs_base st d p = Some s) \<or> (\<exists>r \<in> set (all_rules st). ref_set r = Some s)"

lemma in_sets_ok: "sets_ok env st \<Longrightarrow> in_sets st s \<Longrightarrow> set_ok env (all_rules st) s"
  by (auto simp: sets_ok_def in_sets_def bases_ok_def refs_ok_def)

lemma descending_before: "descending (map f (before @ i # after)) \<Longrightarrow> j \<in> set after \<Longrightarrow> f j \<le> f i"
  by (auto simp: descending_def sorted_wrt_append)

text \<open>
  C9: Whatever rules are registered, in whatever order, with whatever references and memory failures:
  the rule a set reports for a packet matches it, and no other rule of the array that matches it has a
  higher priority.
\<close>

theorem highest_priority_wins:
  assumes "installed env rs = Ret st" and "\<forall>r \<in> set rs. ref_set r = None" and "in_sets st s"
    and "rules_set_match env (all_rules st) s npt = Ret (npt', Some i)"
  shows "i \<in> set (rs_rules s) \<and> rule_hits env (all_rules st ! i) npt = Ret True \<and>
     (\<forall>j \<in> set (rs_rules s). rule_hits env (all_rules st ! j) npt = Ret True \<longrightarrow>
        priority (all_rules st ! j) \<le> priority (all_rules st ! i))"
proof -
  have ok: "set_ok env (all_rules st) s" using installed_ok [OF assms(1,2)] assms(3) by (rule in_sets_ok)
  from rules_set_match_normal [OF assms(4)] obtain npt1 where
    "normal_match env (all_rules st) (rs_rules s) npt = Ret (npt1, Some i)" by blast
  from normal_match_first [OF this] obtain before after where e: "rs_rules s = before @ i # after"
    and b: "\<forall>j \<in> set before. rule_hits env (all_rules st ! j) npt = Ret False"
    and h: "rule_hits env (all_rules st ! i) npt = Ret True" by blast
  have "priority (all_rules st ! j) \<le> priority (all_rules st ! i)"
    if "j \<in> set (rs_rules s)" "rule_hits env (all_rules st ! j) npt = Ret True" for j
  proof (cases "j = i")
    case False
    then have "j \<in> set after" using that b e by auto
    with ok e have "rank (all_rules st) j \<le> rank (all_rules st) i"
      by (auto simp: set_ok_def descending_def sorted_wrt_append)
    then show ?thesis by (simp add: rank_def word_le_nat_alt)
  qed simp
  then show ?thesis using e h by simp
qed

text \<open>An environment in which every allocation succeeds and nothing is found.\<close>

definition quiet_env :: np_env where
  "quiet_env = \<lparr>pcre_create_ok = (\<lambda>_. True), pcre_find = (\<lambda>_ _. - 1), mwm_headers = (\<lambda>_. []), mwm_calls = (\<lambda>_ _. []),
     mwm_new_ok = True, mwm_add_ok = (\<lambda>_. True), mwm_prep_ok = (\<lambda>_. True), http_prep_ok = True, kmalloc_ok = True,
     vmalloc_ok = (\<lambda>_. True), crc32 = (\<lambda>_. 0)\<rparr>"

definition udp_packet :: np_packet where
  "udp_packet = \<lparr>pmem = replicate 48 0, l7_ptr = 0, l7_len = 48, pk_proto = 17, pk_dir = 1, pk_saddr = 1, pk_daddr = 2,
     pk_sport = 68, pk_dport = 123, du_type = 0, headers_range = (\<lambda>_. (0, 0))\<rparr>"

definition two_rules :: np_rules where
  "two_rules = (case installed quiet_env [inner_NTP, inner_dhcp\<lparr>priority := 5\<rparr>] of Ret st \<Rightarrow> st | Fault _ \<Rightarrow> no_rules)"

lemmas eval_rules = installed_def rules_build_def build_index_def np_rule_register_def rule_compile_def set_add_base_rule_def
  set_add_rule_def set_add_rule_normal_def set_add_rule_normal_sorted_def set_compile_def add_refs_def prio_of_def np_proto_to_set_def
  no_rules_def set_alloc_def quiet_env_def NP_SET_GROW_COUNT_def NP_RULES_COUNT_MAX_def NP_RULE_PRI_MIN_def NP_RULE_PRI_MAX_def
  IPPROTO_TCP_def IPPROTO_UDP_def NP_FLOW_DIR_ANY_def NP_FLOW_DIR_C2S_def NP_FLOW_DIR_S2C_def

lemmas rule_defs = inner_NTP_def inner_dhcp_def no_rule_def on_ports_def no_l4_def no_l7_def no_len_def len_list_def

lemma insert_pos_one: "insert_pos [65535] 5 0 0 = 0" "insert_pos [] 5 0 (- 1) = - 1"
  by (simp_all add: insert_pos.simps)

lemmas two_rules_eval = eval_rules rule_defs insert_pos_one Let_def rule_patterns_def one_rex_def insert_at_def

lemma two_rules_installed: "installed quiet_env [inner_NTP, inner_dhcp\<lparr>priority := 5\<rparr>] = Ret two_rules"
proof -
  have "(case installed quiet_env [inner_NTP, inner_dhcp\<lparr>priority := 5\<rparr>] of Ret st \<Rightarrow> True | Fault _ \<Rightarrow> False)"
    by (simp add: two_rules_eval)
  then show ?thesis by (simp add: two_rules_def split: run.splits)
qed

lemma two_rules_set: "rs_base two_rules 1 NP_SET_BASE_UDP = Some (set_alloc\<lparr>rs_capacity := 64, rs_rules := [0, 1]\<rparr>)"
  by (simp add: two_rules_def two_rules_eval)

lemma two_rules_rules: "all_rules two_rules = [inner_NTP, inner_dhcp\<lparr>priority := 5\<rparr>]"
  by (simp add: two_rules_def two_rules_eval)

lemma NTP_match: "rule_one_match env inner_NTP udp_packet = Ret (udp_packet, True)"
  by (simp add: rule_defs rule_one_match_def rule_hits_def l4_matches_def l7_matches_def len_info_match_def udp_packet_def
      pad_def MAX_L4_PORTS_def MAX_L4_ADDRS_def run_callback_def NP_FLOW_DIR_C2S_def Let_def)

lemma two_rules_match:
  "rules_set_match quiet_env (all_rules two_rules) (set_alloc\<lparr>rs_capacity := 64, rs_rules := [0, 1]\<rparr>) udp_packet = Ret (udp_packet, Some 0)"
  by (simp add: two_rules_rules rules_set_match_def NTP_match)

theorem highest_priority_wins_witness:
  "\<exists>s. in_sets two_rules s \<and> rule_hits quiet_env (all_rules two_rules ! 0) udp_packet = Ret True \<and>
     (\<forall>j \<in> {0, 1}. rule_hits quiet_env (all_rules two_rules ! j) udp_packet = Ret True \<longrightarrow>
        priority (all_rules two_rules ! j) \<le> priority (all_rules two_rules ! 0))"
proof -
  let ?s = "set_alloc\<lparr>rs_capacity := 64, rs_rules := [0, 1]\<rparr>"
  have s: "in_sets two_rules ?s" using two_rules_set by (auto simp: in_sets_def)
  have "\<forall>r \<in> set [inner_NTP, inner_dhcp\<lparr>priority := 5\<rparr>]. ref_set r = None" by (simp add: rule_defs)
  from highest_priority_wins [OF two_rules_installed this s two_rules_match] show ?thesis using s by auto
qed

section \<open>Rules behind the multi-pattern search\<close>

lemma rules_set_match_ok:
  assumes "set_ok env (all_rules st) s" and "rules_set_match env (all_rules st) s npt = Ret (npt', Some i)"
  shows "i < length (all_rules st) \<and> direct env (all_rules st ! i)"
proof -
  from rules_set_match_normal [OF assms(2)] obtain npt1 where
    "normal_match env (all_rules st) (rs_rules s) npt = Ret (npt1, Some i)" by blast
  from normal_match_first [OF this] have "i \<in> set (rs_rules s)" by auto
  then show ?thesis using assms(1) by (auto simp: set_ok_def)
qed

lemma ref_match_ok:
  assumes "sets_ok env st" and "\<And>b. r = Some b \<Longrightarrow> b < length (all_rules st)" and "ref_match env st r npt = Ret (npt', Some i)"
  shows "i < length (all_rules st) \<and> direct env (all_rules st ! i)"
proof -
  from assms(3) obtain b s where b: "r = Some b" "ref_set (all_rules st ! b) = Some s"
    and m: "rules_set_match env (all_rules st) s npt = Ret (npt', Some i)"
    by (auto simp: ref_match_def split: option.splits)
  have "set_ok env (all_rules st) s" using assms(1,2) b by (auto simp: sets_ok_def refs_ok_def)
  then show ?thesis using m by (rule rules_set_match_ok)
qed

lemma identify_ok:
  assumes ok: "sets_ok env st" and m: "identify env st proto npt = Ret (npt', Some i)"
  shows "i < length (all_rules st) \<and> direct env (all_rules st ! i)"
proof -
  from m obtain s where s: "rs_base st (pk_dir npt) (np_proto_to_set (pk_proto npt)) = Some s"
    by (auto simp: identify_def split: option.splits)
  have so: "set_ok env (all_rules st) s" using ok s by (auto simp: sets_ok_def bases_ok_def)
  show ?thesis
  proof (cases "proto = 0")
    case True
    with m s obtain npt1 b npt2 r where b: "rules_set_match env (all_rules st) s npt = Ret (npt1, b)"
      and r: "ref_match env st b npt1 = Ret (npt2, r)" and i: "Some i = (if r = None then b else r)"
      by (auto simp: identify_def run_bind_eq_Ret)
    show ?thesis
    proof (cases r)
      case None
      with i b show ?thesis using rules_set_match_ok [OF so, of npt npt1 i] by simp
    next
      case (Some j)
      with i r have "ref_match env st b npt1 = Ret (npt2, Some i)" by simp
      then show ?thesis using b rules_set_match_ok [OF so] by (intro ref_match_ok [OF ok, of b]) auto
    qed
  next
    case False
    with m s obtain b where b: "get_rule_by_id st proto = Ret b" and r: "ref_match env st b npt = Ret (npt', Some i)"
      by (auto simp: identify_def run_bind_eq_Ret)
    have "c < length (all_rules st)" if "b = Some c" for c
      using b that by (auto simp: get_rule_by_id_def run_bind_eq_Ret split: if_splits)
    then show ?thesis using r by (rule ref_match_ok [OF ok])
  qed
qed

text \<open>The rules of an installed state are the registered ones, compiled, with their reference sets.\<close>

definition stems_from :: "np_env \<Rightarrow> np_rule list \<Rightarrow> np_rule \<Rightarrow> bool" where
  "stems_from env rs r \<longleftrightarrow> (\<exists>r0 \<in> set rs. \<exists>r1. rule_compile env r0 = Ret (Some r1) \<and> same_rule r1 r)"

lemma stems_fromI: "rule_compile env r = Ret (Some r1) \<Longrightarrow> r \<in> set rs \<Longrightarrow> stems_from env rs r1"
  by (auto simp: stems_from_def intro: same_rule_refl)

lemma set_add_base_rule_rules [simp]: "all_rules (fst (set_add_base_rule env d p i st)) = all_rules st"
  by (simp add: set_add_base_rule_def split: prod.splits)

lemma set_add_base_rule_rules': "set_add_base_rule env d p i st = (st', n) \<Longrightarrow> all_rules st' = all_rules st"
  using set_add_base_rule_rules [of env d p i st] by simp

lemma np_rule_register_rules:
  assumes "np_rule_register env r st = Ret (st', n)"
  shows "all_rules st' = all_rules st \<or> (\<exists>r1. rule_compile env r = Ret (Some r1) \<and> all_rules st' = all_rules st @ [r1])"
proof -
  from assms obtain c where c: "rule_compile env r = Ret c" by (auto simp: np_rule_register_def run_bind_eq_Ret)
  show ?thesis
  proof (cases c)
    case None
    then show ?thesis using assms c by (simp add: np_rule_register_def)
  next
    case (Some r1)
    then show ?thesis
      using assms c
      by (auto simp: np_rule_register_def Let_def run_bind_assertion dest!: set_add_base_rule_rules' split: if_splits prod.splits)
  qed
qed

lemma register_all_rules:
  "register_all env rs st = Ret st' \<Longrightarrow> set rs \<subseteq> set all \<Longrightarrow> \<forall>r \<in> set (all_rules st). stems_from env all r \<Longrightarrow>
     \<forall>r \<in> set (all_rules st'). stems_from env all r"
proof (induction rs arbitrary: st)
  case (Cons r rs)
  from Cons.prems(1) obtain st1 n where r: "np_rule_register env r st = Ret (st1, n)" "register_all env rs st1 = Ret st'"
    by (auto simp: run_bind_eq_Ret)
  have "\<forall>r \<in> set (all_rules st1). stems_from env all r"
    using np_rule_register_rules [OF r(1)] Cons.prems(2,3) by (auto intro: stems_fromI)
  with Cons.IH [OF r(2)] Cons.prems(2) show ?case by simp
qed simp

lemma rules_build_extends:
  assumes "rules_build env st = Ret st'"
  shows "extends (all_rules st) (all_rules st') \<and> length (all_rules st') = length (all_rules st)"
proof -
  define rs where "rs = fold (add_refs env) [0..<length (all_rules st)] (all_rules st)"
  have "grown env (all_rules st) rs"
    unfolding rs_def by (rule grown_fold [where n = "length (all_rules st)"]) (auto intro: add_refs_grown)
  moreover have "all_rules st' = map (\<lambda>r. r\<lparr>ref_set := map_option (set_compile env) (ref_set r)\<rparr>) rs"
    using assms by (auto simp: rules_build_def run_bind_eq_Ret Let_def rs_def)
  ultimately show ?thesis using extends_trans [OF _ extends_map] by (auto simp: grown_def)
qed

lemma installed_stems:
  assumes "installed env rs = Ret st" and "r \<in> set (all_rules st)"
  shows "stems_from env rs r"
proof -
  from assms(1) obtain st0 where r: "register_all env rs no_rules = Ret st0" and b: "rules_build env st0 = Ret st"
    by (auto simp: installed_def run_bind_eq_Ret)
  have "\<forall>r \<in> set (all_rules st0). stems_from env rs r"
    by (rule register_all_rules [OF r]) (simp_all add: no_rules_def)
  moreover from assms(2) obtain k where k: "k < length (all_rules st)" "r = all_rules st ! k" by (auto simp: in_set_conv_nth)
  ultimately have "stems_from env rs (all_rules st0 ! k)" "same_rule (all_rules st0 ! k) r"
    using rules_build_extends [OF b] by (auto simp: extends_def)
  then show ?thesis by (auto simp: stems_from_def intro: same_rule_trans)
qed

text \<open>Compiling leaves what decides over the search, but for the length of a pattern.\<close>

lemma ctm_init_keeps:
  assumes "ctm_init env m = Ret (m', r)" and "takeWhile (\<lambda>c. c \<noteq> 0) (mt_patt m) \<noteq> []" and "mt_length m = 0"
  shows "mt_type m' = mt_type m \<and> mt_length m' = length (takeWhile (\<lambda>c. c \<noteq> 0) (mt_patt m))"
  using assms by (auto simp: ctm_init_def Let_def run_bind_eq_Ret split: match_type.splits if_splits)

lemma rule_compile_http:
  assumes "rule_compile env r = Ret (Some r')" and "enable_http r" and "htpm (r_http r) = h # hs"
  shows "enable_http r' \<and> htp_relation (r_http r') = htp_relation (r_http r) \<and>
     (\<exists>m c hs'. ctm_init env (hm_match h) = Ret (m, c) \<and> htpm (r_http r') = h\<lparr>hm_match := m\<rparr> # hs')"
  using assms by (auto simp: rule_compile_def run_bind_eq_Ret split: if_splits)

lemma byte_zero: "(of_char c :: u8) = 0 \<longleftrightarrow> c = CHR 0x00"
proof
  assume h: "(of_char c :: u8) = 0"
  have "(of_char c :: nat) < 2 ^ LENGTH(8)" by simp
  then have "unat (of_nat (of_char c) :: u8) = of_char c" by (simp add: unat_of_nat)
  moreover have "(of_nat (of_char c) :: u8) = of_char c" by (rule of_nat_of_char)
  ultimately have "(of_char c :: nat) = of_char (CHR 0x00)" by (simp add: h)
  then show "c = CHR 0x00" by (simp only: of_char_eq_iff)
qed simp

lemma host_rule_searched:
  assumes "rule_compile env r = Ret (Some r')" and "enable_http r" and "htp_relation (r_http r) = NP_CTM_OR"
    and "htpm (r_http r) = host_search s # hs" and "4 \<le> length s" and "CHR 0x00 \<notin> set s"
  shows "searched r'"
proof -
  from rule_compile_http [OF assms(1,2,4)] assms(3) obtain m c hs' where
    m: "ctm_init env (hm_match (host_search s)) = Ret (m, c)" and
    h: "htpm (r_http r') = (host_search s)\<lparr>hm_match := m\<rparr> # hs'" "enable_http r'" "htp_relation (r_http r') = NP_CTM_OR" by auto
  have z: "of_char ch \<noteq> (0 :: u8)" if "ch \<in> set s" for ch
    using that assms(6) byte_zero by metis
  then have t: "takeWhile (\<lambda>c. c \<noteq> 0) (bytes_of s) = bytes_of s" by (auto simp: bytes_of_def takeWhile_eq_all_conv)
  have e: "mt_patt (hm_match (host_search s)) = bytes_of s" "mt_type (hm_match (host_search s)) = MHTP_SEARCH"
    "mt_length (hm_match (host_search s)) = 0" by (simp_all add: host_search_def zero_match_def)
  have "length (bytes_of s) = length s" "bytes_of s \<noteq> []" using assms(5) by (auto simp: bytes_of_def)
  then have "searchable m" using ctm_init_keeps [OF m, unfolded e t] assms(5) by (simp add: searchable_def)
  then show ?thesis using h by (simp add: searched_def rule_patterns_def host_search_def)
qed

lemma rule_compile_ID: "rule_compile env r = Ret (Some r') \<Longrightarrow> r_ID r' = r_ID r"
  by (auto simp: rule_compile_def run_bind_eq_Ret split: if_splits)

lemma builtin_weibo: "r \<in> set builtin \<Longrightarrow> r_ID r = NP_INNER_RULE_HTTP_WEIBO \<Longrightarrow> r = inner_http_weibo"
  by (auto simp: builtin_def NP_INNER_RULE_HTTP_WEIBO_def NP_INNER_RULE_HTTP_REQ_def NP_INNER_RULE_HTTP_REP_def
      NP_INNER_RULE_HTTP_SVN_def inner_http_req_def inner_http_rep_def inner_http_svn_def inner_pop3_def inner_smtp_def
      inner_ssh_def inner_ssl_def inner_ftp_def inner_dhcp_def inner_SMB_def inner_RDP_def inner_SIP_def inner_NTP_def
      inner_VNC_def inner_GTalk_def inner_mysql_def)

lemma weibo_searched:
  assumes "rule_compile env inner_http_weibo = Ret (Some r)"
  shows "searched r"
  using assms
  by (rule host_rule_searched [where s = "''.weibo.com''"]) (simp_all add: inner_http_weibo_def pad_def)

lemma builtin_refs: "\<forall>r \<in> set builtin. ref_set r = None"
  by (simp add: builtin_def inner_http_req_def inner_http_rep_def inner_http_svn_def inner_http_weibo_def inner_pop3_def inner_smtp_def
      inner_ssh_def inner_ssl_def inner_ftp_def inner_dhcp_def inner_SMB_def inner_RDP_def inner_SIP_def inner_NTP_def
      inner_VNC_def inner_GTalk_def inner_mysql_def no_rule_def)

subsection \<open>Installing does not fail\<close>

lemma bmh_fill_Ret: "k + r \<le> length patt \<Longrightarrow> \<exists>d'. bmh_fill patt m k r d = Ret d'"
  by (induction r arbitrary: k d) (auto simp: rd_def)

lemma BMHInit_Ret: "n \<le> length patt \<Longrightarrow> \<exists>b. BMHInit patt n = Ret b"
  using bmh_fill_Ret [of 0 "n - 1" patt n "replicate MAXCHAR n"] by (force simp: BMHInit_def)

definition bmh_of :: "u8 list \<Rightarrow> nat \<Rightarrow> bmh" where
  "bmh_of patt n = (case BMHInit patt n of Ret b \<Rightarrow> b | Fault _ \<Rightarrow> bmhLine)"

lemma BMHInit_bmh_of: "n \<le> length patt \<Longrightarrow> BMHInit patt n = Ret (bmh_of patt n)"
  using BMHInit_Ret [of n patt] by (auto simp: bmh_of_def)

lemma ctm_init_Ret:
  assumes "mt_length m \<le> length (mt_patt m)"
  shows "\<exists>m' r. ctm_init env m = Ret (m', r) \<and> mt_length m' \<le> length (mt_patt m')"
  using assms length_takeWhile_le [of "\<lambda>c. c \<noteq> 0" "mt_patt m"]
  by (auto simp: ctm_init_def Let_def zero_match_def BMHInit_bmh_of split: match_type.splits)

definition terminated :: "np_rule \<Rightarrow> bool" where
  "terminated r \<longleftrightarrow> (\<forall>c \<in> set (ctm (r_l7 r)). mt_length (cm_wrap c) \<le> length (mt_patt (cm_wrap c)) \<and>
       mt_length (cm_match c) \<le> length (mt_patt (cm_match c))) \<and>
     (\<forall>h \<in> set (htpm (r_http r)). mt_length (hm_match h) \<le> length (mt_patt (hm_match h)))"

lemma compile_contents_Ret:
  "\<forall>c \<in> set cs. mt_length (cm_wrap c) \<le> length (mt_patt (cm_wrap c)) \<and> mt_length (cm_match c) \<le> length (mt_patt (cm_match c)) \<Longrightarrow>
     \<exists>cs'. compile_contents env cs = Ret cs'"
proof (induction cs)
  case (Cons c cs)
  then obtain w rw m rm cs' where "ctm_init env (cm_wrap c) = Ret (w, rw)" "ctm_init env (cm_match c) = Ret (m, rm)"
    "compile_contents env cs = Ret cs'"
    using ctm_init_Ret [of "cm_wrap c" env] ctm_init_Ret [of "cm_match c" env] by auto
  then show ?case by simp
qed simp

lemma compile_http_Ret:
  "\<forall>h \<in> set hs. mt_length (hm_match h) \<le> length (mt_patt (hm_match h)) \<Longrightarrow> \<exists>hs'. compile_http env hs = Ret hs'"
proof (induction hs)
  case (Cons h hs)
  then obtain m r hs' where "ctm_init env (hm_match h) = Ret (m, r)" "compile_http env hs = Ret hs'"
    using ctm_init_Ret [of "hm_match h" env] by auto
  then show ?case by simp
qed simp

lemma rule_compile_Ret: "terminated r \<Longrightarrow> \<exists>c. rule_compile env r = Ret c"
  using compile_contents_Ret [of "ctm (r_l7 r)" env] compile_http_Ret [of "htpm (r_http r)" env]
  by (auto simp: rule_compile_def terminated_def)

text \<open>
  C35: The built-in rule for weibo is in the multi-pattern search for hosts, whose finds are lost:
  whichever of the built-in rules are registered, when the search takes the patterns, no packet of any
  flow is identified as weibo.
\<close>

theorem weibo_never_identified:
  assumes "set rs \<subseteq> set builtin" and "installed env rs = Ret st"
    and "mwm_new_ok env" and "mwm_add_ok env = (\<lambda>_. True)"
    and "identify env st proto npt = Ret (npt', Some i)"
  shows "i < length (all_rules st) \<and> r_ID (all_rules st ! i) \<noteq> NP_INNER_RULE_HTTP_WEIBO"
proof -
  have "\<forall>r \<in> set rs. ref_set r = None" using builtin_refs assms(1) by auto
  from identify_ok [OF installed_ok [OF assms(2) this] assms(5)]
  have i: "i < length (all_rules st)" and d: "\<not> searched (all_rules st ! i)"
    using assms(3,4) by (auto simp: direct_def search_ok_def)
  from installed_stems [OF assms(2), of "all_rules st ! i"] i assms(1) obtain r0 r1 where
    r: "r0 \<in> set builtin" "rule_compile env r0 = Ret (Some r1)" "same_rule r1 (all_rules st ! i)"
    by (auto simp: stems_from_def)
  have "r_ID (all_rules st ! i) = r_ID r1" by (rule same_rule_keeps [OF r(3), where f = r_ID]) simp
  moreover have "searched (all_rules st ! i) = searched r1"
    by (rule same_rule_keeps [OF r(3), where f = searched]) (simp add: searched_def rule_patterns_def)
  ultimately show ?thesis
    using i d r(1,2) rule_compile_ID [OF r(2)] builtin_weibo [of r0] weibo_searched [of env r1] by auto
qed

lemma rule_compile_form:
  assumes "rule_compile env r = Ret (Some r')"
  shows "\<exists>cs hs. r' = r\<lparr>r_l7 := (r_l7 r)\<lparr>ctm := cs\<rparr>, r_http := (r_http r)\<lparr>htpm := hs\<rparr>, r_crc := crc32 env (name_app r)\<rparr>"
proof (cases "proto_init r = OnHttpHdr \<and> \<not> http_init env")
  case True
  then show ?thesis using assms by (simp add: rule_compile_def)
next
  case False
  then show ?thesis using assms unfolding rule_compile_def if_not_P [OF False] run_bind_eq_Ret by blast
qed

lemma NTP_plain: "r_ID inner_NTP = 15" "refs_packet inner_NTP = False" "refs_flow inner_NTP = False" "ref_set inner_NTP = None"
  by (simp_all add: rule_defs)

lemma weibo_ntp_installed:
  "\<exists>st. installed quiet_env [inner_http_weibo, inner_NTP] = Ret st \<and> all_rules st ! 1 = inner_NTP \<and>
     (\<exists>s. rs_base st 1 NP_SET_BASE_UDP = Some s \<and> rs_rules s = [1])"
proof -
  have "\<exists>r. rule_compile quiet_env inner_http_weibo = Ret (Some r)"
    by (simp add: inner_http_weibo_def no_rule_def rule_compile_def ctm_init_def pad_def MAX_CT_MATCH_NUM_def
        host_search_def zero_match_def bytes_of_def BMHInit_bmh_of Let_def quiet_env_def no_htpm_def numeral_eq_Suc)
  then obtain r where r: "rule_compile quiet_env inner_http_weibo = Ret (Some r)" by blast
  obtain cs hs where e: "r = inner_http_weibo\<lparr>r_l7 := (r_l7 inner_http_weibo)\<lparr>ctm := cs\<rparr>,
      r_http := (r_http inner_http_weibo)\<lparr>htpm := hs\<rparr>, r_crc := crc32 quiet_env (name_app inner_http_weibo)\<rparr>"
    using rule_compile_form [OF r] by blast
  let ?st = "no_rules\<lparr>all_rules := [r]\<rparr>"
  have f: "is_base r = False" "r_ID r = 5" "refs_packet r" "takeWhile (\<lambda>x. x \<noteq> 0) (ID_REFs r) = [1]" "ref_set r = None"
    by (simp_all add: e inner_http_weibo_def no_rule_def pad_def MAX_REF_IDs_def NP_INNER_RULE_HTTP_WEIBO_def NP_INNER_RULE_HTTP_REQ_def
        numeral_eq_Suc)
  have one: "np_rule_register quiet_env inner_http_weibo no_rules = Ret (?st, 0)"
    using r f by (simp add: np_rule_register_def no_rules_def NP_RULES_COUNT_MAX_def Let_def)
  have c: "rule_compile quiet_env inner_NTP = Ret (Some inner_NTP)" by (simp add: rule_compile_def rule_defs quiet_env_def)
  have two: "np_rule_register quiet_env inner_NTP ?st = Ret (no_rules\<lparr>all_rules := [r, inner_NTP],
      rs_base := (\<lambda>_ _. None)(1 := (\<lambda>_. None)(NP_SET_BASE_UDP := Some (set_alloc\<lparr>rs_capacity := 64, rs_rules := [1]\<rparr>)))\<rparr>, 0)"
    using c by (simp add: np_rule_register_def no_rules_def two_rules_eval)
  let ?base = "(\<lambda>_ _. None)(1 := (\<lambda>_. None)(NP_SET_BASE_UDP := Some (set_alloc\<lparr>rs_capacity := 64, rs_rules := [1]\<rparr>)))"
  have "rules_build quiet_env (no_rules\<lparr>all_rules := [r, inner_NTP], rs_base := ?base\<rparr>) =
     Ret (no_rules\<lparr>all_rules := [r, inner_NTP], id_to_index := (\<lambda>_. 0)(5 := 0, 15 := 1), rs_base := ?base\<rparr>)"
    using f by (simp add: rules_build_def build_index_def NTP_plain add_refs_def add_ref_def NP_RULES_COUNT_MAX_def
        no_rules_def set_compile_def set_alloc_def fun_eq_iff)
  then have "installed quiet_env [inner_http_weibo, inner_NTP] =
     Ret (no_rules\<lparr>all_rules := [r, inner_NTP], id_to_index := (\<lambda>_. 0)(5 := 0, 15 := 1), rs_base := ?base\<rparr>)"
    by (simp add: installed_def one two)
  then show ?thesis by simp
qed

theorem weibo_never_identified_witness:
  "\<exists>st npt' i. installed quiet_env [inner_http_weibo, inner_NTP] = Ret st \<and> identify quiet_env st 0 udp_packet = Ret (npt', Some i) \<and>
     r_ID (all_rules st ! i) \<noteq> NP_INNER_RULE_HTTP_WEIBO"
proof -
  from weibo_ntp_installed obtain st s where st: "installed quiet_env [inner_http_weibo, inner_NTP] = Ret st"
    "all_rules st ! 1 = inner_NTP" "rs_base st 1 NP_SET_BASE_UDP = Some s" "rs_rules s = [1]" by blast
  have id: "identify quiet_env st 0 udp_packet = Ret (udp_packet, Some 1)"
    using st NTP_match [of quiet_env] NTP_plain
    by (simp add: identify_def udp_packet_def np_proto_to_set_def IPPROTO_TCP_def IPPROTO_UDP_def rules_set_match_def ref_match_def)
  have "set [inner_http_weibo, inner_NTP] \<subseteq> set builtin" by (simp add: builtin_def)
  from weibo_never_identified [OF this st(1) _ _ id] show ?thesis using st(1) id by (auto simp: quiet_env_def)
qed

section \<open>The built-in rules\<close>

lemma np_rule_register_Ret:
  assumes "terminated r" and "l7_dir (r_l7 r) < 3"
  shows "\<exists>st' n. np_rule_register env r st = Ret (st', n)"
proof -
  obtain c where c: "rule_compile env r = Ret c" using rule_compile_Ret [OF assms(1)] by blast
  have "l7_dir (r_l7 r') = l7_dir (r_l7 r)" if "c = Some r'" for r'
    using c that by (auto simp: rule_compile_def run_bind_eq_Ret split: if_splits)
  then show ?thesis
    using assms(2) c
    by (cases c) (auto simp: np_rule_register_def Let_def run_bind_assertion split: prod.splits)
qed

lemma register_all_Ret:
  "\<forall>r \<in> set rs. terminated r \<and> l7_dir (r_l7 r) < 3 \<Longrightarrow> \<exists>st'. register_all env rs st = Ret st'"
proof (induction rs arbitrary: st)
  case (Cons r rs)
  then obtain st1 n where "np_rule_register env r st = Ret (st1, n)" using np_rule_register_Ret [of r env st] by auto
  moreover obtain st' where "register_all env rs st1 = Ret st'" using Cons by auto
  ultimately show ?case by simp
qed simp

lemma installed_Ret:
  assumes "\<forall>r \<in> set rs. terminated r \<and> l7_dir (r_l7 r) < 3 \<and> r_ID r < NP_RULES_COUNT_MAX"
  shows "\<exists>st. installed env rs = Ret st"
proof -
  obtain st where st: "register_all env rs no_rules = Ret st" using register_all_Ret [of rs env no_rules] assms by auto
  have "\<forall>r \<in> set (all_rules st). stems_from env rs r"
    by (rule register_all_rules [OF st]) (simp_all add: no_rules_def)
  then have "\<forall>r \<in> set (all_rules st). r_ID r < NP_RULES_COUNT_MAX"
    using assms same_rule_keeps [where f = r_ID] rule_compile_ID by (fastforce simp: stems_from_def)
  then show ?thesis by (simp add: installed_def st rules_build_def build_index_def Let_def)
qed

lemma zero_match_terminated: "mt_length zero_match = 0" "mt_length (cm_match (rex off deep p)) = 0"
  "mt_length (cm_wrap (rex off deep p)) = 0" "mt_length (hm_match (host_search p)) = 0" "mt_length (hm_match no_htpm) = 0"
  by (simp_all add: zero_match_def rex_def host_search_def no_htpm_def)

text \<open>Patterns of the initialisers have the length 0: they are strings.\<close>

lemma builtin_terminated: "\<forall>r \<in> set builtin. terminated r"
  by (simp add: builtin_def inner_http_req_def inner_http_rep_def inner_http_svn_def inner_http_weibo_def inner_pop3_def inner_smtp_def
      inner_ssh_def inner_ssl_def inner_ftp_def inner_dhcp_def inner_SMB_def inner_RDP_def inner_SIP_def inner_NTP_def
      inner_VNC_def inner_GTalk_def inner_mysql_def no_rule_def terminated_def one_rex_def no_l7_def no_http_def pad_def
      zero_match_terminated)

lemma builtin_ranges: "\<forall>r \<in> set builtin. l7_dir (r_l7 r) < 3 \<and> r_ID r < NP_RULES_COUNT_MAX"
  by (simp add: builtin_def inner_http_req_def inner_http_rep_def inner_http_svn_def inner_http_weibo_def inner_pop3_def inner_smtp_def
      inner_ssh_def inner_ssl_def inner_ftp_def inner_dhcp_def inner_SMB_def inner_RDP_def inner_SIP_def inner_NTP_def
      inner_VNC_def inner_GTalk_def inner_mysql_def no_rule_def one_rex_def no_l7_def NP_RULES_COUNT_MAX_def
      NP_FLOW_DIR_ANY_def NP_FLOW_DIR_C2S_def NP_FLOW_DIR_S2C_def NP_INNER_RULE_HTTP_REQ_def NP_INNER_RULE_HTTP_REP_def
      NP_INNER_RULE_HTTP_SVN_def NP_INNER_RULE_HTTP_WEIBO_def)

text \<open>
  Starting the protocol identification stops at no assertion and no bad access, whichever allocations
  fail.
\<close>

lemma builtin_installs: "\<exists>st. run_bind (inner_rules_init env no_rules) (rules_build env) = Ret st"
  using installed_Ret [of builtin env] builtin_terminated builtin_ranges by (simp add: installed_def inner_rules_init_def)

end
