(* ===== verification/Nproto_Stat.thy ===== *)
theory Nproto_Stat
  imports Flow_Flags
begin

text \<open>
  The traffic statistics of the protocol identification (\<open>drivers/nproto/src/statistic.c\<close>): the
  counters of flows and users, the hash tables of sampled nodes with their timers, and the flush into
  the memory shared with user space (\<open>include/src/ntrack_stat.h\<close>). The counters live in the node
  header of the kernel's tracker, which is not in the repository; they have the width of the
  \<open>stat_data_t\<close> they are copied to. \<open>unsigned long\<close> is 32 bits wide. Locks are not represented: every
  operation is one step.
\<close>

section \<open>Data\<close>

definition STAT_HASH_WIDTH_FLOW :: nat where "STAT_HASH_WIDTH_FLOW = 512"
definition STAT_HASH_WIDTH_USER :: nat where "STAT_HASH_WIDTH_USER = 64"

datatype stat_type = STAT_TYPE_FLOW | STAT_TYPE_USER

record counters =
  recv_pkts :: u64
  recv_bytes :: u64
  xmit_pkts :: u64
  xmit_bytes :: u64

record rates =
  recv_pkts_rt :: u32
  recv_bytes_rt :: u32
  xmit_pkts_rt :: u32
  xmit_bytes_rt :: u32

record stat_data =
  sd_id :: u32
  sd_magic :: u32
  sd_type :: stat_type
  active_stamp :: u32
  sd_cnt :: counters
  sd_rt :: rates

text \<open>A flow or a user: its identity, the flag \<open>STATISTIC\<close> and the counters.\<close>

record tracked =
  t_id :: u32
  t_magic :: u32
  t_stat :: bool
  t_cnt :: counters

text \<open>\<open>nd_ptr\<close> is the place of the flow or user, \<open>nd_timer\<close> the time the touch timer expires, if it runs.\<close>

record stat_node =
  nd_data :: stat_data
  nd_ptr :: nat
  nd_timer :: "u32 option"

text \<open>The shared memory; \<open>si_data\<close> is what it has room for behind the header.\<close>

record stat_info =
  nr_active_flow :: nat
  offset_stat_flow :: nat
  nr_active_user :: nat
  offset_stat_user :: nat
  si_data :: "stat_data list"

record stat_world =
  w_tracked :: "stat_type \<Rightarrow> nat \<Rightarrow> tracked"
  w_hash :: "stat_type \<Rightarrow> nat \<Rightarrow> stat_node list"
  w_info :: stat_info
  w_prev :: "stat_type option"

text \<open>
  What the kernel decides: the clock, the ticks per second, whether a node can be allocated, the rates
  in newly allocated memory, and whether timers run on several processors.
\<close>

record stat_env =
  jiffies :: u32
  HZ :: u32
  node_ok :: bool
  garbage :: rates
  smp :: bool

definition hash_width :: "stat_type \<Rightarrow> nat" where
  "hash_width t = (case t of STAT_TYPE_FLOW \<Rightarrow> STAT_HASH_WIDTH_FLOW | STAT_TYPE_USER \<Rightarrow> STAT_HASH_WIDTH_USER)"

definition STAT_TIMEOUT_TOUCH :: "stat_env \<Rightarrow> u32" where "STAT_TIMEOUT_TOUCH e = 3 * HZ e"
definition STAT_TIMEOUT_ACTIVE :: "stat_env \<Rightarrow> u32" where "STAT_TIMEOUT_ACTIVE e = 60 * HZ e"

definition zero_counters :: counters where
  "zero_counters = \<lparr>recv_pkts = 0, recv_bytes = 0, xmit_pkts = 0, xmit_bytes = 0\<rparr>"

section \<open>Rates\<close>

definition grand_realtime :: "u64 \<Rightarrow> u64 \<Rightarrow> u32 \<Rightarrow> u32" where
  "grand_realtime now prev elapse =
     (let grand = (if now < prev then - 1 - prev + now else now - prev); e = ucast elapse; q = grand div e
      in if q \<noteq> 0 then ucast q else if grand mod e \<noteq> 0 then 1 else 0)"

definition stat_hash :: "u32 \<Rightarrow> u32 \<Rightarrow> nat \<Rightarrow> nat" where
  "stat_hash a b w = unat (a * b) mod w"

section \<open>Sampling\<close>

definition is_node :: "u32 \<Rightarrow> u32 \<Rightarrow> stat_node \<Rightarrow> bool" where
  "is_node id' magic n \<longleftrightarrow> sd_id (nd_data n) = id' \<and> sd_magic (nd_data n) = magic"

text \<open>\<open>stat_node_find\<close>: the bucket with the node, first in it when it is new; None when there is no memory.\<close>

definition stat_node_find :: "stat_env \<Rightarrow> stat_type \<Rightarrow> u32 \<Rightarrow> u32 \<Rightarrow> nat \<Rightarrow> stat_node list \<Rightarrow> stat_node list option" where
  "stat_node_find e t id' magic ni ns =
     (if \<exists>n \<in> set ns. is_node id' magic n then Some ns
      else if node_ok e
      then Some (\<lparr>nd_data = \<lparr>sd_id = id', sd_magic = magic, sd_type = t, active_stamp = 0, sd_cnt = zero_counters, sd_rt = garbage e\<rparr>,
                  nd_ptr = ni, nd_timer = None\<rparr> # ns)
      else None)"

text \<open>The sample itself: the counters are only read when the node was sampled before.\<close>

definition sample :: "stat_env \<Rightarrow> counters \<Rightarrow> stat_data \<Rightarrow> stat_data" where
  "sample e c d =
     (if active_stamp d \<noteq> 0 then
        (let q = (jiffies e - active_stamp d) div HZ e; elapse = (if q = 0 then 1 else q);
             rt = \<lparr>recv_pkts_rt = grand_realtime (recv_pkts c) (recv_pkts (sd_cnt d)) elapse,
                   recv_bytes_rt = grand_realtime (recv_bytes c) (recv_bytes (sd_cnt d)) elapse,
                   xmit_pkts_rt = grand_realtime (xmit_pkts c) (xmit_pkts (sd_cnt d)) elapse,
                   xmit_bytes_rt = grand_realtime (xmit_bytes c) (xmit_bytes (sd_cnt d)) elapse\<rparr>;
             busy = recv_pkts_rt rt \<noteq> 0 \<or> recv_bytes_rt rt \<noteq> 0 \<or> xmit_pkts_rt rt \<noteq> 0 \<or> xmit_bytes_rt rt \<noteq> 0
         in d\<lparr>sd_rt := rt, active_stamp := (if busy then jiffies e else active_stamp d), sd_cnt := c\<rparr>)
      else d\<lparr>active_stamp := jiffies e, sd_cnt := zero_counters\<rparr>)"

text \<open>The first node with the identity is the one that \<open>stat_node_find\<close> returns.\<close>

fun update_first :: "('a \<Rightarrow> bool) \<Rightarrow> ('a \<Rightarrow> 'a) \<Rightarrow> 'a list \<Rightarrow> 'a list" where
  "update_first P f [] = []"
| "update_first P f (x # xs) = (if P x then f x # xs else x # update_first P f xs)"

definition stat_realtime :: "stat_env \<Rightarrow> stat_type \<Rightarrow> nat \<Rightarrow> stat_world \<Rightarrow> stat_world" where
  "stat_realtime e t ni w =
     (let x = w_tracked w t ni; h = stat_hash (t_id x) (t_magic x) (hash_width t);
          w = w\<lparr>w_tracked := (w_tracked w)(t := (w_tracked w t)(ni := x\<lparr>t_stat := True\<rparr>))\<rparr>
      in case stat_node_find e t (t_id x) (t_magic x) ni (w_hash w t h) of
           None \<Rightarrow> w
         | Some ns \<Rightarrow>
             w\<lparr>w_hash := (w_hash w)(t := (w_hash w t)(h :=
                update_first (is_node (t_id x) (t_magic x))
                  (\<lambda>n. n\<lparr>nd_data := sample e (t_cnt x) (nd_data n), nd_timer := Some (jiffies e + STAT_TIMEOUT_TOUCH e)\<rparr>) ns))\<rparr>)"

section \<open>Counting\<close>

text \<open>\<open>nbytes\<close> is an \<open>int16_t\<close>.\<close>

definition count_recv :: "16 word \<Rightarrow> counters \<Rightarrow> counters" where
  "count_recv nbytes c = c\<lparr>recv_pkts := recv_pkts c + 1, recv_bytes := recv_bytes c + scast nbytes\<rparr>"

definition count_xmit :: "16 word \<Rightarrow> counters \<Rightarrow> counters" where
  "count_xmit nbytes c = c\<lparr>xmit_pkts := xmit_pkts c + 1, xmit_bytes := xmit_bytes c + scast nbytes\<rparr>"

definition upd_cnt :: "stat_type \<Rightarrow> nat \<Rightarrow> (counters \<Rightarrow> counters) \<Rightarrow> stat_world \<Rightarrow> stat_world" where
  "upd_cnt t ni f w =
     w\<lparr>w_tracked := (w_tracked w)(t := (w_tracked w t)(ni := (w_tracked w t ni)\<lparr>t_cnt := f (t_cnt (w_tracked w t ni))\<rparr>))\<rparr>"

definition realtime_unless_set :: "stat_env \<Rightarrow> stat_type \<Rightarrow> nat \<Rightarrow> stat_world \<Rightarrow> stat_world" where
  "realtime_unless_set e t ni w = (if t_stat (w_tracked w t ni) then w else stat_realtime e t ni w)"

definition stat_flow :: "stat_env \<Rightarrow> nat \<Rightarrow> bool \<Rightarrow> 16 word \<Rightarrow> stat_world \<Rightarrow> stat_world" where
  "stat_flow e fi dir nbytes w =
     realtime_unless_set e STAT_TYPE_FLOW fi
       (upd_cnt STAT_TYPE_FLOW fi (if dir then count_recv nbytes else count_xmit nbytes) w)"

definition stat_user :: "stat_env \<Rightarrow> nat \<Rightarrow> nat \<Rightarrow> bool \<Rightarrow> 16 word \<Rightarrow> stat_world \<Rightarrow> stat_world" where
  "stat_user e ui pi dir nbytes w =
     (let w = (if dir then upd_cnt STAT_TYPE_USER pi (count_recv nbytes) (upd_cnt STAT_TYPE_USER ui (count_xmit nbytes) w)
               else upd_cnt STAT_TYPE_USER ui (count_recv nbytes) (upd_cnt STAT_TYPE_USER pi (count_xmit nbytes) w))
      in realtime_unless_set e STAT_TYPE_USER pi (realtime_unless_set e STAT_TYPE_USER ui w))"

section \<open>The touch timer\<close>

definition time_after_eq :: "u32 \<Rightarrow> u32 \<Rightarrow> bool" where
  "time_after_eq a b \<longleftrightarrow> 0 \<le> sint (a - b)"

text \<open>
  \<open>stat_node_release_nolock\<close> from the timer's own function: \<open>del_timer_sync\<close> waits for the function it
  is called from when timers run on several processors.
\<close>

definition stat_node_release_nolock :: "stat_env \<Rightarrow> stat_type \<Rightarrow> nat \<Rightarrow> stat_node \<Rightarrow> stat_world \<Rightarrow> stat_world run" where
  "stat_node_release_nolock e t h n w =
     (if smp e then Fault NoFuel else Ret (w\<lparr>w_hash := (w_hash w)(t := (w_hash w t)(h := remove1 n (w_hash w t h)))\<rparr>))"

definition stat_touch_fn :: "stat_env \<Rightarrow> stat_type \<Rightarrow> nat \<Rightarrow> stat_node \<Rightarrow> stat_world \<Rightarrow> stat_world run" where
  "stat_touch_fn e t h n w =
     (let d = nd_data n; x = w_tracked w (sd_type d) (nd_ptr n)
      in if time_after_eq (jiffies e) (active_stamp d + STAT_TIMEOUT_ACTIVE e) then stat_node_release_nolock e t h n w
         else if \<not> (t_id x = sd_id d \<and> t_magic x = sd_magic d) then stat_node_release_nolock e t h n w
         else
           Ret (w\<lparr>w_hash := (w_hash w)(t := (w_hash w t)(h :=
                    update_first (\<lambda>m. m = n) (\<lambda>m. m\<lparr>nd_timer := Some (jiffies e + STAT_TIMEOUT_ACTIVE e)\<rparr>) (w_hash w t h))),
                  w_tracked := (w_tracked w)(sd_type d := (w_tracked w (sd_type d))(nd_ptr n := x\<lparr>t_stat := False\<rparr>))\<rparr>))"

section \<open>The flush\<close>

definition trav_flush_nodes_fn :: "stat_node \<Rightarrow> stat_info \<times> stat_type option \<Rightarrow> (stat_info \<times> stat_type option) run" where
  "trav_flush_nodes_fn n = (\<lambda>(info, prev).
     (let d = nd_data n; t = sd_type d
      in run_bind
           (if prev \<noteq> None \<and> prev \<noteq> Some t then
              (if nr_active_user info \<noteq> 0 then
                 (if nr_active_flow info \<noteq> 0 then Fault BugOn
                  else Ret (info\<lparr>offset_stat_user := 0, offset_stat_flow := nr_active_user info\<rparr>))
               else if nr_active_flow info \<noteq> 0
               then Ret (info\<lparr>offset_stat_flow := 0, offset_stat_user := nr_active_flow info\<rparr>)
               else Ret info)
            else Ret info) (\<lambda>info.
         (let (idx, info) = (case t of
                STAT_TYPE_FLOW \<Rightarrow> (offset_stat_flow info + nr_active_flow info, info\<lparr>nr_active_flow := nr_active_flow info + 1\<rparr>)
              | STAT_TYPE_USER \<Rightarrow> (offset_stat_user info + nr_active_user info, info\<lparr>nr_active_user := nr_active_user info + 1\<rparr>))
          in if idx < length (si_data info) then Ret (info\<lparr>si_data := (si_data info)[idx := d]\<rparr>, Some t) else Fault Undefined))))"

fun trav_nodes :: "(stat_node \<Rightarrow> 'a \<Rightarrow> 'a run) \<Rightarrow> stat_node list \<Rightarrow> 'a \<Rightarrow> 'a run" where
  "trav_nodes cb [] a = Ret a"
| "trav_nodes cb (n # ns) a = run_bind (cb n a) (trav_nodes cb ns)"

text \<open>All buckets of a table in order; the callback never asks to stop.\<close>

definition table_nodes :: "stat_type \<Rightarrow> stat_world \<Rightarrow> stat_node list" where
  "table_nodes t w = concat (map (w_hash w t) [0..<hash_width t])"

definition trav_node_locked_call :: "(stat_node \<Rightarrow> 'a \<Rightarrow> 'a run) \<Rightarrow> stat_type \<Rightarrow> stat_world \<Rightarrow> 'a \<Rightarrow> 'a run" where
  "trav_node_locked_call cb t w a = trav_nodes cb (table_nodes t w) a"

definition stat_flush_fn :: "stat_world \<Rightarrow> stat_world run" where
  "stat_flush_fn w =
     (let info = (w_info w)\<lparr>nr_active_flow := 0, offset_stat_flow := 0, nr_active_user := 0, offset_stat_user := 0\<rparr>
      in run_bind (trav_node_locked_call trav_flush_nodes_fn STAT_TYPE_USER w (info, w_prev w)) (\<lambda>a.
         run_bind (trav_node_locked_call trav_flush_nodes_fn STAT_TYPE_FLOW w a) (\<lambda>(info, prev).
           Ret (w\<lparr>w_info := info, w_prev := prev\<rparr>))))"

section \<open>Start and stop\<close>

text \<open>What \<open>stat_init\<close> and \<open>stat_exit\<close> own: the two tables, the node cache, the proc file and the flush timer.\<close>

record stat_owned =
  has_flow :: bool
  has_user :: bool
  has_cache :: bool
  has_proc :: bool
  has_flusher :: bool

definition stat_create :: "bool \<Rightarrow> bool \<Rightarrow> bool \<Rightarrow> bool" where
  "stat_create kmalloc_ok' locks_ok hash_ok \<longleftrightarrow> kmalloc_ok' \<and> locks_ok \<and> hash_ok"

definition stat_init :: "bool \<Rightarrow> bool \<Rightarrow> bool \<Rightarrow> bool \<Rightarrow> bool \<Rightarrow> (stat_owned \<times> errno option) run" where
  "stat_init flow_ok user_ok cache_ok have_dir proc_ok =
     (let none = \<lparr>has_flow = False, has_user = False, has_cache = False, has_proc = False, has_flusher = False\<rparr>
      in if \<not> flow_ok \<or> \<not> user_ok \<or> \<not> cache_ok then Ret (none, Some ENOMEM)
         else if \<not> have_dir then Fault BugOn
         else if \<not> proc_ok then Ret (none\<lparr>has_cache := True\<rparr>, Some ENOMEM)
         else Ret (\<lparr>has_flow = True, has_user = True, has_cache = True, has_proc = True, has_flusher = True\<rparr>, None))"

definition nodes_destroy :: "stat_type \<Rightarrow> stat_world \<Rightarrow> stat_world" where
  "nodes_destroy t w = w\<lparr>w_hash := (w_hash w)(t := (\<lambda>h. if h < hash_width t then [] else w_hash w t h))\<rparr>"

definition stat_exit :: "stat_world \<Rightarrow> stat_world" where
  "stat_exit w = nodes_destroy STAT_TYPE_USER (nodes_destroy STAT_TYPE_FLOW w)"

section \<open>The tables\<close>

text \<open>
  What may happen: packets are counted, a timer that has run out fires, the tables are flushed, and
  the tracker reuses the places of flows and users in any way.
\<close>

inductive stat_step :: "stat_world \<Rightarrow> stat_world \<Rightarrow> bool" where
  flow_packet: "stat_step w (stat_flow e fi dir nbytes w)"
| user_packet: "stat_step w (stat_user e ui pi dir nbytes w)"
| touch: "n \<in> set (w_hash w t h) \<Longrightarrow> nd_timer n = Some x \<Longrightarrow> time_after_eq (jiffies e) x \<Longrightarrow>
     stat_touch_fn e t h n w = Ret w' \<Longrightarrow> stat_step w w'"
| flush: "stat_flush_fn w = Ret w' \<Longrightarrow> stat_step w w'"
| tracker: "stat_step w (w\<lparr>w_tracked := f\<rparr>)"

definition stat_start :: "stat_world \<Rightarrow> bool" where
  "stat_start w \<longleftrightarrow> w_hash w = (\<lambda>_ _. []) \<and> w_prev w = None"

inductive stat_reachable :: "stat_world \<Rightarrow> bool" where
  start: "stat_start w \<Longrightarrow> stat_reachable w"
| more: "stat_reachable w \<Longrightarrow> stat_step w w' \<Longrightarrow> stat_reachable w'"

definition node_key :: "stat_node \<Rightarrow> u32 \<times> u32" where
  "node_key n = (sd_id (nd_data n), sd_magic (nd_data n))"

lemma is_node_key: "is_node a b n \<longleftrightarrow> node_key n = (a, b)"
  by (simp add: is_node_def node_key_def)

text \<open>Every node is in the bucket of its identity, once, in the table of its type, with its timer running.\<close>

definition bucket_ok :: "stat_type \<Rightarrow> nat \<Rightarrow> stat_node list \<Rightarrow> bool" where
  "bucket_ok t h ns \<longleftrightarrow> distinct (map node_key ns) \<and>
     (\<forall>n \<in> set ns. sd_type (nd_data n) = t \<and> stat_hash (sd_id (nd_data n)) (sd_magic (nd_data n)) (hash_width t) = h \<and> nd_timer n \<noteq> None)"

definition tables_ok :: "stat_world \<Rightarrow> bool" where
  "tables_ok w \<longleftrightarrow> (\<forall>t h. bucket_ok t h (w_hash w t h))"

lemma sample_keys [simp]: "sd_id (sample e c d) = sd_id d" "sd_magic (sample e c d) = sd_magic d" "sd_type (sample e c d) = sd_type d"
  by (simp_all add: sample_def Let_def)

lemma map_update_first: "(\<And>x. P x \<Longrightarrow> k (f x) = k x) \<Longrightarrow> map k (update_first P f xs) = map k xs"
  by (induction xs) auto

lemma set_update_first: "x \<in> set (update_first P f xs) \<Longrightarrow> x \<in> set xs \<or> (\<exists>y \<in> set xs. P y \<and> x = f y)"
  by (induction xs) (auto split: if_splits)

lemma tables_ok_upd:
  "tables_ok w \<Longrightarrow> bucket_ok t h ns \<Longrightarrow> tables_ok (w\<lparr>w_hash := (w_hash w)(t := (w_hash w t)(h := ns)), w_tracked := f\<rparr>)"
  by (simp add: tables_ok_def)

lemma bucket_ok_sample:
  assumes "bucket_ok t h ns" and "\<And>n. P n \<Longrightarrow> node_key (f n) = node_key n \<and> sd_type (nd_data (f n)) = sd_type (nd_data n) \<and> nd_timer (f n) \<noteq> None"
  shows "bucket_ok t h (update_first P f ns)"
proof -
  have "distinct (map node_key (update_first P f ns))"
    using assms by (simp add: bucket_ok_def map_update_first)
  moreover have "sd_type (nd_data n) = t \<and> stat_hash (sd_id (nd_data n)) (sd_magic (nd_data n)) (hash_width t) = h \<and> nd_timer n \<noteq> None"
    if "n \<in> set (update_first P f ns)" for n
    using set_update_first [OF that] assms by (auto simp: bucket_ok_def node_key_def)
  ultimately show ?thesis by (simp add: bucket_ok_def)
qed

lemma stat_realtime_ok:
  assumes "tables_ok w"
  shows "tables_ok (stat_realtime e t ni w)"
proof -
  define x where "x = w_tracked w t ni"
  define h where "h = stat_hash (t_id x) (t_magic x) (hash_width t)"
  define f where "f = (\<lambda>n :: stat_node. n\<lparr>nd_data := sample e (t_cnt x) (nd_data n), nd_timer := Some (jiffies e + STAT_TIMEOUT_TOUCH e)\<rparr>)"
  have b: "bucket_ok t h (w_hash w t h)" using assms by (simp add: tables_ok_def)
  have "bucket_ok t h (update_first (is_node (t_id x) (t_magic x)) f ns)"
    if found: "stat_node_find e t (t_id x) (t_magic x) ni (w_hash w t h) = Some ns" for ns
  proof (cases "\<exists>n \<in> set (w_hash w t h). is_node (t_id x) (t_magic x) n")
    case True
    then have "ns = w_hash w t h" using found by (simp add: stat_node_find_def)
    then show ?thesis using b by (auto simp: f_def node_key_def intro: bucket_ok_sample)
  next
    case False
    then obtain m where m: "ns = m # w_hash w t h" "is_node (t_id x) (t_magic x) m" "sd_type (nd_data m) = t"
      using found by (auto simp: stat_node_find_def is_node_def split: if_splits)
    have "(t_id x, t_magic x) \<notin> node_key ` set (w_hash w t h)" using False by (auto simp: is_node_key)
    then show ?thesis using m b by (auto simp: bucket_ok_def f_def node_key_def is_node_def h_def)
  qed
  then show ?thesis
    using assms by (auto simp: stat_realtime_def Let_def x_def h_def f_def tables_ok_def split: option.splits)
qed

lemma upd_cnt_hash [simp]: "w_hash (upd_cnt t ni f w) = w_hash w"
  by (simp add: upd_cnt_def)

lemma realtime_unless_set_ok: "tables_ok w \<Longrightarrow> tables_ok (realtime_unless_set e t ni w)"
  by (simp add: realtime_unless_set_def stat_realtime_ok)

lemma tables_ok_hash: "w_hash w' = w_hash w \<Longrightarrow> tables_ok w \<Longrightarrow> tables_ok w'"
  by (simp add: tables_ok_def)

lemma stat_touch_ok:
  assumes "tables_ok w" and "stat_touch_fn e t h n w = Ret w'"
  shows "tables_ok w'"
proof -
  have b: "bucket_ok t h (w_hash w t h)" using assms(1) by (simp add: tables_ok_def)
  have "bucket_ok t h (remove1 n (w_hash w t h))"
    using b set_remove1_subset [of n "w_hash w t h"] distinct_remove1 by (auto simp: bucket_ok_def distinct_map inj_on_def)
  moreover have "bucket_ok t h (update_first (\<lambda>m. m = n) (\<lambda>m. m\<lparr>nd_timer := Some (jiffies e + STAT_TIMEOUT_ACTIVE e)\<rparr>) (w_hash w t h))"
    using b by (rule bucket_ok_sample) (simp add: node_key_def)
  ultimately show ?thesis
    using assms
    by (auto simp: stat_touch_fn_def stat_node_release_nolock_def Let_def tables_ok_def split: if_splits)
qed

lemma stat_flush_hash: "stat_flush_fn w = Ret w' \<Longrightarrow> w_hash w' = w_hash w"
  by (auto simp: stat_flush_fn_def Let_def run_bind_eq_Ret)

lemma stat_step_ok: "stat_step w w' \<Longrightarrow> tables_ok w \<Longrightarrow> tables_ok w'"
proof (induction rule: stat_step.induct)
  case (flow_packet w e fi dir nbytes)
  then show ?case unfolding stat_flow_def by (intro realtime_unless_set_ok) (simp add: tables_ok_def)
next
  case (user_packet w e ui pi dir nbytes)
  then show ?case unfolding stat_user_def Let_def by (intro realtime_unless_set_ok) (simp add: tables_ok_def)
next
  case (touch n w t h x e w')
  from touch(5,4) show ?case by (rule stat_touch_ok)
next
  case (flush w w')
  then show ?case using stat_flush_hash tables_ok_hash by blast
next
  case (tracker w f)
  then show ?case by (simp add: tables_ok_def)
qed

lemma reachable_tables_ok: "stat_reachable w \<Longrightarrow> tables_ok w"
proof (induction rule: stat_reachable.induct)
  case (start w)
  then show ?case by (simp add: stat_start_def tables_ok_def bucket_ok_def)
qed (rule stat_step_ok)

text \<open>
  Two weak points: on several processors the removal of a node from its own timer waits for itself, and
  a packet of 40000 bytes lowers the counter by 25536.
\<close>

lemma touch_waits_for_itself:
  "smp e \<Longrightarrow> time_after_eq (jiffies e) (active_stamp (nd_data n) + STAT_TIMEOUT_ACTIVE e) \<Longrightarrow> stat_touch_fn e t h n w = Fault NoFuel"
  by (simp add: stat_touch_fn_def stat_node_release_nolock_def Let_def)

lemma long_packet_lowers_counter: "recv_bytes (count_recv (of_nat 40000) c) = recv_bytes c - 25536"
  by (simp add: count_recv_def)

section \<open>The layout of a flush\<close>

definition flushed :: "stat_type \<Rightarrow> nat \<Rightarrow> stat_node list \<Rightarrow> stat_info \<Rightarrow> stat_info" where
  "flushed t k ns info =
     (case t of
        STAT_TYPE_FLOW \<Rightarrow> info\<lparr>nr_active_flow := nr_active_flow info + length ns, si_data := take k (si_data info) @ map nd_data ns @ drop (k + length ns) (si_data info)\<rparr>
      | STAT_TYPE_USER \<Rightarrow> info\<lparr>nr_active_user := nr_active_user info + length ns, si_data := take k (si_data info) @ map nd_data ns @ drop (k + length ns) (si_data info)\<rparr>)"

definition next_slot :: "stat_type \<Rightarrow> stat_info \<Rightarrow> nat" where
  "next_slot t info = (case t of STAT_TYPE_FLOW \<Rightarrow> offset_stat_flow info + nr_active_flow info | STAT_TYPE_USER \<Rightarrow> offset_stat_user info + nr_active_user info)"

lemma flush_same_type:
  assumes "\<forall>n \<in> set ns. sd_type (nd_data n) = t"
    and "prev = None \<or> prev = Some t \<or> nr_active_user info = 0 \<and> nr_active_flow info = 0"
  shows "trav_nodes trav_flush_nodes_fn ns (info, prev) =
     (if next_slot t info + length ns \<le> length (si_data info) \<or> ns = []
      then Ret (flushed t (next_slot t info) ns info, if ns = [] then prev else Some t) else Fault Undefined)"
  using assms
proof (induction ns arbitrary: info prev)
  case Nil
  then show ?case by (cases t) (simp_all add: flushed_def)
next
  case (Cons n ns)
  let ?k = "next_slot t info"
  let ?info = "flushed t ?k [n] info"
  have ty: "sd_type (nd_data n) = t" using Cons.prems(1) by simp
  have step: "trav_flush_nodes_fn n (info, prev) = (if ?k < length (si_data info) then Ret (?info, Some t) else Fault Undefined)"
    using Cons.prems(2) ty
    by (cases t) (auto simp: trav_flush_nodes_fn_def flushed_def next_slot_def Let_def upd_conv_take_nth_drop)
  show ?case
  proof (cases "?k < length (si_data info)")
    case False
    then show ?thesis using step by simp
  next
    case True
    have nx: "next_slot t ?info = ?k + 1" "length (si_data ?info) = length (si_data info)"
      using True by (cases t; simp add: next_slot_def flushed_def)+
    have "trav_nodes trav_flush_nodes_fn (n # ns) (info, prev) = trav_nodes trav_flush_nodes_fn ns (?info, Some t)"
      using step True by simp
    also have "\<dots> = (if ?k + 1 + length ns \<le> length (si_data info) \<or> ns = []
        then Ret (flushed t (?k + 1) ns ?info, if ns = [] then Some t else Some t) else Fault Undefined)"
      using Cons.IH [of "Some t" ?info] Cons.prems(1) nx by simp
    also have "flushed t (?k + 1) ns ?info = flushed t ?k (n # ns) info"
      using True by (cases t) (auto simp: flushed_def ac_simps)
    finally show ?thesis using True by auto
  qed
qed

lemma table_types:
  assumes "tables_ok w"
  shows "\<forall>n \<in> set (table_nodes t w). sd_type (nd_data n) = t"
  using assms by (auto simp: table_nodes_def tables_ok_def bucket_ok_def)

text \<open>The first node of the other type stores where its part starts.\<close>

lemma flush_turn:
  assumes "sd_type (nd_data n) = STAT_TYPE_FLOW" and "nr_active_user info \<noteq> 0" and "nr_active_flow info = 0"
  shows "trav_flush_nodes_fn n (info, Some STAT_TYPE_USER) =
     (if nr_active_user info < length (si_data info)
      then Ret (flushed STAT_TYPE_FLOW (nr_active_user info) [n] (info\<lparr>offset_stat_user := 0, offset_stat_flow := nr_active_user info\<rparr>), Some STAT_TYPE_FLOW)
      else Fault Undefined)"
  using assms by (auto simp: trav_flush_nodes_fn_def flushed_def Let_def upd_conv_take_nth_drop)

lemma flush_flows_after_users:
  assumes "\<forall>n \<in> set fs. sd_type (nd_data n) = STAT_TYPE_FLOW" and "fs \<noteq> []" and "nr_active_flow info = 0" and "offset_stat_flow info = 0"
    and "nr_active_user info \<noteq> 0 \<Longrightarrow> prev = Some STAT_TYPE_USER"
  shows "trav_nodes trav_flush_nodes_fn fs (info, prev) =
     (if nr_active_user info + length fs \<le> length (si_data info)
      then Ret (flushed STAT_TYPE_FLOW (nr_active_user info) fs
             (if nr_active_user info = 0 then info else info\<lparr>offset_stat_user := 0, offset_stat_flow := nr_active_user info\<rparr>), Some STAT_TYPE_FLOW)
      else Fault Undefined)"
proof (cases "nr_active_user info = 0")
  case True
  then show ?thesis
    using flush_same_type [OF assms(1), of prev info] assms(2-4) by (simp add: next_slot_def)
next
  case False
  obtain n ns where fs: "fs = n # ns" using assms(2) by (cases fs) simp_all
  let ?u = "nr_active_user info"
  let ?info = "info\<lparr>offset_stat_user := 0, offset_stat_flow := ?u\<rparr>"
  have p: "prev = Some STAT_TYPE_USER" using assms(5) False by blast
  show ?thesis
  proof (cases "?u < length (si_data info)")
    case small: False
    then show ?thesis using flush_turn [of n info] assms(1,3) False by (simp add: fs p)
  next
    case True
    let ?next = "flushed STAT_TYPE_FLOW ?u [n] ?info"
    have "trav_nodes trav_flush_nodes_fn fs (info, prev) = trav_nodes trav_flush_nodes_fn ns (?next, Some STAT_TYPE_FLOW)"
      using flush_turn [of n info] assms(1,3) False True by (simp add: fs p)
    moreover have "flushed STAT_TYPE_FLOW (?u + 1) ns ?next = flushed STAT_TYPE_FLOW ?u fs ?info"
      using True assms(3) by (simp add: flushed_def fs ac_simps)
    moreover have "next_slot STAT_TYPE_FLOW ?next = ?u + 1" "length (si_data ?next) = length (si_data info)"
      using True assms(3) by (simp_all add: next_slot_def flushed_def)
    ultimately show ?thesis
      using flush_same_type [of ns STAT_TYPE_FLOW "Some STAT_TYPE_FLOW" ?next] assms(1) False True by (auto simp: fs)
  qed
qed

lemma flush_users_then_flows:
  assumes "\<forall>n \<in> set us. sd_type (nd_data n) = STAT_TYPE_USER" and "\<forall>n \<in> set fs. sd_type (nd_data n) = STAT_TYPE_FLOW"
    and z: "nr_active_flow info = 0" "offset_stat_flow info = 0" "nr_active_user info = 0" "offset_stat_user info = 0"
  shows "run_bind (trav_nodes trav_flush_nodes_fn us (info, prev)) (trav_nodes trav_flush_nodes_fn fs) =
     (if length us + length fs \<le> length (si_data info) then
        Ret (info\<lparr>nr_active_user := length us, nr_active_flow := length fs, offset_stat_flow := (if fs = [] then 0 else length us),
               si_data := map nd_data us @ map nd_data fs @ drop (length us + length fs) (si_data info)\<rparr>,
             if fs \<noteq> [] then Some STAT_TYPE_FLOW else if us \<noteq> [] then Some STAT_TYPE_USER else prev)
      else Fault Undefined)"
proof -
  let ?prev = "if us = [] then prev else Some STAT_TYPE_USER"
  let ?info = "flushed STAT_TYPE_USER 0 us info"
  have u: "trav_nodes trav_flush_nodes_fn us (info, prev) =
     (if length us \<le> length (si_data info) then Ret (?info, ?prev) else Fault Undefined)"
    using flush_same_type [OF assms(1), of prev info] z by (auto simp: next_slot_def)
  show ?thesis
  proof (cases "length us \<le> length (si_data info)")
    case False
    then show ?thesis using u by simp
  next
    case fits: True
    have i: "nr_active_user ?info = length us" "nr_active_flow ?info = 0" "offset_stat_flow ?info = 0"
      "si_data ?info = map nd_data us @ drop (length us) (si_data info)" "length (si_data ?info) = length (si_data info)"
      using fits z by (simp_all add: flushed_def)
    show ?thesis
    proof (cases "fs = []")
      case True
      then show ?thesis using u fits z by (simp add: flushed_def)
    next
      case False
      show ?thesis
        unfolding u using flush_flows_after_users [OF assms(2) False i(2,3), of ?prev] fits False z i
        by (cases info) (auto simp: flushed_def ac_simps)
    qed
  qed
qed

lemma flush_result:
  assumes "tables_ok w"
  defines "us \<equiv> table_nodes STAT_TYPE_USER w" and "fs \<equiv> table_nodes STAT_TYPE_FLOW w"
  shows "stat_flush_fn w =
     (if length us + length fs \<le> length (si_data (w_info w)) then
        Ret (w\<lparr>w_info := \<lparr>nr_active_flow = length fs, offset_stat_flow = (if fs = [] then 0 else length us),
                 nr_active_user = length us, offset_stat_user = 0,
                 si_data = map nd_data us @ map nd_data fs @ drop (length us + length fs) (si_data (w_info w))\<rparr>,
             w_prev := if fs \<noteq> [] then Some STAT_TYPE_FLOW else if us \<noteq> [] then Some STAT_TYPE_USER else w_prev w\<rparr>)
      else Fault Undefined)"
proof -
  let ?info = "(w_info w)\<lparr>nr_active_flow := 0, offset_stat_flow := 0, nr_active_user := 0, offset_stat_user := 0\<rparr>"
  have "stat_flush_fn w =
     run_bind (run_bind (trav_nodes trav_flush_nodes_fn us (?info, w_prev w)) (trav_nodes trav_flush_nodes_fn fs))
       (\<lambda>(info, prev). Ret (w\<lparr>w_info := info, w_prev := prev\<rparr>))"
    by (simp add: stat_flush_fn_def trav_node_locked_call_def Let_def run_bind_assoc us_def fs_def)
  also note flush_users_then_flows [of us fs ?info "w_prev w", simplified]
  finally show ?thesis using table_types [OF assms(1)] by (cases "w_info w") (simp add: us_def fs_def)
qed

text \<open>
  C36: In every state of the tables, a flush writes the users first and the flows behind them, with the
  counts and the starts of both parts; and when the memory is too small for all of them it writes past
  its end.
\<close>

theorem flush_layout:
  assumes "stat_reachable w"
  defines "us \<equiv> map nd_data (table_nodes STAT_TYPE_USER w)" and "fs \<equiv> map nd_data (table_nodes STAT_TYPE_FLOW w)"
  shows "if length us + length fs \<le> length (si_data (w_info w))
     then \<exists>w'. stat_flush_fn w = Ret w' \<and> w_hash w' = w_hash w \<and>
       nr_active_user (w_info w') = length us \<and> nr_active_flow (w_info w') = length fs \<and>
       take (length us) (drop (offset_stat_user (w_info w')) (si_data (w_info w'))) = us \<and>
       take (length fs) (drop (offset_stat_flow (w_info w')) (si_data (w_info w'))) = fs \<and>
       offset_stat_user (w_info w') = 0 \<and> (fs \<noteq> [] \<longrightarrow> offset_stat_flow (w_info w') = length us)
     else stat_flush_fn w = Fault Undefined"
  using flush_result [OF reachable_tables_ok [OF assms(1)]] by (simp add: us_def fs_def)

text \<open>A small run: one user sends, and its flow is counted.\<close>

definition ex_env :: stat_env where
  "ex_env = \<lparr>jiffies = 5, HZ = 100, node_ok = True, garbage = \<lparr>recv_pkts_rt = 0, recv_bytes_rt = 0, xmit_pkts_rt = 0, xmit_bytes_rt = 0\<rparr>, smp = False\<rparr>"

definition ex_start :: stat_world where
  "ex_start = \<lparr>w_tracked = (\<lambda>_ _. \<lparr>t_id = 0, t_magic = 2, t_stat = False, t_cnt = zero_counters\<rparr>), w_hash = (\<lambda>_ _. []),
     w_info = \<lparr>nr_active_flow = 0, offset_stat_flow = 0, nr_active_user = 0, offset_stat_user = 0, si_data = replicate 2
       \<lparr>sd_id = 9, sd_magic = 9, sd_type = STAT_TYPE_FLOW, active_stamp = 0, sd_cnt = zero_counters, sd_rt = garbage ex_env\<rparr>\<rparr>,
     w_prev = None\<rparr>"

definition ex_world :: stat_world where
  "ex_world = stat_flow ex_env 0 True 100 (stat_user ex_env 0 0 True 100 ex_start)"

definition ex_data :: "stat_type \<Rightarrow> stat_data" where
  "ex_data t = \<lparr>sd_id = 0, sd_magic = 2, sd_type = t, active_stamp = 5, sd_cnt = zero_counters, sd_rt = garbage ex_env\<rparr>"

lemma ex_reachable: "stat_reachable ex_world"
  unfolding ex_world_def
  by (rule more [OF more [OF start user_packet] flow_packet]) (simp add: stat_start_def ex_start_def)

lemma concat_one: "0 < n \<Longrightarrow> concat (map ((\<lambda>_. []) (0 := xs)) [0..<n]) = xs"
proof -
  assume "0 < n"
  then have "[0..<n] = 0 # [1..<n]" by (simp add: upt_conv_Cons)
  moreover have "concat (map ((\<lambda>_. []) (0 := xs)) [1..<n]) = []" by auto
  ultimately show ?thesis by simp
qed

lemma ex_hash: "w_hash ex_world t = (\<lambda>_. []) (0 := [\<lparr>nd_data = ex_data t, nd_ptr = 0, nd_timer = Some 305\<rparr>])"
  by (cases t)
    (simp_all add: ex_world_def stat_flow_def stat_user_def realtime_unless_set_def stat_realtime_def upd_cnt_def ex_start_def
      stat_hash_def Let_def stat_node_find_def ex_env_def is_node_def sample_def STAT_TIMEOUT_TOUCH_def ex_data_def)

lemma ex_nodes: "map nd_data (table_nodes t ex_world) = [ex_data t]"
proof -
  have "0 < hash_width t" by (cases t) (simp_all add: hash_width_def STAT_HASH_WIDTH_FLOW_def STAT_HASH_WIDTH_USER_def)
  then show ?thesis unfolding table_nodes_def ex_hash by (simp only: concat_one list.map stat_node.simps)
qed

lemma ex_room: "length (si_data (w_info ex_world)) = 2"
  by (simp add: ex_world_def stat_flow_def stat_user_def realtime_unless_set_def stat_realtime_def upd_cnt_def ex_start_def
      Let_def split: option.splits)

theorem flush_layout_witness:
  "\<exists>w'. stat_flush_fn ex_world = Ret w' \<and> nr_active_user (w_info w') = 1 \<and> nr_active_flow (w_info w') = 1 \<and>
     offset_stat_flow (w_info w') = 1 \<and> take 1 (drop 1 (si_data (w_info w'))) = [ex_data STAT_TYPE_FLOW]"
proof -
  have "length [ex_data STAT_TYPE_USER] + length [ex_data STAT_TYPE_FLOW] \<le> length (si_data (w_info ex_world))"
    by (simp add: ex_room)
  with flush_layout [OF ex_reachable] show ?thesis
    unfolding ex_nodes by (metis length_Cons list.size(3) One_nat_def not_Cons_self2)
qed

section \<open>The reader in user space\<close>

text \<open>
  \<open>nt_stat_flush\<close> of \<open>apps/nquery/src/statistics.c\<close>: the lines it prints, each with the kind of node it is
  printed as; None when the lock file cannot be opened. It computes the place in the part and then
  reads from the start of the memory.
\<close>

definition nt_stat_flush :: "bool \<Rightarrow> stat_info \<Rightarrow> (stat_type \<times> stat_data) list option run" where
  "nt_stat_flush lock_ok info =
     (if \<not> lock_ok then Ret None
      else if nr_active_flow info \<le> length (si_data info) \<and> nr_active_user info \<le> length (si_data info)
      then Ret (Some (map (\<lambda>i. (STAT_TYPE_FLOW, si_data info ! i)) [0..<nr_active_flow info] @
                      map (\<lambda>i. (STAT_TYPE_USER, si_data info ! i)) [0..<nr_active_user info]))
      else Fault Undefined)"

lemma map_nth_take: "n \<le> length xs \<Longrightarrow> map (\<lambda>i. f (xs ! i)) [0..<n] = map f (take n xs)"
  by (rule nth_equalityI) simp_all

text \<open>
  The dump that user space makes after a flush shows, as the flows, the first entries of the memory,
  which are the users: a flow is printed only when there are more flows than users, and then the first
  ones. The users are printed as they are.
\<close>

theorem dump_after_flush:
  assumes "stat_reachable w" and "stat_flush_fn w = Ret w'"
  defines "us \<equiv> map nd_data (table_nodes STAT_TYPE_USER w)" and "fs \<equiv> map nd_data (table_nodes STAT_TYPE_FLOW w)"
  shows "nt_stat_flush True (w_info w') =
     Ret (Some (map (Pair STAT_TYPE_FLOW) (take (length fs) (us @ fs)) @ map (Pair STAT_TYPE_USER) us))"
proof -
  have ok: "tables_ok w" using assms(1) by (rule reachable_tables_ok)
  let ?rest = "drop (length us + length fs) (si_data (w_info w))"
  have i: "nr_active_flow (w_info w') = length fs" "nr_active_user (w_info w') = length us" "si_data (w_info w') = us @ fs @ ?rest"
    using flush_result [OF ok] assms(2) by (auto simp: us_def fs_def split: if_splits)
  have "map (\<lambda>j. (STAT_TYPE_FLOW, (us @ fs @ ?rest) ! j)) [0..<length fs] = map (Pair STAT_TYPE_FLOW) (take (length fs) (us @ fs @ ?rest))"
    by (rule map_nth_take) simp
  moreover have "take (length fs) (us @ fs @ ?rest) = take (length fs) (us @ fs)" by simp
  moreover have "map (\<lambda>j. (STAT_TYPE_USER, (us @ fs @ ?rest) ! j)) [0..<length us] = map (Pair STAT_TYPE_USER) (take (length us) (us @ fs @ ?rest))"
    by (rule map_nth_take) simp
  ultimately show ?thesis unfolding nt_stat_flush_def i by simp
qed

theorem dump_after_flush_witness:
  "\<exists>w'. stat_flush_fn ex_world = Ret w' \<and>
     nt_stat_flush True (w_info w') = Ret (Some [(STAT_TYPE_FLOW, ex_data STAT_TYPE_USER), (STAT_TYPE_USER, ex_data STAT_TYPE_USER)])"
proof -
  have l: "length (table_nodes t ex_world) = 1" for t using arg_cong [OF ex_nodes [of t], of length] by simp
  obtain w' where w': "stat_flush_fn ex_world = Ret w'"
    using flush_result [OF reachable_tables_ok [OF ex_reachable]] by (simp add: l ex_room)
  from dump_after_flush [OF ex_reachable w'] show ?thesis unfolding ex_nodes using w' by simp
qed

end
