(* ===== verification/Nproto_Main.thy ===== *)
theory Nproto_Main
  imports Nproto_Order Nproto_Stat
begin

text \<open>
  The packet path of the protocol identification (\<open>drivers/nproto/src/main.c\<close>): reading a packet,
  counting it, identifying its flow and telling the registered hooks, and the start and stop of the
  module. A hook is a number, and what it does is a parameter.
\<close>

section \<open>Reading a packet\<close>

text \<open>\<open>sk_mem\<close> is what can be read from the IP header on, \<open>sk_len\<close> is \<open>skb->len\<close>.\<close>

record np_skb =
  sk_mem :: "u8 list"
  sk_len :: nat

record ip_header =
  ih_version :: nat
  ih_ihl :: nat
  ih_tot_len :: nat
  ih_frag :: nat
  ih_protocol :: nat
  ih_saddr :: u32
  ih_daddr :: u32

definition be16 :: "u8 list \<Rightarrow> int \<Rightarrow> u16 run" where
  "be16 m i = run_bind (rd m i) (\<lambda>a. run_bind (rd m (i + 1)) (\<lambda>b. Ret (256 * ucast a + ucast b)))"

definition be32 :: "u8 list \<Rightarrow> int \<Rightarrow> u32 run" where
  "be32 m i = run_bind (be16 m i) (\<lambda>a. run_bind (be16 m (i + 2)) (\<lambda>b. Ret (65536 * ucast a + ucast b)))"

definition ip_hdr :: "u8 list \<Rightarrow> ip_header run" where
  "ip_hdr m =
     run_bind (rd m 0) (\<lambda>v. run_bind (be16 m 2) (\<lambda>tot. run_bind (be16 m 6) (\<lambda>frag. run_bind (rd m 9) (\<lambda>p.
     run_bind (be32 m 12) (\<lambda>s. run_bind (be32 m 16) (\<lambda>d.
       Ret \<lparr>ih_version = unat v div 16, ih_ihl = unat v mod 16, ih_tot_len = unat tot, ih_frag = unat (frag AND 0x1FFF),
            ih_protocol = unat p, ih_saddr = s, ih_daddr = d\<rparr>))))))"

text \<open>The flow, user and peer the packet belongs to: their places, the flow's tuple and the user's address.\<close>

record np_nodes =
  nn_fi :: nat
  nn_ui :: nat
  nn_pi :: nat
  nn_tuple :: flow_tuple
  nn_uip :: u32

definition dir_number :: "flow_dir \<Rightarrow> nat" where
  "dir_number d = (case d of flow_dir.NP_FLOW_DIR_ANY \<Rightarrow> 0 | flow_dir.NP_FLOW_DIR_C2S \<Rightarrow> 1 | flow_dir.NP_FLOW_DIR_S2C \<Rightarrow> 2)"

text \<open>Length and place of the payload behind the transport header.\<close>

definition l7_part :: "u8 list \<Rightarrow> nat \<Rightarrow> int \<Rightarrow> int \<Rightarrow> (int \<times> int) run" where
  "l7_part m p l4 l4len =
     (if p = IPPROTO_TCP
      then run_bind (rd m (l4 + 12)) (\<lambda>x. let doff = int (unat x div 16) in Ret (l4len - doff * 4, l4 + doff * 4))
      else if p = IPPROTO_UDP then Ret (l4len - 8, l4 + 8)
      else Ret (0, l4))"

definition bad_lengths :: "nat \<Rightarrow> ip_header \<Rightarrow> bool" where
  "bad_lengths dlen ih \<longleftrightarrow> dlen < ih_ihl ih * 4 \<or> dlen < ih_tot_len ih \<or> ih_tot_len ih < ih_ihl ih * 4 \<or> ih_frag ih \<noteq> 0"

definition nproto_pkt_init :: "stat_env \<Rightarrow> np_nodes \<Rightarrow> np_skb \<Rightarrow> stat_world \<Rightarrow> (stat_world \<times> np_packet option) run" where
  "nproto_pkt_init e nn skb w =
     run_bind (ip_hdr (sk_mem skb)) (\<lambda>ih.
       if \<not> (ih_version ih = 4 \<and> 5 \<le> ih_ihl ih) then Ret (w, None)
       else if bad_lengths (sk_len skb) ih then Ret (w, None)
       else
         (let dir = nt_flow_dir (nn_tuple nn) (ih_saddr ih); n = of_nat (sk_len skb);
              w = stat_flow e (nn_fi nn) (dir = flow_dir.NP_FLOW_DIR_C2S) n w;
              w = stat_user e (nn_ui nn) (nn_pi nn) (nt_user_dir (nn_uip nn) (ih_saddr ih) = NP_USER_XMIT) n w;
              l4 = int (ih_ihl ih) * 4; l4len = int (ih_tot_len ih) - l4
          in run_bind (l7_part (sk_mem skb) (ih_protocol ih) l4 l4len) (\<lambda>(l7len, l7ptr).
               if l7len \<le> 0 then Ret (w, None)
               else
                 run_bind (be16 (sk_mem skb) l4) (\<lambda>sport. run_bind (be16 (sk_mem skb) (l4 + 2)) (\<lambda>dport.
                   Ret (w, Some \<lparr>pmem = drop (nat l7ptr) (sk_mem skb), l7_ptr = 0, l7_len = s16 l7len, pk_proto = ih_protocol ih,
                     pk_dir = dir_number dir, pk_saddr = ih_saddr ih, pk_daddr = ih_daddr ih, pk_sport = sport, pk_dport = dport,
                     du_type = 0, headers_range = (\<lambda>_. (0, 0))\<rparr>))))))"

section \<open>Hooks\<close>

definition NP_HOOK_MAX :: nat where "NP_HOOK_MAX = 8"

fun register_loop :: "nat \<Rightarrow> nat \<Rightarrow> nat option list \<Rightarrow> nat option list \<times> int" where
  "register_loop fn i [] = ([], - int NP_HOOK_MAX)"
| "register_loop fn i (hk # hs) =
     (case hk of
        None \<Rightarrow> (Some fn # hs, int i)
      | Some h \<Rightarrow> if h = fn then (hk # hs, - 22) else (let (hs, r) = register_loop fn (i + 1) hs in (hk # hs, r)))"

definition np_hook_register :: "nat \<Rightarrow> nat option list \<Rightarrow> nat option list \<times> int" where
  "np_hook_register fn hooks = register_loop fn 0 hooks"

text \<open>The shift of the later hooks: the place that holds no hook any more is the end of the list.\<close>

fun shift_loop :: "nat \<Rightarrow> nat option list \<Rightarrow> nat \<Rightarrow> nat option list \<times> nat" where
  "shift_loop 0 hooks j = (hooks, j)"
| "shift_loop (Suc k) hooks j =
     (let hooks = hooks[j := hooks ! (j + 1)] in if hooks ! j = None then (hooks, j) else shift_loop k hooks (j + 1))"

definition np_hook_unregister :: "nat \<Rightarrow> nat option list \<Rightarrow> nat option list \<times> int" where
  "np_hook_unregister fn hooks =
     (case List.find (\<lambda>i. hooks ! i = Some fn) [0..<NP_HOOK_MAX] of
        None \<Rightarrow> (hooks, - 22)
      | Some i \<Rightarrow>
          (let (hooks, j) = shift_loop (NP_HOOK_MAX - 1 - i) hooks i
           in (if hooks ! j \<noteq> None then hooks[j := None] else hooks, 0)))"

type_synonym hook_fn = "nat \<Rightarrow> np_packet \<Rightarrow> u32 \<Rightarrow> flow_info \<Rightarrow> (flow_info \<times> int) run"

fun call_hooks :: "hook_fn \<Rightarrow> np_packet \<Rightarrow> u32 \<Rightarrow> nat option list \<Rightarrow> flow_info \<Rightarrow> flow_info run" where
  "call_hooks hk npt crc [] fi = Ret fi"
| "call_hooks hk npt crc (h # hs) fi =
     (case h of
        None \<Rightarrow> Ret fi
      | Some fn \<Rightarrow> run_bind (hk fn npt crc fi) (\<lambda>(fi, r). if r < 0 then Ret fi else call_hooks hk npt crc hs fi))"

definition nproto_update :: "hook_fn \<Rightarrow> nat option list \<Rightarrow> np_packet \<Rightarrow> np_rule \<Rightarrow> flow_info \<Rightarrow> flow_info run" where
  "nproto_update hk hooks npt rule fi =
     (let proto_new = of_nat (r_ID rule)
      in if f_proto fi \<noteq> proto_new
         then run_bind (call_hooks hk npt (r_crc rule) hooks fi) (\<lambda>fi. Ret (fi\<lparr>f_proto := proto_new\<rparr>))
         else Ret fi)"

section \<open>The packet path\<close>

definition nproto_rules_match ::
  "np_env \<Rightarrow> np_rules \<Rightarrow> hook_fn \<Rightarrow> nat option list \<Rightarrow> np_packet \<Rightarrow> flow_info \<Rightarrow> (np_packet \<times> flow_info \<times> nat) run" where
  "nproto_rules_match env st hk hooks npt fi =
     run_bind (identify env st (unat (nt_flow_nproto fi)) npt) (\<lambda>(npt, m).
       case m of
         None \<Rightarrow> Ret (npt, fi, 0)
       | Some i \<Rightarrow>
           (let mlast = all_rules st ! i; fi = (if is_fin mlast then nt_flow_nproto_fin_set fi else fi)
            in run_bind (nproto_update hk hooks npt mlast fi) (\<lambda>fi. Ret (npt, fi, r_ID mlast))))"

text \<open>The state of the module, with the flow records of the tracker.\<close>

record np_state =
  ns_rules :: np_rules
  ns_hooks :: "nat option list"
  ns_stat :: stat_world
  ns_flows :: "nat \<Rightarrow> flow_info"

definition nt_context_nproto :: "np_env \<Rightarrow> stat_env \<Rightarrow> hook_fn \<Rightarrow> np_nodes \<Rightarrow> np_skb \<Rightarrow> np_state \<Rightarrow> (np_state \<times> int) run" where
  "nt_context_nproto env e hk nn skb st =
     run_bind (nproto_pkt_init e nn skb (ns_stat st)) (\<lambda>(w, p).
       (let st = st\<lparr>ns_stat := w\<rparr>; fi = ns_flows st (nn_fi nn)
        in case p of
             None \<Rightarrow> Ret (st, - 22)
           | Some npt \<Rightarrow>
               if nt_flow_nproto_fin fi then Ret (st, 0)
               else
                 run_bind (nproto_rules_match env (ns_rules st) hk (ns_hooks st) npt fi) (\<lambda>(npt, fi, n).
                   Ret (st\<lparr>ns_flows := (ns_flows st)(nn_fi nn := fi)\<rparr>, int n))))"

text \<open>The netfilter hook accepts every packet; \<open>nn\<close> is None when the connection is not tracked.\<close>

definition nproto_hook_fn :: "np_env \<Rightarrow> stat_env \<Rightarrow> hook_fn \<Rightarrow> np_nodes option \<Rightarrow> np_skb \<Rightarrow> np_state \<Rightarrow> np_state run" where
  "nproto_hook_fn env e hk nn skb st =
     (case nn of None \<Rightarrow> Ret st | Some nn \<Rightarrow> run_bind (nt_context_nproto env e hk nn skb st) (\<lambda>(st, _). Ret st))"

section \<open>The registry of hooks\<close>

text \<open>
  What the registry promises its clients: the hooks form a list without repetitions, a new hook goes to
  the end while there is room, a removed one leaves the order of the others.
\<close>

locale hook_registry =
  fixes add del :: "'f \<Rightarrow> 's \<Rightarrow> 's \<times> int" and hooks_of :: "'s \<Rightarrow> 'f list" and ok :: "'s \<Rightarrow> bool" and room :: nat
  assumes ok_distinct: "ok s \<Longrightarrow> distinct (hooks_of s) \<and> length (hooks_of s) \<le> room"
    and add_new: "ok s \<Longrightarrow> f \<notin> set (hooks_of s) \<Longrightarrow> length (hooks_of s) < room \<Longrightarrow>
      ok (fst (add f s)) \<and> hooks_of (fst (add f s)) = hooks_of s @ [f] \<and> snd (add f s) = int (length (hooks_of s))"
    and add_refused: "ok s \<Longrightarrow> f \<in> set (hooks_of s) \<or> length (hooks_of s) \<ge> room \<Longrightarrow> fst (add f s) = s \<and> snd (add f s) < 0"
    and del_known: "ok s \<Longrightarrow> f \<in> set (hooks_of s) \<Longrightarrow> ok (fst (del f s)) \<and> hooks_of (fst (del f s)) = remove1 f (hooks_of s) \<and> snd (del f s) = 0"
    and del_unknown: "ok s \<Longrightarrow> f \<notin> set (hooks_of s) \<Longrightarrow> fst (del f s) = s \<and> snd (del f s) < 0"
begin

definition request :: "bool \<times> 'f \<Rightarrow> 's \<Rightarrow> 's" where
  "request r s = (if fst r then fst (add (snd r) s) else fst (del (snd r) s))"

definition abstract_request :: "bool \<times> 'f \<Rightarrow> 'f list \<Rightarrow> 'f list" where
  "abstract_request r fs =
     (if fst r then (if snd r \<in> set fs \<or> length fs \<ge> room then fs else fs @ [snd r]) else remove1 (snd r) fs)"

lemma request_refines: "ok s \<Longrightarrow> ok (request r s) \<and> hooks_of (request r s) = abstract_request r (hooks_of s)"
  using add_new [of s "snd r"] add_refused [of s "snd r"] del_known [of s "snd r"] del_unknown [of s "snd r"]
  by (cases "fst r"; cases "snd r \<in> set (hooks_of s)") (auto simp: request_def abstract_request_def remove1_idem not_le)

lemma requests_refine:
  "ok s \<Longrightarrow> ok (fold request rs s) \<and> hooks_of (fold request rs s) = fold abstract_request rs (hooks_of s)"
  using request_refines by (induction rs arbitrary: s) auto

end

definition hook_array :: "nat list \<Rightarrow> nat option list" where
  "hook_array fs = map Some fs @ replicate (NP_HOOK_MAX - length fs) None"

definition hooks_in :: "nat option list \<Rightarrow> nat list" where
  "hooks_in hooks = map the (takeWhile (\<lambda>h. h \<noteq> None) hooks)"

definition hooks_ok :: "nat option list \<Rightarrow> bool" where
  "hooks_ok hooks \<longleftrightarrow> (\<exists>fs. hooks = hook_array fs \<and> distinct fs \<and> length fs \<le> NP_HOOK_MAX)"

lemma hooks_in_array [simp]: "hooks_in (hook_array fs) = fs"
proof -
  have "takeWhile (\<lambda>h. h \<noteq> None) (map Some fs @ replicate n None) = map Some fs" for n :: nat
    by (induction fs) (cases n; simp)+
  then show ?thesis by (simp add: hooks_in_def hook_array_def comp_def)
qed

lemma register_array:
  "register_loop fn i (map Some fs @ replicate n None) =
     (if fn \<in> set fs then (map Some fs @ replicate n None, - 22)
      else if n = 0 then (map Some fs, - int NP_HOOK_MAX)
      else (map Some fs @ Some fn # replicate (n - 1) None, int (i + length fs)))"
  by (induction fs arbitrary: i) (cases n; auto)+

lemma shift_array:
  assumes "x \<noteq> None"
  shows "(case shift_loop (length zs + n) (A @ x # map Some zs @ replicate n None) (length A) of
      (h, j) \<Rightarrow> if h ! j \<noteq> None then h[j := None] else h) = A @ map Some zs @ replicate (Suc n) None"
  using assms
proof (induction zs arbitrary: A x)
  case Nil
  then show ?case by (cases n) (auto simp: nth_append list_update_append)
next
  case (Cons z zs)
  have "shift_loop (length (z # zs) + n) (A @ x # map Some (z # zs) @ replicate n None) (length A) =
     shift_loop (length zs + n) ((A @ [Some z]) @ Some z # map Some zs @ replicate n None) (length (A @ [Some z]))"
    by (simp add: nth_append list_update_append)
  then show ?case using Cons.IH [of "Some z" "A @ [Some z]"] by simp
qed

lemma unregister_array:
  assumes "distinct fs" and "length fs \<le> NP_HOOK_MAX" and "fn \<in> set fs"
  shows "np_hook_unregister fn (hook_array fs) = (hook_array (remove1 fn fs), 0)"
proof -
  from assms(3) obtain ys zs where fs: "fs = ys @ fn # zs" and ys: "fn \<notin> set ys" by (meson split_list_first)
  let ?n = "NP_HOOK_MAX - length fs"
  have arr: "hook_array fs = map Some ys @ Some fn # map Some zs @ replicate ?n None" by (simp add: hook_array_def fs)
  have at: "hook_array fs ! length ys = Some fn" unfolding arr by (simp add: nth_append)
  have before: "hook_array fs ! j \<noteq> Some fn" if "j < length ys" for j
    using ys that nth_mem [OF that] unfolding arr by (auto simp: nth_append)
  have "List.find (\<lambda>i. hook_array fs ! i = Some fn) [0..<NP_HOOK_MAX] = Some (length ys)"
    unfolding find_Some_iff using at before assms(2) by (intro exI [of _ "length ys"]) (auto simp: fs)
  moreover have "NP_HOOK_MAX - 1 - length ys = length zs + ?n" using assms(2) by (simp add: fs)
  moreover have "remove1 fn fs = ys @ zs" by (simp add: fs ys remove1_append)
  moreover have "hook_array (ys @ zs) = map Some ys @ map Some zs @ replicate (Suc ?n) None"
    using assms(2) by (simp add: hook_array_def fs Suc_diff_Suc)
  ultimately show ?thesis
    using shift_array [of "Some fn" zs ?n "map Some ys"]
    by (auto simp: np_hook_unregister_def arr split: prod.splits if_splits)
qed

lemma unregister_unknown:
  assumes "length fs \<le> NP_HOOK_MAX" and "fn \<notin> set fs"
  shows "np_hook_unregister fn (hook_array fs) = (hook_array fs, - 22)"
proof -
  have "hook_array fs ! i \<noteq> Some fn" if "i < NP_HOOK_MAX" for i
  proof (cases "i < length fs")
    case True
    then show ?thesis using assms(2) nth_mem [OF True] by (auto simp: hook_array_def nth_append)
  next
    case False
    then show ?thesis using that by (auto simp: hook_array_def nth_append)
  qed
  then have "List.find (\<lambda>i. hook_array fs ! i = Some fn) [0..<NP_HOOK_MAX] = None" by (simp add: find_None_iff)
  then show ?thesis by (simp add: np_hook_unregister_def)
qed

lemma array_ok: "distinct fs \<Longrightarrow> length fs \<le> NP_HOOK_MAX \<Longrightarrow> hooks_ok (hook_array fs)"
  by (auto simp: hooks_ok_def)

interpretation np_hooks: hook_registry np_hook_register np_hook_unregister hooks_in hooks_ok NP_HOOK_MAX
proof
  fix hooks fn
  assume "hooks_ok hooks"
  then obtain fs where fs: "hooks = hook_array fs" "distinct fs" "length fs \<le> NP_HOOK_MAX" by (auto simp: hooks_ok_def)
  have reg: "np_hook_register fn hooks = (if fn \<in> set fs then (hooks, - 22)
      else if length fs = NP_HOOK_MAX then (hooks, - int NP_HOOK_MAX) else (hook_array (fs @ [fn]), int (length fs)))"
    using fs(3) register_array [of fn 0 fs "NP_HOOK_MAX - length fs"]
    by (auto simp: np_hook_register_def fs(1) hook_array_def)
  show "distinct (hooks_in hooks) \<and> length (hooks_in hooks) \<le> NP_HOOK_MAX" using fs by simp
  show "hooks_ok (fst (np_hook_register fn hooks)) \<and> hooks_in (fst (np_hook_register fn hooks)) = hooks_in hooks @ [fn] \<and>
      snd (np_hook_register fn hooks) = int (length (hooks_in hooks))"
    if "fn \<notin> set (hooks_in hooks)" "length (hooks_in hooks) < NP_HOOK_MAX"
    unfolding reg using that fs array_ok [of "fs @ [fn]"] by simp
  show "fst (np_hook_register fn hooks) = hooks \<and> snd (np_hook_register fn hooks) < 0"
    if "fn \<in> set (hooks_in hooks) \<or> length (hooks_in hooks) \<ge> NP_HOOK_MAX"
    unfolding reg using that fs by (auto simp: NP_HOOK_MAX_def)
  show "hooks_ok (fst (np_hook_unregister fn hooks)) \<and> hooks_in (fst (np_hook_unregister fn hooks)) = remove1 fn (hooks_in hooks) \<and>
      snd (np_hook_unregister fn hooks) = 0" if "fn \<in> set (hooks_in hooks)"
    using that fs unregister_array [OF fs(2,3), of fn] by (simp add: array_ok length_remove1)
  show "fst (np_hook_unregister fn hooks) = hooks \<and> snd (np_hook_unregister fn hooks) < 0" if "fn \<notin> set (hooks_in hooks)"
    using that fs unregister_unknown [OF fs(3), of fn] by simp
qed

text \<open>The hooks that are told, in order, up to the first that refuses.\<close>

fun told :: "hook_fn \<Rightarrow> np_packet \<Rightarrow> u32 \<Rightarrow> nat list \<Rightarrow> flow_info \<Rightarrow> flow_info run" where
  "told hk npt crc [] fi = Ret fi"
| "told hk npt crc (f # fs) fi = run_bind (hk f npt crc fi) (\<lambda>(fi, r). if r < 0 then Ret fi else told hk npt crc fs fi)"

lemma call_hooks_array: "call_hooks hk npt crc (map Some fs @ replicate n None) fi = told hk npt crc fs fi"
  by (induction fs arbitrary: fi) ((cases n; simp), auto intro!: run_bind_cong split: prod.splits)

text \<open>
  C34: After any sequence of registrations and removals of hooks, a change of a flow's protocol is told
  to exactly the hooks that are registered, in the order of their registration, up to the first that
  refuses; the new protocol is stored whatever they answer, and nothing happens when it is the old one.
\<close>

theorem protocol_change_told:
  assumes "hooks = fold (\<lambda>(reg, fn) hs. fst ((if reg then np_hook_register else np_hook_unregister) fn hs)) rs (replicate NP_HOOK_MAX None)"
    and "fs = fold (\<lambda>(reg, fn) fs. if reg then (if fn \<in> set fs \<or> length fs \<ge> NP_HOOK_MAX then fs else fs @ [fn]) else remove1 fn fs) rs []"
  shows "nproto_update hk hooks npt rule fi =
     (if f_proto fi = of_nat (r_ID rule) then Ret fi
      else run_bind (told hk npt (r_crc rule) fs fi) (\<lambda>fi. Ret (fi\<lparr>f_proto := of_nat (r_ID rule)\<rparr>)))"
proof -
  have "(\<lambda>(reg, fn) hs. fst ((if reg then np_hook_register else np_hook_unregister) fn hs)) = np_hooks.request"
    by (auto simp: fun_eq_iff np_hooks.request_def)
  moreover have "(\<lambda>(reg, fn) fs. if reg then (if fn \<in> set fs \<or> length fs \<ge> NP_HOOK_MAX then fs else fs @ [fn]) else remove1 fn fs) =
      np_hooks.abstract_request"
    by (auto simp: fun_eq_iff np_hooks.abstract_request_def)
  moreover have e: "replicate NP_HOOK_MAX None = hook_array []" "hooks_ok (hook_array [])"
    by (simp add: hook_array_def) (rule array_ok, simp_all)
  ultimately have "hooks_ok hooks \<and> hooks_in hooks = fs"
    using np_hooks.requests_refine [OF e(2), of rs] assms by simp
  then have "hooks = hook_array fs" by (auto simp: hooks_ok_def)
  then show ?thesis by (auto simp: nproto_update_def Let_def hook_array_def call_hooks_array)
qed

theorem protocol_change_told_witness:
  "nproto_update (\<lambda>h _ crc fi. Ret (fi\<lparr>flags := 2 * flags fi + of_nat h\<rparr>, if h = 2 then - 1 else 0))
      (fst (np_hook_unregister 5 (fst (np_hook_register 3 (fst (np_hook_register 2 (fst (np_hook_register 1
        (fst (np_hook_register 5 (replicate NP_HOOK_MAX None)))))))))))
      udp_packet inner_NTP \<lparr>f_id = 0, f_magic = 0, tuple = \<lparr>ip_src = 0, ip_dst = 0, port_src = 0, port_dst = 0, tuple_proto = 17\<rparr>,
        flags = 0, f_proto = 0, nacs_magic = 0\<rparr> =
     Ret \<lparr>f_id = 0, f_magic = 0, tuple = \<lparr>ip_src = 0, ip_dst = 0, port_src = 0, port_dst = 0, tuple_proto = 17\<rparr>,
        flags = 4, f_proto = 15, nacs_magic = 0\<rparr>"
  using protocol_change_told [OF refl refl, of
      "\<lambda>h _ crc fi. Ret (fi\<lparr>flags := 2 * flags fi + of_nat h\<rparr>, if h = 2 then - 1 else 0)"
      "[(True, 5), (True, 1), (True, 2), (True, 3), (False, 5)]" udp_packet inner_NTP
      "\<lparr>f_id = 0, f_magic = 0, tuple = \<lparr>ip_src = 0, ip_dst = 0, port_src = 0, port_dst = 0, tuple_proto = 17\<rparr>,
        flags = 0, f_proto = 0, nacs_magic = 0\<rparr>"]
  by (simp add: NTP_plain NP_HOOK_MAX_def)

section \<open>The payload\<close>

lemma s16_value:
  assumes "0 \<le> i" and "i < 65536"
  shows "s16 i = (if i < 32768 then i else i - 65536)"
proof -
  have e: "s16 i = (i + 32768) mod 65536 - 32768" by (simp add: s16_def int_word_sint)
  show ?thesis
  proof (cases "i < 32768")
    case True
    then show ?thesis unfolding e using assms by simp
  next
    case False
    have "i + 32768 = (i - 32768) + 65536" by simp
    then have "(i + 32768) mod 65536 = (i - 32768) mod 65536" by (simp only: mod_add_self2)
    also have "\<dots> = i - 32768" using assms False by (intro mod_pos_pos_trivial) auto
    finally show ?thesis unfolding e using False by simp
  qed
qed

lemma l7_part_inside:
  assumes "l7_part m p l4 l4len = Ret (n, off)" and "0 < n"
  shows "l4 \<le> off \<and> off + n = l4 + l4len"
  using assms by (auto simp: l7_part_def run_bind_eq_Ret Let_def split: if_splits)

lemma ip_hdr_ranges: "ip_hdr m = Ret ih \<Longrightarrow> ih_tot_len ih < 65536"
proof -
  have "unat (x :: u16) < 2 ^ LENGTH(16)" for x by (rule unsigned_less)
  then show "ip_hdr m = Ret ih \<Longrightarrow> ih_tot_len ih < 65536" by (auto simp: ip_hdr_def run_bind_eq_Ret)
qed

text \<open>
  C33: Whenever a packet is taken for identification, its payload is not empty and lies inside the packet;
  its length is stored in 16 bits with a sign, which is right below 32768 bytes and negative from there
  on.
\<close>

theorem payload_inside:
  assumes "nproto_pkt_init e nn skb w = Ret (w', Some npt)"
  shows "\<exists>off len. 20 \<le> off \<and> 0 < len \<and> off + len \<le> int (sk_len skb) \<and> pmem npt = drop (nat off) (sk_mem skb) \<and>
     l7_ptr npt = 0 \<and> l7_len npt = (if len < 32768 then len else len - 65536) \<and>
     (len < 32768 \<longrightarrow> payload npt = take (nat len) (drop (nat off) (sk_mem skb)))"
proof -
  from assms obtain ih where ih: "ip_hdr (sk_mem skb) = Ret ih" by (auto simp: nproto_pkt_init_def run_bind_eq_Ret)
  let ?l4 = "int (ih_ihl ih) * 4"
  from assms ih obtain n off where p: "l7_part (sk_mem skb) (ih_protocol ih) ?l4 (int (ih_tot_len ih) - ?l4) = Ret (n, off)"
    and n: "0 < n" and v: "5 \<le> ih_ihl ih" "\<not> bad_lengths (sk_len skb) ih"
    and f: "pmem npt = drop (nat off) (sk_mem skb)" "l7_ptr npt = 0" "l7_len npt = s16 n"
    by (auto simp: nproto_pkt_init_def run_bind_eq_Ret Let_def split: if_splits prod.splits)
  have o: "?l4 \<le> off" "off + n = int (ih_tot_len ih)" using l7_part_inside [OF p n] by auto
  have "s16 n = (if n < 32768 then n else n - 65536)"
    using n o v(1) ip_hdr_ranges [OF ih] by (intro s16_value) auto
  then show ?thesis
    using n o v f by (intro exI [of _ off] exI [of _ n]) (auto simp: bad_lengths_def payload_def)
qed

definition ex_udp :: np_skb where
  "ex_udp = \<lparr>sk_mem = [0x45, 0, 0, 32, 0, 1, 0, 0, 64, 17, 0, 0, 10, 0, 0, 1, 10, 0, 0, 2, 0, 68, 0, 67, 0, 12, 0, 0, 1, 2, 3, 4], sk_len = 32\<rparr>"

definition ex_nodes_of :: np_nodes where
  "ex_nodes_of = \<lparr>nn_fi = 0, nn_ui = 0, nn_pi = 1, nn_tuple = \<lparr>ip_src = 0x0A000001, ip_dst = 0x0A000002, port_src = 0, port_dst = 0, tuple_proto = 17\<rparr>,
     nn_uip = 0x0A000001\<rparr>"

lemma ex_udp_taken: "\<exists>w' npt. nproto_pkt_init e ex_nodes_of ex_udp w = Ret (w', Some npt)"
  by (simp add: nproto_pkt_init_def ex_udp_def ip_hdr_def be16_def be32_def rd_def bad_lengths_def l7_part_def
      IPPROTO_TCP_def IPPROTO_UDP_def Let_def)

theorem payload_inside_witness:
  "\<exists>w' npt off len. nproto_pkt_init ex_env ex_nodes_of ex_udp ex_start = Ret (w', Some npt) \<and> 20 \<le> off \<and> 0 < len \<and>
     off + len \<le> 32 \<and> pmem npt = drop (nat off) (sk_mem ex_udp)"
proof -
  obtain w' npt where p: "nproto_pkt_init ex_env ex_nodes_of ex_udp ex_start = Ret (w', Some npt)" using ex_udp_taken by blast
  from payload_inside [OF p] p show ?thesis by (auto simp: ex_udp_def)
qed

text \<open>
  The ranges of the headers count from the start of the payload, but the end of the headers moves the
  payload behind them: from then on the value of a header is read that much too far.
\<close>

lemma header_read_too_far:
  assumes "headers_range npt idx = (a, b)" and "a < b" and "0 < idx" and "idx < NP_HTTP_MAX"
    and "0 \<le> out" and "out \<le> l7_len npt" and "l7_len npt < 32768"
    and "mwm_http_match NP_HTTP_END out npt = Ret (npt', go)"
  shows "np_http_hdr npt idx = Some (l7_ptr npt + a, b - a) \<and> np_http_hdr npt' idx = Some (l7_ptr npt + out + a, b - a)"
proof -
  have "s16 out = out" "s16 (l7_len npt - out) = l7_len npt - out" using assms(5-7) by (simp_all add: s16_value)
  then show ?thesis using assms by (auto simp: mwm_http_match_def np_http_hdr_def NP_HTTP_END_def Let_def)
qed

text \<open>A flow whose identification is finished keeps its protocol and its flags.\<close>

lemma finished_flow_kept:
  assumes "nt_flow_nproto_fin (ns_flows st (nn_fi nn))" and "nt_context_nproto env e hk nn skb st = Ret (st', n)"
  shows "ns_flows st' = ns_flows st"
  using assms by (auto simp: nt_context_nproto_def run_bind_eq_Ret Let_def split: option.splits prod.splits)

text \<open>
  The rule stored in a flow is one of the registered rules, and never the one for weibo
  (by \<open>identify_ok\<close>); the hook leaves the flow alone when nothing matches.
\<close>

lemma rules_match_stores:
  assumes "nproto_rules_match env st hk hooks npt fi = Ret (npt', fi', n)"
  shows "n = 0 \<and> fi' = fi \<or> (\<exists>i npt1. identify env st (unat (nt_flow_nproto fi)) npt = Ret (npt1, Some i) \<and> n = r_ID (all_rules st ! i) \<and> f_proto fi' = of_nat n)"
proof -
  from assms obtain npt1 m where i: "identify env st (unat (nt_flow_nproto fi)) npt = Ret (npt1, m)"
    by (auto simp: nproto_rules_match_def run_bind_eq_Ret)
  show ?thesis
  proof (cases m)
    case None
    then show ?thesis using assms i by (auto simp: nproto_rules_match_def)
  next
    case (Some k)
    let ?f = "if is_fin (all_rules st ! k) then nt_flow_nproto_fin_set fi else fi"
    from assms i Some have u: "nproto_update hk hooks npt1 (all_rules st ! k) ?f = Ret fi'" and n: "n = r_ID (all_rules st ! k)"
      by (auto simp: nproto_rules_match_def run_bind_eq_Ret Let_def)
    from u have "f_proto fi' = of_nat (r_ID (all_rules st ! k))"
      by (cases "f_proto ?f = of_nat (r_ID (all_rules st ! k))") (auto simp: nproto_update_def run_bind_eq_Ret Let_def)
    then show ?thesis using i Some n by auto
  qed
qed

section \<open>Start and stop\<close>

datatype np_resource = Klog | MwmSys | Pcre | Rules | TestHooks | ProcDir | ProcDebug | ProcDump | StatTables | StatCache | StatProc | StatFlusher | NfHook

record np_start =
  klog_ok :: bool
  mwm_sys_ok :: bool
  pcre_init_ok :: bool
  test_ok :: bool
  dir_ok :: bool
  dbg_ok :: bool
  dump_ok :: bool
  stat_flow_ok :: bool
  stat_user_ok :: bool
  stat_cache_ok :: bool
  stat_proc_ok :: bool
  nf_ok :: bool

text \<open>The resources held afterwards, and whether it succeeded. Registering and building rules always returns 0.\<close>

definition nproto_init :: "np_start \<Rightarrow> np_resource set \<times> bool" where
  "nproto_init s = (if mwm_sys_ok s \<and> pcre_init_ok s then ({MwmSys, Pcre, Rules}, True) else ({}, False))"

definition nproto_cleanup :: "np_resource set \<Rightarrow> np_resource set" where
  "nproto_cleanup R = R - {MwmSys, Pcre, Rules}"

text \<open>When the debug file cannot be created, the clean-up reads a variable that was never set.\<close>

definition nproto_proc_init :: "np_start \<Rightarrow> (np_resource set \<times> bool) run" where
  "nproto_proc_init s =
     (if \<not> dir_ok s then Ret ({}, False)
      else if \<not> dbg_ok s then Fault Undefined
      else if \<not> dump_ok s then Ret ({}, False)
      else Ret ({ProcDir, ProcDebug, ProcDump}, True))"

definition nproto_proc_exit :: "np_resource set \<Rightarrow> np_resource set" where
  "nproto_proc_exit R = R - {ProcDir, ProcDebug, ProcDump}"

definition stat_resources :: "stat_owned \<Rightarrow> np_resource set" where
  "stat_resources o' = (if has_flow o' \<and> has_user o' then {StatTables} else {}) \<union> (if has_cache o' then {StatCache} else {}) \<union>
     (if has_proc o' then {StatProc} else {}) \<union> (if has_flusher o' then {StatFlusher} else {})"

definition stat_exit_res :: "np_resource set \<Rightarrow> np_resource set" where
  "stat_exit_res R = R - {StatTables, StatCache, StatProc, StatFlusher}"

definition nproto_module_init :: "np_start \<Rightarrow> (np_resource set \<times> bool) run" where
  "nproto_module_init s =
     (if \<not> klog_ok s then Ret ({}, False)
      else
        (let (R1, ok1) = nproto_init s
         in if \<not> ok1 then Ret ({}, False)
            else if \<not> test_ok s then Ret (nproto_cleanup ({Klog} \<union> R1) - {Klog}, False)
            else
              run_bind (nproto_proc_init s) (\<lambda>(R2, ok2).
                if \<not> ok2 then Ret (nproto_cleanup ({Klog, TestHooks} \<union> R1 \<union> R2 - {TestHooks}) - {Klog}, False)
                else
                  run_bind (stat_init (stat_flow_ok s) (stat_user_ok s) (stat_cache_ok s) (ProcDir \<in> R2) (stat_proc_ok s)) (\<lambda>(o', err).
                    (let R = {Klog, TestHooks} \<union> R1 \<union> R2 \<union> stat_resources o'
                     in if err \<noteq> None then Ret (nproto_cleanup (nproto_proc_exit R - {TestHooks}) - {Klog}, False)
                        else if \<not> nf_ok s then Ret (nproto_cleanup (nproto_proc_exit (stat_exit_res R) - {TestHooks}) - {Klog}, False)
                        else Ret (insert NfHook R, True))))))"

definition nproto_module_exit :: "np_resource set \<Rightarrow> np_resource set" where
  "nproto_module_exit R = nproto_cleanup (nproto_proc_exit (stat_exit_res (R - {NfHook})) - {TestHooks}) - {Klog}"

lemma module_init_total: "dbg_ok s \<Longrightarrow> nproto_module_init s \<noteq> Fault x"
  by (simp add: nproto_module_init_def nproto_proc_init_def nproto_init_def stat_init_def Let_def)

lemma failed_start_leaves_cache:
  assumes "nproto_module_init s = Ret (R, False)"
  shows "R = (if klog_ok s \<and> mwm_sys_ok s \<and> pcre_init_ok s \<and> test_ok s \<and> dir_ok s \<and> dbg_ok s \<and> dump_ok s \<and>
      stat_flow_ok s \<and> stat_user_ok s \<and> stat_cache_ok s \<and> \<not> stat_proc_ok s then {StatCache} else {})"
  using assms
  by (auto simp: nproto_module_init_def nproto_proc_init_def nproto_init_def stat_init_def Let_def nproto_cleanup_def
      nproto_proc_exit_def stat_resources_def stat_exit_res_def split: if_splits)

lemma module_exit_releases: "nproto_module_init s = Ret (R, True) \<Longrightarrow> nproto_module_exit R = {}"
  by (auto simp: nproto_module_init_def nproto_proc_init_def nproto_init_def stat_init_def Let_def nproto_cleanup_def
      nproto_proc_exit_def stat_resources_def stat_exit_res_def nproto_module_exit_def split: if_splits)

end
