(* ===== verification/Nfw.thy ===== *)
theory Nfw
  imports Nacs_Config
begin

text \<open>
  The module \<open>nfw\<close> (\<open>drivers/nfw/src\<close>): the last hook of the forward chain, which drops the flows
  that other modules marked (\<open>main.c\<close>), its debug filter with the proc file that sets it, and the
  log buffer that the hook writes and the proc file reads (\<open>nfw_debug.c\<close>). The composition with
  \<open>nacs\<close> is at the end. The text of a flow in log messages (\<open>FMT_FLOW\<close>) is a parameter.
\<close>

section \<open>State\<close>

definition DBG_IO_BUFF_SZ :: int where "DBG_IO_BUFF_SZ = 1024 * 16"

definition DBG_CMD_BUFF_SZ :: nat where "DBG_CMD_BUFF_SZ = 512"

datatype io_mem = IoNull | IoFreed | IoMem string

text \<open>The debug filter \<open>GDBG\<close> and the log buffer with its length and offset.\<close>

record nfw_state =
  dbg_addr :: u32
  dbg_mask :: u32
  dbg_port :: u16
  dbg_bypass :: u16
  nfw_dir :: bool
  io_buff :: io_mem
  io_length :: int
  io_offset :: int

section \<open>The log\<close>

text \<open>
  \<open>fw_log\<close> with the formatted message; \<open>trylock\<close> tells whether the lock was free. \<open>vsnprintf\<close> writes
  at most \<open>room\<close> characters, the last one NUL, and returns the full length.
\<close>

definition fw_log :: "bool \<Rightarrow> string \<Rightarrow> 'a nfw_state_scheme \<Rightarrow> 'a nfw_state_scheme run" where
  "fw_log trylock msg st =
     (if \<not> trylock then Ret st
      else
       (let room = DBG_IO_BUFF_SZ - io_offset st;
            len = int (length msg);
            offset = (if len > room then 0 else io_offset st + len);
            total = (if io_length st + len \<ge> DBG_IO_BUFF_SZ then DBG_IO_BUFF_SZ else io_length st + len);
            st' = st\<lparr>io_offset := offset, io_length := total\<rparr>
        in if room = 0 then Ret st'
           else case io_buff st of
             IoMem buf \<Rightarrow>
               (let out = take (nat room - 1) msg @ [CHR 0x00]
                in if room < 0 \<or> io_offset st < 0 \<or> nat (io_offset st) + length out > length buf then Fault Undefined
                   else Ret (st'\<lparr>io_buff := IoMem (take (nat (io_offset st)) buf @ out @ drop (nat (io_offset st) + length out) buf)\<rparr>))
           | _ \<Rightarrow> Fault Undefined))"

text \<open>\<open>nfw_read\<close> for \<open>count\<close> bytes of which \<open>miss\<close> cannot be copied: what arrives.\<close>

definition nfw_read :: "nat \<Rightarrow> nat \<Rightarrow> 'a nfw_state_scheme \<Rightarrow> (string \<times> 'a nfw_state_scheme) run" where
  "nfw_read count miss st =
     (if io_length st = 0 then Ret ([], st)
      else
       (let off = io_offset st - io_length st;
            buff_off = (if off < 0 then off + DBG_IO_BUFF_SZ else off);
            size = (if off < 0 then DBG_IO_BUFF_SZ - buff_off else io_length st);
            size = (if size > int count then int count else size);
            got = size - int (min miss (nat size))
        in case io_buff st of
             IoMem buf \<Rightarrow>
               (if buff_off < 0 \<or> size < 0 \<or> nat buff_off + nat size > length buf then Fault Undefined
                else Ret (take (nat got) (drop (nat buff_off) buf), st\<lparr>io_length := io_length st - got\<rparr>))
           | _ \<Rightarrow> Fault Undefined))"

section \<open>The debug filter\<close>

definition nfw_droplist_match :: "'a nfw_state_scheme \<Rightarrow> flow_info \<Rightarrow> int" where
  "nfw_droplist_match st fi =
     (if dbg_addr st \<noteq> 0 \<and> flow_srcip fi AND dbg_mask st \<noteq> dbg_addr st AND dbg_mask st then 0
      else if dbg_port st \<noteq> 0 \<and> flow_sport fi \<noteq> dbg_port st \<and> flow_dport fi \<noteq> dbg_port st then 0
      else if dbg_bypass st \<noteq> 0 then 1
      else -1)"

definition fw_debug_set_addr :: "u32 \<Rightarrow> u32 \<Rightarrow> 'a nfw_state_scheme \<Rightarrow> 'a nfw_state_scheme" where
  "fw_debug_set_addr addr nmask st = st\<lparr>dbg_addr := addr, dbg_mask := nmask\<rparr>"

definition fw_debug_set_port :: "u16 \<Rightarrow> 'a nfw_state_scheme \<Rightarrow> 'a nfw_state_scheme" where
  "fw_debug_set_port port st = st\<lparr>dbg_port := port\<rparr>"

definition fw_debug_set_bypass :: "u16 \<Rightarrow> 'a nfw_state_scheme \<Rightarrow> 'a nfw_state_scheme" where
  "fw_debug_set_bypass bypass st = st\<lparr>dbg_bypass := bypass\<rparr>"

text \<open>
  The netmask of a prefix length up to 32; the shift count of the target counts modulo 32.
\<close>

definition prefix_mask :: "u32 \<Rightarrow> u32" where
  "prefix_mask m = push_bit (unat (32 - m) mod 32) 0xFFFFFFFF"

text \<open>
  The part \<open>addr=\<close> of a command. \<open>in4_pton\<close> of the kernel is a parameter: from the text and its
  length, the address and the rest of the text. The length is the distance to the first
  slash, which must exist. None ends the command.
\<close>

definition write_addr ::
  "(string \<Rightarrow> nat \<Rightarrow> (u32 \<times> string) option) \<Rightarrow> string \<Rightarrow> 'a nfw_state_scheme \<Rightarrow> 'a nfw_state_scheme option run" where
  "write_addr in4_pton buf st =
     (case strstr buf ''addr='' of
        None \<Rightarrow> Ret (Some st)
      | Some cmd \<Rightarrow>
          (let cmd_start = drop 5 cmd
           in if CHR ''/'' \<notin> set cmd then Fault Undefined
              else case in4_pton cmd_start (length (takeWhile (\<lambda>c. c \<noteq> CHR ''/'') cmd_start)) of
                None \<Rightarrow> Ret None
              | Some (addr, cmd_end) \<Rightarrow>
                  (case cmd_end of
                     c # rest \<Rightarrow>
                       (if c = CHR ''/'' then
                          (let m = (case sscanf [PctU] rest of [ScanU m] \<Rightarrow> m | _ \<Rightarrow> 0);
                               m = (if m > 32 then 32 else m)
                           in Ret (Some (fw_debug_set_addr addr (prefix_mask m) st)))
                        else Ret (Some (fw_debug_set_addr addr 0 st)))
                   | [] \<Rightarrow> Ret (Some (fw_debug_set_addr addr 0 st)))))"

definition write_number :: "string \<Rightarrow> (u16 \<Rightarrow> 'a nfw_state_scheme \<Rightarrow> 'a nfw_state_scheme) \<Rightarrow> string \<Rightarrow> 'a nfw_state_scheme \<Rightarrow> 'a nfw_state_scheme option" where
  "write_number key set_it buf st =
     (case strstr buf key of
        None \<Rightarrow> Some st
      | Some cmd \<Rightarrow> (case sscanf [PctU] (drop (length key) cmd) of [ScanU v] \<Rightarrow> Some (set_it (ucast v) st) | _ \<Rightarrow> None))"

text \<open>
  \<open>nfw_write\<close> for the bytes \<open>user\<close> (None when they cannot be copied): the new state and the
  number of bytes taken, or an error. The buffer has 512 bytes; with 512 bytes written there
  is no NUL to end the string. A part that cannot be parsed ends the command but keeps what
  came before it.
\<close>

definition nfw_write ::
  "(string \<Rightarrow> nat \<Rightarrow> (u32 \<times> string) option) \<Rightarrow> bool \<Rightarrow> nat \<Rightarrow> string option \<Rightarrow> 'a nfw_state_scheme \<Rightarrow> ('a nfw_state_scheme \<times> (errno + nat)) run" where
  "nfw_write in4_pton kzalloc_ok count user st =
     (if count < 2 then Ret (st, Inr count)
      else if count > DBG_CMD_BUFF_SZ then Ret (st, Inl EIO)
      else if \<not> kzalloc_ok then Ret (st, Inl ENOMEM)
      else case user of
        None \<Rightarrow> Ret (st, Inr count)
      | Some bytes \<Rightarrow>
          (let mem = take count bytes @ replicate (DBG_CMD_BUFF_SZ - count) (CHR 0x00); buf = cstr mem
           in if CHR 0x00 \<notin> set mem then Fault Undefined
              else run_bind (write_addr in4_pton buf st) (\<lambda>r.
                case r of
                  None \<Rightarrow> Ret (st, Inr count)
                | Some st \<Rightarrow>
                    (case write_number ''port='' fw_debug_set_port buf st of
                       None \<Rightarrow> Ret (st, Inr count)
                     | Some st \<Rightarrow>
                         (case write_number ''bypass='' fw_debug_set_bypass buf st of
                            None \<Rightarrow> Ret (st, Inr count)
                          | Some st \<Rightarrow> Ret (st, Inr count))))))"

section \<open>The hook\<close>

text \<open>
  \<open>nfw_hook_fn\<close>: the conntrack entry as in \<open>nos\<close>, the flow node behind it; the pointers of a node
  are never NULL (\<open>nt_flow\<close>, \<open>nt_user\<close> and \<open>nt_peer\<close> compute addresses and assert the id).
\<close>

definition nfw_hook_fn ::
  "(flow_info \<Rightarrow> string) \<Rightarrow> bool \<Rightarrow> u32 \<Rightarrow> u32 \<Rightarrow> conn_view option \<Rightarrow> flow_info \<Rightarrow> 'a nfw_state_scheme \<Rightarrow> (verdict \<times> flow_info \<times> 'a nfw_state_scheme) run" where
  "nfw_hook_fn fmt_flow trylock flow_max user_max co flow_of st =
     (case co of
        None \<Rightarrow> Ret (NF_ACCEPT, flow_of, st)
      | Some c \<Rightarrow>
          (if untracked c then Ret (NF_ACCEPT, flow_of, st)
           else case nos_of c of
             None \<Rightarrow> Ret (NF_ACCEPT, flow_of, st)
           | Some nt \<Rightarrow>
               run_bind (nt_flow flow_max flow_of) (\<lambda>fi.
               run_bind (nt_user user_max nt) (\<lambda>ui.
               run_bind (nt_peer user_max nt) (\<lambda>pi.
                 if nt_flow_accepted fi then Ret (NF_ACCEPT, fi, st)
                 else if nt_flow_droped fi then
                   (let ret = nfw_droplist_match st fi
                    in if ret = 0 then Ret (NF_DROP, fi, st)
                       else if ret > 0 then
                         (if \<not> nt_flow_dbg_rlmt fi then
                            run_bind (fw_log trylock (fmt_flow fi @ '' bypass\<newline>'') st) (\<lambda>st.
                              Ret (NF_ACCEPT, nt_flow_dbg_rlmt_set fi, st))
                          else Ret (NF_ACCEPT, fi, st))
                       else run_bind (fw_log trylock (fmt_flow fi @ '' drop\<newline>'') st) (\<lambda>st. Ret (NF_DROP, fi, st)))
                 else Ret (NF_ACCEPT, fi, st))))))"

section \<open>Start and stop\<close>

record nfw_start =
  nfw_klog_ok :: bool
  vmalloc_ok :: bool
  vmalloc_junk :: string
  proc_mkdir_ok :: bool
  proc_create_ok :: bool
  nf_register_result :: "errno option"

record nfw_module = nfw_state +
  nfw_klog_fd :: bool
  nfw_hooked :: bool

definition nfw_unloaded :: nfw_module where
  "nfw_unloaded = \<lparr>dbg_addr = 0, dbg_mask = 0, dbg_port = 0, dbg_bypass = 0, nfw_dir = False, io_buff = IoNull,
     io_length = 0, io_offset = 0, nfw_klog_fd = False, nfw_hooked = False\<rparr>"

definition nfw_dbg_init :: "nfw_start \<Rightarrow> nfw_module \<Rightarrow> nfw_module \<times> errno option" where
  "nfw_dbg_init s m =
     (let m = m\<lparr>dbg_addr := 0, dbg_mask := 0xFFFFFFFF, dbg_port := 0, dbg_bypass := 0, nfw_dir := False\<rparr>
      in if \<not> vmalloc_ok s then (m\<lparr>io_buff := IoNull\<rparr>, Some ENOMEM)
         else if \<not> proc_mkdir_ok s \<or> \<not> proc_create_ok s then (m\<lparr>io_buff := IoNull\<rparr>, Some EINVAL)
         else (m\<lparr>io_buff := IoMem (take (nat DBG_IO_BUFF_SZ) (vmalloc_junk s @ replicate (nat DBG_IO_BUFF_SZ) (CHR 0x00))), nfw_dir := True\<rparr>, None))"

definition nfw_dbg_exit :: "nfw_module \<Rightarrow> nfw_module" where
  "nfw_dbg_exit m = m\<lparr>nfw_dir := False, io_buff := (case io_buff m of IoNull \<Rightarrow> IoNull | _ \<Rightarrow> IoFreed)\<rparr>"

definition nfw_modules_init :: "nfw_start \<Rightarrow> nfw_module \<times> errno option" where
  "nfw_modules_init s =
     (if \<not> nfw_klog_ok s then (nfw_unloaded, Some ENOMEM)
      else
       (let (m, err) = nfw_dbg_init s (nfw_unloaded\<lparr>nfw_klog_fd := True\<rparr>)
        in case err of
             Some e \<Rightarrow> ((nfw_dbg_exit m)\<lparr>nfw_klog_fd := False\<rparr>, Some e)
           | None \<Rightarrow>
               (case nf_register_result s of
                  Some e \<Rightarrow> ((nfw_dbg_exit m)\<lparr>nfw_klog_fd := False\<rparr>, Some e)
                | None \<Rightarrow> (m\<lparr>nfw_hooked := True\<rparr>, None))))"

text \<open>The two steps of \<open>nfw_modules_exit\<close> between which a packet may still arrive.\<close>

definition nfw_exit_debug :: "nfw_module \<Rightarrow> nfw_module" where
  "nfw_exit_debug m = nfw_dbg_exit m"

definition nfw_exit_hooks :: "nfw_module \<Rightarrow> nfw_module" where
  "nfw_exit_hooks m = m\<lparr>nfw_hooked := False, nfw_klog_fd := False\<rparr>"

section \<open>The log stays in its buffer\<close>

definition nfw_ok :: "'a nfw_state_scheme \<Rightarrow> bool" where
  "nfw_ok st \<longleftrightarrow> (\<exists>buf. io_buff st = IoMem buf \<and> int (length buf) = DBG_IO_BUFF_SZ)
     \<and> 0 \<le> io_offset st \<and> io_offset st \<le> DBG_IO_BUFF_SZ \<and> 0 \<le> io_length st \<and> io_length st \<le> DBG_IO_BUFF_SZ"

datatype nfw_op = LogMsg bool string | ReadLog nat nat

text \<open>Any sequence of log messages and reads, with what the reads return.\<close>

fun nfw_run :: "nfw_op list \<Rightarrow> 'a nfw_state_scheme \<Rightarrow> (string list \<times> 'a nfw_state_scheme) run" where
  "nfw_run [] st = Ret ([], st)"
| "nfw_run (LogMsg l msg # ops) st = run_bind (fw_log l msg st) (nfw_run ops)"
| "nfw_run (ReadLog n miss # ops) st =
     run_bind (nfw_read n miss st) (\<lambda>(out, st). run_bind (nfw_run ops st) (\<lambda>(outs, st). Ret (out # outs, st)))"

lemma fw_log_ok:
  assumes "nfw_ok st"
  shows "\<exists>st'. fw_log l msg st = Ret st' \<and> nfw_ok st'
    \<and> dbg_addr st' = dbg_addr st \<and> dbg_mask st' = dbg_mask st \<and> dbg_port st' = dbg_port st \<and> dbg_bypass st' = dbg_bypass st"
proof -
  obtain buf where buf: "io_buff st = IoMem buf" "int (length buf) = DBG_IO_BUFF_SZ" and r: "0 \<le> io_offset st" "io_offset st \<le> DBG_IO_BUFF_SZ"
    "0 \<le> io_length st" "io_length st \<le> DBG_IO_BUFF_SZ"
    using assms by (auto simp: nfw_ok_def)
  define out where "out = take (nat (DBG_IO_BUFF_SZ - io_offset st) - 1) msg @ [CHR 0x00]"
  show ?thesis
  proof (cases "\<not> l \<or> io_offset st = DBG_IO_BUFF_SZ")
    case True
    then show ?thesis using assms r by (auto simp: fw_log_def Let_def nfw_ok_def DBG_IO_BUFF_SZ_def)
  next
    case False
    then have "0 < DBG_IO_BUFF_SZ - io_offset st" using r by simp
    moreover have "length out \<le> Suc (nat (DBG_IO_BUFF_SZ - io_offset st) - 1)" by (simp add: out_def)
    ultimately have "int (length out) \<le> DBG_IO_BUFF_SZ - io_offset st" by linarith
    then have fit: "nat (io_offset st) + length out \<le> length buf" using buf(2) r(1) by linarith
    with False r buf show ?thesis
      by (auto simp: fw_log_def Let_def nfw_ok_def out_def [symmetric])
  qed
qed

lemma nfw_read_ok:
  assumes "nfw_ok st"
  shows "\<exists>out st'. nfw_read n miss st = Ret (out, st') \<and> nfw_ok st' \<and> length out \<le> n"
proof -
  obtain buf where buf: "io_buff st = IoMem buf" "int (length buf) = DBG_IO_BUFF_SZ" and r: "0 \<le> io_offset st" "io_offset st \<le> DBG_IO_BUFF_SZ"
    "0 \<le> io_length st" "io_length st \<le> DBG_IO_BUFF_SZ"
    using assms by (auto simp: nfw_ok_def)
  define off where "off = io_offset st - io_length st"
  define start where "start = (if off < 0 then off + DBG_IO_BUFF_SZ else off)"
  define size0 where "size0 = (if off < 0 then DBG_IO_BUFF_SZ - start else io_length st)"
  define sz where "sz = (if size0 > int n then int n else size0)"
  define got where "got = sz - int (min miss (nat sz))"
  have "0 \<le> start" "start + size0 \<le> DBG_IO_BUFF_SZ" "0 \<le> size0" "size0 \<le> io_length st"
    using r by (auto simp: start_def size0_def off_def)
  then have s: "0 \<le> start" "0 \<le> sz" "start + sz \<le> DBG_IO_BUFF_SZ" "sz \<le> io_length st" "sz \<le> int n" by (auto simp: sz_def)
  then have g: "0 \<le> got" "got \<le> sz" by (auto simp: got_def)
  have fit: "\<not> (start < 0 \<or> sz < 0 \<or> length buf < nat start + nat sz)" using s buf(2) by linarith
  show ?thesis
  proof (cases "io_length st = 0")
    case True
    then show ?thesis using assms by (simp add: nfw_read_def)
  next
    case False
    have "nfw_read n miss st = Ret (take (nat got) (drop (nat start) buf), st\<lparr>io_length := io_length st - got\<rparr>)"
      unfolding nfw_read_def Let_def off_def [symmetric] start_def [symmetric] size0_def [symmetric] sz_def [symmetric] got_def [symmetric]
      using False buf fit by simp
    moreover have "nfw_ok (st\<lparr>io_length := io_length st - got\<rparr>)" using buf r s g by (auto simp: nfw_ok_def)
    moreover have "length (take (nat got) (drop (nat start) buf)) \<le> n" using g s by simp
    ultimately show ?thesis by blast
  qed
qed

lemma nfw_run_ok:
  assumes "nfw_ok st"
  shows "\<exists>outs st'. nfw_run ops st = Ret (outs, st') \<and> nfw_ok st'"
  using assms
proof (induction ops arbitrary: st)
  case Nil
  then show ?case by simp
next
  case (Cons op ops)
  show ?case
  proof (cases op)
    case (LogMsg l msg)
    then show ?thesis using fw_log_ok [OF Cons.prems, of l msg] Cons.IH by auto
  next
    case (ReadLog n miss)
    obtain out st1 where "nfw_read n miss st = Ret (out, st1)" "nfw_ok st1" using nfw_read_ok [OF Cons.prems] by blast
    then show ?thesis using ReadLog Cons.IH [of st1] by auto
  qed
qed

lemma log_then_read:
  assumes "nfw_ok st" and "io_length st = 0" and "int (length msg) < DBG_IO_BUFF_SZ - io_offset st" and "msg \<noteq> []"
  shows "\<exists>st1 st2. fw_log True msg st = Ret st1 \<and> nfw_read n 0 st1 = Ret (take n msg, st2)"
proof -
  obtain buf where buf: "io_buff st = IoMem buf" "int (length buf) = DBG_IO_BUFF_SZ" and r: "0 \<le> io_offset st"
    using assms(1) by (auto simp: nfw_ok_def)
  define o1 where "o1 = nat (io_offset st)"
  have o1: "io_offset st = int o1" using r by (simp add: o1_def)
  have len: "o1 + length msg < length buf" using assms(3) buf(2) o1 by linarith
  have t: "take (nat (DBG_IO_BUFF_SZ - io_offset st) - 1) msg = msg" using assms(3) by simp
  have small: "\<not> DBG_IO_BUFF_SZ \<le> int (length msg)" using assms(3) r by simp
  define b1 where "b1 = take o1 buf @ (msg @ [CHR 0x00]) @ drop (o1 + length (msg @ [CHR 0x00])) buf"
  have log: "fw_log True msg st = Ret (st\<lparr>io_offset := int o1 + int (length msg), io_length := int (length msg), io_buff := IoMem b1\<rparr>)"
    using assms(2,3) buf(1) len small unfolding fw_log_def Let_def t by (simp add: o1 b1_def)
  have "length b1 = length buf" using len by (simp add: b1_def)
  moreover have "drop o1 b1 = msg @ CHR 0x00 # drop (o1 + length (msg @ [CHR 0x00])) buf" using len by (simp add: b1_def)
  ultimately have "\<exists>st2. nfw_read n 0 (st\<lparr>io_offset := int o1 + int (length msg), io_length := int (length msg), io_buff := IoMem b1\<rparr>)
      = Ret (take n msg, st2)"
    using len assms(4) by (auto simp: nfw_read_def Let_def)
  with log show ?thesis by blast
qed

section \<open>Properties\<close>

text \<open>
  C25: whatever is logged and however the log is read, in any order, the log buffer is never
  accessed outside its 16384 bytes; and a message that fits behind the current position is
  what the next read of an emptied log returns.
\<close>

theorem nfw_log_in_bounds:
  assumes "nfw_ok st"
  shows "(\<exists>outs st'. nfw_run ops st = Ret (outs, st') \<and> nfw_ok st')
    \<and> (io_length st = 0 \<and> int (length msg) < DBG_IO_BUFF_SZ - io_offset st \<and> msg \<noteq> [] \<longrightarrow>
        (\<exists>st1 st2. fw_log True msg st = Ret st1 \<and> nfw_read n 0 st1 = Ret (take n msg, st2)))"
  using nfw_run_ok [OF assms] log_then_read [OF assms] by blast

definition demo_nfw :: nfw_state where
  "demo_nfw = \<lparr>dbg_addr = 0, dbg_mask = 0xFFFFFFFF, dbg_port = 0, dbg_bypass = 0, nfw_dir = True,
     io_buff = IoMem (replicate (nat DBG_IO_BUFF_SZ) (CHR 0x00)), io_length = 0, io_offset = 0\<rparr>"

lemma demo_nfw_ok: "nfw_ok demo_nfw"
  by (simp add: nfw_ok_def demo_nfw_def DBG_IO_BUFF_SZ_def)

theorem nfw_log_in_bounds_witness:
  "\<exists>st1 st2. fw_log True ''fid: 1'' demo_nfw = Ret st1 \<and> nfw_read 3 0 st1 = Ret (''fid'', st2)"
proof -
  have "io_length demo_nfw = 0 \<and> int (length ''fid: 1'') < DBG_IO_BUFF_SZ - io_offset demo_nfw \<and> ''fid: 1'' \<noteq> []"
    by (simp add: demo_nfw_def DBG_IO_BUFF_SZ_def)
  with nfw_log_in_bounds [OF demo_nfw_ok, of _ "''fid: 1''" 3] show ?thesis by simp
qed

text \<open>
  What the hook decides: a flow that was accepted passes, any other flow that was marked by some
  module is dropped unless the debug filter lets it through.
\<close>

lemma nfw_hook_verdict:
  assumes "nfw_ok st" and "nos_of c = Some nt" and "\<not> untracked c" and "f_id fi < flow_max"
    and "u_id (ui_src nt) < user_max" and "u_id (ui_dst nt) < user_max"
  shows "\<exists>v fi' st'. nfw_hook_fn fmt_flow l flow_max user_max (Some c) fi st = Ret (v, fi', st') \<and> nfw_ok st'
    \<and> v = (if \<not> nt_flow_accepted fi \<and> nt_flow_droped fi \<and> nfw_droplist_match st fi \<le> 0 then NF_DROP else NF_ACCEPT)
    \<and> (v = NF_DROP \<longrightarrow> fi' = fi)"
proof -
  obtain st1 st2 where log: "fw_log l (fmt_flow fi @ '' bypass\<newline>'') st = Ret st1" "nfw_ok st1"
    "fw_log l (fmt_flow fi @ '' drop\<newline>'') st = Ret st2" "nfw_ok st2"
    using fw_log_ok [OF assms(1)] by metis
  show ?thesis
    using assms log by (auto simp: nfw_hook_fn_def nt_flow_def nt_user_def nt_peer_def Let_def)
qed

text \<open>The flags after a check, read the way \<open>nfw\<close> does.\<close>

lemma decided_flags:
  assumes "\<forall>k < 32. bit (flags fi') k \<longleftrightarrow> decided_bit ctl aud (flags fi) k" and "\<forall>k. 18 \<le> k \<and> k < 24 \<longrightarrow> \<not> bit (flags fi) k"
  shows "nt_flow_accepted fi' \<longleftrightarrow> (\<exists>s fl. ctl = Some (s, fl) \<and> \<not> rejects fl)"
    and "nt_flow_droped fi' \<longleftrightarrow> (\<exists>s fl. ctl = Some (s, fl) \<and> rejects fl) \<or> (\<exists>k. 8 \<le> k \<and> k < 16 \<and> k \<noteq> 9 \<and> k \<noteq> 10 \<and> bit (flags fi) k)"
proof -
  have a: "bit (flags fi') k \<longleftrightarrow> k = 16 \<and> (\<exists>fl. ctl = Some (True, fl) \<and> \<not> rejects fl) \<or> k = 17 \<and> (\<exists>fl. ctl = Some (False, fl) \<and> \<not> rejects fl)"
    if "16 \<le> k" "k < 24" for k
    using that assms(1) [rule_format, of k] assms(2) [rule_format, of k] by (auto simp: decided_bit_def)
  show "nt_flow_accepted fi' \<longleftrightarrow> (\<exists>s fl. ctl = Some (s, fl) \<and> \<not> rejects fl)" (is "?l \<longleftrightarrow> ?r")
  proof
    assume ?l
    then show ?r unfolding flow_flag_iff using a by blast
  next
    assume ?r
    then obtain s fl where d: "ctl = Some (s, fl)" "\<not> rejects fl" by blast
    then have "bit (flags fi') (if s then 16 else 17)" using a [of "if s then 16 else 17"] by (cases s) auto
    then show ?l unfolding flow_flag_iff by (intro exI [of _ "if s then 16 else 17"]) auto
  qed
  have d: "bit (flags fi') k \<longleftrightarrow> (if k = 9 then \<exists>fl. ctl = Some (True, fl) \<and> rejects fl
      else if k = 10 then \<exists>fl. ctl = Some (False, fl) \<and> rejects fl else bit (flags fi) k)" if "8 \<le> k" "k < 16" for k
    using that assms(1) [rule_format, of k] by (auto simp: decided_bit_def)
  show "nt_flow_droped fi' \<longleftrightarrow> (\<exists>s fl. ctl = Some (s, fl) \<and> rejects fl) \<or> (\<exists>k. 8 \<le> k \<and> k < 16 \<and> k \<noteq> 9 \<and> k \<noteq> 10 \<and> bit (flags fi) k)"
    (is "?l \<longleftrightarrow> ?r \<or> ?o")
  proof
    assume ?l
    then show "?r \<or> ?o" unfolding flow_flag_iff using d by (metis (no_types, lifting))
  next
    assume "?r \<or> ?o"
    then show ?l
    proof
      assume ?r
      then obtain s fl where x: "ctl = Some (s, fl)" "rejects fl" by blast
      then have "bit (flags fi') (if s then 9 else 10)" using d [of "if s then 9 else 10"] by (cases s) auto
      then show ?l unfolding flow_flag_iff by (intro exI [of _ "if s then 9 else 10"]) auto
    next
      assume ?o
      then show ?l unfolding flow_flag_iff using d by (metis (no_types, lifting))
    qed
  qed
qed

section \<open>The packets of a flow\<close>

text \<open>
  A packet on its way through the two hooks: where it is handled, what it carries, its connection, and
  whether the log can be locked. The hook of \<open>nacs\<close> comes first.
\<close>

record fwd_packet =
  fp_env :: hook_env
  fp_cpu :: nat
  fp_in :: net_device
  fp_out :: net_device
  fp_skb :: sk_buff
  fp_conn :: conn_view
  fp_lock :: bool

definition forward_hooks ::
  "(flow_info \<Rightarrow> string) \<Rightarrow> nat \<Rightarrow> nac_state \<Rightarrow> u32 \<Rightarrow> u32 \<Rightarrow> fwd_packet \<Rightarrow> flow_info \<Rightarrow> 'a nfw_state_scheme
   \<Rightarrow> (verdict \<times> flow_info \<times> 'a nfw_state_scheme) run" where
  "forward_hooks fmt_flow fuel st flow_max user_max p fi fw =
     run_bind (nacs_hook_fn (fp_env p) fuel (fp_cpu p) st flow_max user_max (fp_in p) (fp_out p) (fp_skb p) (Some (fp_conn p)) fi) (\<lambda>(v, fi, ms).
       if v \<noteq> NF_ACCEPT then Ret (v, fi, fw)
       else nfw_hook_fn fmt_flow (fp_lock p) flow_max user_max (Some (fp_conn p)) fi fw)"

fun forward_all ::
  "(flow_info \<Rightarrow> string) \<Rightarrow> nat \<Rightarrow> nac_state \<Rightarrow> u32 \<Rightarrow> u32 \<Rightarrow> fwd_packet list \<Rightarrow> flow_info \<Rightarrow> 'a nfw_state_scheme
   \<Rightarrow> (verdict list \<times> flow_info \<times> 'a nfw_state_scheme) run" where
  "forward_all fmt_flow fuel st flow_max user_max [] fi fw = Ret ([], fi, fw)"
| "forward_all fmt_flow fuel st flow_max user_max (p # ps) fi fw =
     run_bind (forward_hooks fmt_flow fuel st flow_max user_max p fi fw) (\<lambda>(v, fi, fw).
     run_bind (forward_all fmt_flow fuel st flow_max user_max ps fi fw) (\<lambda>(vs, fi, fw). Ret (v # vs, fi, fw)))"

text \<open>The connection has nodes of both users, in the range of their table.\<close>

definition conn_nodes :: "u32 \<Rightarrow> conn_view \<Rightarrow> bool" where
  "conn_nodes user_max c \<longleftrightarrow> \<not> untracked c \<and> (\<exists>nt. nos_of c = Some nt \<and> u_id (ui_src nt) < user_max \<and> u_id (ui_dst nt) < user_max)"

text \<open>With the debug filter not set to bypass, \<open>nfw\<close> reads the flow only.\<close>

definition dropped_flow :: "flow_info \<Rightarrow> bool" where
  "dropped_flow fi \<longleftrightarrow> \<not> nt_flow_accepted fi \<and> nt_flow_droped fi"

lemma nfw_hook_plain:
  assumes "nfw_ok st" and "dbg_bypass st = 0" and "conn_nodes user_max c" and "f_id fi < flow_max"
  shows "\<exists>st'. nfw_hook_fn fmt_flow l flow_max user_max (Some c) fi st = Ret (if dropped_flow fi then NF_DROP else NF_ACCEPT, fi, st')
    \<and> nfw_ok st' \<and> dbg_bypass st' = 0"
proof -
  obtain st2 where log: "fw_log l (fmt_flow fi @ '' drop\<newline>'') st = Ret st2" "nfw_ok st2" "dbg_bypass st2 = 0"
    using fw_log_ok [OF assms(1)] assms(2) by metis
  have "nfw_droplist_match st fi \<le> 0" using assms(2) by (simp add: nfw_droplist_match_def)
  then show ?thesis
    using assms log by (auto simp: nfw_hook_fn_def conn_nodes_def dropped_flow_def nt_flow_def nt_user_def nt_peer_def Let_def)
qed

text \<open>A flow that was checked under the version in force keeps its verdict.\<close>

lemma forward_checked:
  assumes "nacs_magic fi = magic st" and "nfw_ok fw" and "dbg_bypass fw = 0" and "f_id fi < flow_max"
    and "\<forall>p \<in> set ps. conn_nodes user_max (fp_conn p)"
  shows "\<exists>fw'. forward_all fmt_flow fuel st flow_max user_max ps fi fw =
    Ret (replicate (length ps) (if dropped_flow fi then NF_DROP else NF_ACCEPT), fi, fw')"
  using assms(2,3,5)
proof (induction ps arbitrary: fw)
  case Nil
  then show ?case by simp
next
  case (Cons p ps)
  then have c: "conn_nodes user_max (fp_conn p)" by simp
  then have "nacs_hook_fn (fp_env p) fuel (fp_cpu p) st flow_max user_max (fp_in p) (fp_out p) (fp_skb p) (Some (fp_conn p)) fi
      = Ret (NF_ACCEPT, fi, [])"
    using assms(1,4) by (auto simp: nacs_hook_fn_def conn_nodes_def nt_flow_def nt_user_def nt_peer_def do_ac_table_hk_def)
  moreover obtain fw1 where "nfw_hook_fn fmt_flow (fp_lock p) flow_max user_max (Some (fp_conn p)) fi fw
      = Ret (if dropped_flow fi then NF_DROP else NF_ACCEPT, fi, fw1)" "nfw_ok fw1" "dbg_bypass fw1 = 0"
    using nfw_hook_plain [OF Cons.prems(1,2) c assms(4)] by blast
  ultimately show ?case using Cons.IH [of fw1] Cons.prems(3) by (auto simp: forward_hooks_def)
qed

text \<open>
  C24: what the lists and rules of \<open>nacs\<close> decide is what happens to the packets of a flow. Take a
  reachable configuration and an identified flow not yet checked under it, that no module but \<open>nacs\<close>
  has marked accepted, and a sequence of its packets, on any CPUs and in any direction, through the
  hook of \<open>nacs\<close> and then that of \<open>nfw\<close> (with the debug filter not set to bypass), while the
  configuration stays. The first packet is dropped exactly when the decision on it is to reject, or
  when there is no decision and another module had marked the flow; an accepting decision outweighs
  the marks of other modules, that of the login gate included. Every later packet gets the
  same verdict.
\<close>

theorem rejected_flows_are_dropped:
  assumes "nacs_reach env ips st its" and "fp_cpu p < ncpu env" and "ncpu env < 2 ^ 20" and "ipset_ids_ok ips"
    and "\<forall>t < RULE_TYPE_MAX. length (its t) < fuel" and "f_proto fi \<noteq> 0" and "nacs_magic fi \<noteq> magic st"
    and "nfw_ok fw" and "dbg_bypass fw = 0" and "\<forall>k. 18 \<le> k \<and> k < 24 \<longrightarrow> \<not> bit (flags fi) k"
    and "\<forall>q \<in> set (p # ps). conn_nodes user_max (fp_conn q)" and "f_id fi < flow_max" and "nos_of (fp_conn p) = Some nt"
  shows "let ctl = nacs_decide (fp_env p) \<lparr>rq_in = fp_in p, rq_out = fp_out p, rq_skb = fp_skb p, rq_fi = fi, rq_ui = ui_src nt, rq_pi = ui_dst nt,
               rq_proto = f_proto fi\<rparr> (priv_sets st ! RULE_TYPE_CONTROL) (its RULE_TYPE_CONTROL)
         in \<exists>v fi' fw'. forward_all fmt_flow fuel st flow_max user_max (p # ps) fi fw = Ret (replicate (Suc (length ps)) v, fi', fw')
            \<and> v \<in> {NF_ACCEPT, NF_DROP}
            \<and> (v = NF_DROP \<longleftrightarrow> (\<exists>s fl. ctl = Some (s, fl) \<and> rejects fl)
                 \<or> ctl = None \<and> (\<exists>k. 8 \<le> k \<and> k < 16 \<and> k \<noteq> 9 \<and> k \<noteq> 10 \<and> bit (flags fi) k))"
proof -
  define req where "req = \<lparr>rq_in = fp_in p, rq_out = fp_out p, rq_skb = fp_skb p, rq_fi = fi, rq_ui = ui_src nt, rq_pi = ui_dst nt, rq_proto = f_proto fi\<rparr>"
  define ctl where "ctl = nacs_decide (fp_env p) req (priv_sets st ! RULE_TYPE_CONTROL) (its RULE_TYPE_CONTROL)"
  define aud where "aud = nacs_decide (fp_env p) req (priv_sets st ! RULE_TYPE_AUDIT) (its RULE_TYPE_AUDIT)"
  have ok: "nac_ok env st its" using nacs_reach_ok [OF assms(1) _ assms(3,4)] assms(2) by simp
  obtain fi' ms where f: "do_ac_table_hk (fp_env p) fuel (fp_cpu p) st (fp_in p) (fp_out p) (fp_skb p) fi (ui_src nt) (ui_dst nt) = Ret (fi', ms)"
    "fi' = fi\<lparr>flags := flags fi', nacs_magic := magic st\<rparr>" "\<forall>k < 32. bit (flags fi') k \<longleftrightarrow> decided_bit ctl aud (flags fi) k"
    using hook_decides [OF ok assms(2,5,6,7), where henv = "fp_env p" and din = "fp_in p" and dout = "fp_out p" and skb = "fp_skb p"
        and ui = "ui_src nt" and pi = "ui_dst nt"]
    unfolding Let_def req_def [symmetric] ctl_def [symmetric] aud_def [symmetric] by blast
  have id: "f_id fi' < flow_max" "nacs_magic fi' = magic st" using assms(12) by (subst f(2), simp)+
  have c: "conn_nodes user_max (fp_conn p)" "\<forall>q \<in> set ps. conn_nodes user_max (fp_conn q)" using assms(11) by simp_all
  have h: "nacs_hook_fn (fp_env p) fuel (fp_cpu p) st flow_max user_max (fp_in p) (fp_out p) (fp_skb p) (Some (fp_conn p)) fi = Ret (NF_ACCEPT, fi', ms)"
    using f(1) assms(12,13) c(1) by (auto simp: nacs_hook_fn_def conn_nodes_def nt_flow_def nt_user_def nt_peer_def)
  obtain fw1 where w: "nfw_hook_fn fmt_flow (fp_lock p) flow_max user_max (Some (fp_conn p)) fi' fw
      = Ret (if dropped_flow fi' then NF_DROP else NF_ACCEPT, fi', fw1)" "nfw_ok fw1" "dbg_bypass fw1 = 0"
    using nfw_hook_plain [OF assms(8,9) c(1) id(1)] by blast
  have "\<exists>fw'. forward_all fmt_flow fuel st flow_max user_max (p # ps) fi fw
      = Ret (replicate (Suc (length ps)) (if dropped_flow fi' then NF_DROP else NF_ACCEPT), fi', fw')"
    using forward_checked [OF id(2) w(2,3) id(1) c(2), of fmt_flow fuel] h w(1) by (auto simp: forward_hooks_def)
  moreover have "dropped_flow fi' \<longleftrightarrow> (\<exists>s fl. ctl = Some (s, fl) \<and> rejects fl)
       \<or> ctl = None \<and> (\<exists>k. 8 \<le> k \<and> k < 16 \<and> k \<noteq> 9 \<and> k \<noteq> 10 \<and> bit (flags fi) k)"
    unfolding dropped_flow_def decided_flags [OF f(3) assms(10)] by (cases ctl) auto
  ultimately show ?thesis unfolding Let_def req_def [symmetric] ctl_def [symmetric]
    by (auto intro!: exI [of _ "if dropped_flow fi' then NF_DROP else NF_ACCEPT"])
qed

definition demo_conn :: conn_view where
  "demo_conn = \<lparr>conn = \<lparr>ct_status = 0\<rparr>, untracked = False, dir_original = True, nos_of = Some \<lparr>ui_src = demo_lan_user, ui_dst = demo_wan_peer\<rparr>\<rparr>"

definition demo_fwd :: fwd_packet where
  "demo_fwd = \<lparr>fp_env = demo_env, fp_cpu = 0, fp_in = demo_eth0, fp_out = demo_eth0, fp_skb = demo_skb, fp_conn = demo_conn, fp_lock = True\<rparr>"

theorem rejected_flows_are_dropped_witness:
  "\<exists>st fi' fw'. forward_all (\<lambda>fi. ''flow'') 10 st 100 100 [demo_fwd, demo_fwd\<lparr>fp_cpu := 1\<rparr>] demo_new_flow demo_nfw
     = Ret ([NF_DROP, NF_DROP], fi', fw')"
proof -
  obtain st where st: "nacs_reach demo_nacs_env demo_ipsets st demo_rules" "magic st = 1000" "\<forall>t < 2. si_number (priv_sets st ! t) = 0"
    using demo_reach by blast
  have env: "fp_cpu demo_fwd < ncpu demo_nacs_env" "ncpu demo_nacs_env < 2 ^ 20" by (simp_all add: demo_nacs_env_def demo_fwd_def)
  let ?nt = "\<lparr>ui_src = demo_lan_user, ui_dst = demo_wan_peer\<rparr>" and ?ps = "[demo_fwd\<lparr>fp_cpu := 1\<rparr>]"
  have "(32 :: u32) = push_bit 5 1" by simp
  then have b: "bit (32 :: u32) k \<longleftrightarrow> k = 5" for k by (simp only: bit_push_bit_iff bit_1_iff) auto
  have f: "f_proto demo_new_flow \<noteq> 0" "nacs_magic demo_new_flow \<noteq> magic st" "dbg_bypass demo_nfw = 0"
    "\<forall>q \<in> set (demo_fwd # ?ps). conn_nodes 100 (fp_conn q)" "f_id demo_new_flow < 100" "nos_of (fp_conn demo_fwd) = Some ?nt"
    using st(2) by (simp_all add: demo_new_flow_def demo_flow_def demo_nfw_def demo_conn_def demo_fwd_def conn_nodes_def demo_lan_user_def
        demo_wan_peer_def demo_ui_def)
  have g: "\<forall>k. 18 \<le> k \<and> k < 24 \<longrightarrow> \<not> bit (flags demo_new_flow) k"
  proof -
    have "flags demo_new_flow = 32" by (simp add: demo_new_flow_def demo_flow_def)
    with b show ?thesis by presburger
  qed
  have "nacs_decide (fp_env demo_fwd) \<lparr>rq_in = fp_in demo_fwd, rq_out = fp_out demo_fwd, rq_skb = fp_skb demo_fwd, rq_fi = demo_new_flow, rq_ui = ui_src ?nt,
      rq_pi = ui_dst ?nt, rq_proto = f_proto demo_new_flow\<rparr> (priv_sets st ! RULE_TYPE_CONTROL) (demo_rules RULE_TYPE_CONTROL) = Some (False, 6)"
    using demo_decision [of "priv_sets st ! 0"] st(3) by (simp add: RULE_TYPE_CONTROL_def demo_rules_def demo_new_flow_def)
  moreover have "rejects 6" by (simp add: rejects_def)
  ultimately show ?thesis
    using rejected_flows_are_dropped [OF st(1) env demo_ipset_ids demo_rules_short f(1,2) demo_nfw_ok f(3) g f(4-6), where fmt_flow = "\<lambda>fi. ''flow''"]
    by (auto simp: Let_def numeral_eq_Suc)
qed

text \<open>
  The start of the module succeeds exactly when every step does and otherwise leaves no hook, no
  proc file and no log channel behind. Its stop frees the log buffer first and removes the
  hook afterwards: a packet of a dropped flow in between is logged into freed memory.
\<close>

lemma nfw_start_outcome:
  assumes "nfw_modules_init s = (m, err)"
  shows "err = None \<longleftrightarrow> nfw_klog_ok s \<and> vmalloc_ok s \<and> proc_mkdir_ok s \<and> proc_create_ok s \<and> nf_register_result s = None"
    and "if err = None then nfw_ok m \<and> nfw_hooked m else \<not> nfw_hooked m \<and> \<not> nfw_dir m \<and> \<not> nfw_klog_fd m"
  using assms by (auto simp: nfw_modules_init_def nfw_dbg_init_def nfw_dbg_exit_def nfw_unloaded_def nfw_ok_def
      Let_def DBG_IO_BUFF_SZ_def split: option.splits if_splits)

lemma nfw_exit_race:
  assumes "nfw_ok m" and "nfw_hooked m" and "io_offset m < DBG_IO_BUFF_SZ" and "nos_of c = Some nt" and "\<not> untracked c" and "f_id fi < flow_max"
    and "u_id (ui_src nt) < user_max" and "u_id (ui_dst nt) < user_max"
    and "\<not> nt_flow_accepted fi" and "nt_flow_droped fi" and "nfw_droplist_match m fi < 0"
  shows "nfw_hooked (nfw_exit_debug m)
    \<and> nfw_hook_fn fmt_flow True flow_max user_max (Some c) fi (nfw_exit_debug m) = Fault Undefined"
  using assms by (auto simp: nfw_exit_debug_def nfw_dbg_exit_def nfw_ok_def nfw_hook_fn_def nt_flow_def nt_user_def nt_peer_def
      fw_log_def Let_def nfw_droplist_match_def split: if_splits)

end
