(* ===== verification/Nproto_Nacs.thy ===== *)
theory Nproto_Nacs
  imports Nproto_Main Nfw
begin

text \<open>
  The protocol identification together with the access rules: \<open>nacs_init\<close> registers
  \<open>nacs_nproto_callback\<close> as a hook of \<open>nproto_update\<close>, so a flow is judged when its protocol becomes
  known, and again by \<open>do_ac_table_hk\<close> when the configuration changes.
\<close>

text \<open>The callback of nacs as a hook: the packet carries its devices, its flow and its users.\<close>

definition nacs_as_hook ::
  "hook_env \<Rightarrow> nat \<Rightarrow> nat \<Rightarrow> nac_state \<Rightarrow> net_device \<Rightarrow> net_device \<Rightarrow> sk_buff \<Rightarrow> user_info \<Rightarrow> user_info \<Rightarrow> hook_fn" where
  "nacs_as_hook henv fuel cpu st din dout skb ui pi _ npt crc fi =
     run_bind (nacs_nproto_callback henv fuel cpu st
       \<lparr>pkt_in = Some din, pkt_out = Some dout, pkt_skb = Some skb, pkt_fi = Some fi, pkt_ui = Some ui, pkt_pi = Some pi\<rparr> crc) (\<lambda>(r, pkt, ms).
       case pkt_fi pkt of None \<Rightarrow> Ret (fi, r) | Some fi \<Rightarrow> Ret (fi, r))"

lemma update_with_nacs:
  assumes "nacs_reach env ips st its" and "cpu < ncpu env" and "ncpu env < 2 ^ 20" and "ipset_ids_ok ips"
    and "\<forall>t < RULE_TYPE_MAX. length (its t) < fuel" and "r_crc rule \<noteq> f_proto fi" and "of_nat (r_ID rule) \<noteq> f_proto fi"
  shows "\<exists>f1. nproto_update (nacs_as_hook henv fuel cpu st din dout skb ui pi) (hook_array [h]) npt rule fi =
      Ret (f1\<lparr>f_proto := of_nat (r_ID rule)\<rparr>)
      \<and> nacs_magic f1 = magic st
      \<and> (nt_flow_droped f1 \<longleftrightarrow>
          (\<exists>s fl. nacs_decide henv \<lparr>rq_in = din, rq_out = dout, rq_skb = skb, rq_fi = fi, rq_ui = ui, rq_pi = pi, rq_proto = r_crc rule\<rparr>
              (priv_sets st ! RULE_TYPE_CONTROL) (its RULE_TYPE_CONTROL) = Some (s, fl) \<and> rejects fl)
          \<or> (\<exists>k. 8 \<le> k \<and> k < 16 \<and> k \<noteq> 9 \<and> k \<noteq> 10 \<and> bit (flags fi) k))"
proof -
  obtain f1 ms where c: "nacs_nproto_callback henv fuel cpu st
      \<lparr>pkt_in = Some din, pkt_out = Some dout, pkt_skb = Some skb, pkt_fi = Some fi, pkt_ui = Some ui, pkt_pi = Some pi\<rparr> (r_crc rule) =
      Ret (if nt_flow_droped f1 then -1 else 0, \<lparr>pkt_in = Some din, pkt_out = Some dout, pkt_skb = Some skb, pkt_fi = Some fi,
        pkt_ui = Some ui, pkt_pi = Some pi\<rparr>\<lparr>pkt_fi := Some f1\<rparr>, ms)" and f1: "nacs_magic f1 = magic st"
      "nt_flow_droped f1 \<longleftrightarrow>
          (\<exists>s fl. nacs_decide henv \<lparr>rq_in = din, rq_out = dout, rq_skb = skb, rq_fi = fi, rq_ui = ui, rq_pi = pi, rq_proto = r_crc rule\<rparr>
              (priv_sets st ! RULE_TYPE_CONTROL) (its RULE_TYPE_CONTROL) = Some (s, fl) \<and> rejects fl)
          \<or> (\<exists>k. 8 \<le> k \<and> k < 16 \<and> k \<noteq> 9 \<and> k \<noteq> 10 \<and> bit (flags fi) k)"
    using callback_decides [OF assms(1-5) refl assms(6), where henv = henv and din = din and dout = dout and skb = skb and ui = ui and pi = pi]
    by blast
  have "nacs_as_hook henv fuel cpu st din dout skb ui pi h npt (r_crc rule) fi = Ret (f1, if nt_flow_droped f1 then -1 else 0)"
    by (simp add: nacs_as_hook_def c)
  then have "told (nacs_as_hook henv fuel cpu st din dout skb ui pi) npt (r_crc rule) [h] fi = Ret f1" by simp
  moreover have "call_hooks hk npt crc (hook_array [h]) fi = told hk npt crc [h] fi" for hk crc
    unfolding hook_array_def using call_hooks_array [of hk npt crc "[h]"] by simp
  ultimately show ?thesis
    using assms(7) f1 by (intro exI [of _ f1]) (auto simp: nproto_update_def Let_def)
qed

text \<open>
  C8: A flow is judged by two different numbers. When its protocol becomes known, the access rules are
  asked about the checksum of the application's name, and the flow stores the number of the
  identification rule; when the configuration changes, the rules are asked about that number. The
  flow's drop mark first follows the one question and then the other.
\<close>

theorem flow_judged_by_two_numbers:
  fixes din dout :: net_device and skb :: sk_buff and ui pi :: user_info
  assumes "nacs_reach env ips st its" and "nacs_reach env ips st2 its2" and "magic st2 \<noteq> magic st"
    and "cpu < ncpu env" and "ncpu env < 2 ^ 20" and "ipset_ids_ok ips"
    and "\<forall>t < RULE_TYPE_MAX. length (its t) < fuel \<and> length (its2 t) < fuel"
    and "r_crc rule \<noteq> f_proto fi" and "of_nat (r_ID rule) \<noteq> f_proto fi" and "of_nat (r_ID rule) \<noteq> (0 :: u32)"
  defines "asked \<equiv> \<lambda>proto f. \<lparr>rq_in = din, rq_out = dout, rq_skb = skb, rq_fi = f, rq_ui = ui, rq_pi = pi, rq_proto = proto\<rparr>"
  shows "\<exists>f1 f2 ms. nproto_update (nacs_as_hook henv fuel cpu st din dout skb ui pi) (hook_array [h]) npt rule fi = Ret f1
      \<and> f_proto f1 = of_nat (r_ID rule)
      \<and> (nt_flow_droped f1 \<longleftrightarrow>
          (\<exists>s fl. nacs_decide henv (asked (r_crc rule) fi) (priv_sets st ! RULE_TYPE_CONTROL) (its RULE_TYPE_CONTROL) = Some (s, fl) \<and> rejects fl)
          \<or> (\<exists>k. 8 \<le> k \<and> k < 16 \<and> k \<noteq> 9 \<and> k \<noteq> 10 \<and> bit (flags fi) k))
      \<and> do_ac_table_hk henv fuel cpu st2 din dout skb f1 ui pi = Ret (f2, ms)
      \<and> (\<forall>k < 32. bit (flags f2) k \<longleftrightarrow> decided_bit
            (nacs_decide henv (asked (of_nat (r_ID rule)) f1) (priv_sets st2 ! RULE_TYPE_CONTROL) (its2 RULE_TYPE_CONTROL))
            (nacs_decide henv (asked (of_nat (r_ID rule)) f1) (priv_sets st2 ! RULE_TYPE_AUDIT) (its2 RULE_TYPE_AUDIT)) (flags f1) k)"
proof -
  have short: "\<forall>t < RULE_TYPE_MAX. length (its t) < fuel" "\<forall>t < RULE_TYPE_MAX. length (its2 t) < fuel" using assms(7) by auto
  obtain g where g: "nproto_update (nacs_as_hook henv fuel cpu st din dout skb ui pi) (hook_array [h]) npt rule fi =
      Ret (g\<lparr>f_proto := of_nat (r_ID rule)\<rparr>)" "nacs_magic g = magic st"
      "nt_flow_droped g \<longleftrightarrow>
          (\<exists>s fl. nacs_decide henv (asked (r_crc rule) fi) (priv_sets st ! RULE_TYPE_CONTROL) (its RULE_TYPE_CONTROL) = Some (s, fl) \<and> rejects fl)
          \<or> (\<exists>k. 8 \<le> k \<and> k < 16 \<and> k \<noteq> 9 \<and> k \<noteq> 10 \<and> bit (flags fi) k)"
    using update_with_nacs [OF assms(1,4,5,6) short(1) assms(8,9)] unfolding asked_def by blast
  let ?f1 = "g\<lparr>f_proto := of_nat (r_ID rule)\<rparr>"
  have ok: "nac_ok env st2 its2" using nacs_reach_ok [OF assms(2) _ assms(5,6)] assms(4) by simp
  have p: "f_proto ?f1 \<noteq> 0" "nacs_magic ?f1 \<noteq> magic st2" using assms(3,10) g(2) by auto
  obtain f2 ms where h: "do_ac_table_hk henv fuel cpu st2 din dout skb ?f1 ui pi = Ret (f2, ms)"
    "\<forall>k < 32. bit (flags f2) k \<longleftrightarrow> decided_bit
            (nacs_decide henv (asked (of_nat (r_ID rule)) ?f1) (priv_sets st2 ! RULE_TYPE_CONTROL) (its2 RULE_TYPE_CONTROL))
            (nacs_decide henv (asked (of_nat (r_ID rule)) ?f1) (priv_sets st2 ! RULE_TYPE_AUDIT) (its2 RULE_TYPE_AUDIT)) (flags ?f1) k"
    using hook_decides [OF ok assms(4) short(2) p, where henv = henv and din = din and dout = dout and skb = skb and ui = ui and pi = pi]
    unfolding Let_def asked_def by auto
  moreover have "nt_flow_droped ?f1 = nt_flow_droped g" by (simp add: nt_flow_droped_def)
  ultimately show ?thesis using g(1,3) by (intro exI [of _ ?f1] exI [of _ f2] exI [of _ ms]) simp
qed

lemma demo_reload:
  "\<exists>st st2. nacs_reach demo_nacs_env demo_ipsets st demo_rules \<and> nacs_reach demo_nacs_env demo_ipsets st2 demo_rules \<and>
     magic st = 1000 \<and> magic st2 = 1001 \<and> (\<forall>t < 2. si_number (priv_sets st ! t) = 0) \<and> (\<forall>t < 2. si_number (priv_sets st2 ! t) = 0)"
proof -
  obtain st where st: "nacs_reach demo_nacs_env demo_ipsets st demo_rules" "magic st = 1000" "\<forall>t < 2. si_number (priv_sets st ! t) = 0"
    using demo_reach by blast
  have env: "1 \<le> ncpu demo_nacs_env" "ncpu demo_nacs_env < 2 ^ 20" by (simp_all add: demo_nacs_env_def)
  have ok: "nac_ok demo_nacs_env st demo_rules" using nacs_reach_ok [OF st(1) env demo_ipset_ids] by blast
  have z: "unat (0 :: u32) < RULE_TYPE_MAX" by (simp add: RULE_TYPE_MAX_def)
  from install_rules [OF ok demo_items_ok(1,2) demo_items_fit demo_items_ok(3) z env(1)] obtain st2
    where st2: "do_replace_table demo_nacs_env 10 (table_bytes (table_of 0 demo_items)) (length (table_bytes (table_of 0 demo_items))) st
      = Ret (st2, None)" "priv_sets st2 = priv_sets st" "magic st2 = magic st + 1"
    by auto
  have "nacs_reach demo_nacs_env demo_ipsets st2 (demo_rules(unat (0 :: u32) := demo_items))"
    by (rule nacs_reach.rules [OF st(1) demo_items_ok(1,2) demo_items_fit demo_items_ok(3) z]) (simp add: set_ctl_simps st2(1))
  moreover have "demo_rules(unat (0 :: u32) := demo_items) = demo_rules" by (simp add: demo_rules_def)
  ultimately show ?thesis using st st2 by (intro exI [of _ st] exI [of _ st2]) simp
qed

lemma demo_no_decision:
  assumes "si_number info = 0"
  shows "nacs_decide henv \<lparr>rq_in = din, rq_out = dout, rq_skb = skb, rq_fi = fi, rq_ui = demo_lan_user, rq_pi = demo_wan_peer,
    rq_proto = 15\<rparr> info demo_items = None"
proof -
  have "rules_decide \<lparr>rq_src_zone = 3, rq_dst_zone = 1, rq_src_ipgrp_bits = 512, rq_dst_ipgrp_bits = 0, rq_proto_id = 15\<rparr> demo_items = None"
    by code_simp
  then show ?thesis
    using assms by (simp add: nacs_decide_def lists_decide_def table_req_def demo_lan_user_def demo_wan_peer_def demo_ui_def)
qed

theorem flow_judged_by_two_numbers_witness:
  "\<exists>st st2 f1 f2 ms. nacs_reach demo_nacs_env demo_ipsets st demo_rules \<and> nacs_reach demo_nacs_env demo_ipsets st2 demo_rules \<and>
     nproto_update (nacs_as_hook demo_env 10 0 st demo_eth0 demo_eth0 demo_skb demo_lan_user demo_wan_peer) (hook_array [1]) udp_packet
       (inner_NTP\<lparr>r_crc := 20\<rparr>) demo_flow = Ret f1 \<and> nt_flow_droped f1 \<and>
     do_ac_table_hk demo_env 10 0 st2 demo_eth0 demo_eth0 demo_skb f1 demo_lan_user demo_wan_peer = Ret (f2, ms) \<and> \<not> bit (flags f2) 10"
proof -
  obtain st st2 where st: "nacs_reach demo_nacs_env demo_ipsets st demo_rules" "nacs_reach demo_nacs_env demo_ipsets st2 demo_rules"
    "magic st = 1000" "magic st2 = 1001" "\<forall>t < 2. si_number (priv_sets st ! t) = 0" "\<forall>t < 2. si_number (priv_sets st2 ! t) = 0"
    using demo_reload by blast
  let ?rule = "inner_NTP\<lparr>r_crc := 20\<rparr>"
  have e: "magic st2 \<noteq> magic st" "0 < ncpu demo_nacs_env" "ncpu demo_nacs_env < 2 ^ 20"
    "\<forall>t < RULE_TYPE_MAX. length (demo_rules t) < 10 \<and> length (demo_rules t) < 10"
    "r_crc ?rule \<noteq> f_proto demo_flow" "of_nat (r_ID ?rule) \<noteq> f_proto demo_flow" "of_nat (r_ID ?rule) \<noteq> (0 :: u32)"
    using st(3,4) demo_rules_short by (simp_all add: demo_nacs_env_def demo_flow_def NTP_plain)
  have r: "rejects 6" by (simp add: rejects_def)
  have d: "nacs_decide demo_env \<lparr>rq_in = demo_eth0, rq_out = demo_eth0, rq_skb = demo_skb, rq_fi = f, rq_ui = demo_lan_user,
      rq_pi = demo_wan_peer, rq_proto = 20\<rparr> (priv_sets st ! RULE_TYPE_CONTROL) (demo_rules RULE_TYPE_CONTROL) = Some (False, 6)"
    "nacs_decide demo_env \<lparr>rq_in = demo_eth0, rq_out = demo_eth0, rq_skb = demo_skb, rq_fi = f, rq_ui = demo_lan_user,
      rq_pi = demo_wan_peer, rq_proto = 15\<rparr> (priv_sets st2 ! RULE_TYPE_CONTROL) (demo_rules RULE_TYPE_CONTROL) = None" for f
    using st(5,6) demo_decision [of "priv_sets st ! 0"] demo_no_decision [of "priv_sets st2 ! 0"]
    by (simp_all add: RULE_TYPE_CONTROL_def demo_rules_def)
  from flow_judged_by_two_numbers [OF st(1,2) e(1-3) demo_ipset_ids e(4-7), where henv = demo_env and din = demo_eth0 and dout = demo_eth0
      and skb = demo_skb and ui = demo_lan_user and pi = demo_wan_peer and h = 1 and npt = udp_packet]
  obtain f1 f2 ms where f: "nproto_update (nacs_as_hook demo_env 10 0 st demo_eth0 demo_eth0 demo_skb demo_lan_user demo_wan_peer) (hook_array [1])
      udp_packet ?rule demo_flow = Ret f1" "nt_flow_droped f1"
    "do_ac_table_hk demo_env 10 0 st2 demo_eth0 demo_eth0 demo_skb f1 demo_lan_user demo_wan_peer = Ret (f2, ms)"
    "\<forall>k < 32. bit (flags f2) k \<longleftrightarrow> decided_bit None
            (nacs_decide demo_env \<lparr>rq_in = demo_eth0, rq_out = demo_eth0, rq_skb = demo_skb, rq_fi = f1, rq_ui = demo_lan_user,
              rq_pi = demo_wan_peer, rq_proto = 15\<rparr> (priv_sets st2 ! RULE_TYPE_AUDIT) (demo_rules RULE_TYPE_AUDIT)) (flags f1) k"
    using r by (auto simp: d NTP_plain)
  have "\<not> bit (flags f2) 10" using f(4) [rule_format, of 10] by (simp add: decided_bit_def)
  with f st(1,2) show ?thesis by blast
qed

end
