(* ===== verification/Msg_Ring.thy ===== *)
theory Msg_Ring
  imports Nacs_Layout
begin

text \<open>
  The ring buffer of \<open>include/src/ntrack_rbf.h\<close>, one per CPU in memory shared between the kernel
  and a user process: the kernel writes nodes of 2048 bytes at index \<open>w\<close>, the process reads them
  at index \<open>r\<close>. The locale \<open>bounded_fifo\<close> is what its two users rely on; the ring provides it. The
  last section runs both sides interleaved byte by byte.
\<close>

section \<open>The ring\<close>

definition RBF_NODE_SIZE :: nat where "RBF_NODE_SIZE = 1024 * 2"

record rbf =
  hdr_r :: u16
  hdr_w :: u16
  hdr_size :: u32
  hdr_count :: u16
  buffer :: "u8 list"

text \<open>\<open>rbf_init\<close> keeps the indices and the memory; the header has 12 bytes.\<close>

definition rbf_init :: "rbf \<Rightarrow> u32 \<Rightarrow> rbf" where
  "rbf_init rb bytes =
     (let sz = bytes - 12 in rb\<lparr>hdr_size := sz, hdr_count := ucast (sz div word_of_nat RBF_NODE_SIZE)\<rparr>)"

text \<open>The next index, computed in \<open>int\<close>; the remainder by zero is undefined.\<close>

definition rbf_next :: "rbf \<Rightarrow> u16 \<Rightarrow> u16 run" where
  "rbf_next rb i = (if hdr_count rb = 0 then Fault Undefined else Ret (word_of_nat ((unat i + 1) mod unat (hdr_count rb))))"

definition rbf_get_buff :: "rbf \<Rightarrow> nat option run" where
  "rbf_get_buff rb =
     run_bind (rbf_next rb (hdr_w rb)) (\<lambda>idx.
       Ret (if idx \<noteq> hdr_r rb then Some (RBF_NODE_SIZE * unat (hdr_w rb)) else None))"

definition rbf_release_buff :: "rbf \<Rightarrow> rbf run" where
  "rbf_release_buff rb = run_bind (rbf_next rb (hdr_w rb)) (\<lambda>idx. Ret (rb\<lparr>hdr_w := idx\<rparr>))"

definition rbf_get_data :: "rbf \<Rightarrow> nat option" where
  "rbf_get_data rb = (if hdr_r rb \<noteq> hdr_w rb then Some (RBF_NODE_SIZE * unat (hdr_r rb)) else None)"

definition rbf_release_data :: "rbf \<Rightarrow> rbf run" where
  "rbf_release_data rb = run_bind (rbf_next rb (hdr_r rb)) (\<lambda>idx. Ret (rb\<lparr>hdr_r := idx\<rparr>))"

section \<open>Indices\<close>

text \<open>The number of nodes from \<open>r\<close> to \<open>w\<close>, and the index of the i-th of them.\<close>

definition ring_used :: "nat \<Rightarrow> nat \<Rightarrow> nat \<Rightarrow> nat" where
  "ring_used c r w = (if r \<le> w then w - r else w + c - r)"

definition ring_index :: "nat \<Rightarrow> nat \<Rightarrow> nat \<Rightarrow> nat" where
  "ring_index c r i = (if r + i < c then r + i else r + i - c)"

definition ring_succ :: "nat \<Rightarrow> nat \<Rightarrow> nat" where
  "ring_succ c i = (if i + 1 = c then 0 else i + 1)"

lemma mod_ring_succ: "i < c \<Longrightarrow> (i + 1) mod c = ring_succ c i"
  by (auto simp: ring_succ_def)

lemma ring_facts:
  assumes "r < c" and "w < c"
  shows "ring_used c r w < c" and "ring_used c r w = 0 \<longleftrightarrow> r = w" and "ring_succ c w < c"
    and "ring_index c r (ring_used c r w) = w" and "ring_index c r 0 = r"
    and "i < ring_used c r w \<Longrightarrow> ring_index c r i < c \<and> ring_index c r i \<noteq> w"
    and "ring_succ c w \<noteq> r \<Longrightarrow> ring_used c r (ring_succ c w) = Suc (ring_used c r w)"
    and "ring_succ c w = r \<Longrightarrow> ring_used c r w = c - 1"
    and "ring_succ c w \<noteq> r \<Longrightarrow> ring_used c r w < c - 1"
  using assms by (auto simp: ring_used_def ring_index_def ring_succ_def split: if_splits)

lemma ring_advance:
  assumes "r < c" and "w < c" and "r \<noteq> w"
  shows "ring_used c (ring_succ c r) w = ring_used c r w - 1" and "i + 1 < c \<Longrightarrow> ring_index c (ring_succ c r) i = ring_index c r (Suc i)"
  using assms by (auto simp: ring_used_def ring_index_def ring_succ_def split: if_splits)

section \<open>Contents\<close>

text \<open>The ring is sound: indices below the number of nodes, memory for all of them.\<close>

definition rbf_ok :: "rbf \<Rightarrow> bool" where
  "rbf_ok rb \<longleftrightarrow> 2 \<le> unat (hdr_count rb) \<and> hdr_r rb < hdr_count rb \<and> hdr_w rb < hdr_count rb
     \<and> RBF_NODE_SIZE * unat (hdr_count rb) \<le> length (buffer rb)"

definition node :: "rbf \<Rightarrow> nat \<Rightarrow> u8 list" where
  "node rb i = take RBF_NODE_SIZE (drop (RBF_NODE_SIZE * i) (buffer rb))"

definition used :: "rbf \<Rightarrow> nat" where
  "used rb = ring_used (unat (hdr_count rb)) (unat (hdr_r rb)) (unat (hdr_w rb))"

definition nodes :: "rbf \<Rightarrow> u8 list list" where
  "nodes rb = map (\<lambda>i. node rb (ring_index (unat (hdr_count rb)) (unat (hdr_r rb)) i)) [0..<used rb]"

lemma rbf_next_ok:
  assumes "rbf_ok rb" and "i < hdr_count rb"
  shows "\<exists>j. rbf_next rb i = Ret j \<and> unat j = ring_succ (unat (hdr_count rb)) (unat i) \<and> j < hdr_count rb"
proof -
  have c: "unat i < unat (hdr_count rb)" using assms(2) by (simp add: word_less_nat_alt)
  have "ring_succ (unat (hdr_count rb)) (unat i) < unat (hdr_count rb)" using ring_facts(3) [OF c c] .
  moreover have "unat (hdr_count rb) < 65536" using unsigned_less [of "hdr_count rb"] by simp
  ultimately have "unat (word_of_nat (ring_succ (unat (hdr_count rb)) (unat i)) :: u16) = ring_succ (unat (hdr_count rb)) (unat i)"
    by (intro unat_u16) simp
  then show ?thesis
    using assms(1) \<open>ring_succ _ _ < _\<close> by (auto simp: rbf_next_def mod_ring_succ [OF c, simplified] word_less_nat_alt rbf_ok_def)
qed

lemma rbf_ok_nat:
  "rbf_ok rb \<Longrightarrow> unat (hdr_r rb) < unat (hdr_count rb) \<and> unat (hdr_w rb) < unat (hdr_count rb)"
  by (simp add: rbf_ok_def word_less_nat_alt)

text \<open>Room for another node: all but one can be used.\<close>

lemma rbf_get_buff_ok:
  assumes "rbf_ok rb"
  shows "rbf_get_buff rb = Ret (if used rb < unat (hdr_count rb) - 1 then Some (RBF_NODE_SIZE * unat (hdr_w rb)) else None)"
proof -
  let ?c = "unat (hdr_count rb)"
  note n = rbf_ok_nat [OF assms]
  obtain j where j: "rbf_next rb (hdr_w rb) = Ret j" "unat j = ring_succ ?c (unat (hdr_w rb))"
    using rbf_next_ok [OF assms, of "hdr_w rb"] assms by (auto simp: rbf_ok_def)
  have "j \<noteq> hdr_r rb \<longleftrightarrow> ring_succ ?c (unat (hdr_w rb)) \<noteq> unat (hdr_r rb)" using j(2) by (metis word_unat_eq_iff)
  moreover have "ring_succ ?c (unat (hdr_w rb)) \<noteq> unat (hdr_r rb) \<longleftrightarrow> used rb < ?c - 1"
    using ring_facts(8,9) [of "unat (hdr_r rb)" ?c "unat (hdr_w rb)"] n unfolding used_def by fastforce
  ultimately show ?thesis using j(1) by (simp add: rbf_get_buff_def)
qed

lemma rbf_get_data_ok:
  assumes "rbf_ok rb"
  shows "rbf_get_data rb = (if nodes rb = [] then None else Some (RBF_NODE_SIZE * unat (hdr_r rb)))"
    and "nodes rb \<noteq> [] \<Longrightarrow> hd (nodes rb) = node rb (unat (hdr_r rb))"
proof -
  have u: "used rb = 0 \<longleftrightarrow> hdr_r rb = hdr_w rb"
    using ring_facts(2) [of "unat (hdr_r rb)" "unat (hdr_count rb)" "unat (hdr_w rb)"] rbf_ok_nat [OF assms]
    unfolding used_def by (metis word_unat_eq_iff)
  then show "rbf_get_data rb = (if nodes rb = [] then None else Some (RBF_NODE_SIZE * unat (hdr_r rb)))"
    by (simp add: rbf_get_data_def nodes_def)
  assume "nodes rb \<noteq> []"
  then have "[0..<used rb] = 0 # [1..<used rb]" by (simp add: nodes_def upt_conv_Cons)
  then show "hd (nodes rb) = node rb (unat (hdr_r rb))"
    using ring_facts(5) [of "unat (hdr_r rb)" "unat (hdr_count rb)" "unat (hdr_w rb)"] rbf_ok_nat [OF assms] by (simp add: nodes_def)
qed

section \<open>Writing and reading a node\<close>

text \<open>\<open>nmsg_fill_buffer\<close> of \<open>ntrack_msg.c\<close>: False when the ring is full.\<close>

definition nmsg_fill_buffer :: "rbf \<Rightarrow> u8 list \<Rightarrow> (rbf \<times> bool) run" where
  "nmsg_fill_buffer rb m =
     run_bind (rbf_get_buff rb) (\<lambda>p.
       case p of
         None \<Rightarrow> Ret (rb, False)
       | Some off \<Rightarrow>
           run_bind (mem_write (buffer rb) off m) (\<lambda>b.
           run_bind (rbf_release_buff (rb\<lparr>buffer := b\<rparr>)) (\<lambda>rb. Ret (rb, True))))"

text \<open>
  One turn of the loop of \<open>nt_message_process\<close> (\<open>libs/utils/src/nt_message.c\<close>): the node the callback is
  given, if there is one.
\<close>

definition nt_message_turn :: "rbf \<Rightarrow> (u8 list option \<times> rbf) run" where
  "nt_message_turn rb =
     (case rbf_get_data rb of
        None \<Rightarrow> Ret (None, rb)
      | Some off \<Rightarrow> run_bind (rbf_release_data rb) (\<lambda>rb'. Ret (Some (take RBF_NODE_SIZE (drop off (buffer rb))), rb')))"

text \<open>A node carries a message when it starts with it.\<close>

definition carries :: "u8 list \<Rightarrow> u8 list \<Rightarrow> bool" where
  "carries x m \<longleftrightarrow> take (length m) x = m"

definition fits_node :: "u8 list \<Rightarrow> bool" where
  "fits_node m \<longleftrightarrow> length m \<le> RBF_NODE_SIZE"

definition rbf_room :: "rbf \<Rightarrow> nat" where
  "rbf_room rb = unat (hdr_count rb) - 1"

lemma node_bound:
  assumes "rbf_ok rb" and "i < unat (hdr_count rb)"
  shows "RBF_NODE_SIZE * i + RBF_NODE_SIZE \<le> length (buffer rb)"
proof -
  have "RBF_NODE_SIZE * (i + 1) \<le> RBF_NODE_SIZE * unat (hdr_count rb)" using assms(2) by (intro mult_le_mono) simp_all
  then show ?thesis using assms(1) by (simp add: rbf_ok_def)
qed

text \<open>Writing within a node leaves every other node alone.\<close>

lemma node_write_at:
  assumes "RBF_NODE_SIZE * i + RBF_NODE_SIZE \<le> length (buffer rb)" and "d + length m \<le> RBF_NODE_SIZE"
  defines "b \<equiv> take (RBF_NODE_SIZE * i + d) (buffer rb) @ m @ drop (RBF_NODE_SIZE * i + d + length m) (buffer rb)"
  shows "length b = length (buffer rb)"
    and "node (rb\<lparr>buffer := b\<rparr>) i = take d (node rb i) @ m @ drop (d + length m) (node rb i)"
    and "j \<noteq> i \<Longrightarrow> node (rb\<lparr>buffer := b\<rparr>) j = node rb j"
proof -
  let ?N = RBF_NODE_SIZE
  show len: "length b = length (buffer rb)" using assms by (simp add: b_def)
  have nth: "b ! k = (if ?N * i + d \<le> k \<and> k < ?N * i + d + length m then m ! (k - (?N * i + d)) else buffer rb ! k)"
    if "k < length (buffer rb)" for k
    using that assms by (auto simp: b_def nth_append min_def)
  show "node (rb\<lparr>buffer := b\<rparr>) i = take d (node rb i) @ m @ drop (d + length m) (node rb i)"
  proof (rule nth_equalityI)
    show "length (node (rb\<lparr>buffer := b\<rparr>) i) = length (take d (node rb i) @ m @ drop (d + length m) (node rb i))"
      using assms(1,2) len by (simp add: node_def)
    fix k
    assume "k < length (node (rb\<lparr>buffer := b\<rparr>) i)"
    then have k: "k < ?N" by (simp add: node_def)
    have ln: "length (node rb i) = ?N" using assms(1) by (simp add: node_def)
    have old: "node rb i ! k = buffer rb ! (?N * i + k)" using k assms(1) by (simp add: node_def)
    have "node (rb\<lparr>buffer := b\<rparr>) i ! k = b ! (?N * i + k)" using k assms(1) len by (simp add: node_def)
    then show "node (rb\<lparr>buffer := b\<rparr>) i ! k = (take d (node rb i) @ m @ drop (d + length m) (node rb i)) ! k"
      using assms(1,2) ln old k nth [of "?N * i + k"] by (auto simp: nth_append)
  qed
  show "node (rb\<lparr>buffer := b\<rparr>) j = node rb j" if "j \<noteq> i"
  proof (rule nth_equalityI)
    show "length (node (rb\<lparr>buffer := b\<rparr>) j) = length (node rb j)" using len by (simp add: node_def)
    fix k
    assume "k < length (node (rb\<lparr>buffer := b\<rparr>) j)"
    then have k: "k < ?N" "?N * j + k < length (buffer rb)" using len by (auto simp: node_def)
    have "?N * j + k < ?N * i \<or> ?N * i + ?N \<le> ?N * j + k"
    proof (cases "j < i")
      case True
      then have "?N * (j + 1) \<le> ?N * i" by (intro mult_le_mono) simp_all
      then show ?thesis using k(1) by simp
    next
      case False
      with that have "?N * (i + 1) \<le> ?N * j" by (intro mult_le_mono) simp_all
      then show ?thesis by simp
    qed
    then have "b ! (?N * j + k) = buffer rb ! (?N * j + k)" using nth [OF k(2)] assms(2) by auto
    then show "node (rb\<lparr>buffer := b\<rparr>) j ! k = node rb j ! k" using k len by (simp add: node_def)
  qed
qed

lemmas node_write = node_write_at [where d = 0, unfolded add_0_right add_0 take_0 append_Nil]

section \<open>The interface of a bounded queue\<close>

datatype 'm queue_op = Send 'm | Recv

text \<open>A run of sends and receives: the messages accepted, the items received, the final state.\<close>

fun queue_run ::
  "('s \<Rightarrow> 'm \<Rightarrow> ('s \<times> bool) run) \<Rightarrow> ('s \<Rightarrow> ('x option \<times> 's) run) \<Rightarrow> 'm queue_op list \<Rightarrow> 's \<Rightarrow> ('m list \<times> 'x list \<times> 's) run" where
  "queue_run put get [] s = Ret ([], [], s)"
| "queue_run put get (Send m # ops) s =
     run_bind (put s m) (\<lambda>(s, b). run_bind (queue_run put get ops s) (\<lambda>(acc, rcv, s). Ret (if b then m # acc else acc, rcv, s)))"
| "queue_run put get (Recv # ops) s =
     run_bind (get s) (\<lambda>(x, s). run_bind (queue_run put get ops s) (\<lambda>(acc, rcv, s).
       Ret (acc, case x of Some x \<Rightarrow> x # rcv | None \<Rightarrow> rcv, s)))"

locale bounded_fifo =
  fixes put :: "'s \<Rightarrow> 'm \<Rightarrow> ('s \<times> bool) run"
    and get :: "'s \<Rightarrow> ('x option \<times> 's) run"
    and items :: "'s \<Rightarrow> 'x list"
    and ok :: "'s \<Rightarrow> bool"
    and cap :: "'s \<Rightarrow> nat"
    and fits :: "'m \<Rightarrow> bool"
    and holds :: "'x \<Rightarrow> 'm \<Rightarrow> bool"
  assumes put_law: "ok s \<Longrightarrow> fits m \<Longrightarrow> \<exists>s' b. put s m = Ret (s', b) \<and> ok s' \<and> cap s' = cap s \<and> (b \<longleftrightarrow> length (items s) < cap s)
      \<and> (if b then \<exists>x. holds x m \<and> items s' = items s @ [x] else s' = s)"
    and get_law: "ok s \<Longrightarrow> \<exists>s'. get s = Ret (if items s = [] then None else Some (hd (items s)), s') \<and> ok s' \<and> cap s' = cap s
      \<and> items s' = tl (items s)"
begin

text \<open>Nothing is lost, duplicated or reordered: what was received and what is left are what was there and what was accepted.\<close>

lemma run_fifo:
  assumes "ok s" and "\<forall>m. Send m \<in> set ops \<longrightarrow> fits m"
  shows "\<exists>acc rcv s' new. queue_run put get ops s = Ret (acc, rcv, s') \<and> ok s' \<and> cap s' = cap s
    \<and> rcv @ items s' = items s @ new \<and> list_all2 holds new acc"
  using assms
proof (induction ops arbitrary: s)
  case Nil
  then show ?case by auto
next
  case (Cons op ops)
  show ?case
  proof (cases op)
    case (Send m)
    obtain s1 b where p: "put s m = Ret (s1, b)" "ok s1" "cap s1 = cap s" "if b then \<exists>x. holds x m \<and> items s1 = items s @ [x] else s1 = s"
      using put_law [of s m] Cons.prems Send by auto
    obtain acc rcv s' new where r: "queue_run put get ops s1 = Ret (acc, rcv, s')" "ok s'" "cap s' = cap s1"
      "rcv @ items s' = items s1 @ new" "list_all2 holds new acc"
      using Cons.IH [OF p(2)] Cons.prems(2) by auto
    show ?thesis
    proof (cases b)
      case True
      with p(4) obtain x where "holds x m" "items s1 = items s @ [x]" by auto
      with True Send p r show ?thesis
        by (intro exI [of _ "m # acc"] exI [of _ rcv] exI [of _ s'] exI [of _ "x # new"]) simp
    next
      case False
      with Send p r show ?thesis by auto
    qed
  next
    case Recv
    obtain s1 where g: "get s = Ret (if items s = [] then None else Some (hd (items s)), s1)" "ok s1" "cap s1 = cap s" "items s1 = tl (items s)"
      using get_law [OF Cons.prems(1)] by auto
    obtain acc rcv s' new where r: "queue_run put get ops s1 = Ret (acc, rcv, s')" "ok s'" "cap s' = cap s1"
      "rcv @ items s' = items s1 @ new" "list_all2 holds new acc"
      using Cons.IH [OF g(2)] Cons.prems(2) by auto
    show ?thesis
      using Recv g r by (cases "items s") auto
  qed
qed

end

section \<open>The ring provides it\<close>

text \<open>Writing into the node at \<open>w\<close> touches no node in use.\<close>

lemma write_keeps_nodes:
  assumes "rbf_ok rb" and "d + length m \<le> RBF_NODE_SIZE"
  shows "\<exists>b. mem_write (buffer rb) (RBF_NODE_SIZE * unat (hdr_w rb) + d) m = Ret b \<and> rbf_ok (rb\<lparr>buffer := b\<rparr>)
    \<and> nodes (rb\<lparr>buffer := b\<rparr>) = nodes rb
    \<and> node (rb\<lparr>buffer := b\<rparr>) (unat (hdr_w rb)) = take d (node rb (unat (hdr_w rb))) @ m @ drop (d + length m) (node rb (unat (hdr_w rb)))"
proof -
  let ?c = "unat (hdr_count rb)" and ?r = "unat (hdr_r rb)" and ?w = "unat (hdr_w rb)"
  note n = rbf_ok_nat [OF assms(1)]
  have wb: "RBF_NODE_SIZE * ?w + RBF_NODE_SIZE \<le> length (buffer rb)" using node_bound [OF assms(1)] n by simp
  define b where "b = take (RBF_NODE_SIZE * ?w + d) (buffer rb) @ m @ drop (RBF_NODE_SIZE * ?w + d + length m) (buffer rb)"
  note nw = node_write_at [OF wb assms(2), folded b_def]
  have "mem_write (buffer rb) (RBF_NODE_SIZE * ?w + d) m = Ret b" using wb assms(2) by (simp add: mem_write_def b_def)
  moreover have "rbf_ok (rb\<lparr>buffer := b\<rparr>)" using assms(1) nw(1) by (simp add: rbf_ok_def)
  moreover have "nodes (rb\<lparr>buffer := b\<rparr>) = nodes rb"
    using nw(3) ring_facts(6) [of ?r ?c ?w] n by (auto simp: nodes_def used_def)
  ultimately show ?thesis using nw(2) by blast
qed

lemma release_buff_law:
  assumes "rbf_ok rb" and "used rb < rbf_room rb"
  shows "\<exists>j. rbf_release_buff rb = Ret (rb\<lparr>hdr_w := j\<rparr>) \<and> rbf_ok (rb\<lparr>hdr_w := j\<rparr>)
    \<and> nodes (rb\<lparr>hdr_w := j\<rparr>) = nodes rb @ [node rb (unat (hdr_w rb))]"
proof -
  let ?c = "unat (hdr_count rb)" and ?r = "unat (hdr_r rb)" and ?w = "unat (hdr_w rb)"
  note n = rbf_ok_nat [OF assms(1)]
  obtain j where j: "rbf_next rb (hdr_w rb) = Ret j" "unat j = ring_succ ?c ?w" "j < hdr_count rb"
    using rbf_next_ok [OF assms(1), of "hdr_w rb"] assms(1) by (auto simp: rbf_ok_def)
  have "ring_succ ?c ?w \<noteq> ?r" using assms(2) ring_facts(8) [of ?r ?c ?w] n by (auto simp: used_def rbf_room_def)
  then have u: "used (rb\<lparr>hdr_w := j\<rparr>) = Suc (used rb)" using ring_facts(7) [of ?r ?c ?w] n j(2) by (simp add: used_def)
  have "ring_index ?c ?r (used rb) = ?w" using ring_facts(4) n by (simp add: used_def)
  then have "nodes (rb\<lparr>hdr_w := j\<rparr>) = nodes rb @ [node rb ?w]" unfolding nodes_def u by (simp add: node_def)
  moreover have "rbf_ok (rb\<lparr>hdr_w := j\<rparr>)" using assms(1) j(3) by (simp add: rbf_ok_def)
  ultimately show ?thesis using j(1) by (auto simp: rbf_release_buff_def)
qed

lemma release_data_law:
  assumes "rbf_ok rb" and "nodes rb \<noteq> []"
  shows "\<exists>j. rbf_release_data rb = Ret (rb\<lparr>hdr_r := j\<rparr>) \<and> rbf_ok (rb\<lparr>hdr_r := j\<rparr>)
    \<and> nodes (rb\<lparr>hdr_r := j\<rparr>) = tl (nodes rb) \<and> used (rb\<lparr>hdr_r := j\<rparr>) = used rb - 1"
proof -
  let ?c = "unat (hdr_count rb)" and ?r = "unat (hdr_r rb)" and ?w = "unat (hdr_w rb)"
  note n = rbf_ok_nat [OF assms(1)]
  obtain j where j: "rbf_next rb (hdr_r rb) = Ret j" "unat j = ring_succ ?c ?r" "j < hdr_count rb"
    using rbf_next_ok [OF assms(1), of "hdr_r rb"] assms(1) by (auto simp: rbf_ok_def)
  let ?rb = "rb\<lparr>hdr_r := j\<rparr>"
  have ne: "?r \<noteq> ?w" using assms(2) ring_facts(2) [of ?r ?c ?w] n by (auto simp: nodes_def used_def)
  have pos: "0 < used rb" using assms(2) by (simp add: nodes_def)
  have u: "used ?rb = used rb - 1" using ring_advance(1) [OF _ _ ne] n j(2) by (simp add: used_def)
  have uc: "used rb < ?c" using ring_facts(1) n by (simp add: used_def)
  have idx: "ring_index ?c (unat j) i = ring_index ?c ?r (Suc i)" if "i < used rb - 1" for i
    using ring_advance(2) [OF _ _ ne, of ?c i] n j(2) that uc by simp
  have "nodes ?rb = map (\<lambda>i. node rb (ring_index ?c ?r (Suc i))) [0..<used rb - 1]"
    unfolding nodes_def u using idx by (auto simp: node_def intro!: map_cong)
  also have "\<dots> = map (\<lambda>i. node rb (ring_index ?c ?r i)) [1..<used rb]"
    using pos by (intro nth_equalityI) simp_all
  also have "\<dots> = tl (nodes rb)" using pos by (simp add: nodes_def upt_conv_Cons)
  finally have "nodes ?rb = tl (nodes rb)" .
  moreover have "rbf_ok ?rb" using assms(1) j(3) by (simp add: rbf_ok_def)
  ultimately show ?thesis using j(1) u by (auto simp: rbf_release_data_def)
qed

lemma fill_law:
  assumes "rbf_ok rb" and "fits_node m"
  shows "\<exists>rb' b. nmsg_fill_buffer rb m = Ret (rb', b) \<and> rbf_ok rb' \<and> rbf_room rb' = rbf_room rb \<and> (b \<longleftrightarrow> length (nodes rb) < rbf_room rb)
    \<and> (if b then \<exists>x. carries x m \<and> nodes rb' = nodes rb @ [x] else rb' = rb)"
proof (cases "length (nodes rb) < rbf_room rb")
  case False
  then show ?thesis
    using assms by (auto simp: nmsg_fill_buffer_def rbf_get_buff_ok rbf_room_def nodes_def)
next
  case True
  let ?w = "unat (hdr_w rb)"
  obtain b where b: "mem_write (buffer rb) (RBF_NODE_SIZE * ?w) m = Ret b" "rbf_ok (rb\<lparr>buffer := b\<rparr>)" "nodes (rb\<lparr>buffer := b\<rparr>) = nodes rb"
    "node (rb\<lparr>buffer := b\<rparr>) ?w = m @ drop (length m) (node rb ?w)"
    using write_keeps_nodes [OF assms(1), of 0 m] assms(2) by (auto simp: fits_node_def)
  have "used (rb\<lparr>buffer := b\<rparr>) < rbf_room (rb\<lparr>buffer := b\<rparr>)" using True by (simp add: used_def rbf_room_def nodes_def)
  from release_buff_law [OF b(2) this] obtain j where j: "rbf_release_buff (rb\<lparr>buffer := b\<rparr>) = Ret (rb\<lparr>buffer := b, hdr_w := j\<rparr>)"
    "rbf_ok (rb\<lparr>buffer := b, hdr_w := j\<rparr>)" "nodes (rb\<lparr>buffer := b, hdr_w := j\<rparr>) = nodes rb @ [m @ drop (length m) (node rb ?w)]"
    using b(3,4) by auto
  have "nmsg_fill_buffer rb m = Ret (rb\<lparr>buffer := b, hdr_w := j\<rparr>, True)"
    using True b(1) j(1) by (simp add: nmsg_fill_buffer_def rbf_get_buff_ok [OF assms(1)] rbf_room_def nodes_def)
  moreover have "carries (m @ drop (length m) (node rb ?w)) m" by (simp add: carries_def)
  ultimately show ?thesis using j(2,3) True by (auto simp: rbf_room_def)
qed

lemma turn_law:
  assumes "rbf_ok rb"
  shows "\<exists>rb'. nt_message_turn rb = Ret (if nodes rb = [] then None else Some (hd (nodes rb)), rb') \<and> rbf_ok rb'
    \<and> rbf_room rb' = rbf_room rb \<and> nodes rb' = tl (nodes rb)"
proof (cases "nodes rb = []")
  case True
  then show ?thesis using assms by (auto simp: nt_message_turn_def rbf_get_data_ok)
next
  case False
  from release_data_law [OF assms False] show ?thesis
    using False rbf_get_data_ok [OF assms] by (auto simp: nt_message_turn_def node_def rbf_room_def)
qed

interpretation ring: bounded_fifo nmsg_fill_buffer nt_message_turn nodes rbf_ok rbf_room fits_node carries
  by unfold_locales (fact fill_law, fact turn_law)

section \<open>Both sides interleaved\<close>

text \<open>
  The kernel copies a message into its node byte by byte between \<open>rbf_get_buff\<close> and
  \<open>rbf_release_buff\<close>, the process looks at its node between \<open>rbf_get_data\<close> and \<open>rbf_release_data\<close>; the
  steps of the two sides mix in any order. \<open>sent\<close> are the messages released by the kernel, \<open>seen\<close>
  the nodes the process was done with, as they were then.
\<close>

datatype snd_phase = SndIdle | SndCopy nat "u8 list" nat

datatype rcv_phase = RcvIdle | RcvRead nat

record shared_ring =
  ring_mem :: rbf
  sender :: snd_phase
  receiver :: rcv_phase
  sent :: "u8 list list"
  seen :: "u8 list list"

inductive ring_step :: "shared_ring \<Rightarrow> shared_ring \<Rightarrow> bool" where
  snd_get: "sender s = SndIdle \<Longrightarrow> fits_node m \<Longrightarrow> rbf_get_buff (ring_mem s) = Ret (Some off) \<Longrightarrow>
    ring_step s (s\<lparr>sender := SndCopy off m 0\<rparr>)"
| snd_copy: "sender s = SndCopy off m n \<Longrightarrow> n < length m \<Longrightarrow> mem_write (buffer (ring_mem s)) (off + n) [m ! n] = Ret b \<Longrightarrow>
    ring_step s (s\<lparr>ring_mem := (ring_mem s)\<lparr>buffer := b\<rparr>, sender := SndCopy off m (Suc n)\<rparr>)"
| snd_release: "sender s = SndCopy off m (length m) \<Longrightarrow> rbf_release_buff (ring_mem s) = Ret rb \<Longrightarrow>
    ring_step s (s\<lparr>ring_mem := rb, sender := SndIdle, sent := sent s @ [m]\<rparr>)"
| rcv_get: "receiver s = RcvIdle \<Longrightarrow> rbf_get_data (ring_mem s) = Some off \<Longrightarrow>
    ring_step s (s\<lparr>receiver := RcvRead off\<rparr>)"
| rcv_release: "receiver s = RcvRead off \<Longrightarrow> rbf_release_data (ring_mem s) = Ret rb \<Longrightarrow>
    ring_step s (s\<lparr>ring_mem := rb, receiver := RcvIdle,
      seen := seen s @ [take RBF_NODE_SIZE (drop off (buffer (ring_mem s)))]\<rparr>)"

inductive ring_reach :: "rbf \<Rightarrow> shared_ring \<Rightarrow> bool" for rb0 where
  ring_start: "ring_reach rb0 \<lparr>ring_mem = rb0, sender = SndIdle, receiver = RcvIdle, sent = [], seen = []\<rparr>"
| ring_more: "ring_reach rb0 s \<Longrightarrow> ring_step s s' \<Longrightarrow> ring_reach rb0 s'"

definition sender_ok :: "shared_ring \<Rightarrow> bool" where
  "sender_ok s \<longleftrightarrow>
     (case sender s of
        SndIdle \<Rightarrow> True
      | SndCopy off m n \<Rightarrow>
          off = RBF_NODE_SIZE * unat (hdr_w (ring_mem s)) \<and> length m \<le> RBF_NODE_SIZE \<and> n \<le> length m
        \<and> used (ring_mem s) < rbf_room (ring_mem s) \<and> take n (node (ring_mem s) (unat (hdr_w (ring_mem s)))) = take n m)"

definition receiver_ok :: "shared_ring \<Rightarrow> bool" where
  "receiver_ok s \<longleftrightarrow>
     (case receiver s of
        RcvIdle \<Rightarrow> True
      | RcvRead off \<Rightarrow> off = RBF_NODE_SIZE * unat (hdr_r (ring_mem s)) \<and> nodes (ring_mem s) \<noteq> [])"

definition ring_inv :: "shared_ring \<Rightarrow> bool" where
  "ring_inv s \<longleftrightarrow> rbf_ok (ring_mem s) \<and> sender_ok s \<and> receiver_ok s \<and> list_all2 carries (seen s @ nodes (ring_mem s)) (sent s)"

lemma get_buff_room:
  assumes "rbf_ok rb" and "rbf_get_buff rb = Ret (Some off)"
  shows "off = RBF_NODE_SIZE * unat (hdr_w rb) \<and> used rb < rbf_room rb"
  using assms by (auto simp: rbf_get_buff_ok rbf_room_def split: if_splits)

lemma take_Suc_write:
  assumes "take n x = take n m" and "n < length m" and "n < length x"
  shows "take (Suc n) (take n x @ [m ! n] @ drop (n + 1) x) = take (Suc n) m"
  using assms by (simp add: take_Suc_conv_app_nth)

lemma ring_step_inv:
  assumes "ring_step s s'" and "ring_inv s"
  shows "ring_inv s'"
  using assms(1)
proof cases
  case (snd_get m off)
  then show ?thesis
    using assms(2) get_buff_room [of "ring_mem s" off]
    by (auto simp: ring_inv_def sender_ok_def receiver_ok_def fits_node_def split: rcv_phase.splits)
next
  case (snd_copy off m n b)
  let ?rb = "ring_mem s" and ?w = "unat (hdr_w (ring_mem s))"
  have inv: "rbf_ok ?rb" "receiver_ok s" "list_all2 carries (seen s @ nodes ?rb) (sent s)" and
    p: "off = RBF_NODE_SIZE * ?w" "length m \<le> RBF_NODE_SIZE" "used ?rb < rbf_room ?rb" "take n (node ?rb ?w) = take n m"
    using assms(2) snd_copy by (auto simp: ring_inv_def sender_ok_def)
  have "n + length [m ! n] \<le> RBF_NODE_SIZE" using snd_copy p(2) by simp
  from write_keeps_nodes [OF inv(1) this] snd_copy p(1) have w: "rbf_ok (?rb\<lparr>buffer := b\<rparr>)" "nodes (?rb\<lparr>buffer := b\<rparr>) = nodes ?rb"
    "node (?rb\<lparr>buffer := b\<rparr>) ?w = take n (node ?rb ?w) @ [m ! n] @ drop (n + 1) (node ?rb ?w)" by auto
  have "RBF_NODE_SIZE * ?w + RBF_NODE_SIZE \<le> length (buffer ?rb)" using node_bound [OF inv(1)] rbf_ok_nat [OF inv(1)] by simp
  then have "length (node ?rb ?w) = RBF_NODE_SIZE" by (simp add: node_def)
  then have "take (Suc n) (node (?rb\<lparr>buffer := b\<rparr>) ?w) = take (Suc n) m"
    unfolding w(3) using take_Suc_write [OF p(4)] snd_copy p(2) by simp
  then show ?thesis
    using snd_copy inv w p by (auto simp: ring_inv_def sender_ok_def receiver_ok_def used_def rbf_room_def split: rcv_phase.splits)
next
  case (snd_release off m rb)
  let ?rb = "ring_mem s" and ?w = "unat (hdr_w (ring_mem s))"
  have inv: "rbf_ok ?rb" "receiver_ok s" "list_all2 carries (seen s @ nodes ?rb) (sent s)" and
    p: "used ?rb < rbf_room ?rb" "take (length m) (node ?rb ?w) = m"
    using assms(2) snd_release by (auto simp: ring_inv_def sender_ok_def)
  from release_buff_law [OF inv(1) p(1)] snd_release obtain j where j: "rb = ?rb\<lparr>hdr_w := j\<rparr>" "rbf_ok rb" "nodes rb = nodes ?rb @ [node ?rb ?w]"
    by auto
  have "list_all2 carries ((seen s @ nodes ?rb) @ [node ?rb ?w]) (sent s @ [m])"
    using inv(3) p(2) by (intro list_all2_appendI) (simp_all add: carries_def)
  then show ?thesis
    using snd_release inv j by (auto simp: ring_inv_def sender_ok_def receiver_ok_def split: rcv_phase.splits)
next
  case (rcv_get off)
  then show ?thesis
    using assms(2) rbf_get_data_ok [of "ring_mem s"] by (auto simp: ring_inv_def sender_ok_def receiver_ok_def split: if_splits snd_phase.splits)
next
  case (rcv_release off rb)
  let ?rb = "ring_mem s"
  have inv: "rbf_ok ?rb" "sender_ok s" "list_all2 carries (seen s @ nodes ?rb) (sent s)" and
    p: "off = RBF_NODE_SIZE * unat (hdr_r ?rb)" "nodes ?rb \<noteq> []"
    using assms(2) rcv_release by (auto simp: ring_inv_def receiver_ok_def)
  from release_data_law [OF inv(1) p(2)] rcv_release obtain j where j: "rb = ?rb\<lparr>hdr_r := j\<rparr>" "rbf_ok rb" "nodes rb = tl (nodes ?rb)"
    "used rb = used ?rb - 1" by auto
  have "take RBF_NODE_SIZE (drop off (buffer ?rb)) = hd (nodes ?rb)" using rbf_get_data_ok(2) [OF inv(1) p(2)] p(1) by (simp add: node_def)
  then have "seen s @ [take RBF_NODE_SIZE (drop off (buffer ?rb))] @ nodes rb = seen s @ nodes ?rb" using p(2) j(3) by simp
  then have "list_all2 carries ((seen s @ [take RBF_NODE_SIZE (drop off (buffer ?rb))]) @ nodes rb) (sent s)" using inv(3) by simp
  moreover have "sender_ok s'"
    using inv(2) j(1,4) rcv_release by (auto simp: sender_ok_def rbf_room_def node_def split: snd_phase.splits)
  ultimately show ?thesis using rcv_release j(2) by (simp add: ring_inv_def receiver_ok_def)
qed

lemma ring_reach_inv:
  assumes "ring_reach rb0 s" and "rbf_ok rb0" and "nodes rb0 = []"
  shows "ring_inv s"
  using assms(1)
proof (induction rule: ring_reach.induct)
  case ring_start
  then show ?case using assms(2,3) by (simp add: ring_inv_def sender_ok_def receiver_ok_def)
next
  case (ring_more s s')
  then show ?case using ring_step_inv by blast
qed

text \<open>Neither side ever gets stuck in the middle of its work.\<close>

lemma ring_progress:
  assumes "ring_inv s"
  shows "sender s \<noteq> SndIdle \<Longrightarrow> \<exists>s'. ring_step s s' \<and> receiver s' = receiver s"
    and "receiver s \<noteq> RcvIdle \<Longrightarrow> \<exists>s'. ring_step s s' \<and> sender s' = sender s"
proof -
  let ?rb = "ring_mem s"
  have ok: "rbf_ok ?rb" using assms by (simp add: ring_inv_def)
  show "\<exists>s'. ring_step s s' \<and> receiver s' = receiver s" if idle: "sender s \<noteq> SndIdle"
  proof -
    obtain off m n where s: "sender s = SndCopy off m n" using idle by (cases "sender s") auto
    then have p: "off = RBF_NODE_SIZE * unat (hdr_w ?rb)" "length m \<le> RBF_NODE_SIZE" "n \<le> length m" "used ?rb < rbf_room ?rb"
      using assms by (auto simp: ring_inv_def sender_ok_def)
    show ?thesis
    proof (cases "n = length m")
      case True
      obtain rb where "rbf_release_buff ?rb = Ret rb" using release_buff_law [OF ok p(4)] by blast
      with s True have "ring_step s (s\<lparr>ring_mem := rb, sender := SndIdle, sent := sent s @ [m]\<rparr>)" by (auto intro: snd_release)
      moreover have "receiver (s\<lparr>ring_mem := rb, sender := SndIdle, sent := sent s @ [m]\<rparr>) = receiver s" by simp
      ultimately show ?thesis by blast
    next
      case False
      then obtain b where "mem_write (buffer ?rb) (off + n) [m ! n] = Ret b"
        using write_keeps_nodes [OF ok, of n "[m ! n]"] p by auto
      with s False p(3) have "ring_step s (s\<lparr>ring_mem := ?rb\<lparr>buffer := b\<rparr>, sender := SndCopy off m (Suc n)\<rparr>)"
        by (auto intro: snd_copy)
      moreover have "receiver (s\<lparr>ring_mem := ?rb\<lparr>buffer := b\<rparr>, sender := SndCopy off m (Suc n)\<rparr>) = receiver s" by simp
      ultimately show ?thesis by blast
    qed
  qed
  show "\<exists>s'. ring_step s s' \<and> sender s' = sender s" if idle: "receiver s \<noteq> RcvIdle"
  proof -
    obtain off where s: "receiver s = RcvRead off" using idle by (cases "receiver s") auto
    then have "nodes ?rb \<noteq> []" using assms by (auto simp: ring_inv_def receiver_ok_def)
    then obtain rb where "rbf_release_data ?rb = Ret rb" using release_data_law [OF ok] by blast
    with s have "ring_step s (s\<lparr>ring_mem := rb, receiver := RcvIdle, seen := seen s @ [take RBF_NODE_SIZE (drop off (buffer ?rb))]\<rparr>)"
      by (auto intro: rcv_release)
    moreover have "sender (s\<lparr>ring_mem := rb, receiver := RcvIdle, seen := seen s @ [take RBF_NODE_SIZE (drop off (buffer ?rb))]\<rparr>) = sender s"
      by simp
    ultimately show ?thesis by blast
  qed
qed

section \<open>Properties\<close>

text \<open>The ring of a block of zeroed memory of the given size, as the kernel sets it up.\<close>

definition fresh_ring :: "nat \<Rightarrow> rbf" where
  "fresh_ring bytes = rbf_init \<lparr>hdr_r = 0, hdr_w = 0, hdr_size = 0, hdr_count = 0, buffer = replicate (bytes - 12) 0\<rparr> (word_of_nat bytes)"

lemma unat_ucast16: "unat x < 65536 \<Longrightarrow> unat (ucast x :: u16) = unat x" for x :: u32
  by transfer (simp add: take_bit_eq_mod)

lemma fresh_ring_ok:
  assumes "12 + 2 * RBF_NODE_SIZE \<le> bytes" and "bytes < 2 ^ 27"
  shows "rbf_ok (fresh_ring bytes)" and "nodes (fresh_ring bytes) = []" and "rbf_room (fresh_ring bytes) = (bytes - 12) div RBF_NODE_SIZE - 1"
proof -
  let ?n = "(bytes - 12) div 2048"
  have b: "4108 \<le> bytes" "bytes < 134217728" using assms by (simp_all add: RBF_NODE_SIZE_def)
  have sz: "(word_of_nat bytes :: u32) - 12 = word_of_nat (bytes - 12)" using b(1) by (simp add: of_nat_diff)
  have "unat (word_of_nat (bytes - 12) :: u32) = bytes - 12" by (rule unat_u32) (use b in simp)
  moreover have "unat (word_of_nat RBF_NODE_SIZE :: u32) = 2048" by (simp add: RBF_NODE_SIZE_def)
  ultimately have "unat ((word_of_nat (bytes - 12) :: u32) div word_of_nat RBF_NODE_SIZE) = ?n" unfolding unat_div by simp
  moreover have "?n < 65536" "2 \<le> ?n" using b by (auto simp: less_mult_imp_div_less)
  moreover have "hdr_count (fresh_ring bytes) = ucast ((word_of_nat (bytes - 12) :: u32) div word_of_nat RBF_NODE_SIZE)"
    unfolding fresh_ring_def rbf_init_def Let_def sz by (simp only: rbf.simps)
  ultimately have c: "unat (hdr_count (fresh_ring bytes)) = ?n" by (simp only: unat_ucast16)
  have rw: "hdr_r (fresh_ring bytes) = 0" "hdr_w (fresh_ring bytes) = 0" "length (buffer (fresh_ring bytes)) = bytes - 12"
    by (simp_all add: fresh_ring_def rbf_init_def Let_def)
  have "2048 * ?n \<le> bytes - 12" by simp
  then show "rbf_ok (fresh_ring bytes)" using c rw \<open>2 \<le> ?n\<close> by (simp add: rbf_ok_def RBF_NODE_SIZE_def word_less_nat_alt)
  show "nodes (fresh_ring bytes) = []" using rw by (simp add: nodes_def used_def ring_used_def)
  show "rbf_room (fresh_ring bytes) = (bytes - 12) div RBF_NODE_SIZE - 1" using c by (simp add: rbf_room_def RBF_NODE_SIZE_def)
qed

text \<open>
  C27: the ring is a bounded queue. From a sound ring, any sequence of messages written by the
  kernel (of at most one node each) and reads by the process is carried out within the memory
  of the ring; a message is refused exactly when all nodes but one are in use; and what the
  process was given, followed by what is still in the ring, is what was there before followed
  by the accepted messages, in their order, each at the start of its own node.
\<close>

theorem ring_is_fifo:
  assumes "rbf_ok rb" and "\<forall>m. Send m \<in> set ops \<longrightarrow> length m \<le> RBF_NODE_SIZE"
  shows "(\<exists>acc rcv rb' new. queue_run nmsg_fill_buffer nt_message_turn ops rb = Ret (acc, rcv, rb') \<and> rbf_ok rb'
      \<and> rcv @ nodes rb' = nodes rb @ new \<and> list_all2 carries new acc)
    \<and> (length m \<le> RBF_NODE_SIZE \<longrightarrow>
        (\<exists>rb' b. nmsg_fill_buffer rb m = Ret (rb', b) \<and> (b \<longleftrightarrow> length (nodes rb) < unat (hdr_count rb) - 1)))"
proof
  show "\<exists>acc rcv rb' new. queue_run nmsg_fill_buffer nt_message_turn ops rb = Ret (acc, rcv, rb') \<and> rbf_ok rb'
      \<and> rcv @ nodes rb' = nodes rb @ new \<and> list_all2 carries new acc"
    using ring.run_fifo [OF assms(1), of ops] assms(2) by (auto simp: fits_node_def)
  show "length m \<le> RBF_NODE_SIZE \<longrightarrow>
        (\<exists>rb' b. nmsg_fill_buffer rb m = Ret (rb', b) \<and> (b \<longleftrightarrow> length (nodes rb) < unat (hdr_count rb) - 1))"
    using fill_law [OF assms(1), of m] by (auto simp: fits_node_def rbf_room_def)
qed

theorem ring_is_fifo_witness:
  "\<exists>acc rcv rb'. queue_run nmsg_fill_buffer nt_message_turn [Send [1, 2], Send [3], Recv] (fresh_ring 65536) = Ret (acc, rcv, rb')
    \<and> (\<exists>new. rcv @ nodes rb' = new \<and> list_all2 carries new acc)"
proof -
  have "rbf_ok (fresh_ring 65536)" "nodes (fresh_ring 65536) = []"
    using fresh_ring_ok [of 65536] by (simp_all add: RBF_NODE_SIZE_def)
  moreover have "\<forall>m. Send m \<in> set [Send [1, 2 :: u8], Send [3], Recv] \<longrightarrow> length m \<le> RBF_NODE_SIZE" by (auto simp: RBF_NODE_SIZE_def)
  ultimately show ?thesis using ring_is_fifo [of "fresh_ring 65536" "[Send [1, 2], Send [3], Recv]"] by (metis append_Nil)
qed

text \<open>
  C26: without a lock between them, kernel and process never disturb each other. In every
  interleaving from an empty ring, byte by byte: as long as the process holds a node, the node
  starts with the message whose turn it is, complete and unchanged; the nodes it was done with
  and those in the ring carry exactly the messages sent, in order; and either side can always
  finish what it has begun.
\<close>

theorem ring_readers_undisturbed:
  assumes "ring_reach rb0 s" and "rbf_ok rb0" and "nodes rb0 = []"
  shows "list_all2 carries (seen s @ nodes (ring_mem s)) (sent s)
    \<and> (\<forall>off. receiver s = RcvRead off \<longrightarrow>
         length (seen s) < length (sent s) \<and> carries (take RBF_NODE_SIZE (drop off (buffer (ring_mem s)))) (sent s ! length (seen s)))
    \<and> (sender s \<noteq> SndIdle \<longrightarrow> (\<exists>s'. ring_step s s' \<and> receiver s' = receiver s))
    \<and> (receiver s \<noteq> RcvIdle \<longrightarrow> (\<exists>s'. ring_step s s' \<and> sender s' = sender s))"
proof -
  have inv: "ring_inv s" using ring_reach_inv [OF assms] .
  then have ok: "rbf_ok (ring_mem s)" and l: "list_all2 carries (seen s @ nodes (ring_mem s)) (sent s)" by (simp_all add: ring_inv_def)
  have "length (seen s) < length (sent s) \<and> carries (take RBF_NODE_SIZE (drop off (buffer (ring_mem s)))) (sent s ! length (seen s))"
    if "receiver s = RcvRead off" for off
  proof -
    have p: "off = RBF_NODE_SIZE * unat (hdr_r (ring_mem s))" "nodes (ring_mem s) \<noteq> []"
      using inv that by (auto simp: ring_inv_def receiver_ok_def)
    have len: "length (sent s) = length (seen s) + length (nodes (ring_mem s))" using list_all2_lengthD [OF l] by simp
    then have lt: "length (seen s) < length (seen s @ nodes (ring_mem s))" using p(2) by simp
    have "(seen s @ nodes (ring_mem s)) ! length (seen s) = hd (nodes (ring_mem s))" using p(2) by (simp add: nth_append hd_conv_nth)
    then have "carries (hd (nodes (ring_mem s))) (sent s ! length (seen s))" using list_all2_nthD [OF l lt] by simp
    moreover have "take RBF_NODE_SIZE (drop off (buffer (ring_mem s))) = hd (nodes (ring_mem s))"
      using rbf_get_data_ok(2) [OF ok p(2)] p(1) by (simp add: node_def)
    ultimately show ?thesis using len lt by simp
  qed
  with l ring_progress [OF inv] show ?thesis by blast
qed

theorem ring_readers_undisturbed_witness:
  "\<exists>s s'. sender s = SndCopy 0 [7] 0 \<and> ring_step s s' \<and> receiver s' = receiver s"
proof -
  let ?rb = "fresh_ring 65536"
  have ok: "rbf_ok ?rb" "nodes ?rb = []" using fresh_ring_ok [of 65536] by (simp_all add: RBF_NODE_SIZE_def)
  have "hdr_w ?rb = 0" by (simp add: fresh_ring_def rbf_init_def Let_def)
  moreover have "used ?rb < unat (hdr_count ?rb) - 1"
    using ok fresh_ring_ok(3) [of 65536] by (auto simp: nodes_def rbf_room_def RBF_NODE_SIZE_def)
  ultimately have "rbf_get_buff ?rb = Ret (Some 0)" using rbf_get_buff_ok [OF ok(1)] by simp
  then have "ring_step \<lparr>ring_mem = ?rb, sender = SndIdle, receiver = RcvIdle, sent = [], seen = []\<rparr>
      (\<lparr>ring_mem = ?rb, sender = SndIdle, receiver = RcvIdle, sent = [], seen = []\<rparr>\<lparr>sender := SndCopy 0 [7] 0\<rparr>)"
    by (intro snd_get) (simp_all add: fits_node_def RBF_NODE_SIZE_def)
  from ring_readers_undisturbed [OF ring_more [OF ring_start this] ok]
  have "\<exists>s'. ring_step \<lparr>ring_mem = ?rb, sender = SndCopy 0 [7] 0, receiver = RcvIdle, sent = [], seen = []\<rparr> s' \<and> receiver s' = RcvIdle"
    by simp
  then show ?thesis by (metis shared_ring.select_convs(2,3))
qed

end
