(* ===== verification/Msg_Queue.thy ===== *)
theory Msg_Queue
  imports Msg_Ring
begin

text \<open>
  Messages from the kernel to \<open>ntrackd\<close>: \<open>drivers/nos/src/ntrack_msg.c\<close> queues them per CPU and a worker
  moves them into the ring of the CPU; a thread of \<open>ntrackd\<close> per core picks its ring
  (\<open>shm_rbf_init\<close> of \<open>libs/utils/src/nt_message.c\<close>) and reads it. The ring is used through the
  interpretation \<open>ring\<close> of the locale \<open>bounded_fifo\<close>.
\<close>

section \<open>Messages\<close>

record nt_msghdr =
  msg_type :: u16
  msg_prio :: u16
  data_len :: u16
  msg_crc :: u16

definition nt_msghdr_init :: "u16 \<Rightarrow> u16 \<Rightarrow> nt_msghdr" where
  "nt_msghdr_init type len = \<lparr>msg_type = type, msg_prio = 0, data_len = len, msg_crc = 0\<rparr>"

definition hdr_bytes :: "nt_msghdr \<Rightarrow> u8 list" where
  "hdr_bytes h = le16 (msg_type h) @ le16 (msg_prio h) @ le16 (data_len h) @ le16 (msg_crc h)"

text \<open>\<open>nt_msg_data\<close> on a node: what follows the header.\<close>

definition nt_msg_data :: "u8 list \<Rightarrow> u8 list" where
  "nt_msg_data p = drop 8 p"

section \<open>The queue of a CPU\<close>

text \<open>A node of the list: its address and the part of its buffer in use.\<close>

record nmsg_node =
  node_addr :: nat
  node_buff :: "u8 list"

record nt_mqueue =
  mq_list :: "nmsg_node list"
  mq_count :: "64 word"
  rbfp :: rbf

definition NCAP_MAX_COUNT :: "64 word" where "NCAP_MAX_COUNT = 2048"

definition KEY_TO_CORE :: "nat \<Rightarrow> u32 \<Rightarrow> nat" where
  "KEY_TO_CORE nr_cpu_ids k = unat k mod nr_cpu_ids"

text \<open>
  The two halves of \<open>nt_msg_enqueue\<close> after its checks: under the lock, the fresh node is linked at
  the head of the list; then, without the lock, its buffer is filled. \<open>kmalloc\<close> gives the address
  and the old content of the memory. Filling a node that is no longer in the list writes to
  freed memory.
\<close>

definition nmsg_link :: "nat \<Rightarrow> u8 list \<Rightarrow> nt_mqueue \<Rightarrow> nt_mqueue" where
  "nmsg_link addr junk q = q\<lparr>mq_count := mq_count q + 1, mq_list := \<lparr>node_addr = addr, node_buff = junk\<rparr> # mq_list q\<rparr>"

definition nmsg_fill :: "nat \<Rightarrow> u8 list \<Rightarrow> nt_mqueue \<Rightarrow> nt_mqueue run" where
  "nmsg_fill addr bytes q =
     (if \<exists>n \<in> set (mq_list q). node_addr n = addr
      then Ret (q\<lparr>mq_list := map (\<lambda>n. if node_addr n = addr then n\<lparr>node_buff := bytes\<rparr> else n) (mq_list q)\<rparr>)
      else Fault Undefined)"

definition nt_msg_enqueue ::
  "(nat \<times> u8 list) option \<Rightarrow> nt_msghdr \<Rightarrow> u8 list \<Rightarrow> u32 \<Rightarrow> nt_mqueue list \<Rightarrow> (nt_mqueue list \<times> errno option) run" where
  "nt_msg_enqueue kmalloc hdr buf_in key cpus =
     (let sz = unat (data_len hdr); core = KEY_TO_CORE (length cpus) key; q = cpus ! core
      in if mq_count q > NCAP_MAX_COUNT then Ret (cpus, Some ENOMEM)
         else if sz + 8 > RBF_NODE_SIZE then Ret (cpus, Some EINVAL)
         else case kmalloc of
           None \<Rightarrow> Ret (cpus, Some ENOMEM)
         | Some (addr, junk) \<Rightarrow>
             if length buf_in < sz then Fault Undefined
             else run_bind (nmsg_fill addr (hdr_bytes hdr @ take sz buf_in) (nmsg_link addr junk q)) (\<lambda>q.
               Ret (cpus[core := q], None)))"

text \<open>
  \<open>nmsg_dequeue\<close>: the first node of the list goes to the ring (whether there is room or not it
  is removed); False when the list is empty.
\<close>

definition nmsg_dequeue :: "nt_mqueue \<Rightarrow> (nt_mqueue \<times> bool) run" where
  "nmsg_dequeue q =
     (case mq_list q of
        [] \<Rightarrow> Ret (q, False)
      | n # ns \<Rightarrow>
          run_bind (nmsg_fill_buffer (rbfp q) (node_buff n)) (\<lambda>(rb, ok).
            Ret (q\<lparr>rbfp := rb, mq_count := mq_count q - 1, mq_list := ns\<rparr>, True)))"

text \<open>The worker: until the list is empty.\<close>

function nmsg_wq_dequeue_func :: "nt_mqueue \<Rightarrow> nt_mqueue run" where
  "nmsg_wq_dequeue_func q =
     (case nmsg_dequeue q of
        Fault e \<Rightarrow> Fault e
      | Ret (q', True) \<Rightarrow> nmsg_wq_dequeue_func q'
      | Ret (q', False) \<Rightarrow> Ret q')"
  by pat_completeness auto

termination
  by (relation "measure (\<lambda>q. length (mq_list q))") (auto simp: nmsg_dequeue_def run_simps split: list.splits)

declare nmsg_wq_dequeue_func.simps [simp del]

text \<open>
  \<open>nt_msg_init\<close>: the captured memory is cleared and divided between the CPUs. Both assertions are
  \<open>BUG_ON\<close>s.
\<close>

record msg_env =
  nr_cpu_ids :: nat
  cap_base :: bool
  cap_size :: u32
  alloc_workqueue_ok :: bool

definition nt_msg_init :: "msg_env \<Rightarrow> (nt_mqueue list \<times> errno option) run" where
  "nt_msg_init env =
     (let sz = unat (cap_size env) div nr_cpu_ids env
      in if \<not> cap_base env \<or> sz < RBF_NODE_SIZE * 32 then Fault BugOn
         else if \<not> alloc_workqueue_ok env then Ret ([], Some ENOMEM)
         else Ret (replicate (nr_cpu_ids env) \<lparr>mq_list = [], mq_count = 0, rbfp = fresh_ring sz\<rparr>, None))"

section \<open>The reader's ring\<close>

text \<open>
  \<open>shm_rbf_init\<close> of a thread with the given affinity: the first of the cores 0 to \<open>CPU_COUNT\<close> that is
  in the set, None when the loop ends without one (the pointer stays uninitialised, the result
  is success all the same).
\<close>

definition shm_rbf_init :: "nat set \<Rightarrow> nat option" where
  "shm_rbf_init affinity = find (\<lambda>i. i \<in> affinity) [0..<Suc (card affinity)]"

section \<open>The worker's effect\<close>

definition mqueue_ok :: "nt_mqueue \<Rightarrow> bool" where
  "mqueue_ok q \<longleftrightarrow> rbf_ok (rbfp q) \<and> unat (mq_count q) = length (mq_list q) \<and> length (mq_list q) \<le> 2049
     \<and> (\<forall>n \<in> set (mq_list q). fits_node (node_buff n))"

lemma worker_unfold:
  "nmsg_wq_dequeue_func q =
     (case mq_list q of
        [] \<Rightarrow> Ret q
      | n # ns \<Rightarrow>
          run_bind (nmsg_fill_buffer (rbfp q) (node_buff n)) (\<lambda>(rb, ok).
            nmsg_wq_dequeue_func (q\<lparr>rbfp := rb, mq_count := mq_count q - 1, mq_list := ns\<rparr>)))"
proof (cases "mq_list q")
  case Nil
  then show ?thesis by (subst nmsg_wq_dequeue_func.simps) (simp add: nmsg_dequeue_def)
next
  case (Cons n ns)
  then show ?thesis
    by (cases "nmsg_fill_buffer (rbfp q) (node_buff n)"; subst nmsg_wq_dequeue_func.simps) (auto simp: nmsg_dequeue_def)
qed

lemma worker_drains:
  assumes "mqueue_ok q"
  shows "\<exists>q' new. nmsg_wq_dequeue_func q = Ret q' \<and> mqueue_ok q' \<and> mq_list q' = [] \<and> mq_count q' = 0
    \<and> nodes (rbfp q') = nodes (rbfp q) @ new \<and> rbf_room (rbfp q') = rbf_room (rbfp q)
    \<and> list_all2 carries new (take (rbf_room (rbfp q) - length (nodes (rbfp q))) (map node_buff (mq_list q)))"
  using assms
proof (induction "mq_list q" arbitrary: q)
  case Nil
  then have "mq_count q = 0" by (simp add: mqueue_ok_def unat_eq_0)
  with Nil show ?case by (subst worker_unfold) (auto intro!: exI [of _ q])
next
  case (Cons n ns)
  have q: "rbf_ok (rbfp q)" "fits_node (node_buff n)" "unat (mq_count q) = Suc (length ns)" "mq_list q = n # ns"
    using Cons.prems Cons.hyps(2) [symmetric] by (auto simp: mqueue_ok_def)
  obtain rb b where f: "nmsg_fill_buffer (rbfp q) (node_buff n) = Ret (rb, b)" "rbf_ok rb" "rbf_room rb = rbf_room (rbfp q)"
    "b \<longleftrightarrow> length (nodes (rbfp q)) < rbf_room (rbfp q)"
    "if b then \<exists>x. carries x (node_buff n) \<and> nodes rb = nodes (rbfp q) @ [x] else rb = rbfp q"
    using ring.put_law [OF q(1,2)] by blast
  let ?q = "q\<lparr>rbfp := rb, mq_count := mq_count q - 1, mq_list := ns\<rparr>"
  have "mq_count q \<noteq> 0" using q(3) by auto
  then have "unat (mq_count q - 1) = length ns" using q(3) by (simp add: unat_minus_one)
  then have ok: "mqueue_ok ?q" using Cons.prems q f(2) by (auto simp: mqueue_ok_def)
  obtain q' new where r: "nmsg_wq_dequeue_func ?q = Ret q'" "mqueue_ok q'" "mq_list q' = []" "mq_count q' = 0"
    "nodes (rbfp q') = nodes rb @ new" "rbf_room (rbfp q') = rbf_room rb"
    "list_all2 carries new (take (rbf_room rb - length (nodes rb)) (map node_buff ns))"
    using Cons.hyps(1) [of ?q] ok by auto
  have run: "nmsg_wq_dequeue_func q = Ret q'" by (subst worker_unfold) (simp add: q(4) f(1) r(1))
  show ?case
  proof (cases b)
    case True
    then obtain x where x: "carries x (node_buff n)" "nodes rb = nodes (rbfp q) @ [x]" using f(5) by auto
    obtain k where k: "rbf_room (rbfp q) - length (nodes (rbfp q)) = Suc k" using f(4) True by (metis Suc_diff_Suc)
    then have "rbf_room rb - length (nodes rb) = k" using f(3) x(2) by simp
    then have "list_all2 carries (x # new) (take (Suc k) (map node_buff (mq_list q)))" using r(7) x(1) q(4) by simp
    then show ?thesis using run r f(3) x(2) k by (intro exI [of _ q'] exI [of _ "x # new"]) simp
  next
    case False
    then have "rb = rbfp q" "rbf_room (rbfp q) - length (nodes (rbfp q)) = 0" using f(4,5) by auto
    with run r show ?thesis by (intro exI [of _ q'] exI [of _ new]) simp
  qed
qed

text \<open>The start leaves every CPU with an empty queue and a sound, empty ring.\<close>

lemma nt_msg_init_ok:
  assumes "nt_msg_init env = Ret (cpus, None)" and "unat (cap_size env) div nr_cpu_ids env < 2 ^ 27"
  shows "length cpus = nr_cpu_ids env \<and> (\<forall>q \<in> set cpus. mqueue_ok q \<and> mq_list q = [] \<and> nodes (rbfp q) = [] \<and> 30 \<le> rbf_room (rbfp q))"
proof -
  let ?sz = "unat (cap_size env) div nr_cpu_ids env"
  have sz: "RBF_NODE_SIZE * 32 \<le> ?sz" and cpus: "cpus = replicate (nr_cpu_ids env) \<lparr>mq_list = [], mq_count = 0, rbfp = fresh_ring ?sz\<rparr>"
    using assms(1) by (auto simp: nt_msg_init_def Let_def split: if_splits)
  have "31 \<le> (?sz - 12) div RBF_NODE_SIZE" using sz by (simp add: RBF_NODE_SIZE_def less_eq_div_iff_mult_less_eq)
  moreover have "12 + 2 * RBF_NODE_SIZE \<le> ?sz" using sz by (simp add: RBF_NODE_SIZE_def)
  ultimately show ?thesis using fresh_ring_ok [OF _ assms(2)] by (auto simp: cpus mqueue_ok_def)
qed

section \<open>Queueing\<close>

definition msg_bytes :: "nt_msghdr \<Rightarrow> u8 list \<Rightarrow> u8 list" where
  "msg_bytes hdr data = hdr_bytes hdr @ take (unat (data_len hdr)) data"

text \<open>A message that can be queued: it fits a node, has its data, and its memory is not in use.\<close>

definition queueable :: "nt_mqueue \<Rightarrow> nat \<Rightarrow> nt_msghdr \<Rightarrow> u8 list \<Rightarrow> bool" where
  "queueable q addr hdr data \<longleftrightarrow>
     unat (data_len hdr) + 8 \<le> RBF_NODE_SIZE \<and> unat (data_len hdr) \<le> length data \<and> addr \<notin> node_addr ` set (mq_list q)"

lemma length_msg_bytes: "unat (data_len hdr) \<le> length data \<Longrightarrow> length (msg_bytes hdr data) = 8 + unat (data_len hdr)"
  by (simp add: msg_bytes_def hdr_bytes_def)

lemma enqueue_links:
  assumes "core = KEY_TO_CORE (length cpus) key" and "core < length cpus" and "mqueue_ok (cpus ! core)"
    and "queueable (cpus ! core) addr hdr data" and "length (mq_list (cpus ! core)) \<le> 2048"
  shows "\<exists>q'. nt_msg_enqueue (Some (addr, junk)) hdr data key cpus = Ret (cpus[core := q'], None) \<and> mqueue_ok q'
    \<and> mq_list q' = \<lparr>node_addr = addr, node_buff = msg_bytes hdr data\<rparr> # mq_list (cpus ! core) \<and> rbfp q' = rbfp (cpus ! core)"
proof -
  let ?q = "cpus ! core"
  let ?q' = "?q\<lparr>mq_count := mq_count ?q + 1, mq_list := \<lparr>node_addr = addr, node_buff = msg_bytes hdr data\<rparr> # mq_list ?q\<rparr>"
  have "map (\<lambda>n. if node_addr n = addr then n\<lparr>node_buff := msg_bytes hdr data\<rparr> else n) (mq_list ?q) = mq_list ?q"
    using assms(4) by (intro map_idI) (auto simp: queueable_def)
  then have fill: "nmsg_fill addr (msg_bytes hdr data) (nmsg_link addr junk ?q) = Ret ?q'"
    by (simp add: nmsg_fill_def nmsg_link_def)
  have cnt: "unat (mq_count ?q) = length (mq_list ?q)" using assms(3) by (simp add: mqueue_ok_def)
  then have "mq_count ?q \<le> NCAP_MAX_COUNT" using assms(5) by (simp add: word_le_nat_alt NCAP_MAX_COUNT_def)
  then have "nt_msg_enqueue (Some (addr, junk)) hdr data key cpus = Ret (cpus[core := ?q'], None)"
    using assms(1,4) fill by (simp add: nt_msg_enqueue_def Let_def queueable_def msg_bytes_def not_less)
  moreover have "unat (mq_count ?q + 1) = Suc (unat (mq_count ?q))" using cnt assms(5) by (simp add: unat_word_ariths)
  moreover have "fits_node (msg_bytes hdr data)" using assms(4) by (simp add: fits_node_def length_msg_bytes queueable_def)
  ultimately show ?thesis using assms(3,5) cnt by (intro exI [of _ ?q']) (auto simp: mqueue_ok_def)
qed

text \<open>A burst of messages for one core before its worker runs; True when all were taken.\<close>

fun nmsg_burst :: "(nat \<times> u8 list \<times> nt_msghdr \<times> u8 list) list \<Rightarrow> u32 \<Rightarrow> nt_mqueue list \<Rightarrow> nt_mqueue list run" where
  "nmsg_burst [] key cpus = Ret cpus"
| "nmsg_burst ((addr, junk, hdr, data) # ms) key cpus =
     run_bind (nt_msg_enqueue (Some (addr, junk)) hdr data key cpus) (\<lambda>(cpus, err). nmsg_burst ms key cpus)"

lemma burst_links:
  assumes "core = KEY_TO_CORE (length cpus) key" and "core < length cpus" and "mqueue_ok (cpus ! core)"
    and "\<forall>(addr, junk, hdr, data) \<in> set ms. queueable (cpus ! core) addr hdr data" and "distinct (map fst ms)"
    and "length (mq_list (cpus ! core)) + length ms \<le> 2049"
  shows "\<exists>q'. nmsg_burst ms key cpus = Ret (cpus[core := q']) \<and> mqueue_ok q' \<and> rbfp q' = rbfp (cpus ! core)
    \<and> mq_list q' = rev (map (\<lambda>(addr, junk, hdr, data). \<lparr>node_addr = addr, node_buff = msg_bytes hdr data\<rparr>) ms) @ mq_list (cpus ! core)"
  using assms
proof (induction ms arbitrary: cpus)
  case Nil
  then show ?case by (auto intro!: exI [of _ "cpus ! core"])
next
  case (Cons m ms)
  obtain addr junk hdr data where m: "m = (addr, junk, hdr, data)" by (cases m) auto
  obtain q1 where q1: "nt_msg_enqueue (Some (addr, junk)) hdr data key cpus = Ret (cpus[core := q1], None)" "mqueue_ok q1"
    "mq_list q1 = \<lparr>node_addr = addr, node_buff = msg_bytes hdr data\<rparr> # mq_list (cpus ! core)" "rbfp q1 = rbfp (cpus ! core)"
    using enqueue_links [OF Cons.prems(1-3), of addr hdr data junk] Cons.prems(4,6) m by auto
  have "\<exists>q'. nmsg_burst ms key (cpus[core := q1]) = Ret ((cpus[core := q1])[core := q']) \<and> mqueue_ok q'
    \<and> rbfp q' = rbfp (cpus[core := q1] ! core)
    \<and> mq_list q' = rev (map (\<lambda>(addr, junk, hdr, data). \<lparr>node_addr = addr, node_buff = msg_bytes hdr data\<rparr>) ms) @ mq_list (cpus[core := q1] ! core)"
  proof (rule Cons.IH)
    have "queueable q1 a h d" if x: "(a, j, h, d) \<in> set ms" for a j h d
    proof -
      have "a \<noteq> addr" using Cons.prems(5) x m by (metis distinct.simps(2) fst_conv image_eqI list.simps(9) list.set_map)
      moreover have "queueable (cpus ! core) a h d" using Cons.prems(4) x by auto
      ultimately show ?thesis using q1(3) by (auto simp: queueable_def)
    qed
    then show "\<forall>(addr, junk, hdr, data) \<in> set ms. queueable (cpus[core := q1] ! core) addr hdr data"
      using Cons.prems(2) by auto
  qed (use Cons.prems q1 m in simp_all)
  with Cons.prems(2) q1 m show ?case by auto
qed

section \<open>Properties\<close>

text \<open>
  C28: a burst of messages for one core is delivered backwards. When the messages of a burst each
  fit a node and the queue has room for them, all of them are taken; the worker then ends with
  an empty queue, and it has appended to the ring of that core, newest message first, as many
  as there were free nodes (each node starting with the header and data of its message); the
  oldest ones beyond that are lost. The queues of other cores are untouched.
\<close>

theorem burst_delivered_newest_first:
  assumes "core = KEY_TO_CORE (length cpus) key" and "core < length cpus" and "mqueue_ok (cpus ! core)" and "mq_list (cpus ! core) = []"
    and "\<forall>(addr, junk, hdr, data) \<in> set ms. unat (data_len hdr) + 8 \<le> RBF_NODE_SIZE \<and> unat (data_len hdr) \<le> length data"
    and "distinct (map fst ms)" and "length ms \<le> 2049"
  shows "\<exists>q1 q2 new. nmsg_burst ms key cpus = Ret (cpus[core := q1]) \<and> nmsg_wq_dequeue_func q1 = Ret q2
    \<and> mqueue_ok q2 \<and> mq_list q2 = [] \<and> nodes (rbfp q2) = nodes (rbfp (cpus ! core)) @ new
    \<and> list_all2 carries new (take (rbf_room (rbfp (cpus ! core)) - length (nodes (rbfp (cpus ! core))))
        (rev (map (\<lambda>(addr, junk, hdr, data). msg_bytes hdr data) ms)))"
proof -
  have "\<forall>(addr, junk, hdr, data) \<in> set ms. queueable (cpus ! core) addr hdr data" using assms(4,5) by (auto simp: queueable_def)
  then obtain q1 where q1: "nmsg_burst ms key cpus = Ret (cpus[core := q1])" "mqueue_ok q1" "rbfp q1 = rbfp (cpus ! core)"
    "mq_list q1 = rev (map (\<lambda>(addr, junk, hdr, data). \<lparr>node_addr = addr, node_buff = msg_bytes hdr data\<rparr>) ms)"
    using burst_links [OF assms(1-3) _ assms(6)] assms(4,7) by auto
  have "map node_buff (mq_list q1) = rev (map (\<lambda>(addr, junk, hdr, data). msg_bytes hdr data) ms)"
    unfolding q1(4) by (simp add: rev_map o_def case_prod_unfold)
  then show ?thesis using worker_drains [OF q1(2)] q1(1,3) by auto
qed

definition demo_hdr :: nt_msghdr where
  "demo_hdr = nt_msghdr_init 4 2"

lemma demo_ring: "rbf_ok (fresh_ring 65548)" "nodes (fresh_ring 65548) = []" "rbf_room (fresh_ring 65548) = 31"
  using fresh_ring_ok [of 65548] by (simp_all add: RBF_NODE_SIZE_def)

theorem burst_delivered_newest_first_witness:
  "\<exists>q1 q2 new. nmsg_burst [(100, [], demo_hdr, [1, 2]), (200, [], demo_hdr, [3, 4])] 5
        [\<lparr>mq_list = [], mq_count = 0, rbfp = fresh_ring 65548\<rparr>] = Ret [q1]
    \<and> nmsg_wq_dequeue_func q1 = Ret q2 \<and> nodes (rbfp q2) = new
    \<and> list_all2 carries new [msg_bytes demo_hdr [3, 4], msg_bytes demo_hdr [1, 2]]"
proof -
  let ?q = "\<lparr>mq_list = [], mq_count = 0, rbfp = fresh_ring 65548\<rparr> :: nt_mqueue"
  have "mqueue_ok ?q" using demo_ring by (simp add: mqueue_ok_def)
  moreover have "0 = KEY_TO_CORE (length [?q]) 5" by (simp add: KEY_TO_CORE_def)
  moreover have "\<forall>(addr, junk, hdr, data) \<in> set [(100 :: nat, [] :: u8 list, demo_hdr, [1, 2 :: u8]), (200, [], demo_hdr, [3, 4])].
      unat (data_len hdr) + 8 \<le> RBF_NODE_SIZE \<and> unat (data_len hdr) \<le> length data"
    by (simp add: demo_hdr_def nt_msghdr_init_def RBF_NODE_SIZE_def)
  ultimately obtain q1 q2 new where "nmsg_burst [(100, [], demo_hdr, [1, 2]), (200, [], demo_hdr, [3, 4])] 5 [?q] = Ret ([?q][0 := q1])"
    "nmsg_wq_dequeue_func q1 = Ret q2" "nodes (rbfp q2) = nodes (rbfp ([?q] ! 0)) @ new"
    "list_all2 carries new (take (rbf_room (rbfp ([?q] ! 0)) - length (nodes (rbfp ([?q] ! 0))))
        (rev (map (\<lambda>(addr, junk, hdr, data). msg_bytes hdr data) [(100, [], demo_hdr, [1, 2]), (200, [], demo_hdr, [3, 4])])))"
    using burst_delivered_newest_first [of 0 "[?q]" 5 "[(100, [], demo_hdr, [1, 2]), (200, [], demo_hdr, [3, 4])]"] by auto
  then show ?thesis using demo_ring by (intro exI [of _ q1] exI [of _ q2] exI [of _ new]) simp
qed

text \<open>
  The lock of the queue is released before the linked node is filled: when the worker runs in
  between, it sends the old content of the memory to the ring and frees the node, and filling
  it writes to freed memory.
\<close>

lemma enqueue_race:
  assumes "mqueue_ok q" and "mq_list q = []" and "fits_node junk"
  shows "\<exists>q'. nmsg_wq_dequeue_func (nmsg_link addr junk q) = Ret q' \<and> nmsg_fill addr bytes q' = Fault Undefined
    \<and> (length (nodes (rbfp q)) < rbf_room (rbfp q) \<longrightarrow> (\<exists>x. nodes (rbfp q') = nodes (rbfp q) @ [x] \<and> carries x junk))"
proof -
  have "unat (mq_count q) = 0" using assms(1,2) by (simp add: mqueue_ok_def)
  then have "mqueue_ok (nmsg_link addr junk q)" using assms by (simp add: mqueue_ok_def nmsg_link_def unat_eq_0)
  from worker_drains [OF this] obtain q' new where q': "nmsg_wq_dequeue_func (nmsg_link addr junk q) = Ret q'" "mq_list q' = []"
    "nodes (rbfp q') = nodes (rbfp q) @ new" "list_all2 carries new (take (rbf_room (rbfp q) - length (nodes (rbfp q))) [junk])"
    using assms(2) by (auto simp: nmsg_link_def)
  then show ?thesis by (auto simp: nmsg_fill_def take_Cons' list_all2_Cons2 split: if_splits)
qed

text \<open>
  The threads of \<open>ntrackd\<close> each bind themselves to one core and then look for its ring; only the
  threads on the cores 0 and 1 find one. The thread of any other core goes on, with success,
  with an uninitialised pointer.
\<close>

lemma reader_ring_found:
  "shm_rbf_init {core} = (if core \<le> 1 then Some core else None)"
  by (auto simp: shm_rbf_init_def upt_rec)

end
