(* ===== verification/Rds_Parser.thy ===== *)
theory Rds_Parser
  imports Prelude
begin

unbundle bit_operations_syntax

text \<open>
  \<open>rdsparser/src\<close>: the request encoder and the incremental parser for the redis protocol
  (\<open>rdsparser.c\<close>), and the loop of its Lua binding that takes every complete message out of a
  chunk (\<open>l_decode\<close> of \<open>luawrap.c\<close>). \<open>BUG_ON\<close> of this library ends the process. \<open>malloc_ok\<close> tells
  whether an allocation succeeds.
\<close>

section \<open>Encoding\<close>

definition CRLF :: string where "CRLF = [CHR 0x0D, CHR 0x0A]"

text \<open>The loop of \<open>rds_encode\<close>: the output so far, in a buffer of \<open>room\<close> bytes.\<close>

fun encode_loop :: "nat \<Rightarrow> string \<Rightarrow> string list \<Rightarrow> string run" where
  "encode_loop room out [] = run_bind (assertion (length out + 1 < room)) (\<lambda>u. Ret out)"
| "encode_loop room out (p # ps) =
     (let h = CHR ''$'' # dec (length p) @ CRLF
      in run_bind (assertion (length h < room)) (\<lambda>u.
         run_bind (assertion (length out + length h + length p + 2 < room)) (\<lambda>u.
           encode_loop room (out @ h @ p @ CRLF) ps)))"

definition encode_total :: "string list \<Rightarrow> nat" where
  "encode_total arr = length arr * 10 + (length arr * 2 + 1) * 2 + sum_list (map length arr)"

definition rds_encode :: "(nat \<Rightarrow> bool) \<Rightarrow> string list \<Rightarrow> string run" where
  "rds_encode malloc_ok arr =
     run_bind (assertion (arr \<noteq> [])) (\<lambda>u.
     run_bind (assertion (\<forall>p \<in> set arr. 0 < length p \<and> length p \<le> 128 * 1024)) (\<lambda>u.
       if encode_total arr \<ge> 2 ^ 31 then Fault Undefined
       else
         run_bind (assertion (malloc_ok (encode_total arr))) (\<lambda>u.
           (let h = CHR ''*'' # dec (length arr) @ CRLF
            in run_bind (assertion (length h < encode_total arr)) (\<lambda>u. encode_loop (encode_total arr) h arr)))))"

section \<open>The parser\<close>

datatype rds_state = RDS_NEW | RDS_RUN | RDS_ERR

text \<open>
  The buffer holds \<open>cur\<close>; \<open>rds_alloc\<close> is the size of its memory, None before the first use, and
  \<open>maxsize\<close> what the parser believes it is. \<open>res_arr\<close> are the parameters read so far.
\<close>

record rdsst =
  cur :: string
  rds_alloc :: "nat option"
  maxsize :: nat
  rstate :: rds_state
  res_arr :: "string list"
  res_count :: nat

definition rds_new :: rdsst where
  "rds_new = \<lparr>cur = [], rds_alloc = None, maxsize = 0, rstate = RDS_NEW, res_arr = [], res_count = 0\<rparr>"

definition DEFAULT_BUFF_SIZE :: nat where "DEFAULT_BUFF_SIZE = 32 * 1024"

definition EXPECT_BUFF_SIZE :: nat where "EXPECT_BUFF_SIZE = 128 * 1024"

definition adjust_size :: "nat \<Rightarrow> nat run" where
  "adjust_size sz = (case find (\<lambda>i. sz \<le> 2 ^ i) [0..<24] of Some i \<Rightarrow> Ret (2 ^ i) | None \<Rightarrow> Fault BugOn)"

text \<open>\<open>memcpy\<close> into the buffer, and \<open>rds_cache\<close>; False for its result -1.\<close>

definition cache_copy :: "string \<Rightarrow> rdsst \<Rightarrow> (rdsst \<times> bool) run" where
  "cache_copy chunk rds =
     (if length (cur rds) + length chunk > the (rds_alloc rds) then Fault Undefined
      else Ret (rds\<lparr>cur := cur rds @ chunk\<rparr>, True))"

definition rds_cache :: "(nat \<Rightarrow> bool) \<Rightarrow> string \<Rightarrow> rdsst \<Rightarrow> (rdsst \<times> bool) run" where
  "rds_cache malloc_ok chunk rds =
     run_bind
       (if rds_alloc rds = None
        then run_bind (assertion (malloc_ok DEFAULT_BUFF_SIZE)) (\<lambda>u.
          Ret (rds\<lparr>maxsize := DEFAULT_BUFF_SIZE, rds_alloc := Some DEFAULT_BUFF_SIZE\<rparr>))
        else Ret rds) (\<lambda>rds.
     if length (cur rds) + length chunk > maxsize rds then
       run_bind (adjust_size (length (cur rds) + length chunk)) (\<lambda>n.
         if n > 512 * 1024 then Ret (rds\<lparr>maxsize := n\<rparr>, False)
         else run_bind (assertion (malloc_ok n)) (\<lambda>u. cache_copy chunk (rds\<lparr>maxsize := n, rds_alloc := Some n\<rparr>)))
     else cache_copy chunk rds)"

definition shrink_buff :: "(nat \<Rightarrow> bool) \<Rightarrow> rdsst \<Rightarrow> rdsst run" where
  "shrink_buff malloc_ok rds =
     (if maxsize rds \<le> EXPECT_BUFF_SIZE then Ret rds
      else run_bind (assertion (malloc_ok EXPECT_BUFF_SIZE)) (\<lambda>u.
        Ret (rds\<lparr>maxsize := EXPECT_BUFF_SIZE, rds_alloc := Some EXPECT_BUFF_SIZE\<rparr>)))"

text \<open>
  A length: an error, more input needed, or the value and the rest. The value is computed in
  \<open>int\<close>, whose overflow is undefined.
\<close>

datatype rds_len = LenErr | LenMore | Len nat string

fun len_loop :: "nat \<Rightarrow> string \<Rightarrow> rds_len run" where
  "len_loop count (c # d # s) =
     (if c = CHR 0x0D \<and> d = CHR 0x0A then Ret (if count \<ge> 100000000 then LenErr else Len count s)
      else if \<not> is_digit c then Ret LenErr
      else if 10 * count + (cv c - 48) > 2147483647 then Fault Undefined
      else len_loop (10 * count + (cv c - 48)) (d # s))"
| "len_loop count s = Ret LenMore"

definition read_rds_len :: "string \<Rightarrow> char \<Rightarrow> rds_len run" where
  "read_rds_len s ch = (case s of [] \<Rightarrow> Fault Undefined | c # t \<Rightarrow> if c \<noteq> ch then Ret LenErr else len_loop 0 t)"

datatype rds_result = RdsErr | RdsMore | RdsDone "string list"

text \<open>
  The loop of \<open>read_param_content\<close> for the parameters still missing: what is left of the buffer,
  the parameters, and Some True when all were read, Some False for an error, None for more input.
\<close>

fun param_loop :: "(nat \<Rightarrow> bool) \<Rightarrow> nat \<Rightarrow> string \<Rightarrow> string list \<Rightarrow> (string \<times> string list \<times> bool option) run" where
  "param_loop malloc_ok 0 s arr = Ret (s, arr, Some True)"
| "param_loop malloc_ok (Suc n) s arr =
     (if s = [] then Ret (s, arr, None)
      else run_bind (read_rds_len s (CHR ''$'')) (\<lambda>r.
        case r of
          LenErr \<Rightarrow> Ret (s, arr, Some False)
        | LenMore \<Rightarrow> Ret (s, arr, None)
        | Len len t \<Rightarrow>
            if length t < len + 2 then Ret (s, arr, None)
            else if t ! len \<noteq> CHR 0x0D \<or> t ! (len + 1) \<noteq> CHR 0x0A then Ret (s, arr, Some False)
            else run_bind (assertion (malloc_ok (len + 1))) (\<lambda>u.
              param_loop malloc_ok n (drop (len + 2) t) (arr @ [take len t]))))"

definition read_param_content :: "(nat \<Rightarrow> bool) \<Rightarrow> rdsst \<Rightarrow> (rdsst \<times> bool option) run" where
  "read_param_content malloc_ok rds =
     run_bind (assertion (rstate rds = RDS_RUN \<and> length (res_arr rds) < res_count rds)) (\<lambda>u.
     run_bind (param_loop malloc_ok (res_count rds - length (res_arr rds)) (cur rds) (res_arr rds)) (\<lambda>(s, arr, r).
       Ret (rds\<lparr>cur := s, res_arr := arr\<rparr>, r)))"

text \<open>The header of a message in state \<open>RDS_NEW\<close>; None to go on.\<close>

definition read_header :: "(nat \<Rightarrow> bool) \<Rightarrow> rdsst \<Rightarrow> (rdsst \<times> rds_result option) run" where
  "read_header malloc_ok rds =
     (if rstate rds \<noteq> RDS_NEW then Ret (rds, None)
      else run_bind (read_rds_len (cur rds) (CHR ''*'')) (\<lambda>r.
        case r of
          LenErr \<Rightarrow> Ret (rds\<lparr>rstate := RDS_ERR\<rparr>, Some RdsErr)
        | LenMore \<Rightarrow> Ret (rds, Some RdsMore)
        | Len count t \<Rightarrow>
            run_bind (assertion (res_arr rds = [] \<and> res_count rds = 0)) (\<lambda>u.
            run_bind (assertion (malloc_ok (8 * count))) (\<lambda>u.
              Ret (rds\<lparr>res_count := count, rstate := RDS_RUN, cur := t\<rparr>, None)))))"

text \<open>The end of \<open>rds_decode\<close>: the complete result is handed out and the parser reset.\<close>

definition hand_out :: "(nat \<Rightarrow> bool) \<Rightarrow> rdsst \<Rightarrow> (rdsst \<times> rds_result) run" where
  "hand_out malloc_ok rds =
     run_bind (assertion (length (res_arr rds) = res_count rds)) (\<lambda>u.
       (let out = res_arr rds; rds = rds\<lparr>res_arr := [], res_count := 0, rstate := RDS_NEW\<rparr>
        in run_bind (if cur rds = [] then shrink_buff malloc_ok rds else Ret rds) (\<lambda>rds. Ret (rds, RdsDone out))))"

definition decode_content :: "(nat \<Rightarrow> bool) \<Rightarrow> rdsst \<Rightarrow> (rdsst \<times> rds_result) run" where
  "decode_content malloc_ok rds =
     run_bind (read_param_content malloc_ok rds) (\<lambda>(rds, r).
       case r of
         Some False \<Rightarrow> Ret (rds\<lparr>rstate := RDS_ERR\<rparr>, RdsErr)
       | None \<Rightarrow> Ret (rds, RdsMore)
       | Some True \<Rightarrow> hand_out malloc_ok rds)"

definition decode_cached :: "(nat \<Rightarrow> bool) \<Rightarrow> rdsst \<Rightarrow> (rdsst \<times> rds_result) run" where
  "decode_cached malloc_ok rds =
     (if cur rds = [] then Ret (rds, RdsMore)
      else run_bind (read_header malloc_ok rds) (\<lambda>(rds, early).
        case early of Some r \<Rightarrow> Ret (rds, r) | None \<Rightarrow> decode_content malloc_ok rds))"

text \<open>\<open>rds_decode\<close>; an empty chunk stands for NULL or a size of 0.\<close>

definition rds_decode :: "(nat \<Rightarrow> bool) \<Rightarrow> string \<Rightarrow> rdsst \<Rightarrow> (rdsst \<times> rds_result) run" where
  "rds_decode malloc_ok chunk rds =
     run_bind (assertion (rstate rds \<noteq> RDS_ERR)) (\<lambda>u.
     run_bind (if chunk \<noteq> [] then rds_cache malloc_ok chunk rds else Ret (rds, True)) (\<lambda>(rds, ok).
       if ok then decode_cached malloc_ok rds else Ret (rds, RdsErr)))"

definition rds_empty :: "rdsst \<Rightarrow> bool" where
  "rds_empty rds \<longleftrightarrow> cur rds = []"

section \<open>Every message of a chunk\<close>

lemma len_loop_rest: "len_loop count s = Ret (Len n t) \<Longrightarrow> length t < length s"
  by (induction count s rule: len_loop.induct) (auto split: if_splits)

lemma read_len_rest: "read_rds_len s ch = Ret (Len n t) \<Longrightarrow> length t < length s"
  by (auto simp: read_rds_len_def split: list.splits if_splits dest: len_loop_rest)

lemma param_loop_shrinks:
  "param_loop malloc_ok n s arr = Ret (s', arr', r) \<Longrightarrow> length s' \<le> length s \<and> (0 < n \<and> r = Some True \<longrightarrow> length s' < length s)"
proof (induction malloc_ok n s arr rule: param_loop.induct)
  case (2 malloc_ok n s arr)
  show ?case
  proof (cases "\<exists>len t. s \<noteq> [] \<and> read_rds_len s (CHR ''$'') = Ret (Len len t) \<and> \<not> length t < len + 2
      \<and> \<not> (t ! len \<noteq> CHR 0x0D \<or> t ! (len + 1) \<noteq> CHR 0x0A)")
    case True
    then obtain len t where t: "s \<noteq> []" "read_rds_len s (CHR ''$'') = Ret (Len len t)" "\<not> length t < len + 2"
      "\<not> (t ! len \<noteq> CHR 0x0D \<or> t ! (len + 1) \<noteq> CHR 0x0A)" by blast
    with 2(2) have a: "assertion (malloc_ok (len + 1)) = Ret ()"
      and "param_loop malloc_ok n (drop (len + 2) t) (arr @ [take len t]) = Ret (s', arr', r)"
      by (auto simp: run_simps)
    from 2(1) [OF t(1,2) refl t(3,4) a this(2)] read_len_rest [OF t(2)] show ?thesis by (simp, linarith)
  next
    case False
    show ?thesis
    proof (cases "read_rds_len s (CHR ''$'')")
      case (Ret x)
      with False 2(2) show ?thesis by (cases x) (auto split: if_splits)
    qed (use 2(2) in \<open>auto split: if_splits\<close>)
  qed
qed auto

lemma header_shrinks:
  assumes "read_header malloc_ok rds = Ret (rds', r)"
  shows "length (cur rds') \<le> length (cur rds) \<and> r \<noteq> Some (RdsDone out)"
proof (cases "read_rds_len (cur rds) (CHR ''*'')")
  case (Ret x)
  with assms show ?thesis
    by (cases x) (auto simp: read_header_def run_simps split: if_splits dest!: read_len_rest)
qed (use assms in \<open>auto simp: read_header_def split: if_splits\<close>)

lemma content_shrinks:
  "read_param_content malloc_ok rds = Ret (rds', Some True) \<Longrightarrow> length (cur rds') < length (cur rds)"
  by (auto simp: read_param_content_def run_simps dest!: param_loop_shrinks)

lemma shrink_keeps_cur: "shrink_buff malloc_ok rds = Ret rds' \<Longrightarrow> cur rds' = cur rds"
  by (auto simp: shrink_buff_def run_simps split: if_splits)

lemma hand_out_keeps_cur: "hand_out malloc_ok rds = Ret (rds', r) \<Longrightarrow> cur rds' = cur rds"
  by (auto simp: hand_out_def Let_def run_simps dest!: shrink_keeps_cur split: if_splits)

lemma decode_content_shrinks:
  assumes "decode_content malloc_ok rds = Ret (rds', RdsDone out)"
  shows "length (cur rds') < length (cur rds)"
proof -
  from assms obtain rds1 r where p: "read_param_content malloc_ok rds = Ret (rds1, r)"
    by (auto simp: decode_content_def run_simps)
  with assms have "r = Some True" "hand_out malloc_ok rds1 = Ret (rds', RdsDone out)"
    by (auto simp: decode_content_def split: option.splits bool.splits)
  with p show ?thesis using content_shrinks hand_out_keeps_cur by metis
qed

lemma decode_shrinks:
  assumes "rds_decode malloc_ok [] rds = Ret (rds', RdsDone out)"
  shows "length (cur rds') < length (cur rds)"
proof -
  from assms obtain rds1 r where h: "read_header malloc_ok rds = Ret (rds1, r)"
    and k: "(case r of Some r \<Rightarrow> Ret (rds1, r) | None \<Rightarrow> decode_content malloc_ok rds1) = Ret (rds', RdsDone out)"
    by (auto simp: rds_decode_def decode_cached_def run_simps split: if_splits)
  from header_shrinks [OF h] k have "decode_content malloc_ok rds1 = Ret (rds', RdsDone out)"
    by (auto split: option.splits)
  with header_shrinks [OF h] decode_content_shrinks show ?thesis by fastforce
qed

text \<open>\<open>l_decode\<close> after its first call: all further complete messages in the buffer; None for an error.\<close>

function decode_more :: "(nat \<Rightarrow> bool) \<Rightarrow> rdsst \<Rightarrow> (rdsst \<times> string list list option) run" where
  "decode_more malloc_ok rds =
     (case rds_decode malloc_ok [] rds of
        Fault e \<Rightarrow> Fault e
      | Ret (rds', RdsErr) \<Rightarrow> Ret (rds', None)
      | Ret (rds', RdsMore) \<Rightarrow> Ret (rds', Some [])
      | Ret (rds', RdsDone out) \<Rightarrow> run_bind (decode_more malloc_ok rds') (\<lambda>(rds'', outs). Ret (rds'', map_option ((#) out) outs)))"
  by pat_completeness auto

termination
  by (relation "measure (\<lambda>(m, rds). length (cur rds))") (auto dest: decode_shrinks)

declare decode_more.simps [simp del]

definition l_decode :: "(nat \<Rightarrow> bool) \<Rightarrow> string \<Rightarrow> rdsst \<Rightarrow> (rdsst \<times> string list list option) run" where
  "l_decode malloc_ok chunk rds =
     (case rds_decode malloc_ok chunk rds of
        Fault e \<Rightarrow> Fault e
      | Ret (rds', RdsErr) \<Rightarrow> Ret (rds', None)
      | Ret (rds', RdsMore) \<Rightarrow> Ret (rds', Some [])
      | Ret (rds', RdsDone out) \<Rightarrow> run_bind (decode_more malloc_ok rds') (\<lambda>(rds'', outs). Ret (rds'', map_option ((#) out) outs)))"

text \<open>
  \<open>l_rds_encode\<close>: the Lua table as its length and the values \<open>lua_next\<close> visits, None for one that is
  not a string; the result None for a Lua error. The array has one entry per element of the length,
  and the visited values are stored without a check against it.
\<close>

fun collect_params :: "nat \<Rightarrow> string option list \<Rightarrow> string list option run" where
  "collect_params room [] = Ret (Some [])"
| "collect_params room (None # vs) = Ret None"
| "collect_params 0 (Some v # vs) = Fault Undefined"
| "collect_params (Suc room) (Some v # vs) =
     run_bind (collect_params room vs) (\<lambda>r. Ret (map_option ((#) v) r))"

definition l_rds_encode :: "(nat \<Rightarrow> bool) \<Rightarrow> nat \<Rightarrow> string option list \<Rightarrow> string option run" where
  "l_rds_encode malloc_ok count vals =
     (if count = 0 then Ret None
      else run_bind (assertion (malloc_ok (8 * count))) (\<lambda>u.
        run_bind (collect_params count vals) (\<lambda>r.
          case r of
            None \<Rightarrow> Ret None
          | Some arr \<Rightarrow>
              if length arr < count then Fault Undefined
              else run_bind (rds_encode malloc_ok arr) (\<lambda>t. Ret (Some t)))))"

text \<open>\<open>l_hex\<close>: a 32-bit hash, printed as eight hexadecimal digits.\<close>

definition hash_step :: "u32 \<Rightarrow> char \<Rightarrow> u32" where
  "hash_step hash c = hash XOR (push_bit 5 hash + of_nat (cv c) + drop_bit 2 hash)"

definition hex_digit :: "nat \<Rightarrow> char" where
  "hex_digit d = (if d < 10 then digit_char d else char_of (87 + d))"

definition l_hex :: "string \<Rightarrow> string" where
  "l_hex s = (let hash = foldl hash_step 1315423911 s in map (\<lambda>i. hex_digit (unat (drop_bit (4 * i) hash) mod 16)) [7, 6, 5, 4, 3, 2, 1, 0])"

text \<open>The calls of the Lua client: one \<open>l_decode\<close> per chunk it received, up to an error.\<close>

fun feed :: "(nat \<Rightarrow> bool) \<Rightarrow> string list \<Rightarrow> rdsst \<Rightarrow> (rdsst \<times> string list list option) run" where
  "feed malloc_ok [] rds = Ret (rds, Some [])"
| "feed malloc_ok (c # cs) rds =
     run_bind (l_decode malloc_ok c rds) (\<lambda>(rds, outs).
       case outs of
         None \<Rightarrow> Ret (rds, None)
       | Some outs \<Rightarrow> run_bind (feed malloc_ok cs rds) (\<lambda>(rds, r). Ret (rds, map_option ((@) outs) r)))"

section \<open>The encoder\<close>

text \<open>The protocol: the text of one parameter and of a message.\<close>

definition bulk :: "string \<Rightarrow> string" where
  "bulk p = CHR ''$'' # dec (length p) @ CRLF @ p @ CRLF"

definition rds_text :: "string list \<Rightarrow> string" where
  "rds_text arr = CHR ''*'' # dec (length arr) @ CRLF @ concat (map bulk arr)"

lemma length_bulk: "length (bulk p) = length p + length (dec (length p)) + 5"
  by (simp add: bulk_def CRLF_def)

lemma encode_loop_eq:
  "encode_loop room out ps =
     (if length out + length (concat (map bulk ps)) + 1 < room then Ret (out @ concat (map bulk ps)) else Fault BugOn)"
proof (induction ps arbitrary: out)
  case (Cons p ps)
  then show ?case by (auto simp: assertion_def Let_def bulk_def [of p] CRLF_def)
qed (simp add: assertion_def)

lemma bulks_length:
  assumes "\<forall>p \<in> set arr. length p < 10 ^ k" "0 < k"
  shows "length (concat (map bulk arr)) \<le> sum_list (map length arr) + (k + 5) * length arr"
  using assms
proof (induction arr)
  case (Cons p ps)
  then show ?case using length_dec_le [of "length p" k] by (simp add: length_bulk)
qed simp

lemma length_dec_le_self: "0 < n \<Longrightarrow> length (dec n) \<le> n"
  by (rule length_dec_le [OF less_le_trans [OF less_exp]]) (simp_all add: power_mono)

lemma less_pow_length_dec: "n < 10 ^ length (dec n)"
proof (induction n rule: dec.induct)
  case (1 n)
  show ?case
  proof (cases "n < 10")
    case False
    with 1 have "n div 10 < 10 ^ length (dec (n div 10))" by simp
    then have "n < 10 * 10 ^ length (dec (n div 10))" by linarith
    with False show ?thesis by (simp add: dec.simps [of n])
  qed (simp add: dec.simps [of n])
qed

lemma length_dec_ge: "10 ^ k \<le> n \<Longrightarrow> k < length (dec n)"
  using less_pow_length_dec [of n] power_less_imp_less_exp [of "10 :: nat" k "length (dec n)"] by linarith

text \<open>
  \<open>rds_encode\<close> on what its assertions allow, that is one or more parameters of 1 to 131072
  bytes, returns exactly the text of the message, with one exception: a single parameter of
  100000 bytes or more does not fit the buffer size it computes, and ends the process.
\<close>

theorem rds_encode_outcome:
  assumes "arr \<noteq> []" "\<forall>p \<in> set arr. 0 < length p \<and> length p \<le> 131072" "encode_total arr < 2 ^ 31"
  shows "rds_encode (\<lambda>_. True) arr =
    (if length arr = 1 \<and> 100000 \<le> length (hd arr) then Fault BugOn else Ret (rds_text arr))"
proof -
  let ?h = "CHR ''*'' # dec (length arr) @ CRLF"
  have e: "rds_encode (\<lambda>_. True) arr = encode_loop (encode_total arr) ?h arr"
  proof -
    have "length (dec (length arr)) \<le> length arr" using assms(1) by (intro length_dec_le_self) simp
    then have "length ?h < encode_total arr"
      using assms(1) by (cases arr) (simp_all add: encode_total_def CRLF_def)
    with assms show ?thesis by (simp add: rds_encode_def Let_def)
  qed
  consider (one) p where "arr = [p]" | (many) "2 \<le> length arr"
    using assms(1) by (cases arr rule: remdups_adj.cases) auto
  then show ?thesis
  proof cases
    case one
    have "length (dec (length p)) \<le> 5 \<longleftrightarrow> length p < 100000"
      using length_dec_le [of "length p" 5] length_dec_ge [of 5 "length p"] by (cases "length p < 100000") simp_all
    moreover have "length (dec (Suc 0)) = 1" by (simp add: dec.simps [of "Suc 0"])
    ultimately show ?thesis
      unfolding e encode_loop_eq using one
      by (auto simp: encode_total_def length_bulk rds_text_def CRLF_def not_le)
  next
    case many
    have "length (concat (map bulk arr)) \<le> sum_list (map length arr) + 11 * length arr"
      using bulks_length [of arr 6] assms(2) by fastforce
    moreover have "length (dec (length arr)) \<le> length arr" using assms(1) by (intro length_dec_le_self) simp
    ultimately have "length ?h + length (concat (map bulk arr)) + 1 < encode_total arr"
      using many by (simp add: encode_total_def CRLF_def)
    with many show ?thesis unfolding e encode_loop_eq by (simp add: rds_text_def)
  qed
qed

text \<open>A message of two parameters is encoded; a single long parameter ends the process.\<close>

theorem rds_encode_outcome_witness:
  "rds_encode (\<lambda>_. True) [''GET'', ''k''] = Ret (rds_text [''GET'', ''k''])"
  using rds_encode_outcome [of "[''GET'', ''k'']"] by (simp add: encode_total_def)

text \<open>A table that is a sequence of strings is encoded; one with more pairs than its length is not survived.\<close>

lemma collect_params_eq:
  "collect_params room (map Some arr) = (if length arr \<le> room then Ret (Some arr) else Fault Undefined)"
proof (induction arr arbitrary: room)
  case (Cons v arr)
  then show ?case by (cases room) simp_all
qed simp

lemma l_rds_encode_sequence:
  assumes "arr \<noteq> []"
  shows "l_rds_encode (\<lambda>_. True) (length arr) (map Some arr) = run_bind (rds_encode (\<lambda>_. True) arr) (\<lambda>t. Ret (Some t))"
    and "0 < n \<Longrightarrow> n < length arr \<Longrightarrow> l_rds_encode (\<lambda>_. True) n (map Some arr) = Fault Undefined"
  using assms by (simp_all add: l_rds_encode_def collect_params_eq)

section \<open>The decoder on a part of its input\<close>

text \<open>
  Throughout, \<open>F\<close> is the input that has not arrived yet: \<open>s @ F\<close> is what the buffer will have held.
\<close>

lemma scan_digits_mono: "acc \<le> fst (scan_digits acc ds)"
  by (induction acc ds rule: scan_digits.induct) auto

lemma len_loop_prefix:
  assumes "s @ F = ds @ CRLF @ X" "list_all is_digit ds" "fst (scan_digits c ds) < 100000000"
  shows "len_loop c s = Ret LenMore \<and> F \<noteq> [] \<and> length s < length ds + 2
    \<or> (\<exists>X'. s = ds @ CRLF @ X' \<and> X' @ F = X \<and> len_loop c s = Ret (Len (fst (scan_digits c ds)) X'))"
  using assms
proof (induction ds arbitrary: c s)
  case Nil
  then show ?case by (cases "(c, s)" rule: len_loop.cases) (auto simp: CRLF_def)
next
  case (Cons d ds)
  show ?case
  proof (cases "(c, s)" rule: len_loop.cases)
    case (1 c' x y t)
    with Cons.prems(1) have x: "x = d" "s = d # y # t" "c' = c" and r: "(y # t) @ F = ds @ CRLF @ X" by auto
    from Cons.prems(2) have d: "is_digit d" "d \<noteq> CHR 0x0D" by (auto simp: is_digit_def cv_def)
    let ?c = "10 * c + (cv d - 48)"
    have "?c \<le> fst (scan_digits ?c ds)" by (rule scan_digits_mono)
    with Cons.prems(3) d have b: "fst (scan_digits ?c ds) < 100000000" "?c \<le> 2147483647" by auto
    with d have "len_loop c s = len_loop ?c (y # t)" unfolding x by simp
    with Cons.IH [OF r _ b(1)] Cons.prems(2) d show ?thesis unfolding x by auto
  qed (use Cons.prems in \<open>auto simp: CRLF_def\<close>)
qed

lemma read_len_prefix:
  assumes "s @ F = ch # dec n @ CRLF @ X" "s \<noteq> []" "n < 100000000"
  shows "read_rds_len s ch = Ret LenMore \<and> F \<noteq> [] \<and> length s < length (dec n) + 3
    \<or> (\<exists>X'. s = ch # dec n @ CRLF @ X' \<and> X' @ F = X \<and> read_rds_len s ch = Ret (Len n X'))"
proof -
  obtain t where t: "s = ch # t" "t @ F = dec n @ CRLF @ X" using assms(1,2) by (cases s) auto
  from len_loop_prefix [OF t(2), of 0] assms(3) show ?thesis
    by (auto simp: t(1) read_rds_len_def scan_digits_dec_value)
qed

lemma append_split: "xs @ F = ys @ zs \<Longrightarrow> length ys \<le> length xs \<Longrightarrow> \<exists>us. xs = ys @ us \<and> us @ F = zs"
  by (auto simp: append_eq_append_conv2)

text \<open>
  The parameters \<open>ps\<close> are still to come: the loop reads those that have arrived, and keeps of an
  incomplete one fewer than 131083 bytes.
\<close>

lemma param_loop_prefix:
  assumes "s @ F = concat (map bulk ps) @ rest" "\<forall>p \<in> set ps. length p \<le> 131072"
  shows "(\<exists>s'. s' @ F = rest \<and> param_loop (\<lambda>_. True) (length ps) s arr = Ret (s', arr @ ps, Some True))
    \<or> (\<exists>s' k. k < length ps \<and> s' @ F = concat (map bulk (drop k ps)) @ rest \<and> F \<noteq> [] \<and> length s' < 131083
        \<and> param_loop (\<lambda>_. True) (length ps) s arr = Ret (s', arr @ take k ps, None))"
  using assms
proof (induction ps arbitrary: s arr)
  case Nil
  then show ?case by simp
next
  case (Cons p ps)
  let ?R = "concat (map bulk ps) @ rest"
  have eq: "s @ F = CHR ''$'' # dec (length p) @ CRLF @ p @ CRLF @ ?R" using Cons.prems(1) by (simp add: bulk_def [of p])
  have d: "length (dec (length p)) \<le> 6" using Cons.prems(2) by (intro length_dec_le) auto
  have stop: ?case if "F \<noteq> []" "length s < 131083" "param_loop (\<lambda>_. True) (length (p # ps)) s arr = Ret (s, arr, None)"
    using that Cons.prems(1) by (intro disjI2 exI [of _ s] exI [of _ 0]) simp
  show ?case
  proof (cases "s = []")
    case True
    with eq show ?thesis by (intro stop) auto
  next
    case False
    from read_len_prefix [OF eq False] Cons.prems(2)
    consider (more) "read_rds_len s (CHR ''$'') = Ret LenMore" "F \<noteq> []" "length s < length (dec (length p)) + 3"
      | (len) X where "s = CHR ''$'' # dec (length p) @ CRLF @ X" "X @ F = p @ CRLF @ ?R"
          "read_rds_len s (CHR ''$'') = Ret (Len (length p) X)"
      by fastforce
    then show ?thesis
    proof cases
      case more
      with False d show ?thesis by (intro stop) auto
    next
      case len
      show ?thesis
      proof (cases "length X < length p + 2")
        case True
        have "F \<noteq> []" using True arg_cong [OF len(2), of length] by (auto simp: CRLF_def)
        moreover have "length s < 131083" using True d Cons.prems(2) by (simp add: len(1) CRLF_def)
        ultimately show ?thesis using True len(3) False by (intro stop) simp_all
      next
        case big: False
        then obtain X' where X: "X = p @ CRLF @ X'" "X' @ F = ?R"
          using append_split [of X F "p @ CRLF" ?R] len(2) by (auto simp: CRLF_def)
        then have "param_loop (\<lambda>_. True) (length (p # ps)) s arr = param_loop (\<lambda>_. True) (length ps) X' (arr @ [p])"
          using False len(3) by (simp add: CRLF_def nth_append)
        with Cons.IH [OF X(2), of "arr @ [p]"] Cons.prems(2) show ?thesis by (fastforce intro: exI [of _ "Suc _"])
      qed
    qed
  qed
qed

section \<open>The decoder's invariant\<close>

text \<open>The memory: the parser knows the size of its buffer, and the bytes in it fit.\<close>

definition buffer_ok :: "rdsst \<Rightarrow> bool" where
  "buffer_ok rds \<longleftrightarrow>
     (rds_alloc rds = None \<and> cur rds = [] \<or> rds_alloc rds = Some (maxsize rds)) \<and> length (cur rds) \<le> maxsize rds
     \<and> maxsize rds \<le> 524288"

text \<open>
  The messages \<open>cmds\<close> are not handed out yet, and \<open>F\<close> is what has not arrived of them: between
  messages, the buffer and \<open>F\<close> make up their texts; within one, the parameters read so far are a
  beginning of its parameters.
\<close>

definition awaits :: "rdsst \<Rightarrow> string list list \<Rightarrow> string \<Rightarrow> bool" where
  "awaits rds cmds F =
     (case rstate rds of
        RDS_NEW \<Rightarrow> res_arr rds = [] \<and> res_count rds = 0 \<and> cur rds @ F = concat (map rds_text cmds)
      | RDS_RUN \<Rightarrow> (\<exists>ps cmds'. cmds = (res_arr rds @ ps) # cmds' \<and> ps \<noteq> [] \<and> res_count rds = length (res_arr rds @ ps)
          \<and> cur rds @ F = concat (map bulk ps) @ concat (map rds_text cmds'))
      | RDS_ERR \<Rightarrow> False)"

definition sendable :: "string list \<Rightarrow> bool" where
  "sendable cmd \<longleftrightarrow> cmd \<noteq> [] \<and> length cmd < 100000000 \<and> (\<forall>p \<in> set cmd. length p \<le> 131072)"

lemma rds_text_nonempty [simp]: "rds_text cmd \<noteq> []"
  by (simp add: rds_text_def)

lemma buffer_ok_shrunk: "buffer_ok rds \<Longrightarrow> rds_alloc rds' = rds_alloc rds \<Longrightarrow> maxsize rds' = maxsize rds
    \<Longrightarrow> length (cur rds') \<le> length (cur rds) \<Longrightarrow> buffer_ok rds'"
  by (auto simp: buffer_ok_def)

lemma shrink_buff_ok:
  assumes "buffer_ok rds" "cur rds = []"
  shows "\<exists>rds'. shrink_buff (\<lambda>_. True) rds = Ret rds' \<and> buffer_ok rds' \<and> cur rds' = [] \<and> rstate rds' = rstate rds
    \<and> res_arr rds' = res_arr rds \<and> res_count rds' = res_count rds"
  using assms by (auto simp: shrink_buff_def buffer_ok_def EXPECT_BUFF_SIZE_def)

lemma hand_out_next:
  assumes "buffer_ok rds" "length (res_arr rds) = res_count rds" "cur rds @ F = concat (map rds_text cmds)"
  shows "\<exists>rds'. hand_out (\<lambda>_. True) rds = Ret (rds', RdsDone (res_arr rds)) \<and> buffer_ok rds' \<and> awaits rds' cmds F"
proof -
  let ?r = "rds\<lparr>res_arr := [], res_count := 0, rstate := RDS_NEW\<rparr>"
  have ok: "buffer_ok ?r" using assms(1) by (simp add: buffer_ok_def)
  show ?thesis
  proof (cases "cur rds = []")
    case True
    with shrink_buff_ok [OF ok] assms(2,3) show ?thesis by (auto simp: hand_out_def awaits_def)
  next
    case False
    with ok assms(2,3) show ?thesis by (simp add: hand_out_def awaits_def)
  qed
qed

text \<open>
  One pass over the buffer either hands out the first message that is missing, or keeps waiting,
  and then something of the input is still to come or no message is missing.
\<close>

definition progress :: "rdsst \<times> rds_result \<Rightarrow> string list list \<Rightarrow> string \<Rightarrow> bool" where
  "progress r cmds F =
     (case r of
        (rds', RdsMore) \<Rightarrow> buffer_ok rds' \<and> awaits rds' cmds F \<and> (F \<noteq> [] \<or> cmds = []) \<and> length (cur rds') < 131083
      | (rds', RdsDone out) \<Rightarrow> (case cmds of [] \<Rightarrow> False | cmd # cmds' \<Rightarrow> out = cmd \<and> buffer_ok rds' \<and> awaits rds' cmds' F)
      | (rds', RdsErr) \<Rightarrow> False)"

lemma decode_content_progress:
  assumes ok: "buffer_ok rds" and aw: "awaits rds cmds F" and run: "rstate rds = RDS_RUN" and cmds: "list_all sendable cmds"
  shows "\<exists>r. decode_content (\<lambda>_. True) rds = Ret r \<and> progress r cmds F"
proof -
  from aw run obtain ps cmds' where c: "cmds = (res_arr rds @ ps) # cmds'" "ps \<noteq> []" "res_count rds = length (res_arr rds @ ps)"
    "cur rds @ F = concat (map bulk ps) @ concat (map rds_text cmds')" by (auto simp: awaits_def)
  have "\<forall>p \<in> set ps. length p \<le> 131072" using cmds c(1) by (simp add: sendable_def)
  from param_loop_prefix [OF c(4) this, of "res_arr rds"]
  consider (full) s' where "s' @ F = concat (map rds_text cmds')"
      "param_loop (\<lambda>_. True) (length ps) (cur rds) (res_arr rds) = Ret (s', res_arr rds @ ps, Some True)"
    | (more) s' k where "k < length ps" "s' @ F = concat (map bulk (drop k ps)) @ concat (map rds_text cmds')" "F \<noteq> []"
      "length s' < 131083"
      "param_loop (\<lambda>_. True) (length ps) (cur rds) (res_arr rds) = Ret (s', res_arr rds @ take k ps, None)"
    by blast
  then show ?thesis
  proof cases
    case full
    let ?r = "rds\<lparr>cur := s', res_arr := res_arr rds @ ps\<rparr>"
    have "length s' \<le> length (cur rds)" using param_loop_shrinks [OF full(2)] by simp
    then have "buffer_ok ?r" using ok by (auto simp: buffer_ok_def)
    from hand_out_next [OF this] full c show ?thesis
      by (fastforce simp: decode_content_def read_param_content_def run progress_def)
  next
    case more
    let ?r = "rds\<lparr>cur := s', res_arr := res_arr rds @ take k ps\<rparr>"
    have "length s' \<le> length (cur rds)" using param_loop_shrinks [OF more(5)] by simp
    then have "buffer_ok ?r" using ok by (auto simp: buffer_ok_def)
    moreover have "awaits ?r cmds F" using more(1,2) c run by (auto simp: awaits_def intro!: exI [of _ "drop k ps"])
    ultimately show ?thesis using more c
      by (simp add: decode_content_def read_param_content_def run progress_def)
  qed
qed

lemma decode_cached_progress:
  assumes ok: "buffer_ok rds" and aw: "awaits rds cmds F" and cmds: "list_all sendable cmds"
  shows "\<exists>r. decode_cached (\<lambda>_. True) rds = Ret r \<and> progress r cmds F"
proof (cases "rstate rds")
  case RDS_ERR
  with aw show ?thesis by (simp add: awaits_def)
next
  case RDS_RUN
  show ?thesis
  proof (cases "cur rds = []")
    case True
    with aw RDS_RUN ok show ?thesis by (auto simp: decode_cached_def progress_def awaits_def bulk_def)
  next
    case False
    with decode_content_progress [OF ok aw RDS_RUN cmds] RDS_RUN show ?thesis by (simp add: decode_cached_def read_header_def)
  qed
next
  case RDS_NEW
  with aw have n: "res_arr rds = []" "res_count rds = 0" "cur rds @ F = concat (map rds_text cmds)" by (simp_all add: awaits_def)
  show ?thesis
  proof (cases "cur rds = []")
    case True
    with n ok aw show ?thesis by (cases cmds) (auto simp: decode_cached_def progress_def)
  next
    case False
    with n obtain cmd cmds' where c: "cmds = cmd # cmds'" by (cases cmds) auto
    with n have eq: "cur rds @ F = CHR ''*'' # dec (length cmd) @ CRLF @ concat (map bulk cmd) @ concat (map rds_text cmds')"
      by (simp add: rds_text_def [of cmd])
    have s: "cmd \<noteq> []" "length cmd < 100000000" using cmds c by (simp_all add: sendable_def)
    from read_len_prefix [OF eq False s(2)]
    consider (more) "read_rds_len (cur rds) (CHR ''*'') = Ret LenMore" "F \<noteq> []" "length (cur rds) < length (dec (length cmd)) + 3"
      | (len) X where "cur rds = CHR ''*'' # dec (length cmd) @ CRLF @ X" "X @ F = concat (map bulk cmd) @ concat (map rds_text cmds')"
          "read_rds_len (cur rds) (CHR ''*'') = Ret (Len (length cmd) X)"
      by blast
    then show ?thesis
    proof cases
      case more
      moreover have "length (dec (length cmd)) \<le> 8" using s(2) by (intro length_dec_le) simp_all
      ultimately show ?thesis using False RDS_NEW ok aw by (simp add: decode_cached_def read_header_def progress_def)
    next
      case len
      let ?r = "rds\<lparr>res_count := length cmd, rstate := RDS_RUN, cur := X\<rparr>"
      have "decode_cached (\<lambda>_. True) rds = decode_content (\<lambda>_. True) ?r"
        using False len(3) RDS_NEW n by (simp add: decode_cached_def read_header_def)
      moreover have "buffer_ok ?r" using ok len(1) by (auto simp: buffer_ok_def)
      moreover have "awaits ?r cmds F" using n len(2) s(1) c by (simp add: awaits_def)
      ultimately show ?thesis using decode_content_progress [of ?r cmds F] cmds by simp
    qed
  qed
qed

section \<open>Streams\<close>

lemma adjust_size_ok:
  assumes "sz \<le> 524288"
  shows "\<exists>n. adjust_size sz = Ret n \<and> sz \<le> n \<and> n \<le> 524288"
proof (cases "find (\<lambda>i. sz \<le> 2 ^ i) [0..<24]")
  case None
  then have "\<not> sz \<le> 2 ^ 19" by (auto simp: find_None_iff dest: spec [of _ 19])
  with assms show ?thesis by simp
next
  case (Some i)
  then have i: "sz \<le> 2 ^ i" "\<forall>j<i. \<not> sz \<le> 2 ^ j" unfolding find_Some_iff by auto
  from i(2) assms have "i \<le> 19" by (auto simp: not_le [symmetric] dest!: spec [of _ 19])
  then have "(2 :: nat) ^ i \<le> 2 ^ 19" by (intro power_increasing) simp_all
  with i Some show ?thesis by (simp add: adjust_size_def)
qed

lemma awaits_cached: "awaits rds cmds (chunk @ F) \<Longrightarrow> rstate rds' = rstate rds \<Longrightarrow> res_arr rds' = res_arr rds
    \<Longrightarrow> res_count rds' = res_count rds \<Longrightarrow> cur rds' = cur rds @ chunk \<Longrightarrow> awaits rds' cmds F"
  by (auto simp: awaits_def split: rds_state.splits)

lemma rds_cache_ok:
  assumes ok: "buffer_ok rds" and len: "length (cur rds) + length chunk \<le> 524288"
  shows "\<exists>rds'. rds_cache (\<lambda>_. True) chunk rds = Ret (rds', True) \<and> buffer_ok rds' \<and> cur rds' = cur rds @ chunk
    \<and> rstate rds' = rstate rds \<and> res_arr rds' = res_arr rds \<and> res_count rds' = res_count rds"
proof -
  obtain n where n: "adjust_size (length (cur rds) + length chunk) = Ret n" "length (cur rds) + length chunk \<le> n" "n \<le> 524288"
    using adjust_size_ok [OF len] by blast
  show ?thesis
  proof (cases "rds_alloc rds")
    case None
    with ok have "cur rds = []" by (auto simp: buffer_ok_def)
    with None n ok show ?thesis
      by (simp add: rds_cache_def cache_copy_def buffer_ok_def DEFAULT_BUFF_SIZE_def)
  next
    case (Some a)
    with ok have "a = maxsize rds" by (auto simp: buffer_ok_def)
    with Some n ok show ?thesis by (simp add: rds_cache_def cache_copy_def buffer_ok_def)
  qed
qed

definition settled :: "rdsst \<Rightarrow> string list list \<Rightarrow> string \<Rightarrow> bool" where
  "settled rds cmds F \<longleftrightarrow> buffer_ok rds \<and> awaits rds cmds F \<and> (F \<noteq> [] \<or> cmds = []) \<and> length (cur rds) < 131083"

lemma awaits_no_error: "awaits rds cmds F \<Longrightarrow> rstate rds \<noteq> RDS_ERR"
  by (auto simp: awaits_def)

lemma decode_step:
  assumes "buffer_ok rds" "awaits rds cmds F" "list_all sendable cmds"
  shows "\<exists>rds1 res. rds_decode (\<lambda>_. True) [] rds = Ret (rds1, res) \<and> progress (rds1, res) cmds F"
  using decode_cached_progress [OF assms] awaits_no_error [OF assms(2)] by (auto simp: rds_decode_def)

lemma decode_more_ok:
  assumes "buffer_ok rds" "awaits rds cmds F" "list_all sendable cmds"
  shows "\<exists>rds' k. decode_more (\<lambda>_. True) rds = Ret (rds', Some (take k cmds)) \<and> settled rds' (drop k cmds) F"
  using assms
proof (induction cmds arbitrary: rds)
  case Nil
  from decode_step [OF Nil] obtain rds1 res where r: "rds_decode (\<lambda>_. True) [] rds = Ret (rds1, res)" "progress (rds1, res) [] F"
    by blast
  then show ?case
    by (subst decode_more.simps) (cases res; simp add: progress_def settled_def)
next
  case (Cons cmd cmds)
  from decode_step [OF Cons.prems] obtain rds1 res
    where r: "rds_decode (\<lambda>_. True) [] rds = Ret (rds1, res)" "progress (rds1, res) (cmd # cmds) F"
    by blast
  show ?case
  proof (cases res)
    case RdsErr
    with r(2) show ?thesis by (simp add: progress_def)
  next
    case RdsMore
    with r show ?thesis
      by (subst decode_more.simps) (auto simp: progress_def settled_def intro!: exI [of _ 0])
  next
    case (RdsDone out)
    with r(2) have o: "out = cmd" "buffer_ok rds1" "awaits rds1 cmds F" by (auto simp: progress_def)
    from Cons.IH [OF o(2,3)] Cons.prems(3) obtain rds' k
      where "decode_more (\<lambda>_. True) rds1 = Ret (rds', Some (take k cmds))" "settled rds' (drop k cmds) F" by auto
    with r(1) RdsDone o(1) show ?thesis
      by (subst decode_more.simps) (auto intro!: exI [of _ "Suc k"])
  qed
qed

text \<open>\<open>l_decode\<close> is the loop over the buffer once the chunk is in it.\<close>

lemma l_decode_cached:
  assumes "rds_cache malloc_ok chunk rds = Ret (rds1, True)" "chunk \<noteq> []" "rstate rds \<noteq> RDS_ERR" "rstate rds1 \<noteq> RDS_ERR"
  shows "l_decode malloc_ok chunk rds = decode_more malloc_ok rds1"
  using assms by (simp add: l_decode_def decode_more.simps [of malloc_ok rds1] rds_decode_def)

lemma l_decode_ok:
  assumes s: "settled rds cmds (chunk @ F)" and cmds: "list_all sendable cmds" and len: "length chunk \<le> 262144"
  shows "\<exists>rds' k. l_decode (\<lambda>_. True) chunk rds = Ret (rds', Some (take k cmds)) \<and> settled rds' (drop k cmds) F"
proof (cases "chunk = []")
  case True
  then have "l_decode (\<lambda>_. True) chunk rds = decode_more (\<lambda>_. True) rds"
    by (simp add: l_decode_def decode_more.simps [of _ rds])
  with decode_more_ok [of rds cmds F] True s cmds show ?thesis by (simp add: settled_def)
next
  case False
  have ok: "buffer_ok rds" "awaits rds cmds (chunk @ F)" and small: "length (cur rds) < 131083"
    using s by (simp_all add: settled_def)
  obtain rds1 where c: "rds_cache (\<lambda>_. True) chunk rds = Ret (rds1, True)" "buffer_ok rds1" "cur rds1 = cur rds @ chunk"
      "rstate rds1 = rstate rds" "res_arr rds1 = res_arr rds" "res_count rds1 = res_count rds"
    using rds_cache_ok [OF ok(1), of chunk] small len by auto
  have aw: "awaits rds1 cmds F" using awaits_cached ok(2) c(3-6) by blast
  from l_decode_cached [OF c(1) False] awaits_no_error [OF ok(2)] awaits_no_error [OF aw]
  show ?thesis using decode_more_ok [OF c(2) aw cmds] by simp
qed

lemma feed_ok:
  assumes "settled rds cmds (concat chunks)" "list_all sendable cmds" "\<forall>c \<in> set chunks. length c \<le> 262144"
  shows "\<exists>rds'. feed (\<lambda>_. True) chunks rds = Ret (rds', Some cmds) \<and> settled rds' [] []"
  using assms
proof (induction chunks arbitrary: rds cmds)
  case Nil
  then show ?case by (auto simp: settled_def)
next
  case (Cons c chunks)
  then obtain rds1 k where l: "l_decode (\<lambda>_. True) c rds = Ret (rds1, Some (take k cmds))"
    "settled rds1 (drop k cmds) (concat chunks)"
    using l_decode_ok [of rds cmds c "concat chunks"] by auto
  moreover from Cons.prems(2) have "list_all sendable (drop k cmds)" by (auto simp: list_all_iff dest: in_set_dropD)
  ultimately show ?case using Cons.IH [of rds1 "drop k cmds"] Cons.prems(3) by auto
qed

lemma encoded_sendable:
  assumes "rds_encode malloc_ok cmd = Ret t" "length cmd < 100000000"
  shows "sendable cmd \<and> t = rds_text cmd"
  using assms by (auto simp: rds_encode_def sendable_def Let_def run_simps encode_loop_eq rds_text_def split: if_splits)

lemma encoded_all:
  assumes "list_all2 (\<lambda>cmd t. rds_encode malloc_ok cmd = Ret t) cmds ts" "\<forall>cmd \<in> set cmds. length cmd < 100000000"
  shows "list_all sendable cmds \<and> concat ts = concat (map rds_text cmds)"
  using assms by (induction rule: list_all2_induct) (auto dest: encoded_sendable)

text \<open>
  C29: Whatever messages \<open>rds_encode\<close> produced, and however their bytes are cut into chunks of at
  most 256 KiB on the way, feeding the chunks to \<open>l_decode\<close> of a new parser returns exactly these
  messages, in order, without a memory error, and leaves the parser empty.
\<close>

theorem stream_roundtrip:
  assumes "list_all2 (\<lambda>cmd t. rds_encode malloc_ok cmd = Ret t) cmds ts" "\<forall>cmd \<in> set cmds. length cmd < 100000000"
    and "concat chunks = concat ts" "\<forall>c \<in> set chunks. length c \<le> 262144"
  shows "\<exists>rds. feed (\<lambda>_. True) chunks rds_new = Ret (rds, Some cmds) \<and> rds_empty rds"
proof -
  from encoded_all [OF assms(1,2)] have e: "list_all sendable cmds" "concat ts = concat (map rds_text cmds)" by simp_all
  have "settled rds_new cmds (concat chunks)"
    unfolding assms(3) e(2) by (cases cmds) (simp_all add: settled_def buffer_ok_def awaits_def rds_new_def)
  from feed_ok [OF this e(1) assms(4)] obtain rds
    where "feed (\<lambda>_. True) chunks rds_new = Ret (rds, Some cmds)" "settled rds [] []" by blast
  moreover from this(2) have "rds_empty rds" by (auto simp: settled_def awaits_def rds_empty_def split: rds_state.splits)
  ultimately show ?thesis by blast
qed

text \<open>Two messages whose bytes arrive in three chunks.\<close>

theorem stream_roundtrip_witness:
  "\<exists>rds. feed (\<lambda>_. True)
      [''*1'', [CHR 0x0D, CHR 0x0A] @ ''$4'' @ [CHR 0x0D, CHR 0x0A] @ ''PING'' @ [CHR 0x0D, CHR 0x0A, CHR ''*''],
       ''2'' @ [CHR 0x0D, CHR 0x0A] @ ''$3'' @ [CHR 0x0D, CHR 0x0A] @ ''GET'' @ [CHR 0x0D, CHR 0x0A] @ ''$1''
         @ [CHR 0x0D, CHR 0x0A] @ ''k'' @ [CHR 0x0D, CHR 0x0A]] rds_new
    = Ret (rds, Some [[''PING''], [''GET'', ''k'']]) \<and> rds_empty rds"
proof (rule stream_roundtrip [where malloc_ok = "\<lambda>_. True" and ts = "[rds_text [''PING''], rds_text [''GET'', ''k'']]"])
  show "list_all2 (\<lambda>cmd t. rds_encode (\<lambda>_. True) cmd = Ret t) [[''PING''], [''GET'', ''k'']]
      [rds_text [''PING''], rds_text [''GET'', ''k'']]"
    by (simp add: rds_encode_def encode_loop_eq encode_total_def rds_text_def bulk_def CRLF_def dec.simps digit_char_def Let_def)
  show "concat [''*1'', [CHR 0x0D, CHR 0x0A] @ ''$4'' @ [CHR 0x0D, CHR 0x0A] @ ''PING'' @ [CHR 0x0D, CHR 0x0A, CHR ''*''],
       ''2'' @ [CHR 0x0D, CHR 0x0A] @ ''$3'' @ [CHR 0x0D, CHR 0x0A] @ ''GET'' @ [CHR 0x0D, CHR 0x0A] @ ''$1''
         @ [CHR 0x0D, CHR 0x0A] @ ''k'' @ [CHR 0x0D, CHR 0x0A]]
    = concat [rds_text [''PING''], rds_text [''GET'', ''k'']]"
    by code_simp
qed simp_all

section \<open>Inputs the parser does not survive\<close>

text \<open>An empty message ends the process.\<close>

lemma zero_parameters_exit:
  "feed (\<lambda>_. True) [''*0'' @ [CHR 0x0D, CHR 0x0A]] rds_new = Fault BugOn"
  by (simp add: l_decode_def rds_decode_def rds_cache_def cache_copy_def adjust_size_def rds_new_def DEFAULT_BUFF_SIZE_def
      decode_cached_def read_header_def read_rds_len_def decode_content_def read_param_content_def assertion_def is_digit_def cv_def)

text \<open>A length of more than nine digits overflows the counter before its value is checked.\<close>

lemma length_overflows:
  "feed (\<lambda>_. True) [''*99999999999'' @ [CHR 0x0D, CHR 0x0A]] rds_new = Fault Undefined"
  by (simp add: l_decode_def rds_decode_def rds_cache_def cache_copy_def adjust_size_def rds_new_def DEFAULT_BUFF_SIZE_def
      decode_cached_def read_header_def read_rds_len_def assertion_def is_digit_def cv_def)

text \<open>
  A chunk that is refused for its size leaves \<open>maxsize\<close> above the size of the buffer: the next
  chunk that fits \<open>maxsize\<close> is copied past the end of the memory.
\<close>

lemma refused_chunk_overflows:
  assumes ok: "buffer_ok rds" "rds_alloc rds \<noteq> None" "rstate rds = RDS_NEW"
    and big: "524288 < length big" "length (cur rds) + length big \<le> 8388608"
    and nxt: "maxsize rds < length nxt" "length nxt \<le> 524288"
  shows "\<exists>rds'. rds_decode malloc_ok big rds = Ret (rds', RdsErr) \<and> rstate rds' \<noteq> RDS_ERR
    \<and> rds_decode malloc_ok nxt rds' = Fault Undefined"
proof -
  obtain i where i: "find (\<lambda>i. length (cur rds) + length big \<le> 2 ^ i) [0..<24] = Some i"
    using big(2) by (cases "find (\<lambda>i. length (cur rds) + length big \<le> 2 ^ i) [0..<24]")
      (auto simp: find_None_iff dest!: bspec [of _ _ 23] spec [of _ 23])
  then have n: "length (cur rds) + length big \<le> 2 ^ i" unfolding find_Some_iff by auto
  have a: "rds_alloc rds = Some (maxsize rds)" "maxsize rds \<le> 524288" using ok by (auto simp: buffer_ok_def)
  let ?r = "rds\<lparr>maxsize := 2 ^ i\<rparr>"
  have "rds_decode malloc_ok big rds = Ret (?r, RdsErr)"
    using big n a i ok(3) by (auto simp: rds_decode_def rds_cache_def adjust_size_def)
  moreover have "rds_decode malloc_ok nxt ?r = Fault Undefined"
    using big n a nxt ok(3) by (auto simp: rds_decode_def rds_cache_def cache_copy_def)
  ultimately show ?thesis using ok(3) by auto
qed

end
