(* ===== verification/Tbq_Config.thy ===== *)
theory Tbq_Config
  imports Ruletable_Parse
begin

text \<open>
  The configuration of the shaper, \<open>tbq_config.c\<close>: from the JSON tree to rules with address
  ranges, applications and rates. \<open>HZ\<close> is the kernel's tick rate, \<open>malloc_ok\<close> tells whether an
  allocation succeeds; a return value -1 is None.
\<close>

section \<open>Values\<close>

definition tbq_json_string_map :: "(nat \<Rightarrow> bool) \<Rightarrow> nx_json \<Rightarrow> nat \<Rightarrow> string option" where
  "tbq_json_string_map malloc_ok js max_length =
     (if js_type js = NX_JSON_NULL then (if malloc_ok 1 then Some [] else None)
      else if js_type js \<noteq> NX_JSON_STRING then None
      else
       (let s = cstr (text_value js)
        in if length s > max_length then None
           else if malloc_ok (length s + 1) then Some s else None))"

definition tbq_json_integer_map :: "nx_json \<Rightarrow> int \<Rightarrow> int \<Rightarrow> int option" where
  "tbq_json_integer_map js lo hi =
     (if js_type js = NX_JSON_NULL then Some 0
      else if js_type js \<noteq> NX_JSON_INTEGER then None
      else if sint (int_value js) < lo \<or> sint (int_value js) > hi then None
      else Some (sint (int_value js)))"

fun tbq_array_loop :: "(nx_json \<Rightarrow> 'a option run) \<Rightarrow> int \<Rightarrow> nx_json list \<Rightarrow> 'a list option run" where
  "tbq_array_loop ctor room [] = Ret (Some [])"
| "tbq_array_loop ctor room (js # jss) =
     (if room \<le> 0 then Fault Undefined
      else run_bind (ctor js) (\<lambda>r.
        case r of
          None \<Rightarrow> Ret None
        | Some x \<Rightarrow> run_bind (tbq_array_loop ctor (room - 1) jss) (\<lambda>r. Ret (map_option ((#) x) r))))"

text \<open>The elements are zeroed before the loop; \<open>zero\<close> is what an element without a child stays.\<close>

definition tbq_json_array_map ::
  "(nat \<Rightarrow> bool) \<Rightarrow> nat \<Rightarrow> 'a \<Rightarrow> (nx_json \<Rightarrow> 'a option run) \<Rightarrow> nx_json \<Rightarrow> nat \<Rightarrow> 'a list option run" where
  "tbq_json_array_map malloc_ok elem_size zero ctor js max_length =
     (if js_type js = NX_JSON_NULL then Ret (Some [])
      else if js_type js \<noteq> NX_JSON_ARRAY then Ret None
      else if js_length js > int max_length then Ret None
      else if js_length js = 0 then Ret (Some [])
      else if \<not> malloc_ok (elem_size * nat (js_length js)) then Ret None
      else run_bind (tbq_array_loop ctor (js_length js) (js_child js)) (\<lambda>r.
        Ret (map_option (\<lambda>xs. xs @ replicate (nat (js_length js) - length xs) zero) r)))"

section \<open>Address ranges\<close>

text \<open>
  The pieces of the \<open>sscanf\<close> formats used here: \<open>%u\<close> and \<open>%llu\<close> skip white space and need a digit,
  and \<open>%c\<close> after a space takes the next character that is not white space.
\<close>

definition scan_num :: "string \<Rightarrow> (nat \<times> string) option" where
  "scan_num s =
     (case dropWhile is_space s of
        [] \<Rightarrow> None
      | c # t \<Rightarrow> if is_digit c then Some (scan_digits 0 (c # t)) else None)"

definition scan_char :: "string \<Rightarrow> (char \<times> string) option" where
  "scan_char s = (case dropWhile is_space s of [] \<Rightarrow> None | c # t \<Rightarrow> Some (c, t))"

fun scan_dotted :: "nat \<Rightarrow> string \<Rightarrow> (u32 list \<times> string) option" where
  "scan_dotted n s =
     (case scan_num s of
        None \<Rightarrow> None
      | Some (a, r) \<Rightarrow>
          if n \<le> 1 then Some ([word_of_nat a], r)
          else (case r of
              [] \<Rightarrow> None
            | c # t \<Rightarrow> if c = CHR ''.'' then map_option (\<lambda>(as, u). (word_of_nat a # as, u)) (scan_dotted (n - 1) t) else None))"

declare scan_dotted.simps [simp del]

definition tbq_str_to_ip :: "string \<Rightarrow> u32 option" where
  "tbq_str_to_ip str =
     (case scan_dotted 4 str of
        Some ([a, b, c, d], r) \<Rightarrow>
          if scan_char r \<noteq> None \<or> a > 255 \<or> b > 255 \<or> c > 255 \<or> d > 255 then None
          else Some (push_bit 24 a OR push_bit 16 b OR push_bit 8 c OR d)
      | _ \<Rightarrow> None)"

definition tbq_str_to_weight :: "string \<Rightarrow> u32 \<Rightarrow> u32 \<Rightarrow> u32 option" where
  "tbq_str_to_weight str lo hi =
     (case scan_num str of
        Some (n, r) \<Rightarrow>
          if scan_char r \<noteq> None then None
          else if word_of_nat n < lo \<or> word_of_nat n > hi then None
          else Some (word_of_nat n)
      | None \<Rightarrow> None)"

record tbq_ip_rule =
  ip_min :: u32
  ip_max :: u32
  ip_weight :: u32

definition TBQ_DRR_WEIGHT_MAX :: u32 where "TBQ_DRR_WEIGHT_MAX = 255"

text \<open>\<open>strrchr\<close> and \<open>strchr\<close>: the text before and after the character.\<close>

definition split_first :: "char \<Rightarrow> string \<Rightarrow> (string \<times> string) option" where
  "split_first c s = (if c \<in> set s then Some (takeWhile (\<lambda>x. x \<noteq> c) s, tl (dropWhile (\<lambda>x. x \<noteq> c) s)) else None)"

definition split_last :: "char \<Rightarrow> string \<Rightarrow> (string \<times> string) option" where
  "split_last c s = map_option (\<lambda>(a, b). (rev b, rev a)) (split_first c (rev s))"

definition ip_range :: "string \<Rightarrow> (u32 \<times> u32) option" where
  "ip_range s =
     (case split_first (CHR ''-'') s of
        None \<Rightarrow> map_option (\<lambda>a. (a, a)) (tbq_str_to_ip s)
      | Some (s1, s2) \<Rightarrow>
          (case (tbq_str_to_ip s1, tbq_str_to_ip s2) of
             (Some a, Some b) \<Rightarrow> Some (if a > b then (b, a) else (a, b))
           | _ \<Rightarrow> None))"

definition tbq_ip_rule_init :: "(nat \<Rightarrow> bool) \<Rightarrow> nx_json \<Rightarrow> tbq_ip_rule option" where
  "tbq_ip_rule_init malloc_ok js =
     (case tbq_json_string_map malloc_ok js 256 of
        None \<Rightarrow> None
      | Some ip_desc \<Rightarrow>
          (case (case split_last (CHR '':'') ip_desc of
                   None \<Rightarrow> Some (ip_desc, 1)
                 | Some (s, w) \<Rightarrow> map_option (\<lambda>w. (s, w)) (tbq_str_to_weight w 1 TBQ_DRR_WEIGHT_MAX)) of
             None \<Rightarrow> None
           | Some (s, w) \<Rightarrow> map_option (\<lambda>(a, b). \<lparr>ip_min = a, ip_max = b, ip_weight = w\<rparr>) (ip_range s)))"

definition tbq_app_rule_init :: "nx_json \<Rightarrow> u16 option" where
  "tbq_app_rule_init js = map_option word_of_int (tbq_json_integer_map js 0 256)"

section \<open>Rates\<close>

definition TBQ_BYTES_PER_SEC_MAX :: nat where "TBQ_BYTES_PER_SEC_MAX = 2 * 1000 * 1000 * 1000"

text \<open>\<open>k\<close> multiplications by 1000, each followed by the overflow check.\<close>

fun mul_checked :: "nat \<Rightarrow> nat \<Rightarrow> nat option" where
  "mul_checked 0 n = Some n"
| "mul_checked (Suc k) n = (if n * 1000 > TBQ_BYTES_PER_SEC_MAX then None else mul_checked k (n * 1000))"

definition unit_power :: "char \<Rightarrow> nat option" where
  "unit_power u = (if u = CHR ''G'' then Some 3 else if u = CHR ''M'' then Some 2 else if u = CHR ''K'' then Some 1 else None)"

text \<open>The number is read modulo 2^64; the result is the tokens per jiffy.\<close>

definition tbq_rate :: "nat \<Rightarrow> string \<Rightarrow> nat option" where
  "tbq_rate HZ desc =
     (case scan_num desc of
        None \<Rightarrow> None
      | Some (m, r) \<Rightarrow>
          (case scan_char r of
             None \<Rightarrow> None
           | Some (u, r2) \<Rightarrow>
               if scan_char r2 \<noteq> None then None
               else (let n = m mod 2 ^ 64
                     in if n > TBQ_BYTES_PER_SEC_MAX then None
                        else case Option.bind (unit_power u) (\<lambda>k. mul_checked k n) of
                            None \<Rightarrow> None
                          | Some b \<Rightarrow> Some ((if b = 0 then TBQ_BYTES_PER_SEC_MAX else b) div HZ))))"

definition tbq_token_config_init :: "(nat \<Rightarrow> bool) \<Rightarrow> nat \<Rightarrow> nx_json \<Rightarrow> nat option" where
  "tbq_token_config_init malloc_ok HZ js = Option.bind (tbq_json_string_map malloc_ok js 64) (tbq_rate HZ)"

record tbq_token_rule =
  tr_global :: nat
  tr_user :: nat

definition tbq_token_rule_init :: "(nat \<Rightarrow> bool) \<Rightarrow> nat \<Rightarrow> nx_json \<Rightarrow> tbq_token_rule option" where
  "tbq_token_rule_init malloc_ok HZ js =
     (if js_type js = NX_JSON_NULL then Some \<lparr>tr_global = 0, tr_user = 0\<rparr>
      else if js_type js \<noteq> NX_JSON_OBJECT then None
      else Option.bind (tbq_token_config_init malloc_ok HZ (nx_json_get js ''Shared'')) (\<lambda>g.
        map_option (\<lambda>u. \<lparr>tr_global = g, tr_user = u\<rparr>) (tbq_token_config_init malloc_ok HZ (nx_json_get js ''PerIp''))))"

section \<open>Rules\<close>

record tbq_rule =
  r_name :: string
  ip_rules :: "tbq_ip_rule list"
  app_rules :: "u16 list"
  up_rule :: tbq_token_rule
  down_rule :: tbq_token_rule

definition TBQ_RULE_NAME_MAX :: nat where "TBQ_RULE_NAME_MAX = 36"
definition TBQ_RULE_COUNT_MAX :: nat where "TBQ_RULE_COUNT_MAX = 32"
definition TBQ_IP_RULE_COUNT_MAX :: nat where "TBQ_IP_RULE_COUNT_MAX = 64"
definition TBQ_APP_RULE_COUNT_MAX :: nat where "TBQ_APP_RULE_COUNT_MAX = 64"

definition zero_ip_rule :: tbq_ip_rule where "zero_ip_rule = \<lparr>ip_min = 0, ip_max = 0, ip_weight = 0\<rparr>"

definition zero_rule :: tbq_rule where
  "zero_rule = \<lparr>r_name = [], ip_rules = [], app_rules = [], up_rule = \<lparr>tr_global = 0, tr_user = 0\<rparr>,
     down_rule = \<lparr>tr_global = 0, tr_user = 0\<rparr>\<rparr>"

definition tbq_rule_init :: "(nat \<Rightarrow> bool) \<Rightarrow> nat \<Rightarrow> nx_json \<Rightarrow> tbq_rule option run" where
  "tbq_rule_init malloc_ok HZ js =
     (case tbq_json_string_map malloc_ok (nx_json_get js ''Name'') TBQ_RULE_NAME_MAX of
        None \<Rightarrow> Ret None
      | Some n \<Rightarrow>
     run_bind (tbq_json_array_map malloc_ok 12 zero_ip_rule (\<lambda>j. Ret (tbq_ip_rule_init malloc_ok j))
       (nx_json_get js ''IpIncluded'') TBQ_IP_RULE_COUNT_MAX) (\<lambda>r.
     case r of None \<Rightarrow> Ret None | Some ips \<Rightarrow>
     run_bind (tbq_json_array_map malloc_ok 2 0 (\<lambda>j. Ret (tbq_app_rule_init j))
       (nx_json_get js ''AppIncluded'') TBQ_APP_RULE_COUNT_MAX) (\<lambda>r.
     case r of None \<Rightarrow> Ret None | Some apps \<Rightarrow>
     (case tbq_token_rule_init malloc_ok HZ (nx_json_get js ''UploadLimit'') of
        None \<Rightarrow> Ret None
      | Some up \<Rightarrow>
     (case tbq_token_rule_init malloc_ok HZ (nx_json_get js ''DownloadLimit'') of
        None \<Rightarrow> Ret None
      | Some down \<Rightarrow>
          Ret (Some \<lparr>r_name = n, ip_rules = ips, app_rules = apps, up_rule = up, down_rule = down\<rparr>))))))"

section \<open>Interfaces\<close>

text \<open>
  The array is declared with its dimensions swapped: \<open>ifname[32][16]\<close>, 512 bytes with an entry
  every 16, where the loop allows names of up to 31 bytes.
\<close>

record tbq_iface =
  if_cur :: nat
  ifname :: string

definition zero_iface :: tbq_iface where
  "zero_iface = \<lparr>if_cur = 0, ifname = replicate 512 (CHR 0x00)\<rparr>"

definition store_iface :: "string \<Rightarrow> tbq_iface \<Rightarrow> tbq_iface" where
  "store_iface nm iface =
     (let ofs = 16 * if_cur iface
      in iface\<lparr>ifname := take ofs (ifname iface) @ nm @ drop (ofs + length nm) (ifname iface), if_cur := if_cur iface + 1\<rparr>)"

definition tab :: char where "tab = CHR 0x09"

lemma split_first_shrinks: "split_first c s = Some (a, b) \<Longrightarrow> length b < length s"
proof -
  assume "split_first c s = Some (a, b)"
  then have "c \<in> set s" "b = tl (dropWhile (\<lambda>x. x \<noteq> c) s)" by (auto simp: split_first_def split: if_splits)
  then show ?thesis by (induction s) (auto split: if_splits)
qed

function init_iface :: "string \<Rightarrow> tbq_iface \<Rightarrow> tbq_iface run" where
  "init_iface s iface =
     (case split_first tab s of
        None \<Rightarrow> Ret iface
      | Some (nm, rest) \<Rightarrow>
          if nm = [] then Ret iface
          else run_bind (assertion (if_cur iface \<le> 16 \<and> length nm < 32)) (\<lambda>u. init_iface rest (store_iface nm iface)))"
  by pat_completeness auto

termination
  by (relation "measure (\<lambda>(s, i). length s)") (auto dest: split_first_shrinks)

declare init_iface.simps [simp del]

definition match_iface :: "string \<Rightarrow> tbq_iface \<Rightarrow> bool" where
  "match_iface nm iface \<longleftrightarrow> (\<exists>i < if_cur iface. cstr (drop (16 * i) (ifname iface)) = nm)"

section \<open>The configuration\<close>

record tbq_config =
  c_rules :: "tbq_rule list"
  max_backlog_packets :: u32
  latency_shift :: u32
  disable_timeout :: u32
  lan :: tbq_iface
  wan :: tbq_iface

text \<open>\<open>LAN\<close> and \<open>WAN\<close>: taken from the live configuration, an error (None), or parsed.\<close>

definition iface_opt :: "nx_json \<Rightarrow> string \<Rightarrow> tbq_iface \<Rightarrow> tbq_iface option run" where
  "iface_opt js k live =
     (let j_opt = nx_json_get js k
      in if js_type j_opt = NX_JSON_NULL then Ret (Some live)
         else if js_type j_opt \<noteq> NX_JSON_STRING then Ret None
         else run_bind (init_iface (cstr (text_value j_opt)) zero_iface) (\<lambda>i. Ret (Some i)))"

definition uint_param :: "nx_json \<Rightarrow> string \<Rightarrow> int \<Rightarrow> u32 \<Rightarrow> u32 option" where
  "uint_param js k hi live =
     (let j_opt = nx_json_get js k
      in if js_type j_opt = NX_JSON_NULL then Some live else map_option word_of_int (tbq_json_integer_map j_opt 0 hi))"

definition TBQ_BACKLOG_PACKETS_MAX :: int where "TBQ_BACKLOG_PACKETS_MAX = 1000000"
definition TBQ_LATENCY_SHIFT_MAX :: int where "TBQ_LATENCY_SHIFT_MAX = 10"
definition TBQ_DISABLE_TIMEOUT_MAX :: int where "TBQ_DISABLE_TIMEOUT_MAX = 60"

text \<open>
  The three numbers are also stored in the live configuration as they are parsed, before the rest is
  known to be right: the live configuration is the first result. The flag says that the rules
  are the live ones.
\<close>

definition init_params :: "nx_json \<Rightarrow> tbq_config \<Rightarrow> tbq_config \<Rightarrow> tbq_config \<times> tbq_config option" where
  "init_params js live config =
     (case uint_param js ''MaxBacklogPackets'' TBQ_BACKLOG_PACKETS_MAX (max_backlog_packets live) of
        None \<Rightarrow> (live, None)
      | Some v \<Rightarrow>
          (let live = live\<lparr>max_backlog_packets := v\<rparr>; config = config\<lparr>max_backlog_packets := v\<rparr>
           in case uint_param js ''LatencyShift'' TBQ_LATENCY_SHIFT_MAX (latency_shift live) of
                None \<Rightarrow> (live, None)
              | Some v \<Rightarrow>
                  (let live = live\<lparr>latency_shift := v\<rparr>; config = config\<lparr>latency_shift := v\<rparr>
                   in case uint_param js ''DisableTimeout'' TBQ_DISABLE_TIMEOUT_MAX (disable_timeout live) of
                        None \<Rightarrow> (live, None)
                      | Some v \<Rightarrow> (live\<lparr>disable_timeout := v\<rparr>, Some (config\<lparr>disable_timeout := v\<rparr>)))))"

definition rules_opt :: "(nat \<Rightarrow> bool) \<Rightarrow> nat \<Rightarrow> nx_json \<Rightarrow> tbq_rule list \<Rightarrow> (tbq_rule list \<times> bool) option run" where
  "rules_opt malloc_ok HZ js live =
     (let j_opt = nx_json_get js ''Rules''
      in if js_type j_opt = NX_JSON_NULL then Ret (Some (live, True))
         else run_bind (tbq_json_array_map malloc_ok 44 zero_rule (tbq_rule_init malloc_ok HZ) j_opt TBQ_RULE_COUNT_MAX) (\<lambda>r.
           Ret (map_option (\<lambda>rs. (rs, False)) r)))"

definition tbq_config_init ::
  "(nat \<Rightarrow> bool) \<Rightarrow> nat \<Rightarrow> nx_json \<Rightarrow> tbq_config \<Rightarrow> (tbq_config \<times> (tbq_config \<times> bool) option) run" where
  "tbq_config_init malloc_ok HZ js live =
     (if js_type js \<noteq> NX_JSON_OBJECT then Ret (live, None)
      else
        run_bind (iface_opt js ''LAN'' (lan live)) (\<lambda>r. case r of None \<Rightarrow> Ret (live, None) | Some l \<Rightarrow>
        run_bind (iface_opt js ''WAN'' (wan live)) (\<lambda>r. case r of None \<Rightarrow> Ret (live, None) | Some w \<Rightarrow>
        run_bind (rules_opt malloc_ok HZ js (c_rules live)) (\<lambda>r. case r of None \<Rightarrow> Ret (live, None) | Some (rs, sh) \<Rightarrow>
          (let (live, c) = init_params js live
             \<lparr>c_rules = rs, max_backlog_packets = 0, latency_shift = 0, disable_timeout = 0, lan = l, wan = w\<rparr>
           in Ret (live, map_option (\<lambda>c. (c, sh)) c))))))"

fun tbq_nxjson_verify :: "nx_json \<Rightarrow> bool" where
  "tbq_nxjson_verify (NxJson t k txt i len child) =
     (if len < 0 then False
      else if t = NX_JSON_ARRAY \<or> t = NX_JSON_OBJECT
      then (\<forall>c \<in> set child. tbq_nxjson_verify c) \<and> int (length child) = len
      else True)"

datatype tbq_parsed = ParseErr | ParseCmd bool | ParseConf tbq_config bool

definition tbq_parse_config ::
  "(string \<Rightarrow> nx_json option) \<Rightarrow> (nat \<Rightarrow> bool) \<Rightarrow> nat \<Rightarrow> string \<Rightarrow> tbq_config \<Rightarrow> (tbq_config \<times> tbq_parsed) run" where
  "tbq_parse_config json_parse malloc_ok HZ json live =
     (if \<not> malloc_ok (length json + 1) then Ret (live, ParseErr)
      else case json_parse json of
        None \<Rightarrow> Ret (live, ParseErr)
      | Some js \<Rightarrow>
          if \<not> tbq_nxjson_verify js then Ret (live, ParseErr)
          else if js_type js = NX_JSON_BOOL \<or> js_type js = NX_JSON_INTEGER then Ret (live, ParseCmd (int_value js \<noteq> 0))
          else run_bind (tbq_config_init malloc_ok HZ js live) (\<lambda>(live, r).
            Ret (live, case r of None \<Rightarrow> ParseErr | Some (c, sh) \<Rightarrow> ParseConf c sh)))"

section \<open>What an accepted configuration satisfies\<close>

definition rate_ok :: "nat \<Rightarrow> nat \<Rightarrow> bool" where
  "rate_ok HZ n \<longleftrightarrow> 0 < n \<and> n * HZ \<le> TBQ_BYTES_PER_SEC_MAX"

definition limit_unset :: "tbq_token_rule \<Rightarrow> bool" where
  "limit_unset t \<longleftrightarrow> tr_global t = 0 \<and> tr_user t = 0"

definition limit_ok :: "nat \<Rightarrow> tbq_token_rule \<Rightarrow> bool" where
  "limit_ok HZ t \<longleftrightarrow> rate_ok HZ (tr_global t) \<and> rate_ok HZ (tr_user t)"

definition ip_rule_ok :: "tbq_ip_rule \<Rightarrow> bool" where
  "ip_rule_ok r \<longleftrightarrow> ip_min r \<le> ip_max r \<and> 1 \<le> ip_weight r \<and> ip_weight r \<le> 255"

definition rule_ok :: "nat \<Rightarrow> tbq_rule \<Rightarrow> bool" where
  "rule_ok HZ r \<longleftrightarrow> length (r_name r) \<le> 36 \<and> length (ip_rules r) \<le> 64 \<and> list_all ip_rule_ok (ip_rules r)
     \<and> length (app_rules r) \<le> 64 \<and> list_all (\<lambda>a. a \<le> 256) (app_rules r)
     \<and> (limit_unset (up_rule r) \<or> limit_ok HZ (up_rule r)) \<and> (limit_unset (down_rule r) \<or> limit_ok HZ (down_rule r))"

definition config_ok :: "nat \<Rightarrow> tbq_config \<Rightarrow> bool" where
  "config_ok HZ c \<longleftrightarrow> length (c_rules c) \<le> 32 \<and> list_all (rule_ok HZ) (c_rules c) \<and> max_backlog_packets c \<le> 1000000
     \<and> latency_shift c \<le> 10 \<and> disable_timeout c \<le> 60"

text \<open>Only arrays and objects have children in the trees the JSON library builds.\<close>

fun nx_tree :: "nx_json \<Rightarrow> bool" where
  "nx_tree (NxJson t k txt i len child) =
     (if t = NX_JSON_ARRAY \<or> t = NX_JSON_OBJECT then \<forall>c \<in> set child. nx_tree c else child = [])"

definition checked :: "nx_json \<Rightarrow> bool" where
  "checked js \<longleftrightarrow> tbq_nxjson_verify js \<and> nx_tree js"

lemma checked_child: "checked js \<Longrightarrow> c \<in> set (js_child js) \<Longrightarrow> checked c"
  by (cases js) (auto simp: checked_def split: if_splits)

lemma checked_length: "checked js \<Longrightarrow> js_type js = NX_JSON_ARRAY \<Longrightarrow> js_length js = int (length (js_child js))"
  by (cases js) (auto simp: checked_def split: if_splits)

lemma checked_get:
  assumes "checked js"
  shows "checked (nx_json_get js k)"
proof (cases "find (\<lambda>c. js_key c = Some k) (js_child js)")
  case None
  then show ?thesis by (simp add: nx_json_get_def checked_def nx_dummy_def)
next
  case (Some c)
  then have "c \<in> set (js_child js)" by (auto simp: find_Some_iff)
  with Some assms checked_child show ?thesis by (simp add: nx_json_get_def)
qed

lemma array_loop_ok:
  assumes "\<forall>c \<in> set cs. \<exists>r. ctor c = Ret r \<and> (case r of None \<Rightarrow> True | Some x \<Rightarrow> Q x)" "int (length cs) \<le> room"
  shows "\<exists>r. tbq_array_loop ctor room cs = Ret r \<and> (case r of None \<Rightarrow> True | Some xs \<Rightarrow> length xs = length cs \<and> list_all Q xs)"
  using assms
proof (induction cs arbitrary: room)
  case (Cons c cs)
  from Cons.prems obtain r where r: "ctor c = Ret r" "case r of None \<Rightarrow> True | Some x \<Rightarrow> Q x" by auto
  from Cons.IH [of "room - 1"] Cons.prems obtain r' where "tbq_array_loop ctor (room - 1) cs = Ret r'"
    "case r' of None \<Rightarrow> True | Some xs \<Rightarrow> length xs = length cs \<and> list_all Q xs" by auto
  with r Cons.prems show ?case by (cases r; cases r') auto
qed simp

lemma array_map_ok:
  assumes js: "checked js" and ctor: "\<And>c. checked c \<Longrightarrow> \<exists>r. ctor c = Ret r \<and> (case r of None \<Rightarrow> True | Some x \<Rightarrow> Q x)"
  shows "\<exists>r. tbq_json_array_map malloc_ok sz zero ctor js n = Ret r
    \<and> (case r of None \<Rightarrow> True | Some xs \<Rightarrow> length xs \<le> n \<and> list_all Q xs)"
proof (cases "js_type js = NX_JSON_ARRAY")
  case True
  note len = checked_length [OF js True]
  obtain r where "tbq_array_loop ctor (js_length js) (js_child js) = Ret r"
    "case r of None \<Rightarrow> True | Some xs \<Rightarrow> length xs = length (js_child js) \<and> list_all Q xs"
    using array_loop_ok [of "js_child js" ctor Q "js_length js"] ctor checked_child [OF js] len by auto
  then show ?thesis using True len by (cases r) (auto simp: tbq_json_array_map_def)
qed (auto simp: tbq_json_array_map_def)

lemma array_map_pure:
  assumes "checked js" "\<And>c x. f c = Some x \<Longrightarrow> Q x"
  shows "\<exists>r. tbq_json_array_map malloc_ok sz zero (\<lambda>j. Ret (f j)) js n = Ret r
    \<and> (case r of None \<Rightarrow> True | Some xs \<Rightarrow> length xs \<le> n \<and> list_all Q xs)"
  by (rule array_map_ok [OF assms(1)]) (simp add: assms(2) split: option.split)

lemma mul_checked_bound: "mul_checked k n = Some b \<Longrightarrow> n \<le> TBQ_BYTES_PER_SEC_MAX
    \<Longrightarrow> b \<le> TBQ_BYTES_PER_SEC_MAX \<and> (b = 0 \<or> (k = 0 \<longrightarrow> 0 < n) \<and> (0 < k \<longrightarrow> 1000 \<le> b))"
  by (induction k arbitrary: n) (fastforce split: if_splits)+

lemma tbq_rate_ok:
  assumes "tbq_rate HZ desc = Some t" "0 < HZ" "HZ \<le> 1000"
  shows "rate_ok HZ t"
proof -
  from assms(1) obtain n u k b where b: "n \<le> TBQ_BYTES_PER_SEC_MAX" "unit_power u = Some k" "mul_checked k n = Some b"
    "t = (if b = 0 then TBQ_BYTES_PER_SEC_MAX else b) div HZ"
    by (auto simp: tbq_rate_def Let_def not_less bind_eq_Some_conv split: option.splits if_splits)
  have "0 < k" using b(2) by (auto simp: unit_power_def split: if_splits)
  with mul_checked_bound [OF b(3,1)] have "HZ \<le> (if b = 0 then TBQ_BYTES_PER_SEC_MAX else b)"
    "(if b = 0 then TBQ_BYTES_PER_SEC_MAX else b) \<le> TBQ_BYTES_PER_SEC_MAX"
    using assms(3) by (auto simp: TBQ_BYTES_PER_SEC_MAX_def)
  then show ?thesis unfolding b(4) rate_ok_def using assms(2)
    by (meson div_greater_zero_iff div_times_less_eq_dividend le_trans)
qed

lemma token_rule_init_ok:
  "tbq_token_rule_init malloc_ok HZ js = Some t \<Longrightarrow> 0 < HZ \<Longrightarrow> HZ \<le> 1000 \<Longrightarrow> limit_unset t \<or> limit_ok HZ t"
  by (auto simp: tbq_token_rule_init_def limit_unset_def limit_ok_def tbq_token_config_init_def bind_eq_Some_conv
      split: if_splits dest: tbq_rate_ok)

lemma one_le_u32: "(x :: u32) \<noteq> 0 \<Longrightarrow> 1 \<le> x"
  by (simp add: word_le_nat_alt Suc_le_eq unat_gt_0)

lemma weight_ok: "tbq_str_to_weight w 1 TBQ_DRR_WEIGHT_MAX = Some v \<Longrightarrow> 1 \<le> v \<and> v \<le> 255"
  by (auto simp: tbq_str_to_weight_def TBQ_DRR_WEIGHT_MAX_def not_less one_le_u32 split: option.splits if_splits)

lemma ip_range_ok: "ip_range s = Some (a, b) \<Longrightarrow> a \<le> b"
  by (auto simp: ip_range_def split: option.splits if_splits)

lemma ip_rule_init_ok: "tbq_ip_rule_init malloc_ok js = Some r \<Longrightarrow> ip_rule_ok r"
  by (auto simp: tbq_ip_rule_init_def ip_rule_ok_def split: option.splits prod.splits dest: ip_range_ok weight_ok)

lemma integer_map_bounds: "tbq_json_integer_map js lo hi = Some i \<Longrightarrow> lo \<le> 0 \<Longrightarrow> 0 \<le> hi \<Longrightarrow> lo \<le> i \<and> i \<le> hi"
  by (auto simp: tbq_json_integer_map_def split: if_splits)

lemma app_rule_init_ok: "tbq_app_rule_init js = Some a \<Longrightarrow> a \<le> 256"
proof -
  assume "tbq_app_rule_init js = Some a"
  then obtain i where i: "a = word_of_int i" "tbq_json_integer_map js 0 256 = Some i"
    by (auto simp: tbq_app_rule_init_def)
  from integer_map_bounds [OF i(2)] have "0 \<le> i" "i \<le> 256" by simp_all
  with i(1) show ?thesis by (simp add: word_le_def uint_word_of_int)
qed

lemma string_map_length: "tbq_json_string_map malloc_ok js n = Some s \<Longrightarrow> length s \<le> n"
  by (auto simp: tbq_json_string_map_def Let_def split: if_splits)

lemma rule_init_ok:
  assumes js: "checked js" and HZ: "0 < HZ" "HZ \<le> 1000"
  shows "\<exists>r. tbq_rule_init malloc_ok HZ js = Ret r \<and> (case r of None \<Rightarrow> True | Some x \<Rightarrow> rule_ok HZ x)"
proof -
  have "\<exists>r. tbq_json_array_map malloc_ok 12 zero_ip_rule (\<lambda>j. Ret (tbq_ip_rule_init malloc_ok j))
      (nx_json_get js ''IpIncluded'') TBQ_IP_RULE_COUNT_MAX = Ret r
    \<and> (case r of None \<Rightarrow> True | Some xs \<Rightarrow> length xs \<le> TBQ_IP_RULE_COUNT_MAX \<and> list_all ip_rule_ok xs)"
    by (rule array_map_pure [OF checked_get [OF js]]) (rule ip_rule_init_ok)
  then obtain r1 where r1: "tbq_json_array_map malloc_ok 12 zero_ip_rule (\<lambda>j. Ret (tbq_ip_rule_init malloc_ok j))
      (nx_json_get js ''IpIncluded'') TBQ_IP_RULE_COUNT_MAX = Ret r1"
    "case r1 of None \<Rightarrow> True | Some xs \<Rightarrow> length xs \<le> TBQ_IP_RULE_COUNT_MAX \<and> list_all ip_rule_ok xs" by blast
  have "\<exists>r. tbq_json_array_map malloc_ok 2 0 (\<lambda>j. Ret (tbq_app_rule_init j))
      (nx_json_get js ''AppIncluded'') TBQ_APP_RULE_COUNT_MAX = Ret r
    \<and> (case r of None \<Rightarrow> True | Some xs \<Rightarrow> length xs \<le> TBQ_APP_RULE_COUNT_MAX \<and> list_all (\<lambda>a. a \<le> 256) xs)"
    by (rule array_map_pure [OF checked_get [OF js]]) (rule app_rule_init_ok)
  then obtain r2 where r2: "tbq_json_array_map malloc_ok 2 0 (\<lambda>j. Ret (tbq_app_rule_init j))
      (nx_json_get js ''AppIncluded'') TBQ_APP_RULE_COUNT_MAX = Ret r2"
    "case r2 of None \<Rightarrow> True | Some xs \<Rightarrow> length xs \<le> TBQ_APP_RULE_COUNT_MAX \<and> list_all (\<lambda>a. a \<le> 256) xs" by blast
  show ?thesis
    unfolding tbq_rule_init_def r1(1) r2(1)
    using r1(2) r2(2) token_rule_init_ok [OF _ HZ] string_map_length [of malloc_ok _ TBQ_RULE_NAME_MAX]
    by (auto simp: rule_ok_def TBQ_RULE_NAME_MAX_def TBQ_IP_RULE_COUNT_MAX_def TBQ_APP_RULE_COUNT_MAX_def split: option.splits)
qed

lemma rules_opt_ok:
  assumes "checked js" "0 < HZ" "HZ \<le> 1000" "length live \<le> 32" "list_all (rule_ok HZ) live"
  shows "\<exists>r. rules_opt malloc_ok HZ js live = Ret r
    \<and> (case r of None \<Rightarrow> True | Some (rs, sh) \<Rightarrow> length rs \<le> 32 \<and> list_all (rule_ok HZ) rs \<and> (sh \<longrightarrow> rs = live))"
proof -
  obtain r where "tbq_json_array_map malloc_ok 44 zero_rule (tbq_rule_init malloc_ok HZ) (nx_json_get js ''Rules'') TBQ_RULE_COUNT_MAX = Ret r"
    "case r of None \<Rightarrow> True | Some rs \<Rightarrow> length rs \<le> 32 \<and> list_all (rule_ok HZ) rs"
    using array_map_ok [OF checked_get [OF assms(1)], of "tbq_rule_init malloc_ok HZ" "rule_ok HZ"] rule_init_ok [OF _ assms(2,3)]
    by (fastforce simp: TBQ_RULE_COUNT_MAX_def)
  with assms(4,5) show ?thesis by (cases r) (auto simp: rules_opt_def Let_def)
qed

lemma uint_param_ok:
  assumes "uint_param js k hi live = Some v" "0 \<le> hi" "hi < 2 ^ 31" "live \<le> word_of_int hi"
  shows "v \<le> word_of_int hi"
proof (cases "js_type (nx_json_get js k) = NX_JSON_NULL")
  case False
  with assms(1) obtain i where i: "v = word_of_int i" "tbq_json_integer_map (nx_json_get js k) 0 hi = Some i"
    by (auto simp: uint_param_def)
  note integer_map_bounds [OF i(2) _ assms(2)]
  with assms(2,3) i(1) show ?thesis by (simp add: word_le_def uint_word_of_int)
qed (use assms in \<open>simp add: uint_param_def\<close>)

lemma init_params_ok:
  assumes live: "config_ok HZ live" and c: "length (c_rules c) \<le> 32" "list_all (rule_ok HZ) (c_rules c)"
    and r: "init_params js live c = (live', res)"
  shows "config_ok HZ live' \<and> c_rules live' = c_rules live \<and> (\<forall>c'. res = Some c' \<longrightarrow> config_ok HZ c' \<and> c_rules c' = c_rules c)"
proof -
  have b: "uint_param js ''MaxBacklogPackets'' TBQ_BACKLOG_PACKETS_MAX m = Some v \<Longrightarrow> m \<le> 1000000 \<Longrightarrow> v \<le> 1000000" for m v
    using uint_param_ok [of js "''MaxBacklogPackets''" TBQ_BACKLOG_PACKETS_MAX m v] by (simp add: TBQ_BACKLOG_PACKETS_MAX_def)
  have l: "uint_param js ''LatencyShift'' TBQ_LATENCY_SHIFT_MAX m = Some v \<Longrightarrow> m \<le> 10 \<Longrightarrow> v \<le> 10" for m v
    using uint_param_ok [of js "''LatencyShift''" TBQ_LATENCY_SHIFT_MAX m v] by (simp add: TBQ_LATENCY_SHIFT_MAX_def)
  have d: "uint_param js ''DisableTimeout'' TBQ_DISABLE_TIMEOUT_MAX m = Some v \<Longrightarrow> m \<le> 60 \<Longrightarrow> v \<le> 60" for m v
    using uint_param_ok [of js "''DisableTimeout''" TBQ_DISABLE_TIMEOUT_MAX m v] by (simp add: TBQ_DISABLE_TIMEOUT_MAX_def)
  show ?thesis using live c r by (auto simp: init_params_def config_ok_def Let_def split: option.splits dest: b l d)
qed

lemma init_iface_outcome: "init_iface s i = Fault BugOn \<or> (\<exists>i'. init_iface s i = Ret i')"
proof (induction s i rule: init_iface.induct)
  case (1 s i)
  show ?case
  proof (cases "\<exists>nm rest. split_first tab s = Some (nm, rest) \<and> nm \<noteq> [] \<and> if_cur i \<le> 16 \<and> length nm < 32")
    case True
    then obtain nm rest where "split_first tab s = Some (nm, rest)" "nm \<noteq> []" "if_cur i \<le> 16 \<and> length nm < 32" by blast
    with 1 [of "(nm, rest)" nm rest "()"] show ?thesis by (subst (1 2) init_iface.simps) (simp add: assertion_def)
  next
    case False
    then show ?thesis
      by (subst (1 2) init_iface.simps) (auto simp: assertion_def split: option.splits)
  qed
qed

lemma iface_opt_outcome: "iface_opt js k l = Fault BugOn \<or> iface_opt js k l = Ret None \<or> (\<exists>i. iface_opt js k l = Ret (Some i))"
  using init_iface_outcome [of "cstr (text_value (nx_json_get js k))" zero_iface] by (auto simp: iface_opt_def Let_def)

lemma config_init_ok:
  assumes js: "checked js" and HZ: "0 < HZ" "HZ \<le> 1000" and live: "config_ok HZ live"
  shows "tbq_config_init malloc_ok HZ js live = Fault BugOn
    \<or> (\<exists>live' r. tbq_config_init malloc_ok HZ js live = Ret (live', r) \<and> config_ok HZ live' \<and> c_rules live' = c_rules live
        \<and> (\<forall>c sh. r = Some (c, sh) \<longrightarrow> config_ok HZ c \<and> (sh \<longrightarrow> c_rules c = c_rules live)))"
proof -
  obtain r where r: "rules_opt malloc_ok HZ js (c_rules live) = Ret r"
    "case r of None \<Rightarrow> True | Some (rs, sh) \<Rightarrow> length rs \<le> 32 \<and> list_all (rule_ok HZ) rs \<and> (sh \<longrightarrow> rs = c_rules live)"
    using rules_opt_ok [OF js HZ, of "c_rules live" malloc_ok] live by (auto simp: config_ok_def)
  have stop: ?thesis if "tbq_config_init malloc_ok HZ js live = Fault BugOn \<or> tbq_config_init malloc_ok HZ js live = Ret (live, None)"
    using that live by auto
  show ?thesis
  proof (cases "js_type js = NX_JSON_OBJECT")
    case obj: True
    let ?L = "iface_opt js ''LAN'' (lan live)" and ?W = "iface_opt js ''WAN'' (wan live)"
    show ?thesis
    proof (cases "(\<exists>l. ?L = Ret (Some l)) \<and> (\<exists>w. ?W = Ret (Some w)) \<and> r \<noteq> None")
      case False
      have "tbq_config_init malloc_ok HZ js live = Fault BugOn \<or> tbq_config_init malloc_ok HZ js live = Ret (live, None)"
        unfolding tbq_config_init_def
        using iface_opt_outcome [of js "''LAN''" "lan live"] iface_opt_outcome [of js "''WAN''" "wan live"] obj r(1) False
        by (elim disjE exE; cases r) simp_all
      then show ?thesis by (rule stop)
    next
      case True
      then obtain l w rs sh where parsed: "?L = Ret (Some l)" "?W = Ret (Some w)" "r = Some (rs, sh)" by auto
      let ?c = "\<lparr>c_rules = rs, max_backlog_packets = 0, latency_shift = 0, disable_timeout = 0, lan = l, wan = w\<rparr>"
      obtain live' c where p: "init_params js live ?c = (live', c)" by fastforce
      have "config_ok HZ live' \<and> c_rules live' = c_rules live \<and> (\<forall>c'. c = Some c' \<longrightarrow> config_ok HZ c' \<and> c_rules c' = rs)"
        using init_params_ok [OF live _ _ p] r(2) parsed(3) by simp
      moreover have "tbq_config_init malloc_ok HZ js live = Ret (live', map_option (\<lambda>c. (c, sh)) c)"
        using obj p r(1) parsed by (simp add: tbq_config_init_def)
      ultimately show ?thesis using r(2) parsed(3)
        by (intro disjI2 exI [of _ live'] exI [of _ "map_option (\<lambda>c. (c, sh)) c"]) (cases c; simp)
    qed
  qed (use live in \<open>simp add: tbq_config_init_def\<close>)
qed

text \<open>
  C30: Parsing a configuration never reads outside the tree, and what it accepts can be used: at
  most 32 rules, ordered address ranges with weights 1 to 255, applications up to 256, parameters in
  range, and rates that are positive and stay below 2^31 for a second of tokens, or are both 0 when the
  limit is left out. A rejected text leaves a live configuration that is still in range.
\<close>

theorem parsed_config_usable:
  assumes parse: "\<And>js. json_parse json = Some js \<Longrightarrow> nx_tree js"
    and HZ: "0 < HZ" "HZ \<le> 1000" and live: "config_ok HZ live"
  shows "tbq_parse_config json_parse malloc_ok HZ json live = Fault BugOn
    \<or> (\<exists>live' r. tbq_parse_config json_parse malloc_ok HZ json live = Ret (live', r) \<and> config_ok HZ live'
        \<and> c_rules live' = c_rules live \<and> (\<forall>c sh. r = ParseConf c sh \<longrightarrow> config_ok HZ c \<and> (sh \<longrightarrow> c_rules c = c_rules live)))"
proof (cases "json_parse json")
  case (Some js)
  show ?thesis
  proof (cases "tbq_nxjson_verify js \<and> js_type js = NX_JSON_OBJECT")
    case True
    with parse [OF Some] have "checked js" by (simp add: checked_def)
    from config_init_ok [OF this HZ live, of malloc_ok]
    consider (bug) "tbq_config_init malloc_ok HZ js live = Fault BugOn"
      | (ret) live' r where "tbq_config_init malloc_ok HZ js live = Ret (live', r)" "config_ok HZ live'" "c_rules live' = c_rules live"
          "\<forall>c sh. r = Some (c, sh) \<longrightarrow> config_ok HZ c \<and> (sh \<longrightarrow> c_rules c = c_rules live)"
      by blast
    then show ?thesis
    proof cases
      case bug
      with True Some live show ?thesis by (simp add: tbq_parse_config_def)
    next
      case ret
      with True Some live show ?thesis by (cases r) (auto simp: tbq_parse_config_def)
    qed
  next
    case False
    with Some live show ?thesis by (auto simp: tbq_parse_config_def tbq_config_init_def)
  qed
qed (use live in \<open>simp add: tbq_parse_config_def\<close>)

text \<open>A rule that limits the upload of one address range, and leaves the download limit out.\<close>

definition demo_str :: "string \<Rightarrow> string \<Rightarrow> nx_json" where
  "demo_str k v = NxJson NX_JSON_STRING (Some k) v 0 0 []"

definition demo_tbq_json :: nx_json where
  "demo_tbq_json = NxJson NX_JSON_OBJECT None [] 0 1
     [NxJson NX_JSON_ARRAY (Some ''Rules'') [] 0 1
       [NxJson NX_JSON_OBJECT None [] 0 3
         [demo_str ''Name'' ''guests'',
          NxJson NX_JSON_ARRAY (Some ''IpIncluded'') [] 0 1
            [NxJson NX_JSON_STRING None ''192.168.0.100-192.168.0.2:3'' 0 0 []],
          NxJson NX_JSON_OBJECT (Some ''UploadLimit'') [] 0 2 [demo_str ''Shared'' ''1 M'', demo_str ''PerIp'' ''100 K'']]]]"

definition demo_live :: tbq_config where
  "demo_live = \<lparr>c_rules = [], max_backlog_packets = 10000, latency_shift = 7, disable_timeout = 2,
     lan = zero_iface, wan = zero_iface\<rparr>"

definition demo_rule :: tbq_rule where
  "demo_rule = \<lparr>r_name = ''guests'', ip_rules = [\<lparr>ip_min = 3232235522, ip_max = 3232235620, ip_weight = 3\<rparr>], app_rules = [],
     up_rule = \<lparr>tr_global = 10000, tr_user = 1000\<rparr>, down_rule = \<lparr>tr_global = 0, tr_user = 0\<rparr>\<rparr>"

lemmas scan_eval = scan_num_def scan_char_def is_space_def is_digit_def cv_def

lemma mul_checked_numeral:
  "mul_checked (numeral k) n = (if n * 1000 > TBQ_BYTES_PER_SEC_MAX then None else mul_checked (pred_numeral k) (n * 1000))"
  by (simp add: numeral_eq_Suc)

lemma demo_rates: "tbq_rate 100 ''1 M'' = Some 10000" "tbq_rate 100 ''100 K'' = Some 1000"
  by (simp_all add: tbq_rate_def scan_eval unit_power_def TBQ_BYTES_PER_SEC_MAX_def mul_checked_numeral Let_def)

lemma demo_dots: "scan_dotted 4 ''192.168.0.100'' = Some ([192, 168, 0, 100], [])"
  "scan_dotted 4 ''192.168.0.2'' = Some ([192, 168, 0, 2], [])"
  by (simp_all add: scan_dotted.simps scan_eval)

lemma demo_range: "tbq_ip_rule_init (\<lambda>_. True) (NxJson NX_JSON_STRING None ''192.168.0.100-192.168.0.2:3'' 0 0 [])
    = Some \<lparr>ip_min = 3232235522, ip_max = 3232235620, ip_weight = 3\<rparr>"
  by (simp add: tbq_ip_rule_init_def tbq_json_string_map_def cstr_def split_last_def split_first_def tbq_str_to_weight_def
      ip_range_def tbq_str_to_ip_def demo_dots scan_eval TBQ_DRR_WEIGHT_MAX_def Let_def)

lemma demo_rule_parses:
  "tbq_rule_init (\<lambda>_. True) 100 (js_child (js_child demo_tbq_json ! 0) ! 0) = Ret (Some demo_rule)"
  by (simp add: tbq_rule_init_def demo_tbq_json_def demo_str_def nx_json_get_def tbq_json_string_map_def cstr_def tbq_json_array_map_def
      demo_range tbq_token_rule_init_def tbq_token_config_init_def demo_rates demo_rule_def nx_dummy_def TBQ_RULE_NAME_MAX_def
      TBQ_IP_RULE_COUNT_MAX_def Let_def)

lemma demo_parses:
  "tbq_parse_config (\<lambda>_. Some demo_tbq_json) (\<lambda>_. True) 100 [] demo_live
     = Ret (demo_live, ParseConf (demo_live\<lparr>c_rules := [demo_rule]\<rparr>) False)"
  using demo_rule_parses
  by (simp add: tbq_parse_config_def demo_tbq_json_def demo_str_def tbq_config_init_def iface_opt_def rules_opt_def nx_json_get_def
      tbq_json_array_map_def init_params_def uint_param_def nx_dummy_def TBQ_RULE_COUNT_MAX_def Let_def demo_live_def)

theorem parsed_config_usable_witness:
  "config_ok 100 (demo_live\<lparr>c_rules := [demo_rule]\<rparr>)"
proof -
  have "nx_tree demo_tbq_json" by code_simp
  moreover have "config_ok 100 demo_live" by code_simp
  ultimately show ?thesis
    using parsed_config_usable [of "\<lambda>_. Some demo_tbq_json" "[]" 100 demo_live "\<lambda>_. True"] demo_parses by auto
qed

section \<open>Rates and interfaces\<close>

text \<open>A rate written as a number and a unit is what the rule gets; zero stands for the maximum.\<close>

lemma mul_checked_eq: "n * 1000 ^ k \<le> TBQ_BYTES_PER_SEC_MAX \<Longrightarrow> mul_checked k n = Some (n * 1000 ^ k)"
proof (induction k arbitrary: n)
  case (Suc k)
  have "n * 1000 \<le> n * 1000 ^ Suc k" by simp
  with Suc.prems have "\<not> n * 1000 > TBQ_BYTES_PER_SEC_MAX" by linarith
  with Suc show ?case by (simp add: mult.assoc)
qed simp

lemma scan_num_dec: "\<not> is_digit c \<Longrightarrow> scan_num (dec n @ c # r) = Some (n, c # r)"
  using dec_Cons_digit [of n] scan_digits_dec [of "c # r" n] unfolding scan_num_def dropWhile_space_dec
  by (auto simp del: scan_digits.simps scan_digits_dec)

lemma tbq_rate_text:
  assumes "unit_power u = Some k" "n * 1000 ^ k \<le> TBQ_BYTES_PER_SEC_MAX"
  shows "tbq_rate HZ (dec n @ [u]) = Some ((if n = 0 then TBQ_BYTES_PER_SEC_MAX else n * 1000 ^ k) div HZ)"
proof -
  have u: "\<not> is_digit u" "scan_char [u] = Some (u, [])"
    using assms(1) by (auto simp: unit_power_def scan_eval split: if_splits)
  have "n \<le> n * 1000 ^ k" by simp
  with assms(2) have "n \<le> TBQ_BYTES_PER_SEC_MAX" by linarith
  moreover from this have "n mod 2 ^ 64 = n" by (simp add: TBQ_BYTES_PER_SEC_MAX_def)
  ultimately show ?thesis
    using u assms mul_checked_eq [OF assms(2)] by (simp add: tbq_rate_def scan_num_dec scan_char_def Let_def del: power_numeral)
qed

text \<open>
  Interface names shorter than 16 bytes are matched exactly. A longer one, which the parser accepts,
  runs into the entry after it.
\<close>

definition pad16 :: "string \<Rightarrow> string" where
  "pad16 nm = nm @ replicate (16 - length nm) (CHR 0x00)"

definition ifnames :: "string list \<Rightarrow> tbq_iface" where
  "ifnames nms = \<lparr>if_cur = length nms, ifname = concat (map pad16 nms) @ replicate (512 - 16 * length nms) (CHR 0x00)\<rparr>"

definition short_name :: "string \<Rightarrow> bool" where
  "short_name nm \<longleftrightarrow> nm \<noteq> [] \<and> length nm < 16 \<and> tab \<notin> set nm \<and> CHR 0x00 \<notin> set nm"

lemma length_pads: "list_all short_name nms \<Longrightarrow> length (concat (map pad16 nms)) = 16 * length nms"
  by (induction nms) (auto simp: short_name_def pad16_def)

lemma store_ifnames:
  assumes "list_all short_name nms" "short_name nm" "length nms \<le> 16"
  shows "store_iface nm (ifnames nms) = ifnames (nms @ [nm])"
proof -
  have "nm @ replicate (512 - 16 * length nms - length nm) (CHR 0x00) = pad16 nm @ replicate (512 - 16 * (length nms + 1)) (CHR 0x00)"
    using assms(2,3) by (simp add: pad16_def short_name_def replicate_add [symmetric])
  then show ?thesis using length_pads [OF assms(1)] by (simp add: store_iface_def ifnames_def Let_def)
qed

lemma split_first_append: "c \<notin> set a \<Longrightarrow> split_first c (a @ c # b) = Some (a, b)"
  by (induction a) (auto simp: split_first_def)

lemma init_iface_step:
  "nm \<noteq> [] \<Longrightarrow> tab \<notin> set nm \<Longrightarrow> length nm < 32 \<Longrightarrow> if_cur i \<le> 16
    \<Longrightarrow> init_iface (nm @ tab # r) i = init_iface r (store_iface nm i)"
  by (subst init_iface.simps) (simp add: split_first_append)

lemma init_iface_end: "init_iface [] i = Ret i"
  by (subst init_iface.simps) (simp add: split_first_def)

lemma init_iface_run:
  assumes "list_all short_name todo" "list_all short_name nms" "length nms + length todo \<le> 17"
  shows "init_iface (concat (map (\<lambda>nm. nm @ [tab]) todo)) (ifnames nms) = Ret (ifnames (nms @ todo))"
  using assms
proof (induction todo arbitrary: nms)
  case Nil
  then show ?case by (simp add: init_iface_end)
next
  case (Cons nm todo)
  then have "nm \<noteq> []" "length nm < 32" "tab \<notin> set nm" "if_cur (ifnames nms) \<le> 16" by (auto simp: short_name_def ifnames_def)
  with Cons show ?case by (simp add: init_iface_step store_ifnames)
qed

lemma cstr_pad: "CHR 0x00 \<notin> set nm \<Longrightarrow> 0 < k \<Longrightarrow> cstr (nm @ replicate k (CHR 0x00) @ r) = nm"
  unfolding cstr_def by (subst takeWhile_append2) (auto simp: gr0_conv_Suc)

lemma ifnames_entry:
  assumes "list_all short_name nms" "i < length nms" "length nms \<le> 17"
  shows "cstr (drop (16 * i) (ifname (ifnames nms))) = nms ! i"
proof -
  have l: "list_all short_name (take i nms)" using assms(1) by (auto simp: list_all_iff dest: in_set_takeD)
  have "concat (map pad16 nms) = concat (map pad16 (take i nms)) @ pad16 (nms ! i) @ concat (map pad16 (drop (Suc i) nms))"
    by (subst id_take_nth_drop [OF assms(2)]) simp
  then have "drop (16 * i) (concat (map pad16 nms)) = pad16 (nms ! i) @ concat (map pad16 (drop (Suc i) nms))"
    using length_pads [OF l] assms(2) by simp
  moreover have "short_name (nms ! i)" using assms(1,2) by (simp add: list_all_length)
  ultimately show ?thesis
    using length_pads [OF assms(1)] assms(2) by (auto simp: ifnames_def pad16_def short_name_def cstr_pad)
qed

lemma init_iface_names:
  assumes "list_all short_name names" "length names \<le> 17"
  shows "\<exists>i. init_iface (concat (map (\<lambda>nm. nm @ [tab]) names)) zero_iface = Ret i \<and> (\<forall>nm. match_iface nm i \<longleftrightarrow> nm \<in> set names)"
proof -
  have "zero_iface = ifnames []" by (simp add: zero_iface_def ifnames_def)
  moreover have "if_cur (ifnames names) = length names" by (simp add: ifnames_def)
  ultimately show ?thesis
    using init_iface_run [OF assms(1), of "[]"] assms ifnames_entry [OF assms(1) _ assms(2)]
    by (auto simp: match_iface_def in_set_conv_nth)
qed

lemma long_name_runs_on:
  assumes "length l = 17" "tab \<notin> set l" "CHR 0x00 \<notin> set l" "short_name nm" "2 \<le> length nm"
  shows "\<exists>i. init_iface (l @ tab # nm @ [tab]) zero_iface = Ret i \<and> match_iface (take 16 l @ nm) i \<and> \<not> match_iface l i"
proof -
  let ?i = "store_iface nm (store_iface l zero_iface)"
  have c: "if_cur zero_iface = 0" "if_cur (store_iface l zero_iface) = 1" by (simp_all add: zero_iface_def store_iface_def Let_def)
  have init: "init_iface (l @ tab # nm @ [tab]) zero_iface = Ret ?i"
    using assms c by (cases "l = []") (auto simp: init_iface_step init_iface_end short_name_def)
  have mem: "ifname ?i = take 16 l @ nm @ replicate (496 - length nm) (CHR 0x00)" "if_cur ?i = 2"
    using assms by (auto simp: store_iface_def zero_iface_def short_name_def Let_def)
  have nul: "CHR 0x00 \<notin> set (take 16 l @ nm)" using assms by (auto simp: short_name_def dest: in_set_takeD)
  have e: "cstr (ifname ?i) = take 16 l @ nm" "cstr (drop 16 (ifname ?i)) = nm"
    using cstr_pad [OF nul, of "496 - length nm" "[]"] cstr_pad [of nm "496 - length nm" "[]"] assms
    by (auto simp: mem short_name_def)
  have "length (take 16 l @ nm) \<noteq> 17" using assms by simp
  with assms(1) have "l \<noteq> take 16 l @ nm" by metis
  moreover have "l \<noteq> nm" using assms by (auto simp: short_name_def)
  moreover have "match_iface m ?i \<longleftrightarrow> m = take 16 l @ nm \<or> m = nm" for m
  proof -
    have "(\<exists>i < 2. P i) \<longleftrightarrow> P 0 \<or> P (1 :: nat)" for P by (auto simp: less_2_cases_iff)
    then show ?thesis unfolding match_iface_def mem(2) using e by auto
  qed
  ultimately show ?thesis using init by blast
qed

end
