(* ===== verification/Tbq_Token.thy ===== *)
theory Tbq_Token
  imports Prelude
begin

text \<open>
  The token controls of the shaper (\<open>tbq_core.c\<close>, \<open>tbq_token_ctrl_*\<close>): charging, feeding and
  suspending one limit. \<open>now\<close> is the kernel's tick counter as a natural number: the code compares
  ticks by their difference only, so the wrap of the 32-bit counter shows in the difference of
  \<open>tbq_token_ctrl_feed\<close> alone, where it is written out. The type variable is that of the units waiting
  for the control: flows for a user, users for a bucket.
\<close>

record 'u token_ctrl =
  tokens :: int
  tc_jiffies :: nat
  tokens_per_jiffy :: int
  in_timer :: bool
  units :: "'u list"
  tc_octets :: u32
  tc_weight :: u32

definition s32 :: "int \<Rightarrow> int" where
  "s32 i = sint (word_of_int i :: u32)"

definition tbq_token_ctrl_init :: "nat \<Rightarrow> int \<Rightarrow> 'u token_ctrl" where
  "tbq_token_ctrl_init now config =
     \<lparr>tokens = 0, tc_jiffies = now, tokens_per_jiffy = config, in_timer = False, units = [], tc_octets = 0, tc_weight = 0\<rparr>"

definition tbq_token_ctrl_assert_unused :: "'u token_ctrl \<Rightarrow> unit run" where
  "tbq_token_ctrl_assert_unused tc = assertion (\<not> in_timer tc \<and> units tc = [] \<and> tc_octets tc = 0 \<and> tc_weight tc = 0)"

text \<open>True when the control can go on.\<close>

definition tbq_token_ctrl_feed :: "nat \<Rightarrow> nat \<Rightarrow> 'u token_ctrl \<Rightarrow> ('u token_ctrl \<times> bool) run" where
  "tbq_token_ctrl_feed HZ now tc =
     run_bind (assertion (tokens tc < 0)) (\<lambda>u.
       (let feed_jiffies = nat ((int now - int (tc_jiffies tc)) mod 2 ^ 32)
        in if feed_jiffies = 0 then Ret (tc, False)
           else
            (let feed_tokens = s32 (tokens_per_jiffy tc * int (min feed_jiffies HZ))
             in run_bind (assertion (0 < feed_tokens)) (\<lambda>u.
               if tokens tc + feed_tokens < 0 then Ret (tc, False)
               else Ret (tc\<lparr>tokens := tokens tc + feed_tokens, tc_jiffies := now\<rparr>, True)))))"

definition tbq_token_ctrl_consume :: "nat \<Rightarrow> nat \<Rightarrow> nat \<Rightarrow> 'u token_ctrl \<Rightarrow> ('u token_ctrl \<times> bool) run" where
  "tbq_token_ctrl_consume HZ now pkt_len tc =
     run_bind (assertion (0 \<le> tokens tc \<and> \<not> in_timer tc)) (\<lambda>u.
       (let tc = tc\<lparr>tokens := s32 (tokens tc - int pkt_len)\<rparr>
        in if 0 \<le> tokens tc then Ret (tc, True) else tbq_token_ctrl_feed HZ now tc))"

text \<open>The caller puts the control into the timer's list for its new \<open>tc_jiffies\<close>.\<close>

definition tbq_token_ctrl_deactivate :: "nat \<Rightarrow> 'u token_ctrl \<Rightarrow> 'u token_ctrl run" where
  "tbq_token_ctrl_deactivate now tc =
     run_bind (assertion (tokens tc < 0 \<and> \<not> in_timer tc)) (\<lambda>u.
       if tokens_per_jiffy tc = 0 \<or> - tokens tc + tokens_per_jiffy tc > 2147483647 then Fault Undefined
       else
        (let expire_jiffies = (- tokens tc + tokens_per_jiffy tc - 1) div tokens_per_jiffy tc
         in Ret (tc\<lparr>tokens := s32 (tokens tc + expire_jiffies * tokens_per_jiffy tc), tc_jiffies := now + nat expire_jiffies,
                   in_timer := True\<rparr>)))"

text \<open>Charging a packet, as \<open>tbq_user_consume\<close> does it for the bucket and for the user.\<close>

definition tbq_charge :: "nat \<Rightarrow> nat \<Rightarrow> nat \<Rightarrow> 'u token_ctrl \<Rightarrow> 'u token_ctrl run" where
  "tbq_charge HZ now pkt_len tc =
     run_bind (tbq_token_ctrl_consume HZ now pkt_len tc) (\<lambda>(tc, active).
       if active then Ret tc else tbq_token_ctrl_deactivate now tc)"

section \<open>One charge\<close>

text \<open>
  A control in order: its rate is one the configuration allows, the tokens of a second fit an
  \<open>int32_t\<close>, and it holds no more than these.
\<close>

definition tc_clock :: "nat \<Rightarrow> nat \<Rightarrow> nat \<Rightarrow> nat" where
  "tc_clock HZ now J = max J (now - HZ)"

definition tc_ok :: "nat \<Rightarrow> 'u token_ctrl \<Rightarrow> bool" where
  "tc_ok HZ tc \<longleftrightarrow> 0 < tokens_per_jiffy tc \<and> tokens_per_jiffy tc * int HZ \<le> 2000000000 \<and> 0 \<le> tokens tc
     \<and> tokens tc \<le> tokens_per_jiffy tc * int HZ"

lemma s32_id: "- 2147483648 \<le> i \<Longrightarrow> i < 2147483648 \<Longrightarrow> s32 i = i"
  by (simp add: s32_def signed_of_int signed_take_bit_int_eq_self)

lemma expire_bounds:
  assumes "(0 :: int) < d" "0 < r"
  shows "0 < (d + r - 1) div r" "d \<le> ((d + r - 1) div r) * r" "((d + r - 1) div r) * r < d + r"
proof -
  have m: "((d + r - 1) div r) * r + (d + r - 1) mod r = d + r - 1" by (rule div_mult_mod_eq)
  have "0 \<le> (d + r - 1) mod r" "(d + r - 1) mod r < r" using assms(2) by simp_all
  with m show "d \<le> ((d + r - 1) div r) * r" "((d + r - 1) div r) * r < d + r" by linarith+
  with assms show "0 < (d + r - 1) div r" by (metis linorder_not_less mult_nonpos_nonneg less_le less_le_trans)
qed

lemma feed_outcome:
  fixes tc :: "'u token_ctrl"
  assumes "tokens tc < 0" "0 < tokens_per_jiffy tc" "tokens_per_jiffy tc * int HZ \<le> 2000000000" "0 < HZ" "tc_jiffies tc \<le> now"
  shows "tbq_token_ctrl_feed HZ now tc = Ret (tc, False)
    \<or> (\<exists>ft. tbq_token_ctrl_feed HZ now tc = Ret (tc\<lparr>tokens := tokens tc + ft, tc_jiffies := now\<rparr>, True) \<and> 0 \<le> tokens tc + ft
        \<and> ft \<le> tokens_per_jiffy tc * int HZ \<and> ft \<le> tokens_per_jiffy tc * int (now - max (tc_jiffies tc) (now - HZ)))"
proof -
  define fj where "fj = nat ((int now - int (tc_jiffies tc)) mod 2 ^ 32)"
  define ft where "ft = tokens_per_jiffy tc * int (min fj HZ)"
  have "(int now - int (tc_jiffies tc)) mod 2 ^ 32 \<le> int now - int (tc_jiffies tc)"
    using assms(5) by (intro zmod_le_nonneg_dividend) simp
  then have fj: "fj \<le> now - tc_jiffies tc" unfolding fj_def using assms(5) by linarith
  have "min fj HZ \<le> now - max (tc_jiffies tc) (now - HZ)" using fj assms(5) by auto
  then have le: "ft \<le> tokens_per_jiffy tc * int HZ" "ft \<le> tokens_per_jiffy tc * int (now - max (tc_jiffies tc) (now - HZ))"
    unfolding ft_def using assms(2) by (intro mult_left_mono; simp)+
  show ?thesis
  proof (cases "fj = 0")
    case True
    then show ?thesis using assms(1) by (simp add: tbq_token_ctrl_feed_def fj_def)
  next
    case False
    then have pos: "0 < ft" using assms(2,4) by (simp add: ft_def)
    then have "s32 ft = ft" using le(1) assms(3) by (intro s32_id) linarith+
    then have "tbq_token_ctrl_feed HZ now tc =
        (if tokens tc + ft < 0 then Ret (tc, False) else Ret (tc\<lparr>tokens := tokens tc + ft, tc_jiffies := now\<rparr>, True))"
      unfolding tbq_token_ctrl_feed_def Let_def fj_def [symmetric] ft_def [symmetric] using False assms(1) pos by simp
    then show ?thesis using le by (cases "tokens tc + ft < 0") auto
  qed
qed

text \<open>
  The accounting of one charge: what is taken, plus what is left, is at most what was there plus the
  rate times the ticks that the control's clock moved, where ticks more than a second ago do not
  count; the clock passes \<open>now\<close> only when the control is suspended, and then by no more than the
  packet is worth.
\<close>

lemma charge_accounting:
  assumes tc: "tc_ok HZ tc" "\<not> in_timer tc" and HZ: "0 < HZ" and len: "pkt_len < 2 ^ 27" and clock: "tc_jiffies tc \<le> now"
  shows "\<exists>tc'. tbq_charge HZ now pkt_len tc = Ret tc' \<and> tc_ok HZ tc' \<and> tokens_per_jiffy tc' = tokens_per_jiffy tc
    \<and> units tc' = units tc \<and> tc_octets tc' = tc_octets tc \<and> tc_weight tc' = tc_weight tc
    \<and> int pkt_len + tokens tc' \<le> tokens tc + tokens_per_jiffy tc * (int (tc_clock HZ now (tc_jiffies tc')) - int (tc_clock HZ now (tc_jiffies tc)))
    \<and> (if in_timer tc' then now < tc_jiffies tc' \<and> tokens_per_jiffy tc * int (tc_jiffies tc' - now) < int pkt_len + tokens_per_jiffy tc
       else tc_jiffies tc' \<le> now)"
proof -
  let ?r = "tokens_per_jiffy tc" and ?d = "int pkt_len - tokens tc" and ?J = "tc_jiffies tc"
  have r: "0 < ?r" "?r * int HZ \<le> 2000000000" and t: "0 \<le> tokens tc" "tokens tc \<le> ?r * int HZ" using tc(1) by (simp_all add: tc_ok_def)
  have "?r \<le> ?r * int HZ" using r(1) HZ by simp
  with r(2) have rmax: "?r \<le> 2000000000" by linarith
  note rHZ = \<open>?r \<le> ?r * int HZ\<close>
  have s: "s32 (tokens tc - int pkt_len) = - ?d" using t r(2) len by (subst s32_id) simp_all
  let ?tc = "tc\<lparr>tokens := - ?d\<rparr>"
  have consume: "tbq_token_ctrl_consume HZ now pkt_len tc = (if 0 \<le> - ?d then Ret (?tc, True) else tbq_token_ctrl_feed HZ now ?tc)"
    using tc(2) t s by (simp add: tbq_token_ctrl_consume_def Let_def)
  consider (rest) "?d \<le> 0"
    | (fed) ft where "0 < ?d" "tbq_token_ctrl_feed HZ now ?tc = Ret (?tc\<lparr>tokens := - ?d + ft, tc_jiffies := now\<rparr>, True)"
      "0 \<le> - ?d + ft" "ft \<le> ?r * int HZ" "ft \<le> ?r * int (now - max ?J (now - HZ))"
    | (out) "0 < ?d" "tbq_token_ctrl_feed HZ now ?tc = Ret (?tc, False)"
    using feed_outcome [of ?tc HZ now] r HZ clock by fastforce
  then show ?thesis
  proof cases
    case rest
    with consume t tc r show ?thesis using clock by (simp add: tbq_charge_def tc_ok_def)
  next
    case fed
    have "?r * int (now - max ?J (now - HZ)) = ?r * (int now - int (tc_clock HZ now ?J))"
      using clock by (simp add: tc_clock_def of_nat_diff)
    with fed consume tc r show ?thesis using clock by (simp add: tbq_charge_def tc_ok_def tc_clock_def)
  next
    case out
    define e where "e = (?d + ?r - 1) div ?r"
    note b = expire_bounds [OF out(1) r(1), folded e_def]
    have s2: "s32 (- ?d + e * ?r) = - ?d + e * ?r" using b rmax by (intro s32_id) linarith+
    let ?tc' = "?tc\<lparr>tokens := - ?d + e * ?r, tc_jiffies := now + nat e, in_timer := True\<rparr>"
    have "tbq_token_ctrl_deactivate now ?tc = Ret ?tc'"
      using out(1) tc(2) rmax r(1) len t s2 by (simp add: tbq_token_ctrl_deactivate_def Let_def e_def [symmetric])
    with out consume have ch: "tbq_charge HZ now pkt_len tc = Ret ?tc'" by (simp add: tbq_charge_def)
    have "?r * (int (tc_clock HZ now (now + nat e)) - int (tc_clock HZ now ?J)) = e * ?r + ?r * (int now - int (tc_clock HZ now ?J))"
      using b(1) by (simp add: tc_clock_def algebra_simps)
    moreover have "0 \<le> ?r * (int now - int (tc_clock HZ now ?J))" using r(1) clock by (simp add: tc_clock_def)
    moreover have "- ?d + e * ?r \<le> ?r * int HZ" using b(3) rHZ by linarith
    ultimately show ?thesis
      unfolding ch using tc r rmax b clock t by (simp add: tc_ok_def mult.commute)
  qed
qed

end
