(* ===== verification/Tbq_Sched.thy ===== *)
theory Tbq_Sched
  imports Tbq_Config Tbq_Token
begin

text \<open>
  The scheduler of the shaper (\<open>tbq_core.c\<close>): buckets per rule and direction, users with one token
  control and one backlog for each, flows with a queue of packets for each direction, and the timer
  wheel that wakes suspended controls. The backlog structures are declared in a kernel header
  outside the repository; their fields are those the code uses. Linked lists are lists of the
  identities of their elements. A list element's link and the back pointer beside it are set and
  cleared together in the code; both are the option \<open>bl_tc\<close> here.
\<close>

section \<open>State\<close>

type_synonym bix = "nat \<times> nat"
type_synonym uix = "nat \<times> bix"
type_synonym fbx = "nat \<times> nat"

text \<open>
  A bucket is a direction and a rule, a user's control belongs to a user and a bucket, a flow's
  backlog to a flow and a direction.
\<close>

datatype tcid = BTc bix | UTc uix

record 'p tbq_backlog =
  bl_tc :: "'p option"
  octets :: u32
  weight :: nat
  drr_deficit :: int

record packet =
  p_flow :: nat
  p_user :: nat
  p_dir :: nat
  p_mask :: u32
  p_len :: u32

datatype tbq_status = TBQ_STATUS_RUNNING | TBQ_STATUS_STOPPED | TBQ_STATUS_STOPPING | TBQ_STATUS_WAITING_STOP

text \<open>
  \<open>stale i\<close>: the last entry of wheel list \<open>i\<close> has a next pointer into a dead stack frame, see
  \<open>feed_entries\<close> below.
\<close>

record tbq_global =
  config :: tbq_config
  users :: "nat list"
  flows :: "nat list"
  u_mask :: "nat \<Rightarrow> u32"
  btc :: "bix \<Rightarrow> uix token_ctrl"
  utc :: "uix \<Rightarrow> fbx token_ctrl"
  ubl :: "uix \<Rightarrow> bix tbq_backlog"
  fbl :: "fbx \<Rightarrow> uix tbq_backlog"
  fpk :: "fbx \<Rightarrow> packet list"
  binact :: "nat \<Rightarrow> u32"
  uinact :: "nat \<times> nat \<Rightarrow> u32"
  f_app :: "nat \<Rightarrow> u16"
  f_mask :: "nat \<Rightarrow> u32"
  f_weight :: "nat \<Rightarrow> nat \<Rightarrow> nat"
  backlog_packets :: u32
  status :: tbq_status
  tm_jiffies :: nat
  nr_pending :: u32
  vec :: "nat \<Rightarrow> tcid list"
  stale :: "nat \<Rightarrow> bool"

record dequeue_info =
  dq_send :: "packet list"
  dq_drop :: "packet list"

definition mask_rules :: "u32 \<Rightarrow> nat list" where
  "mask_rules m = filter (bit m) [0..<32]"

definition the_tc_timer :: "tbq_global \<Rightarrow> tcid \<Rightarrow> bool" where
  "the_tc_timer tbq t = (case t of BTc b \<Rightarrow> in_timer (btc tbq b) | UTc u \<Rightarrow> in_timer (utc tbq u))"

definition the_tc_tokens :: "tbq_global \<Rightarrow> tcid \<Rightarrow> int" where
  "the_tc_tokens tbq t = (case t of BTc b \<Rightarrow> tokens (btc tbq b) | UTc u \<Rightarrow> tokens (utc tbq u))"

definition the_tc_jiffies :: "tbq_global \<Rightarrow> tcid \<Rightarrow> nat" where
  "the_tc_jiffies tbq t = (case t of BTc b \<Rightarrow> tc_jiffies (btc tbq b) | UTc u \<Rightarrow> tc_jiffies (utc tbq u))"

definition set_timer_flag :: "tcid \<Rightarrow> bool \<Rightarrow> tbq_global \<Rightarrow> tbq_global" where
  "set_timer_flag t b tbq =
     (case t of
        BTc i \<Rightarrow> tbq\<lparr>btc := (btc tbq)(i := (btc tbq i)\<lparr>in_timer := b\<rparr>)\<rparr>
      | UTc u \<Rightarrow> tbq\<lparr>utc := (utc tbq)(u := (utc tbq u)\<lparr>in_timer := b\<rparr>)\<rparr>)"

section \<open>The timer wheel\<close>

definition TBQ_TIMER_VEC :: nat where "TBQ_TIMER_VEC = 256"

definition tbq_timer_assert_unused :: "tbq_global \<Rightarrow> unit run" where
  "tbq_timer_assert_unused tbq = assertion ((\<forall>i < TBQ_TIMER_VEC. vec tbq i = []) \<and> nr_pending tbq = 0)"

definition vec_add_tail :: "nat \<Rightarrow> tcid \<Rightarrow> tbq_global \<Rightarrow> tbq_global" where
  "vec_add_tail i t tbq = tbq\<lparr>vec := (vec tbq)(i := vec tbq i @ [t]), stale := (stale tbq)(i := False)\<rparr>"

text \<open>The control's list link becomes non-empty in \<open>tbq_token_ctrl_deactivate\<close>, which is the only caller.\<close>

definition tbq_timer_mod :: "tcid \<Rightarrow> nat \<Rightarrow> tbq_global \<Rightarrow> tbq_global" where
  "tbq_timer_mod t expire_jiffies tbq =
     (vec_add_tail (expire_jiffies mod TBQ_TIMER_VEC) t tbq)\<lparr>nr_pending := nr_pending tbq + 1\<rparr>"

text \<open>
  Unlinking a control writes to both neighbours: through a stale next pointer that is a write to
  memory that is no longer there.
\<close>

definition tbq_timer_del :: "tcid \<Rightarrow> tbq_global \<Rightarrow> tbq_global run" where
  "tbq_timer_del t tbq =
     run_bind (assertion (0 \<le> the_tc_tokens tbq t \<and> the_tc_timer tbq t)) (\<lambda>u.
       if \<exists>i < TBQ_TIMER_VEC. stale tbq i \<and> vec tbq i \<noteq> [] \<and> last (vec tbq i) = t then Fault Undefined
       else Ret (set_timer_flag t False tbq\<lparr>vec := (\<lambda>i. remove1 t (vec tbq i)), nr_pending := nr_pending tbq - 1\<rparr>))"

section \<open>Charging a packet\<close>

definition nr_rule :: "tbq_global \<Rightarrow> nat" where "nr_rule tbq = length (c_rules (config tbq))"

text \<open>One limit: a control that is suspended sets its bit and enters the timer.\<close>

definition charge_bucket :: "nat \<Rightarrow> nat \<Rightarrow> bix \<Rightarrow> nat \<Rightarrow> tbq_global \<Rightarrow> tbq_global run" where
  "charge_bucket HZ now b pkt_len tbq =
     run_bind (tbq_charge HZ now pkt_len (btc tbq b)) (\<lambda>tc.
       Ret (if in_timer tc
            then tbq_timer_mod (BTc b) (tc_jiffies tc)
              (tbq\<lparr>btc := (btc tbq)(b := tc), binact := (binact tbq)(fst b := set_bit (snd b) (binact tbq (fst b)))\<rparr>)
            else tbq\<lparr>btc := (btc tbq)(b := tc)\<rparr>))"

definition charge_user :: "nat \<Rightarrow> nat \<Rightarrow> uix \<Rightarrow> nat \<Rightarrow> tbq_global \<Rightarrow> tbq_global run" where
  "charge_user HZ now u pkt_len tbq =
     run_bind (tbq_charge HZ now pkt_len (utc tbq u)) (\<lambda>tc.
       (let k = (fst u, fst (snd u))
        in Ret (if in_timer tc
            then tbq_timer_mod (UTc u) (tc_jiffies tc)
              (tbq\<lparr>utc := (utc tbq)(u := tc), uinact := (uinact tbq)(k := set_bit (snd (snd u)) (uinact tbq k))\<rparr>)
            else tbq\<lparr>utc := (utc tbq)(u := tc)\<rparr>)))"

definition tbq_user_consume :: "nat \<Rightarrow> nat \<Rightarrow> uix \<Rightarrow> nat \<Rightarrow> tbq_global \<Rightarrow> tbq_global run" where
  "tbq_user_consume HZ now u pkt_len tbq =
     run_bind (assertion (snd (snd u) < nr_rule tbq)) (\<lambda>_.
     run_bind (charge_bucket HZ now (snd u) pkt_len tbq) (charge_user HZ now u pkt_len))"

fun consume_all :: "nat \<Rightarrow> nat \<Rightarrow> packet \<Rightarrow> nat list \<Rightarrow> tbq_global \<Rightarrow> tbq_global run" where
  "consume_all HZ now p [] tbq = Ret tbq"
| "consume_all HZ now p (i # rs) tbq =
     run_bind (tbq_user_consume HZ now (p_user p, p_dir p, i) (unat (p_len p)) tbq) (consume_all HZ now p rs)"

text \<open>The user to wait for, or None when the packet was charged to all its limits.\<close>

definition tbq_packet_ctrl_consume :: "nat \<Rightarrow> nat \<Rightarrow> packet \<Rightarrow> tbq_global \<Rightarrow> (tbq_global \<times> uix option) run" where
  "tbq_packet_ctrl_consume HZ now p tbq =
     (let bp = binact tbq (p_dir p) AND p_mask p; up = uinact tbq (p_user p, p_dir p) AND p_mask p;
          wait = (\<lambda>m. Ret (tbq, Some (p_user p, p_dir p, hd (mask_rules m))))
      in if bp \<noteq> 0 then wait bp
         else if up \<noteq> 0 then wait up
         else run_bind (consume_all HZ now p (mask_rules (p_mask p)) tbq) (\<lambda>tbq. Ret (tbq, None)))"

section \<open>Backlog accounts\<close>

definition upd_btc :: "bix \<Rightarrow> (uix token_ctrl \<Rightarrow> uix token_ctrl) \<Rightarrow> tbq_global \<Rightarrow> tbq_global" where
  "upd_btc b f tbq = tbq\<lparr>btc := (btc tbq)(b := f (btc tbq b))\<rparr>"

definition upd_utc :: "uix \<Rightarrow> (fbx token_ctrl \<Rightarrow> fbx token_ctrl) \<Rightarrow> tbq_global \<Rightarrow> tbq_global" where
  "upd_utc u f tbq = tbq\<lparr>utc := (utc tbq)(u := f (utc tbq u))\<rparr>"

definition upd_ubl :: "uix \<Rightarrow> (bix tbq_backlog \<Rightarrow> bix tbq_backlog) \<Rightarrow> tbq_global \<Rightarrow> tbq_global" where
  "upd_ubl u f tbq = tbq\<lparr>ubl := (ubl tbq)(u := f (ubl tbq u))\<rparr>"

definition upd_fbl :: "fbx \<Rightarrow> (uix tbq_backlog \<Rightarrow> uix tbq_backlog) \<Rightarrow> tbq_global \<Rightarrow> tbq_global" where
  "upd_fbl f g tbq = tbq\<lparr>fbl := (fbl tbq)(f := g (fbl tbq f))\<rparr>"

lemmas tbq_upds = upd_btc_def upd_utc_def upd_ubl_def upd_fbl_def

definition tbq_user_backlog_update :: "uix \<Rightarrow> int \<Rightarrow> int \<Rightarrow> tbq_global \<Rightarrow> tbq_global run" where
  "tbq_user_backlog_update u pkt_len wt tbq =
     (let b = snd u; uw = word_of_nat (weight (ubl tbq u));
          tbq = upd_btc b (\<lambda>tc. tc\<lparr>tc_octets := tc_octets tc + word_of_int pkt_len\<rparr>) tbq
      in run_bind
           (if tc_octets (utc tbq u) = 0
            then run_bind (assertion (tc_weight (utc tbq u) = 0 \<and> 0 < wt \<and> 0 < pkt_len)) (\<lambda>_.
              Ret (upd_btc b (\<lambda>tc. tc\<lparr>tc_weight := tc_weight tc + uw\<rparr>) tbq))
            else Ret tbq) (\<lambda>tbq.
         (let tbq = upd_utc u (\<lambda>tc. tc\<lparr>tc_octets := tc_octets tc + word_of_int pkt_len, tc_weight := tc_weight tc + word_of_int wt\<rparr>) tbq
          in if tc_octets (utc tbq u) = 0
             then run_bind (assertion (tc_weight (utc tbq u) = 0 \<and> wt < 0 \<and> pkt_len < 0)) (\<lambda>_.
               Ret (upd_btc b (\<lambda>tc. tc\<lparr>tc_weight := tc_weight tc - uw\<rparr>) tbq))
             else Ret tbq)))"

text \<open>\<open>fb\<close> is the flow whose weight joins (\<open>pkt_len > 0\<close>) or leaves, if any.\<close>

fun backlog_update_all :: "packet \<Rightarrow> int \<Rightarrow> nat option \<Rightarrow> nat list \<Rightarrow> tbq_global \<Rightarrow> tbq_global run" where
  "backlog_update_all p pkt_len fb [] tbq = Ret tbq"
| "backlog_update_all p pkt_len fb (i # rs) tbq =
     (let w = (case fb of None \<Rightarrow> 0 | Some f \<Rightarrow> (if pkt_len < 0 then - int (f_weight tbq f i) else int (f_weight tbq f i)))
      in run_bind (tbq_user_backlog_update (p_user p, p_dir p, i) pkt_len w tbq) (backlog_update_all p pkt_len fb rs))"

definition tbq_packet_ctrl_backlog_update :: "packet \<Rightarrow> int \<Rightarrow> nat option \<Rightarrow> tbq_global \<Rightarrow> tbq_global run" where
  "tbq_packet_ctrl_backlog_update p pkt_len fb tbq = backlog_update_all p pkt_len fb (mask_rules (p_mask p)) tbq"

section \<open>Backlogs\<close>

definition tbq_backlog_init :: "nat \<Rightarrow> 'p tbq_backlog" where
  "tbq_backlog_init w = \<lparr>bl_tc = None, octets = 0, weight = w, drr_deficit = 0\<rparr>"

definition tbq_backlog_empty :: "'p tbq_backlog \<Rightarrow> bool run" where
  "tbq_backlog_empty tb =
     (if bl_tc tb = None then run_bind (assertion (octets tb = 0)) (\<lambda>_. Ret True)
      else run_bind (assertion (octets tb \<noteq> 0)) (\<lambda>_. Ret False))"

definition tbq_flow_backlog_empty :: "fbx \<Rightarrow> tbq_global \<Rightarrow> bool run" where
  "tbq_flow_backlog_empty fb tbq =
     run_bind (tbq_backlog_empty (fbl tbq fb)) (\<lambda>e.
       if e then run_bind (assertion (fpk tbq fb = [])) (\<lambda>_. Ret True)
       else run_bind (assertion (fpk tbq fb \<noteq> [])) (\<lambda>_. Ret False))"

text \<open>
  The share of the parent's ceiling that a backlog may hold. Shift and products wrap at 32 bits; a
  weight of 0 would be a division by zero.
\<close>

definition tbq_backlog_max_octets :: "u32 \<Rightarrow> 'p tbq_backlog \<Rightarrow> 'u token_ctrl \<Rightarrow> u32 \<Rightarrow> u32 run" where
  "tbq_backlog_max_octets shift tb tc parent_ceiling =
     (let latency_ceiling = push_bit (unat shift) (word_of_int (tokens_per_jiffy tc));
          total = min parent_ceiling latency_ceiling; w = word_of_nat (weight tb)
      in if tc_weight tc = 0 then Fault Undefined
         else Ret (total div tc_weight tc * w + total mod tc_weight tc * w div tc_weight tc))"

definition TBQ_DRR_QUANTUM_SHIFT :: nat where "TBQ_DRR_QUANTUM_SHIFT = 11"

definition quantum :: "'p tbq_backlog \<Rightarrow> int" where
  "quantum tb = int (weight tb) * 2 ^ TBQ_DRR_QUANTUM_SHIFT"

definition user_backlog_attach :: "uix \<Rightarrow> tbq_global \<Rightarrow> tbq_global" where
  "user_backlog_attach u tbq =
     (if bl_tc (ubl tbq u) \<noteq> None then tbq
      else upd_ubl u (\<lambda>tb. tb\<lparr>bl_tc := Some (snd u), drr_deficit := quantum tb\<rparr>)
        (upd_btc (snd u) (\<lambda>tc. tc\<lparr>units := units tc @ [u]\<rparr>) tbq))"

definition user_backlog_detach :: "uix \<Rightarrow> tbq_global \<Rightarrow> tbq_global" where
  "user_backlog_detach u tbq =
     (case bl_tc (ubl tbq u) of
        None \<Rightarrow> tbq
      | Some b \<Rightarrow> upd_ubl u (\<lambda>tb. tb\<lparr>bl_tc := None\<rparr>) (upd_btc b (\<lambda>tc. tc\<lparr>units := remove1 u (units tc)\<rparr>) tbq))"

definition flow_backlog_attach_tc :: "fbx \<Rightarrow> uix \<Rightarrow> tbq_global \<Rightarrow> tbq_global" where
  "flow_backlog_attach_tc fb u tbq =
     (if bl_tc (fbl tbq fb) \<noteq> None then tbq
      else upd_fbl fb (\<lambda>tb. tb\<lparr>bl_tc := Some u, drr_deficit := quantum tb\<rparr>)
        (upd_utc u (\<lambda>tc. tc\<lparr>units := units tc @ [fb]\<rparr>) tbq))"

definition flow_backlog_detach_tc :: "fbx \<Rightarrow> tbq_global \<Rightarrow> tbq_global" where
  "flow_backlog_detach_tc fb tbq =
     (case bl_tc (fbl tbq fb) of
        None \<Rightarrow> tbq
      | Some u \<Rightarrow> upd_fbl fb (\<lambda>tb. tb\<lparr>bl_tc := None\<rparr>) (upd_utc u (\<lambda>tc. tc\<lparr>units := remove1 fb (units tc)\<rparr>) tbq))"

definition tbq_backlog_enqueue :: "u32 \<Rightarrow> 'p tbq_backlog \<Rightarrow> 'p tbq_backlog" where
  "tbq_backlog_enqueue n tb = tb\<lparr>octets := octets tb + n\<rparr>"

definition user_backlog_dequeue :: "uix \<Rightarrow> u32 \<Rightarrow> tbq_global \<Rightarrow> tbq_global run" where
  "user_backlog_dequeue u n tbq =
     run_bind (assertion (n \<le> octets (ubl tbq u))) (\<lambda>_.
       (let tbq = upd_ubl u (\<lambda>tb. tb\<lparr>octets := octets tb - n\<rparr>) tbq
        in Ret (if octets (ubl tbq u) = 0 then user_backlog_detach u tbq else tbq)))"

definition flow_backlog_dequeue_octets :: "fbx \<Rightarrow> u32 \<Rightarrow> tbq_global \<Rightarrow> tbq_global run" where
  "flow_backlog_dequeue_octets fb n tbq =
     run_bind (assertion (n \<le> octets (fbl tbq fb))) (\<lambda>_.
       (let tbq = upd_fbl fb (\<lambda>tb. tb\<lparr>octets := octets tb - n\<rparr>) tbq
        in Ret (if octets (fbl tbq fb) = 0 then flow_backlog_detach_tc fb tbq else tbq)))"

definition move_tail :: "'a \<Rightarrow> 'a list \<Rightarrow> 'a list" where
  "move_tail x xs = remove1 x xs @ [x]"

definition drr_charge :: "nat \<Rightarrow> 'p tbq_backlog \<Rightarrow> 'p tbq_backlog \<times> bool" where
  "drr_charge pkt_len tb =
     (let d = s32 (drr_deficit tb - int pkt_len)
      in if d < 0 then (tb\<lparr>drr_deficit := s32 (d + quantum tb)\<rparr>, True) else (tb\<lparr>drr_deficit := d\<rparr>, False))"

definition user_drr_schedule :: "uix \<Rightarrow> nat \<Rightarrow> tbq_global \<Rightarrow> tbq_global" where
  "user_drr_schedule u pkt_len tbq =
     (case bl_tc (ubl tbq u) of
        None \<Rightarrow> tbq
      | Some b \<Rightarrow>
          (let (tb, rot) = drr_charge pkt_len (ubl tbq u); tbq = upd_ubl u (\<lambda>_. tb) tbq
           in if rot then upd_btc b (\<lambda>tc. tc\<lparr>units := move_tail u (units tc)\<rparr>) tbq else tbq))"

definition flow_drr_schedule :: "fbx \<Rightarrow> nat \<Rightarrow> tbq_global \<Rightarrow> tbq_global" where
  "flow_drr_schedule fb pkt_len tbq =
     (case bl_tc (fbl tbq fb) of
        None \<Rightarrow> tbq
      | Some u \<Rightarrow>
          (let (tb, rot) = drr_charge pkt_len (fbl tbq fb); tbq = upd_fbl fb (\<lambda>_. tb) tbq
           in if rot then upd_utc u (\<lambda>tc. tc\<lparr>units := move_tail fb (units tc)\<rparr>) tbq else tbq))"

section \<open>Backlogs of flows\<close>

definition tbq_flow_backlog_drr_schedule :: "fbx \<Rightarrow> nat \<Rightarrow> tbq_global \<Rightarrow> tbq_global run" where
  "tbq_flow_backlog_drr_schedule fb pkt_len tbq =
     (case bl_tc (fbl tbq fb) of
        None \<Rightarrow> Fault Undefined
      | Some u \<Rightarrow> Ret (flow_drr_schedule fb pkt_len (user_drr_schedule u pkt_len tbq)))"

definition tbq_flow_backlog_attach :: "fbx \<Rightarrow> uix \<Rightarrow> tbq_global \<Rightarrow> tbq_global run" where
  "tbq_flow_backlog_attach fb u tbq =
     (let b = snd u
      in run_bind (assertion (bl_tc (fbl tbq fb) = None)) (\<lambda>_.
         run_bind
           (if in_timer (btc tbq b) then Ret (user_backlog_attach u tbq)
            else if in_timer (utc tbq u) then Ret tbq
            else Fault BugOn) (\<lambda>tbq.
         run_bind (assertion (snd b < nr_rule tbq)) (\<lambda>_.
           Ret (upd_fbl fb (\<lambda>tb. tb\<lparr>weight := f_weight tbq (fst fb) (snd b)\<rparr>)
             (flow_backlog_attach_tc fb u (upd_ubl u (tbq_backlog_enqueue (octets (fbl tbq fb))) tbq)))))))"

definition tbq_flow_backlog_detach :: "fbx \<Rightarrow> tbq_global \<Rightarrow> tbq_global run" where
  "tbq_flow_backlog_detach fb tbq =
     (case bl_tc (fbl tbq fb) of
        None \<Rightarrow> Fault BugOn
      | Some u \<Rightarrow> run_bind (user_backlog_dequeue u (octets (fbl tbq fb)) tbq) (\<lambda>tbq. Ret (flow_backlog_detach_tc fb tbq)))"

definition tbq_flow_backlog_enqueue :: "fbx \<Rightarrow> packet \<Rightarrow> tbq_global \<Rightarrow> tbq_global run" where
  "tbq_flow_backlog_enqueue fb p tbq =
     (case bl_tc (fbl tbq fb) of
        None \<Rightarrow> Fault BugOn
      | Some u \<Rightarrow>
          Ret ((upd_fbl fb (tbq_backlog_enqueue (p_len p)) (upd_ubl u (tbq_backlog_enqueue (p_len p)) tbq))
            \<lparr>fpk := (fpk tbq)(fb := fpk tbq fb @ [p])\<rparr>))"

text \<open>\<open>rest\<close> is the queue without the packet.\<close>

definition tbq_flow_backlog_dequeue :: "fbx \<Rightarrow> u32 \<Rightarrow> packet list \<Rightarrow> tbq_global \<Rightarrow> tbq_global run" where
  "tbq_flow_backlog_dequeue fb pkt_len rest tbq =
     (case bl_tc (fbl tbq fb) of
        None \<Rightarrow> Fault BugOn
      | Some u \<Rightarrow>
          run_bind (user_backlog_dequeue u pkt_len tbq) (\<lambda>tbq.
          run_bind (flow_backlog_dequeue_octets fb pkt_len tbq) (\<lambda>tbq. Ret (tbq\<lparr>fpk := (fpk tbq)(fb := rest)\<rparr>))))"

definition tbq_flow_backlog_max_octets :: "fbx \<Rightarrow> tbq_global \<Rightarrow> u32 run" where
  "tbq_flow_backlog_max_octets fb tbq =
     (case bl_tc (fbl tbq fb) of
        None \<Rightarrow> Fault Undefined
      | Some u \<Rightarrow>
          (let shift = latency_shift (config tbq)
           in run_bind
                (case bl_tc (ubl tbq u) of
                   None \<Rightarrow> Ret (- 1)
                 | Some b \<Rightarrow> tbq_backlog_max_octets shift (ubl tbq u) (btc tbq b) (- 1)) (\<lambda>user_ceiling.
              tbq_backlog_max_octets shift (fbl tbq fb) (utc tbq u) user_ceiling)))"

text \<open>The packets from the tail; the loop reads past the queue if the octets do not fit it.\<close>

fun drop_loop :: "fbx \<Rightarrow> u32 \<Rightarrow> packet list \<Rightarrow> tbq_global \<Rightarrow> dequeue_info \<Rightarrow> (tbq_global \<times> dequeue_info) run" where
  "drop_loop fb mx [] tbq dq = (if octets (fbl tbq fb) > mx then Fault Undefined else Ret (tbq, dq))"
| "drop_loop fb mx (p # ps) tbq dq =
     (if octets (fbl tbq fb) > mx then
        run_bind (tbq_flow_backlog_dequeue fb (p_len p) (rev ps) tbq) (\<lambda>tbq.
        run_bind (tbq_packet_ctrl_backlog_update p (- sint (p_len p)) (if octets (fbl tbq fb) = 0 then Some (fst fb) else None) tbq) (\<lambda>tbq.
          drop_loop fb mx ps tbq (dq\<lparr>dq_drop := dq_drop dq @ [p]\<rparr>)))
      else Ret (tbq, dq))"

definition tbq_flow_backlog_drop :: "fbx \<Rightarrow> tbq_global \<Rightarrow> dequeue_info \<Rightarrow> (tbq_global \<times> dequeue_info) run" where
  "tbq_flow_backlog_drop fb tbq dq =
     run_bind (tbq_flow_backlog_max_octets fb tbq) (\<lambda>mx. drop_loop fb mx (rev (fpk tbq fb)) tbq dq)"

section \<open>Queueing\<close>

text \<open>
  \<open>EnqCanceled\<close> is -ECANCELED, after which the kernel lets the packet go on; \<open>EnqInval\<close> is -EINVAL, with
  the packets that were dropped.
\<close>

datatype enq_result = EnqQueued | EnqCanceled | EnqInval "packet list"

definition no_dq :: dequeue_info where "no_dq = \<lparr>dq_send = [], dq_drop = []\<rparr>"

definition enqueue_tail :: "fbx \<Rightarrow> packet \<Rightarrow> bool \<Rightarrow> tbq_global \<Rightarrow> (tbq_global \<times> enq_result) run" where
  "enqueue_tail fb p flow_attach tbq =
     run_bind (tbq_flow_backlog_enqueue fb p tbq) (\<lambda>tbq.
     run_bind (tbq_packet_ctrl_backlog_update p (sint (p_len p)) (if flow_attach then Some (fst fb) else None) tbq) (\<lambda>tbq.
       Ret (tbq\<lparr>backlog_packets := backlog_packets tbq + 1\<rparr>, EnqQueued)))"

definition tbq_enqueue :: "nat \<Rightarrow> nat \<Rightarrow> packet \<Rightarrow> tbq_global \<Rightarrow> (tbq_global \<times> enq_result) run" where
  "tbq_enqueue HZ now p tbq =
     (if status tbq \<noteq> TBQ_STATUS_RUNNING then Ret (tbq, EnqCanceled)
      else
       (let fb = (p_flow p, p_dir p)
        in run_bind (tbq_flow_backlog_empty fb tbq) (\<lambda>empty.
           if empty then
             run_bind (tbq_packet_ctrl_consume HZ now p tbq) (\<lambda>(tbq, pending_user).
               case pending_user of
                 None \<Rightarrow> Ret (tbq, EnqCanceled)
               | Some u \<Rightarrow> run_bind (tbq_flow_backlog_attach fb u tbq) (enqueue_tail fb p True))
           else
             run_bind (tbq_flow_backlog_drop fb tbq no_dq) (\<lambda>(tbq, dq).
               if dq_drop dq \<noteq> []
               then Ret (tbq\<lparr>backlog_packets := backlog_packets tbq - word_of_nat (length (dq_drop dq))\<rparr>, EnqInval (dq_drop dq))
               else enqueue_tail fb p False tbq))))"

section \<open>Dequeueing\<close>

definition tbq_flow_backlog_try_dequeue ::
  "nat \<Rightarrow> nat \<Rightarrow> fbx \<Rightarrow> tbq_global \<Rightarrow> dequeue_info \<Rightarrow> (tbq_global \<times> dequeue_info) run" where
  "tbq_flow_backlog_try_dequeue HZ now fb tbq dq =
     run_bind (tbq_flow_backlog_empty fb tbq) (\<lambda>empty.
     run_bind (assertion (\<not> empty)) (\<lambda>_.
     run_bind (tbq_flow_backlog_drop fb tbq dq) (\<lambda>(tbq, dq).
     run_bind (tbq_flow_backlog_empty fb tbq) (\<lambda>empty.
       if empty then Ret (tbq, dq)
       else
        (let p = hd (fpk tbq fb); old_tc = bl_tc (fbl tbq fb)
         in run_bind (assertion (fb = (p_flow p, p_dir p) \<and> \<not> in_timer (utc tbq (the old_tc)))) (\<lambda>_.
            run_bind (tbq_packet_ctrl_consume HZ now p tbq) (\<lambda>(tbq, pending_user).
              case pending_user of
                Some pu \<Rightarrow>
                  run_bind (tbq_flow_backlog_detach fb tbq) (\<lambda>tbq.
                  run_bind (tbq_flow_backlog_attach fb pu tbq) (\<lambda>tbq.
                  run_bind (assertion (bl_tc (fbl tbq fb) \<noteq> old_tc)) (\<lambda>_. Ret (tbq, dq))))
              | None \<Rightarrow>
                  run_bind (tbq_flow_backlog_drr_schedule fb (unat (p_len p)) tbq) (\<lambda>tbq.
                  run_bind (tbq_flow_backlog_dequeue fb (p_len p) (tl (fpk tbq fb)) tbq) (\<lambda>tbq.
                  run_bind (tbq_packet_ctrl_backlog_update p (- sint (p_len p)) (if octets (fbl tbq fb) = 0 then Some (fst fb) else None) tbq)
                    (\<lambda>tbq. Ret (tbq, dq\<lparr>dq_send := dq_send dq @ [p]\<rparr>)))))))))))"

text \<open>The two loops take fuel, the number of turns they may run.\<close>

fun tbq_user_dequeue :: "nat \<Rightarrow> nat \<Rightarrow> nat \<Rightarrow> uix \<Rightarrow> tbq_global \<Rightarrow> dequeue_info \<Rightarrow> (tbq_global \<times> dequeue_info) run" where
  "tbq_user_dequeue HZ now 0 u tbq dq = Fault NoFuel"
| "tbq_user_dequeue HZ now (Suc fuel) u tbq dq =
     (if in_timer (utc tbq u) \<or> units (utc tbq u) = [] then Ret (tbq, dq)
      else if \<not> in_timer (btc tbq (snd u)) then
        run_bind (assertion (bl_tc (fbl tbq (hd (units (utc tbq u)))) = Some u)) (\<lambda>_.
        run_bind (tbq_flow_backlog_try_dequeue HZ now (hd (units (utc tbq u))) tbq dq) (\<lambda>(tbq, dq).
          tbq_user_dequeue HZ now fuel u tbq dq))
      else Ret (user_backlog_attach u tbq, dq))"

fun tbq_bucket_dequeue :: "nat \<Rightarrow> nat \<Rightarrow> nat \<Rightarrow> bix \<Rightarrow> tbq_global \<Rightarrow> dequeue_info \<Rightarrow> (tbq_global \<times> dequeue_info) run" where
  "tbq_bucket_dequeue HZ now 0 b tbq dq = Fault NoFuel"
| "tbq_bucket_dequeue HZ now (Suc fuel) b tbq dq =
     (if in_timer (btc tbq b) \<or> units (btc tbq b) = [] then Ret (tbq, dq)
      else
       (let u = hd (units (btc tbq b))
        in run_bind (assertion (bl_tc (ubl tbq u) = Some b)) (\<lambda>_.
           run_bind (tbq_backlog_empty (ubl tbq u)) (\<lambda>empty.
           run_bind (assertion (\<not> empty)) (\<lambda>_.
             if \<not> in_timer (utc tbq u) then
               (case units (utc tbq u) of
                  [] \<Rightarrow> Fault Undefined
                | fb # _ \<Rightarrow>
                    run_bind (assertion (bl_tc (fbl tbq fb) = Some u)) (\<lambda>_.
                    run_bind (tbq_flow_backlog_try_dequeue HZ now fb tbq dq) (\<lambda>(tbq, dq).
                      tbq_bucket_dequeue HZ now fuel b tbq dq)))
             else tbq_bucket_dequeue HZ now fuel b (user_backlog_detach u tbq) dq)))))"

definition tbq_token_ctrl_activate ::
  "nat \<Rightarrow> nat \<Rightarrow> nat \<Rightarrow> tcid \<Rightarrow> tbq_global \<Rightarrow> dequeue_info \<Rightarrow> (tbq_global \<times> dequeue_info) run" where
  "tbq_token_ctrl_activate HZ now fuel t tbq dq =
     run_bind (tbq_timer_del t tbq) (\<lambda>tbq.
       case t of
         UTc u \<Rightarrow>
           (let (dir, i) = snd u; k = (fst u, dir)
            in run_bind (assertion (i < nr_rule tbq)) (\<lambda>_.
              (let tbq = tbq\<lparr>uinact := (uinact tbq)(k := unset_bit i (uinact tbq k))\<rparr>
               in if bl_tc (ubl tbq u) = None
                  then run_bind (assertion (\<not> in_timer (utc tbq u))) (\<lambda>_. tbq_user_dequeue HZ now fuel u tbq dq)
                  else Ret (tbq, dq))))
       | BTc b \<Rightarrow>
           (let (dir, i) = b
            in run_bind (assertion (i < nr_rule tbq)) (\<lambda>_.
              (let tbq = tbq\<lparr>binact := (binact tbq)(dir := unset_bit i (binact tbq dir))\<rparr>
               in run_bind (assertion (\<not> in_timer (btc tbq b))) (\<lambda>_. tbq_bucket_dequeue HZ now fuel b tbq dq)))))"

text \<open>
  The entries of one wheel list, taken over into a list on the stack. An entry that is not due (its
  time is a later turn of the wheel) is added to the wheel list again without being unlinked from
  the list on the stack. The entry after it then still points back to it, and when that one is
  unlinked, the next pointer of the re-added entry is overwritten with an address of the stack's list:
  harmless as long as it is the last entry of the wheel list and another is added after it or the
  list is taken over as a whole, since both write that pointer again.
\<close>

fun feed_entries :: "nat \<Rightarrow> nat \<Rightarrow> nat \<Rightarrow> nat \<Rightarrow> nat \<Rightarrow> tcid option \<Rightarrow> tcid list \<Rightarrow> tbq_global \<Rightarrow> dequeue_info \<Rightarrow> (tbq_global \<times> dequeue_info) run" where
  "feed_entries HZ now fuel i vec_jiffies delayed [] tbq dq = Ret (tbq, dq)"
| "feed_entries HZ now fuel i vec_jiffies delayed (t # ts) tbq dq =
     (if the_tc_jiffies tbq t = vec_jiffies then
        run_bind
          (case delayed of
             None \<Rightarrow> Ret tbq
           | Some a \<Rightarrow>
               if vec tbq i \<noteq> [] \<and> last (vec tbq i) = a then Ret (tbq\<lparr>stale := (stale tbq)(i := True)\<rparr>) else Fault Undefined) (\<lambda>tbq.
        run_bind (tbq_token_ctrl_activate HZ now fuel t tbq dq) (\<lambda>(tbq, dq).
          feed_entries HZ now fuel i vec_jiffies delayed ts tbq dq))
      else feed_entries HZ now fuel i vec_jiffies (Some t) ts (vec_add_tail i t tbq) dq)"

text \<open>\<open>k\<close> more ticks.\<close>

fun feed_slots :: "nat \<Rightarrow> nat \<Rightarrow> nat \<Rightarrow> nat \<Rightarrow> tbq_global \<Rightarrow> dequeue_info \<Rightarrow> (tbq_global \<times> dequeue_info) run" where
  "feed_slots HZ now fuel 0 tbq dq = Ret (tbq, dq)"
| "feed_slots HZ now fuel (Suc k) tbq dq =
     (let vj = tm_jiffies tbq; i = vj mod TBQ_TIMER_VEC; work = vec tbq i;
          tbq = tbq\<lparr>tm_jiffies := vj + 1, vec := (vec tbq)(i := []), stale := (stale tbq)(i := False)\<rparr>
      in run_bind (feed_entries HZ now fuel i vj None work tbq dq) (\<lambda>(tbq, dq). feed_slots HZ now fuel k tbq dq))"

definition tbq_timer_feed :: "nat \<Rightarrow> nat \<Rightarrow> nat \<Rightarrow> tbq_global \<Rightarrow> dequeue_info \<Rightarrow> (tbq_global \<times> dequeue_info) run" where
  "tbq_timer_feed HZ now fuel tbq dq = feed_slots HZ now fuel (now + 1 - tm_jiffies tbq) tbq dq"

text \<open>The packets reinjected, and whether a waiting \<open>tbq_disable\<close> is notified.\<close>

definition tbq_timer_func :: "nat \<Rightarrow> nat \<Rightarrow> nat \<Rightarrow> tbq_global \<Rightarrow> (tbq_global \<times> dequeue_info \<times> bool) run" where
  "tbq_timer_func HZ now fuel tbq =
     run_bind (tbq_timer_feed HZ now fuel tbq no_dq) (\<lambda>(tbq, dq).
       (let tbq = tbq\<lparr>backlog_packets := backlog_packets tbq - word_of_nat (length (dq_send dq) + length (dq_drop dq))\<rparr>
        in if status tbq = TBQ_STATUS_WAITING_STOP \<and> nr_pending tbq = 0
           then run_bind (tbq_timer_assert_unused tbq) (\<lambda>_. Ret (tbq, dq, True))
           else Ret (tbq, dq, False)))"

end
