(* ===== verification/Tbq_Main.thy ===== *)
theory Tbq_Main
  imports Tbq_Sched
begin

text \<open>
  The rest of the shaper: matching users and flows with rules, the netfilter hook, the set-up and
  removal of users, flows and buckets (\<open>tbq_core.c\<close>), and enabling, disabling and reloading
  (\<open>tbq_config.c\<close>).
\<close>

section \<open>Matching\<close>

fun match_ip_rules :: "tbq_ip_rule list \<Rightarrow> u32 \<Rightarrow> u32" where
  "match_ip_rules [] ip = 0"
| "match_ip_rules (r # rs) ip = (if ip_min r \<le> ip \<and> ip \<le> ip_max r then ip_weight r else match_ip_rules rs ip)"

definition tbq_rule_match_ip :: "tbq_rule \<Rightarrow> u32 \<Rightarrow> u32" where
  "tbq_rule_match_ip rule ip = (if ip_rules rule = [] then 1 else match_ip_rules (ip_rules rule) ip)"

text \<open>The weights are stored as \<open>uint8_t\<close>.\<close>

definition u8_weight :: "u32 \<Rightarrow> nat" where "u8_weight w = unat w mod 256"

definition user_weight :: "tbq_global \<Rightarrow> u32 \<Rightarrow> nat \<Rightarrow> nat" where
  "user_weight tbq ip i = u8_weight (tbq_rule_match_ip (c_rules (config tbq) ! i) ip)"

definition mask_of :: "(nat \<Rightarrow> bool) \<Rightarrow> nat \<Rightarrow> u32" where
  "mask_of P n = fold (\<lambda>i m. if P i then set_bit i m else m) [0..<n] 0"

definition tbq_user_match :: "tbq_global \<Rightarrow> u32 \<Rightarrow> u32" where
  "tbq_user_match tbq ip = mask_of (\<lambda>i. user_weight tbq ip i \<noteq> 0) (nr_rule tbq)"

definition tbq_rule_match_app :: "tbq_rule \<Rightarrow> u16 \<Rightarrow> bool" where
  "tbq_rule_match_app rule app \<longleftrightarrow> app_rules rule = [] \<or> app \<in> set (app_rules rule)"

definition app_weight :: "tbq_global \<Rightarrow> u16 \<Rightarrow> nat \<Rightarrow> nat" where
  "app_weight tbq app i = (if tbq_rule_match_app (c_rules (config tbq) ! i) app then 1 else 0)"

text \<open>The mask and the new weights; a weight outside \<open>all_mask\<close> stays.\<close>

definition tbq_app_match :: "tbq_global \<Rightarrow> u16 \<Rightarrow> u32 \<Rightarrow> (nat \<Rightarrow> nat) \<Rightarrow> u32 \<times> (nat \<Rightarrow> nat)" where
  "tbq_app_match tbq app all_mask wt =
     (mask_of (\<lambda>i. bit all_mask i \<and> app_weight tbq app i \<noteq> 0) 32,
      \<lambda>i. if i \<in> set (mask_rules all_mask) then app_weight tbq app i else wt i)"

section \<open>Users and flows\<close>

definition limit_of :: "tbq_rule \<Rightarrow> nat \<Rightarrow> tbq_token_rule" where
  "limit_of r dir = (if dir = 0 then up_rule r else down_rule r)"

definition user_rate :: "tbq_global \<Rightarrow> bix \<Rightarrow> int" where
  "user_rate tbq b = int (tr_user (limit_of (c_rules (config tbq) ! snd b) (fst b)))"

definition tbq_user_init :: "nat \<Rightarrow> uix \<Rightarrow> nat \<Rightarrow> tbq_global \<Rightarrow> tbq_global run" where
  "tbq_user_init now u w tbq =
     run_bind (assertion (w \<noteq> 0)) (\<lambda>_.
       Ret (upd_ubl u (\<lambda>_. tbq_backlog_init w) (upd_utc u (\<lambda>_. tbq_token_ctrl_init now (user_rate tbq (snd u))) tbq)))"

fun user_inits :: "nat \<Rightarrow> nat \<Rightarrow> nat \<Rightarrow> (nat \<Rightarrow> nat) \<Rightarrow> nat list \<Rightarrow> tbq_global \<Rightarrow> tbq_global run" where
  "user_inits now uid dir wt [] tbq = Ret tbq"
| "user_inits now uid dir wt (i # rs) tbq =
     run_bind (tbq_user_init now (uid, dir, i) (wt i) tbq) (user_inits now uid dir wt rs)"

definition tbq_user_sched_init :: "nat \<Rightarrow> nat \<Rightarrow> nat \<Rightarrow> (nat \<Rightarrow> nat) \<Rightarrow> u32 \<Rightarrow> tbq_global \<Rightarrow> tbq_global run" where
  "tbq_user_sched_init now uid dir wt rmask tbq =
     user_inits now uid dir wt (mask_rules rmask) (tbq\<lparr>uinact := (uinact tbq)((uid, dir) := 0)\<rparr>)"

definition tbq_user_track_alloc :: "nat \<Rightarrow> nat \<Rightarrow> u32 \<Rightarrow> tbq_global \<Rightarrow> tbq_global run" where
  "tbq_user_track_alloc now uid ip tbq =
     (let rmask = tbq_user_match tbq ip; wt = user_weight tbq ip;
          tbq = tbq\<lparr>users := users tbq @ [uid], u_mask := (u_mask tbq)(uid := rmask)\<rparr>
      in run_bind (tbq_user_sched_init now uid 0 wt rmask tbq) (tbq_user_sched_init now uid 1 wt rmask))"

definition tbq_user_cleanup :: "uix \<Rightarrow> tbq_global \<Rightarrow> unit run" where
  "tbq_user_cleanup u tbq =
     run_bind (tbq_token_ctrl_assert_unused (utc tbq u)) (\<lambda>_.
     run_bind (tbq_backlog_empty (ubl tbq u)) (\<lambda>e. assertion e))"

fun timer_dels :: "tcid list \<Rightarrow> tbq_global \<Rightarrow> tbq_global run" where
  "timer_dels [] tbq = Ret tbq"
| "timer_dels (t # ts) tbq = run_bind (tbq_timer_del t tbq) (timer_dels ts)"

fun user_cleanups :: "uix list \<Rightarrow> tbq_global \<Rightarrow> unit run" where
  "user_cleanups [] tbq = Ret ()"
| "user_cleanups (u # us) tbq = run_bind (tbq_user_cleanup u tbq) (\<lambda>_. user_cleanups us tbq)"

definition tbq_user_sched_cleanup :: "nat \<Rightarrow> nat \<Rightarrow> u32 \<Rightarrow> tbq_global \<Rightarrow> tbq_global run" where
  "tbq_user_sched_cleanup uid dir rmask tbq =
     run_bind (timer_dels (map (\<lambda>i. UTc (uid, dir, i)) (mask_rules (uinact tbq (uid, dir)))) tbq) (\<lambda>tbq.
       (let tbq = tbq\<lparr>uinact := (uinact tbq)((uid, dir) := 0)\<rparr>
        in run_bind (user_cleanups (map (\<lambda>i. (uid, dir, i)) (mask_rules rmask)) tbq) (\<lambda>_. Ret tbq)))"

definition tbq_user_track_free :: "nat \<Rightarrow> tbq_global \<Rightarrow> tbq_global run" where
  "tbq_user_track_free uid tbq =
     (let tbq = tbq\<lparr>users := remove1 uid (users tbq)\<rparr>
      in run_bind (tbq_user_sched_cleanup uid 0 (u_mask tbq uid) tbq) (tbq_user_sched_cleanup uid 1 (u_mask tbq uid)))"

definition tbq_flow_track_init :: "nat \<Rightarrow> tbq_global \<Rightarrow> tbq_global" where
  "tbq_flow_track_init f tbq =
     tbq\<lparr>flows := f # flows tbq, f_app := (f_app tbq)(f := 0), f_mask := (f_mask tbq)(f := 0), f_weight := (f_weight tbq)(f := (\<lambda>_. 0)),
        fbl := (fbl tbq)((f, 0) := tbq_backlog_init 0, (f, 1) := tbq_backlog_init 0), fpk := (fpk tbq)((f, 0) := [], (f, 1) := [])\<rparr>"

definition tbq_flow_track_cleanup :: "nat \<Rightarrow> tbq_global \<Rightarrow> tbq_global run" where
  "tbq_flow_track_cleanup f tbq =
     run_bind (tbq_flow_backlog_empty (f, 0) tbq) (\<lambda>e0.
     run_bind (assertion e0) (\<lambda>_.
     run_bind (tbq_flow_backlog_empty (f, 1) tbq) (\<lambda>e1.
     run_bind (assertion e1) (\<lambda>_.
       Ret (tbq\<lparr>flows := remove1 f (flows tbq)\<rparr>)))))"

definition tbq_on_user_free :: "nat \<Rightarrow> tbq_global \<Rightarrow> tbq_global run" where
  "tbq_on_user_free uid tbq = (if uid \<in> set (users tbq) then tbq_user_track_free uid tbq else Ret tbq)"

definition tbq_on_flow_free :: "nat \<Rightarrow> tbq_global \<Rightarrow> tbq_global run" where
  "tbq_on_flow_free f tbq = (if f \<in> set (flows tbq) then tbq_flow_track_cleanup f tbq else Ret tbq)"

section \<open>The hook\<close>

datatype verdict = NF_ACCEPT | NF_DROP | NF_QUEUE

text \<open>
  What the kernel hands over: the connection's flow and user (with its address), the protocol of the flow's
  tuple, the length, and whether an allocation succeeds. The packet control block is the result.
\<close>

record skb_info =
  s_flow :: nat
  s_user :: nat
  s_ip :: u32
  s_proto :: u16
  s_len :: u32

definition flow_track :: "skb_info \<Rightarrow> tbq_global \<Rightarrow> tbq_global" where
  "flow_track skb tbq =
     (let f = s_flow skb; tbq = (if f \<in> set (flows tbq) then tbq else tbq_flow_track_init f tbq)
      in if f_app tbq f \<noteq> s_proto skb
         then (let (m, w) = tbq_app_match tbq (s_proto skb) (u_mask tbq (s_user skb)) (f_weight tbq f)
               in tbq\<lparr>f_app := (f_app tbq)(f := s_proto skb), f_mask := (f_mask tbq)(f := m), f_weight := (f_weight tbq)(f := w)\<rparr>)
         else tbq)"

definition packet_ctrl :: "skb_info \<Rightarrow> nat \<Rightarrow> tbq_global \<Rightarrow> packet" where
  "packet_ctrl skb dir tbq =
     \<lparr>p_flow = s_flow skb, p_user = s_user skb, p_dir = dir, p_mask = f_mask tbq (s_flow skb), p_len = s_len skb\<rparr>"

definition filter_verdict :: "nat \<Rightarrow> nat \<Rightarrow> packet \<Rightarrow> tbq_global \<Rightarrow> (tbq_global \<times> verdict) run" where
  "filter_verdict HZ now p tbq =
     run_bind (tbq_flow_backlog_empty (p_flow p, p_dir p) tbq) (\<lambda>empty.
     run_bind (if empty then run_bind (tbq_packet_ctrl_consume HZ now p tbq) (\<lambda>(tbq, r). Ret (tbq, r = None)) else Ret (tbq, False))
       (\<lambda>(tbq, charged).
       Ret (tbq, if charged then NF_ACCEPT
                 else if backlog_packets tbq \<ge> max_backlog_packets (config tbq) then NF_DROP else NF_QUEUE)))"

definition tbq_filter_packet ::
  "nat \<Rightarrow> nat \<Rightarrow> bool \<Rightarrow> skb_info \<Rightarrow> nat \<Rightarrow> tbq_global \<Rightarrow> (tbq_global \<times> verdict \<times> packet option) run" where
  "tbq_filter_packet HZ now alloc_ok skb dir tbq =
     (if s_user skb \<notin> set (users tbq) \<and> \<not> alloc_ok then Ret (tbq, NF_ACCEPT, None)
      else
        run_bind (if s_user skb \<in> set (users tbq) then Ret tbq else tbq_user_track_alloc now (s_user skb) (s_ip skb) tbq) (\<lambda>tbq.
        (let tbq = flow_track skb tbq
         in if f_mask tbq (s_flow skb) = 0 then Ret (tbq, NF_ACCEPT, None)
            else (let p = packet_ctrl skb dir tbq
                  in run_bind (filter_verdict HZ now p tbq) (\<lambda>(tbq, v). Ret (tbq, v, Some p))))))"

definition tbq_get_packet_dir :: "tbq_config \<Rightarrow> string \<Rightarrow> string \<Rightarrow> nat option" where
  "tbq_get_packet_dir c inn out =
     (if match_iface inn (lan c) then (if match_iface out (wan c) then Some 0 else None)
      else if match_iface out (lan c) then Some 1 else None)"

text \<open>
  The packet as the hook sees it; \<open>h_skb\<close> is None for a packet without a tracked connection or flow.
\<close>

record hook_packet =
  h_skb :: "skb_info option"
  h_proto :: nat
  h_in :: string
  h_out :: string

definition tbq_nf_hook :: "nat \<Rightarrow> nat \<Rightarrow> bool \<Rightarrow> hook_packet \<Rightarrow> tbq_global \<Rightarrow> (tbq_global \<times> verdict \<times> packet option) run" where
  "tbq_nf_hook HZ now alloc_ok h tbq =
     (case h_skb h of
        None \<Rightarrow> Ret (tbq, NF_ACCEPT, None)
      | Some skb \<Rightarrow>
          if h_proto h \<notin> {1, 6, 17} \<or> status tbq \<noteq> TBQ_STATUS_RUNNING then Ret (tbq, NF_ACCEPT, None)
          else case tbq_get_packet_dir (config tbq) (h_in h) (h_out h) of
              None \<Rightarrow> Ret (tbq, NF_ACCEPT, None)
            | Some dir \<Rightarrow> tbq_filter_packet HZ now alloc_ok skb dir tbq)"

section \<open>Buckets and the configuration\<close>

definition bucket_rate :: "tbq_rule list \<Rightarrow> bix \<Rightarrow> int" where
  "bucket_rate rs b = int (tr_global (limit_of (rs ! snd b) (fst b)))"

definition tbq_bucket_sched_init :: "nat \<Rightarrow> tbq_rule list \<Rightarrow> nat \<Rightarrow> tbq_global \<Rightarrow> tbq_global run" where
  "tbq_bucket_sched_init now rs dir tbq =
     run_bind (assertion (length rs \<le> TBQ_RULE_COUNT_MAX)) (\<lambda>_.
       Ret (tbq\<lparr>binact := (binact tbq)(dir := 0),
              btc := (\<lambda>b. if fst b = dir \<and> snd b < length rs then tbq_token_ctrl_init now (bucket_rate rs b) else btc tbq b)\<rparr>))"

fun bucket_cleanups :: "bix list \<Rightarrow> tbq_global \<Rightarrow> unit run" where
  "bucket_cleanups [] tbq = Ret ()"
| "bucket_cleanups (b # bs) tbq = run_bind (tbq_token_ctrl_assert_unused (btc tbq b)) (\<lambda>_. bucket_cleanups bs tbq)"

definition tbq_bucket_sched_cleanup :: "nat \<Rightarrow> tbq_global \<Rightarrow> unit run" where
  "tbq_bucket_sched_cleanup dir tbq =
     run_bind (assertion (binact tbq dir = 0)) (\<lambda>_. bucket_cleanups (map (Pair dir) [0..<nr_rule tbq]) tbq)"

fun free_users :: "nat list \<Rightarrow> tbq_global \<Rightarrow> tbq_global run" where
  "free_users [] tbq = Ret tbq"
| "free_users (u # us) tbq = run_bind (tbq_user_track_free u tbq) (free_users us)"

fun free_flows :: "nat list \<Rightarrow> tbq_global \<Rightarrow> tbq_global run" where
  "free_flows [] tbq = Ret tbq"
| "free_flows (f # fs) tbq = run_bind (tbq_flow_track_cleanup f tbq) (free_flows fs)"

definition empty_config :: tbq_config where
  "empty_config = \<lparr>c_rules = [], max_backlog_packets = 0, latency_shift = 0, disable_timeout = 0, lan = zero_iface, wan = zero_iface\<rparr>"

definition tbq_global_set_config :: "nat \<Rightarrow> tbq_config option \<Rightarrow> tbq_global \<Rightarrow> tbq_global run" where
  "tbq_global_set_config now c tbq =
     run_bind (assertion (status tbq = TBQ_STATUS_STOPPED \<and> backlog_packets tbq = 0)) (\<lambda>_.
     run_bind (free_users (users tbq) tbq) (\<lambda>tbq.
     run_bind (free_flows (flows tbq) tbq) (\<lambda>tbq.
     run_bind (tbq_bucket_sched_cleanup 0 tbq) (\<lambda>_.
     run_bind (tbq_bucket_sched_cleanup 1 tbq) (\<lambda>_.
       case c of
         None \<Rightarrow> Ret (tbq\<lparr>config := empty_config\<rparr>)
       | Some c \<Rightarrow>
           run_bind (tbq_bucket_sched_init now (c_rules c) 0 (tbq\<lparr>config := c\<rparr>)) (tbq_bucket_sched_init now (c_rules c) 1))))))"

definition tbq_global_init :: "nat \<Rightarrow> tbq_global" where
  "tbq_global_init now =
     \<lparr>config = empty_config\<lparr>max_backlog_packets := 10000, latency_shift := 7, disable_timeout := 2\<rparr>, users = [], flows = [], u_mask = (\<lambda>_. 0),
      btc = (\<lambda>_. tbq_token_ctrl_init 0 0), utc = (\<lambda>_. tbq_token_ctrl_init 0 0), ubl = (\<lambda>_. tbq_backlog_init 0), fbl = (\<lambda>_. tbq_backlog_init 0),
      fpk = (\<lambda>_. []), binact = (\<lambda>_. 0), uinact = (\<lambda>_. 0), f_app = (\<lambda>_. 0), f_mask = (\<lambda>_. 0), f_weight = (\<lambda>_ _. 0), backlog_packets = 0,
      status = TBQ_STATUS_RUNNING, tm_jiffies = now, nr_pending = 0, vec = (\<lambda>_. []), stale = (\<lambda>_. False)\<rparr>"

definition tbq_global_cleanup :: "nat \<Rightarrow> tbq_global \<Rightarrow> tbq_global run" where
  "tbq_global_cleanup now tbq = run_bind (tbq_timer_assert_unused tbq) (\<lambda>_. tbq_global_set_config now None tbq)"

section \<open>Enabling, disabling, reloading\<close>

definition tbq_enable :: "tbq_global \<Rightarrow> tbq_global run" where
  "tbq_enable tbq =
     run_bind (assertion (status tbq = TBQ_STATUS_STOPPED)) (\<lambda>_. Ret (tbq\<lparr>status := TBQ_STATUS_RUNNING\<rparr>))"

text \<open>
  Disabling: the queue handlers are stopped, then the timer drains the backlog. \<open>wait\<close> is what happens
  until \<open>wait_for_completion_interruptible_timeout\<close> returns: the state the timer runs lead to, and
  the return value. The error, if any, is the second result.
\<close>

text \<open>The error numbers are those of MIPS, the processor of the router.\<close>

definition ETIMEDOUT_NR :: int where "ETIMEDOUT_NR = 145"

definition tbq_disable :: "(tbq_global \<Rightarrow> (tbq_global \<times> int) run) \<Rightarrow> tbq_global \<Rightarrow> (tbq_global \<times> int) run" where
  "tbq_disable wait tbq =
     run_bind (assertion (status tbq = TBQ_STATUS_RUNNING)) (\<lambda>_.
     run_bind (wait (tbq\<lparr>status := TBQ_STATUS_WAITING_STOP\<rparr>)) (\<lambda>(tbq, ret).
       if ret \<le> 0 then Ret (tbq\<lparr>status := TBQ_STATUS_RUNNING\<rparr>, if ret = 0 then - ETIMEDOUT_NR else ret)
       else Ret (tbq\<lparr>status := TBQ_STATUS_STOPPED\<rparr>, 0)))"

definition tbq_reload_config ::
  "(tbq_global \<Rightarrow> (tbq_global \<times> int) run) \<Rightarrow> nat \<Rightarrow> tbq_config \<Rightarrow> tbq_global \<Rightarrow> (tbq_global \<times> int) run" where
  "tbq_reload_config wait now c tbq =
     run_bind (assertion (status tbq = TBQ_STATUS_RUNNING \<or> status tbq = TBQ_STATUS_STOPPED)) (\<lambda>_.
       if status tbq = TBQ_STATUS_RUNNING then
         run_bind (tbq_disable wait tbq) (\<lambda>(tbq, ret).
           if ret \<noteq> 0 then Ret (tbq, ret)
           else run_bind (tbq_global_set_config now (Some c) tbq) (\<lambda>tbq. run_bind (tbq_enable tbq) (\<lambda>tbq. Ret (tbq, 0))))
       else run_bind (tbq_global_set_config now (Some c) tbq) (\<lambda>tbq. Ret (tbq, 0)))"

definition tbq_handle_command :: "(tbq_global \<Rightarrow> (tbq_global \<times> int) run) \<Rightarrow> bool \<Rightarrow> tbq_global \<Rightarrow> (tbq_global \<times> int) run" where
  "tbq_handle_command wait enable tbq =
     run_bind (assertion (status tbq = TBQ_STATUS_RUNNING \<or> status tbq = TBQ_STATUS_STOPPED)) (\<lambda>_.
       if enable then
         (if status tbq = TBQ_STATUS_RUNNING then Ret (tbq, 0) else run_bind (tbq_enable tbq) (\<lambda>tbq. Ret (tbq, 0)))
       else if status tbq = TBQ_STATUS_RUNNING then tbq_disable wait tbq
       else Ret (tbq, 0))"

text \<open>
  A write to the sysfs file: the number of bytes, or an error. Pointers to the rules are equal when
  the parser took the live ones, or when there are none on both sides.
\<close>

definition same_rules :: "tbq_config \<Rightarrow> bool \<Rightarrow> tbq_config \<Rightarrow> bool" where
  "same_rules c shared live \<longleftrightarrow> shared \<or> c_rules c = [] \<and> c_rules live = []"

definition tbq_sysfs_attr_store ::
  "(string \<Rightarrow> nx_json option) \<Rightarrow> (nat \<Rightarrow> bool) \<Rightarrow> (tbq_global \<Rightarrow> (tbq_global \<times> int) run) \<Rightarrow> nat \<Rightarrow> nat \<Rightarrow> string \<Rightarrow> tbq_global \<Rightarrow> (tbq_global \<times> int) run" where
  "tbq_sysfs_attr_store json_parse malloc_ok wait HZ now buf tbq =
     run_bind (tbq_parse_config json_parse malloc_ok HZ buf (config tbq)) (\<lambda>(live, r).
     (let tbq = tbq\<lparr>config := live\<rparr>
      in run_bind
           (case r of
              ParseErr \<Rightarrow> Ret (tbq, - 1)
            | ParseCmd enable \<Rightarrow> tbq_handle_command wait enable tbq
            | ParseConf c shared \<Rightarrow> if same_rules c shared (config tbq) then Ret (tbq, 0) else tbq_reload_config wait now c tbq) (\<lambda>(tbq, ret).
         run_bind (assertion (ret \<le> 0)) (\<lambda>_. Ret (tbq, if ret < 0 then ret else int (length buf))))))"

definition tbq_sysfs_attr_show :: "tbq_global \<Rightarrow> string" where
  "tbq_sysfs_attr_show tbq =
     ''tbq status: '' @
     (case status tbq of
        TBQ_STATUS_RUNNING \<Rightarrow> ''running''
      | TBQ_STATUS_STOPPED \<Rightarrow> ''stopped''
      | TBQ_STATUS_STOPPING \<Rightarrow> ''stopping''
      | TBQ_STATUS_WAITING_STOP \<Rightarrow> ''waiting stop'') @ [CHR 0x0A]"

definition tbq_sysfs_unregister :: "(tbq_global \<Rightarrow> (tbq_global \<times> int) run) \<Rightarrow> tbq_global \<Rightarrow> tbq_global run" where
  "tbq_sysfs_unregister wait tbq =
     (if status tbq = TBQ_STATUS_RUNNING then run_bind (tbq_disable wait tbq) (\<lambda>(tbq, _). Ret tbq) else Ret tbq)"

definition nos_tbq_fini :: "(tbq_global \<Rightarrow> (tbq_global \<times> int) run) \<Rightarrow> nat \<Rightarrow> tbq_global \<Rightarrow> tbq_global run" where
  "nos_tbq_fini wait now tbq = run_bind (tbq_sysfs_unregister wait tbq) (tbq_global_cleanup now)"

text \<open>
  Module start: the results of the sysfs and the hook registration. A failure cleans up what was
  initialised, and the error is returned.
\<close>

definition nos_tbq_init :: "(tbq_global \<Rightarrow> (tbq_global \<times> int) run) \<Rightarrow> nat \<Rightarrow> int \<Rightarrow> int \<Rightarrow> (tbq_global option \<times> int) run" where
  "nos_tbq_init wait now sysfs_ret hooks_ret =
     (let tbq = tbq_global_init now
      in if sysfs_ret \<noteq> 0 then run_bind (tbq_global_cleanup now tbq) (\<lambda>_. Ret (None, sysfs_ret))
         else if hooks_ret \<noteq> 0
         then run_bind (tbq_sysfs_unregister wait tbq) (\<lambda>tbq. run_bind (tbq_global_cleanup now tbq) (\<lambda>_. Ret (None, hooks_ret)))
         else Ret (Some tbq, 0))"

text \<open>
  The module parameters: a number, and nothing after it but blanks, within the range of the field.
  \<open>TBQ_PARAM_UINT\<close> defines one setter for each of the three fields.
\<close>

definition EINVAL_NR :: int where "EINVAL_NR = 22"

definition tbq_param_set_max_backlog_packets :: "u32 \<Rightarrow> tbq_config \<Rightarrow> tbq_config option" where
  "tbq_param_set_max_backlog_packets n c =
     (if n > word_of_int TBQ_BACKLOG_PACKETS_MAX then None else Some (c\<lparr>max_backlog_packets := n\<rparr>))"

definition tbq_param_set_latency_shift :: "u32 \<Rightarrow> tbq_config \<Rightarrow> tbq_config option" where
  "tbq_param_set_latency_shift n c = (if n > word_of_int TBQ_LATENCY_SHIFT_MAX then None else Some (c\<lparr>latency_shift := n\<rparr>))"

definition tbq_param_set_disable_timeout :: "u32 \<Rightarrow> tbq_config \<Rightarrow> tbq_config option" where
  "tbq_param_set_disable_timeout n c =
     (if n > word_of_int TBQ_DISABLE_TIMEOUT_MAX then None else Some (c\<lparr>disable_timeout := n\<rparr>))"

definition tbq_param_set_uint :: "(u32 \<Rightarrow> tbq_config \<Rightarrow> tbq_config option) \<Rightarrow> string \<Rightarrow> tbq_global \<Rightarrow> tbq_global \<times> int" where
  "tbq_param_set_uint fn valstr tbq =
     (case scan_num valstr of
        None \<Rightarrow> (tbq, - EINVAL_NR)
      | Some (n, r) \<Rightarrow>
          if scan_char r \<noteq> None then (tbq, - EINVAL_NR)
          else case fn (word_of_nat n) (config tbq) of
              None \<Rightarrow> (tbq, - EINVAL_NR)
            | Some c \<Rightarrow> (tbq\<lparr>config := c\<rparr>, 0))"

section \<open>Start and stop\<close>

text \<open>
  The shaper is in the state running from its initialisation on, and the removal of the
  configuration insists on the state stopped: a failed registration of the sysfs file ends in a
  kernel crash instead of the error.
\<close>

lemma start_failure_crashes: "sysfs_ret \<noteq> 0 \<Longrightarrow> nos_tbq_init wait now sysfs_ret hooks_ret = Fault BugOn"
  by (simp add: nos_tbq_init_def tbq_global_cleanup_def tbq_timer_assert_unused_def tbq_global_init_def
      tbq_global_set_config_def run_bind_assertion Let_def)

text \<open>The same when a module in use is removed and its backlog does not drain in time.\<close>

lemma stop_timeout_crashes:
  assumes "status tbq = TBQ_STATUS_RUNNING" "wait (tbq\<lparr>status := TBQ_STATUS_WAITING_STOP\<rparr>) = Ret (tbq', ret)" "ret \<le> 0"
  shows "nos_tbq_fini wait now tbq = Fault BugOn"
  using assms by (auto simp: nos_tbq_fini_def tbq_sysfs_unregister_def tbq_disable_def tbq_global_cleanup_def
      tbq_timer_assert_unused_def tbq_global_set_config_def run_bind_assertion)

end
