(* ===== verification/Tbq_Rate.thy ===== *)
theory Tbq_Rate
  imports Tbq_Main
begin

text \<open>
  The limits hold: whatever packets, timer ticks and removals happen, the bytes let through under a
  limit stay below its rate times the time that passed, plus one packet and one tick. The argument
  is a potential: what a limit has granted so far (rate times its clock) minus the tokens left. A
  packet that goes through raises it by at least its length, and nothing lowers it.
\<close>

section \<open>Accounts\<close>

type_synonym acct = "int \<times> nat \<times> int \<times> bool"

definition tc_acct :: "'u token_ctrl \<Rightarrow> acct" where
  "tc_acct tc = (tokens tc, tc_jiffies tc, tokens_per_jiffy tc, in_timer tc)"

definition acct :: "tbq_global \<Rightarrow> tcid \<Rightarrow> acct" where
  "acct tbq t = (case t of BTc b \<Rightarrow> tc_acct (btc tbq b) | UTc u \<Rightarrow> tc_acct (utc tbq u))"

text \<open>What leaves every account, the timer's clock and the users as they are and adds no packet to a queue.\<close>

definition keeps :: "tbq_global \<Rightarrow> tbq_global \<Rightarrow> bool" where
  "keeps tbq tbq' \<longleftrightarrow> acct tbq' = acct tbq \<and> tm_jiffies tbq' = tm_jiffies tbq \<and> users tbq' = users tbq
     \<and> (\<forall>fb. set (fpk tbq' fb) \<subseteq> set (fpk tbq fb))"

named_theorems keeps_intros \<open>operations that keep every account\<close>

lemma keeps_refl [simp]: "keeps tbq tbq"
  by (simp add: keeps_def)

lemma keeps_trans: "keeps a b \<Longrightarrow> keeps b c \<Longrightarrow> keeps a c"
  unfolding keeps_def by (metis subset_trans)

lemma acct_cong: "btc tbq' = btc tbq \<Longrightarrow> utc tbq' = utc tbq \<Longrightarrow> acct tbq' = acct tbq"
  by (auto simp: acct_def fun_eq_iff split: tcid.splits)

lemma acct_upd_btc: "(\<And>tc. tc_acct (f tc) = tc_acct tc) \<Longrightarrow> acct (upd_btc b f tbq) = acct tbq"
  by (auto simp: acct_def fun_eq_iff upd_btc_def split: tcid.splits)

lemma acct_upd_utc: "(\<And>tc. tc_acct (f tc) = tc_acct tc) \<Longrightarrow> acct (upd_utc b f tbq) = acct tbq"
  by (auto simp: acct_def fun_eq_iff upd_utc_def split: tcid.splits)

lemma acct_upd_bl [simp]: "acct (upd_ubl u f tbq) = acct tbq" "acct (upd_fbl fb g tbq) = acct tbq"
  by (auto simp: upd_ubl_def upd_fbl_def intro: acct_cong)

lemma fpk_upds [simp]: "fpk (upd_btc b f tbq) = fpk tbq" "fpk (upd_utc u g tbq) = fpk tbq" "fpk (upd_ubl u h tbq) = fpk tbq"
    "fpk (upd_fbl fb k tbq) = fpk tbq" "tm_jiffies (upd_btc b f tbq) = tm_jiffies tbq" "tm_jiffies (upd_utc u g tbq) = tm_jiffies tbq"
    "tm_jiffies (upd_ubl u h tbq) = tm_jiffies tbq" "tm_jiffies (upd_fbl fb k tbq) = tm_jiffies tbq"
    "users (upd_btc b f tbq) = users tbq" "users (upd_utc u g tbq) = users tbq" "users (upd_ubl u h tbq) = users tbq" "users (upd_fbl fb k tbq) = users tbq"
  by (simp_all add: tbq_upds)

lemma keeps_count: "keeps tbq tbq' \<Longrightarrow> keeps tbq (tbq'\<lparr>backlog_packets := n\<rparr>)"
  using acct_cong [of "tbq'\<lparr>backlog_packets := n\<rparr>" tbq'] by (simp add: keeps_def)

lemma keeps_user_attach [keeps_intros]: "keeps tbq (user_backlog_attach u tbq)"
  by (auto simp: keeps_def user_backlog_attach_def tc_acct_def intro!: acct_upd_btc)

lemma keeps_user_detach [keeps_intros]: "keeps tbq (user_backlog_detach u tbq)"
  by (auto simp: keeps_def user_backlog_detach_def tc_acct_def intro!: acct_upd_btc split: option.splits)

lemma keeps_flow_attach [keeps_intros]: "keeps tbq (flow_backlog_attach_tc fb u tbq)"
  by (auto simp: keeps_def flow_backlog_attach_tc_def tc_acct_def intro!: acct_upd_utc)

lemma keeps_flow_detach [keeps_intros]: "keeps tbq (flow_backlog_detach_tc fb tbq)"
  by (auto simp: keeps_def flow_backlog_detach_tc_def tc_acct_def intro!: acct_upd_utc split: option.splits)

lemma keeps_upd_bl: "keeps tbq (upd_ubl u f tbq')" "keeps tbq (upd_fbl fb g tbq')" if "keeps tbq tbq'"
  using that by (simp_all add: keeps_def)

lemma keeps_user_dequeue [keeps_intros]: "user_backlog_dequeue u n tbq = Ret tbq' \<Longrightarrow> keeps tbq tbq'"
  by (auto simp: user_backlog_dequeue_def Let_def run_simps keeps_upd_bl intro: keeps_trans [OF keeps_upd_bl(1) keeps_user_detach] split: if_splits)

lemma keeps_flow_dequeue_octets [keeps_intros]: "flow_backlog_dequeue_octets fb n tbq = Ret tbq' \<Longrightarrow> keeps tbq tbq'"
  by (auto simp: flow_backlog_dequeue_octets_def Let_def run_simps keeps_upd_bl intro: keeps_trans [OF keeps_upd_bl(2) keeps_flow_detach] split: if_splits)

lemma keeps_drr [keeps_intros]: "tbq_flow_backlog_drr_schedule fb n tbq = Ret tbq' \<Longrightarrow> keeps tbq tbq'"
proof -
  have u: "keeps tbq (user_drr_schedule u n tbq)" for u tbq
    by (auto simp: keeps_def user_drr_schedule_def Let_def acct_upd_btc tc_acct_def split: option.splits prod.splits)
  have f: "keeps tbq (flow_drr_schedule fb n tbq)" for tbq
    by (auto simp: keeps_def flow_drr_schedule_def Let_def acct_upd_utc tc_acct_def split: option.splits prod.splits)
  show "tbq_flow_backlog_drr_schedule fb n tbq = Ret tbq' \<Longrightarrow> keeps tbq tbq'"
    by (auto simp: tbq_flow_backlog_drr_schedule_def split: option.splits intro: keeps_trans [OF u f])
qed

lemma keeps_backlog_update: "tbq_user_backlog_update u n w tbq = Ret tbq' \<Longrightarrow> keeps tbq tbq'"
  by (auto simp: tbq_user_backlog_update_def Let_def run_simps keeps_def acct_upd_btc acct_upd_utc tc_acct_def split: if_splits)

lemma keeps_packet_update [keeps_intros]: "tbq_packet_ctrl_backlog_update p n fb tbq = Ret tbq' \<Longrightarrow> keeps tbq tbq'"
proof -
  have "backlog_update_all p n fb rs tbq = Ret tbq' \<Longrightarrow> keeps tbq tbq'" for rs
    by (induction rs arbitrary: tbq) (auto simp: Let_def run_simps dest!: keeps_backlog_update intro: keeps_trans)
  then show "tbq_packet_ctrl_backlog_update p n fb tbq = Ret tbq' \<Longrightarrow> keeps tbq tbq'"
    by (auto simp: tbq_packet_ctrl_backlog_update_def)
qed

lemma packet_update_fpk: "tbq_packet_ctrl_backlog_update p n fb tbq = Ret tbq' \<Longrightarrow> fpk tbq' = fpk tbq"
proof -
  have u: "tbq_user_backlog_update u n w tbq = Ret tbq' \<Longrightarrow> fpk tbq' = fpk tbq" for u w tbq tbq'
    by (auto simp: tbq_user_backlog_update_def Let_def run_simps split: if_splits)
  have "backlog_update_all p n fb rs tbq = Ret tbq' \<Longrightarrow> fpk tbq' = fpk tbq" for rs
    by (induction rs arbitrary: tbq) (auto simp: Let_def run_simps dest!: u)
  then show "tbq_packet_ctrl_backlog_update p n fb tbq = Ret tbq' \<Longrightarrow> fpk tbq' = fpk tbq"
    by (auto simp: tbq_packet_ctrl_backlog_update_def)
qed

lemma keeps_attach [keeps_intros]: "tbq_flow_backlog_attach fb u tbq = Ret tbq' \<Longrightarrow> keeps tbq tbq'"
  by (auto simp: tbq_flow_backlog_attach_def Let_def run_simps split: if_splits
      intro!: keeps_upd_bl keeps_trans [OF keeps_user_attach keeps_trans [OF keeps_upd_bl(1) keeps_flow_attach]]
        keeps_trans [OF keeps_upd_bl(1) keeps_flow_attach] keeps_user_attach)

lemma keeps_detach [keeps_intros]: "tbq_flow_backlog_detach fb tbq = Ret tbq' \<Longrightarrow> keeps tbq tbq'"
  by (auto simp: tbq_flow_backlog_detach_def run_simps split: option.splits dest: keeps_user_dequeue intro: keeps_trans [OF _ keeps_flow_detach])

lemma keeps_dequeue: 
  assumes "tbq_flow_backlog_dequeue fb n rest tbq = Ret tbq'" "set rest \<subseteq> set (fpk tbq fb)"
  shows "keeps tbq tbq' \<and> fpk tbq' fb = rest"
proof -
  obtain u a b where s: "user_backlog_dequeue u n tbq = Ret a" "flow_backlog_dequeue_octets fb n a = Ret b"
    "tbq' = b\<lparr>fpk := (fpk b)(fb := rest)\<rparr>"
    using assms(1) by (auto simp: tbq_flow_backlog_dequeue_def run_simps split: option.splits)
  have "keeps tbq b" using keeps_user_dequeue [OF s(1)] keeps_flow_dequeue_octets [OF s(2)] by (rule keeps_trans)
  moreover have "acct tbq' = acct b" unfolding s(3) by (rule acct_cong) simp_all
  ultimately show ?thesis using assms(2) s(3) by (auto simp: keeps_def)
qed

lemma keeps_drop_loop:
  assumes "drop_loop fb mx ps tbq dq = Ret (tbq', dq')" "fpk tbq fb = rev ps"
  shows "keeps tbq tbq' \<and> dq_send dq' = dq_send dq"
  using assms
proof (induction ps arbitrary: tbq dq)
  case (Cons p ps)
  show ?case
  proof (cases "octets (fbl tbq fb) > mx")
    case True
    with Cons.prems(1) obtain a b where s: "tbq_flow_backlog_dequeue fb (p_len p) (rev ps) tbq = Ret a"
      "tbq_packet_ctrl_backlog_update p (- sint (p_len p)) (if octets (fbl a fb) = 0 then Some (fst fb) else None) a = Ret b"
      "drop_loop fb mx ps b (dq\<lparr>dq_drop := dq_drop dq @ [p]\<rparr>) = Ret (tbq', dq')"
      by (auto simp: run_simps)
    have a: "keeps tbq a" "fpk a fb = rev ps" using keeps_dequeue [OF s(1)] Cons.prems(2) by auto
    have fb: "fpk b = fpk a" using s(2) by (rule packet_update_fpk)
    from Cons.IH [OF s(3)] a(2) fb have "keeps b tbq' \<and> dq_send dq' = dq_send dq" by simp
    with keeps_trans [OF a(1) keeps_trans [OF keeps_packet_update [OF s(2)]]] show ?thesis by blast
  qed (use Cons.prems in auto)
qed (auto split: if_splits)

section \<open>The potential\<close>

fun pot :: "nat \<Rightarrow> nat \<Rightarrow> acct \<Rightarrow> int" where
  "pot HZ now (ts, J, r, tm) = r * int (tc_clock HZ now J) - ts"

text \<open>
  An account in order at time \<open>now\<close>, for the rate \<open>r\<close> and packets of at most \<open>M\<close> bytes: its clock is past
  \<open>now\<close> only while it is suspended, and by less than such a packet and a tick are worth.
\<close>

fun acct_ok :: "nat \<Rightarrow> nat \<Rightarrow> int \<Rightarrow> nat \<Rightarrow> acct \<Rightarrow> bool" where
  "acct_ok HZ now r M (ts, J, r', tm) \<longleftrightarrow>
     r' = r \<and> 0 < r \<and> r * int HZ \<le> 2000000000 \<and> 0 \<le> ts \<and> ts \<le> r * int HZ \<and> (\<not> tm \<longrightarrow> J \<le> now)
     \<and> (now < J \<longrightarrow> r * int (J - now) < int M + r)"

lemma acct_ok_later: 
  assumes "acct_ok HZ now r M a" "now \<le> now'"
  shows "acct_ok HZ now' r M a"
proof -
  obtain ts J r' tm where a: "a = (ts, J, r', tm)" by (cases a)
  have late: "r * int (J - now') < int M + r" if "now' < J"
  proof -
    have k: "0 < r" "now < J \<longrightarrow> r * int (J - now) < int M + r" using assms(1) unfolding a acct_ok.simps by blast+
    have "r * int (J - now') \<le> r * int (J - now)" using assms(2) k(1) by (intro mult_left_mono) simp_all
    moreover have "now < J" using that assms(2) by simp
    ultimately show ?thesis using k(2) by linarith
  qed
  then show ?thesis using assms unfolding a acct_ok.simps by (meson le_trans)
qed

lemma charge_meter:
  assumes ch: "tbq_charge HZ now n tc = Ret tc'" and ok: "acct_ok HZ now r M (tc_acct tc)"
    and b: "0 < HZ" "n \<le> M" "M < 2 ^ 27"
  shows "acct_ok HZ now r M (tc_acct tc') \<and> int n \<le> pot HZ now (tc_acct tc') - pot HZ now (tc_acct tc)"
proof -
  have t: "\<not> in_timer tc" using ch by (auto simp: tbq_charge_def tbq_token_ctrl_consume_def run_simps)
  with ok have J: "tc_jiffies tc \<le> now" and tc: "tc_ok HZ tc" and r: "tokens_per_jiffy tc = r" by (auto simp: tc_acct_def tc_ok_def)
  from charge_accounting [OF tc t b(1) _ J, of n] b(2,3) ch r
  have c: "tc_ok HZ tc'" "tokens_per_jiffy tc' = r" "int n + tokens tc' \<le> tokens tc + r * (int (tc_clock HZ now (tc_jiffies tc')) - int (tc_clock HZ now (tc_jiffies tc)))"
    "if in_timer tc' then now < tc_jiffies tc' \<and> r * int (tc_jiffies tc' - now) < int n + r else tc_jiffies tc' \<le> now"
    by auto
  have "\<not> in_timer tc' \<longrightarrow> tc_jiffies tc' \<le> now" "now < tc_jiffies tc' \<longrightarrow> r * int (tc_jiffies tc' - now) < int M + r"
    using c(4) b(2) by (auto split: if_splits)
  then show ?thesis using c(1-3) r by (simp add: tc_acct_def tc_ok_def right_diff_distrib)
qed

lemma user_consume_effect:
  assumes "tbq_user_consume HZ now u n tbq = Ret tbq'"
  shows "\<exists>tc1 tc2. tbq_charge HZ now n (btc tbq (snd u)) = Ret tc1 \<and> tbq_charge HZ now n (utc tbq u) = Ret tc2
    \<and> btc tbq' = (btc tbq)(snd u := tc1) \<and> utc tbq' = (utc tbq)(u := tc2) \<and> fpk tbq' = fpk tbq
    \<and> tm_jiffies tbq' = tm_jiffies tbq \<and> users tbq' = users tbq"
proof -
  from assms obtain a where a: "charge_bucket HZ now (snd u) n tbq = Ret a" "charge_user HZ now u n a = Ret tbq'"
    by (auto simp: tbq_user_consume_def run_simps)
  from a(1) obtain tc1 where c1: "tbq_charge HZ now n (btc tbq (snd u)) = Ret tc1" "btc a = (btc tbq)(snd u := tc1)" "utc a = utc tbq" "fpk a = fpk tbq"
      "tm_jiffies a = tm_jiffies tbq" "users a = users tbq"
    by (auto simp: charge_bucket_def run_simps tbq_timer_mod_def vec_add_tail_def)
  from a(2) c1(3) obtain tc2 where "tbq_charge HZ now n (utc tbq u) = Ret tc2" "utc tbq' = (utc tbq)(u := tc2)" "btc tbq' = btc a" "fpk tbq' = fpk a"
      "tm_jiffies tbq' = tm_jiffies a" "users tbq' = users a"
    by (auto simp: charge_user_def run_simps tbq_timer_mod_def vec_add_tail_def Let_def)
  with c1 show ?thesis by auto
qed

definition charged :: "uix \<Rightarrow> tcid \<Rightarrow> bool" where
  "charged u t \<longleftrightarrow> t = BTc (snd u) \<or> t = UTc u"

lemma user_consume_meter:
  assumes "tbq_user_consume HZ now u n tbq = Ret tbq'" "acct_ok HZ now r M (acct tbq t)" "0 < HZ" "n \<le> M" "M < 2 ^ 27"
  shows "acct_ok HZ now r M (acct tbq' t) \<and> (if charged u t then int n else 0) \<le> pot HZ now (acct tbq' t) - pot HZ now (acct tbq t)"
proof -
  obtain tc1 tc2 where e: "tbq_charge HZ now n (btc tbq (snd u)) = Ret tc1" "tbq_charge HZ now n (utc tbq u) = Ret tc2"
    "btc tbq' = (btc tbq)(snd u := tc1)" "utc tbq' = (utc tbq)(u := tc2)"
    using user_consume_effect [OF assms(1)] by blast
  show ?thesis
  proof (cases t)
    case (BTc b)
    then show ?thesis using charge_meter [OF e(1) _ assms(3-5), of r] assms(2) e(3) by (auto simp: acct_def charged_def)
  next
    case (UTc v)
    then show ?thesis using charge_meter [OF e(2) _ assms(3-5), of r] assms(2) e(4) by (auto simp: acct_def charged_def)
  qed
qed

definition pays_rules :: "packet \<Rightarrow> nat list \<Rightarrow> tcid \<Rightarrow> bool" where
  "pays_rules p rs t \<longleftrightarrow> (\<exists>i \<in> set rs. charged (p_user p, p_dir p, i) t)"

lemma consume_all_meter:
  assumes "consume_all HZ now p rs tbq = Ret tbq'" "acct_ok HZ now r M (acct tbq t)" "0 < HZ" "unat (p_len p) \<le> M" "M < 2 ^ 27"
  shows "acct_ok HZ now r M (acct tbq' t) \<and> (if pays_rules p rs t then int (unat (p_len p)) else 0) \<le> pot HZ now (acct tbq' t) - pot HZ now (acct tbq t)
    \<and> fpk tbq' = fpk tbq"
  using assms(1,2)
proof (induction rs arbitrary: tbq)
  case (Cons i rs)
  then obtain a where s: "tbq_user_consume HZ now (p_user p, p_dir p, i) (unat (p_len p)) tbq = Ret a" "consume_all HZ now p rs a = Ret tbq'"
    by (auto simp: run_simps)
  define L where "L = int (unat (p_len p))"
  have L: "0 \<le> L" unfolding L_def by (rule of_nat_0_le_iff)
  note m = user_consume_meter [OF s(1) Cons.prems(2) assms(3-5), folded L_def]
  note h = Cons.IH [OF s(2) conjunct1 [OF m], folded L_def]
  have "fpk a = fpk tbq" using user_consume_effect [OF s(1)] by blast
  moreover have "pays_rules p (i # rs) t \<longleftrightarrow> charged (p_user p, p_dir p, i) t \<or> pays_rules p rs t" by (auto simp: pays_rules_def)
  ultimately show ?case unfolding L_def [symmetric] using h m L by (auto split: if_splits)
qed (simp add: pays_rules_def)

lemma consume_all_fpk: "consume_all HZ now p rs tbq = Ret tbq'
    \<Longrightarrow> fpk tbq' = fpk tbq \<and> tm_jiffies tbq' = tm_jiffies tbq \<and> users tbq' = users tbq"
  by (induction rs arbitrary: tbq) (auto simp: run_simps dest!: user_consume_effect)

text \<open>A packet falls under a limit: the buckets and the user's controls of the rules in its mask.\<close>

definition pays :: "packet \<Rightarrow> tcid \<Rightarrow> bool" where
  "pays p t = pays_rules p (mask_rules (p_mask p)) t"

definition bytes :: "tcid \<Rightarrow> packet list \<Rightarrow> int" where
  "bytes t ps = (\<Sum>p\<leftarrow>ps. if pays p t then int (unat (p_len p)) else 0)"

lemma bytes_simps [simp]: "bytes t [] = 0" "bytes t (p # ps) = (if pays p t then int (unat (p_len p)) else 0) + bytes t ps"
    "bytes t (ps @ qs) = bytes t ps + bytes t qs"
  by (simp_all add: bytes_def)

lemma consume_meter:
  assumes "tbq_packet_ctrl_consume HZ now p tbq = Ret (tbq', res)" "acct_ok HZ now r M (acct tbq t)" "0 < HZ"
    "unat (p_len p) \<le> M" "M < 2 ^ 27"
  shows "acct_ok HZ now r M (acct tbq' t) \<and> bytes t (if res = None then [p] else []) \<le> pot HZ now (acct tbq' t) - pot HZ now (acct tbq t)
    \<and> fpk tbq' = fpk tbq"
proof (cases res)
  case None
  with assms(1) have "consume_all HZ now p (mask_rules (p_mask p)) tbq = Ret tbq'"
    by (auto simp: tbq_packet_ctrl_consume_def Let_def run_simps split: if_splits)
  from consume_all_meter [OF this assms(2-5)] None show ?thesis by (simp add: pays_def)
next
  case (Some u)
  with assms(1) have "tbq' = tbq" by (auto simp: tbq_packet_ctrl_consume_def Let_def run_simps split: if_splits)
  with Some assms(2) show ?thesis by simp
qed

section \<open>Every operation pays\<close>

definition lens_ok :: "nat \<Rightarrow> tbq_global \<Rightarrow> bool" where
  "lens_ok M tbq \<longleftrightarrow> (\<forall>fb. \<forall>p \<in> set (fpk tbq fb). unat (p_len p) \<le> M)"

text \<open>From one state to the next the packets \<open>ps\<close> went through, and the limit \<open>t\<close> was charged for them.\<close>

definition metered :: "nat \<Rightarrow> nat \<Rightarrow> int \<Rightarrow> nat \<Rightarrow> tcid \<Rightarrow> tbq_global \<Rightarrow> packet list \<Rightarrow> tbq_global \<Rightarrow> bool" where
  "metered HZ now r M t tbq ps tbq' \<longleftrightarrow>
     (acct_ok HZ now r M (acct tbq t) \<and> lens_ok M tbq \<longrightarrow>
      acct_ok HZ now r M (acct tbq' t) \<and> lens_ok M tbq' \<and> bytes t ps \<le> pot HZ now (acct tbq' t) - pot HZ now (acct tbq t))"

definition dq_metered :: "nat \<Rightarrow> nat \<Rightarrow> int \<Rightarrow> nat \<Rightarrow> tcid \<Rightarrow> tbq_global \<Rightarrow> dequeue_info \<Rightarrow> tbq_global \<Rightarrow> dequeue_info \<Rightarrow> bool" where
  "dq_metered HZ now r M t tbq dq tbq' dq' \<longleftrightarrow> 
     tm_jiffies tbq' = tm_jiffies tbq \<and> users tbq' = users tbq \<and> (\<exists>ps. dq_send dq' = dq_send dq @ ps \<and> metered HZ now r M t tbq ps tbq')"

lemma metered_keeps: "keeps tbq tbq' \<Longrightarrow> metered HZ now r M t tbq [] tbq'"
  unfolding metered_def keeps_def lens_ok_def bytes_simps by (metis diff_self order_refl subsetD)

lemma metered_trans: "metered HZ now r M t a ps b \<Longrightarrow> metered HZ now r M t b qs c \<Longrightarrow> metered HZ now r M t a (ps @ qs) c"
  unfolding metered_def by auto

lemma dq_metered_trans:
  "dq_metered HZ now r M t a da b db \<Longrightarrow> dq_metered HZ now r M t b db c dc \<Longrightarrow> dq_metered HZ now r M t a da c dc"
  unfolding dq_metered_def by (metis append_assoc metered_trans)

lemma dq_metered_keeps: "keeps tbq tbq' \<Longrightarrow> dq_send dq' = dq_send dq \<Longrightarrow> dq_metered HZ now r M t tbq dq tbq' dq'"
  unfolding dq_metered_def by (metis append_Nil2 metered_keeps keeps_def)

lemma metered_frame:
  "metered HZ now r M t a ps b \<Longrightarrow> keeps b c \<Longrightarrow> metered HZ now r M t a ps c"
  using metered_trans [OF _ metered_keeps] by fastforce

lemma consume_fpk: "tbq_packet_ctrl_consume HZ now p tbq = Ret (tbq', res)
    \<Longrightarrow> fpk tbq' = fpk tbq \<and> tm_jiffies tbq' = tm_jiffies tbq \<and> users tbq' = users tbq"
  by (auto simp: tbq_packet_ctrl_consume_def Let_def run_simps split: if_splits dest: consume_all_fpk)

lemma consume_metered:
  assumes "tbq_packet_ctrl_consume HZ now p tbq = Ret (tbq', res)" "0 < HZ" "unat (p_len p) \<le> M" "M < 2 ^ 27"
  shows "metered HZ now r M t tbq (if res = None then [p] else []) tbq'"
  unfolding metered_def using consume_meter [OF assms(1) _ assms(2-4), of r t] consume_fpk [OF assms(1)] by (auto simp: lens_ok_def)

lemma drop_metered:
  "tbq_flow_backlog_drop fb tbq dq = Ret (tbq', dq') \<Longrightarrow> keeps tbq tbq' \<and> dq_send dq' = dq_send dq"
  by (auto simp: tbq_flow_backlog_drop_def run_simps dest!: keeps_drop_loop)

lemma try_dequeue_metered:
  assumes op: "tbq_flow_backlog_try_dequeue HZ now fb tbq dq = Ret (tbq', dq')" and HZ: "0 < HZ" and M: "M < 2 ^ 27"
  shows "dq_metered HZ now r M t tbq dq tbq' dq'"
proof -
  from op obtain a da e where a: "tbq_flow_backlog_drop fb tbq dq = Ret (a, da)" "tbq_flow_backlog_empty fb a = Ret e"
    by (auto simp: tbq_flow_backlog_try_dequeue_def run_simps)
  have k: "keeps tbq a" "dq_send da = dq_send dq" using drop_metered [OF a(1)] by auto
  show ?thesis
  proof (cases e)
    case True
    with op a have "tbq' = a" "dq' = da" by (auto simp: tbq_flow_backlog_try_dequeue_def run_simps)
    with k show ?thesis by (simp add: dq_metered_keeps)
  next
    case False
    let ?p = "hd (fpk a fb)"
    from False op a obtain b res where b: "tbq_packet_ctrl_consume HZ now ?p a = Ret (b, res)"
      by (auto simp: tbq_flow_backlog_try_dequeue_def run_simps Let_def)
    have ne: "fpk a fb \<noteq> []" using a(2) False by (auto simp: tbq_flow_backlog_empty_def run_simps split: if_splits)
    with k(1) have len: "lens_ok M tbq \<Longrightarrow> unat (p_len ?p) \<le> M" unfolding keeps_def lens_ok_def by (meson hd_in_set subsetD)
    have m: "metered HZ now r M t tbq (if res = None then [?p] else []) b"
      using metered_trans [OF metered_keeps [OF k(1)] consume_metered [OF b HZ len M]]
      by (cases "lens_ok M tbq") (simp_all add: metered_def [of _ _ _ _ _ tbq])
    have tm: "tm_jiffies b = tm_jiffies tbq" "users b = users tbq" using consume_fpk [OF b] k(1) by (simp_all add: keeps_def)
    show ?thesis
    proof (cases res)
      case (Some pu)
      with False op a b obtain c where c: "tbq_flow_backlog_detach fb b = Ret c" "tbq_flow_backlog_attach fb pu c = Ret tbq'" "dq' = da"
        by (auto simp: tbq_flow_backlog_try_dequeue_def run_simps Let_def)
      have kc: "keeps b tbq'" using keeps_detach [OF c(1)] keeps_attach [OF c(2)] by (rule keeps_trans)
      from metered_frame [OF m kc] Some c(3) k(2) tm kc show ?thesis by (simp add: dq_metered_def keeps_def)
    next
      case None
      with False op a b obtain c d where c: "tbq_flow_backlog_drr_schedule fb (unat (p_len ?p)) b = Ret c"
        "tbq_flow_backlog_dequeue fb (p_len ?p) (tl (fpk c fb)) c = Ret d"
        "tbq_packet_ctrl_backlog_update ?p (- sint (p_len ?p)) (if octets (fbl d fb) = 0 then Some (fst fb) else None) d = Ret tbq'"
        "dq' = da\<lparr>dq_send := dq_send da @ [?p]\<rparr>"
        by (auto simp: tbq_flow_backlog_try_dequeue_def run_simps Let_def)
      have "set (tl (fpk c fb)) \<subseteq> set (fpk c fb)" by (cases "fpk c fb") auto
      then have "keeps c d" using keeps_dequeue [OF c(2)] by simp
      then have kc: "keeps b tbq'" using keeps_trans keeps_drr [OF c(1)] keeps_packet_update [OF c(3)] by blast
      from metered_frame [OF m kc] None c(4) k(2) tm kc show ?thesis by (simp add: dq_metered_def keeps_def)
    qed
  qed
qed

text \<open>One turn of each loop.\<close>

lemma user_dequeue_turn:
  assumes "tbq_user_dequeue HZ now (Suc fuel) u tbq dq = Ret (tbq', dq')"
  obtains (stop) "tbq' = tbq" "dq' = dq" | (attach) "tbq' = user_backlog_attach u tbq" "dq' = dq"
  | (turn) a da where "tbq_flow_backlog_try_dequeue HZ now (hd (units (utc tbq u))) tbq dq = Ret (a, da)"
        "tbq_user_dequeue HZ now fuel u a da = Ret (tbq', dq')"
  using assms by (auto simp: run_simps split: if_splits)

lemma bucket_dequeue_turn:
  assumes op: "tbq_bucket_dequeue HZ now (Suc fuel) b tbq dq = Ret (tbq', dq')"
  obtains (stop) "tbq' = tbq" "dq' = dq"
  | (detach) u where "tbq_bucket_dequeue HZ now fuel b (user_backlog_detach u tbq) dq = Ret (tbq', dq')"
  | (turn) fb a da where "tbq_flow_backlog_try_dequeue HZ now fb tbq dq = Ret (a, da)"
        "tbq_bucket_dequeue HZ now fuel b a da = Ret (tbq', dq')"
proof (cases "in_timer (btc tbq b) \<or> units (btc tbq b) = []")
  case True
  then show ?thesis using op stop by simp
next
  case False
  let ?u = "hd (units (btc tbq b))"
  show ?thesis
  proof (cases "in_timer (utc tbq ?u)")
    case True
    with False op show ?thesis by (auto simp: run_simps Let_def intro!: detach)
  next
    case idle: False
    with False op show ?thesis by (cases "units (utc tbq ?u)") (auto simp: run_simps Let_def intro!: turn)
  qed
qed

lemma user_dequeue_metered:
  assumes HZ: "0 < HZ" and M: "M < 2 ^ 27"
  shows "tbq_user_dequeue HZ now fuel u tbq dq = Ret (tbq', dq') \<Longrightarrow> dq_metered HZ now r M t tbq dq tbq' dq'"
proof (induction fuel arbitrary: tbq dq)
  case (Suc fuel)
  from Suc.prems show ?case
  proof (cases rule: user_dequeue_turn)
    case turn
    from try_dequeue_metered [OF turn(1) HZ M] Suc.IH [OF turn(2)] show ?thesis by (rule dq_metered_trans)
  qed (auto intro: dq_metered_keeps keeps_user_attach)
qed simp

lemma bucket_dequeue_metered:
  assumes HZ: "0 < HZ" and M: "M < 2 ^ 27"
  shows "tbq_bucket_dequeue HZ now fuel b tbq dq = Ret (tbq', dq') \<Longrightarrow> dq_metered HZ now r M t tbq dq tbq' dq'"
proof (induction fuel arbitrary: tbq dq)
  case (Suc fuel)
  from Suc.prems show ?case
  proof (cases rule: bucket_dequeue_turn)
    case turn
    from try_dequeue_metered [OF turn(1) HZ M] Suc.IH [OF turn(2)] show ?thesis by (rule dq_metered_trans)
  next
    case detach
    from dq_metered_keeps [OF keeps_user_detach refl] Suc.IH [OF detach] show ?thesis by (rule dq_metered_trans)
  qed (auto intro: dq_metered_keeps)
qed simp

lemma timer_del_effect:
  assumes "tbq_timer_del t tbq = Ret tbq'"
  shows "fpk tbq' = fpk tbq \<and> tm_jiffies tbq' = tm_jiffies tbq \<and> users tbq' = users tbq \<and> acct tbq' t' = (let (ts, J, r, tm) = acct tbq t' in (ts, J, r, tm \<and> t' \<noteq> t))"
proof -
  from assms have "tbq' = set_timer_flag t False tbq\<lparr>vec := (\<lambda>i. remove1 t (vec tbq i)), nr_pending := nr_pending tbq - 1\<rparr>"
    by (auto simp: tbq_timer_del_def run_simps split: if_splits)
  then show ?thesis
    by (cases t; cases t') (auto simp: set_timer_flag_def acct_def tc_acct_def)
qed

text \<open>A control is taken out of the timer when its time has come.\<close>

lemma timer_del_metered:
  assumes "tbq_timer_del t' tbq = Ret tbq'" "the_tc_jiffies tbq t' \<le> now"
  shows "metered HZ now r M t tbq [] tbq'"
proof -
  obtain ts J r' tm where a: "acct tbq t = (ts, J, r', tm)" by (cases "acct tbq t")
  have "t = t' \<Longrightarrow> J \<le> now" using assms(2) a by (auto simp: the_tc_jiffies_def acct_def tc_acct_def split: tcid.splits)
  then show ?thesis using timer_del_effect [OF assms(1), of t] a unfolding metered_def lens_ok_def by (auto simp: Let_def)
qed

lemma activate_metered:
  assumes op: "tbq_token_ctrl_activate HZ now fuel t' tbq dq = Ret (tbq', dq')" and due: "the_tc_jiffies tbq t' \<le> now"
    and HZ: "0 < HZ" and M: "M < 2 ^ 27"
  shows "dq_metered HZ now r M t tbq dq tbq' dq'"
proof -
  from op obtain a where a: "tbq_timer_del t' tbq = Ret a" by (auto simp: tbq_token_ctrl_activate_def run_simps)
  have m: "dq_metered HZ now r M t tbq dq a dq" using timer_del_metered [OF a due] timer_del_effect [OF a] by (simp add: dq_metered_def)
  have "dq_metered HZ now r M t a dq tbq' dq'"
  proof (cases t')
    case (UTc u)
    obtain v d i where u: "u = (v, d, i)" by (cases u)
    define b where "b = a\<lparr>uinact := (uinact a)((v, d) := unset_bit i (uinact a (v, d)))\<rparr>"
    have k: "keeps a b" unfolding b_def by (auto simp: keeps_def intro: acct_cong)
    have b: "(tbq', dq') = (b, dq) \<or> tbq_user_dequeue HZ now fuel u b dq = Ret (tbq', dq')"
      using op a UTc u by (auto simp: tbq_token_ctrl_activate_def Let_def run_bind_assertion b_def split: if_splits)
    from b show ?thesis
    proof
      assume "tbq_user_dequeue HZ now fuel u b dq = Ret (tbq', dq')"
      from dq_metered_trans [OF dq_metered_keeps [OF k refl] user_dequeue_metered [OF HZ M this]] show ?thesis .
    qed (use k in \<open>simp add: dq_metered_keeps\<close>)
  next
    case (BTc u)
    obtain d i where u: "u = (d, i)" by (cases u)
    define b where "b = a\<lparr>binact := (binact a)(d := unset_bit i (binact a d))\<rparr>"
    have k: "keeps a b" unfolding b_def by (auto simp: keeps_def intro: acct_cong)
    have "tbq_bucket_dequeue HZ now fuel u b dq = Ret (tbq', dq')"
      using op a BTc u by (auto simp: tbq_token_ctrl_activate_def Let_def run_bind_assertion b_def split: if_splits)
    from dq_metered_trans [OF dq_metered_keeps [OF k refl] bucket_dequeue_metered [OF HZ M this]] show ?thesis .
  qed
  with m show ?thesis by (rule dq_metered_trans)
qed

lemma feed_entries_metered:
  assumes HZ: "0 < HZ" and M: "M < 2 ^ 27" and vj: "vj \<le> now"
  shows "feed_entries HZ now fuel i vj delayed ts tbq dq = Ret (tbq', dq') \<Longrightarrow> dq_metered HZ now r M t tbq dq tbq' dq'"
proof (induction ts arbitrary: tbq dq delayed)
  case Nil
  then show ?case by (simp add: dq_metered_keeps)
next
  case (Cons t' ts)
  show ?case
  proof (cases "the_tc_jiffies tbq t' = vj")
    case True
    from True Cons.prems obtain a b db where a: "a = tbq \<or> a = tbq\<lparr>stale := (stale tbq)(i := True)\<rparr>"
      and b: "tbq_token_ctrl_activate HZ now fuel t' a dq = Ret (b, db)" "feed_entries HZ now fuel i vj delayed ts b db = Ret (tbq', dq')"
      by (auto simp: run_simps split: option.splits if_splits)
    have k: "keeps tbq a" using a by (auto simp: keeps_def intro: acct_cong)
    have due: "the_tc_jiffies a t' \<le> now" using a True vj by (auto simp: the_tc_jiffies_def split: tcid.splits)
    show ?thesis
      using dq_metered_trans [OF dq_metered_keeps [OF k refl] dq_metered_trans [OF activate_metered [OF b(1) due HZ M] Cons.IH [OF b(2)]]] .
  next
    case False
    have "keeps tbq (vec_add_tail i t' tbq)" by (auto simp: keeps_def vec_add_tail_def intro: acct_cong)
    from dq_metered_trans [OF dq_metered_keeps [OF this refl] Cons.IH] False Cons.prems show ?thesis by simp
  qed
qed

lemma feed_slots_metered:
  assumes HZ: "0 < HZ" and M: "M < 2 ^ 27"
  shows "feed_slots HZ now fuel k tbq dq = Ret (tbq', dq') \<Longrightarrow> tm_jiffies tbq + k \<le> now + 1
    \<Longrightarrow> users tbq' = users tbq \<and> (\<exists>ps. dq_send dq' = dq_send dq @ ps \<and> metered HZ now r M t tbq ps tbq')"
proof (induction k arbitrary: tbq dq)
  case 0
  then show ?case by (auto intro: metered_keeps)
next
  case (Suc k)
  let ?vj = "tm_jiffies tbq" let ?i = "?vj mod TBQ_TIMER_VEC"
  let ?a = "tbq\<lparr>tm_jiffies := ?vj + 1, vec := (vec tbq)(?i := []), stale := (stale tbq)(?i := False)\<rparr>"
  from Suc.prems(1) obtain b db where b: "feed_entries HZ now fuel ?i ?vj None (vec tbq ?i) ?a dq = Ret (b, db)"
    "feed_slots HZ now fuel k b db = Ret (tbq', dq')"
    by (auto simp: Let_def run_simps)
  have "dq_metered HZ now r M t ?a dq b db" using feed_entries_metered [OF HZ M _ b(1)] Suc.prems(2) by simp
  then obtain ps where m: "tm_jiffies b = ?vj + 1" "users b = users tbq" "dq_send db = dq_send dq @ ps" "metered HZ now r M t ?a ps b" by (auto simp: dq_metered_def)
  with Suc.IH [OF b(2)] Suc.prems(2) obtain qs where q: "users tbq' = users b" "dq_send dq' = dq_send db @ qs" "metered HZ now r M t b qs tbq'" by auto
  have "acct ?a = acct tbq" "lens_ok M ?a = lens_ok M tbq" by (auto intro: acct_cong simp: lens_ok_def)
  with m(4) have "metered HZ now r M t tbq ps b" by (simp add: metered_def)
  with q m(2,3) show ?case by (auto intro: metered_trans)
qed

section \<open>Executions\<close>

text \<open>
  What happens between two reconfigurations: packets at the hook, packets handed to the queue,
  timer runs (with the fuel of the dequeue loops), and the end of flows and users.
\<close>

datatype tbq_event = Hook nat bool hook_packet | Enqueue nat packet | Tick nat nat | FlowFree nat nat | UserFree nat nat

fun ev_time :: "tbq_event \<Rightarrow> nat" where
  "ev_time (Hook now ok h) = now"
| "ev_time (Enqueue now p) = now"
| "ev_time (Tick now fuel) = now"
| "ev_time (FlowFree now f) = now"
| "ev_time (UserFree now u) = now"

text \<open>
  The packets that are let through under a rule while the shaper runs: accepted by the hook, handed
  back by the queue handler, or sent by the timer.
\<close>

fun tbq_step :: "nat \<Rightarrow> tbq_event \<Rightarrow> tbq_global \<Rightarrow> (tbq_global \<times> packet list) run" where
  "tbq_step HZ (Hook now ok h) tbq =
     run_bind (tbq_nf_hook HZ now ok h tbq) (\<lambda>(tbq, v, p).
       Ret (tbq, case p of None \<Rightarrow> [] | Some p \<Rightarrow> if v = NF_ACCEPT then [p] else []))"
| "tbq_step HZ (Enqueue now p) tbq =
     run_bind (tbq_enqueue HZ now p tbq) (\<lambda>(tbq', res).
       Ret (tbq', if res = EnqCanceled \<and> status tbq = TBQ_STATUS_RUNNING then [p] else []))"
| "tbq_step HZ (Tick now fuel) tbq =
     run_bind (tbq_timer_func HZ now fuel tbq) (\<lambda>(tbq, dq, _). Ret (tbq, dq_send dq))"
| "tbq_step HZ (FlowFree now f) tbq = run_bind (tbq_on_flow_free f tbq) (\<lambda>tbq. Ret (tbq, []))"
| "tbq_step HZ (UserFree now u) tbq = run_bind (tbq_on_user_free u tbq) (\<lambda>tbq. Ret (tbq, []))"

fun run_steps :: "('e \<Rightarrow> 's \<Rightarrow> ('s \<times> 'o list) run) \<Rightarrow> 'e list \<Rightarrow> 's \<Rightarrow> ('s \<times> 'o list) run" where
  "run_steps step [] s = Ret (s, [])"
| "run_steps step (e # es) s =
     run_bind (step e s) (\<lambda>(s, os). run_bind (run_steps step es s) (\<lambda>(s, os'). Ret (s, os @ os')))"

text \<open>
  Steps with a clock, whose outputs cost what a potential of the state gains.
\<close>

locale rate_account =
  fixes step :: "'e \<Rightarrow> 's \<Rightarrow> ('s \<times> 'o list) run"
    and time :: "'e \<Rightarrow> nat"
    and allowed :: "'e \<Rightarrow> bool"
    and inv :: "nat \<Rightarrow> 's \<Rightarrow> bool"
    and cost :: "'o list \<Rightarrow> int"
    and potential :: "nat \<Rightarrow> 's \<Rightarrow> int"
  assumes cost_Nil: "cost [] = 0"
    and cost_append: "cost (xs @ ys) = cost xs + cost ys"
    and later: "inv n s \<Longrightarrow> n \<le> m \<Longrightarrow> inv m s \<and> potential n s \<le> potential m s"
    and gain: "allowed e \<Longrightarrow> inv (time e) s \<Longrightarrow> step e s = Ret (s', os)
      \<Longrightarrow> inv (time e) s' \<and> cost os \<le> potential (time e) s' - potential (time e) s"
begin

lemma total_cost:
  "run_steps step es s = Ret (s', os) \<Longrightarrow> list_all allowed es \<Longrightarrow> sorted (n # map time es @ [m]) \<Longrightarrow> inv n s
    \<Longrightarrow> inv m s' \<and> cost os \<le> potential m s' - potential n s"
proof (induction es arbitrary: n s os)
  case Nil
  then show ?case using later [of n s m] by (simp add: cost_Nil)
next
  case (Cons e es)
  from Cons.prems(1) obtain s1 o1 o2 where r: "step e s = Ret (s1, o1)" "run_steps step es s1 = Ret (s', o2)" "os = o1 @ o2"
    by (auto simp: run_simps)
  have n: "n \<le> time e" and srt: "sorted (time e # map time es @ [m])" using Cons.prems(3) by (simp_all only: list.map append_Cons sorted2)
  note l = later [OF Cons.prems(4) n]
  have g: "inv (time e) s1 \<and> cost o1 \<le> potential (time e) s1 - potential (time e) s"
    using gain [OF _ _ r(1)] l Cons.prems(2) by simp
  with Cons.IH [OF r(2) _ srt] Cons.prems(2) have "inv m s' \<and> cost o2 \<le> potential m s' - potential (time e) s1" by simp
  with g l show ?case by (simp add: r(3) cost_append)
qed

end

section \<open>Every event pays\<close>

definition tracked :: "tcid \<Rightarrow> tbq_global \<Rightarrow> bool" where
  "tracked t tbq = (case t of BTc b \<Rightarrow> True | UTc u \<Rightarrow> fst u \<in> set (users tbq))"

definition lim_inv :: "nat \<Rightarrow> int \<Rightarrow> nat \<Rightarrow> tcid \<Rightarrow> nat \<Rightarrow> tbq_global \<Rightarrow> bool" where
  "lim_inv HZ r M t now tbq \<longleftrightarrow> 0 < HZ \<and> M < 2 ^ 27 \<and> acct_ok HZ now r M (acct tbq t) \<and> lens_ok M tbq \<and> tracked t tbq"

text \<open>Packets of at most \<open>M\<close> bytes, and the user of the limit stays.\<close>

fun ev_ok :: "nat \<Rightarrow> tcid \<Rightarrow> tbq_event \<Rightarrow> bool" where
  "ev_ok M t (Hook now ok h) \<longleftrightarrow> (case h_skb h of None \<Rightarrow> True | Some skb \<Rightarrow> unat (s_len skb) \<le> M)"
| "ev_ok M t (Enqueue now p) \<longleftrightarrow> unat (p_len p) \<le> M"
| "ev_ok M t (UserFree now u) \<longleftrightarrow> (case t of BTc b \<Rightarrow> True | UTc v \<Rightarrow> u \<noteq> fst v)"
| "ev_ok M t e \<longleftrightarrow> True"

lemma lim_inv_step:
  assumes "lim_inv HZ r M t now tbq" "metered HZ now r M t tbq ps tbq'" "set (users tbq) \<subseteq> set (users tbq')"
  shows "lim_inv HZ r M t now tbq' \<and> bytes t ps \<le> pot HZ now (acct tbq' t) - pot HZ now (acct tbq t)"
  using assms by (auto simp: lim_inv_def metered_def tracked_def split: tcid.splits)

lemma acct_user_inits: "user_inits now uid dir wt rs tbq = Ret tbq' \<Longrightarrow> (case t of BTc b \<Rightarrow> True | UTc v \<Rightarrow> fst v \<noteq> uid)
    \<Longrightarrow> acct tbq' t = acct tbq t \<and> fpk tbq' = fpk tbq \<and> users tbq' = users tbq"
  by (induction rs arbitrary: tbq)
    (fastforce simp: tbq_user_init_def run_simps upd_ubl_def upd_utc_def acct_def split: tcid.splits)+

lemma alloc_effect:
  assumes "tbq_user_track_alloc now uid ip tbq = Ret tbq'" "case t of BTc b \<Rightarrow> True | UTc v \<Rightarrow> fst v \<noteq> uid"
  shows "acct tbq' t = acct tbq t \<and> fpk tbq' = fpk tbq \<and> users tbq' = users tbq @ [uid]"
  using assms by (auto simp: tbq_user_track_alloc_def tbq_user_sched_init_def Let_def run_simps acct_def
      dest!: acct_user_inits [where t = t] split: tcid.splits)

lemma flow_track_keeps: "keeps tbq (flow_track skb tbq)"
  by (auto simp: keeps_def flow_track_def tbq_flow_track_init_def Let_def split: prod.splits intro!: acct_cong)

lemma filter_verdict_metered:
  assumes "filter_verdict HZ now p tbq = Ret (tbq', v)" "0 < HZ" "unat (p_len p) \<le> M" "M < 2 ^ 27"
  shows "metered HZ now r M t tbq (if v = NF_ACCEPT then [p] else []) tbq' \<and> users tbq' = users tbq"
proof -
  from assms(1) obtain e where e: "tbq_flow_backlog_empty (p_flow p, p_dir p) tbq = Ret e" by (auto simp: filter_verdict_def run_simps)
  show ?thesis
  proof (cases e)
    case True
    with e assms(1) obtain res where c: "tbq_packet_ctrl_consume HZ now p tbq = Ret (tbq', res)" and v: "v = NF_ACCEPT \<longleftrightarrow> res = None"
      by (auto simp: filter_verdict_def run_simps split: if_splits)
    show ?thesis using consume_metered [OF c assms(2-4)] consume_fpk [OF c] v by simp
  next
    case False
    with e assms(1) have "tbq' = tbq" "v \<noteq> NF_ACCEPT" by (auto simp: filter_verdict_def split: if_splits)
    then show ?thesis using metered_keeps [OF keeps_refl] by auto
  qed
qed

lemma alloc_metered:
  assumes "tbq_user_track_alloc now uid ip tbq = Ret tbq'" "tracked t tbq" "uid \<notin> set (users tbq)"
  shows "metered HZ now r M t tbq [] tbq' \<and> set (users tbq) \<subseteq> set (users tbq')"
proof -
  have "case t of BTc b \<Rightarrow> True | UTc v \<Rightarrow> fst v \<noteq> uid" using assms(2,3) by (auto simp: tracked_def split: tcid.splits)
  from alloc_effect [OF assms(1) this] show ?thesis by (auto simp: metered_def lens_ok_def)
qed

lemma filter_metered:
  assumes f: "tbq_filter_packet HZ now ok skb dir tbq = Ret (tbq', v, po)" and len: "unat (s_len skb) \<le> M"
    and inv: "0 < HZ" "M < 2 ^ 27" "tracked t tbq"
  shows "metered HZ now r M t tbq (case po of None \<Rightarrow> [] | Some p \<Rightarrow> if v = NF_ACCEPT then [p] else []) tbq'
    \<and> set (users tbq) \<subseteq> set (users tbq')"
proof (cases "s_user skb \<notin> set (users tbq) \<and> \<not> ok")
  case True
  with f show ?thesis using metered_keeps [OF keeps_refl] by (auto simp: tbq_filter_packet_def)
next
  case False
  with f obtain a where a: "(if s_user skb \<in> set (users tbq) then Ret tbq else tbq_user_track_alloc now (s_user skb) (s_ip skb) tbq) = Ret a"
    by (auto simp: tbq_filter_packet_def run_simps)
  have ma: "metered HZ now r M t tbq [] a" "set (users tbq) \<subseteq> set (users a)"
    using a alloc_metered [OF _ inv(3)] metered_keeps [OF keeps_refl] by (auto split: if_splits)
  define b where "b = flow_track skb a"
  have k: "keeps a b" unfolding b_def by (rule flow_track_keeps)
  have mb: "metered HZ now r M t tbq [] b" using metered_frame [OF ma(1) k] .
  have ub: "set (users tbq) \<subseteq> set (users b)" using ma(2) k by (simp add: keeps_def)
  show ?thesis
  proof (cases "f_mask b (s_flow skb) = 0")
    case True
    with f False a have "tbq' = b" "po = None" by (auto simp: tbq_filter_packet_def b_def split: if_splits)
    with mb ub show ?thesis by simp
  next
    case nz: False
    let ?p = "packet_ctrl skb dir b"
    from nz f False a have p: "filter_verdict HZ now ?p b = Ret (tbq', v)" "po = Some ?p"
      by (auto simp: tbq_filter_packet_def b_def [symmetric] Let_def run_simps split: if_splits)
    have "unat (p_len ?p) \<le> M" using len by (simp add: packet_ctrl_def)
    from filter_verdict_metered [OF p(1) inv(1) this inv(2)] metered_trans [OF mb] ub p(2) show ?thesis by fastforce
  qed
qed

lemma enqueue_tail_metered:
  assumes "enqueue_tail fb p fa tbq = Ret (tbq', res)" "unat (p_len p) \<le> M"
  shows "metered HZ now r M t tbq [] tbq' \<and> users tbq' = users tbq \<and> res = EnqQueued"
proof -
  from assms(1) obtain a b where s: "tbq_flow_backlog_enqueue fb p tbq = Ret a"
    "tbq_packet_ctrl_backlog_update p (sint (p_len p)) (if fa then Some (fst fb) else None) a = Ret b"
    "tbq' = b\<lparr>backlog_packets := backlog_packets b + 1\<rparr>" "res = EnqQueued"
    by (auto simp: enqueue_tail_def run_simps)
  from s(1) obtain u where a: "a = (upd_fbl fb (tbq_backlog_enqueue (p_len p)) (upd_ubl u (tbq_backlog_enqueue (p_len p)) tbq))
            \<lparr>fpk := (fpk tbq)(fb := fpk tbq fb @ [p])\<rparr>" by (auto simp: tbq_flow_backlog_enqueue_def split: option.splits)
  have "acct a = acct tbq" unfolding a by (rule acct_cong) (simp_all add: tbq_upds)
  moreover have "lens_ok M tbq \<Longrightarrow> lens_ok M a" using assms(2) by (auto simp: a lens_ok_def)
  ultimately have ma: "metered HZ now r M t tbq [] a" "users a = users tbq" by (auto simp: metered_def) (simp add: a tbq_upds)
  have kb: "keeps a tbq'" using keeps_packet_update [OF s(2)] unfolding s(3) by (rule keeps_count)
  from metered_frame [OF ma(1) kb] kb ma(2) s(4) show ?thesis by (simp add: keeps_def)
qed

lemma enqueue_metered:
  assumes op: "tbq_enqueue HZ now p tbq = Ret (tbq', res)" and len: "unat (p_len p) \<le> M" and b: "0 < HZ" "M < 2 ^ 27"
  shows "metered HZ now r M t tbq (if res = EnqCanceled \<and> status tbq = TBQ_STATUS_RUNNING then [p] else []) tbq' \<and> users tbq' = users tbq"
proof (cases "status tbq = TBQ_STATUS_RUNNING")
  case False
  with op show ?thesis using metered_keeps [OF keeps_refl] by (auto simp: tbq_enqueue_def)
next
  case run: True
  let ?fb = "(p_flow p, p_dir p)"
  from op run obtain e where e: "tbq_flow_backlog_empty ?fb tbq = Ret e" by (auto simp: tbq_enqueue_def Let_def run_simps)
  show ?thesis
  proof (cases e)
    case True
    with op run e obtain a r' where a: "tbq_packet_ctrl_consume HZ now p tbq = Ret (a, r')"
      by (auto simp: tbq_enqueue_def Let_def run_simps)
    note m = consume_metered [OF a b(1) len b(2), of r t] and fa = consume_fpk [OF a]
    show ?thesis
    proof (cases r')
      case None
      with op run e True a m fa show ?thesis by (auto simp: tbq_enqueue_def Let_def)
    next
      case (Some u)
      with op run e True a obtain c where c: "tbq_flow_backlog_attach ?fb u a = Ret c" "enqueue_tail ?fb p True c = Ret (tbq', res)"
        by (auto simp: tbq_enqueue_def Let_def run_simps)
      note kc = keeps_attach [OF c(1)] and t = enqueue_tail_metered [OF c(2) len, of HZ now r t]
      from metered_trans [OF metered_frame [OF m kc]] t Some kc fa show ?thesis by (fastforce simp: keeps_def)
    qed
  next
    case False
    with op run e obtain a dq where a: "tbq_flow_backlog_drop ?fb tbq no_dq = Ret (a, dq)" by (auto simp: tbq_enqueue_def Let_def run_simps)
    have k: "keeps tbq a" using drop_metered [OF a] by simp
    show ?thesis
    proof (cases "dq_drop dq = []")
      case True
      with op run e False a have "enqueue_tail ?fb p False a = Ret (tbq', res)" by (auto simp: tbq_enqueue_def Let_def)
      from enqueue_tail_metered [OF this len, of HZ now r t] metered_trans [OF metered_keeps [OF k]] k show ?thesis
        by (fastforce simp: keeps_def)
    next
      case drop: False
      with op run e False a have r': "tbq' = a\<lparr>backlog_packets := backlog_packets a - word_of_nat (length (dq_drop dq))\<rparr>" "res \<noteq> EnqCanceled"
        by (auto simp: tbq_enqueue_def Let_def)
      have "keeps tbq tbq'" using k unfolding r'(1) by (rule keeps_count)
      with r'(2) metered_keeps show ?thesis by (auto simp: keeps_def)
    qed
  qed
qed

lemma tick_metered:
  assumes op: "tbq_timer_func HZ now fuel tbq = Ret (tbq', dq, c)" and b: "0 < HZ" "M < 2 ^ 27"
  shows "metered HZ now r M t tbq (dq_send dq) tbq' \<and> users tbq' = users tbq"
proof -
  from op obtain a where a: "tbq_timer_feed HZ now fuel tbq no_dq = Ret (a, dq)"
    "tbq' = a\<lparr>backlog_packets := backlog_packets a - word_of_nat (length (dq_send dq) + length (dq_drop dq))\<rparr>"
    by (auto simp: tbq_timer_func_def Let_def run_simps split: if_splits)
  have k: "keeps a tbq'" unfolding a(2) by (rule keeps_count) simp
  have "users a = users tbq \<and> metered HZ now r M t tbq (dq_send dq) a"
  proof (cases "tm_jiffies tbq \<le> now")
    case True
    with feed_slots_metered [OF b a(1) [unfolded tbq_timer_feed_def]] show ?thesis by (auto simp: no_dq_def)
  next
    case False
    with a(1) show ?thesis using metered_keeps [OF keeps_refl] by (auto simp: tbq_timer_feed_def no_dq_def)
  qed
  with metered_frame k show ?thesis by (auto simp: keeps_def)
qed

lemma timer_dels_effect:
  "timer_dels ts tbq = Ret tbq' \<Longrightarrow> t \<notin> set ts \<Longrightarrow> acct tbq' t = acct tbq t \<and> fpk tbq' = fpk tbq \<and> users tbq' = users tbq"
proof (induction ts arbitrary: tbq)
  case (Cons t' ts)
  then obtain a where a: "tbq_timer_del t' tbq = Ret a" "timer_dels ts a = Ret tbq'" by (auto simp: run_simps)
  with Cons timer_del_effect [OF a(1), of t] show ?case by (cases "acct tbq t") (auto simp: Let_def)
qed simp

lemma user_free_metered:
  assumes op: "tbq_on_user_free uid tbq = Ret tbq'" and t: "case t of BTc b \<Rightarrow> True | UTc v \<Rightarrow> uid \<noteq> fst v" and tr: "tracked t tbq"
  shows "metered HZ now r M t tbq [] tbq' \<and> tracked t tbq'"
proof -
  have sched: "acct b t = acct a t \<and> fpk b = fpk a \<and> users b = users a" if "tbq_user_sched_cleanup uid dir m a = Ret b" for dir m a b
  proof -
    from that obtain c where c: "timer_dels (map (\<lambda>i. UTc (uid, dir, i)) (mask_rules (uinact a (uid, dir)))) a = Ret c"
      "b = c\<lparr>uinact := (uinact c)((uid, dir) := 0)\<rparr>"
      by (auto simp: tbq_user_sched_cleanup_def Let_def run_simps)
    have "t \<notin> set (map (\<lambda>i. UTc (uid, dir, i)) (mask_rules (uinact a (uid, dir))))" using t by auto
    from timer_dels_effect [OF c(1) this] acct_cong [of b c] c(2) show ?thesis by simp
  qed
  have "acct tbq' t = acct tbq t \<and> fpk tbq' = fpk tbq \<and> users tbq' = (if uid \<in> set (users tbq) then remove1 uid (users tbq) else users tbq)"
  proof (cases "uid \<in> set (users tbq)")
    case True
    with op obtain a where "tbq_user_sched_cleanup uid 0 (u_mask tbq uid) (tbq\<lparr>users := remove1 uid (users tbq)\<rparr>) = Ret a"
      "tbq_user_sched_cleanup uid 1 (u_mask tbq uid) a = Ret tbq'"
      by (auto simp: tbq_on_user_free_def tbq_user_track_free_def Let_def run_simps)
    from sched [OF this(1)] sched [OF this(2)] True show ?thesis by (auto simp: acct_def split: tcid.splits)
  qed (use op in \<open>simp add: tbq_on_user_free_def\<close>)
  then show ?thesis using t tr by (auto simp: metered_def lens_ok_def tracked_def split: tcid.splits)
qed

lemma flow_free_keeps: "tbq_on_flow_free f tbq = Ret tbq' \<Longrightarrow> keeps tbq tbq'"
  using acct_cong [of tbq' tbq] by (auto simp: tbq_on_flow_free_def tbq_flow_track_cleanup_def run_simps keeps_def split: if_splits)

lemma tracked_mono: "tracked t tbq \<Longrightarrow> set (users tbq) \<subseteq> set (users tbq') \<Longrightarrow> tracked t tbq'"
  by (auto simp: tracked_def split: tcid.splits)

lemma step_metered:
  assumes inv: "lim_inv HZ r M t (ev_time e) tbq" and e: "ev_ok M t e" and op: "tbq_step HZ e tbq = Ret (tbq', ps)"
  shows "lim_inv HZ r M t (ev_time e) tbq' \<and> bytes t ps \<le> pot HZ (ev_time e) (acct tbq' t) - pot HZ (ev_time e) (acct tbq t)"
proof -
  have b: "0 < HZ" "M < 2 ^ 27" "tracked t tbq" using inv by (simp_all add: lim_inv_def)
  have "metered HZ (ev_time e) r M t tbq ps tbq' \<and> tracked t tbq'"
  proof (cases e)
    case (Hook now ok h)
    show ?thesis
    proof (cases "\<exists>skb dir. h_skb h = Some skb \<and> tbq_nf_hook HZ now ok h tbq = tbq_filter_packet HZ now ok skb dir tbq")
      case True
      then obtain skb dir where h: "h_skb h = Some skb" "tbq_nf_hook HZ now ok h tbq = tbq_filter_packet HZ now ok skb dir tbq" by blast
      with op Hook obtain v po where f: "tbq_filter_packet HZ now ok skb dir tbq = Ret (tbq', v, po)"
        "ps = (case po of None \<Rightarrow> [] | Some p \<Rightarrow> if v = NF_ACCEPT then [p] else [])" by (auto simp: run_simps)
      from filter_metered [OF f(1) _ b] e Hook h(1) f(2) tracked_mono [OF b(3)] show ?thesis by simp
    next
      case False
      then have "tbq_nf_hook HZ now ok h tbq = Ret (tbq, NF_ACCEPT, None)" by (auto simp: tbq_nf_hook_def split: option.splits)
      with op Hook b(3) show ?thesis using metered_keeps [OF keeps_refl] by auto
    qed
  next
    case (Enqueue now p)
    with op obtain res where "tbq_enqueue HZ now p tbq = Ret (tbq', res)"
      "ps = (if res = EnqCanceled \<and> status tbq = TBQ_STATUS_RUNNING then [p] else [])" by (auto simp: run_simps)
    with enqueue_metered [OF this(1) _ b(1,2)] e Enqueue b(3) show ?thesis by (auto simp: tracked_def split: tcid.splits)
  next
    case (Tick now fuel)
    with op obtain dq c where "tbq_timer_func HZ now fuel tbq = Ret (tbq', dq, c)" "ps = dq_send dq" by (auto simp: run_simps)
    with tick_metered [OF this(1) b(1,2)] Tick b(3) show ?thesis by (auto simp: tracked_def split: tcid.splits)
  next
    case (FlowFree now f)
    with op have "tbq_on_flow_free f tbq = Ret tbq'" "ps = []" by (auto simp: run_simps)
    with flow_free_keeps [OF this(1)] metered_keeps FlowFree b(3) show ?thesis by (auto simp: tracked_def keeps_def split: tcid.splits)
  next
    case (UserFree now u)
    with op have "tbq_on_user_free u tbq = Ret tbq'" "ps = []" by (auto simp: run_simps)
    with user_free_metered [OF this(1) _ b(3)] e UserFree show ?thesis by auto
  qed
  with inv show ?thesis by (auto simp: lim_inv_def metered_def)
qed

lemma pot_later: "acct_ok HZ n r M a \<Longrightarrow> n \<le> m \<Longrightarrow> pot HZ n a \<le> pot HZ m a"
  by (cases a) (auto simp: tc_clock_def intro!: mult_left_mono)

interpretation limits: rate_account "tbq_step HZ" ev_time "ev_ok M t" "lim_inv HZ r M t" "bytes t" "\<lambda>n tbq. pot HZ n (acct tbq t)"
  for HZ r M t
proof unfold_locales
  show "lim_inv HZ r M t m s \<and> pot HZ n (acct s t) \<le> pot HZ m (acct s t)" if "lim_inv HZ r M t n s" "n \<le> m" for n m s
    using that acct_ok_later pot_later unfolding lim_inv_def by blast
qed (use step_metered in auto)

section \<open>The limits hold\<close>

lemma pot_end:
  assumes "acct_ok HZ now r M a"
  shows "pot HZ now a \<le> r * (int now + 1) + int M"
proof -
  obtain ts J r' tm where a: "a = (ts, J, r', tm)" by (cases a)
  have k: "0 < r" "r' = r" "0 \<le> ts" "now < J \<longrightarrow> r * int (J - now) < int M + r" using assms unfolding a acct_ok.simps by blast+
  have "r * int (tc_clock HZ now J) \<le> r * (int now + 1) + int M"
  proof (cases "now < J")
    case True
    then have "r * int (tc_clock HZ now J) = r * int now + r * int (J - now)" by (simp add: tc_clock_def algebra_simps)
    with True k show ?thesis by (simp add: algebra_simps)
  next
    case False
    then have "r * int (tc_clock HZ now J) \<le> r * int now" using k(1) by (simp add: tc_clock_def)
    with k(1) show ?thesis by (simp only: distrib_left mult_1_right)
  qed
  with k(2,3) show ?thesis by (simp add: a)
qed

lemma pot_start:
  assumes "acct_ok HZ now r M a"
  shows "r * (int now - 2 * int HZ) \<le> pot HZ now a"
proof -
  obtain ts J r' tm where a: "a = (ts, J, r', tm)" by (cases a)
  have k: "0 < r" "r' = r" "ts \<le> r * int HZ" using assms unfolding a acct_ok.simps by blast+
  have "r * (int now - int HZ) \<le> r * int (tc_clock HZ now J)" using k(1) by (intro mult_left_mono) (auto simp: tc_clock_def)
  with k show ?thesis by (simp add: a algebra_simps)
qed

text \<open>A limit as \<open>tbq_token_ctrl_init\<close> leaves it: no tokens, its clock at \<open>t0\<close>.\<close>

definition fresh_limit :: "nat \<Rightarrow> int \<Rightarrow> nat \<Rightarrow> tcid \<Rightarrow> tbq_global \<Rightarrow> bool" where
  "fresh_limit HZ r t0 t tbq \<longleftrightarrow> acct tbq t = (0, t0, r, False) \<and> 0 < r \<and> r * int HZ \<le> 2000000000 \<and> tracked t tbq"

text \<open>A shaper with one rule, 10 bytes a tick for all and 5 for each user, and three events.\<close>

definition demo_limit :: tbq_token_rule where "demo_limit = \<lparr>tr_global = 10, tr_user = 5\<rparr>"

definition demo_shaper :: tbq_global where
  "demo_shaper = (case tbq_bucket_sched_init 0 [zero_rule\<lparr>up_rule := demo_limit, down_rule := demo_limit\<rparr>] 0
      ((tbq_global_init 0)\<lparr>config := empty_config\<lparr>c_rules := [zero_rule\<lparr>up_rule := demo_limit, down_rule := demo_limit\<rparr>],
        max_backlog_packets := 10, latency_shift := 7, lan := \<lparr>if_cur = 1, ifname = ''br0''\<rparr>, wan := \<lparr>if_cur = 1, ifname = ''eth0''\<rparr>\<rparr>\<rparr>) of
     Ret tbq \<Rightarrow> tbq | Fault e \<Rightarrow> tbq_global_init 0)"

definition demo_skb :: "u32 \<Rightarrow> hook_packet" where
  "demo_skb n = \<lparr>h_skb = Some \<lparr>s_flow = 1, s_user = 2, s_ip = 3, s_proto = 6, s_len = n\<rparr>, h_proto = 6, h_in = ''br0'', h_out = ''eth0''\<rparr>"

definition demo_packet :: "u32 \<Rightarrow> packet" where
  "demo_packet n = \<lparr>p_flow = 1, p_user = 2, p_dir = 0, p_mask = 1, p_len = n\<rparr>"

definition demo_events :: "tbq_event list" where
  "demo_events = [Hook 1 True (demo_skb 20), Hook 2 True (demo_skb 5), Enqueue 2 (demo_packet 5)]"

text \<open>
  C7: The shaper enforces its limits. Whatever happens after a limit (of a rule as a whole, or of one
  user under it) was set up, in any period the bytes let through under it by the hook, the queue
  handler and the timer together are at most the rate times the length of the period, plus two seconds
  and a tick at that rate, plus one packet.
\<close>

theorem limits_enforced:
  assumes HZ: "0 < HZ" and M: "M < 2 ^ 27" and fresh: "fresh_limit HZ r t0 t tbq" and empty: "lens_ok M tbq"
    and run1: "run_steps (tbq_step HZ) es1 tbq = Ret (tbq1, ps1)" and run2: "run_steps (tbq_step HZ) es2 tbq1 = Ret (tbq2, ps2)"
    and ok: "list_all (ev_ok M t) (es1 @ es2)"
    and times: "sorted (t0 # map ev_time es1 @ [t1])" "sorted (t1 # map ev_time es2 @ [t2])"
  shows "bytes t ps2 \<le> r * int (t2 - t1 + 2 * HZ + 1) + int M"
proof -
  have "0 \<le> r * int HZ" "0 < r" using fresh by (simp_all add: fresh_limit_def)
  then have "lim_inv HZ r M t t0 tbq" using fresh HZ M empty by (simp add: lim_inv_def fresh_limit_def)
  from limits.total_cost [OF run1 _ times(1) this] ok have i1: "lim_inv HZ r M t t1 tbq1" by simp
  from limits.total_cost [OF run2 _ times(2) i1] ok
  have i2: "lim_inv HZ r M t t2 tbq2" and c: "bytes t ps2 \<le> pot HZ t2 (acct tbq2 t) - pot HZ t1 (acct tbq1 t)" by simp_all
  have "pot HZ t2 (acct tbq2 t) \<le> r * (int t2 + 1) + int M" using pot_end [of HZ t2 r M] i2 unfolding lim_inv_def by blast
  moreover have "r * (int t1 - 2 * int HZ) \<le> pot HZ t1 (acct tbq1 t)" using pot_start [of HZ t1 r M] i1 unfolding lim_inv_def by blast
  moreover have "t1 \<le> t2" using times(2) by simp
  then have "r * int (t2 - t1 + 2 * HZ + 1) = r * (int t2 + 1) - r * (int t1 - 2 * int HZ)" by (simp add: of_nat_diff algebra_simps)
  ultimately show ?thesis using c by linarith
qed

lemma demo_run: "case run_steps (tbq_step 2) demo_events demo_shaper of
    Ret (tbq, ps) \<Rightarrow> ps = [demo_packet 20] | Fault e \<Rightarrow> False"
  by code_simp

lemma demo_fresh: "acct demo_shaper (BTc (0, 0)) = (0, 0, 10, False)" "list_all (ev_ok 1500 (BTc (0, 0))) demo_events"
    "sorted (0 # map ev_time demo_events @ [5])"
  by code_simp+

lemma demo_queues: "fpk demo_shaper = (\<lambda>_. [])"
  by (simp add: demo_shaper_def tbq_bucket_sched_init_def tbq_global_init_def TBQ_RULE_COUNT_MAX_def)

theorem limits_enforced_witness:
  "case run_steps (tbq_step 2) demo_events demo_shaper of
     Ret (tbq, ps) \<Rightarrow> ps = [demo_packet 20] \<and> bytes (BTc (0, 0)) ps \<le> 10 * int (5 - 0 + 2 * 2 + 1) + int 1500 | Fault e \<Rightarrow> False"
proof -
  obtain tbq where r: "run_steps (tbq_step 2) demo_events demo_shaper = Ret (tbq, [demo_packet 20])"
    using demo_run by (auto split: run.splits)
  have "bytes (BTc (0, 0)) [demo_packet 20] \<le> 10 * int (5 - 0 + 2 * 2 + 1) + int 1500"
    by (rule limits_enforced [where ?es1.0 = "[]" and ?ps1.0 = "[]" and ?t0.0 = 0 and tbq = demo_shaper, OF _ _ _ _ _ r])
      (use demo_fresh in \<open>simp_all add: fresh_limit_def lens_ok_def demo_queues tracked_def\<close>)
  then show ?thesis by (simp add: r)
qed

end
