(* ===== verification/Tbq_Drain.thy ===== *)
theory Tbq_Drain
  imports Tbq_Rate
begin

text \<open>
  The timer comes to an end: the two dequeue loops, which nothing in the code bounds, finish in every
  state that a run of the shaper leads to. Each turn lowers a measure: the packets queued, plus the
  flows that wait for a user and a bucket that are both active, plus the users attached to the bucket
  that is served. A flow that cannot go on is moved to a control that is suspended, so it is
  not met again.
\<close>

section \<open>Enough fuel\<close>

text \<open>From some fuel on, the outcome is the same and is not the want of fuel.\<close>

definition settles :: "(nat \<Rightarrow> 'a run) \<Rightarrow> bool" where
  "settles f \<longleftrightarrow> (\<exists>n r. r \<noteq> Fault NoFuel \<and> (\<forall>k \<ge> n. f k = r))"

lemma settles_const: "r \<noteq> Fault NoFuel \<Longrightarrow> settles (\<lambda>_. r)"
  by (auto simp: settles_def)

lemma settles_Suc:
  assumes "settles (\<lambda>k. f (Suc k))"
  shows "settles f"
proof -
  from assms obtain n r where r: "r \<noteq> Fault NoFuel" "\<And>k. k \<ge> n \<Longrightarrow> f (Suc k) = r" by (auto simp: settles_def)
  have "f k = r" if "k \<ge> Suc n" for k using that r(2) [of "k - 1"] by (cases k) auto
  with r(1) show ?thesis unfolding settles_def by blast
qed

lemma settles_bind:
  assumes "settles f" "\<And>n x. (\<forall>k \<ge> n. f k = Ret x) \<Longrightarrow> settles (\<lambda>k. g k x)"
  shows "settles (\<lambda>k. run_bind (f k) (g k))"
proof -
  from assms(1) obtain n r where r: "r \<noteq> Fault NoFuel" "\<forall>k \<ge> n. f k = r" by (auto simp: settles_def)
  show ?thesis
  proof (cases r)
    case (Ret x)
    with assms(2) r(2) have "settles (\<lambda>k. g k x)" by blast
    then obtain m s where "s \<noteq> Fault NoFuel" "\<forall>k \<ge> m. g k x = s" by (auto simp: settles_def)
    with r(2) Ret have "\<forall>k \<ge> max n m. run_bind (f k) (g k) = s" by simp
    with \<open>s \<noteq> Fault NoFuel\<close> show ?thesis unfolding settles_def by blast
  next
    case (Fault e)
    with r(2) have "\<forall>k \<ge> n. run_bind (f k) (g k) = Fault e" by simp
    moreover have "Fault e \<noteq> Fault NoFuel" using r(1) Fault by simp
    ultimately show ?thesis unfolding settles_def by (intro exI [of _ n] exI [of _ "Fault e"] conjI)
  qed
qed

lemma settles_bind_const:
  assumes "m \<noteq> Fault NoFuel" "\<And>x. m = Ret x \<Longrightarrow> settles (\<lambda>k. g k x)"
  shows "settles (\<lambda>k. run_bind m (g k))"
  using settles_bind [OF settles_const [OF assms(1)], of g] assms(2) by auto

lemma settles_if: "(b \<Longrightarrow> settles f) \<Longrightarrow> (\<not> b \<Longrightarrow> settles g) \<Longrightarrow> settles (\<lambda>k. if b then f k else g k)"
  by (cases b) simp_all

section \<open>Operations that take no fuel\<close>

named_theorems no_fuel \<open>operations that never run out of fuel\<close>

lemma run_bind_NoFuel [no_fuel]:
  "run_bind m f = Fault NoFuel \<longleftrightarrow> m = Fault NoFuel \<or> (\<exists>x. m = Ret x \<and> f x = Fault NoFuel)"
  by (cases m) auto

lemma assertion_NoFuel [no_fuel]: "assertion b \<noteq> Fault NoFuel"
  by (simp add: assertion_def)

lemma charge_no_fuel [no_fuel]: "tbq_charge HZ now n tc \<noteq> Fault NoFuel"
  by (auto simp: tbq_charge_def tbq_token_ctrl_consume_def tbq_token_ctrl_feed_def tbq_token_ctrl_deactivate_def Let_def no_fuel
      split: if_splits prod.splits)

lemma consume_no_fuel [no_fuel]: "tbq_packet_ctrl_consume HZ now p tbq \<noteq> Fault NoFuel"
proof -
  have "consume_all HZ now p rs tbq \<noteq> Fault NoFuel" for rs
    by (induction rs arbitrary: tbq) (auto simp: tbq_user_consume_def charge_bucket_def charge_user_def Let_def no_fuel)
  then show ?thesis by (auto simp: tbq_packet_ctrl_consume_def Let_def no_fuel)
qed

lemma update_no_fuel [no_fuel]: "tbq_packet_ctrl_backlog_update p n fb tbq \<noteq> Fault NoFuel"
proof -
  have "tbq_user_backlog_update u n w tbq \<noteq> Fault NoFuel" for u w tbq
    by (auto simp: tbq_user_backlog_update_def Let_def no_fuel)
  then have "backlog_update_all p n fb rs tbq \<noteq> Fault NoFuel" for rs
    by (induction rs arbitrary: tbq) (auto simp: Let_def no_fuel)
  then show ?thesis by (simp add: tbq_packet_ctrl_backlog_update_def)
qed

lemma empty_no_fuel [no_fuel]: "tbq_backlog_empty tb \<noteq> Fault NoFuel" "tbq_flow_backlog_empty fb tbq \<noteq> Fault NoFuel"
  by (auto simp: tbq_backlog_empty_def tbq_flow_backlog_empty_def no_fuel)

lemma dequeue_no_fuel [no_fuel]: "tbq_flow_backlog_dequeue fb n rest tbq \<noteq> Fault NoFuel" "tbq_flow_backlog_detach fb tbq \<noteq> Fault NoFuel"
    "tbq_flow_backlog_attach fb u tbq \<noteq> Fault NoFuel" "tbq_flow_backlog_drr_schedule fb k tbq \<noteq> Fault NoFuel"
  by (auto simp: tbq_flow_backlog_dequeue_def tbq_flow_backlog_detach_def tbq_flow_backlog_attach_def tbq_flow_backlog_drr_schedule_def
      user_backlog_dequeue_def flow_backlog_dequeue_octets_def Let_def no_fuel split: option.splits)

lemma drop_no_fuel [no_fuel]: "tbq_flow_backlog_drop fb tbq dq \<noteq> Fault NoFuel"
proof -
  have l: "drop_loop fb mx ps tbq dq \<noteq> Fault NoFuel" for mx ps
    by (induction ps arbitrary: tbq dq) (auto simp: no_fuel)
  have m: "tbq_backlog_max_octets s tb tc c \<noteq> Fault NoFuel" for s c and tb :: "'p tbq_backlog" and tc :: "'u token_ctrl"
    by (simp add: tbq_backlog_max_octets_def Let_def)
  show ?thesis
    by (auto simp: tbq_flow_backlog_drop_def tbq_flow_backlog_max_octets_def Let_def l m no_fuel split: option.splits)
qed

lemma try_dequeue_no_fuel [no_fuel]: "tbq_flow_backlog_try_dequeue HZ now fb tbq dq \<noteq> Fault NoFuel"
  by (auto simp: tbq_flow_backlog_try_dequeue_def Let_def no_fuel split: option.splits)

lemma timer_del_no_fuel [no_fuel]: "tbq_timer_del t tbq \<noteq> Fault NoFuel"
  by (auto simp: tbq_timer_del_def no_fuel)

section \<open>Operations that attach nothing\<close>

text \<open>No queue grows, no backlog is attached to another control, no control is taken out of the timer.\<close>

definition ebbs :: "tbq_global \<Rightarrow> tbq_global \<Rightarrow> bool" where
  "ebbs a b \<longleftrightarrow> (\<forall>u. bl_tc (ubl b u) = bl_tc (ubl a u) \<or> bl_tc (ubl b u) = None) \<and> (\<forall>f. bl_tc (fbl b f) = bl_tc (fbl a f) \<or> bl_tc (fbl b f) = None)
     \<and> (\<forall>x. in_timer (btc a x) \<longrightarrow> in_timer (btc b x)) \<and> (\<forall>u. in_timer (utc a u) \<longrightarrow> in_timer (utc b u))
     \<and> (\<forall>f. length (fpk b f) \<le> length (fpk a f))"

lemma ebbs_refl [simp]: "ebbs a a"
  by (simp add: ebbs_def)

lemma ebbsD:
  assumes "ebbs a b"
  shows "bl_tc (ubl b u) = bl_tc (ubl a u) \<or> bl_tc (ubl b u) = None" "bl_tc (fbl b f) = bl_tc (fbl a f) \<or> bl_tc (fbl b f) = None"
    "in_timer (btc a x) \<Longrightarrow> in_timer (btc b x)" "in_timer (utc a u) \<Longrightarrow> in_timer (utc b u)" "length (fpk b f) \<le> length (fpk a f)"
  using assms by (simp_all add: ebbs_def del: split_paired_All)

lemma ebbs_trans:
  assumes "ebbs a b" "ebbs b c"
  shows "ebbs a c"
  unfolding ebbs_def
proof (intro conjI allI impI)
  show "bl_tc (ubl c u) = bl_tc (ubl a u) \<or> bl_tc (ubl c u) = None" for u
    using ebbsD(1) [OF assms(1), of u] ebbsD(1) [OF assms(2), of u] by (elim disjE) simp_all
  show "bl_tc (fbl c f) = bl_tc (fbl a f) \<or> bl_tc (fbl c f) = None" for f
    using ebbsD(2) [OF assms(1), of f] ebbsD(2) [OF assms(2), of f] by (elim disjE) simp_all
qed (use ebbsD(3-5) [OF assms(1)] ebbsD(3-5) [OF assms(2)] le_trans in blast)+

lemma ebbs_user_detach: "ebbs a (user_backlog_detach u a)"
  by (auto simp: ebbs_def user_backlog_detach_def tbq_upds split: option.splits)

lemma ebbs_flow_detach: "ebbs a (flow_backlog_detach_tc fb a)"
  by (auto simp: ebbs_def flow_backlog_detach_tc_def tbq_upds split: option.splits)

lemma ebbs_user_dequeue:
  assumes "user_backlog_dequeue u n a = Ret b"
  shows "ebbs a b"
proof -
  let ?c = "upd_ubl u (\<lambda>tb. tb\<lparr>octets := octets tb - n\<rparr>) a"
  have "ebbs a ?c" by (auto simp: ebbs_def tbq_upds)
  moreover have "b = ?c \<or> b = user_backlog_detach u ?c" using assms by (auto simp: user_backlog_dequeue_def Let_def run_simps)
  ultimately show ?thesis using ebbs_trans ebbs_user_detach by blast
qed

lemma ebbs_flow_dequeue_octets:
  assumes "flow_backlog_dequeue_octets fb n a = Ret b"
  shows "ebbs a b"
proof -
  let ?c = "upd_fbl fb (\<lambda>tb. tb\<lparr>octets := octets tb - n\<rparr>) a"
  have "ebbs a ?c" by (auto simp: ebbs_def tbq_upds)
  moreover have "b = ?c \<or> b = flow_backlog_detach_tc fb ?c" using assms by (auto simp: flow_backlog_dequeue_octets_def Let_def run_simps)
  ultimately show ?thesis using ebbs_trans ebbs_flow_detach by blast
qed

lemma ebbs_dequeue:
  assumes "tbq_flow_backlog_dequeue fb n rest a = Ret b" "length rest \<le> length (fpk a fb)"
  shows "ebbs a b \<and> fpk b = (fpk a)(fb := rest)"
proof -
  from assms(1) obtain u c d where s: "user_backlog_dequeue u n a = Ret c" "flow_backlog_dequeue_octets fb n c = Ret d" "b = d\<lparr>fpk := (fpk d)(fb := rest)\<rparr>"
    by (auto simp: tbq_flow_backlog_dequeue_def run_simps split: option.splits)
  have "fpk c = fpk a" using s(1)
    by (auto simp: user_backlog_dequeue_def Let_def run_simps user_backlog_detach_def tbq_upds split: if_splits option.splits)
  moreover have "fpk d = fpk c" using s(2)
    by (auto simp: flow_backlog_dequeue_octets_def Let_def run_simps flow_backlog_detach_tc_def tbq_upds split: if_splits option.splits)
  ultimately have f: "fpk c = fpk a" "fpk d = fpk a" by simp_all
  have "ebbs a d" using ebbs_user_dequeue [OF s(1)] ebbs_flow_dequeue_octets [OF s(2)] by (rule ebbs_trans)
  moreover have "ebbs d b" using assms(2) by (simp add: ebbs_def s(3) f)
  ultimately show ?thesis using ebbs_trans s(3) f by auto
qed

lemma ebbs_drr:
  assumes "tbq_flow_backlog_drr_schedule fb n a = Ret b"
  shows "ebbs a b \<and> fpk b = fpk a"
proof -
  have d: "bl_tc (fst (drr_charge n tb)) = bl_tc tb" for tb :: "'p tbq_backlog" by (simp add: drr_charge_def Let_def)
  have u: "ebbs a (user_drr_schedule v n a) \<and> fpk (user_drr_schedule v n a) = fpk a" for v
    using d [of "ubl a v"] by (auto simp: ebbs_def user_drr_schedule_def Let_def tbq_upds split: option.splits prod.splits)
  have f: "ebbs c (flow_drr_schedule fb n c) \<and> fpk (flow_drr_schedule fb n c) = fpk c" for c
    using d [of "fbl c fb"] by (auto simp: ebbs_def flow_drr_schedule_def Let_def tbq_upds split: option.splits prod.splits)
  from assms obtain v where "b = flow_drr_schedule fb n (user_drr_schedule v n a)" by (auto simp: tbq_flow_backlog_drr_schedule_def split: option.splits)
  with u [of v] f [of "user_drr_schedule v n a"] show ?thesis using ebbs_trans by metis
qed

lemma ebbs_update: "tbq_packet_ctrl_backlog_update p n fb a = Ret b \<Longrightarrow> ebbs a b"
proof -
  have u: "tbq_user_backlog_update u n w a = Ret b \<Longrightarrow> ebbs a b" for u w a b
    by (auto simp: tbq_user_backlog_update_def Let_def run_simps ebbs_def tbq_upds split: if_splits)
  have "backlog_update_all p n fb rs a = Ret b \<Longrightarrow> ebbs a b" for rs
    by (induction rs arbitrary: a) (auto simp: Let_def run_simps intro: ebbs_trans dest!: u)
  then show "tbq_packet_ctrl_backlog_update p n fb a = Ret b \<Longrightarrow> ebbs a b" by (simp add: tbq_packet_ctrl_backlog_update_def)
qed

lemma ebbs_drop_loop:
  "drop_loop fb mx ps a dq = Ret (b, dq') \<Longrightarrow> fpk a fb = rev ps \<Longrightarrow> ebbs a b"
proof (induction ps arbitrary: a dq)
  case (Cons p ps)
  show ?case
  proof (cases "octets (fbl a fb) > mx")
    case True
    with Cons.prems(1) obtain c d dd where s: "tbq_flow_backlog_dequeue fb (p_len p) (rev ps) a = Ret c"
      "tbq_packet_ctrl_backlog_update p (- sint (p_len p)) (if octets (fbl c fb) = 0 then Some (fst fb) else None) c = Ret d"
      "drop_loop fb mx ps d dd = Ret (b, dq')"
      by (auto simp: run_simps)
    have c: "ebbs a c \<and> fpk c = (fpk a)(fb := rev ps)" using ebbs_dequeue [OF s(1)] Cons.prems(2) by simp
    moreover have "fpk d = fpk c" using s(2) by (rule packet_update_fpk)
    ultimately have "ebbs d b" using Cons.IH [OF s(3)] by simp
    with c ebbs_update [OF s(2)] show ?thesis using ebbs_trans by blast
  qed (use Cons.prems in auto)
qed (auto split: if_splits)

lemma ebbs_drop: "tbq_flow_backlog_drop fb a dq = Ret (b, dq') \<Longrightarrow> ebbs a b"
  by (auto simp: tbq_flow_backlog_drop_def run_simps dest: ebbs_drop_loop)

lemma ebbs_consume: "tbq_packet_ctrl_consume HZ now p a = Ret (b, res) \<Longrightarrow> ebbs a b \<and> (res \<noteq> None \<longrightarrow> b = a)"
proof -
  have t: "tbq_charge HZ now n tc = Ret tc' \<Longrightarrow> \<not> in_timer tc" for n and tc tc' :: "'u token_ctrl"
    by (auto simp: tbq_charge_def tbq_token_ctrl_consume_def run_simps)
  have cb: "ebbs a b" if op: "charge_bucket HZ now x n a = Ret b" for x n a b
  proof -
    from op obtain tc where tc: "tbq_charge HZ now n (btc a x) = Ret tc"
      "ubl b = ubl a" "fbl b = fbl a" "fpk b = fpk a" "utc b = utc a" "btc b = (btc a)(x := tc)"
      by (auto simp: charge_bucket_def run_simps tbq_timer_mod_def vec_add_tail_def)
    with t [OF tc(1)] show ?thesis by (simp add: ebbs_def)
  qed
  have cu: "ebbs a b" if op: "charge_user HZ now x n a = Ret b" for x n a b
  proof -
    from op obtain tc where tc: "tbq_charge HZ now n (utc a x) = Ret tc"
      "ubl b = ubl a" "fbl b = fbl a" "fpk b = fpk a" "btc b = btc a" "utc b = (utc a)(x := tc)"
      by (auto simp: charge_user_def run_simps tbq_timer_mod_def vec_add_tail_def Let_def)
    with t [OF tc(1)] show ?thesis by (simp add: ebbs_def)
  qed
  have u: "tbq_user_consume HZ now u n a = Ret b \<Longrightarrow> ebbs a b" for u n a b
    by (auto simp: tbq_user_consume_def run_simps intro: ebbs_trans dest!: cb cu)
  have "consume_all HZ now p rs a = Ret b \<Longrightarrow> ebbs a b" for rs a
    by (induction rs arbitrary: a) (auto simp: run_simps intro: ebbs_trans dest!: u)
  then show "tbq_packet_ctrl_consume HZ now p a = Ret (b, res) \<Longrightarrow> ebbs a b \<and> (res \<noteq> None \<longrightarrow> b = a)"
    by (auto simp: tbq_packet_ctrl_consume_def Let_def run_simps split: if_splits)
qed

lemma ebbs_detach: "tbq_flow_backlog_detach fb a = Ret b \<Longrightarrow> ebbs a b"
  by (auto simp: tbq_flow_backlog_detach_def run_simps split: option.splits
      intro: ebbs_trans [OF ebbs_user_dequeue ebbs_flow_detach])

section \<open>The measure\<close>

definition running :: "tbq_global \<Rightarrow> fbx \<Rightarrow> bool" where
  "running tbq fb \<longleftrightarrow> (\<exists>u. bl_tc (fbl tbq fb) = Some u \<and> \<not> in_timer (utc tbq u) \<and> \<not> in_timer (btc tbq (snd u)))"

definition attached :: "tbq_global \<Rightarrow> bix \<Rightarrow> uix set" where
  "attached tbq b = {u. bl_tc (ubl tbq u) = Some b}"

text \<open>Finitely many packets are queued and users attached, and these to their own buckets.\<close>

definition backlog_sane :: "tbq_global \<Rightarrow> bool" where
  "backlog_sane tbq \<longleftrightarrow> finite {fb. fpk tbq fb \<noteq> []} \<and> finite {u. bl_tc (ubl tbq u) \<noteq> None}
     \<and> (\<forall>u. bl_tc (ubl tbq u) \<in> {None, Some (snd u)})"

definition covers :: "fbx set \<Rightarrow> tbq_global \<Rightarrow> bool" where
  "covers F tbq \<longleftrightarrow> finite F \<and> {fb. fpk tbq fb \<noteq> []} \<subseteq> F"

definition work :: "fbx set \<Rightarrow> tbq_global \<Rightarrow> nat" where
  "work F tbq = (\<Sum>fb \<in> F. length (fpk tbq fb)) + card {fb \<in> F. running tbq fb}"

lemma ebbs_running: "ebbs a b \<Longrightarrow> running b f \<Longrightarrow> running a f"
  unfolding running_def by (metis ebbsD(2-4) option.distinct(1))

lemma ebbs_queues: "ebbs a b \<Longrightarrow> {fb. fpk b fb \<noteq> []} \<subseteq> {fb. fpk a fb \<noteq> []}"
  using ebbsD(5) by (metis (mono_tags, lifting) Collect_mono le_zero_eq length_0_conv)

lemma ebbs_users: "ebbs a b \<Longrightarrow> {u. bl_tc (ubl b u) \<noteq> None} \<subseteq> {u. bl_tc (ubl a u) \<noteq> None}"
  using ebbsD(1) by (metis (mono_tags, lifting) Collect_mono)

lemma ebbs_attached: "ebbs a b \<Longrightarrow> attached b x \<subseteq> attached a x"
  unfolding attached_def using ebbsD(1) by (metis (mono_tags, lifting) Collect_mono option.distinct(1))

lemma sane_less:
  assumes u: "\<And>u. bl_tc (ubl b u) = bl_tc (ubl a u) \<or> bl_tc (ubl b u) = None" and f: "\<And>f. fpk a f = [] \<Longrightarrow> fpk b f = []"
    and a: "backlog_sane a"
  shows "backlog_sane b"
proof -
  have "bl_tc (ubl b v) \<in> {None, Some (snd v)}" for v
  proof -
    have "bl_tc (ubl a v) \<in> {None, Some (snd v)}" using a unfolding backlog_sane_def by blast
    with u [of v] show ?thesis by auto
  qed
  moreover have "{v. bl_tc (ubl b v) \<noteq> None} \<subseteq> {v. bl_tc (ubl a v) \<noteq> None}" using u by (metis (mono_tags, lifting) Collect_mono)
  then have "finite {v. bl_tc (ubl b v) \<noteq> None}" using a unfolding backlog_sane_def by (elim conjE) (rule finite_subset)
  moreover have "{g. fpk b g \<noteq> []} \<subseteq> {g. fpk a g \<noteq> []}" using f by blast
  then have "finite {g. fpk b g \<noteq> []}" using a unfolding backlog_sane_def by (elim conjE) (rule finite_subset)
  ultimately show ?thesis unfolding backlog_sane_def by blast
qed

lemma ebbs_sane:
  assumes "ebbs a b" "backlog_sane a"
  shows "backlog_sane b"
  using ebbsD(1) [OF assms(1)] _ assms(2)
proof (rule sane_less)
  show "fpk b f = []" if "fpk a f = []" for f using ebbsD(5) [OF assms(1), of f] that by simp
qed

lemma ebbs_covers: "ebbs a b \<Longrightarrow> covers F a \<Longrightarrow> covers F b"
  unfolding covers_def using ebbs_queues by blast

lemma ebbs_work_parts:
  assumes "ebbs a b" "covers F a"
  shows "(\<Sum>fb \<in> F. length (fpk b fb)) \<le> (\<Sum>fb \<in> F. length (fpk a fb))" "card {fb \<in> F. running b fb} \<le> card {fb \<in> F. running a fb}"
  using assms ebbsD(5) [OF assms(1)] ebbs_running [OF assms(1)] by (auto simp: covers_def intro!: sum_mono card_mono)

lemma ebbs_work: "ebbs a b \<Longrightarrow> covers F a \<Longrightarrow> work F b \<le> work F a"
  unfolding work_def using ebbs_work_parts by (intro add_le_mono)

lemma ebbs_work_less:
  assumes "ebbs a b" "covers F a" "length (fpk b fb) < length (fpk a fb)"
  shows "work F b < work F a"
proof -
  have "fb \<in> F" "finite F" using assms(2,3) by (auto simp: covers_def)
  then have "(\<Sum>fb \<in> F. length (fpk b fb)) < (\<Sum>fb \<in> F. length (fpk a fb))"
    using assms(3) ebbsD(5) [OF assms(1)] by (intro sum_strict_mono_ex1) auto
  with ebbs_work_parts(2) [OF assms(1,2)] show ?thesis by (simp add: work_def)
qed

text \<open>A flow is attached to a control only while that, or its bucket's, is in the timer.\<close>

lemma attach_effect:
  assumes "tbq_flow_backlog_attach fb pu a = Ret b"
  shows "\<not> running b fb" "f \<noteq> fb \<Longrightarrow> running b f = running a f" "fpk b = fpk a" "in_timer (btc b x) = in_timer (btc a x)"
    "\<not> in_timer (btc a x) \<Longrightarrow> attached b x = attached a x" "backlog_sane a \<Longrightarrow> backlog_sane b"
proof -
  define c where "c = (if in_timer (btc a (snd pu)) then user_backlog_attach pu a else a)"
  from assms have n: "bl_tc (fbl a fb) = None" and t: "in_timer (btc a (snd pu)) \<or> in_timer (utc a pu)"
    and b: "b = upd_fbl fb (\<lambda>tb. tb\<lparr>weight := f_weight c (fst fb) (snd (snd pu))\<rparr>)
             (flow_backlog_attach_tc fb pu (upd_ubl pu (tbq_backlog_enqueue (octets (fbl c fb))) c))"
    by (auto simp: tbq_flow_backlog_attach_def Let_def run_simps c_def split: if_splits)
  have c: "fbl c = fbl a" "utc c = utc a" "fpk c = fpk a" "in_timer (btc c y) = in_timer (btc a y)"
    "bl_tc (ubl c u) = (if u = pu \<and> in_timer (btc a (snd pu)) \<and> bl_tc (ubl a u) = None then Some (snd pu) else bl_tc (ubl a u))" for y u
    by (auto simp: c_def user_backlog_attach_def tbq_upds)
  have f: "bl_tc (fbl b g) = (if g = fb then Some pu else bl_tc (fbl a g))" "in_timer (utc b u) = in_timer (utc a u)"
    "in_timer (btc b y) = in_timer (btc a y)" "bl_tc (ubl b u) = bl_tc (ubl c u)" for g u y
    using n c(4) by (auto simp: b c(1,2) flow_backlog_attach_tc_def tbq_upds tbq_backlog_enqueue_def)
  show "fpk b = fpk a" using n by (simp add: b c flow_backlog_attach_tc_def tbq_upds)
  moreover have "{u. bl_tc (ubl b u) \<noteq> None} \<subseteq> insert pu {u. bl_tc (ubl a u) \<noteq> None}" unfolding f(4) c(5) by auto
  moreover have "bl_tc (ubl a u) \<in> {None, Some (snd u)} \<Longrightarrow> bl_tc (ubl b u) \<in> {None, Some (snd u)}" for u unfolding f(4) c(5) by auto
  ultimately show "backlog_sane a \<Longrightarrow> backlog_sane b" unfolding backlog_sane_def by (metis finite.insertI finite_subset)
  show "\<not> running b fb" using t by (auto simp: running_def f)
  show "f \<noteq> fb \<Longrightarrow> running b f = running a f" by (simp add: running_def f)
  show "in_timer (btc b x) = in_timer (btc a x)" by (rule f)
  show "\<not> in_timer (btc a x) \<Longrightarrow> attached b x = attached a x" unfolding attached_def f(4)
  proof (rule Collect_cong)
    have "bl_tc (ubl c u) = bl_tc (ubl a u) \<or> in_timer (btc a (snd pu)) \<and> bl_tc (ubl a u) = None \<and> bl_tc (ubl c u) = Some (snd pu)" for u
      using c(5) [of u] by (cases "u = pu") auto
    then show "\<not> in_timer (btc a x) \<Longrightarrow> (bl_tc (ubl c u) = Some x) = (bl_tc (ubl a u) = Some x)" for u
      by (metis option.distinct(1) option.inject)
  qed
qed

lemma try_dequeue_progress:
  assumes op: "tbq_flow_backlog_try_dequeue HZ now fb a dq = Ret (b, dq')"
  shows "backlog_sane a \<Longrightarrow> backlog_sane b" "covers F a \<Longrightarrow> covers F b" "covers F a \<Longrightarrow> running a fb \<Longrightarrow> work F b < work F a"
    "\<not> in_timer (btc b x) \<Longrightarrow> \<not> in_timer (btc a x) \<and> attached b x \<subseteq> attached a x"
proof -
  from op obtain c dc e where c: "tbq_flow_backlog_empty fb a = Ret False" "tbq_flow_backlog_drop fb a dq = Ret (c, dc)" "tbq_flow_backlog_empty fb c = Ret e"
    by (auto simp: tbq_flow_backlog_try_dequeue_def run_simps)
  have ne: "fpk a fb \<noteq> []" "e \<longleftrightarrow> fpk c fb = []" using c(1,3) by (auto simp: tbq_flow_backlog_empty_def run_simps split: if_splits)
  note ac = ebbs_drop [OF c(2)]
  let ?p = "hd (fpk c fb)"
  have "(backlog_sane a \<longrightarrow> backlog_sane b) \<and> (covers F a \<longrightarrow> covers F b \<and> (running a fb \<longrightarrow> work F b < work F a))
    \<and> (\<not> in_timer (btc b x) \<longrightarrow> \<not> in_timer (btc a x) \<and> attached b x \<subseteq> attached a x)"
  proof (cases e)
    case True
    with op c have b: "b = c" by (auto simp: tbq_flow_backlog_try_dequeue_def run_simps)
    have "length (fpk b fb) < length (fpk a fb)" using True ne b by simp
    with ac show ?thesis unfolding b using ebbs_sane ebbs_covers ebbs_work_less ebbs_attached ebbsD(3) by blast
  next
    case False
    from False op c obtain d res where d: "tbq_packet_ctrl_consume HZ now ?p c = Ret (d, res)"
      by (auto simp: tbq_flow_backlog_try_dequeue_def run_simps Let_def)
    have "fpk d = fpk c" using consume_fpk [OF d] by simp
    note cd = ebbs_consume [OF d]
    show ?thesis
    proof (cases res)
      case None
      with False op c d obtain f g where f: "tbq_flow_backlog_drr_schedule fb (unat (p_len ?p)) d = Ret f"
        "tbq_flow_backlog_dequeue fb (p_len ?p) (tl (fpk f fb)) f = Ret g"
        "tbq_packet_ctrl_backlog_update ?p (- sint (p_len ?p)) (if octets (fbl g fb) = 0 then Some (fst fb) else None) g = Ret b"
        by (auto simp: tbq_flow_backlog_try_dequeue_def run_simps Let_def)
      note df = ebbs_drr [OF f(1)] and fg = ebbs_dequeue [OF f(2)] and gb = ebbs_update [OF f(3)]
      have eb: "ebbs a b" using ac cd df fg gb ebbs_trans by (metis diff_le_self length_tl)
      have "fpk b fb = tl (fpk c fb)" using packet_update_fpk [OF f(3)] df fg \<open>fpk d = fpk c\<close> by simp
      then have "length (fpk b fb) < length (fpk a fb)" using False ne ebbsD(5) [OF ac, of fb] by (cases "fpk c fb") auto
      with eb show ?thesis using ebbs_sane ebbs_covers ebbs_work_less ebbs_attached ebbsD(3) by blast
    next
      case (Some pu)
      with False op c d obtain f where f: "tbq_flow_backlog_detach fb d = Ret f" "tbq_flow_backlog_attach fb pu f = Ret b"
        by (auto simp: tbq_flow_backlog_try_dequeue_def run_simps Let_def)
      have af: "ebbs a f" using ac cd ebbs_detach [OF f(1)] ebbs_trans by blast
      note at = attach_effect [OF f(2)]
      have "covers F b \<and> (running a fb \<longrightarrow> work F b < work F a)" if F: "covers F a"
      proof -
        have "covers F b" using ebbs_covers [OF af F] at(3) by (simp add: covers_def)
        moreover have "work F b < work F a" if r: "running a fb"
        proof -
          have "fb \<in> F" "finite F" using F ne by (auto simp: covers_def)
          moreover have "running b g \<longrightarrow> running a g" for g using at(1,2) ebbs_running [OF af] by (cases "g = fb") auto
          ultimately have "{g \<in> F. running b g} \<subset> {g \<in> F. running a g}" using at(1) r by blast
          then have "card {g \<in> F. running b g} < card {g \<in> F. running a g}" using \<open>finite F\<close> by (intro psubset_card_mono) auto
          with ebbs_work_parts(1) [OF af F] at(3) show ?thesis by (simp add: work_def)
        qed
        ultimately show ?thesis by blast
      qed
      with at(4-6) ebbs_sane [OF af] ebbs_attached [OF af] ebbsD(3) [OF af] show ?thesis by blast
    qed
  qed
  then show "backlog_sane a \<Longrightarrow> backlog_sane b" "covers F a \<Longrightarrow> covers F b" "covers F a \<Longrightarrow> running a fb \<Longrightarrow> work F b < work F a"
    "\<not> in_timer (btc b x) \<Longrightarrow> \<not> in_timer (btc a x) \<and> attached b x \<subseteq> attached a x" by blast+
qed

section \<open>The loops and the timer\<close>

lemma user_dequeue_settles:
  assumes "covers F tbq"
  shows "settles (\<lambda>fuel. tbq_user_dequeue HZ now fuel u tbq dq)"
  using assms
proof (induction "work F tbq" arbitrary: tbq dq rule: less_induct)
  case less
  let ?fb = "hd (units (utc tbq u))"
  show ?case
  proof (rule settles_Suc, cases "\<not> in_timer (utc tbq u) \<and> units (utc tbq u) \<noteq> [] \<and> \<not> in_timer (btc tbq (snd u))")
    case True
    have "settles (\<lambda>k. run_bind (tbq_flow_backlog_try_dequeue HZ now ?fb tbq dq) (\<lambda>(tbq, dq). tbq_user_dequeue HZ now k u tbq dq))"
      if fb: "bl_tc (fbl tbq ?fb) = Some u"
    proof (rule settles_bind_const)
      fix x assume "tbq_flow_backlog_try_dequeue HZ now ?fb tbq dq = Ret x"
      then obtain b dq' where x: "x = (b, dq')" "tbq_flow_backlog_try_dequeue HZ now ?fb tbq dq = Ret (b, dq')" by (cases x) simp
      have "running tbq ?fb" using True fb by (simp add: running_def)
      note p = try_dequeue_progress [OF x(2)]
      show "settles (\<lambda>k. case x of (tbq, dq) \<Rightarrow> tbq_user_dequeue HZ now k u tbq dq)"
        using less.hyps [OF p(3) p(2)] less.prems \<open>running tbq ?fb\<close> by (simp add: x(1))
    qed (simp add: no_fuel)
    with True show "settles (\<lambda>k. tbq_user_dequeue HZ now (Suc k) u tbq dq)"
      by (auto simp: run_bind_assertion intro!: settles_if settles_const)
  qed (auto intro!: settles_if settles_const)
qed

lemma bucket_dequeue_settles:
  assumes "covers F tbq" "backlog_sane tbq"
  shows "settles (\<lambda>fuel. tbq_bucket_dequeue HZ now fuel b tbq dq)"
  using assms
proof (induction "work F tbq + card (attached tbq b)" arbitrary: tbq dq rule: less_induct)
  case less
  let ?u = "hd (units (btc tbq b))"
  have fin: "finite (attached tbq b)" using less.prems(2) by (auto simp: attached_def backlog_sane_def elim!: rev_finite_subset)
  show ?case
  proof (cases "in_timer (btc tbq b) \<or> units (btc tbq b) = []")
    case True
    then show ?thesis by - (rule settles_Suc, simp add: settles_const)
  next
    case False
    show ?thesis
    proof (cases "in_timer (utc tbq ?u)")
      case True
      have "settles (\<lambda>k. tbq_bucket_dequeue HZ now k b (user_backlog_detach ?u tbq) dq)" if u: "bl_tc (ubl tbq ?u) = Some b"
      proof (rule less.hyps)
        note e = ebbs_user_detach [of tbq ?u]
        show "covers F (user_backlog_detach ?u tbq)" using ebbs_covers [OF e] less.prems(1) .
        show "backlog_sane (user_backlog_detach ?u tbq)" using ebbs_sane [OF e less.prems(2)] .
        have "?u \<in> attached tbq b" "?u \<notin> attached (user_backlog_detach ?u tbq) b" using u by (auto simp: attached_def user_backlog_detach_def tbq_upds)
        with ebbs_attached [OF e, of b] have "card (attached (user_backlog_detach ?u tbq) b) < card (attached tbq b)"
          using fin by (intro psubset_card_mono) auto
        with ebbs_work [OF e less.prems(1)]
        show "work F (user_backlog_detach ?u tbq) + card (attached (user_backlog_detach ?u tbq) b) < work F tbq + card (attached tbq b)" by simp
      qed
      then show ?thesis using False True
        by - (rule settles_Suc, auto simp: Let_def run_bind_assertion no_fuel intro!: settles_if settles_const settles_bind_const)
    next
      case idle: False
      have "settles (\<lambda>k. run_bind (tbq_flow_backlog_try_dequeue HZ now fb tbq dq) (\<lambda>(tbq, dq). tbq_bucket_dequeue HZ now k b tbq dq))"
        if fb: "bl_tc (ubl tbq ?u) = Some b" "bl_tc (fbl tbq fb) = Some ?u" for fb
      proof (rule settles_bind_const)
        fix x assume "tbq_flow_backlog_try_dequeue HZ now fb tbq dq = Ret x"
        then obtain c dq' where x: "x = (c, dq')" "tbq_flow_backlog_try_dequeue HZ now fb tbq dq = Ret (c, dq')" by (cases x) simp
        have "snd ?u = b" using fb(1) less.prems(2) unfolding backlog_sane_def by (metis insertE option.distinct(1) option.inject singletonD)
        then have r: "running tbq fb" using False idle fb by (simp add: running_def)
        note p = try_dequeue_progress [OF x(2)]
        have "settles (\<lambda>k. tbq_bucket_dequeue HZ now k b c dq')"
        proof (cases "in_timer (btc c b)")
          case True
          then show ?thesis by - (rule settles_Suc, simp add: settles_const)
        next
          case act: False
          with p(4) have at: "attached c b \<subseteq> attached tbq b" by blast
          then have "card (attached c b) \<le> card (attached tbq b)" using fin by (rule card_mono [rotated])
          with p(3) [OF less.prems(1) r] show ?thesis
            by (intro less.hyps p(2) [OF less.prems(1)] p(1) [OF less.prems(2)]) simp
        qed
        then show "settles (\<lambda>k. case x of (tbq, dq) \<Rightarrow> tbq_bucket_dequeue HZ now k b tbq dq)" by (simp add: x(1))
      qed (simp add: no_fuel)
      then show ?thesis using False idle empty_no_fuel(1) [of "ubl tbq ?u"]
        by - (rule settles_Suc, cases "units (utc tbq ?u)"; cases "tbq_backlog_empty (ubl tbq ?u)";
            auto simp: Let_def run_bind_assertion intro!: settles_if settles_const)
    qed
  qed
qed

lemma user_attach_sane: "backlog_sane tbq \<Longrightarrow> backlog_sane (user_backlog_attach u tbq)"
proof -
  assume s: "backlog_sane tbq"
  have "{v. bl_tc (ubl (user_backlog_attach u tbq) v) \<noteq> None} \<subseteq> insert u {v. bl_tc (ubl tbq v) \<noteq> None}"
    by (auto simp: user_backlog_attach_def tbq_upds split: if_splits)
  moreover have "bl_tc (ubl tbq v) \<in> {None, Some (snd v)} \<Longrightarrow> bl_tc (ubl (user_backlog_attach u tbq) v) \<in> {None, Some (snd v)}" for v
    by (auto simp: user_backlog_attach_def tbq_upds)
  moreover have "fpk (user_backlog_attach u tbq) = fpk tbq" by (simp add: user_backlog_attach_def tbq_upds)
  ultimately show ?thesis using s unfolding backlog_sane_def by (metis finite.insertI finite_subset)
qed

lemma user_dequeue_sane: "tbq_user_dequeue HZ now fuel u tbq dq = Ret (tbq', dq') \<Longrightarrow> backlog_sane tbq \<Longrightarrow> backlog_sane tbq'"
proof (induction fuel arbitrary: tbq dq)
  case (Suc fuel)
  from Suc.prems(1) show ?case
  proof (cases rule: user_dequeue_turn)
    case turn
    with Suc.IH [OF turn(2)] try_dequeue_progress(1) [OF turn(1)] Suc.prems(2) show ?thesis by blast
  qed (use Suc.prems user_attach_sane in auto)
qed simp

lemma bucket_dequeue_sane: "tbq_bucket_dequeue HZ now fuel b tbq dq = Ret (tbq', dq') \<Longrightarrow> backlog_sane tbq \<Longrightarrow> backlog_sane tbq'"
proof (induction fuel arbitrary: tbq dq)
  case (Suc fuel)
  from Suc.prems(1) show ?case
  proof (cases rule: bucket_dequeue_turn)
    case turn
    with Suc.IH [OF turn(2)] try_dequeue_progress(1) [OF turn(1)] Suc.prems(2) show ?thesis by blast
  next
    case (detach u)
    with Suc.IH [OF detach] ebbs_sane [OF ebbs_user_detach] Suc.prems(2) show ?thesis by blast
  qed (use Suc.prems in auto)
qed simp

lemma sane_cong: "ubl b = ubl a \<Longrightarrow> fpk b = fpk a \<Longrightarrow> backlog_sane b = backlog_sane a"
  by (simp add: backlog_sane_def)

lemma sane_masks [simp]: "backlog_sane (a\<lparr>uinact := m\<rparr>) = backlog_sane a" "backlog_sane (a\<lparr>binact := n\<rparr>) = backlog_sane a"
    "backlog_sane (a\<lparr>stale := st\<rparr>) = backlog_sane a" "backlog_sane (vec_add_tail i t a) = backlog_sane a"
    "backlog_sane (a\<lparr>tm_jiffies := j\<rparr>) = backlog_sane a" "backlog_sane (a\<lparr>vec := v\<rparr>) = backlog_sane a" "backlog_sane (a\<lparr>backlog_packets := k\<rparr>) = backlog_sane a"
  by (rule sane_cong; simp add: vec_add_tail_def)+

lemma timer_del_sane: "tbq_timer_del t tbq = Ret tbq' \<Longrightarrow> backlog_sane tbq' = backlog_sane tbq"
  by (rule sane_cong) (auto simp: tbq_timer_del_def run_simps set_timer_flag_def split: if_splits tcid.splits)

lemma sane_covers: "backlog_sane tbq \<Longrightarrow> covers {fb. fpk tbq fb \<noteq> []} tbq"
  by (simp add: covers_def backlog_sane_def)

lemma activate_settles:
  assumes "backlog_sane tbq"
  shows "settles (\<lambda>fuel. tbq_token_ctrl_activate HZ now fuel t tbq dq)"
    and "tbq_token_ctrl_activate HZ now fuel t tbq dq = Ret (tbq', dq') \<Longrightarrow> backlog_sane tbq'"
proof -
  define f where "f fuel a = (case t of
      UTc u \<Rightarrow> run_bind (assertion (snd (snd u) < nr_rule a)) (\<lambda>_.
        (let b = a\<lparr>uinact := (uinact a)((fst u, fst (snd u)) := unset_bit (snd (snd u)) (uinact a (fst u, fst (snd u))))\<rparr>
         in if bl_tc (ubl b u) = None then run_bind (assertion (\<not> in_timer (utc b u))) (\<lambda>_. tbq_user_dequeue HZ now fuel u b dq) else Ret (b, dq)))
    | BTc x \<Rightarrow> run_bind (assertion (snd x < nr_rule a)) (\<lambda>_.
        (let b = a\<lparr>binact := (binact a)(fst x := unset_bit (snd x) (binact a (fst x)))\<rparr>
         in run_bind (assertion (\<not> in_timer (btc b x))) (\<lambda>_. tbq_bucket_dequeue HZ now fuel x b dq))))" for fuel a
  have op: "tbq_token_ctrl_activate HZ now fuel t tbq dq = run_bind (tbq_timer_del t tbq) (f fuel)" for fuel
    by (auto simp: tbq_token_ctrl_activate_def f_def fun_eq_iff Let_def split: tcid.splits prod.splits intro!: arg_cong [where f = "run_bind _"])
  have s: "settles (\<lambda>fuel. f fuel a)" "f fuel a = Ret (tbq', dq') \<Longrightarrow> backlog_sane tbq'" if "backlog_sane a" for a fuel
  proof -
    show "settles (\<lambda>fuel. f fuel a)"
    proof (cases t)
      case (UTc u)
      then show ?thesis using user_dequeue_settles [OF sane_covers, of _ HZ now u] that
        by (auto simp: f_def run_bind_assertion Let_def intro!: settles_if settles_const)
    next
      case (BTc x)
      then show ?thesis using bucket_dequeue_settles [OF sane_covers, of _ HZ now x] that
        by (auto simp: f_def run_bind_assertion Let_def intro!: settles_if settles_const)
    qed
    show "f fuel a = Ret (tbq', dq') \<Longrightarrow> backlog_sane tbq'"
      using that by (cases t) (auto simp: f_def run_simps Let_def split: if_splits dest!: user_dequeue_sane bucket_dequeue_sane)
  qed
  show "settles (\<lambda>fuel. tbq_token_ctrl_activate HZ now fuel t tbq dq)"
    unfolding op using s(1) assms timer_del_sane by (intro settles_bind_const) (auto simp: no_fuel)
  show "tbq_token_ctrl_activate HZ now fuel t tbq dq = Ret (tbq', dq') \<Longrightarrow> backlog_sane tbq'"
    unfolding op run_bind_eq_Ret using s(2) assms timer_del_sane by blast
qed

lemma feed_entries_settles:
  assumes "backlog_sane tbq"
  shows "settles (\<lambda>fuel. feed_entries HZ now fuel i vj delayed ts tbq dq)
    \<and> (\<forall>fuel tbq' dq'. feed_entries HZ now fuel i vj delayed ts tbq dq = Ret (tbq', dq') \<longrightarrow> backlog_sane tbq')"
  using assms
proof (induction ts arbitrary: tbq dq delayed)
  case Nil
  then show ?case by (simp add: settles_const)
next
  case (Cons t ts)
  show ?case
  proof (cases "the_tc_jiffies tbq t = vj")
    case True
    define pre where "pre = (case delayed of None \<Rightarrow> Ret tbq
      | Some a \<Rightarrow> if vec tbq i \<noteq> [] \<and> last (vec tbq i) = a then Ret (tbq\<lparr>stale := (stale tbq)(i := True)\<rparr>) else Fault Undefined)"
    have pre: "pre \<noteq> Fault NoFuel" "pre = Ret a \<Longrightarrow> backlog_sane a" for a
      using Cons.prems by (auto simp: pre_def split: option.splits if_splits)
    have op: "feed_entries HZ now fuel i vj delayed (t # ts) tbq dq = run_bind pre (\<lambda>a. run_bind (tbq_token_ctrl_activate HZ now fuel t a dq)
        (\<lambda>(b, db). feed_entries HZ now fuel i vj delayed ts b db))" for fuel
      using True by (simp add: pre_def)
    have st: "settles (\<lambda>fuel. run_bind (tbq_token_ctrl_activate HZ now fuel t a dq) (\<lambda>(b, db). feed_entries HZ now fuel i vj delayed ts b db))"
      if "pre = Ret a" for a
    proof (rule settles_bind [OF activate_settles(1) [OF pre(2) [OF that]]])
      fix n x assume "\<forall>k \<ge> n. tbq_token_ctrl_activate HZ now k t a dq = Ret x"
      then have "backlog_sane (fst x)" using activate_settles(2) [OF pre(2) [OF that]] by (metis order_refl prod.collapse)
      with Cons.IH [of "fst x" delayed "snd x"] show "settles (\<lambda>k. case x of (b, db) \<Rightarrow> feed_entries HZ now k i vj delayed ts b db)"
        by (simp add: case_prod_beta)
    qed
    have "backlog_sane tbq'" if r: "feed_entries HZ now fuel i vj delayed (t # ts) tbq dq = Ret (tbq', dq')" for fuel tbq' dq'
    proof -
      from r obtain a b db where a: "pre = Ret a" "tbq_token_ctrl_activate HZ now fuel t a dq = Ret (b, db)" "feed_entries HZ now fuel i vj delayed ts b db = Ret (tbq', dq')"
        unfolding op by (auto simp: run_simps)
      with Cons.IH activate_settles(2) [OF pre(2) [OF a(1)] a(2)] show ?thesis by blast
    qed
    moreover have "settles (\<lambda>fuel. feed_entries HZ now fuel i vj delayed (t # ts) tbq dq)"
      unfolding op using pre(1) st by (rule settles_bind_const)
    ultimately show ?thesis by blast
  next
    case False
    with Cons.IH [of "vec_add_tail i t tbq" "Some t" dq] Cons.prems show ?thesis by simp
  qed
qed

lemma feed_slots_settles:
  assumes "backlog_sane tbq"
  shows "settles (\<lambda>fuel. feed_slots HZ now fuel k tbq dq)
    \<and> (\<forall>fuel tbq' dq'. feed_slots HZ now fuel k tbq dq = Ret (tbq', dq') \<longrightarrow> backlog_sane tbq')"
  using assms
proof (induction k arbitrary: tbq dq)
  case 0
  then show ?case by (simp add: settles_const)
next
  case (Suc k)
  let ?vj = "tm_jiffies tbq" let ?i = "?vj mod TBQ_TIMER_VEC"
  let ?a = "tbq\<lparr>tm_jiffies := ?vj + 1, vec := (vec tbq)(?i := []), stale := (stale tbq)(?i := False)\<rparr>"
  have op: "feed_slots HZ now fuel (Suc k) tbq dq = run_bind (feed_entries HZ now fuel ?i ?vj None (vec tbq ?i) ?a dq)
      (\<lambda>(b, db). feed_slots HZ now fuel k b db)" for fuel by (simp add: Let_def)
  have "backlog_sane ?a" using Suc.prems by simp
  note fe = feed_entries_settles [OF this, of HZ now ?i ?vj None "vec tbq ?i" dq]
  have "settles (\<lambda>fuel. feed_slots HZ now fuel (Suc k) tbq dq)" unfolding op
  proof (rule settles_bind [OF conjunct1 [OF fe]])
    fix n x assume "\<forall>j \<ge> n. feed_entries HZ now j ?i ?vj None (vec tbq ?i) ?a dq = Ret x"
    then have "feed_entries HZ now n ?i ?vj None (vec tbq ?i) ?a dq = Ret (fst x, snd x)" by simp
    with fe have "backlog_sane (fst x)" by blast
    with Suc.IH [of "fst x" "snd x"] show "settles (\<lambda>j. case x of (b, db) \<Rightarrow> feed_slots HZ now j k b db)" by (simp add: case_prod_beta)
  qed
  moreover have "backlog_sane tbq'" if "feed_slots HZ now fuel (Suc k) tbq dq = Ret (tbq', dq')" for fuel tbq' dq'
    using that fe Suc.IH unfolding op by (fastforce simp: run_simps)
  ultimately show ?case by blast
qed

lemma timer_settles:
  assumes "backlog_sane tbq"
  shows "settles (\<lambda>fuel. tbq_timer_func HZ now fuel tbq)" and "tbq_timer_func HZ now fuel tbq = Ret (tbq', dq, c) \<Longrightarrow> backlog_sane tbq'"
proof -
  note fs = feed_slots_settles [OF assms, of HZ now "now + 1 - tm_jiffies tbq" no_dq, folded tbq_timer_feed_def]
  have fs2: "tbq_timer_feed HZ now k tbq no_dq = Ret (a, d) \<Longrightarrow> backlog_sane a" for k a d using fs by blast
  show "settles (\<lambda>fuel. tbq_timer_func HZ now fuel tbq)" unfolding tbq_timer_func_def
    using conjunct1 [OF fs] by (rule settles_bind) (auto simp: tbq_timer_assert_unused_def Let_def no_fuel split: prod.splits intro!: settles_const)
  show "tbq_timer_func HZ now fuel tbq = Ret (tbq', dq, c) \<Longrightarrow> backlog_sane tbq'"
    using fs2 by (auto simp: tbq_timer_func_def Let_def run_simps split: if_splits)
qed

section \<open>Every state of a run\<close>

lemma user_alloc_sane:
  assumes "tbq_user_track_alloc now uid ip a = Ret b" "backlog_sane a"
  shows "backlog_sane b"
proof -
  have i: "user_inits now uid dir wt rs c = Ret d \<Longrightarrow> (bl_tc (ubl d u) = bl_tc (ubl c u) \<or> bl_tc (ubl d u) = None) \<and> fpk d = fpk c" for dir wt rs c d u
    by (induction rs arbitrary: c) (fastforce simp: run_simps tbq_user_init_def tbq_upds tbq_backlog_init_def split: if_splits)+
  have s: "backlog_sane d" if op: "tbq_user_sched_init now uid dir wt m c = Ret d" and c: "backlog_sane c" for dir wt m c d
  proof (rule sane_less [OF _ _ c])
    show "bl_tc (ubl d u) = bl_tc (ubl c u) \<or> bl_tc (ubl d u) = None" for u using i [OF op [unfolded tbq_user_sched_init_def], of u] by simp
    show "fpk c f = [] \<Longrightarrow> fpk d f = []" for f using i [OF op [unfolded tbq_user_sched_init_def]] by simp
  qed
  have "backlog_sane (a\<lparr>users := us, u_mask := m\<rparr>)" for us m using assms(2) by (rule sane_less [rotated 2]) simp_all
  with assms(1) s show ?thesis unfolding tbq_user_track_alloc_def Let_def run_bind_eq_Ret by blast
qed

lemma flow_track_sane: "backlog_sane a \<Longrightarrow> backlog_sane (flow_track skb a)"
  by (erule sane_less [rotated 2]) (auto simp: flow_track_def tbq_flow_track_init_def Let_def split: prod.splits)

lemma filter_sane:
  assumes "tbq_filter_packet HZ now ok skb dir a = Ret (b, v, p)" "backlog_sane a"
  shows "backlog_sane b"
proof -
  have fv: "filter_verdict HZ now p c = Ret (d, v) \<Longrightarrow> backlog_sane c \<Longrightarrow> backlog_sane d" for p c d v
    using ebbs_sane ebbs_consume by (fastforce simp: filter_verdict_def run_simps split: if_splits)
  from assms(1) show ?thesis
    using assms(2) user_alloc_sane flow_track_sane [of _ skb] fv
    by (auto simp: tbq_filter_packet_def run_simps Let_def split: if_splits)
qed

lemma enqueue_tail_sane:
  assumes "enqueue_tail fb p fa a = Ret (b, res)" "backlog_sane a"
  shows "backlog_sane b"
proof -
  from assms(1) obtain c d where s: "tbq_flow_backlog_enqueue fb p a = Ret c"
    "tbq_packet_ctrl_backlog_update p (sint (p_len p)) (if fa then Some (fst fb) else None) c = Ret d" "b = d\<lparr>backlog_packets := backlog_packets d + 1\<rparr>"
    by (auto simp: enqueue_tail_def run_simps)
  have c: "bl_tc (ubl c u) = bl_tc (ubl a u)" "fpk c = (fpk a)(fb := fpk a fb @ [p])" for u
    using s(1) by (auto simp: tbq_flow_backlog_enqueue_def tbq_upds tbq_backlog_enqueue_def split: option.splits)
  have "{f. fpk c f \<noteq> []} = insert fb {f. fpk a f \<noteq> []}" by (auto simp: c(2))
  then have "backlog_sane c" using assms(2) by (simp add: backlog_sane_def c(1))
  with ebbs_sane [OF ebbs_update [OF s(2)]] s(3) show ?thesis by simp
qed

lemma enqueue_sane:
  assumes op: "tbq_enqueue HZ now p a = Ret (b, res)" and a: "backlog_sane a"
  shows "backlog_sane b"
proof (cases "status a = TBQ_STATUS_RUNNING")
  case run: True
  let ?fb = "(p_flow p, p_dir p)"
  from op run obtain e where e: "tbq_flow_backlog_empty ?fb a = Ret e" by (auto simp: tbq_enqueue_def Let_def run_simps)
  show ?thesis
  proof (cases e)
    case True
    with op run e obtain c r where c: "tbq_packet_ctrl_consume HZ now p a = Ret (c, r)"
      by (auto simp: tbq_enqueue_def Let_def run_simps)
    have sc: "backlog_sane c" using ebbs_consume [OF c(1)] ebbs_sane a by blast
    show ?thesis
    proof (cases r)
      case None
      with op run e True c sc show ?thesis by (auto simp: tbq_enqueue_def Let_def)
    next
      case (Some u)
      with op run e True c obtain d where "tbq_flow_backlog_attach ?fb u c = Ret d" "enqueue_tail ?fb p True d = Ret (b, res)"
        by (auto simp: tbq_enqueue_def Let_def run_simps)
      with sc attach_effect(6) enqueue_tail_sane show ?thesis by blast
    qed
  next
    case False
    with op run e obtain c dq where c: "tbq_flow_backlog_drop ?fb a no_dq = Ret (c, dq)"
      "b = c\<lparr>backlog_packets := backlog_packets b\<rparr> \<or> enqueue_tail ?fb p False c = Ret (b, res)"
      by (auto simp: tbq_enqueue_def Let_def run_simps split: if_splits)
    have "backlog_sane c" using ebbs_sane [OF ebbs_drop [OF c(1)] a] .
    with c(2) enqueue_tail_sane sane_masks(7) show ?thesis by metis
  qed
qed (use op a in \<open>simp add: tbq_enqueue_def\<close>)

lemma user_free_sane:
  assumes "tbq_on_user_free uid a = Ret b" "backlog_sane a"
  shows "backlog_sane b"
proof -
  have t: "timer_dels ts c = Ret d \<Longrightarrow> backlog_sane d = backlog_sane c" for ts c d
    by (induction ts arbitrary: c) (auto simp: run_simps dest!: timer_del_sane)
  have s: "tbq_user_sched_cleanup uid dir m c = Ret d \<Longrightarrow> backlog_sane d = backlog_sane c" for dir m c d
    by (auto simp: tbq_user_sched_cleanup_def Let_def run_simps dest!: t)
  have "backlog_sane (a\<lparr>users := us\<rparr>) = backlog_sane a" for us by (rule sane_cong) simp_all
  with assms show ?thesis
    by (auto simp: tbq_on_user_free_def tbq_user_track_free_def Let_def run_simps split: if_splits dest!: s)
qed

lemma step_sane:
  assumes op: "tbq_step HZ e a = Ret (b, ps)" and a: "backlog_sane a"
  shows "backlog_sane b"
proof (cases e)
  case (Hook now ok h)
  with op obtain v p where "tbq_nf_hook HZ now ok h a = Ret (b, v, p)" by (auto simp: run_simps)
  then show ?thesis using filter_sane a by (auto simp: tbq_nf_hook_def split: option.splits if_splits)
next
  case (Enqueue now p)
  with op a show ?thesis by (auto simp: run_simps intro: enqueue_sane)
next
  case (Tick now fuel)
  with op a show ?thesis by (auto simp: run_simps intro: timer_settles(2))
next
  case (FlowFree now f)
  with op a show ?thesis using sane_cong [of b a]
    by (auto simp: run_simps tbq_on_flow_free_def tbq_flow_track_cleanup_def split: if_splits)
next
  case (UserFree now u)
  with op a show ?thesis by (auto simp: run_simps intro: user_free_sane)
qed

lemma run_sane: "run_steps (tbq_step HZ) es a = Ret (b, ps) \<Longrightarrow> backlog_sane a \<Longrightarrow> backlog_sane b"
  by (induction es arbitrary: a ps) (fastforce simp: run_simps dest: step_sane)+

definition no_backlog :: "tbq_global \<Rightarrow> bool" where
  "no_backlog tbq \<longleftrightarrow> (\<forall>fb. fpk tbq fb = []) \<and> (\<forall>u. bl_tc (ubl tbq u) = None)"

lemma no_backlog_sane: "no_backlog tbq \<Longrightarrow> backlog_sane tbq"
  by (simp add: no_backlog_def backlog_sane_def del: split_paired_All split_paired_Ex not_None_eq)

text \<open>
  C31: The timer always comes to an end. In every state that a run of packets, queueings, timer ticks
  and removals can lead to from an empty backlog, the timer function (its loops over the due
  controls, the users of a bucket and the flows of a user) ends after finitely many turns: from some
  fuel on its outcome stays the same, and is not the want of fuel.
\<close>

theorem timer_finishes:
  assumes "no_backlog tbq" "run_steps (tbq_step HZ) es tbq = Ret (tbq', ps)"
  shows "\<exists>n r. r \<noteq> Fault NoFuel \<and> (\<forall>fuel \<ge> n. tbq_timer_func HZ now fuel tbq' = r)"
  using timer_settles(1) [OF run_sane [OF assms(2) no_backlog_sane [OF assms(1)]], of HZ now] by (simp add: settles_def)

lemma demo_no_backlog: "no_backlog demo_shaper"
  by (simp add: no_backlog_def demo_queues)
    (simp add: demo_shaper_def tbq_bucket_sched_init_def tbq_global_init_def TBQ_RULE_COUNT_MAX_def tbq_backlog_init_def)

theorem timer_finishes_witness:
  "\<exists>tbq' ps n r. run_steps (tbq_step 2) demo_events demo_shaper = Ret (tbq', ps) \<and> r \<noteq> Fault NoFuel
     \<and> (\<forall>fuel \<ge> n. tbq_timer_func 2 5 fuel tbq' = r)"
proof -
  obtain tbq' where r: "run_steps (tbq_step 2) demo_events demo_shaper = Ret (tbq', [demo_packet 20])"
    using demo_run by (auto split: run.splits)
  from timer_finishes [OF demo_no_backlog r, of 5] r show ?thesis by blast
qed

end
