(* ===== verification/Lua_Encrypt.thy ===== *)
theory Lua_Encrypt
  imports Prelude
begin

text \<open>
  The message codec of the services (\<open>lua-encrypt/src/libencrypt.c\<close> and its Lua binding \<open>luawrap.c\<close>):
  a header of four bytes with type and length, and a body that is plain, masked or compressed. The bound
  of the compressed size is that of \<open>lz4.h\<close>; the compression itself (the vendored \<open>lz4.c\<close>) and the memory
  allocation are parameters. The \<open>BUG_ON\<close> of this library ends the process.
\<close>

section \<open>Words and bytes\<close>

text \<open>\<open>htonl\<close> and a store, and a load and \<open>ntohl\<close>.\<close>

definition put32 :: "u32 \<Rightarrow> u8 list" where
  "put32 w = [ucast (drop_bit 24 w), ucast (drop_bit 16 w), ucast (drop_bit 8 w), ucast w]"

definition get32 :: "u8 list \<Rightarrow> u32" where
  "get32 b = push_bit 24 (ucast (b ! 0)) OR push_bit 16 (ucast (b ! 1)) OR push_bit 8 (ucast (b ! 2)) OR ucast (b ! 3)"

definition sizeof_header :: nat where "sizeof_header = 4"

definition LEN_MAX :: nat where "LEN_MAX = 10 * 1024 * 1024"

record enc_env =
  malloc_ok :: "nat \<Rightarrow> bool"
  host_bytes :: "u32 \<Rightarrow> u8 list"
  compress_default :: "u8 list \<Rightarrow> nat \<Rightarrow> int \<times> u8 list"
  decompress_safe :: "u8 list \<Rightarrow> int \<Rightarrow> int \<times> u8 list"

text \<open>\<open>lz4.h\<close>: the most that a compression writes, and 0 for inputs that are too long.\<close>

definition LZ4_MAX_INPUT_SIZE :: nat where "LZ4_MAX_INPUT_SIZE = 0x7E000000"

definition LZ4_compressBound :: "nat \<Rightarrow> nat" where
  "LZ4_compressBound n = (if n > LZ4_MAX_INPUT_SIZE then 0 else n + n div 255 + 16)"

section \<open>libencrypt.c\<close>

definition seed1 :: u32 where "seed1 = 0xBCEF3A7E"

text \<open>Four bytes at a time, with the bytes of the seed in the order of the host; the rest stays.\<close>

fun xor_buf :: "u8 list \<Rightarrow> u8 list \<Rightarrow> u8 list" where
  "xor_buf k (a # b # c # d # r) = (a XOR k ! 0) # (b XOR k ! 1) # (c XOR k ! 2) # (d XOR k ! 3) # xor_buf k r"
| "xor_buf k r = r"

definition encrypt_get_header :: "u32 \<Rightarrow> nat \<times> nat" where
  "encrypt_get_header h = (unat (h AND 0x0f), unat (drop_bit 4 h))"

definition encrypt_set_header :: "nat \<Rightarrow> nat \<Rightarrow> u32" where
  "encrypt_set_header type len = push_bit 4 (of_nat len) OR of_nat type"

definition encrypt_encode01 :: "enc_env \<Rightarrow> nat \<Rightarrow> u8 list \<Rightarrow> u8 list run" where
  "encrypt_encode01 env type s =
     (let total = sizeof_header + length s
      in run_bind (assertion (malloc_ok env total)) (\<lambda>_.
           let h = put32 (encrypt_set_header type total)
           in if type = 0 then Ret (h @ s)
              else if type = 1 then Ret (h @ xor_buf (host_bytes env seed1) s)
              else Fault BugOn))"

text \<open>
  The compressor is told that it may write \<open>max\<close> bytes, four more than the memory has left behind the
  header and the length. Writing them is a fault.
\<close>

definition encrypt_encode2 :: "enc_env \<Rightarrow> nat \<Rightarrow> u8 list \<Rightarrow> u8 list run" where
  "encrypt_encode2 env type buf =
     run_bind (assertion (type = 2)) (\<lambda>_.
       let max' = LZ4_compressBound (length buf) + 4
       in run_bind (assertion (max' \<le> LEN_MAX \<and> malloc_ok env (max' + sizeof_header))) (\<lambda>_.
            let (ret, out) = compress_default env buf max'
            in run_bind (assertion (0 < ret \<and> ret < int max')) (\<lambda>_.
                 if max' - 4 < length out then Fault Undefined
                 else Ret (put32 (encrypt_set_header type (nat ret + sizeof_header + 4)) @ put32 (of_nat (length buf)) @ out))))"

text \<open>
  The original length is an \<open>int\<close>: only large positive values are refused. The size of the memory is
  \<open>orig + 2\<close> as a \<open>size_t\<close>. None is the null pointer; otherwise the result is the memory and the
  length reported for it.
\<close>

definition encrypt_decode2 :: "enc_env \<Rightarrow> nat \<Rightarrow> u8 list \<Rightarrow> (u8 list \<times> int) option run" where
  "encrypt_decode2 env type buf =
     (if length buf \<le> sizeof_header + 4 then Ret None
      else
        run_bind (assertion (type = 2)) (\<lambda>_.
          let (htype, hlen) = encrypt_get_header (get32 (take 4 buf)); orig = sint (get32 (take 4 (drop 4 buf)))
          in if hlen \<noteq> length buf then Ret None
             else if orig \<ge> int LEN_MAX then Ret None
             else
               run_bind (assertion (malloc_ok env (unat (word_of_int (orig + 2) :: u32)))) (\<lambda>_.
                 let (ret, out) = decompress_safe env (drop 8 buf) (orig + 2)
                 in run_bind (assertion (ret \<le> orig)) (\<lambda>_. Ret (if ret \<noteq> orig then None else Some (out, orig))))))"

definition encrypt_decode01 :: "enc_env \<Rightarrow> nat \<Rightarrow> u8 list \<Rightarrow> u8 list run" where
  "encrypt_decode01 env type buf =
     (let (htype, hlen) = encrypt_get_header (get32 (take 4 buf)); total = int (length buf) - int sizeof_header
      in run_bind (assertion (type = htype \<and> length buf = hlen \<and> 0 < total \<and> total \<le> int LEN_MAX \<and> malloc_ok env (nat total))) (\<lambda>_.
           if type = 0 then Ret (drop 4 buf)
           else if type = 1 then Ret (xor_buf (host_bytes env seed1) (drop 4 buf))
           else Fault BugOn))"

section \<open>luawrap.c\<close>

text \<open>The results seen from Lua: a string, or nil and a message.\<close>

datatype lua_result = LuaString "u8 list" | InvalidLen | InvalidType | DecodeFail | TooShort | LuaHeader nat nat

definition l_encode :: "enc_env \<Rightarrow> int \<Rightarrow> u8 list \<Rightarrow> lua_result run" where
  "l_encode env type s =
     (if s = [] \<or> LEN_MAX < length s then Ret InvalidLen
      else if type = 0 \<or> type = 1 then run_bind (encrypt_encode01 env (nat type) s) (\<lambda>n. Ret (LuaString n))
      else if type = 2 then run_bind (encrypt_encode2 env (nat type) s) (\<lambda>n. Ret (LuaString n))
      else Ret InvalidType)"

text \<open>The header is copied before the length is checked; a Lua string ends with a 0.\<close>

definition l_decode_message :: "enc_env \<Rightarrow> u8 list \<Rightarrow> lua_result run" where
  "l_decode_message env s =
     (if length s < 3 then Fault Undefined
      else
        (let (htype, hlen) = encrypt_get_header (get32 (take 4 (s @ [0])))
         in if length s \<le> 4 \<or> hlen \<noteq> length s then Ret InvalidLen
            else if htype = 0 \<or> htype = 1 then run_bind (encrypt_decode01 env htype s) (\<lambda>n. Ret (LuaString n))
            else if htype = 2
            then run_bind (encrypt_decode2 env htype s) (\<lambda>n.
                   case n of
                     None \<Rightarrow> Ret DecodeFail
                   | Some (n, out) \<Rightarrow> if out < 0 then Fault Undefined else Ret (LuaString (take (nat out) n)))
            else Ret InvalidType))"

definition l_header :: "u8 list \<Rightarrow> lua_result" where
  "l_header s =
     (if length s < 4 then TooShort else (let (htype, hlen) = encrypt_get_header (get32 (take 4 s)) in LuaHeader hlen htype))"

section \<open>Headers\<close>

lemma length_put32 [simp]: "length (put32 w) = 4"
  by (simp add: put32_def)

lemma get_put32 [simp]: "get32 (put32 w) = w"
proof (rule bit_word_eqI)
  fix n assume n: "n < LENGTH(32)"
  then consider "n < 8" | "8 \<le> n" "n < 16" | "16 \<le> n" "n < 24" | "24 \<le> n" "n < 32" by force
  then show "bit (get32 (put32 w)) n = bit w n"
    by cases (auto simp: get32_def put32_def bit_simps)
qed

lemma nibble_bit: "type < 16 \<Longrightarrow> bit (type :: nat) n \<Longrightarrow> n < 4"
proof (rule ccontr)
  assume t: "type < 16" and b: "bit type n" and n: "\<not> n < 4"
  have "type < 2 ^ n" using t n power_increasing [of 4 n "2 :: nat"] by simp
  then show False using b by (simp add: bit_iff_odd)
qed

lemma header_value: "type < 16 \<Longrightarrow> encrypt_set_header type len = of_nat (16 * len + type)"
proof -
  assume t: "type < 16"
  have "push_bit 4 (of_nat len :: u32) AND of_nat type = 0"
    by (rule bit_word_eqI) (auto simp: bit_simps dest: nibble_bit [OF t])
  then have "encrypt_set_header type len = push_bit 4 (of_nat len) + of_nat type"
    unfolding encrypt_set_header_def by (simp add: disjunctive_add_eq_or)
  then show ?thesis by (simp add: push_bit_eq_mult)
qed

lemma header_fields: "encrypt_get_header w = (unat w mod 16, unat w div 16)"
proof -
  have "w AND 0x0f = take_bit 4 w" by (simp add: take_bit_eq_mask mask_eq_exp_minus_1)
  also have "unat (take_bit 4 w) = take_bit 4 (unat w)" by (rule unsigned_take_bit_eq)
  finally have "unat (w AND 0x0f) = unat w mod 16" by (simp only: take_bit_eq_mod) simp
  moreover have "unat (drop_bit 4 w) = unat w div 16" by (simp only: unat_drop_bit_eq) (simp add: drop_bit_eq_div)
  ultimately show ?thesis by (simp add: encrypt_get_header_def)
qed

lemma header_roundtrip:
  assumes "type < 16" and "len < 2 ^ 28"
  shows "encrypt_get_header (encrypt_set_header type len) = (type, len)"
proof -
  let ?h = "of_nat (16 * len + type) :: u32"
  have "unat ?h = take_bit 32 (16 * len + type)" by (simp only: unsigned_of_nat) simp
  also have "\<dots> = 16 * len + type" using assms by (intro take_bit_nat_eq_self) simp
  finally have "unat ?h = 16 * len + type" .
  then show ?thesis unfolding header_value [OF assms(1)] header_fields using assms(1) by simp
qed

lemma length_xor [simp]: "length (xor_buf k s) = length s"
  by (induction k s rule: xor_buf.induct) simp_all

lemma xor_xor [simp]: "xor_buf k (xor_buf k s) = s"
  by (induction k s rule: xor_buf.induct) (simp_all add: xor.assoc)

section \<open>Messages\<close>

lemma message_header:
  assumes "type < 16" and "len < 2 ^ 28" and "length r = n"
  shows "encrypt_get_header (get32 (take 4 ((put32 (encrypt_set_header type len) @ r) @ [0]))) = (type, len)"
    and "encrypt_get_header (get32 (take 4 (put32 (encrypt_set_header type len) @ r))) = (type, len)"
  using assms by (simp_all add: header_roundtrip)

lemma decode01_message:
  assumes "type < 2" and "0 < length b" and "length b \<le> LEN_MAX" and "\<forall>n. malloc_ok env n"
  shows "l_decode_message env (put32 (encrypt_set_header type (4 + length b)) @ b) =
         Ret (LuaString (if type = 0 then b else xor_buf (host_bytes env seed1) b))"
proof -
  have "type < 16" "4 + length b < 2 ^ 28" using assms by (simp_all add: LEN_MAX_def)
  note h = message_header [OF this refl, of b]
  from assms(1) have "type = 0 \<or> type = 1" by auto
  then show ?thesis using assms h
    by (auto simp: l_decode_message_def encrypt_decode01_def assertion_def sizeof_header_def)
qed

lemma small_sint: "n < 2 ^ 31 \<Longrightarrow> sint (of_nat n :: u32) = int n"
  by (simp add: signed_of_nat signed_take_bit_int_eq_self)

lemma decode2_message:
  assumes "0 < length z" and "length z \<le> LEN_MAX" and "0 < n" and "n < LEN_MAX" and "\<forall>n. malloc_ok env n"
    and "decompress_safe env z (int n + 2) = (int n, s)"
  shows "l_decode_message env (put32 (encrypt_set_header 2 (8 + length z)) @ put32 (of_nat n) @ z) = Ret (LuaString (take n s))"
proof -
  have "2 < (16 :: nat)" "8 + length z < 2 ^ 28" "n < 2 ^ 31" using assms by (simp_all add: LEN_MAX_def)
  note h = message_header [OF this(1,2) refl, of "put32 (of_nat n) @ z"] and n = small_sint [OF this(3)]
  show ?thesis using assms h n
    by (simp add: l_decode_message_def encrypt_decode2_def assertion_def sizeof_header_def)
qed

section \<open>Round trip\<close>

text \<open>
  What \<open>lz4.h\<close> documents for inputs it supports: with room for \<open>LZ4_compressBound\<close> bytes the compression
  succeeds and stays in them, and with room for the original the decompression returns it. Sizes are
  values of \<open>int\<close>.
\<close>

definition lz4_documented :: "enc_env \<Rightarrow> bool" where
  "lz4_documented env \<longleftrightarrow>
     (\<forall>s cap. s \<noteq> [] \<and> length s \<le> LZ4_MAX_INPUT_SIZE \<and> LZ4_compressBound (length s) \<le> cap \<and> cap < 2 ^ 31 \<longrightarrow>
        (\<exists>z. compress_default env s cap = (int (length z), z) \<and> z \<noteq> [] \<and> length z \<le> LZ4_compressBound (length s) \<and>
             (\<forall>room. int (length s) \<le> room \<and> room < 2 ^ 31 \<longrightarrow> decompress_safe env z room = (int (length s), s))))"

lemma bound_small: "n \<le> LEN_MAX \<Longrightarrow> LZ4_compressBound n = n + n div 255 + 16"
  by (simp add: LZ4_compressBound_def LZ4_MAX_INPUT_SIZE_def LEN_MAX_def)

lemma encode01_message:
  assumes "s \<noteq> []" and "length s \<le> LEN_MAX" and "\<forall>n. malloc_ok env n" and "type < 2"
  shows "l_encode env (int type) s =
         Ret (LuaString (put32 (encrypt_set_header type (4 + length s)) @ (if type = 0 then s else xor_buf (host_bytes env seed1) s)))"
  using assms by (auto simp: l_encode_def encrypt_encode01_def assertion_def sizeof_header_def less_2_cases_iff)

lemma encode2_message:
  assumes "s \<noteq> []" and "length s \<le> LEN_MAX" and "LZ4_compressBound (length s) + 4 \<le> LEN_MAX" and "\<forall>n. malloc_ok env n"
    and "lz4_documented env"
  obtains z where "l_encode env 2 s = Ret (LuaString (put32 (encrypt_set_header 2 (8 + length z)) @ put32 (of_nat (length s)) @ z))"
    and "0 < length z" and "length z \<le> LEN_MAX" and "decompress_safe env z (int (length s) + 2) = (int (length s), s)"
    and "length s < LEN_MAX"
proof -
  let ?cap = "LZ4_compressBound (length s) + 4"
  have small: "length s \<le> LZ4_MAX_INPUT_SIZE" "?cap < 2 ^ 31" "int (length s) + 2 < 2 ^ 31"
    using assms(2,3) by (simp_all add: LZ4_MAX_INPUT_SIZE_def LEN_MAX_def)
  from assms(1,5) small(1,2) obtain z where z: "compress_default env s ?cap = (int (length z), z)" "z \<noteq> []"
      "length z \<le> LZ4_compressBound (length s)"
      "\<forall>room. int (length s) \<le> room \<and> room < 2 ^ 31 \<longrightarrow> decompress_safe env z room = (int (length s), s)"
    unfolding lz4_documented_def by (metis le_add1)
  have len: "length s + 16 \<le> LZ4_compressBound (length s)" using bound_small [OF assms(2)] by simp
  show thesis
  proof (rule that [of z])
    show "l_encode env 2 s = Ret (LuaString (put32 (encrypt_set_header 2 (8 + length z)) @ put32 (of_nat (length s)) @ z))"
      using assms(1-4) z(1-3) by (simp add: l_encode_def encrypt_encode2_def assertion_def sizeof_header_def ac_simps)
    show "decompress_safe env z (int (length s) + 2) = (int (length s), s)" using z(4) small(3) by simp
  qed (use assms(3) z(2,3) len in auto)
qed

text \<open>
  The binding accepts 10 MB, but a string whose compressed size might exceed that, with four bytes for
  its length, stops the process.
\<close>

lemma compress_limit:
  assumes "s \<noteq> []" and "length s \<le> LEN_MAX" and "LEN_MAX < LZ4_compressBound (length s) + 4"
  shows "l_encode env 2 s = Fault BugOn"
  using assms by (simp add: l_encode_def encrypt_encode2_def assertion_def)

lemma roundtrip01:
  assumes "t < 2" and "s \<noteq> []" and "length s \<le> LEN_MAX" and "\<forall>n. malloc_ok env n"
  shows "\<exists>m. l_encode env (int t) s = Ret (LuaString m) \<and> l_header m = LuaHeader (length m) t \<and> l_decode_message env m = Ret (LuaString s)"
proof -
  have "4 + length s < 2 ^ 28" using assms(3) by (simp add: LEN_MAX_def)
  moreover have "length (if t = 0 then s else xor_buf (host_bytes env seed1) s) = length s" by simp
  ultimately show ?thesis
    using encode01_message [OF assms(2-4,1)] assms
      decode01_message [OF assms(1), of "if t = 0 then s else xor_buf (host_bytes env seed1) s" env]
    by (auto simp: l_header_def header_roundtrip)
qed

lemma roundtrip2:
  assumes "s \<noteq> []" and "length s \<le> LEN_MAX" and "LZ4_compressBound (length s) + 4 \<le> LEN_MAX" and "\<forall>n. malloc_ok env n"
    and "lz4_documented env"
  shows "\<exists>m. l_encode env 2 s = Ret (LuaString m) \<and> l_header m = LuaHeader (length m) 2 \<and> l_decode_message env m = Ret (LuaString s)"
proof -
  from encode2_message [OF assms] obtain z
    where m: "l_encode env 2 s = Ret (LuaString (put32 (encrypt_set_header 2 (8 + length z)) @ put32 (of_nat (length s)) @ z))"
      and z: "0 < length z" "length z \<le> LEN_MAX" "decompress_safe env z (int (length s) + 2) = (int (length s), s)"
      and s: "length s < LEN_MAX" .
  have "8 + length z < 2 ^ 28" using z(2) by (simp add: LEN_MAX_def)
  then show ?thesis
    using m decode2_message [OF z(1,2) _ s assms(4) z(3)] assms(1) by (simp add: l_header_def header_roundtrip)
qed

text \<open>
  C37: the message codec, with working memory. A string of 1 byte to 10 MB encodes plain (type 0) and masked
  (type 1), and compressed (type 2) when its length \<open>n\<close> has \<open>n + n div 255 + 20\<close> at most 10 MB and the
  compressor does what it documents: the header of the message states its type and exact length, and
  decoding returns the string. A longer string of at most 10 MB ends the process when it is to be
  compressed. An empty or longer string, and any other type, is refused.
\<close>

theorem encode_decode:
  assumes "\<forall>n. malloc_ok env n" and "type = 2 \<longrightarrow> lz4_documented env"
  shows "if s = [] \<or> LEN_MAX < length s then l_encode env type s = Ret InvalidLen
    else if type \<notin> {0, 1, 2} then l_encode env type s = Ret InvalidType
    else if type = 2 \<and> LEN_MAX < length s + length s div 255 + 20 then l_encode env type s = Fault BugOn
    else \<exists>m. l_encode env type s = Ret (LuaString m) \<and> l_header m = LuaHeader (length m) (nat type) \<and>
             l_decode_message env m = Ret (LuaString s)"
proof (cases "s = [] \<or> LEN_MAX < length s \<or> type \<notin> {0, 1, 2}")
  case True
  then show ?thesis by (auto simp: l_encode_def)
next
  case False
  then have s: "s \<noteq> []" "length s \<le> LEN_MAX" and t: "type = int 0 \<or> type = int 1 \<or> type = 2" by auto
  note b = bound_small [OF s(2)]
  show ?thesis
  proof (cases "type = 2")
    case True
    then show ?thesis
      using s b assms compress_limit [OF s, of env] roundtrip2 [OF s, of env] by (auto simp: not_less)
  next
    case False
    with t obtain k where "type = int k" "k < 2" by force
    with s assms(1) roundtrip01 [of k s env] show ?thesis by auto
  qed
qed

text \<open>The compressor of the witness stores.\<close>

definition storing_env :: enc_env where
  "storing_env = \<lparr>malloc_ok = \<lambda>n. True, host_bytes = \<lambda>w. rev (put32 w),
     compress_default = \<lambda>s cap. (int (length s), s), decompress_safe = \<lambda>z cap. (int (length z), z)\<rparr>"

lemma storing_documented: "lz4_documented storing_env"
  by (auto simp: lz4_documented_def storing_env_def LZ4_compressBound_def)

theorem encode_decode_witness:
  "\<exists>m. l_encode storing_env 2 [104, 105] = Ret (LuaString m) \<and> l_header m = LuaHeader (length m) 2 \<and>
       l_decode_message storing_env m = Ret (LuaString [104, 105])"
proof -
  have "\<forall>n. malloc_ok storing_env n" "(2 :: int) = 2 \<longrightarrow> lz4_documented storing_env"
    using storing_documented by (simp_all add: storing_env_def)
  from encode_decode [OF this, of "[104, 105]"] show ?thesis by (simp add: LEN_MAX_def)
qed

section \<open>Messages that end the process\<close>

text \<open>A received plain message of more than 10 MB is not refused.\<close>

lemma long_message_ends:
  assumes "type < 2" and "LEN_MAX < length b" and "4 + length b < 2 ^ 28"
  shows "l_decode_message env (put32 (encrypt_set_header type (4 + length b)) @ b) = Fault BugOn"
proof -
  have "type < 16" using assms by simp
  note h = message_header [OF this assms(3) refl, of b]
  from assms(1) have "type = 0 \<or> type = 1" by auto
  then show ?thesis using assms h
    by (auto simp: l_decode_message_def encrypt_decode01_def assertion_def sizeof_header_def)
qed

text \<open>
  Nor is a compressed message that holds more than it declares, by at most the two bytes of slack.
\<close>

lemma longer_content_ends:
  assumes "0 < length z" and "length z \<le> LEN_MAX" and "n < LEN_MAX" and "\<forall>n. malloc_ok env n"
    and "decompress_safe env z (int n + 2) = (r, s)" and "int n < r"
  shows "l_decode_message env (put32 (encrypt_set_header 2 (8 + length z)) @ put32 (of_nat n) @ z) = Fault BugOn"
proof -
  have "2 < (16 :: nat)" "8 + length z < 2 ^ 28" "n < 2 ^ 31" using assms by (simp_all add: LEN_MAX_def)
  note h = message_header [OF this(1,2) refl, of "put32 (of_nat n) @ z"] and n = small_sint [OF this(3)]
  show ?thesis using assms h n
    by (simp add: l_decode_message_def encrypt_decode2_def assertion_def sizeof_header_def)
qed

text \<open>The header of a message of less than three bytes is read past its end.\<close>

lemma short_message_read: "length s < 3 \<Longrightarrow> l_decode_message env s = Fault Undefined"
  by (simp add: l_decode_message_def)

end
