(* ===== verification/Klog.thy ===== *)
theory Klog
  imports Prelude
begin

text \<open>
  The log switch of the modules (\<open>drivers/kernel-log/src/klog_linux.c\<close> and \<open>klog_ioctl.c\<close>): one item
  for every module that logs, with the levels it prints, a rate limit, and a timer that ends a
  temporary setting. The memory of the items, the list of them and the timers that are set are kept
  apart, so that a timer can outlive its item. The kernel's \<open>__ratelimit\<close>, the tick rate \<open>HZ\<close> and the
  contents of fresh memory are parameters. Printing (\<open>klog_show_list\<close>, \<open>klog_read\<close>) is left out.
\<close>

section \<open>State\<close>

record klog_ratelimit_state =
  rl_interval :: u32
  rl_burst :: u32
  rl_printed :: u32
  rl_begin :: u32

definition KLOG_ITEM_MAGIC :: u32 where "KLOG_ITEM_MAGIC = 0x2233abcd"

record klog_item =
  k_magic :: u32
  k_verbose :: u32
  original_verbose :: u32
  k_ratelimit :: klog_ratelimit_state
  k_name :: string

text \<open>\<open>timers\<close>: the items whose timer is set, with the time it expires.\<close>

record klog_world =
  items :: "nat \<rightharpoonup> klog_item"
  g_klog_list :: "nat list"
  timers :: "nat \<rightharpoonup> u32"
  jiffies :: u32

section \<open>Operations on an item\<close>

text \<open>Every operation that gets a log handle first reads the item behind it.\<close>

definition with_item :: "nat \<Rightarrow> klog_world \<Rightarrow> (klog_item \<Rightarrow> 'a run) \<Rightarrow> 'a run" where
  "with_item a w f = (case items w a of None \<Rightarrow> Fault Undefined | Some it \<Rightarrow> f it)"

definition put_item :: "nat \<Rightarrow> klog_item \<Rightarrow> klog_world \<Rightarrow> klog_world" where
  "put_item a it w = w\<lparr>items := (items w)(a \<mapsto> it)\<rparr>"

definition restore_verbose :: "nat \<Rightarrow> klog_world \<Rightarrow> klog_world run" where
  "restore_verbose a w =
     with_item a w (\<lambda>it. Ret (put_item a (it\<lparr>k_verbose := original_verbose it, original_verbose := 0\<rparr>) w))"

definition del_timer :: "nat \<Rightarrow> klog_world \<Rightarrow> klog_world" where
  "del_timer a w = w\<lparr>timers := (timers w)(a := None)\<rparr>"

definition mod_timer :: "nat \<Rightarrow> u32 \<Rightarrow> klog_world \<Rightarrow> klog_world" where
  "mod_timer a t w = w\<lparr>timers := (timers w)(a \<mapsto> t)\<rparr>"

text \<open>The timer interrupt: the timer is no longer set when its function runs.\<close>

definition timer_interrupt :: "nat \<Rightarrow> klog_world \<Rightarrow> klog_world run" where
  "timer_interrupt a w = (if timers w a = None then Ret w else restore_verbose a (del_timer a w))"

definition set_item_verbose :: "u16 \<Rightarrow> u16 \<Rightarrow> klog_item \<Rightarrow> klog_item" where
  "set_item_verbose v limit it = it\<lparr>k_verbose := push_bit 16 (ucast limit) OR ucast v\<rparr>"

definition clear_item_timer :: "nat \<Rightarrow> klog_item \<Rightarrow> klog_world \<Rightarrow> klog_item \<times> klog_world" where
  "clear_item_timer a it w = (it\<lparr>original_verbose := 0\<rparr>, del_timer a w)"

section \<open>By name\<close>

text \<open>The walk over the list applies \<open>f\<close> to every item of the name and counts them.\<close>

fun by_name :: "string \<Rightarrow> (nat \<Rightarrow> klog_item \<Rightarrow> klog_world \<Rightarrow> klog_world) \<Rightarrow> nat list \<Rightarrow> nat \<Rightarrow> klog_world \<Rightarrow> (nat \<times> klog_world) run" where
  "by_name n f [] ret w = Ret (ret, w)"
| "by_name n f (a # as) ret w =
     with_item a w (\<lambda>it. if k_name it = n then by_name n f as (ret + 1) (f a it w) else by_name n f as ret w)"

definition count_or_error :: "nat \<times> klog_world \<Rightarrow> int \<times> klog_world" where
  "count_or_error r = (if fst r = 0 then -1 else int (fst r), snd r)"

definition klog_set_verbose_by_name :: "string \<Rightarrow> u16 \<Rightarrow> u16 \<Rightarrow> klog_world \<Rightarrow> (int \<times> klog_world) run" where
  "klog_set_verbose_by_name n v limit w =
     run_bind
       (by_name n (\<lambda>a it w. let (it', w') = clear_item_timer a it w in put_item a (set_item_verbose v limit it') w')
          (g_klog_list w) 0 w)
       (\<lambda>r. Ret (count_or_error r))"

definition set_ratelimit :: "u32 \<Rightarrow> u32 \<Rightarrow> klog_item \<Rightarrow> klog_item" where
  "set_ratelimit i b it = it\<lparr>k_ratelimit := (k_ratelimit it)\<lparr>rl_interval := i, rl_burst := b\<rparr>\<rparr>"

definition klog_set_ratelimit_by_name :: "string \<Rightarrow> u32 \<Rightarrow> u32 \<Rightarrow> klog_world \<Rightarrow> (int \<times> klog_world) run" where
  "klog_set_ratelimit_by_name n i b w =
     run_bind (by_name n (\<lambda>a it w. put_item a (set_ratelimit i b it) w) (g_klog_list w) 0 w) (\<lambda>r. Ret (count_or_error r))"

section \<open>Handles\<close>

text \<open>
  \<open>alloc\<close> is the result of \<open>kmalloc\<close>: an address, and what the field \<open>original_verbose\<close> happens to hold,
  which \<open>klog_init\<close> does not set. \<open>init_timer\<close> clears the links of the timer: on an address whose timer is
  still queued, from an item released before, it breaks the kernel's list of timers.
\<close>

definition init_timer :: "nat \<Rightarrow> klog_world \<Rightarrow> klog_world run" where
  "init_timer a w = (if timers w a = None then Ret w else Fault Undefined)"

definition klog_init :: "u32 \<Rightarrow> (nat \<times> u32) option \<Rightarrow> string option \<Rightarrow> u16 \<Rightarrow> u16 \<Rightarrow> klog_world \<Rightarrow> (nat option \<times> klog_world) run" where
  "klog_init HZ alloc name v limit w =
     (case alloc of
        None \<Rightarrow> Ret (None, w)
      | Some (a, junk) \<Rightarrow>
          let it = set_item_verbose v limit
                \<lparr>k_magic = KLOG_ITEM_MAGIC, k_verbose = 0, original_verbose = junk,
                 k_ratelimit = \<lparr>rl_interval = 10 * HZ, rl_burst = 5, rl_printed = 0, rl_begin = 0\<rparr>,
                 k_name = take 31 (case name of Some n \<Rightarrow> n | None \<Rightarrow> ''undefined'')\<rparr>
          in run_bind (init_timer a (put_item a it w)) (\<lambda>w'. Ret (Some a, w'\<lparr>g_klog_list := a # g_klog_list w'\<rparr>)))"

definition klog_fini :: "nat \<Rightarrow> klog_world \<Rightarrow> (int \<times> klog_world) run" where
  "klog_fini a w =
     with_item a w (\<lambda>it.
       if k_magic it \<noteq> KLOG_ITEM_MAGIC then Ret (-1, w)
       else Ret (0, w\<lparr>g_klog_list := remove1 a (g_klog_list w), items := (items w)(a := None)\<rparr>))"

definition klog_set_ratelimit :: "u32 \<Rightarrow> nat \<Rightarrow> u32 \<Rightarrow> u32 \<Rightarrow> klog_world \<Rightarrow> (int \<times> klog_world) run" where
  "klog_set_ratelimit HZ a i b w =
     with_item a w (\<lambda>it.
       if k_magic it \<noteq> KLOG_ITEM_MAGIC then Ret (-1, w) else Ret (0, put_item a (set_ratelimit (i * HZ) b it) w))"

definition klog_set_verbose :: "u32 \<Rightarrow> nat \<Rightarrow> u16 \<Rightarrow> u16 \<Rightarrow> u32 \<Rightarrow> klog_world \<Rightarrow> (int \<times> klog_world) run" where
  "klog_set_verbose HZ a v limit how_long w =
     with_item a w (\<lambda>it.
       if k_magic it \<noteq> KLOG_ITEM_MAGIC then Ret (-1, w)
       else if how_long = 0 then Ret (0, w)
       else if how_long \<noteq> -1
       then
         (let w1 = del_timer a w;
              it1 = (if original_verbose it = 0 then it\<lparr>original_verbose := k_verbose it\<rparr> else it)
          in Ret (0, mod_timer a (jiffies w + how_long * HZ) (put_item a (set_item_verbose v limit it1) w1)))
       else (let (it1, w1) = clear_item_timer a it w in Ret (0, put_item a (set_item_verbose v limit it1) w1)))"

section \<open>The checks\<close>

datatype klog_verbose_bit = KLOG_VERBOSE_DEBUG | KLOG_VERBOSE_INFO | KLOG_VERBOSE_WARN | KLOG_VERBOSE_ERROR | KLOG_VERBOSE_DUMPBUF
  | KLOG_VERBOSE_TRACE_BASE | KLOG_VERBOSE_TRACE_1 | KLOG_VERBOSE_TRACE_2 | KLOG_VERBOSE_TRACE_3 | KLOG_VERBOSE_TRACE_4
  | KLOG_VERBOSE_TRACE_5 | KLOG_VERBOSE_TRACE_6 | KLOG_VERBOSE_TRACE_7 | KLOG_VERBOSE_TRACE_8 | KLOG_VERBOSE_TRACE_9
  | KLOG_VERBOSE_TRACE_10

fun verbose_bit :: "klog_verbose_bit \<Rightarrow> int" where
  "verbose_bit KLOG_VERBOSE_DEBUG = 0"
| "verbose_bit KLOG_VERBOSE_INFO = 1"
| "verbose_bit KLOG_VERBOSE_WARN = 2"
| "verbose_bit KLOG_VERBOSE_ERROR = 3"
| "verbose_bit KLOG_VERBOSE_DUMPBUF = 4"
| "verbose_bit KLOG_VERBOSE_TRACE_BASE = 5"
| "verbose_bit KLOG_VERBOSE_TRACE_1 = 6"
| "verbose_bit KLOG_VERBOSE_TRACE_2 = 7"
| "verbose_bit KLOG_VERBOSE_TRACE_3 = 8"
| "verbose_bit KLOG_VERBOSE_TRACE_4 = 9"
| "verbose_bit KLOG_VERBOSE_TRACE_5 = 10"
| "verbose_bit KLOG_VERBOSE_TRACE_6 = 11"
| "verbose_bit KLOG_VERBOSE_TRACE_7 = 12"
| "verbose_bit KLOG_VERBOSE_TRACE_8 = 13"
| "verbose_bit KLOG_VERBOSE_TRACE_9 = 14"
| "verbose_bit KLOG_VERBOSE_TRACE_10 = 15"

text \<open>\<open>1 << bit\<close> in an \<open>int\<close>: undefined for a shift outside 0 to 31.\<close>

definition shifted_one :: "int \<Rightarrow> u32 run" where
  "shifted_one b = (if b < 0 \<or> 31 < b then Fault Undefined else Ret (push_bit (nat b) 1))"

definition klog_verbose_check ::
  "(klog_ratelimit_state \<Rightarrow> u32 \<Rightarrow> bool \<times> klog_ratelimit_state) \<Rightarrow> nat \<Rightarrow> int \<Rightarrow> klog_world \<Rightarrow> (bool \<times> klog_world) run" where
  "klog_verbose_check ratelimit a b w =
     with_item a w (\<lambda>it.
       run_bind (shifted_one b) (\<lambda>m.
         if k_verbose it AND m = 0 then Ret (False, w)
         else
           run_bind (shifted_one (b + 16)) (\<lambda>l.
             if k_verbose it AND l = 0 then Ret (True, w)
             else (let (ok, rl) = ratelimit (k_ratelimit it) (jiffies w) in Ret (ok, put_item a (it\<lparr>k_ratelimit := rl\<rparr>) w)))))"

definition klog_debug_check where "klog_debug_check rl a w = klog_verbose_check rl a (verbose_bit KLOG_VERBOSE_DEBUG) w"
definition klog_info_check where "klog_info_check rl a w = klog_verbose_check rl a (verbose_bit KLOG_VERBOSE_INFO) w"
definition klog_warn_check where "klog_warn_check rl a w = klog_verbose_check rl a (verbose_bit KLOG_VERBOSE_WARN) w"
definition klog_error_check where "klog_error_check rl a w = klog_verbose_check rl a (verbose_bit KLOG_VERBOSE_ERROR) w"
definition klog_dumpbuf_check where "klog_dumpbuf_check rl a w = klog_verbose_check rl a (verbose_bit KLOG_VERBOSE_DUMPBUF) w"
definition klog_trace_check where
  "klog_trace_check rl a level w = klog_verbose_check rl a (verbose_bit KLOG_VERBOSE_TRACE_BASE + level) w"

section \<open>The control file\<close>

definition is_xdigit :: "char \<Rightarrow> bool" where
  "is_xdigit c \<longleftrightarrow> is_digit c \<or> (65 \<le> cv c \<and> cv c \<le> 70) \<or> (97 \<le> cv c \<and> cv c \<le> 102)"

definition xdigit_value :: "char \<Rightarrow> nat" where
  "xdigit_value c = (if is_digit c then cv c - 48 else if cv c \<le> 70 then cv c - 55 else cv c - 87)"

fun scan_hex :: "nat \<Rightarrow> string \<Rightarrow> nat \<times> string" where
  "scan_hex acc [] = (acc, [])"
| "scan_hex acc (c # s) = (if is_xdigit c then scan_hex (16 * acc + xdigit_value c) s else (acc, c # s))"

fun skip_0x :: "string \<Rightarrow> string" where
  "skip_0x (c # d # s) = (if c = CHR ''0'' \<and> to_lower d = CHR ''x'' then s else c # d # s)"
| "skip_0x s = s"

text \<open>The directive \<open>%x\<close> of the kernel's \<open>sscanf\<close>, after white space.\<close>

definition scan_x :: "string \<Rightarrow> (nat \<times> string) option" where
  "scan_x s =
     (case dropWhile is_space s of
        [] \<Rightarrow> None
      | c # t \<Rightarrow> if is_xdigit c then Some (scan_hex 0 (skip_0x (c # t))) else None)"

text \<open>\<open>sscanf (s, "<key> %s %x %x", \<dots>) != 3\<close> is None.\<close>

definition scan_command :: "string \<Rightarrow> string \<Rightarrow> (string \<times> nat \<times> nat) option" where
  "scan_command key s =
     (let t = dropWhile is_space (drop (length key) s)
      in if t = [] then None
         else
           (case scan_x (dropWhile (\<lambda>c. \<not> is_space c) t) of
              None \<Rightarrow> None
            | Some (x, r) \<Rightarrow>
                (case scan_x r of None \<Rightarrow> None | Some (y, r') \<Rightarrow> Some (takeWhile (\<lambda>c. \<not> is_space c) t, x, y))))"

definition strim :: "string \<Rightarrow> string" where
  "strim s = rev (dropWhile is_space (rev (dropWhile is_space s)))"

text \<open>The name is copied into an array of 32 bytes.\<close>

definition name_fits :: "string \<Rightarrow> 'a run \<Rightarrow> 'a run" where
  "name_fits n r = (if 31 < length n then Fault Undefined else r)"

definition klog_write :: "bool \<Rightarrow> string \<Rightarrow> klog_world \<Rightarrow> ((errno + nat) \<times> klog_world) run" where
  "klog_write copy_ok buf w =
     (if \<not> copy_ok then Ret (Inl EPERM, w)
      else
        (let s = strim (cstr (take 511 buf))
         in if starts_with s ''set_verbose''
            then
              (case scan_command ''set_verbose'' s of
                 None \<Rightarrow> Ret (Inl EINVAL, w)
               | Some (n, v, l) \<Rightarrow>
                   name_fits n (run_bind (klog_set_verbose_by_name n (of_nat v) (of_nat l) w) (\<lambda>(r, w'). Ret (Inr (length buf), w'))))
            else if starts_with s ''set_ratelimit''
            then
              (case scan_command ''set_ratelimit'' s of
                 None \<Rightarrow> Ret (Inl EINVAL, w)
               | Some (n, i, b) \<Rightarrow>
                   name_fits n (run_bind (klog_set_ratelimit_by_name n (of_nat i) (of_nat b) w) (\<lambda>(r, w'). Ret (Inr (length buf), w'))))
            else Ret (Inr (length buf), w)))"

section \<open>The dump of a buffer\<close>

definition hex_char :: "u8 \<Rightarrow> u8" where
  "hex_char d = (if d < 10 then 48 + d else 55 + d)"

definition shown_char :: "u8 \<Rightarrow> u8" where
  "shown_char b = (if 0x20 \<le> b \<and> b \<le> 0x7e \<and> b \<noteq> 37 then b else 46)"

text \<open>One line in \<open>msgbuf\<close>, which has 120 bytes, with the final 0.\<close>

definition hex_line :: "u8 list \<Rightarrow> u8 list" where
  "hex_line bs =
     replicate 4 0x20 @ concat (map (\<lambda>b. [hex_char (drop_bit 4 b AND 0x0F), hex_char (b AND 0x0F), 32]) bs) @
     replicate (3 * (17 - length bs)) 0x20 @ map shown_char bs @ [10, 0]"

primrec hex_lines :: "nat \<Rightarrow> u8 list \<Rightarrow> u8 list list" where
  "hex_lines 0 bs = []"
| "hex_lines (Suc j) bs = hex_line (take 16 bs) # hex_lines j (drop 16 bs)"

definition hex_printout :: "u8 list \<Rightarrow> u8 list list" where
  "hex_printout bs = hex_lines (unat (drop_bit 4 (of_nat (length bs) + 0x0f :: u32))) bs"

lemma length_hex_bytes: "length (concat (map (\<lambda>b. [f b, g b, c]) bs)) = 3 * length bs"
  by (induction bs) simp_all

lemma hex_printout_in_buffer: "l \<in> set (hex_printout bs) \<Longrightarrow> length l \<le> 73"
proof -
  have "l \<in> set (hex_lines j bs) \<Longrightarrow> length l \<le> 73" for j
    by (induction j arbitrary: bs) (auto simp: hex_line_def length_hex_bytes)
  then show "l \<in> set (hex_printout bs) \<Longrightarrow> length l \<le> 73" by (simp add: hex_printout_def)
qed

section \<open>Temporary settings\<close>

text \<open>Calls of \<open>klog_set_verbose\<close> on one item, each with the time it is made.\<close>

fun temporary :: "u32 \<Rightarrow> nat \<Rightarrow> (u32 \<times> u16 \<times> u16 \<times> u32) list \<Rightarrow> klog_world \<Rightarrow> klog_world run" where
  "temporary HZ a [] w = Ret w"
| "temporary HZ a ((now, v, l, t) # cs) w =
     run_bind (klog_set_verbose HZ a v l t (w\<lparr>jiffies := now\<rparr>)) (\<lambda>(r, w'). temporary HZ a cs w')"

definition finite_time :: "u32 \<Rightarrow> bool" where "finite_time t \<longleftrightarrow> t \<noteq> 0 \<and> t \<noteq> -1"

lemma temporary_Cons:
  assumes "items w a = Some it" and "k_magic it = KLOG_ITEM_MAGIC" and "finite_time t"
  shows "temporary HZ a ((now, v, l, t) # cs) w =
         temporary HZ a cs
           (w\<lparr>items := (items w)(a \<mapsto> set_item_verbose v l (it\<lparr>original_verbose := if original_verbose it = 0 then k_verbose it else original_verbose it\<rparr>)),
              timers := (timers w)(a \<mapsto> now + t * HZ), jiffies := now\<rparr>)"
  using assms by (cases w) (auto simp: klog_set_verbose_def with_item_def finite_time_def put_item_def mod_timer_def del_timer_def)

definition levels_word :: "u16 \<Rightarrow> u16 \<Rightarrow> u32" where "levels_word v l = push_bit 16 (ucast l) OR ucast v"

fun call_levels :: "u32 \<times> u16 \<times> u16 \<times> u32 \<Rightarrow> u32" where "call_levels (now, v, l, t) = levels_word v l"

fun call_expiry :: "u32 \<Rightarrow> u32 \<times> u16 \<times> u16 \<times> u32 \<Rightarrow> u32" where "call_expiry HZ (now, v, l, t) = now + t * HZ"

text \<open>The first value other than 0.\<close>

primrec first_set :: "u32 list \<Rightarrow> u32" where
  "first_set [] = 0"
| "first_set (x # xs) = (if x \<noteq> 0 then x else first_set xs)"

lemma set_item_verbose_original:
  "set_item_verbose v l (it\<lparr>original_verbose := V\<rparr>) = it\<lparr>k_verbose := levels_word v l, original_verbose := V\<rparr>"
  by (simp add: set_item_verbose_def levels_word_def)

text \<open>What a sequence of settings leaves.\<close>

lemma temporary_run:
  assumes "items w a = Some it" and "k_magic it = KLOG_ITEM_MAGIC" and "cs \<noteq> []" and "\<forall>(now, v, l, t) \<in> set cs. finite_time t"
  shows "\<exists>j. temporary HZ a cs w = Ret (w\<lparr>items := (items w)(a \<mapsto> it\<lparr>k_verbose := call_levels (last cs),
             original_verbose := first_set (original_verbose it # k_verbose it # map call_levels (butlast cs))\<rparr>),
           timers := (timers w)(a \<mapsto> call_expiry HZ (last cs)), jiffies := j\<rparr>)"
  using assms
proof (induction cs arbitrary: w it)
  case Nil
  then show ?case by simp
next
  case (Cons c cs)
  obtain now v l t where c: "c = (now, v, l, t)" by (cases c)
  with Cons.prems have t: "finite_time t" by simp
  let ?o = "if original_verbose it = 0 then k_verbose it else original_verbose it"
  let ?it = "it\<lparr>k_verbose := levels_word v l, original_verbose := ?o\<rparr>"
  let ?w = "w\<lparr>items := (items w)(a \<mapsto> ?it), timers := (timers w)(a \<mapsto> now + t * HZ), jiffies := now\<rparr>"
  have step: "temporary HZ a (c # cs) w = temporary HZ a cs ?w"
    unfolding c using temporary_Cons [OF Cons.prems(1,2) t] by (simp only: set_item_verbose_original)
  show ?case
  proof (cases "cs = []")
    case True
    have "temporary HZ a (c # cs) w = Ret ?w" unfolding step using True by simp
    moreover have "first_set [original_verbose it, k_verbose it] = ?o" by auto
    moreover have "call_levels (last (c # cs)) = levels_word v l" "call_expiry HZ (last (c # cs)) = now + t * HZ"
      "map call_levels (butlast (c # cs)) = []" using True c by simp_all
    ultimately show ?thesis by (intro exI [of _ now]) (simp only:)
  next
    case False
    have it: "items ?w a = Some ?it" "k_magic ?it = KLOG_ITEM_MAGIC" using Cons.prems(2) by simp_all
    have "\<forall>(now, v, l, t) \<in> set cs. finite_time t" using Cons.prems(4) by simp
    from Cons.IH [OF it False this] obtain j where j: "temporary HZ a cs ?w = Ret (?w\<lparr>items := (items ?w)(a \<mapsto> ?it\<lparr>k_verbose := call_levels (last cs),
             original_verbose := first_set (original_verbose ?it # k_verbose ?it # map call_levels (butlast cs))\<rparr>),
           timers := (timers ?w)(a \<mapsto> call_expiry HZ (last cs)), jiffies := j\<rparr>)"
      by (rule exE)
    have merge: "?w\<lparr>items := (items ?w)(a \<mapsto> x), timers := (timers ?w)(a \<mapsto> e), jiffies := j\<rparr> =
        w\<lparr>items := (items w)(a \<mapsto> x), timers := (timers w)(a \<mapsto> e), jiffies := j\<rparr>" for x e
      by (cases w) simp
    have again: "?it\<lparr>k_verbose := x, original_verbose := y\<rparr> = it\<lparr>k_verbose := x, original_verbose := y\<rparr>" for x y by (cases it) simp
    have "first_set (original_verbose ?it # k_verbose ?it # map call_levels (butlast cs)) =
        first_set (original_verbose it # k_verbose it # map call_levels (butlast (c # cs)))"
      using False c by auto
    moreover have "last (c # cs) = last cs" using False by simp
    ultimately show ?thesis using j unfolding step merge again by (intro exI [of _ j]) (simp only:)
  qed
qed

text \<open>
  C38: temporary settings of the log levels. On an item in use, any sequence of settings for a finite
  time succeeds: the levels of the last are in force and the timer is set to its end. When the
  timer runs, the levels become the first value other than 0 among the field that remembers the
  levels to restore, the levels in force before, and those of all settings but the last; the field is
  cleared, and no other item, timer or the list is touched. So an item that prints something and
  whose field was clear is then exactly what it was before the first setting.
\<close>

theorem temporary_setting_ends:
  assumes "items w a = Some it" and "k_magic it = KLOG_ITEM_MAGIC" and "cs \<noteq> []" and "\<forall>(now, v, l, t) \<in> set cs. finite_time t"
  shows "\<exists>w1 w2. temporary HZ a cs w = Ret w1 \<and> map_option k_verbose (items w1 a) = Some (call_levels (last cs)) \<and>
           timers w1 a = Some (call_expiry HZ (last cs)) \<and> timer_interrupt a w1 = Ret w2 \<and>
           items w2 = (items w)(a \<mapsto> it\<lparr>k_verbose := first_set (original_verbose it # k_verbose it # map call_levels (butlast cs)),
                                        original_verbose := 0\<rparr>) \<and>
           timers w2 = (timers w)(a := None) \<and> g_klog_list w2 = g_klog_list w \<and>
           (original_verbose it = 0 \<and> k_verbose it \<noteq> 0 \<longrightarrow> items w2 = items w)"
proof -
  obtain j where j: "temporary HZ a cs w = Ret (w\<lparr>items := (items w)(a \<mapsto> it\<lparr>k_verbose := call_levels (last cs),
             original_verbose := first_set (original_verbose it # k_verbose it # map call_levels (butlast cs))\<rparr>),
           timers := (timers w)(a \<mapsto> call_expiry HZ (last cs)), jiffies := j\<rparr>)"
    using temporary_run [OF assms] by blast
  have "(items w)(a \<mapsto> it\<lparr>k_verbose := k_verbose it, original_verbose := 0\<rparr>) = items w" if "original_verbose it = 0"
    using assms(1) that by (cases it) (simp add: fun_upd_idem)
  then show ?thesis
    by (simp add: j timer_interrupt_def restore_verbose_def with_item_def del_timer_def put_item_def)
qed

definition one_item :: "u32 \<Rightarrow> klog_item" where
  "one_item v = \<lparr>k_magic = KLOG_ITEM_MAGIC, k_verbose = v, original_verbose = 0,
     k_ratelimit = \<lparr>rl_interval = 1000, rl_burst = 5, rl_printed = 0, rl_begin = 0\<rparr>, k_name = ''nfw''\<rparr>"

definition one_item_world :: "u32 \<Rightarrow> klog_world" where
  "one_item_world v = \<lparr>items = [7 \<mapsto> one_item v], g_klog_list = [7], timers = Map.empty, jiffies = 0\<rparr>"

theorem temporary_setting_ends_witness:
  "\<exists>w1 w2. temporary 100 7 [(50, 0xff, 0, 10), (90, 0xff, 0xff, 20)] (one_item_world 0x0e) = Ret w1 \<and> timers w1 7 = Some 2090 \<and>
     timer_interrupt 7 w1 = Ret w2 \<and> items w2 = items (one_item_world 0x0e)"
proof -
  have "items (one_item_world 0x0e) 7 = Some (one_item 0x0e)" "k_magic (one_item 0x0e) = KLOG_ITEM_MAGIC"
    "[(50, 0xff, 0, 10), (90, 0xff, 0xff, 20)] \<noteq> ([] :: (u32 \<times> u16 \<times> u16 \<times> u32) list)"
    "\<forall>(now, v, l, t) \<in> set ([(50, 0xff, 0, 10), (90, 0xff, 0xff, 20)] :: (u32 \<times> u16 \<times> u16 \<times> u32) list). finite_time t"
    by (simp_all add: one_item_world_def one_item_def finite_time_def)
  from temporary_setting_ends [OF this, of 100] show ?thesis by (auto simp: one_item_def)
qed

text \<open>
  The value 0 also means that no temporary setting is in force: an item that printed nothing is left
  with the first of two temporary settings for good.
\<close>

lemma silent_item_keeps_setting:
  assumes "items w a = Some it" and "k_magic it = KLOG_ITEM_MAGIC" and "original_verbose it = 0" and "k_verbose it = 0"
    and "finite_time t1" and "finite_time t2"
  shows "\<exists>w1 w2. temporary HZ a [(n1, v1, l1, t1), (n2, v2, l2, t2)] w = Ret w1 \<and> timer_interrupt a w1 = Ret w2 \<and>
           map_option k_verbose (items w2 a) = Some (levels_word v1 l1)"
  using temporary_run [OF assms(1,2), of "[(n1, v1, l1, t1), (n2, v2, l2, t2)]" HZ] assms(3-6)
  by (auto simp: timer_interrupt_def restore_verbose_def with_item_def del_timer_def put_item_def split: if_splits)

text \<open>What a fresh item happens to hold decides what its first temporary setting leaves.\<close>

lemma fresh_item_restores_junk:
  assumes "junk \<noteq> 0" and "finite_time t" and "klog_init HZ (Some (a, junk)) n v0 l0 w = Ret (h, w0)"
  shows "\<exists>w1 w2. temporary HZ a [(now, v, l, t)] w0 = Ret w1 \<and> timer_interrupt a w1 = Ret w2 \<and>
           map_option k_verbose (items w2 a) = Some junk"
proof -
  obtain it where it: "items w0 a = Some it" "k_magic it = KLOG_ITEM_MAGIC" "original_verbose it = junk"
    using assms(3) by (auto simp: klog_init_def init_timer_def put_item_def set_item_verbose_def Let_def split: if_splits)
  show ?thesis using assms(1,2) temporary_run [OF it(1,2), of "[(now, v, l, t)]" HZ] it(3)
    by (auto simp: timer_interrupt_def restore_verbose_def with_item_def del_timer_def put_item_def)
qed

section \<open>Reachable states\<close>

text \<open>
  Modules get handles and give them back, set levels and limits, check levels; commands are written;
  timers run. \<open>kmalloc\<close> returns memory that is not in use.
\<close>

inductive klog_step for HZ :: u32 and rl :: "klog_ratelimit_state \<Rightarrow> u32 \<Rightarrow> bool \<times> klog_ratelimit_state" where
  initialise: "items w a = None \<Longrightarrow> klog_init HZ (Some (a, junk)) n v l w = Ret (h, w') \<Longrightarrow> klog_step HZ rl w w'"
| finish: "klog_fini a w = Ret (r, w') \<Longrightarrow> klog_step HZ rl w w'"
| levels: "klog_set_verbose HZ a v l t w = Ret (r, w') \<Longrightarrow> klog_step HZ rl w w'"
| limit: "klog_set_ratelimit HZ a i b w = Ret (r, w') \<Longrightarrow> klog_step HZ rl w w'"
| check: "klog_verbose_check rl a b w = Ret (r, w') \<Longrightarrow> klog_step HZ rl w w'"
| command: "klog_write ok s w = Ret (r, w') \<Longrightarrow> klog_step HZ rl w w'"
| timer: "timer_interrupt a w = Ret w' \<Longrightarrow> klog_step HZ rl w w'"
| clock: "klog_step HZ rl w (w\<lparr>jiffies := now\<rparr>)"

definition no_items :: klog_world where
  "no_items = \<lparr>items = Map.empty, g_klog_list = [], timers = Map.empty, jiffies = 0\<rparr>"

inductive klog_reachable for HZ rl where
  start: "klog_reachable HZ rl no_items"
| step: "klog_reachable HZ rl w \<Longrightarrow> klog_step HZ rl w w' \<Longrightarrow> klog_reachable HZ rl w'"

text \<open>The list holds the items in use, once each, and every item carries the magic number.\<close>

definition klog_inv :: "klog_world \<Rightarrow> bool" where
  "klog_inv w \<longleftrightarrow> distinct (g_klog_list w) \<and> set (g_klog_list w) = dom (items w) \<and>
     (\<forall>a it. items w a = Some it \<longrightarrow> k_magic it = KLOG_ITEM_MAGIC \<and> length (k_name it) \<le> 31)"

named_theorems klog_defs \<open>the operations on items\<close>

lemmas [klog_defs] = with_item_def put_item_def del_timer_def mod_timer_def restore_verbose_def timer_interrupt_def
  set_item_verbose_def clear_item_timer_def set_ratelimit_def

lemma inv_put:
  assumes "klog_inv w" and "items w a = Some it" and "k_magic it' = k_magic it" and "k_name it' = k_name it"
  shows "klog_inv (put_item a it' w)"
  using assms by (auto simp: klog_inv_def put_item_def)

lemma inv_timers [simp]: "klog_inv (w\<lparr>timers := t\<rparr>) = klog_inv w" "klog_inv (w\<lparr>jiffies := j\<rparr>) = klog_inv w"
  by (simp_all add: klog_inv_def)

lemma inv_live: "klog_inv w \<Longrightarrow> a \<in> set (g_klog_list w) \<Longrightarrow> \<exists>it. items w a = Some it \<and> k_magic it = KLOG_ITEM_MAGIC"
  by (auto simp: klog_inv_def)

text \<open>The walk ends and keeps the invariant, for a change that keeps name, magic number and list.\<close>

lemma by_name_ok:
  assumes "klog_inv w" and "set as \<subseteq> set (g_klog_list w)"
    and f: "\<And>a it w. klog_inv w \<Longrightarrow> items w a = Some it \<Longrightarrow> klog_inv (f a it w) \<and> g_klog_list (f a it w) = g_klog_list w"
  shows "\<exists>r w'. by_name n f as k w = Ret (r, w') \<and> klog_inv w'"
  using assms(1,2)
proof (induction as arbitrary: k w)
  case Nil
  then show ?case by simp
next
  case (Cons a as)
  then obtain it where it: "items w a = Some it" using inv_live by fastforce
  have "klog_inv (f a it w)" "g_klog_list (f a it w) = g_klog_list w" using f [OF Cons.prems(1) it] by simp_all
  with Cons it show ?case by (simp add: with_item_def)
qed

lemma verbose_by_name_ok: "klog_inv w \<Longrightarrow> \<exists>r w'. klog_set_verbose_by_name n v l w = Ret (r, w') \<and> klog_inv w'"
  unfolding klog_set_verbose_by_name_def
  by (drule by_name_ok [where as = "g_klog_list w" and n = n and k = 0
        and f = "\<lambda>a it w. let (it', w') = clear_item_timer a it w in put_item a (set_item_verbose v l it') w'"])
     (auto simp: count_or_error_def clear_item_timer_def del_timer_def set_item_verbose_def intro!: inv_put, simp add: put_item_def)

lemma ratelimit_by_name_ok: "klog_inv w \<Longrightarrow> \<exists>r w'. klog_set_ratelimit_by_name n i b w = Ret (r, w') \<and> klog_inv w'"
  unfolding klog_set_ratelimit_by_name_def
  by (drule by_name_ok [where as = "g_klog_list w" and n = n and k = 0 and f = "\<lambda>a it w. put_item a (set_ratelimit i b it) w"])
     (auto simp: count_or_error_def set_ratelimit_def intro!: inv_put, simp add: put_item_def)

lemma write_keeps_inv:
  assumes "klog_inv w" and "klog_write ok s w = Ret (r, w')"
  shows "klog_inv w'"
proof -
  have "klog_set_verbose_by_name n v l w = Ret (q, w') \<Longrightarrow> klog_inv w'" for n v l q
    using verbose_by_name_ok [OF assms(1), of n v l] by auto
  moreover have "klog_set_ratelimit_by_name n i b w = Ret (q, w') \<Longrightarrow> klog_inv w'" for n i b q
    using ratelimit_by_name_ok [OF assms(1), of n i b] by auto
  ultimately show ?thesis using assms
    by (auto simp: klog_write_def Let_def name_fits_def run_simps split: if_splits option.splits prod.splits)
qed

lemma init_keeps_inv:
  assumes "klog_inv w" and "items w a = None" and "klog_init HZ (Some (a, junk)) n v l w = Ret (h, w')"
  shows "klog_inv w'"
  using assms by (auto simp: klog_init_def init_timer_def klog_inv_def put_item_def set_item_verbose_def Let_def split: option.splits if_splits)

lemma fini_keeps_inv:
  assumes "klog_inv w" and "klog_fini a w = Ret (r, w')"
  shows "klog_inv w'"
  using assms by (auto simp: klog_fini_def klog_inv_def with_item_def split: option.splits if_splits)

lemma item_ops_keep_inv:
  assumes "klog_inv w"
  shows "klog_set_verbose HZ a v l t w = Ret (r, w') \<Longrightarrow> klog_inv w'"
    and "klog_set_ratelimit HZ a i b w = Ret (r, w') \<Longrightarrow> klog_inv w'"
    and "klog_verbose_check rl a c w = Ret (q, w') \<Longrightarrow> klog_inv w'"
    and "timer_interrupt a w = Ret w' \<Longrightarrow> klog_inv w'"
  using assms
  by (auto simp: klog_set_verbose_def klog_set_ratelimit_def klog_verbose_check_def klog_defs klog_inv_def run_simps
      split: option.splits if_splits prod.splits)

lemma reachable_inv: "klog_reachable HZ rl w \<Longrightarrow> klog_inv w"
proof (induction rule: klog_reachable.induct)
  case start
  show ?case by (simp add: klog_inv_def no_items_def)
next
  case (step w w')
  from step.hyps(2) step.IH show ?case
    by cases (auto intro: init_keeps_inv fini_keeps_inv item_ops_keep_inv write_keeps_inv)
qed

text \<open>
  C39: the log handles. In every state that opening and closing handles, settings, checks, commands and
  timers lead to, the list holds exactly the items in use, once each; every setting, limit, check of
  the named levels and closing through a handle in the list, and every setting and limit by name,
  returns a result. The function of a timer that is set works on memory in use exactly if the list holds
  its item; a timer that is set without it, left by an item closed too early, can never pass to a new
  item at the same address, because opening one there is a fault as well.
\<close>

theorem klog_handles_valid:
  assumes "klog_reachable HZ rl w"
  shows "distinct (g_klog_list w) \<and> set (g_klog_list w) = dom (items w) \<and>
         (\<forall>a \<in> set (g_klog_list w).
            (\<forall>v l t. \<exists>w'. klog_set_verbose HZ a v l t w = Ret (0, w')) \<and> (\<forall>i b. \<exists>w'. klog_set_ratelimit HZ a i b w = Ret (0, w')) \<and>
            (\<exists>w'. klog_fini a w = Ret (0, w')) \<and>
            (\<forall>level. -5 \<le> level \<and> level \<le> 10 \<longrightarrow> (\<exists>r w'. klog_trace_check rl a level w = Ret (r, w')))) \<and>
         (\<forall>n v l. \<exists>r w'. klog_set_verbose_by_name n v l w = Ret (r, w')) \<and>
         (\<forall>n i b. \<exists>r w'. klog_set_ratelimit_by_name n i b w = Ret (r, w')) \<and>
         (\<forall>a. timers w a \<noteq> None \<longrightarrow>
            (timer_interrupt a w \<noteq> Fault Undefined \<longleftrightarrow> a \<in> set (g_klog_list w)) \<and>
            (\<forall>junk n v l. klog_init HZ (Some (a, junk)) n v l w = Fault Undefined))"
proof -
  have inv: "klog_inv w" using assms by (rule reachable_inv)
  then have list: "distinct (g_klog_list w)" "set (g_klog_list w) = dom (items w)" by (simp_all add: klog_inv_def)
  have checks: "\<exists>r w'. klog_trace_check rl a level w = Ret (r, w')"
    if "items w a = Some it" "-5 \<le> level" "level \<le> 10" for a it level
    using that by (cases "rl (k_ratelimit it) (jiffies w)")
      (auto simp: klog_trace_check_def klog_verbose_check_def with_item_def shifted_one_def)
  have sets: "(\<exists>w'. klog_set_verbose HZ a v l t w = Ret (0, w')) \<and> (\<exists>w'. klog_set_ratelimit HZ a i b w = Ret (0, w')) \<and>
      (\<exists>w'. klog_fini a w = Ret (0, w'))"
    if "items w a = Some it" "k_magic it = KLOG_ITEM_MAGIC" for a it v l t i b
    using that by (simp add: klog_set_verbose_def klog_set_ratelimit_def klog_fini_def with_item_def clear_item_timer_def Let_def)
  have handles: "\<forall>a \<in> set (g_klog_list w).
      (\<forall>v l t. \<exists>w'. klog_set_verbose HZ a v l t w = Ret (0, w')) \<and> (\<forall>i b. \<exists>w'. klog_set_ratelimit HZ a i b w = Ret (0, w')) \<and>
      (\<exists>w'. klog_fini a w = Ret (0, w')) \<and>
      (\<forall>level. -5 \<le> level \<and> level \<le> 10 \<longrightarrow> (\<exists>r w'. klog_trace_check rl a level w = Ret (r, w')))"
    using inv_live [OF inv] checks sets by blast
  have by_name: "\<forall>n v l. \<exists>r w'. klog_set_verbose_by_name n v l w = Ret (r, w')"
    "\<forall>n i b. \<exists>r w'. klog_set_ratelimit_by_name n i b w = Ret (r, w')"
    using verbose_by_name_ok [OF inv] ratelimit_by_name_ok [OF inv] by blast+
  have timer: "\<forall>a. timers w a \<noteq> None \<longrightarrow> (timer_interrupt a w \<noteq> Fault Undefined \<longleftrightarrow> a \<in> set (g_klog_list w)) \<and>
      (\<forall>junk n v l. klog_init HZ (Some (a, junk)) n v l w = Fault Undefined)"
    using list(2) by (auto simp: klog_defs klog_init_def init_timer_def Let_def split: option.splits)
  show ?thesis by (intro conjI list handles by_name timer)
qed

text \<open>A module opened a handle, made a temporary setting and closed the handle: the timer is still set.\<close>

definition unlimited :: "klog_ratelimit_state \<Rightarrow> u32 \<Rightarrow> bool \<times> klog_ratelimit_state" where
  "unlimited r now = (True, r)"

definition closed_too_early :: klog_world where
  "closed_too_early = \<lparr>items = Map.empty, g_klog_list = [], timers = [7 \<mapsto> 1000], jiffies = 0\<rparr>"

lemma closed_too_early_reachable: "klog_reachable 100 unlimited closed_too_early"
proof -
  obtain w1 where w1: "klog_init 100 (Some (7, 0)) (Some ''nfw'') 0x0e 0 no_items = Ret (Some 7, w1)"
    by (simp add: klog_init_def init_timer_def put_item_def no_items_def)
  obtain w2 where w2: "klog_set_verbose 100 7 0xff 0 10 w1 = Ret (0, w2)" "klog_fini 7 w2 = Ret (0, closed_too_early)"
    using w1 by (auto simp: no_items_def klog_init_def init_timer_def klog_set_verbose_def klog_fini_def klog_defs closed_too_early_def)
  from w1 have "klog_reachable 100 unlimited w1"
    by (rule klog_reachable.step [OF klog_reachable.start klog_step.initialise [rotated]]) (simp add: no_items_def)
  from klog_reachable.step [OF this klog_step.levels [OF w2(1)]] have "klog_reachable 100 unlimited w2" .
  from klog_reachable.step [OF this klog_step.finish [OF w2(2)]] show ?thesis .
qed

theorem klog_handles_valid_witness:
  "timers closed_too_early 7 \<noteq> None \<and> timer_interrupt 7 closed_too_early = Fault Undefined"
  using klog_handles_valid [OF closed_too_early_reachable] by (simp add: closed_too_early_def)

end
