(* ===== verification/User_Nodes.thy ===== *)
theory User_Nodes
  imports Nacs_Query
begin

text \<open>
  User space on the tables of users and flows that the kernel shares with it: the lookups of
  \<open>include/src/ntrack_comm.h\<close>, the traversal of \<open>libs/utils/src/nt_traversal.c\<close>, the Lua binding
  \<open>lua-nos/src/main.c\<close>, the changes and dumps of \<open>apps/nquery/src\<close>, and the texts that \<open>apps/ntrackd/src\<close>
  makes of the events. The table is read as one snapshot.
\<close>

section \<open>The shared tables\<close>

record user_node =
  un :: user_info
  u_grp_id :: u32
  u_usr_crc :: u32

record ntrack =
  fi_count :: nat
  ui_count :: nat
  fi_base :: "flow_info list"
  ui_base :: "user_node list"

definition magic_valid :: "u32 \<Rightarrow> bool" where "magic_valid m \<longleftrightarrow> m mod 2 = 0"

text \<open>The assertion ends the process; reading past the mapped table is undefined.\<close>

definition get_by_id :: "nat \<Rightarrow> 'a list \<Rightarrow> ('a \<Rightarrow> u32) \<Rightarrow> u32 \<Rightarrow> u32 \<Rightarrow> 'a option run" where
  "get_by_id count base magic_of i mg =
     run_bind (assertion (unat i < count)) (\<lambda>_.
       if length base \<le> unat i then Fault Undefined
       else Ret (if magic_of (base ! unat i) \<noteq> mg then None else Some (base ! unat i)))"

definition nt_get_flow_by_id :: "ntrack \<Rightarrow> u32 \<Rightarrow> u32 \<Rightarrow> flow_info option run" where
  "nt_get_flow_by_id nt i mg = get_by_id (fi_count nt) (fi_base nt) f_magic i mg"

definition nt_get_user_by_id :: "ntrack \<Rightarrow> u32 \<Rightarrow> u32 \<Rightarrow> user_node option run" where
  "nt_get_user_by_id nt i mg = get_by_id (ui_count nt) (ui_base nt) (\<lambda>u. u_magic (un u)) i mg"

section \<open>Traversal\<close>

text \<open>
  The loop of both traversals, from the node at the start index on. When the lookup finds nothing, the
  error message reads through the null pointer. A callback returns a number and the caller's data.
\<close>

fun trav_loop ::
  "('a \<Rightarrow> 'a option run) \<Rightarrow> ('a \<Rightarrow> u32) \<Rightarrow> ('a \<Rightarrow> 'd \<Rightarrow> int \<times> 'd) \<Rightarrow> int \<Rightarrow> 'a list \<Rightarrow> int \<Rightarrow> 'd \<Rightarrow> (int \<times> 'd) run" where
  "trav_loop get magic_of cb max_count [] count p = Ret (count, p)"
| "trav_loop get magic_of cb max_count (x # xs) count p =
     (if max_count \<noteq> 0 \<and> max_count \<le> count then Ret (count, p)
      else if \<not> magic_valid (magic_of x) then trav_loop get magic_of cb max_count xs (count + 1) p
      else
        run_bind (get x) (\<lambda>r.
          case r of
            None \<Rightarrow> Fault Undefined
          | Some y \<Rightarrow> (let (res, p') = cb y p in if res < 0 then Ret (0, p') else trav_loop get magic_of cb max_count xs (count + 1) p')))"

text \<open>A negative start is compared as an unsigned number and ends the loop at once.\<close>

definition trav_nodes_from :: "int \<Rightarrow> nat \<Rightarrow> 'a list \<Rightarrow> 'a list" where
  "trav_nodes_from off count base = (if off < 0 then [] else drop (nat off) (take count base))"

definition nt_trav_user :: "ntrack \<Rightarrow> int \<Rightarrow> int \<Rightarrow> (user_node \<Rightarrow> 'd \<Rightarrow> int \<times> 'd) \<Rightarrow> 'd \<Rightarrow> (int \<times> 'd) run" where
  "nt_trav_user nt off max_count cb p =
     trav_loop (\<lambda>u. nt_get_user_by_id nt (u_id (un u)) (u_magic (un u))) (\<lambda>u. u_magic (un u)) cb max_count
       (trav_nodes_from off (ui_count nt) (ui_base nt)) 0 p"

definition nt_trav_flow :: "ntrack \<Rightarrow> int \<Rightarrow> int \<Rightarrow> (flow_info \<Rightarrow> 'd \<Rightarrow> int \<times> 'd) \<Rightarrow> 'd \<Rightarrow> (int \<times> 'd) run" where
  "nt_trav_flow nt off max_count cb p =
     trav_loop (\<lambda>f. nt_get_flow_by_id nt (f_id f) (f_magic f)) f_magic cb max_count
       (trav_nodes_from off (fi_count nt) (fi_base nt)) 0 p"

section \<open>The Lua binding\<close>

datatype luanos_result = NotFound u32 u32 | LuaInteger int | LuaTrue | LuaStrings string string

definition put_user :: "ntrack \<Rightarrow> u32 \<Rightarrow> user_node \<Rightarrow> ntrack" where
  "put_user nt i u = nt\<lparr>ui_base := (ui_base nt)[unat i := u]\<rparr>"

text \<open>Every function first gets the user; None is the pair of nil and message.\<close>

definition get_user :: "ntrack \<Rightarrow> u32 \<Rightarrow> u32 \<Rightarrow> (user_node \<Rightarrow> luanos_result \<times> ntrack) \<Rightarrow> (luanos_result \<times> ntrack) run" where
  "get_user nt uid mg f =
     run_bind (nt_get_user_by_id nt uid mg) (\<lambda>r. Ret (case r of None \<Rightarrow> (NotFound uid mg, nt) | Some u \<Rightarrow> f u))"

definition user_get_rule_id :: "ntrack \<Rightarrow> u32 \<Rightarrow> u32 \<Rightarrow> (luanos_result \<times> ntrack) run" where
  "user_get_rule_id nt uid mg = get_user nt uid mg (\<lambda>u. (LuaInteger (uint (rule_id (un u))), nt))"

definition user_get_status :: "ntrack \<Rightarrow> u32 \<Rightarrow> u32 \<Rightarrow> (luanos_result \<times> ntrack) run" where
  "user_get_status nt uid mg = get_user nt uid mg (\<lambda>u. (LuaInteger (uint (nt_auth_get_status (un u))), nt))"

definition set_status :: "ntrack \<Rightarrow> u32 \<Rightarrow> u32 \<Rightarrow> u8 \<Rightarrow> (luanos_result \<times> ntrack) run" where
  "set_status nt uid mg st =
     get_user nt uid mg (\<lambda>u. (LuaTrue, put_user nt uid (u\<lparr>un := fst (nt_auth_set_status (un u) st)\<rparr>)))"

text \<open>The number of Lua becomes an \<open>unsigned int\<close>, then the \<open>uint8_t\<close> of \<open>nt_auth_set_status\<close>.\<close>

definition user_set_status :: "ntrack \<Rightarrow> u32 \<Rightarrow> u32 \<Rightarrow> int \<Rightarrow> (luanos_result \<times> ntrack) run" where
  "user_set_status nt uid mg n = set_status nt uid mg (ucast (word_of_int n :: u32))"

definition user_set_online :: "ntrack \<Rightarrow> u32 \<Rightarrow> u32 \<Rightarrow> (luanos_result \<times> ntrack) run" where
  "user_set_online nt uid mg = set_status nt uid mg AUTH_OK"

definition user_set_offline :: "ntrack \<Rightarrow> u32 \<Rightarrow> u32 \<Rightarrow> (luanos_result \<times> ntrack) run" where
  "user_set_offline nt uid mg = set_status nt uid mg AUTH_REQ"

definition user_set_bypass :: "ntrack \<Rightarrow> u32 \<Rightarrow> u32 \<Rightarrow> (luanos_result \<times> ntrack) run" where
  "user_set_bypass nt uid mg = set_status nt uid mg AUTH_BYPASS"

definition user_set_gid_ucrc :: "ntrack \<Rightarrow> u32 \<Rightarrow> u32 \<Rightarrow> int \<Rightarrow> int \<Rightarrow> (luanos_result \<times> ntrack) run" where
  "user_set_gid_ucrc nt uid mg gid ucrc =
     get_user nt uid mg (\<lambda>u. (LuaTrue, put_user nt uid (u\<lparr>u_grp_id := word_of_int gid, u_usr_crc := word_of_int ucrc\<rparr>)))"

text \<open>\<open>%02x\<close>, and the two formats of addresses.\<close>

definition lower_hex2 :: "u8 \<Rightarrow> string" where "lower_hex2 b = map to_lower (hex2 b)"

fun join_with :: "string \<Rightarrow> string list \<Rightarrow> string" where
  "join_with sep [] = []"
| "join_with sep [s] = s"
| "join_with sep (s # t # r) = s @ sep @ join_with sep (t # r)"

definition ip_text :: "u32 list \<Rightarrow> string" where "ip_text ip = join_with ''.'' (map (\<lambda>b. dec (unat b)) ip)"

definition mac_text :: "u8 list \<Rightarrow> string" where "mac_text mac = join_with '':'' (map lower_hex2 mac)"

definition user_get_ip_mac :: "ntrack \<Rightarrow> u32 \<Rightarrow> u32 \<Rightarrow> (luanos_result \<times> ntrack) run" where
  "user_get_ip_mac nt uid mg =
     get_user nt uid mg (\<lambda>u. (LuaStrings (snprintf 32 (ip_text (u_ip (un u)))) (snprintf 32 (mac_text (macaddr (un u)))), nt))"

section \<open>nquery\<close>

definition set_user_status :: "ntrack \<Rightarrow> u32 \<Rightarrow> u32 \<Rightarrow> u32 \<Rightarrow> (errno option \<times> ntrack) run" where
  "set_user_status nt uid mg st =
     run_bind (nt_get_user_by_id nt uid mg) (\<lambda>r.
       Ret (case r of
              None \<Rightarrow> (Some EINVAL, nt)
            | Some u \<Rightarrow> (None, put_user nt uid (u\<lparr>un := fst (nt_auth_set_status (un u) (ucast st))\<rparr>))))"

definition set_flow_flags :: "ntrack \<Rightarrow> u32 \<Rightarrow> u32 \<Rightarrow> u32 \<Rightarrow> (errno option \<times> ntrack) run" where
  "set_flow_flags nt fid mg fl =
     run_bind (nt_get_flow_by_id nt fid mg) (\<lambda>r.
       Ret (case r of
              None \<Rightarrow> (Some EINVAL, nt)
            | Some f \<Rightarrow> (None, nt\<lparr>fi_base := (fi_base nt)[unat fid := nt_flow_flags_set f fl]\<rparr>)))"

datatype user_line = UserDump user_node | UserLine user_node

text \<open>
  The callback has no return statement: what its caller reads is \<open>ret\<close>. The user to be dumped is
  compared with the field that \<open>dump_userinfo\<close> overwrites with the magic number.
\<close>

definition dump_user_fn :: "(user_node \<Rightarrow> int) \<Rightarrow> u32 \<Rightarrow> user_node \<Rightarrow> user_line list \<Rightarrow> int \<times> user_line list" where
  "dump_user_fn ret tuple_id u out = (ret u, out @ [if tuple_id = u_id (un u) then UserDump u else UserLine u])"

definition dump_userinfo :: "(user_node \<Rightarrow> int) \<Rightarrow> ntrack \<Rightarrow> u32 \<Rightarrow> u32 \<Rightarrow> (int \<times> user_line list) run" where
  "dump_userinfo ret nt i mg = nt_trav_user nt 0 0 (dump_user_fn ret mg) []"

section \<open>ntrackd\<close>

text \<open>
  The tree that \<open>cJSON_Print\<close> prints; \<open>mem\<close> tells whether the library finds memory, for all of it or not
  even for the first objects.
\<close>

datatype cjson = CNumber int | CString string | CArray "cjson list" | CObject "(string \<times> cjson) list"

definition create_ipgrp_array :: "u64 \<Rightarrow> cjson" where
  "create_ipgrp_array bits = CArray (map (\<lambda>i. CNumber (int i)) (filter (bit bits) [0..<64]))"

definition set_names :: "string list" where
  "set_names = [''MACWHITELIST'', ''IPWHITELIST'', ''MACBLACKLIST'', ''IPBLACKLIST'']"

definition action_names :: "u8 \<Rightarrow> cjson list" where
  "action_names acts =
     (if acts AND ucast AC_ACCEPT \<noteq> 0 then [CString ''ACCEPT''] else []) @
     (if acts AND ucast AC_REJECT \<noteq> 0 then [CString ''REJECT''] else []) @
     (if acts AND ucast AC_AUDIT \<noteq> 0 then [CString ''AUDIT''] else [])"

text \<open>
  \<open>NIPQUAD\<close> reads the bytes of the address in the order of the memory, least significant first (the
  router is little-endian).
\<close>

definition NIPQUAD :: "u32 \<Rightarrow> u32 list" where
  "NIPQUAD a = [a AND 0xff, drop_bit 8 a AND 0xff, drop_bit 16 a AND 0xff, drop_bit 24 a]"

definition rule_part_json :: "nacs_match \<Rightarrow> (string \<times> cjson) list" where
  "rule_part_json m =
     (case m of
        RULE_SUB_TYPE_RULE rid q \<Rightarrow>
          [(''rule_id'', CNumber (uint rid)), (''src_zone'', CNumber (uint (rq_src_zone q))),
           (''dst_zone'', CNumber (uint (rq_dst_zone q))), (''proto_id'', CNumber (uint (rq_proto_id q))),
           (''src_ipgrp_bits'', create_ipgrp_array (rq_src_ipgrp_bits q)), (''dst_ipgrp_bits'', create_ipgrp_array (rq_dst_ipgrp_bits q))]
      | RULE_SUB_TYPE_SET k \<Rightarrow> if k < 4 then [(''set_name'', CString (set_names ! k))] else [])"

definition trans_aclog :: "bool \<Rightarrow> nacs_msg \<Rightarrow> cjson option" where
  "trans_aclog mem m =
     (if \<not> mem then None
      else Some (CObject
        [(''cmd'', CString ''aclog_add''),
         (''ruletype'', CString (if nm_rule_type m = RULE_TYPE_CONTROL then ''CONTROL'' else ''AUDIT'')),
         (''subtype'', CString (if is_set_match (nm_match m) then ''SET'' else ''RULE'')),
         (''actions'', CArray (action_names (nm_actions m))),
         (''user'', CObject [(''mac'', CString (mac_text (nm_macaddr m))), (''ip'', CString (ip_text (NIPQUAD (nm_src_ip m))))]),
         (''flow'', CObject [(''src_ip'', CNumber (uint (nm_src_ip m))), (''dst_ip'', CNumber (uint (nm_dst_ip m))),
            (''src_port'', CNumber (uint (nm_src_port m))), (''dst_port'', CNumber (uint (nm_dst_port m))),
            (''proto'', CNumber (uint (nm_proto m)))]),
         (''rule'', CObject (rule_part_json (nm_match m))),
         (''time_stamp'', CNumber (uint (nm_time_stamp m)))]))"

definition keepalive_text :: "auth_msg_t \<Rightarrow> string" where
  "keepalive_text a =
     ''{'' @ quot @ ''cmd'' @ quot @ '':'' @ quot @ ''keepalive'' @ quot @ '','' @ quot @ ''magic'' @ quot @ '':'' @ dec (unat (m_magic a)) @ '','' @
     quot @ ''uid'' @ quot @ '':'' @ dec (unat (m_id a)) @ ''}''"

definition trans_authmsg :: "bool \<Rightarrow> ntrack \<Rightarrow> auth_msg_t \<Rightarrow> string option run" where
  "trans_authmsg mem nt a =
     (if \<not> mem then Ret None
      else run_bind (nt_get_user_by_id nt (m_id a) (m_magic a)) (\<lambda>r. Ret (case r of None \<Rightarrow> None | Some u \<Rightarrow> Some (keepalive_text a))))"

datatype datagram = AuthText string | AcTree cjson

text \<open>
  The result of \<open>sendmsg\<close> is kept in a \<open>size_t\<close>: a failure, -1, is not recognised; only an empty
  transmission is, and returns \<open>errno\<close>.
\<close>

definition do_nt_unotify :: "(datagram \<Rightarrow> nat \<Rightarrow> int) \<Rightarrow> int \<Rightarrow> datagram \<Rightarrow> nat \<Rightarrow> int" where
  "do_nt_unotify sendmsg errno d port = (if (word_of_int (sendmsg d port) :: u32) \<le> 0 then errno else 0)"

datatype nt_message = MSG_PCAP | MSG_NODE | MSG_AUTH auth_msg_t | MSG_NACS nacs_msg | MSG_OTHER

text \<open>\<open>fn_message_disp\<close> with \<open>nt_unotify_auth\<close> and \<open>nt_unotify_ac\<close>: the result and what is sent, with the port.\<close>

definition nt_unotify_auth :: "(datagram \<Rightarrow> nat \<Rightarrow> int) \<Rightarrow> int \<Rightarrow> bool \<Rightarrow> ntrack \<Rightarrow> auth_msg_t \<Rightarrow> (int \<times> (datagram \<times> nat) list) run" where
  "nt_unotify_auth sendmsg errno mem nt a =
     run_bind (trans_authmsg mem nt a) (\<lambda>r.
       Ret (case r of None \<Rightarrow> (-1, []) | Some t \<Rightarrow> (do_nt_unotify sendmsg errno (AuthText t) 50002, [(AuthText t, 50002)])))"

definition nt_unotify_ac :: "(datagram \<Rightarrow> nat \<Rightarrow> int) \<Rightarrow> int \<Rightarrow> bool \<Rightarrow> nacs_msg \<Rightarrow> int \<times> (datagram \<times> nat) list" where
  "nt_unotify_ac sendmsg errno mem m =
     (case trans_aclog mem m of None \<Rightarrow> (-1, []) | Some t \<Rightarrow> (do_nt_unotify sendmsg errno (AcTree t) 60000, [(AcTree t, 60000)]))"

definition fn_message_disp :: "(datagram \<Rightarrow> nat \<Rightarrow> int) \<Rightarrow> int \<Rightarrow> bool \<Rightarrow> ntrack \<Rightarrow> nt_message \<Rightarrow> (int \<times> (datagram \<times> nat) list) run" where
  "fn_message_disp sendmsg errno mem nt m =
     (case m of
        MSG_AUTH a \<Rightarrow> nt_unotify_auth sendmsg errno mem nt a
      | MSG_NACS c \<Rightarrow> Ret (nt_unotify_ac sendmsg errno mem c)
      | _ \<Rightarrow> Ret (-1, []))"

section \<open>Facts\<close>

text \<open>A table of \<open>n\<close> nodes in which every node carries its own index.\<close>

definition table_ok :: "('a \<Rightarrow> u32) \<Rightarrow> 'a list \<Rightarrow> bool" where
  "table_ok id_of base \<longleftrightarrow> (\<forall>i < length base. unat (id_of (base ! i)) = i)"

lemma get_own:
  assumes "table_ok id_of base" and "x \<in> set base" and "length base \<le> count"
  shows "get_by_id count base magic_of (id_of x) (magic_of x) = Ret (Some x)"
proof -
  obtain i where "i < length base" "base ! i = x" using assms(2) by (auto simp: in_set_conv_nth)
  moreover from this have "unat (id_of x) = i" using assms(1) by (auto simp: table_ok_def)
  ultimately show ?thesis using assms(3) by (simp add: get_by_id_def)
qed

lemma trav_loop_all:
  assumes "\<forall>x \<in> set xs. get x = Ret (Some x)" and "\<forall>x p. 0 \<le> fst (cb x p)" and "0 \<le> m" and "0 \<le> count" and "m = 0 \<or> count \<le> m"
  shows "trav_loop get magic_of cb m xs count p =
         (let ys = if m = 0 then xs else take (nat (m - count)) xs
          in Ret (count + int (length ys), fold (\<lambda>x p. snd (cb x p)) (filter (\<lambda>x. magic_valid (magic_of x)) ys) p))"
  using assms
proof (induction xs arbitrary: count p)
  case Nil
  then show ?case by simp
next
  case (Cons x xs)
  show ?case
  proof (cases "m \<noteq> 0 \<and> m \<le> count")
    case True
    with Cons.prems show ?thesis by simp
  next
    case False
    have c: "\<not> fst (cb x p) < 0" using Cons.prems(2) by (simp add: not_less)
    have IH: "trav_loop get magic_of cb m xs (count + 1) q =
        (let ys = if m = 0 then xs else take (nat (m - (count + 1))) xs
         in Ret (count + 1 + int (length ys), fold (\<lambda>x p. snd (cb x p)) (filter (\<lambda>x. magic_valid (magic_of x)) ys) q))" for q
      using Cons.prems False by (intro Cons.IH) auto
    have t: "m \<noteq> 0 \<Longrightarrow> take (nat (m - count)) (x # xs) = x # take (nat (m - (count + 1))) xs"
      using False by (cases "nat (m - count)") (auto simp: nat_diff_distrib' algebra_simps Suc_nat_eq_nat_zadd1 dest: arg_cong [where f = int])
    show ?thesis using Cons.prems(1) False c IH t by (auto simp: Let_def split_beta)
  qed
qed

text \<open>A traversal shows the valid nodes of its segment, in order, and counts all of the segment.\<close>

lemma nt_trav_user_all:
  assumes "table_ok (\<lambda>u. u_id (un u)) (ui_base nt)" and "length (ui_base nt) = ui_count nt" and "0 \<le> off" and "0 \<le> m"
    and "\<forall>x p. 0 \<le> fst (cb x p)"
  shows "nt_trav_user nt off m cb p =
         (let seg = drop (nat off) (ui_base nt); ys = if m = 0 then seg else take (nat m) seg
          in Ret (int (length ys), fold (\<lambda>x p. snd (cb x p)) (filter (\<lambda>u. magic_valid (u_magic (un u))) ys) p))"
proof -
  have "\<forall>x \<in> set (drop (nat off) (ui_base nt)). nt_get_user_by_id nt (u_id (un x)) (u_magic (un x)) = Ret (Some x)"
    using get_own [OF assms(1), where count = "ui_count nt" and magic_of = "\<lambda>u. u_magic (un u)"] assms(2)
    by (auto simp: nt_get_user_by_id_def dest: in_set_dropD)
  then show ?thesis unfolding nt_trav_user_def trav_nodes_from_def using assms(2-5) by (simp add: trav_loop_all)
qed

lemma nt_trav_flow_all:
  assumes "table_ok f_id (fi_base nt)" and "length (fi_base nt) = fi_count nt" and "0 \<le> off" and "0 \<le> m"
    and "\<forall>x p. 0 \<le> fst (cb x p)"
  shows "nt_trav_flow nt off m cb p =
         (let seg = drop (nat off) (fi_base nt); ys = if m = 0 then seg else take (nat m) seg
          in Ret (int (length ys), fold (\<lambda>x p. snd (cb x p)) (filter (\<lambda>f. magic_valid (f_magic f)) ys) p))"
proof -
  have "\<forall>x \<in> set (drop (nat off) (fi_base nt)). nt_get_flow_by_id nt (f_id x) (f_magic x) = Ret (Some x)"
    using get_own [OF assms(1), where count = "fi_count nt" and magic_of = f_magic] assms(2)
    by (auto simp: nt_get_flow_by_id_def dest: in_set_dropD)
  then show ?thesis unfolding nt_trav_flow_def trav_nodes_from_def using assms(2-5) by (simp add: trav_loop_all)
qed

text \<open>A node that changes hands between the test and the lookup ends the process of the traversal.\<close>

lemma changed_node_ends:
  assumes "magic_valid (magic_of x)" and "get x = Ret None" and "m = 0"
  shows "trav_loop get magic_of cb m (x # xs) count p = Fault Undefined"
  using assms by simp

text \<open>\<open>nquery user <uid> <magic>\<close> dumps the user whose number is the magic number given.\<close>

lemma dump_picks_magic:
  assumes "table_ok (\<lambda>u. u_id (un u)) (ui_base nt)" and "length (ui_base nt) = ui_count nt" and "\<forall>u. ret u = 0"
    and "dump_userinfo ret nt uid mg = Ret (n, out)" and "UserDump u \<in> set out"
  shows "u_id (un u) = mg"
proof -
  have f: "fold (\<lambda>x p. snd (dump_user_fn ret mg x p)) us p =
      p @ map (\<lambda>u. if mg = u_id (un u) then UserDump u else UserLine u) us" for us p
    by (induction us arbitrary: p) (simp_all add: dump_user_fn_def)
  have "out = map (\<lambda>u. if mg = u_id (un u) then UserDump u else UserLine u) (filter (\<lambda>u. magic_valid (u_magic (un u))) (ui_base nt))"
    using assms(4) nt_trav_user_all [OF assms(1,2), of 0 0 "dump_user_fn ret mg" "[]"] assms(3)
    by (simp add: dump_userinfo_def f Let_def) (simp add: dump_user_fn_def)
  then show ?thesis using assms(5) by (auto split: if_splits)
qed

lemma get_user_by_id_found:
  assumes "length (ui_base nt) = ui_count nt" and "unat uid < ui_count nt"
  shows "nt_get_user_by_id nt uid mg =
         Ret (if u_magic (un (ui_base nt ! unat uid)) \<noteq> mg then None else Some (ui_base nt ! unat uid))"
  using assms by (simp add: nt_get_user_by_id_def get_by_id_def)

text \<open>A handle with an old magic number changes nothing; a number outside the table ends the service.\<close>

lemma stale_handle_refused:
  assumes "length (ui_base nt) = ui_count nt" and "unat uid < ui_count nt" and "u_magic (un (ui_base nt ! unat uid)) \<noteq> mg"
  shows "set_status nt uid mg st = Ret (NotFound uid mg, nt)"
  using assms by (simp add: set_status_def get_user_def get_user_by_id_found)

lemma wrong_uid_ends: "ui_count nt \<le> unat uid \<Longrightarrow> set_status nt uid mg st = Fault BugOn"
  by (simp add: set_status_def get_user_def nt_get_user_by_id_def get_by_id_def run_bind_assertion)

text \<open>A status is cut to eight bits: 257 is the status of a user who has logged in.\<close>

lemma status_cut: "user_set_status nt uid mg 257 = user_set_online nt uid mg"
proof -
  have "ucast (word_of_int 257 :: u32) = (1 :: u8)" by transfer simp
  then show ?thesis by (simp only: user_set_status_def user_set_online_def AUTH_OK_def)
qed

lemma set_status_found:
  assumes "length (ui_base nt) = ui_count nt" and "unat uid < ui_count nt" and "u_magic (un (ui_base nt ! unat uid)) = mg"
  shows "set_status nt uid mg st =
         Ret (LuaTrue, put_user nt uid ((ui_base nt ! unat uid)\<lparr>un := (un (ui_base nt ! unat uid))\<lparr>status := st\<rparr>\<rparr>))"
  using assms by (simp add: set_status_def get_user_def get_user_by_id_found nt_auth_set_status_def Let_def)

lemma ok_passes:
  assumes "status ui = AUTH_OK"
  shows "verdict_of (nos_auth_hook env s din dout skb ct ui) = NF_ACCEPT \<and> out_ct (nos_auth_hook env s din dout skb ct ui) = ct \<and>
         out_skb (nos_auth_hook env s din dout skb ct ui) = skb \<and> status (out_ui (nos_auth_hook env s din dout skb ct ui)) = AUTH_OK"
  using assms by (simp add: nos_auth_hook_def auth_select_def needs_rule_def AUTH_OK_def AUTH_NONE_def AUTH_REQ_def Let_def)

lemma req_is_gated:
  assumes "status ui = AUTH_REQ" and "u_type ui = AUTH_TYPE_WEB" and "rule_magic ui = g_auth_conf_magic s"
  shows "nos_auth_hook env s din dout skb ct ui = auth_web env s din dout skb ct ui False"
  using assms by (simp add: nos_auth_hook_def auth_select_def needs_rule_def AUTH_NONE_def AUTH_REQ_def)

text \<open>
  C40: log in and log out. When the Lua service sets a user online by his number and current magic
  number, only that user's node changes, and from then on the authentication hook accepts every packet
  of his unchanged and keeps him logged in, whatever the rules become; when it sets him offline, every
  packet of a web user goes through the login gate again as long as the rules are those that
  classified him.
\<close>

theorem login_and_logout:
  assumes "length (ui_base nt) = ui_count nt" and "unat uid < ui_count nt" and "u_magic (un (ui_base nt ! unat uid)) = mg"
  shows "\<exists>nt1 nt2. user_set_online nt uid mg = Ret (LuaTrue, nt1) \<and> user_set_offline nt1 uid mg = Ret (LuaTrue, nt2) \<and>
           (\<forall>j. j \<noteq> unat uid \<longrightarrow> ui_base nt1 ! j = ui_base nt ! j \<and> ui_base nt2 ! j = ui_base nt ! j) \<and>
           (\<forall>env s din dout skb ct.
              let out = nos_auth_hook env s din dout skb ct (un (ui_base nt1 ! unat uid))
              in verdict_of out = NF_ACCEPT \<and> out_ct out = ct \<and> out_skb out = skb \<and> status (out_ui out) = AUTH_OK) \<and>
           (\<forall>env s din dout skb ct.
              let ui = un (ui_base nt2 ! unat uid)
              in u_type ui = AUTH_TYPE_WEB \<and> rule_magic ui = g_auth_conf_magic s \<longrightarrow>
                 nos_auth_hook env s din dout skb ct ui = auth_web env s din dout skb ct ui False)"
proof -
  let ?u = "ui_base nt ! unat uid"
  let ?n = "\<lambda>st. put_user nt uid (?u\<lparr>un := (un ?u)\<lparr>status := st\<rparr>\<rparr>)"
  have on: "user_set_online nt uid mg = Ret (LuaTrue, ?n AUTH_OK)"
    using set_status_found [OF assms] by (simp add: user_set_online_def)
  have off: "user_set_offline (?n AUTH_OK) uid mg = Ret (LuaTrue, ?n AUTH_REQ)"
    using set_status_found [of "?n AUTH_OK" uid mg AUTH_REQ] assms by (simp add: user_set_offline_def put_user_def)
  have nth: "un (ui_base (?n st) ! unat uid) = (un ?u)\<lparr>status := st\<rparr>" for st
    using assms(1,2) by (simp add: put_user_def)
  have others: "j \<noteq> unat uid \<Longrightarrow> ui_base (?n st) ! j = ui_base nt ! j" for j st by (simp add: put_user_def)
  show ?thesis
    by (rule exI [of _ "?n AUTH_OK"], rule exI [of _ "?n AUTH_REQ"])
       (simp only: on off nth Let_def, auto simp: others ok_passes intro: req_is_gated)
qed

definition demo_node :: user_node where
  "demo_node = \<lparr>un = demo_req, u_grp_id = 0, u_usr_crc = 0\<rparr>"

definition demo_ntrack :: ntrack where
  "demo_ntrack = \<lparr>fi_count = 0, ui_count = 1, fi_base = [], ui_base = [demo_node]\<rparr>"

theorem login_and_logout_witness:
  "\<exists>nt1 nt2. user_set_online demo_ntrack 0 4 = Ret (LuaTrue, nt1) \<and> user_set_offline nt1 0 4 = Ret (LuaTrue, nt2) \<and>
     verdict_of (nos_auth_hook demo_env auth_demo None None demo_skb \<lparr>ct_status = 0\<rparr> (un (ui_base nt1 ! 0))) = NF_ACCEPT"
  using login_and_logout [of demo_ntrack 0 4]
  by (auto simp: demo_ntrack_def demo_node_def demo_req_def demo_ui_def Let_def)

section \<open>What the services are told\<close>

text \<open>The keep-alive message of a user in the table reaches the authentication service as text.\<close>

lemma keepalive_forwarded:
  assumes "length (ui_base nt) = ui_count nt" and "unat (u_id ui) < ui_count nt" and "un (ui_base nt ! unat (u_id ui)) = ui"
    and "out_msgs (nos_auth_hook env s din dout skb ct ui) \<noteq> []" and "status ui = AUTH_OK"
  shows "\<exists>a. out_msgs (nos_auth_hook env s din dout skb ct ui) = [a] \<and>
           nt_unotify_auth sendmsg errno True nt a =
             Ret (do_nt_unotify sendmsg errno (AuthText (keepalive_text a)) 50002, [(AuthText (keepalive_text a), 50002)])"
proof -
  have "out_msgs (nos_auth_hook env s din dout skb ct ui) = [\<lparr>m_magic = u_magic ui, m_id = u_id ui\<rparr>]"
    using assms(4,5)
    by (auto simp: nos_auth_hook_def auth_select_def needs_rule_def AUTH_OK_def AUTH_NONE_def AUTH_REQ_def Let_def split: if_splits)
  then show ?thesis using assms(1-3)
    by (simp add: nt_unotify_auth_def trans_authmsg_def get_user_by_id_found)
qed

text \<open>The text fits the buffer of 128 bytes.\<close>

lemma length_keepalive_text: "length (keepalive_text a) \<le> 59"
  using length_dec_u32 [of "m_magic a"] length_dec_u32 [of "m_id a"] by (simp add: keepalive_text_def quot_def)

text \<open>The groups listed for a rule are the groups of the mask.\<close>

lemma ipgrp_array_members: "create_ipgrp_array bits = CArray xs \<Longrightarrow> CNumber (int i) \<in> set xs \<longleftrightarrow> bit bits i"
  using bit_imp_le_length [of bits i] by (auto simp: create_ipgrp_array_def)

text \<open>A failed transmission counts as a successful one.\<close>

lemma send_failure_unnoticed: "sendmsg d port = -1 \<Longrightarrow> do_nt_unotify sendmsg errno d port = 0"
  by (simp add: do_nt_unotify_def)

end
