(* ===== verification/Spec2Isabelle.thy ===== *)
theory Spec2Isabelle
  imports Ruletable_Fetch Nproto_Nacs Msg_Queue Rds_Parser Tbq_Drain Lua_Encrypt Klog User_Nodes
begin

text \<open>
  Verification of the C core of an OpenWrt access controller.

  \<^bold>\<open>The program.\<close> The router runs several kernel modules of this repository on every forwarded
  packet. The module \<open>nos\<close> (\<open>drivers/nos/src\<close>) knows the zone of every interface, the ip groups
  of every address (as kernel ipsets) and the authentication rules; it decides whether a user
  may pass, must log in (his HTTP requests are redirected, other traffic is dropped) or is let
  through. The module \<open>nacs\<close> (\<open>drivers/nacs/src\<close>) checks every identified flow against black
  and white lists and access rules and keeps the decision in the flags of the flow node
  (\<open>include/src/ntrack_flow.h\<close>). User space configures \<open>nos\<close> through three character devices
  with a line protocol, and \<open>nacs\<close> through socket options with binary tables that the tool
  \<open>ruletable\<close> (\<open>ruletable/src\<close>) builds from JSON. The module \<open>nfw\<close> (\<open>drivers/nfw/src\<close>) runs after
  them and drops the packets of flows marked for it. The module \<open>nproto\<close> (\<open>drivers/nproto/src\<close>)
  identifies the application protocol of a flow from ports, lengths, contents and HTTP headers, tells
  the modules that registered with it (\<open>nacs\<close>) when the protocol changes, and keeps statistics of users
  and flows. The module \<open>tbq\<close> (\<open>drivers/tbq/src\<close>) limits the rates of flows and users with token
  buckets and queues what exceeds them. Events of the kernel reach the daemon
  \<open>ntrackd\<close> through per-CPU queues (\<open>drivers/nos/src/ntrack_msg.c\<close>) and ring buffers in memory that
  both map (\<open>include/src/ntrack_rbf.h\<close>, \<open>libs/utils/src/nt_message.c\<close>). The Lua services talk to
  each other through redis with the C library \<open>rdsparser\<close>, encode messages with \<open>lua-encrypt\<close>, and read
  and change the users in the shared memory with \<open>lua-nos\<close>; \<open>nquery\<close> does so from the command line. The
  modules switch their log levels with \<open>drivers/kernel-log\<close>.

  \<^bold>\<open>The theories.\<close>
  \<^item> \<open>Prelude\<close>: word types, the outcome type \<open>run\<close> (a result, or a fault: failed \<open>BUG_ON\<close>,
    undefined behaviour, no fuel left), error numbers, the C string functions the sources use.
  \<^item> \<open>Ctl_Device\<close>: the line buffer and dispatch that \<open>nos_zone_write\<close>, \<open>nos_ipgrp_write\<close> and
    \<open>nos_auth_write\<close> share, proved equal to a byte-at-a-time reader, and two locales for what a
    table behind such a device must provide (\<open>ctl_interpreter\<close>: every command keeps the invariant;
    \<open>ctl_dump\<close>: the printed state can be replayed); each device interprets them.
  \<^item> \<open>Hook_Guard\<close>: the switch \<open>nos_hook_disable\<close> as an interleaving of writers and hooks.
  \<^item> \<open>Nos_Zone\<close>, \<open>Ipset_Refs\<close>, \<open>Nos_Ipgrp\<close>, \<open>Nos_Auth\<close>: the three tables, one record each, with
    every command of their devices, the dumps, and a log of the ipset references taken and
    dropped.
  \<^item> \<open>Auth_Hook\<close>: rule selection, the login gate, the HTTP redirect and the TCP reset
    (\<open>nos_auth.c\<close> from \<open>nos_auth_hook\<close> on).
  \<^item> \<open>Nos_Main\<close>: the netfilter hooks of \<open>nos_main.c\<close>, the character device set-up, module start and
    stop.
  \<^item> \<open>Flow_Flags\<close>: the flag word and private areas of \<open>ntrack_flow.h\<close>.
  \<^item> \<open>Nacs_Layout\<close>: \<open>match_target.c\<close> and \<open>rule_entry.c\<close> of \<open>ruletable\<close>: rules to bytes.
  \<^item> \<open>Nacs_Table\<close>: \<open>nacs_table.c\<close>, installing and evaluating rule tables on raw bytes.
  \<^item> \<open>Nacs_Sets\<close>: \<open>nacs_table.c\<close>, the lists and the read-back handlers.
  \<^item> \<open>Nacs_Query\<close>: \<open>nacs_table.c\<close> from \<open>__do_set\<close> on, \<open>nacs_main.c\<close>, \<open>nacs_ipc.c\<close>.
  \<^item> \<open>Nacs_Config\<close>: the configurations \<open>nacs\<close> can reach, as an inductive relation, their
    invariants and the properties of the hook in all of them.
  \<^item> \<open>Ruletable_Parse\<close>: \<open>json_utility.c\<close>, \<open>audit_control.c\<close> and \<open>do_parse_config\<close>, from the JSON tree to
    the rules in memory.
  \<^item> \<open>Ruletable_Commit\<close>: \<open>rule_core.c\<close> and \<open>rule_ipc.c\<close>, sending the configuration to the kernel. What the
    tool relies on is the locale \<open>rule_ipc\<close>; \<open>nacs\<close> interprets it.
  \<^item> \<open>Ruletable_Fetch\<close>: the tool reading the configuration back from the kernel.
  \<^item> \<open>Nfw\<close>: \<open>drivers/nfw\<close>, the hook, the debug filter and its log buffer, start and stop.
  \<^item> \<open>Msg_Ring\<close>: the shared ring, against the locale \<open>bounded_fifo\<close>, and as interleaved steps of writer
    and reader.
  \<^item> \<open>Msg_Queue\<close>: the queues in front of the rings, the worker that empties them, and how a thread of
    the daemon finds its ring.
  \<^item> \<open>Rds_Parser\<close>: encoder and incremental parser of \<open>rdsparser/src\<close>, with the buffer's true size beside
    the size the parser believes.

  \<^item> \<open>Tbq_Config\<close>, \<open>Tbq_Token\<close>, \<open>Tbq_Sched\<close>, \<open>Tbq_Main\<close>: the shaper: its configuration, the token buckets, the
    two levels of weighted round robin, and the packet path with its timer and the life of flows, users
    and rules. \<open>Tbq_Rate\<close>: the bytes let through under a limit, by the locale \<open>rate_account\<close>, interpreted on the
    buckets of the model. \<open>Tbq_Drain\<close>: the timer function ends.
  \<^item> \<open>Nproto_Bmh\<close>: the string search \<open>bmh.c\<close>. \<open>Nproto_Match\<close>: \<open>rules.c\<close>, one packet against one rule, and the
    HTTP header parser \<open>rules/http.c\<close>. \<open>Nproto_Rules\<close>: sets of rules, compiling, registering, building and
    identification. \<open>Nproto_Builtin\<close>: the rules of \<open>rules/*.c\<close>. \<open>Nproto_Order\<close>: the order of a set and what it
    means for identification. \<open>Nproto_Stat\<close>: \<open>statistic.c\<close> and the reader of \<open>nquery\<close>. \<open>Nproto_Main\<close>: \<open>main.c\<close>;
    what the modules rely on when they register a hook is the locale \<open>hook_registry\<close>. \<open>Nproto_Nacs\<close>: the
    change of a protocol together with \<open>nacs\<close>.
  \<^item> \<open>Lua_Encrypt\<close>: \<open>libencrypt.c\<close> and \<open>luawrap.c\<close>. \<open>Klog\<close>: \<open>klog_linux.c\<close> and \<open>klog_ioctl.c\<close>, with the memory of the
    items apart from their timers.
  \<^item> \<open>User_Nodes\<close>: lookups and traversals of the shared tables, \<open>lua-nos\<close>, the changes and dumps of \<open>nquery\<close>,
    and the messages of \<open>ntrackd\<close> to the services.

  \<^bold>\<open>Faithfulness.\<close> Machine integers are words of their width; where the C code computes in \<open>int\<close>
  or \<open>size_t\<close> the wrap is written out. Memory that is read by offset (the binary tables) is a list
  of bytes and an access outside it is the fault \<open>Undefined\<close>. Kernel services outside the
  repository (ipset, device lookup, checksums, allocation, the clock, registration calls) are
  parameters: fields of the environment records, or function arguments. Locks of the kernel are
  not modelled except for the hook switch, which is the repository's own.

  \<^bold>\<open>Bounds and fuel.\<close> The walks over a received rule table take fuel, because they need not end
  (\<open>zero_offset_hangs\<close>): for tables of \<open>n\<close> encoded rules any fuel above \<open>n\<close> suffices, which is part of the
  theorems. The loops of the shaper's timer take fuel; \<open>timer_finishes\<close> shows that some fuel suffices in
  every state a run of events leads to. Every other function is total. \<open>ncpu < 2 ^ 20\<close> keeps the per-CPU
  allocation of the four lists below \<open>2 ^ 32\<close>.

  \<^bold>\<open>What the theorems show.\<close> For \<open>nos\<close>: the forwarding hook implements the access policy; the login
  gate lets nothing through that it should not; redirect and reset packets are well-formed; the
  tables keep their invariants and balanced references under any bytes written to the devices;
  dumps can be replayed; a failed module start releases everything. For \<open>nacs\<close> and \<open>ruletable\<close>:
  rules survive the way from the tool to the packet path on every CPU; in every reachable
  configuration the hook stores exactly the decision of lists and rules in the flow, once per
  version, and an update reaches flows already decided; references stay balanced until unloading;
  a configuration file that the tool accepts is the configuration the kernel enforces, and what the
  tool reads back. For \<open>nfw\<close>: exactly the rejected and marked flows are dropped, and its log stays in
  bounds. For the messages: the ring is a bounded queue in every interleaving, the daemon sees whole
  messages in order, and a burst arrives newest first. For \<open>rdsparser\<close>: messages survive encoding,
  any cutting of the stream, and decoding. For \<open>tbq\<close>: the parser yields usable rules, the limits hold for
  every sequence of events, and the timer ends. For \<open>nproto\<close>: the string search finds the first occurrence,
  the rule reported has the highest priority among those that match, payloads stay inside the packet,
  registered modules hear of every change, and a flush writes the users first and the flows behind them, where
  the reader of \<open>nquery\<close> takes the users for flows (\<open>dump_after_flush\<close>). For
  the user-space libraries: encoded messages decode to themselves, and logging a user in or out takes
  effect in the hook of \<open>nos\<close> on his next packet. For the log switch: what is in force after temporary
  levels end, and that handles stay valid.
  The remaining theorems pin down behaviour that differs from what the code means to do (group
  masks above 30, the shared hook switch, unchecked tables, reference drops on refusal, a double
  free when both tables are read back, inputs that end the redis parser, rules that are never
  identified, flows judged by two different numbers, timers that outlive their items, messages that
  end the process that decodes them).

  \<^bold>\<open>Not modelled\<close>: vendored code (pcre2 with sljit, lz4, nxjson, the multi-pattern search of mwm and
  wu-manber, QSORT), which is a parameter where the model needs it; the pcre wrapper and the debug and test
  files of \<open>nproto\<close>; the packet capture of \<open>nos_track\<close>, whose source is incomplete; output of logs and dumps;
  command-line parsing, sockets and memory mapping of the tools; and the Lua, web and shell parts of the
  repository.
\<close>

end
